(* ===== verification/JsPrelude.thy ===== *)
theory JsPrelude
  imports Main "HOL-Library.AList" "HOL-Library.Sublist" "HOL-Library.List_Lexorder" "HOL-Library.Char_ord"
begin

text \<open>
  The part of JavaScript that every component of the gateway shares: strings with trim and
  toLowerCase, optional values, the insertion-ordered Map and Set, and the lemma collections
  the component theories use.

  A string is a list of code units. A \<^typ>\<open>char\<close> ranges over the code units 0 to 255, and
  whitespace and lower case below are those of the ECMAScript standard on that range; strings
  with code units above 255 are outside the model.
\<close>

section \<open>Lemma collections\<close>

named_theorems str_simps \<open>normalisation of trimmed and lower-cased strings\<close>
named_theorems map_simps \<open>insertion-ordered maps and sets\<close>

section \<open>Optional values\<close>

text \<open>\<open>undefined\<close> and \<open>null\<close> are None; \<open>a ?? b\<close> is nullish, \<open>s || d\<close> on strings is \<open>str_or\<close>.\<close>

definition nullish :: "'a option \<Rightarrow> 'a \<Rightarrow> 'a" where
  "nullish x d = (case x of None \<Rightarrow> d | Some v \<Rightarrow> v)"

definition nullish_opt :: "'a option \<Rightarrow> 'a option \<Rightarrow> 'a option" where
  "nullish_opt x y = (case x of None \<Rightarrow> y | Some v \<Rightarrow> Some v)"

definition str_or :: "string \<Rightarrow> string \<Rightarrow> string" where
  "str_or s d = (if s = [] then d else s)"

text \<open>\<open>s || undefined\<close> and \<open>s ? s : null\<close>.\<close>

definition str_opt :: "string \<Rightarrow> string option" where
  "str_opt s = (if s = [] then None else Some s)"

lemma nullish_simps [simp]: "nullish None d = d" "nullish (Some v) d = v"
  by (simp_all add: nullish_def)

lemma nullish_opt_simps [simp]: "nullish_opt None y = y" "nullish_opt (Some v) y = Some v"
  by (simp_all add: nullish_opt_def)

lemma str_or_simps [simp]: "str_or [] d = d" "s \<noteq> [] \<Longrightarrow> str_or s d = s"
  by (simp_all add: str_or_def)

lemma str_or_Nil_iff [simp]: "str_or s d = [] \<longleftrightarrow> s = [] \<and> d = []"
  by (simp add: str_or_def)

lemma str_opt_simps [simp]: "str_opt s = None \<longleftrightarrow> s = []" "str_opt s = Some t \<longleftrightarrow> s \<noteq> [] \<and> t = s"
  by (auto simp: str_opt_def)

section \<open>Characters\<close>

definition js_ws :: "char \<Rightarrow> bool" where
  "js_ws c = (let n = (of_char c :: nat) in (9 \<le> n \<and> n \<le> 13) \<or> n = 32 \<or> n = 160)"

definition lower_char :: "char \<Rightarrow> char" where
  "lower_char c = (let n = (of_char c :: nat) in
     if (65 \<le> n \<and> n \<le> 90) \<or> (192 \<le> n \<and> n \<le> 222 \<and> n \<noteq> 215) then char_of (n + 32) else c)"

lemma of_char_lower:
  "(of_char (lower_char c) :: nat) = (let n = (of_char c :: nat) in
     if (65 \<le> n \<and> n \<le> 90) \<or> (192 \<le> n \<and> n \<le> 222 \<and> n \<noteq> 215) then n + 32 else n)"
  by (auto simp: lower_char_def Let_def of_char_of)

lemma lower_char_idem [simp, str_simps]: "lower_char (lower_char c) = lower_char c"
proof -
  have "(of_char (lower_char (lower_char c)) :: nat) = of_char (lower_char c)"
    by (simp add: of_char_lower Let_def)
  then show ?thesis by (simp add: of_char_eq_iff)
qed

lemma js_ws_lower [simp, str_simps]: "js_ws (lower_char c) = js_ws c"
  by (auto simp: js_ws_def of_char_lower Let_def)

section \<open>trim and toLowerCase\<close>

definition trim_start :: "string \<Rightarrow> string" where
  "trim_start s = dropWhile js_ws s"

definition trim_end :: "string \<Rightarrow> string" where
  "trim_end s = rev (dropWhile js_ws (rev s))"

definition trim :: "string \<Rightarrow> string" where
  "trim s = trim_end (trim_start s)"

definition to_lower :: "string \<Rightarrow> string" where
  "to_lower s = map lower_char s"

text \<open>A string is trimmed when neither end is whitespace.\<close>

definition trimmed :: "string \<Rightarrow> bool" where
  "trimmed s \<longleftrightarrow> s = [] \<or> (\<not> js_ws (hd s) \<and> \<not> js_ws (last s))"

lemma dropWhile_rev_hd:
  assumes "s \<noteq> []" "\<not> P (hd s)"
  shows "rev (dropWhile P (rev s)) \<noteq> [] \<and> hd (rev (dropWhile P (rev s))) = hd s"
  using assms
proof (induction s rule: rev_induct)
  case (snoc x xs)
  then show ?case by (cases "xs = []") (auto simp: hd_append)
qed simp

lemma last_rev_dropWhile: "rev (dropWhile P (rev s)) \<noteq> [] \<Longrightarrow> \<not> P (last (rev (dropWhile P (rev s))))"
  by (metis hd_dropWhile last_rev rev_is_Nil_conv)

lemma trimmed_trim [simp, str_simps]: "trimmed (trim s)"
proof (cases "trim_start s = []")
  case True
  then show ?thesis by (simp add: trim_def trim_end_def trimmed_def)
next
  case False
  then have h: "\<not> js_ws (hd (trim_start s))"
    by (simp add: trim_start_def hd_dropWhile)
  from dropWhile_rev_hd [of "trim_start s" js_ws] last_rev_dropWhile [of js_ws "trim_start s"] False h
  show ?thesis by (simp add: trim_def trim_end_def trimmed_def)
qed

lemma trim_id [str_simps]: "trimmed s \<Longrightarrow> trim s = s"
proof (cases "s = []")
  case False
  assume "trimmed s"
  with False have "\<not> js_ws (hd s)" "\<not> js_ws (last s)" by (auto simp: trimmed_def)
  moreover from this False have "dropWhile js_ws s = s" by (cases s) auto
  moreover from calculation False have "dropWhile js_ws (rev s) = rev s"
    by (cases "rev s") (auto simp: hd_rev [symmetric])
  ultimately show ?thesis by (simp add: trim_def trim_start_def trim_end_def)
qed (simp add: trim_def trim_start_def trim_end_def)

lemma trim_trim [simp, str_simps]: "trim (trim s) = trim s"
  by (simp add: trim_id)

lemma trim_Nil [simp]: "trim [] = []"
  by (simp add: trim_def trim_start_def trim_end_def)

lemma set_trim: "set (trim s) \<subseteq> set s"
  by (auto simp: trim_def trim_start_def trim_end_def dest!: set_dropWhileD)

lemma to_lower_idem [simp, str_simps]: "to_lower (to_lower s) = to_lower s"
  by (simp add: to_lower_def)

lemma to_lower_Nil [simp]: "to_lower [] = []"
  by (simp add: to_lower_def)

lemma to_lower_eq_Nil [simp]: "to_lower s = [] \<longleftrightarrow> s = []"
  by (simp add: to_lower_def)

lemma length_to_lower [simp]: "length (to_lower s) = length s"
  by (simp add: to_lower_def)

lemma to_lower_append [simp]: "to_lower (s @ t) = to_lower s @ to_lower t"
  by (simp add: to_lower_def)

lemma trimmed_lower [simp, str_simps]: "trimmed (to_lower s) = trimmed s"
  by (cases "s = []") (auto simp: trimmed_def to_lower_def hd_map last_map)

lemma dropWhile_lower: "dropWhile js_ws (map lower_char s) = map lower_char (dropWhile js_ws s)"
  by (simp add: dropWhile_map comp_def)

lemma trim_lower [str_simps]: "trim (to_lower s) = to_lower (trim s)"
  by (simp add: trim_def trim_start_def trim_end_def to_lower_def dropWhile_lower rev_map)

lemma trim_to_lower_trim [simp, str_simps]: "trim (to_lower (trim s)) = to_lower (trim s)"
  by (simp add: trim_lower)

lemma trimmed_no_ws: "\<forall>c \<in> set s. \<not> js_ws c \<Longrightarrow> trimmed s"
  by (cases s) (auto simp: trimmed_def)

definition lowercase :: "string \<Rightarrow> bool" where
  "lowercase s \<longleftrightarrow> to_lower s = s"

lemma lowercase_to_lower [simp, str_simps]: "lowercase (to_lower s)"
  by (simp add: lowercase_def)

lemma lowercase_append [simp]: "lowercase (s @ t) \<longleftrightarrow> lowercase s \<and> lowercase t"
  by (simp add: lowercase_def append_eq_append_conv)

lemma lowercase_iff: "lowercase s \<longleftrightarrow> (\<forall>c \<in> set s. lower_char c = c)"
  unfolding lowercase_def to_lower_def by (simp add: list_eq_iff_nth_eq all_set_conv_all_nth)

lemma lowercase_subset: "lowercase s \<Longrightarrow> set t \<subseteq> set s \<Longrightarrow> lowercase t"
  by (auto simp: lowercase_iff)

section \<open>toUpperCase\<close>

text \<open>\<open>toUpperCase\<close>; the two characters with an upper case outside Latin-1 (181 and 255) stay as they are.\<close>

definition upper_char :: "char \<Rightarrow> string" where
  "upper_char c = (let n = (of_char c :: nat) in
     if (97 \<le> n \<and> n \<le> 122) \<or> (224 \<le> n \<and> n \<le> 254 \<and> n \<noteq> 247) then [char_of (n - 32)] else if n = 223 then ''SS'' else [c])"

definition to_upper :: "string \<Rightarrow> string" where
  "to_upper s = concat (map upper_char s)"

section \<open>startsWith, includes, split and join\<close>

definition starts_with :: "string \<Rightarrow> string \<Rightarrow> bool" where
  "starts_with s p = prefix p s"

fun str_includes :: "string \<Rightarrow> string \<Rightarrow> bool" where
  "str_includes [] p = (p = [])"
| "str_includes (c # s) p = (prefix p (c # s) \<or> str_includes s p)"

text \<open>\<open>s.split(c)\<close> for a one-character separator: never the empty list.\<close>

fun split_on :: "char \<Rightarrow> string \<Rightarrow> string list" where
  "split_on d [] = [[]]"
| "split_on d (c # s) =
     (if c = d then [] # split_on d s
      else (case split_on d s of [] \<Rightarrow> [[c]] | w # ws \<Rightarrow> (c # w) # ws))"

fun join_with :: "string \<Rightarrow> string list \<Rightarrow> string" where
  "join_with d [] = []"
| "join_with d [w] = w"
| "join_with d (w # ws) = w @ d @ join_with d ws"

definition nonempty_strs :: "string list \<Rightarrow> string list" where
  "nonempty_strs ws = filter (\<lambda>w. w \<noteq> []) ws"

lemma split_on_not_Nil [simp]: "split_on d s \<noteq> []"
  by (induction s) (auto split: list.splits)

lemma split_on_no_sep: "w \<in> set (split_on d s) \<Longrightarrow> d \<notin> set w"
proof (induction s arbitrary: w)
  case (Cons c s)
  then show ?case by (cases "split_on d s") (auto split: if_splits)
qed simp

lemma set_split_on: "w \<in> set (split_on d s) \<Longrightarrow> set w \<subseteq> set s"
proof (induction s arbitrary: w)
  case (Cons c s)
  show ?case
  proof (cases "split_on d s")
    case (Cons v vs)
    with Cons.prems Cons.IH show ?thesis by (fastforce split: if_splits)
  qed simp
qed simp

lemma split_on_append_sep: "d \<notin> set w \<Longrightarrow> split_on d (w @ d # s) = w # split_on d s"
  by (induction w) auto

lemma split_on_append: "split_on d (v @ d # s) = split_on d v @ split_on d s"
  by (induction v) (auto split: list.splits)

lemma split_on_single: "d \<notin> set w \<Longrightarrow> split_on d w = [w]"
  by (induction w) auto

lemma split_join:
  "ws \<noteq> [] \<Longrightarrow> \<forall>w \<in> set ws. d \<notin> set w \<Longrightarrow> split_on d (join_with [d] ws) = ws"
proof (induction ws)
  case (Cons w ws)
  then show ?case by (cases ws) (auto simp: split_on_append_sep split_on_single)
qed simp

lemma set_join_with: "set (join_with d ws) \<subseteq> set d \<union> \<Union> (set ` set ws)"
  by (induction d ws rule: join_with.induct) auto

lemma join_with_Nil_iff: "\<forall>w \<in> set ws. w \<noteq> [] \<Longrightarrow> join_with d ws = [] \<longleftrightarrow> ws = []"
  by (cases "(d, ws)" rule: join_with.cases) auto

text \<open>\<open>s.endsWith(p)\<close>, \<open>s.indexOf(c)\<close> (None for -1), \<open>s.slice(1, -1)\<close> and \<open>s.slice(0, n)\<close>.\<close>

definition ends_with :: "string \<Rightarrow> string \<Rightarrow> bool" where
  "ends_with s p = suffix p s"

fun index_of :: "char \<Rightarrow> string \<Rightarrow> nat option" where
  "index_of d [] = None"
| "index_of d (c # s) = (if c = d then Some 0 else map_option Suc (index_of d s))"

definition slice_inner :: "string \<Rightarrow> string" where
  "slice_inner s = butlast (tl s)"

lemma ends_with_append [simp]: "ends_with (s @ p) p"
  by (simp add: ends_with_def suffix_def)

lemma index_of_None_iff: "index_of d s = None \<longleftrightarrow> d \<notin> set s"
  by (induction s) auto

lemma starts_with_simps [simp]:
  "starts_with s []" "\<not> starts_with [] (c # p)"
  "starts_with (c # s) (d # p) \<longleftrightarrow> c = d \<and> starts_with s p"
  by (auto simp: starts_with_def)

lemma starts_with_append [simp]: "starts_with (p @ s) p"
  by (simp add: starts_with_def)

text \<open>Evaluation of the string functions on literals.\<close>

lemmas str_eval = trim_def trim_start_def trim_end_def to_lower_def js_ws_def lower_char_def
  Let_def char_of_def nonempty_strs_def

section \<open>Insertion-ordered Set and Map\<close>

text \<open>
  A JavaScript Set is the list of its members in insertion order; \<open>add\<close> of a member it holds
  changes nothing. A Map is an association list: \<open>set\<close> on a present key keeps the key's place
  (AList.update), on a fresh key appends; \<open>delete\<close> is AList.delete; the first entry is the
  oldest one, which \<open>map.keys().next()\<close> returns.
\<close>

definition set_add :: "'a \<Rightarrow> 'a list \<Rightarrow> 'a list" where
  "set_add x xs = (if x \<in> set xs then xs else xs @ [x])"

definition js_set_of :: "'a list \<Rightarrow> 'a list" where
  "js_set_of xs = fold set_add xs []"

lemma set_set_add [simp, map_simps]: "set (set_add x xs) = insert x (set xs)"
  by (auto simp: set_add_def)

lemma distinct_set_add [simp, map_simps]: "distinct xs \<Longrightarrow> distinct (set_add x xs)"
  by (simp add: set_add_def)

lemma set_fold_add: "set (fold set_add xs acc) = set xs \<union> set acc"
  by (induction xs arbitrary: acc) auto

lemma distinct_fold_add: "distinct acc \<Longrightarrow> distinct (fold set_add xs acc)"
  by (induction xs arbitrary: acc) auto

lemma set_js_set_of [simp, map_simps]: "set (js_set_of xs) = set xs"
  by (simp add: js_set_of_def set_fold_add)

lemma distinct_js_set_of [simp, map_simps]: "distinct (js_set_of xs)"
  by (simp add: js_set_of_def distinct_fold_add)

lemma fold_add_distinct: "distinct (acc @ xs) \<Longrightarrow> fold set_add xs acc = acc @ xs"
  by (induction xs arbitrary: acc) (auto simp: set_add_def)

lemma js_set_of_distinct [simp, map_simps]: "distinct xs \<Longrightarrow> js_set_of xs = xs"
  by (simp add: js_set_of_def fold_add_distinct)

lemma js_set_of_Nil_iff [simp]: "js_set_of xs = [] \<longleftrightarrow> xs = []"
  by (metis set_empty set_js_set_of)

type_synonym ('k, 'v) js_map = "('k \<times> 'v) list"

abbreviation map_get :: "('k, 'v) js_map \<Rightarrow> 'k \<Rightarrow> 'v option" where
  "map_get m k \<equiv> map_of m k"

abbreviation map_set :: "'k \<Rightarrow> 'v \<Rightarrow> ('k, 'v) js_map \<Rightarrow> ('k, 'v) js_map" where
  "map_set \<equiv> AList.update"

abbreviation map_delete :: "'k \<Rightarrow> ('k, 'v) js_map \<Rightarrow> ('k, 'v) js_map" where
  "map_delete \<equiv> AList.delete"

abbreviation map_keys :: "('k, 'v) js_map \<Rightarrow> 'k list" where
  "map_keys m \<equiv> map fst m"

definition wf_map :: "('k, 'v) js_map \<Rightarrow> bool" where
  "wf_map m \<longleftrightarrow> distinct (map_keys m)"

lemma wf_map_Nil [simp]: "wf_map []"
  by (simp add: wf_map_def)

lemma wf_map_set [simp, map_simps]: "wf_map m \<Longrightarrow> wf_map (map_set k v m)"
  by (simp add: wf_map_def distinct_update)

lemma wf_map_delete [simp, map_simps]: "wf_map m \<Longrightarrow> wf_map (map_delete k m)"
  by (simp add: wf_map_def distinct_delete)

lemma wf_map_tl [simp, map_simps]: "wf_map m \<Longrightarrow> wf_map (tl m)"
  by (cases m) (auto simp: wf_map_def)

lemma wf_map_filter [simp, map_simps]: "wf_map m \<Longrightarrow> wf_map (filter P m)"
  by (simp add: wf_map_def distinct_map_filter)

lemma map_get_set [simp, map_simps]: "map_get (map_set k v m) k' = (if k' = k then Some v else map_get m k')"
  by (simp add: update_conv')

lemma map_get_delete [simp, map_simps]: "map_get (map_delete k m) k' = (if k' = k then None else map_get m k')"
  by (simp add: delete_conv')

lemma map_get_tl: "wf_map m \<Longrightarrow> map_get (tl m) k = Some v \<Longrightarrow> map_get m k = Some v"
  by (cases m) (auto simp: wf_map_def dest: map_of_SomeD intro: rev_image_eqI)

lemma map_get_filter:
  "wf_map m \<Longrightarrow> map_get (filter P m) k = (case map_get m k of None \<Rightarrow> None | Some v \<Rightarrow> if P (k, v) then Some v else None)"
proof (induction m)
  case (Cons kv m)
  then show ?case
    by (cases kv) (force simp: wf_map_def split: option.splits dest: map_of_SomeD)
qed simp

lemma length_map_set_le: "length (map_set k v m) \<le> Suc (length m)"
  by (induction m) auto

lemma length_map_set: "length (map_set k v m) = (if map_get m k = None then Suc (length m) else length m)"
  by (induction m) auto

lemma length_map_delete_le: "length (map_delete k m) \<le> length m"
  by (induction m) auto

text \<open>\<open>new Map(entries)\<close>: the last entry of a key wins; with distinct keys every entry is found.\<close>

lemma map_get_fold_set:
  "map_get (fold (\<lambda>(k, v). map_set k v) kvs m) k =
     (case map_of (rev kvs) k of None \<Rightarrow> map_get m k | Some v \<Rightarrow> Some v)"
  by (induction kvs arbitrary: m) (auto simp: map_add_def split: option.splits)

lemma map_get_fold_set_distinct:
  assumes "distinct (map fst kvs)"
  shows "map_get (fold (\<lambda>(k, v). map_set k v) kvs []) k = map_of kvs k"
proof -
  have "map_of (rev kvs) = map_of kvs"
    using assms by (intro map_of_inject_set [THEN iffD2]) (simp_all flip: rev_map)
  then show ?thesis by (auto simp: map_get_fold_set split: option.splits)
qed

lemma find_Some_iff': "find P xs = Some x \<Longrightarrow> x \<in> set xs \<and> P x"
  by (auto simp: find_Some_iff)

section \<open>Numbers as decimal text\<close>

text \<open>\<open>String(n)\<close> for a non-negative integer.\<close>

definition digit_char :: "nat \<Rightarrow> char" where
  "digit_char d = char_of (48 + d)"

fun show_nat :: "nat \<Rightarrow> string" where
  "show_nat n = (if n < 10 then [digit_char n] else show_nat (n div 10) @ [digit_char (n mod 10)])"

declare show_nat.simps [simp del]

lemma show_nat_not_Nil [simp]: "show_nat n \<noteq> []"
  by (subst show_nat.simps) simp

end
