(* ===== verification/OperatorScopes.thy ===== *)
theory OperatorScopes
  imports JsPrelude
begin

text \<open>
  Who may call what on the gateway: the method table and its scopes
  (src/gateway/method-scopes.ts), the two connection roles (src/gateway/role-policy.ts), the
  scope check of device tokens (src/shared/operator-scope-compat.ts) and the normal form of the
  scopes a token stores (src/shared/device-auth.ts).
\<close>

section \<open>Scopes and the method table\<close>

datatype operator_scope = AdminScope | ReadScope | WriteScope | ApprovalsScope | PairingScope

fun scope_name :: "operator_scope \<Rightarrow> string" where
  "scope_name AdminScope = ''operator.admin''"
| "scope_name ReadScope = ''operator.read''"
| "scope_name WriteScope = ''operator.write''"
| "scope_name ApprovalsScope = ''operator.approvals''"
| "scope_name PairingScope = ''operator.pairing''"

definition CLI_DEFAULT_OPERATOR_SCOPES :: "operator_scope list" where
  "CLI_DEFAULT_OPERATOR_SCOPES = [AdminScope, ReadScope, WriteScope, ApprovalsScope, PairingScope]"

definition NODE_ROLE_METHODS :: "string list" where
  "NODE_ROLE_METHODS =
     [''node.invoke.result'', ''node.event'', ''node.canvas.capability.refresh'', ''skills.bins'']"

definition approvals_methods :: "string list" where
  "approvals_methods =
     [''exec.approval.request'', ''exec.approval.waitDecision'', ''exec.approval.resolve'']"

definition pairing_methods :: "string list" where
  "pairing_methods =
     [''node.pair.request'', ''node.pair.list'', ''node.pair.approve'', ''node.pair.reject'',
      ''node.pair.verify'', ''device.pair.list'', ''device.pair.approve'', ''device.pair.reject'',
      ''device.pair.remove'', ''device.token.rotate'', ''device.token.revoke'', ''node.rename'']"

definition read_methods :: "string list" where
  "read_methods =
     [''health'', ''doctor.memory.status'', ''logs.tail'', ''channels.status'', ''status'',
      ''usage.status'', ''usage.cost'', ''tts.status'', ''tts.providers'', ''models.list'',
      ''tools.catalog'', ''agents.list'', ''agent.identity.get'', ''skills.status'',
      ''update.check'', ''voicewake.get'', ''sessions.list'', ''sessions.preview'',
      ''sessions.resolve'', ''sessions.usage'', ''sessions.usage.timeseries'',
      ''sessions.usage.logs'', ''cron.list'', ''cron.status'', ''cron.runs'',
      ''system-presence'', ''last-heartbeat'', ''node.list'', ''node.describe'',
      ''chat.history'', ''config.get'', ''talk.config'', ''agents.files.list'',
      ''agents.files.get'']"

definition write_methods :: "string list" where
  "write_methods =
     [''send'', ''poll'', ''agent'', ''agent.wait'', ''wake'', ''talk.mode'', ''tts.enable'',
      ''tts.disable'', ''tts.convert'', ''tts.setProvider'', ''voicewake.set'', ''node.invoke'',
      ''chat.send'', ''chat.abort'', ''browser.request'', ''push.test'']"

definition admin_methods :: "string list" where
  "admin_methods =
     [''channels.logout'', ''agents.create'', ''agents.update'', ''agents.delete'',
      ''skills.install'', ''skills.update'', ''secrets.reload'', ''secrets.resolve'',
      ''cron.add'', ''cron.update'', ''cron.remove'', ''cron.run'', ''sessions.patch'',
      ''sessions.reset'', ''sessions.delete'', ''sessions.compact'', ''connect'',
      ''chat.inject'', ''web.login.start'', ''web.login.wait'', ''set-heartbeats'',
      ''system-event'', ''agents.files.set'']"

text \<open>The record literal, as the list of its entries in the order Object.entries gives them.\<close>

definition METHOD_SCOPE_GROUPS :: "(operator_scope \<times> string list) list" where
  "METHOD_SCOPE_GROUPS =
     [(ApprovalsScope, approvals_methods), (PairingScope, pairing_methods),
      (ReadScope, read_methods), (WriteScope, write_methods), (AdminScope, admin_methods)]"

definition ADMIN_METHOD_PREFIXES :: "string list" where
  "ADMIN_METHOD_PREFIXES = [''exec.approvals.'', ''config.'', ''wizard.'', ''update.'']"

definition METHOD_SCOPE_BY_NAME :: "(string, operator_scope) js_map" where
  "METHOD_SCOPE_BY_NAME =
     fold (\<lambda>(method, scope). map_set method scope)
       (concat (map (\<lambda>(scope, methods). map (\<lambda>method. (method, scope)) methods) METHOD_SCOPE_GROUPS))
       []"

definition resolveScopedMethod :: "string \<Rightarrow> operator_scope option" where
  "resolveScopedMethod method =
     (case map_get METHOD_SCOPE_BY_NAME method of
        Some explicitScope \<Rightarrow> Some explicitScope
      | None \<Rightarrow>
          if list_ex (\<lambda>p. starts_with method p) ADMIN_METHOD_PREFIXES then Some AdminScope else None)"

definition isApprovalMethod :: "string \<Rightarrow> bool" where
  "isApprovalMethod method = (resolveScopedMethod method = Some ApprovalsScope)"

definition isPairingMethod :: "string \<Rightarrow> bool" where
  "isPairingMethod method = (resolveScopedMethod method = Some PairingScope)"

definition isReadMethod :: "string \<Rightarrow> bool" where
  "isReadMethod method = (resolveScopedMethod method = Some ReadScope)"

definition isWriteMethod :: "string \<Rightarrow> bool" where
  "isWriteMethod method = (resolveScopedMethod method = Some WriteScope)"

definition isNodeRoleMethod :: "string \<Rightarrow> bool" where
  "isNodeRoleMethod method = (method \<in> set NODE_ROLE_METHODS)"

definition isAdminOnlyMethod :: "string \<Rightarrow> bool" where
  "isAdminOnlyMethod method = (resolveScopedMethod method = Some AdminScope)"

definition resolveRequiredOperatorScopeForMethod :: "string \<Rightarrow> operator_scope option" where
  "resolveRequiredOperatorScopeForMethod method = resolveScopedMethod method"

definition resolveLeastPrivilegeOperatorScopesForMethod :: "string \<Rightarrow> operator_scope list" where
  "resolveLeastPrivilegeOperatorScopesForMethod method =
     (case resolveRequiredOperatorScopeForMethod method of
        Some requiredScope \<Rightarrow> [requiredScope]
      | None \<Rightarrow> [])"

datatype scope_decision = ScopeAllowed | ScopeMissing operator_scope

definition authorizeOperatorScopesForMethod :: "string \<Rightarrow> string list \<Rightarrow> scope_decision" where
  "authorizeOperatorScopesForMethod method scopes =
     (if scope_name AdminScope \<in> set scopes then ScopeAllowed
      else
        let requiredScope = nullish (resolveRequiredOperatorScopeForMethod method) AdminScope in
        if requiredScope = ReadScope then
          (if scope_name ReadScope \<in> set scopes \<or> scope_name WriteScope \<in> set scopes
           then ScopeAllowed
           else ScopeMissing ReadScope)
        else if scope_name requiredScope \<in> set scopes then ScopeAllowed
        else ScopeMissing requiredScope)"

definition isGatewayMethodClassified :: "string \<Rightarrow> bool" where
  "isGatewayMethodClassified method =
     (if isNodeRoleMethod method then True
      else resolveRequiredOperatorScopeForMethod method \<noteq> None)"

section \<open>Connection roles\<close>

datatype gateway_role = OperatorRole | NodeRole

text \<open>A role as it arrives: None stands for a value that is not a string.\<close>

definition parseGatewayRole :: "string option \<Rightarrow> gateway_role option" where
  "parseGatewayRole roleRaw =
     (if roleRaw = Some ''operator'' then Some OperatorRole
      else if roleRaw = Some ''node'' then Some NodeRole
      else None)"

definition roleCanSkipDeviceIdentity :: "gateway_role \<Rightarrow> bool \<Rightarrow> bool" where
  "roleCanSkipDeviceIdentity role sharedAuthOk = (role = OperatorRole \<and> sharedAuthOk)"

definition isRoleAuthorizedForMethod :: "gateway_role \<Rightarrow> string \<Rightarrow> bool" where
  "isRoleAuthorizedForMethod role method =
     (if isNodeRoleMethod method then role = NodeRole else role = OperatorRole)"

section \<open>The scopes of a device token\<close>

definition normalizeScopeList :: "string list \<Rightarrow> string list" where
  "normalizeScopeList scopes = js_set_of (nonempty_strs (map trim scopes))"

definition operatorScopeSatisfied :: "string \<Rightarrow> string set \<Rightarrow> bool" where
  "operatorScopeSatisfied requestedScope granted =
     (if ''operator.admin'' \<in> granted \<and> starts_with requestedScope ''operator.'' then True
      else if requestedScope = ''operator.read'' then
        ''operator.read'' \<in> granted \<or> ''operator.write'' \<in> granted
      else if requestedScope = ''operator.write'' then ''operator.write'' \<in> granted
      else requestedScope \<in> granted)"

definition roleScopesAllow :: "string \<Rightarrow> string list \<Rightarrow> string list \<Rightarrow> bool" where
  "roleScopesAllow role requestedScopes allowedScopes =
     (let requested = normalizeScopeList requestedScopes in
      if requested = [] then True
      else
        let allowed = normalizeScopeList allowedScopes in
        if allowed = [] then False
        else
          let allowedSet = set allowed in
          if trim role \<noteq> ''operator'' then list_all (\<lambda>scope. scope \<in> allowedSet) requested
          else list_all (\<lambda>scope. operatorScopeSatisfied scope allowedSet) requested)"

definition normalizeDeviceAuthRole :: "string \<Rightarrow> string" where
  "normalizeDeviceAuthRole role = trim role"

definition normalizeDeviceAuthScopes :: "string list option \<Rightarrow> string list" where
  "normalizeDeviceAuthScopes scopes =
     (case scopes of
        None \<Rightarrow> []
      | Some ss \<Rightarrow> sort (js_set_of (nonempty_strs (map trim ss))))"

section \<open>The method table\<close>

lemma scope_name_inject [simp]: "scope_name a = scope_name b \<longleftrightarrow> a = b"
  by (cases a; cases b) auto

definition method_entries :: "(string \<times> operator_scope) list" where
  "method_entries =
     concat (map (\<lambda>(scope, methods). map (\<lambda>method. (method, scope)) methods) METHOD_SCOPE_GROUPS)"

lemma distinct_method_entries: "distinct (map fst method_entries)"
  by code_simp

lemma method_table: "map_get METHOD_SCOPE_BY_NAME m = map_of method_entries m"
  unfolding METHOD_SCOPE_BY_NAME_def method_entries_def [symmetric]
  by (rule map_get_fold_set_distinct [OF distinct_method_entries])

text \<open>Evaluation of the table on a literal method name.\<close>

lemmas method_eval = resolveScopedMethod_def method_table method_entries_def METHOD_SCOPE_GROUPS_def
  approvals_methods_def pairing_methods_def read_methods_def write_methods_def admin_methods_def
  ADMIN_METHOD_PREFIXES_def

lemma node_methods_have_no_scope:
  "list_all (\<lambda>m. resolveScopedMethod m = None) NODE_ROLE_METHODS"
  by (simp add: NODE_ROLE_METHODS_def method_eval)

text \<open>
  The method table classifies every listed method under exactly the scope of the group it
  is written in; and a method a node connection may call has no operator scope and is closed to
  operator connections.
\<close>

theorem method_table_sound:
  "(\<forall>(s, ms) \<in> set METHOD_SCOPE_GROUPS. \<forall>m \<in> set ms. resolveScopedMethod m = Some s) \<and>
   (\<forall>m. isRoleAuthorizedForMethod NodeRole m \<longrightarrow>
      resolveScopedMethod m = None \<and> \<not> isRoleAuthorizedForMethod OperatorRole m)"
proof (intro conjI ballI allI impI)
  fix g
  assume g: "g \<in> set METHOD_SCOPE_GROUPS"
  obtain s ms where [simp]: "g = (s, ms)" by fastforce
  have "resolveScopedMethod m = Some s" if "m \<in> set ms" for m
  proof -
    from g that have "(m, s) \<in> set method_entries" by (force simp: method_entries_def)
    then have "map_of method_entries m = Some s" by (simp add: distinct_method_entries)
    then show ?thesis by (simp add: resolveScopedMethod_def method_table)
  qed
  then show "case g of (s, ms) \<Rightarrow> \<forall>m \<in> set ms. resolveScopedMethod m = Some s" by simp
next
  fix m
  assume "isRoleAuthorizedForMethod NodeRole m"
  then have m: "isNodeRoleMethod m" by (simp add: isRoleAuthorizedForMethod_def split: if_splits)
  then show "resolveScopedMethod m = None"
    using node_methods_have_no_scope by (simp add: isNodeRoleMethod_def list_all_iff)
  from m show "\<not> isRoleAuthorizedForMethod OperatorRole m"
    by (simp add: isRoleAuthorizedForMethod_def)
qed

theorem method_table_sound_witness:
  "resolveScopedMethod ''config.get'' = Some ReadScope \<and> resolveScopedMethod ''node.event'' = None"
proof
  have "(ReadScope, read_methods) \<in> set METHOD_SCOPE_GROUPS" "''config.get'' \<in> set read_methods"
    by (simp_all add: METHOD_SCOPE_GROUPS_def read_methods_def)
  then show "resolveScopedMethod ''config.get'' = Some ReadScope"
    using method_table_sound by blast
  have "isRoleAuthorizedForMethod NodeRole ''node.event''"
    by (simp add: isRoleAuthorizedForMethod_def isNodeRoleMethod_def NODE_ROLE_METHODS_def)
  then show "resolveScopedMethod ''node.event'' = None" using method_table_sound by blast
qed

section \<open>Authorisation of a method call\<close>

lemma authorize_iff:
  "authorizeOperatorScopesForMethod m scopes = ScopeAllowed \<longleftrightarrow>
      ''operator.admin'' \<in> set scopes \<or>
      (\<exists>s. resolveScopedMethod m = Some s \<and>
         (scope_name s \<in> set scopes \<or> s = ReadScope \<and> ''operator.write'' \<in> set scopes))"
  by (cases "resolveScopedMethod m")
    (auto simp: authorizeOperatorScopesForMethod_def resolveRequiredOperatorScopeForMethod_def Let_def)

text \<open>
  C3: A connection may call a method exactly when it holds operator.admin, or the method has a
  scope and the connection holds it (operator.write counts for operator.read). A method the
  table does not know is open to operator.admin alone, and a refusal names a scope that would
  have been enough.
\<close>

theorem authorize_exactly:
  "(authorizeOperatorScopesForMethod m scopes = ScopeAllowed \<longleftrightarrow>
      ''operator.admin'' \<in> set scopes \<or>
      (\<exists>s. resolveScopedMethod m = Some s \<and>
         (scope_name s \<in> set scopes \<or> s = ReadScope \<and> ''operator.write'' \<in> set scopes))) \<and>
   (\<forall>s. authorizeOperatorScopesForMethod m scopes = ScopeMissing s \<longrightarrow>
      authorizeOperatorScopesForMethod m (scopes @ [scope_name s]) = ScopeAllowed)"
proof (intro conjI allI impI)
  fix s
  assume "authorizeOperatorScopesForMethod m scopes = ScopeMissing s"
  then have "s = nullish (resolveScopedMethod m) AdminScope"
    by (auto simp: authorizeOperatorScopesForMethod_def resolveRequiredOperatorScopeForMethod_def
        Let_def split: if_splits)
  then show "authorizeOperatorScopesForMethod m (scopes @ [scope_name s]) = ScopeAllowed"
    by (cases "resolveScopedMethod m") (auto simp: authorize_iff)
qed (rule authorize_iff)

theorem authorize_exactly_witness:
  "authorizeOperatorScopesForMethod ''no.such.method'' [''operator.write''] = ScopeMissing AdminScope \<and>
   authorizeOperatorScopesForMethod ''no.such.method'' [''operator.write'', ''operator.admin''] = ScopeAllowed"
proof
  have m: "resolveScopedMethod ''no.such.method'' = None" by (simp add: method_eval)
  then show r: "authorizeOperatorScopesForMethod ''no.such.method'' [''operator.write''] = ScopeMissing AdminScope"
    by (simp add: authorizeOperatorScopesForMethod_def resolveRequiredOperatorScopeForMethod_def)
  from authorize_exactly [of "''no.such.method''" "[''operator.write'']"] r
  show "authorizeOperatorScopesForMethod ''no.such.method'' [''operator.write'', ''operator.admin''] = ScopeAllowed"
    by simp
qed

lemma least_privilege_suffices:
  "resolveScopedMethod m = Some s \<Longrightarrow>
   authorizeOperatorScopesForMethod m (map scope_name (resolveLeastPrivilegeOperatorScopesForMethod m)) =
     ScopeAllowed"
  by (simp add: authorizeOperatorScopesForMethod_def resolveLeastPrivilegeOperatorScopesForMethod_def
      resolveRequiredOperatorScopeForMethod_def)

section \<open>Scope authorities\<close>

text \<open>
  What the gateway relies on when it grants scopes: a request for nothing is granted, a request
  is granted exactly when each of its parts is, and a larger grant never allows less. Both the
  token check here and the approval check of device pairing provide this contract.
\<close>

locale scope_authority =
  fixes allows :: "string list \<Rightarrow> string list \<Rightarrow> bool"
  assumes allows_Nil: "allows [] granted"
    and allows_append: "allows (r1 @ r2) granted \<longleftrightarrow> allows r1 granted \<and> allows r2 granted"
    and allows_mono: "allows r granted \<Longrightarrow> set granted \<subseteq> set granted' \<Longrightarrow> allows r granted'"
begin

lemma allows_iff_each: "allows r granted \<longleftrightarrow> (\<forall>x \<in> set r. allows [x] granted)"
proof (induction r)
  case Nil
  show ?case by (simp add: allows_Nil)
next
  case (Cons x r)
  have "allows (x # r) granted \<longleftrightarrow> allows [x] granted \<and> allows r granted"
    using allows_append [of "[x]" r] by simp
  with Cons.IH show ?case by simp
qed

lemma allows_fewer: "allows r granted \<Longrightarrow> set r' \<subseteq> set r \<Longrightarrow> allows r' granted"
  by (subst allows_iff_each) (auto simp: allows_iff_each [of r])

lemma allows_least: "allows r granted \<Longrightarrow> set r' \<subseteq> set r \<Longrightarrow> set granted \<subseteq> set granted' \<Longrightarrow> allows r' granted'"
  by (blast intro: allows_fewer allows_mono)

end

text \<open>An authority in which operator.admin stands for the operator scopes.\<close>

locale admin_scope_authority = scope_authority +
  assumes admin_grants: "''operator.admin'' \<in> set granted \<Longrightarrow> allows [scope_name s] granted"
begin

lemma admin_grants_all: "''operator.admin'' \<in> set granted \<Longrightarrow> allows (map scope_name ss) granted"
  by (subst allows_iff_each) (auto simp: admin_grants)

end

text \<open>The scopes a list stands for, and what satisfies one of them for a role.\<close>

definition clean_scopes :: "string list \<Rightarrow> string set" where
  "clean_scopes ss = trim ` set ss - {[]}"

definition scope_ok :: "string \<Rightarrow> string \<Rightarrow> string set \<Rightarrow> bool" where
  "scope_ok role s granted =
     (if trim role \<noteq> ''operator'' then s \<in> granted else operatorScopeSatisfied s granted)"

lemma set_normalizeScopeList: "set (normalizeScopeList ss) = clean_scopes ss"
  by (auto simp: normalizeScopeList_def nonempty_strs_def clean_scopes_def)

lemma clean_scopes_simps [simp]:
  "clean_scopes [] = {}" "clean_scopes (r1 @ r2) = clean_scopes r1 \<union> clean_scopes r2"
  by (auto simp: clean_scopes_def)

lemma clean_scopes_mono: "set r \<subseteq> set r' \<Longrightarrow> clean_scopes r \<subseteq> clean_scopes r'"
  by (auto simp: clean_scopes_def)

lemma scope_ok_mono: "scope_ok role s granted \<Longrightarrow> granted \<subseteq> granted' \<Longrightarrow> scope_ok role s granted'"
  by (auto simp: scope_ok_def operatorScopeSatisfied_def split: if_splits)

lemma scope_ok_empty [simp]: "\<not> scope_ok role s {}"
  by (simp add: scope_ok_def operatorScopeSatisfied_def)

text \<open>The scope check, free of its early returns.\<close>

lemma roleScopesAllow_iff:
  "roleScopesAllow role requested allowed \<longleftrightarrow>
     (\<forall>s \<in> clean_scopes requested. scope_ok role s (clean_scopes allowed))"
proof -
  have empty: "normalizeScopeList ss = [] \<longleftrightarrow> clean_scopes ss = {}" for ss
    by (metis set_empty set_normalizeScopeList)
  show ?thesis
  proof (cases "clean_scopes requested = {} \<or> clean_scopes allowed = {}")
    case True
    then show ?thesis by (auto simp: roleScopesAllow_def Let_def empty)
  next
    case False
    then show ?thesis
      by (simp add: roleScopesAllow_def Let_def empty list_all_iff set_normalizeScopeList scope_ok_def)
  qed
qed

interpretation role_scopes: scope_authority "roleScopesAllow role"
  by unfold_locales
    (auto simp: roleScopesAllow_iff intro: scope_ok_mono [OF _ clean_scopes_mono])

lemma scope_name_trimmed [simp]: "trim (scope_name s) = scope_name s" "scope_name s \<noteq> []"
  "starts_with (scope_name s) ''operator.''"
  by (cases s; simp add: str_eval)+

interpretation operator_scopes: admin_scope_authority "roleScopesAllow ''operator''"
proof unfold_locales
  fix granted s
  assume "''operator.admin'' \<in> set granted"
  moreover have "trim ''operator.admin'' = ''operator.admin''" by (simp add: str_eval)
  ultimately have "''operator.admin'' \<in> clean_scopes granted" by (force simp: clean_scopes_def)
  moreover have "trim ''operator'' = ''operator''" by (simp add: str_eval)
  ultimately show "roleScopesAllow ''operator'' [scope_name s] granted"
    by (auto simp: roleScopesAllow_iff scope_ok_def operatorScopeSatisfied_def clean_scopes_def)
qed

text \<open>
  Token scopes are monotone: a token that allows a request allows every request for fewer
  scopes, and still does when the token's own scopes grow; for an operator token that holds
  operator.admin every operator scope is allowed.
\<close>

theorem token_scopes_monotone:
  assumes "roleScopesAllow role requested granted"
    and "set requested' \<subseteq> set requested" and "set granted \<subseteq> set granted'"
  shows "roleScopesAllow role requested' granted' \<and>
    roleScopesAllow ''operator'' (map scope_name CLI_DEFAULT_OPERATOR_SCOPES) (''operator.admin'' # granted')"
  using role_scopes.allows_least [OF assms] by (simp add: operator_scopes.admin_grants_all)

theorem token_scopes_monotone_witness:
  "roleScopesAllow ''node'' [''b''] [''a'', '' b'', ''c'']"
proof -
  have "roleScopesAllow ''node'' [''b'', ''a''] [''a'', '' b'']"
    by (simp add: roleScopesAllow_def normalizeScopeList_def js_set_of_def set_add_def str_eval)
  from token_scopes_monotone [OF this, of "[''b'']" "[''a'', '' b'', ''c'']"] show ?thesis by simp
qed

text \<open>
  The method check of a live connection and the scope check of a stored token agree: for a
  classified method and the scopes a token holds in normal form, the connection is authorised
  exactly when the operator token would be issued the method's scope.
\<close>

theorem method_check_agrees_with_token_check:
  assumes "resolveScopedMethod m = Some s" and "normalizeScopeList granted = granted"
    and "trim role = ''operator''"
  shows "authorizeOperatorScopesForMethod m granted = ScopeAllowed \<longleftrightarrow>
    roleScopesAllow role [scope_name s] granted"
proof -
  have granted: "clean_scopes granted = set granted"
    using assms(2) set_normalizeScopeList [of granted] by simp
  have "clean_scopes [scope_name s] = {scope_name s}" by (auto simp: clean_scopes_def)
  then have "roleScopesAllow role [scope_name s] granted \<longleftrightarrow>
      operatorScopeSatisfied (scope_name s) (set granted)"
    using assms(3) by (simp add: roleScopesAllow_iff granted scope_ok_def)
  also have "\<dots> \<longleftrightarrow> authorizeOperatorScopesForMethod m granted = ScopeAllowed"
    using assms(1) by (cases s) (auto simp: authorize_iff operatorScopeSatisfied_def)
  finally show ?thesis ..
qed

theorem method_check_agrees_with_token_check_witness:
  "authorizeOperatorScopesForMethod ''health'' [''operator.write''] = ScopeAllowed \<longleftrightarrow>
   roleScopesAllow '' operator'' [''operator.read''] [''operator.write'']"
proof -
  have "resolveScopedMethod ''health'' = Some ReadScope" by (simp add: method_eval)
  moreover have "normalizeScopeList [''operator.write''] = [''operator.write'']"
    by (simp add: normalizeScopeList_def js_set_of_def set_add_def str_eval)
  moreover have "trim '' operator'' = ''operator''" by (simp add: str_eval)
  ultimately have "resolveScopedMethod ''health'' = Some ReadScope"
    "normalizeScopeList [''operator.write''] = [''operator.write'']"
    "trim '' operator'' = ''operator''" by blast+
  from method_check_agrees_with_token_check [OF this] show ?thesis by simp
qed

section \<open>Stored scopes\<close>

lemma normalizeDeviceAuthScopes_props:
  "sorted (normalizeDeviceAuthScopes ss) \<and> distinct (normalizeDeviceAuthScopes ss) \<and>
   set (normalizeDeviceAuthScopes ss) = clean_scopes (nullish ss [])"
  by (cases ss) (auto simp: normalizeDeviceAuthScopes_def nonempty_strs_def clean_scopes_def)

lemma trim_clean_scopes: "trim ` clean_scopes ss - {[]} = clean_scopes ss"
proof -
  have "trim s \<in> trim ` clean_scopes ss" if "s \<in> set ss" "trim s \<noteq> []" for s
    using that by (intro image_eqI [of _ _ "trim s"]) (auto simp: clean_scopes_def)
  then show ?thesis by (auto simp: clean_scopes_def)
qed

lemma normalizeDeviceAuthScopes_idem:
  "normalizeDeviceAuthScopes (Some (normalizeDeviceAuthScopes ss)) = normalizeDeviceAuthScopes ss"
proof -
  let ?n = "normalizeDeviceAuthScopes ss"
  have n: "set ?n = clean_scopes (nullish ss [])" by (simp add: normalizeDeviceAuthScopes_props)
  then have "clean_scopes ?n = set ?n"
    using trim_clean_scopes [of "nullish ss []"] by (simp add: clean_scopes_def [of ?n])
  then have "set (normalizeDeviceAuthScopes (Some ?n)) = set ?n"
    using normalizeDeviceAuthScopes_props [of "Some ?n"] by simp
  with normalizeDeviceAuthScopes_props [of ss] normalizeDeviceAuthScopes_props [of "Some ?n"]
  show ?thesis by (blast intro: sorted_distinct_set_unique)
qed

end
