(* ===== verification/NodeCommands.thy ===== *)
theory NodeCommands
  imports JsPrelude
begin

text \<open>
  Which commands the gateway lets a paired node run: the per-platform defaults, the operator's
  allow and deny lists and the node's own declaration (src/gateway/node-command-policy.ts), with
  the metadata normalisation that picks the platform
  (src/gateway/device-metadata-normalization.ts) and the command names of
  src/infra/node-commands.ts.
\<close>

section \<open>Device metadata\<close>

definition normalizeTrimmedMetadata :: "string option \<Rightarrow> string" where
  "normalizeTrimmedMetadata value =
     (case value of
        None \<Rightarrow> ''''
      | Some v \<Rightarrow> let trimmed = trim v in if trimmed \<noteq> [] then trimmed else '''')"

definition ascii_lower_char :: "char \<Rightarrow> char" where
  "ascii_lower_char c = (let n = (of_char c :: nat) in if 65 \<le> n \<and> n \<le> 90 then char_of (n + 32) else c)"

definition toLowerAscii :: "string \<Rightarrow> string" where
  "toLowerAscii input = map ascii_lower_char input"

definition normalizeDeviceMetadataForAuth :: "string option \<Rightarrow> string" where
  "normalizeDeviceMetadataForAuth value =
     (let trimmed = normalizeTrimmedMetadata value in
      if trimmed = [] then '''' else toLowerAscii trimmed)"

text \<open>
  \<open>normalize("NFKD")\<close> and the removal of combining marks, on the code units 0 to 255: an
  accented letter becomes its base letter, a spacing accent a space, a superscript its digit and
  a vulgar fraction its two digits around the fraction slash. The two results outside the range
  (the fraction slash U+2044 and the Greek mu U+03BC) are written as the control character 0x80,
  which, like them, occurs in no platform name.
\<close>

definition nfkd_base :: "char \<Rightarrow> string" where
  "nfkd_base c =
     (let n = (of_char c :: nat) in
      if n \<in> {160, 168, 175, 180, 184} then '' ''
      else if n = 170 then ''a''
      else if n = 178 then ''2''
      else if n = 179 then ''3''
      else if n = 181 then [CHR 0x80]
      else if n = 185 then ''1''
      else if n = 186 then ''o''
      else if n = 188 then [CHR ''1'', CHR 0x80, CHR ''4'']
      else if n = 189 then [CHR ''1'', CHR 0x80, CHR ''2'']
      else if n = 190 then [CHR ''3'', CHR 0x80, CHR ''4'']
      else if 192 \<le> n \<and> n \<le> 197 then ''A''
      else if n = 199 then ''C''
      else if 200 \<le> n \<and> n \<le> 203 then ''E''
      else if 204 \<le> n \<and> n \<le> 207 then ''I''
      else if n = 209 then ''N''
      else if 210 \<le> n \<and> n \<le> 214 then ''O''
      else if 217 \<le> n \<and> n \<le> 220 then ''U''
      else if n = 221 then ''Y''
      else if 224 \<le> n \<and> n \<le> 229 then ''a''
      else if n = 231 then ''c''
      else if 232 \<le> n \<and> n \<le> 235 then ''e''
      else if 236 \<le> n \<and> n \<le> 239 then ''i''
      else if n = 241 then ''n''
      else if 242 \<le> n \<and> n \<le> 246 then ''o''
      else if 249 \<le> n \<and> n \<le> 252 then ''u''
      else if n = 253 \<or> n = 255 then ''y''
      else [c])"

definition normalizeDeviceMetadataForPolicy :: "string option \<Rightarrow> string" where
  "normalizeDeviceMetadataForPolicy value =
     (let trimmed = normalizeTrimmedMetadata value in
      if trimmed = [] then '''' else to_lower (concat (map nfkd_base trimmed)))"

section \<open>Commands and platform defaults\<close>

definition NODE_SYSTEM_RUN_COMMANDS :: "string list" where
  "NODE_SYSTEM_RUN_COMMANDS = [''system.run.prepare'', ''system.run'', ''system.which'']"

definition NODE_SYSTEM_NOTIFY_COMMAND :: string where
  "NODE_SYSTEM_NOTIFY_COMMAND = ''system.notify''"

definition NODE_BROWSER_PROXY_COMMAND :: string where
  "NODE_BROWSER_PROXY_COMMAND = ''browser.proxy''"

definition CANVAS_COMMANDS :: "string list" where
  "CANVAS_COMMANDS =
     [''canvas.present'', ''canvas.hide'', ''canvas.navigate'', ''canvas.eval'',
      ''canvas.snapshot'', ''canvas.a2ui.push'', ''canvas.a2ui.pushJSONL'', ''canvas.a2ui.reset'']"

definition CAMERA_COMMANDS :: "string list" where
  "CAMERA_COMMANDS = [''camera.list'']"

definition CAMERA_DANGEROUS_COMMANDS :: "string list" where
  "CAMERA_DANGEROUS_COMMANDS = [''camera.snap'', ''camera.clip'']"

definition SCREEN_DANGEROUS_COMMANDS :: "string list" where
  "SCREEN_DANGEROUS_COMMANDS = [''screen.record'']"

definition LOCATION_COMMANDS :: "string list" where
  "LOCATION_COMMANDS = [''location.get'']"

definition ANDROID_NOTIFICATION_COMMANDS :: "string list" where
  "ANDROID_NOTIFICATION_COMMANDS = [''notifications.list'', ''notifications.actions'']"

definition DEVICE_COMMANDS :: "string list" where
  "DEVICE_COMMANDS = [''device.info'', ''device.status'']"

definition ANDROID_DEVICE_COMMANDS :: "string list" where
  "ANDROID_DEVICE_COMMANDS = DEVICE_COMMANDS @ [''device.permissions'', ''device.health'']"

definition CONTACTS_COMMANDS :: "string list" where
  "CONTACTS_COMMANDS = [''contacts.search'']"

definition CONTACTS_DANGEROUS_COMMANDS :: "string list" where
  "CONTACTS_DANGEROUS_COMMANDS = [''contacts.add'']"

definition CALENDAR_COMMANDS :: "string list" where
  "CALENDAR_COMMANDS = [''calendar.events'']"

definition CALENDAR_DANGEROUS_COMMANDS :: "string list" where
  "CALENDAR_DANGEROUS_COMMANDS = [''calendar.add'']"

definition REMINDERS_COMMANDS :: "string list" where
  "REMINDERS_COMMANDS = [''reminders.list'']"

definition REMINDERS_DANGEROUS_COMMANDS :: "string list" where
  "REMINDERS_DANGEROUS_COMMANDS = [''reminders.add'']"

definition PHOTOS_COMMANDS :: "string list" where
  "PHOTOS_COMMANDS = [''photos.latest'']"

definition MOTION_COMMANDS :: "string list" where
  "MOTION_COMMANDS = [''motion.activity'', ''motion.pedometer'']"

definition SMS_DANGEROUS_COMMANDS :: "string list" where
  "SMS_DANGEROUS_COMMANDS = [''sms.send'']"

definition IOS_SYSTEM_COMMANDS :: "string list" where
  "IOS_SYSTEM_COMMANDS = [NODE_SYSTEM_NOTIFY_COMMAND]"

definition SYSTEM_COMMANDS :: "string list" where
  "SYSTEM_COMMANDS =
     NODE_SYSTEM_RUN_COMMANDS @ [NODE_SYSTEM_NOTIFY_COMMAND, NODE_BROWSER_PROXY_COMMAND]"

definition UNKNOWN_PLATFORM_COMMANDS :: "string list" where
  "UNKNOWN_PLATFORM_COMMANDS =
     CANVAS_COMMANDS @ CAMERA_COMMANDS @ LOCATION_COMMANDS @ [NODE_SYSTEM_NOTIFY_COMMAND]"

definition DEFAULT_DANGEROUS_NODE_COMMANDS :: "string list" where
  "DEFAULT_DANGEROUS_NODE_COMMANDS =
     CAMERA_DANGEROUS_COMMANDS @ SCREEN_DANGEROUS_COMMANDS @ CONTACTS_DANGEROUS_COMMANDS @
     CALENDAR_DANGEROUS_COMMANDS @ REMINDERS_DANGEROUS_COMMANDS @ SMS_DANGEROUS_COMMANDS"

datatype platform_id = Ios | Android | Macos | Windows | Linux | UnknownPlatform

fun PLATFORM_DEFAULTS :: "platform_id \<Rightarrow> string list" where
  "PLATFORM_DEFAULTS Ios =
     CANVAS_COMMANDS @ CAMERA_COMMANDS @ LOCATION_COMMANDS @ DEVICE_COMMANDS @
     CONTACTS_COMMANDS @ CALENDAR_COMMANDS @ REMINDERS_COMMANDS @ PHOTOS_COMMANDS @
     MOTION_COMMANDS @ IOS_SYSTEM_COMMANDS"
| "PLATFORM_DEFAULTS Android =
     CANVAS_COMMANDS @ CAMERA_COMMANDS @ LOCATION_COMMANDS @ ANDROID_NOTIFICATION_COMMANDS @
     [NODE_SYSTEM_NOTIFY_COMMAND] @ ANDROID_DEVICE_COMMANDS @ CONTACTS_COMMANDS @
     CALENDAR_COMMANDS @ REMINDERS_COMMANDS @ PHOTOS_COMMANDS @ MOTION_COMMANDS"
| "PLATFORM_DEFAULTS Macos =
     CANVAS_COMMANDS @ CAMERA_COMMANDS @ LOCATION_COMMANDS @ DEVICE_COMMANDS @
     CONTACTS_COMMANDS @ CALENDAR_COMMANDS @ REMINDERS_COMMANDS @ PHOTOS_COMMANDS @
     MOTION_COMMANDS @ SYSTEM_COMMANDS"
| "PLATFORM_DEFAULTS Linux = SYSTEM_COMMANDS"
| "PLATFORM_DEFAULTS Windows = SYSTEM_COMMANDS"
| "PLATFORM_DEFAULTS UnknownPlatform = UNKNOWN_PLATFORM_COMMANDS"

section \<open>Picking the platform\<close>

definition PLATFORM_PREFIX_RULES :: "(platform_id \<times> string list) list" where
  "PLATFORM_PREFIX_RULES =
     [(Ios, [''ios'']), (Android, [''android'']), (Macos, [''mac'', ''darwin'']),
      (Windows, [''win'']), (Linux, [''linux''])]"

definition DEVICE_FAMILY_TOKEN_RULES :: "(platform_id \<times> string list) list" where
  "DEVICE_FAMILY_TOKEN_RULES =
     [(Ios, [''iphone'', ''ipad'', ''ios'']), (Android, [''android'']), (Macos, [''mac'']),
      (Windows, [''windows'']), (Linux, [''linux''])]"

definition resolvePlatformIdByPrefix :: "string \<Rightarrow> platform_id option" where
  "resolvePlatformIdByPrefix value =
     map_option fst
       (find (\<lambda>(pid, prefixes). list_ex (starts_with value) prefixes) PLATFORM_PREFIX_RULES)"

definition resolvePlatformIdByDeviceFamily :: "string \<Rightarrow> platform_id option" where
  "resolvePlatformIdByDeviceFamily value =
     map_option fst
       (find (\<lambda>(pid, tokens). list_ex (str_includes value) tokens) DEVICE_FAMILY_TOKEN_RULES)"

definition normalizePlatformId :: "string option \<Rightarrow> string option \<Rightarrow> platform_id" where
  "normalizePlatformId platform deviceFamily =
     (case resolvePlatformIdByPrefix (normalizeDeviceMetadataForPolicy platform) of
        Some byPlatform \<Rightarrow> byPlatform
      | None \<Rightarrow>
          nullish (resolvePlatformIdByDeviceFamily (normalizeDeviceMetadataForPolicy deviceFamily))
            UnknownPlatform)"

section \<open>The allowlist and the decision\<close>

text \<open>\<open>cfg.gateway?.nodes\<close> and the metadata of the node session the policy reads.\<close>

record node_policy_config =
  allowCommands :: "string list option"
  denyCommands :: "string list option"

record node_metadata =
  platform :: "string option"
  deviceFamily :: "string option"

text \<open>The body of the loop over the denied commands.\<close>

definition delete_denied :: "string \<Rightarrow> string list \<Rightarrow> string list" where
  "delete_denied blocked allow =
     (let trimmed = trim blocked in
      if trimmed \<noteq> [] then filter (\<lambda>c. c \<noteq> trimmed) allow else allow)"

definition resolveNodeCommandAllowlist ::
    "node_policy_config \<Rightarrow> node_metadata option \<Rightarrow> string list" where
  "resolveNodeCommandAllowlist cfg node =
     (let platformId =
            normalizePlatformId (Option.bind node platform) (Option.bind node deviceFamily);
          base = PLATFORM_DEFAULTS platformId;
          extra = nullish (allowCommands cfg) [];
          deny = js_set_of (nullish (denyCommands cfg) []);
          allow = js_set_of (nonempty_strs (map trim (base @ extra)))
      in fold delete_denied deny allow)"

datatype command_decision = CommandOk | CommandRefused string

definition isNodeCommandAllowed ::
    "string \<Rightarrow> string list option \<Rightarrow> string set \<Rightarrow> command_decision" where
  "isNodeCommandAllowed rawCommand declaredCommands allowlist =
     (let command = trim rawCommand in
      if command = [] then CommandRefused ''command required''
      else if command \<notin> allowlist then CommandRefused ''command not allowlisted''
      else
        (case declaredCommands of
           Some declared \<Rightarrow>
             if declared \<noteq> [] then
               (if command \<notin> set declared then CommandRefused ''command not declared by node''
                else CommandOk)
             else CommandRefused ''node did not declare commands''
         | None \<Rightarrow> CommandRefused ''node did not declare commands''))"

section \<open>What the policy guarantees\<close>

lemmas command_tables = NODE_SYSTEM_RUN_COMMANDS_def NODE_SYSTEM_NOTIFY_COMMAND_def
  NODE_BROWSER_PROXY_COMMAND_def CANVAS_COMMANDS_def CAMERA_COMMANDS_def
  CAMERA_DANGEROUS_COMMANDS_def SCREEN_DANGEROUS_COMMANDS_def LOCATION_COMMANDS_def
  ANDROID_NOTIFICATION_COMMANDS_def DEVICE_COMMANDS_def ANDROID_DEVICE_COMMANDS_def
  CONTACTS_COMMANDS_def CONTACTS_DANGEROUS_COMMANDS_def CALENDAR_COMMANDS_def
  CALENDAR_DANGEROUS_COMMANDS_def REMINDERS_COMMANDS_def REMINDERS_DANGEROUS_COMMANDS_def
  PHOTOS_COMMANDS_def MOTION_COMMANDS_def SMS_DANGEROUS_COMMANDS_def IOS_SYSTEM_COMMANDS_def
  SYSTEM_COMMANDS_def UNKNOWN_PLATFORM_COMMANDS_def DEFAULT_DANGEROUS_NODE_COMMANDS_def

lemma set_deny_fold: "set (fold delete_denied deny allow) = set allow - (trim ` set deny - {[]})"
  by (induction deny arbitrary: allow) (auto simp: delete_denied_def Let_def)

lemma distinct_deny_fold: "distinct allow \<Longrightarrow> distinct (fold delete_denied deny allow)"
  by (induction deny arbitrary: allow) (auto simp: delete_denied_def Let_def)

lemma platform_defaults_trimmed: "c \<in> set (PLATFORM_DEFAULTS p) \<Longrightarrow> trim c = c \<and> c \<noteq> []"
  by (cases p; simp add: command_tables; elim disjE; simp add: str_eval)

lemma platform_defaults_safe:
  "list_all (\<lambda>c. c \<notin> set (PLATFORM_DEFAULTS p)) DEFAULT_DANGEROUS_NODE_COMMANDS"
  by (cases p; simp add: command_tables)

lemma unknown_platform_safe:
  "list_all (\<lambda>c. c \<notin> set (PLATFORM_DEFAULTS UnknownPlatform)) NODE_SYSTEM_RUN_COMMANDS"
  by (simp add: command_tables)

lemma set_allowlist:
  "set (resolveNodeCommandAllowlist cfg node) =
     (set (PLATFORM_DEFAULTS (normalizePlatformId (Option.bind node platform) (Option.bind node deviceFamily)))
       \<union> (trim ` set (nullish (allowCommands cfg) []) - {[]}))
     - (trim ` set (nullish (denyCommands cfg) []) - {[]})"
proof -
  let ?p = "normalizePlatformId (Option.bind node platform) (Option.bind node deviceFamily)"
  have "trim ` set (PLATFORM_DEFAULTS ?p) = set (PLATFORM_DEFAULTS ?p)"
    using platform_defaults_trimmed by force
  moreover have "[] \<notin> set (PLATFORM_DEFAULTS ?p)" using platform_defaults_trimmed by blast
  ultimately show ?thesis
    by (auto simp: resolveNodeCommandAllowlist_def set_deny_fold nonempty_strs_def image_Un Let_def)
qed

text \<open>
  A command runs on a node only when the node declared it and it is a platform default or
  was allowed by the operator, and the operator did not deny it; the camera, screen, contacts,
  calendar, reminders and SMS commands classed as dangerous are never a default, and a node
  whose platform is not recognised gets no host-execution command by default.
\<close>

theorem node_command_allowed_only_when_granted:
  assumes "isNodeCommandAllowed command declared (set (resolveNodeCommandAllowlist cfg node)) = CommandOk"
  shows "(\<exists>ds. declared = Some ds \<and> trim command \<in> set ds) \<and>
    trim command \<notin> trim ` set (nullish (denyCommands cfg) []) \<and>
    (trim command \<in> set DEFAULT_DANGEROUS_NODE_COMMANDS \<or>
     normalizePlatformId (Option.bind node platform) (Option.bind node deviceFamily) = UnknownPlatform \<and>
       trim command \<in> set NODE_SYSTEM_RUN_COMMANDS
     \<longrightarrow> trim command \<in> trim ` set (nullish (allowCommands cfg) []))"
proof -
  let ?p = "normalizePlatformId (Option.bind node platform) (Option.bind node deviceFamily)"
  let ?c = "trim command"
  from assms have c: "?c \<noteq> []" and declared: "\<exists>ds. declared = Some ds \<and> ?c \<in> set ds"
    and listed: "?c \<in> set (resolveNodeCommandAllowlist cfg node)"
    by (auto simp: isNodeCommandAllowed_def Let_def split: if_splits option.splits)
  have "?c \<notin> set (PLATFORM_DEFAULTS ?p)" if "?c \<in> set DEFAULT_DANGEROUS_NODE_COMMANDS"
    using platform_defaults_safe [of ?p] that by (simp add: list_all_iff)
  moreover have "?c \<notin> set (PLATFORM_DEFAULTS ?p)"
    if "?p = UnknownPlatform" "?c \<in> set NODE_SYSTEM_RUN_COMMANDS"
    using unknown_platform_safe that by (simp add: list_all_iff)
  ultimately show ?thesis using c declared listed by (auto simp: set_allowlist)
qed

theorem node_command_allowed_only_when_granted_witness:
  "''sms.send'' \<in> trim ` set [''sms.send '']"
proof -
  let ?cfg = "\<lparr>allowCommands = Some [''sms.send ''], denyCommands = None\<rparr>"
  have t: "trim ''sms.send '' = ''sms.send''" "trim ''sms.send'' = ''sms.send''"
    by (simp_all add: str_eval)
  have "isNodeCommandAllowed ''sms.send'' (Some [''sms.send'']) (set (resolveNodeCommandAllowlist ?cfg None)) = CommandOk"
    by (simp add: isNodeCommandAllowed_def set_allowlist t)
  from node_command_allowed_only_when_granted [OF this] show ?thesis
    by (simp add: t command_tables)
qed

text \<open>
  The operator's lists decide: the allowlist is the platform's defaults with the configured
  commands added and the denied ones removed, without repetition, so denying a command always
  removes it, whatever allowed it.
\<close>

theorem node_allowlist_deny_wins:
  "distinct (resolveNodeCommandAllowlist cfg node) \<and>
   (\<forall>c. c \<in> set (resolveNodeCommandAllowlist cfg node) \<longleftrightarrow>
      c \<noteq> [] \<and> c \<notin> trim ` set (nullish (denyCommands cfg) []) \<and>
      (c \<in> set (PLATFORM_DEFAULTS
            (normalizePlatformId (Option.bind node platform) (Option.bind node deviceFamily))) \<or>
       c \<in> trim ` set (nullish (allowCommands cfg) [])))"
proof -
  have "distinct (resolveNodeCommandAllowlist cfg node)"
    by (simp add: resolveNodeCommandAllowlist_def Let_def distinct_deny_fold)
  then show ?thesis using platform_defaults_trimmed by (auto simp: set_allowlist)
qed

end
