(* ===== verification/IpAddresses.thy ===== *)
theory IpAddresses
  imports JsPrelude "HOL-Library.Word"
begin

text \<open>
  IP address literals, src/shared/net/ip.ts. The parser, the range classifier and the prefix
  match come from the package ipaddr.js and are the fields of a record of functions that every
  definition takes; its addresses are four octets or eight 16-bit parts with an optional zone.
  What the code computes itself on the parts (masks, shifts, the XOR of Teredo) is done on
  machine words.
\<close>

unbundle bit_operations_syntax

section \<open>Addresses and the library\<close>

datatype ip4 = Ip4 (o0: "8 word") (o1: "8 word") (o2: "8 word") (o3: "8 word")

datatype ip6 = Ip6 (h0: "16 word") (h1: "16 word") (h2: "16 word") (h3: "16 word")
  (h4: "16 word") (h5: "16 word") (h6: "16 word") (h7: "16 word") (zone: "string option")

datatype ip_address = IPv4 ip4 | IPv6 ip6

text \<open>
  The functions of ipaddr.js. The two parsers are called on literals that the matching
  \<open>isValid\<close> accepts only; \<open>parseCIDR\<close> and \<open>match\<close> throw on bad input, which is None.
\<close>

record ipaddr_js =
  ip4_isValid :: "string \<Rightarrow> bool"
  ip4_isValidFourPartDecimal :: "string \<Rightarrow> bool"
  ip4_parse :: "string \<Rightarrow> ip4"
  ip6_isValid :: "string \<Rightarrow> bool"
  ip6_parse :: "string \<Rightarrow> ip6"
  lib_isValid :: "string \<Rightarrow> bool"
  lib_parse :: "string \<Rightarrow> ip_address"
  lib_parseCIDR :: "string \<Rightarrow> (ip_address \<times> nat) option"
  ip4_range :: "ip4 \<Rightarrow> string"
  ip6_range :: "ip6 \<Rightarrow> string"
  ip4_match :: "ip4 \<Rightarrow> ip4 \<Rightarrow> nat \<Rightarrow> bool option"
  ip6_match :: "ip6 \<Rightarrow> ip6 \<Rightarrow> nat \<Rightarrow> bool option"
  lib_toString :: "ip_address \<Rightarrow> string"
  ip6_isIPv4Mapped :: "ip6 \<Rightarrow> bool"
  ip6_toIPv4 :: "ip6 \<Rightarrow> ip4"

fun ip_kind :: "ip_address \<Rightarrow> string" where
  "ip_kind (IPv4 _) = ''ipv4''"
| "ip_kind (IPv6 _) = ''ipv6''"

definition isIpv4Address :: "ip_address \<Rightarrow> bool" where
  "isIpv4Address a = (ip_kind a = ''ipv4'')"

definition isIpv6Address :: "ip_address \<Rightarrow> bool" where
  "isIpv6Address a = (ip_kind a = ''ipv6'')"

definition BLOCKED_IPV4_SPECIAL_USE_RANGES :: "string list" where
  "BLOCKED_IPV4_SPECIAL_USE_RANGES =
     [''unspecified'', ''broadcast'', ''multicast'', ''linkLocal'', ''loopback'',
      ''carrierGradeNat'', ''private'', ''reserved'']"

definition PRIVATE_OR_LOOPBACK_IPV4_RANGES :: "string list" where
  "PRIVATE_OR_LOOPBACK_IPV4_RANGES = [''loopback'', ''private'', ''linkLocal'', ''carrierGradeNat'']"

definition BLOCKED_IPV6_SPECIAL_USE_RANGES :: "string list" where
  "BLOCKED_IPV6_SPECIAL_USE_RANGES =
     [''unspecified'', ''loopback'', ''linkLocal'', ''uniqueLocal'', ''multicast'']"

definition RFC2544_BENCHMARK_PREFIX :: "ipaddr_js \<Rightarrow> ip4 \<times> nat" where
  "RFC2544_BENCHMARK_PREFIX lib = (ip4_parse lib ''198.18.0.0'', 15)"

section \<open>Parsing\<close>

definition stripIpv6Brackets :: "string \<Rightarrow> string" where
  "stripIpv6Brackets v = (if starts_with v ''['' \<and> ends_with v '']'' then slice_inner v else v)"

definition is_digit :: "char \<Rightarrow> bool" where
  "is_digit c = (let n = (of_char c :: nat) in 48 \<le> n \<and> n \<le> 57)"

definition is_hex_digit :: "char \<Rightarrow> bool" where
  "is_hex_digit c = (is_digit c \<or> (let n = (of_char c :: nat) in (65 \<le> n \<and> n \<le> 70) \<or> (97 \<le> n \<and> n \<le> 102)))"

definition is_alnum :: "char \<Rightarrow> bool" where
  "is_alnum c = (is_digit c \<or> (let n = (of_char c :: nat) in (65 \<le> n \<and> n \<le> 90) \<or> (97 \<le> n \<and> n \<le> 122)))"

definition all_digits :: "string \<Rightarrow> bool" where
  "all_digits s = (s \<noteq> [] \<and> list_all is_digit s)"

text \<open>\<open>/^[0-9]+$/\<close> or \<open>/^0x[0-9a-f]+$/i\<close>.\<close>

fun is_hex_literal :: "string \<Rightarrow> bool" where
  "is_hex_literal (z # x # ds) = (z = CHR ''0'' \<and> (x = CHR ''x'' \<or> x = CHR ''X'') \<and> ds \<noteq> [] \<and> list_all is_hex_digit ds)"
| "is_hex_literal _ = False"

definition isNumericIpv4LiteralPart :: "string \<Rightarrow> bool" where
  "isNumericIpv4LiteralPart v = (all_digits v \<or> is_hex_literal v)"

text \<open>
  The expression \<open>/^(.*:)([^:%]+(?:\.[^:%]+){3})(%[0-9A-Za-z]+)?$/\<close>: the first group ends at
  the last colon and holds no line end, the second has no colon and no percent sign and can be
  cut at three dots into four nonempty parts, the third is the optional zone.
  \<open>cut_start n\<close> is at the start of a part with \<open>n\<close> dots to come, \<open>cut_in n\<close> inside it.
\<close>

fun cut_in :: "nat \<Rightarrow> string \<Rightarrow> bool" and cut_start :: "nat \<Rightarrow> string \<Rightarrow> bool" where
  "cut_in n [] = (n = 0)"
| "cut_in n (c # s) = ((c = CHR ''.'' \<and> 0 < n \<and> cut_start (n - 1) s) \<or> cut_in n s)"
| "cut_start n [] = False"
| "cut_start n (c # s) = cut_in n s"

definition line_end :: "char \<Rightarrow> bool" where
  "line_end c = (let n = (of_char c :: nat) in n = 10 \<or> n = 13)"

definition embedded_ipv4_match :: "string \<Rightarrow> (string \<times> string \<times> string) option" where
  "embedded_ipv4_match raw = (let
     rest = rev (takeWhile (\<lambda>c. c \<noteq> CHR '':'') (rev raw));
     pre = rev (dropWhile (\<lambda>c. c \<noteq> CHR '':'') (rev raw));
     mid = takeWhile (\<lambda>c. c \<noteq> CHR ''%'') rest;
     zs = dropWhile (\<lambda>c. c \<noteq> CHR ''%'') rest in
     if pre \<noteq> [] \<and> \<not> list_ex line_end pre \<and> cut_start 3 mid \<and>
        (zs = [] \<or> (tl zs \<noteq> [] \<and> list_all is_alnum (tl zs)))
     then Some (pre, mid, zs) else None)"

text \<open>\<open>Number.parseInt(part, 10)\<close> on a string of digits.\<close>

definition digits_value :: "string \<Rightarrow> nat" where
  "digits_value s = fold (\<lambda>c n. 10 * n + (of_char c - 48)) s 0"

fun show_hex :: "nat \<Rightarrow> string" where
  "show_hex n = (if n < 16 then [''0123456789abcdef'' ! n] else show_hex (n div 16) @ [''0123456789abcdef'' ! (n mod 16)])"

declare show_hex.simps [simp del]

text \<open>
  \<open>((hi << 8) | lo).toString(16)\<close> on 32-bit integers; the octets of a valid four-part literal
  are at most 255, so the sign bit is never set.
\<close>

definition hextet_text :: "nat \<Rightarrow> nat \<Rightarrow> string" where
  "hextet_text hi lo = show_hex (unat (push_bit 8 (of_nat hi :: 32 word) OR of_nat lo))"

definition parseIpv6WithEmbeddedIpv4 :: "ipaddr_js \<Rightarrow> string \<Rightarrow> ip6 option" where
  "parseIpv6WithEmbeddedIpv4 lib raw =
     (if \<not> (CHR '':'' \<in> set raw) \<or> \<not> (CHR ''.'' \<in> set raw) then None
      else case embedded_ipv4_match raw of None \<Rightarrow> None
      | Some (pre, emb, zs) \<Rightarrow>
         if \<not> ip4_isValidFourPartDecimal lib emb then None
         else (let octets = map digits_value (split_on (CHR ''.'') emb);
                   high = hextet_text (octets ! 0) (octets ! 1);
                   low = hextet_text (octets ! 2) (octets ! 3);
                   normalized = pre @ high @ '':'' @ low @ zs
               in if \<not> ip6_isValid lib normalized then None else Some (ip6_parse lib normalized)))"

definition normalizeIpv4MappedAddress :: "ipaddr_js \<Rightarrow> ip_address \<Rightarrow> ip_address" where
  "normalizeIpv4MappedAddress lib a = (case a of
     IPv4 _ \<Rightarrow> a
   | IPv6 a6 \<Rightarrow> if \<not> ip6_isIPv4Mapped lib a6 then a else IPv4 (ip6_toIPv4 lib a6))"

definition parseCanonicalIpAddress :: "ipaddr_js \<Rightarrow> string option \<Rightarrow> ip_address option" where
  "parseCanonicalIpAddress lib raw = (let trimmed_raw = (case raw of None \<Rightarrow> [] | Some r \<Rightarrow> trim r) in
     if trimmed_raw = [] then None
     else let normalized = stripIpv6Brackets trimmed_raw in
       if normalized = [] then None
       else if ip4_isValid lib normalized then
         (if \<not> ip4_isValidFourPartDecimal lib normalized then None
          else Some (IPv4 (ip4_parse lib normalized)))
       else if ip6_isValid lib normalized then Some (IPv6 (ip6_parse lib normalized))
       else map_option IPv6 (parseIpv6WithEmbeddedIpv4 lib normalized))"

definition parseLooseIpAddress :: "ipaddr_js \<Rightarrow> string option \<Rightarrow> ip_address option" where
  "parseLooseIpAddress lib raw = (let trimmed_raw = (case raw of None \<Rightarrow> [] | Some r \<Rightarrow> trim r) in
     if trimmed_raw = [] then None
     else let normalized = stripIpv6Brackets trimmed_raw in
       if normalized = [] then None
       else if lib_isValid lib normalized then Some (lib_parse lib normalized)
       else map_option IPv6 (parseIpv6WithEmbeddedIpv4 lib normalized))"

definition normalizeIpAddress :: "ipaddr_js \<Rightarrow> string option \<Rightarrow> string option" where
  "normalizeIpAddress lib raw = (case parseCanonicalIpAddress lib raw of
     None \<Rightarrow> None
   | Some parsed \<Rightarrow> Some (to_lower (lib_toString lib (normalizeIpv4MappedAddress lib parsed))))"

definition isCanonicalDottedDecimalIPv4 :: "ipaddr_js \<Rightarrow> string option \<Rightarrow> bool" where
  "isCanonicalDottedDecimalIPv4 lib raw = (let trimmed_raw = (case raw of None \<Rightarrow> [] | Some r \<Rightarrow> trim r) in
     if trimmed_raw = [] then False
     else let normalized = stripIpv6Brackets trimmed_raw in
       if normalized = [] then False else ip4_isValidFourPartDecimal lib normalized)"

definition isLegacyIpv4Literal :: "ipaddr_js \<Rightarrow> string option \<Rightarrow> bool" where
  "isLegacyIpv4Literal lib raw = (let trimmed_raw = (case raw of None \<Rightarrow> [] | Some r \<Rightarrow> trim r) in
     if trimmed_raw = [] then False
     else let normalized = stripIpv6Brackets trimmed_raw in
       if normalized = [] \<or> CHR '':'' \<in> set normalized then False
       else if isCanonicalDottedDecimalIPv4 lib (Some normalized) then False
       else let parts = split_on (CHR ''.'') normalized in
         if length parts = 0 \<or> length parts > 4 then False
         else if list_ex (\<lambda>p. length p = 0) parts then False
         else if \<not> list_all isNumericIpv4LiteralPart parts then False
         else True)"

text \<open>The checks of a custom bind address, src/shared/net/ipv4.ts: None when it is accepted.\<close>

definition validateDottedDecimalIPv4Input :: "ipaddr_js \<Rightarrow> string option \<Rightarrow> string option" where
  "validateDottedDecimalIPv4Input lib v =
     (if v = None \<or> v = Some [] then Some ''IP address is required for custom bind mode''
      else if isCanonicalDottedDecimalIPv4 lib v then None
      else Some ''Invalid IPv4 address (e.g., 192.168.1.100)'')"

section \<open>Classification\<close>

definition ip_range :: "ipaddr_js \<Rightarrow> ip_address \<Rightarrow> string" where
  "ip_range lib a = (case a of IPv4 a4 \<Rightarrow> ip4_range lib a4 | IPv6 a6 \<Rightarrow> ip6_range lib a6)"

definition isLoopbackIpAddress :: "ipaddr_js \<Rightarrow> string option \<Rightarrow> bool" where
  "isLoopbackIpAddress lib raw = (case parseCanonicalIpAddress lib raw of
     None \<Rightarrow> False
   | Some parsed \<Rightarrow> ip_range lib (normalizeIpv4MappedAddress lib parsed) = ''loopback'')"

text \<open>ipaddr.js does not classify the deprecated site-local prefix fec0::/10 as private.\<close>

definition isBlockedSpecialUseIpv6Address :: "ipaddr_js \<Rightarrow> ip6 \<Rightarrow> bool" where
  "isBlockedSpecialUseIpv6Address lib a =
     (if ip6_range lib a \<in> set BLOCKED_IPV6_SPECIAL_USE_RANGES then True
      else h0 a AND 0xffc0 = 0xfec0)"

definition isPrivateOrLoopbackIpAddress :: "ipaddr_js \<Rightarrow> string option \<Rightarrow> bool" where
  "isPrivateOrLoopbackIpAddress lib raw = (case parseCanonicalIpAddress lib raw of
     None \<Rightarrow> False
   | Some parsed \<Rightarrow> (case normalizeIpv4MappedAddress lib parsed of
       IPv4 a4 \<Rightarrow> ip4_range lib a4 \<in> set PRIVATE_OR_LOOPBACK_IPV4_RANGES
     | IPv6 a6 \<Rightarrow> isBlockedSpecialUseIpv6Address lib a6))"

definition isRfc1918Ipv4Address :: "ipaddr_js \<Rightarrow> string option \<Rightarrow> bool" where
  "isRfc1918Ipv4Address lib raw = (case parseCanonicalIpAddress lib raw of
     Some (IPv4 a4) \<Rightarrow> ip4_range lib a4 = ''private'' | _ \<Rightarrow> False)"

definition isCarrierGradeNatIpv4Address :: "ipaddr_js \<Rightarrow> string option \<Rightarrow> bool" where
  "isCarrierGradeNatIpv4Address lib raw = (case parseCanonicalIpAddress lib raw of
     Some (IPv4 a4) \<Rightarrow> ip4_range lib a4 = ''carrierGradeNat'' | _ \<Rightarrow> False)"

text \<open>The second argument is the option \<open>allowRfc2544BenchmarkRange\<close>.\<close>

definition isBlockedSpecialUseIpv4Address :: "ipaddr_js \<Rightarrow> ip4 \<Rightarrow> bool \<Rightarrow> bool" where
  "isBlockedSpecialUseIpv4Address lib a allowBenchmark = (let
     inBenchmark = (ip4_match lib a (fst (RFC2544_BENCHMARK_PREFIX lib)) (snd (RFC2544_BENCHMARK_PREFIX lib)) = Some True) in
     if inBenchmark \<and> allowBenchmark then False
     else ip4_range lib a \<in> set BLOCKED_IPV4_SPECIAL_USE_RANGES \<or> inBenchmark)"

section \<open>IPv4 addresses inside IPv6 addresses\<close>

definition dotted :: "nat list \<Rightarrow> string" where
  "dotted octets = join_with ''.'' (map show_nat octets)"

definition decodeIpv4FromHextets :: "ipaddr_js \<Rightarrow> 16 word \<Rightarrow> 16 word \<Rightarrow> ip4" where
  "decodeIpv4FromHextets lib high low =
     ip4_parse lib (dotted [unat (drop_bit 8 high AND 0xff), unat (high AND 0xff),
                            unat (drop_bit 8 low AND 0xff), unat (low AND 0xff)])"

type_synonym sentinel_rule = "(ip6 \<Rightarrow> bool) \<times> (ip6 \<Rightarrow> 16 word \<times> 16 word)"

definition EMBEDDED_IPV4_SENTINEL_RULES :: "sentinel_rule list" where
  "EMBEDDED_IPV4_SENTINEL_RULES =
     [(\<lambda>a. h0 a = 0 \<and> h1 a = 0 \<and> h2 a = 0 \<and> h3 a = 0 \<and> h4 a = 0 \<and> h5 a = 0, \<lambda>a. (h6 a, h7 a)),
      (\<lambda>a. h0 a = 0x0064 \<and> h1 a = 0xff9b \<and> h2 a = 0x0001 \<and> h3 a = 0 \<and> h4 a = 0 \<and> h5 a = 0, \<lambda>a. (h6 a, h7 a)),
      (\<lambda>a. h0 a = 0x2002, \<lambda>a. (h1 a, h2 a)),
      (\<lambda>a. h0 a = 0x2001 \<and> h1 a = 0x0000, \<lambda>a. (h6 a XOR 0xffff, h7 a XOR 0xffff)),
      (\<lambda>a. h4 a AND 0xfcff = 0 \<and> h5 a = 0x5efe, \<lambda>a. (h6 a, h7 a))]"

fun first_sentinel :: "sentinel_rule list \<Rightarrow> ip6 \<Rightarrow> (16 word \<times> 16 word) option" where
  "first_sentinel [] a = None"
| "first_sentinel ((matches, toHextets) # rules) a =
     (if \<not> matches a then first_sentinel rules a else Some (toHextets a))"

definition extractEmbeddedIpv4FromIpv6 :: "ipaddr_js \<Rightarrow> ip6 \<Rightarrow> ip4 option" where
  "extractEmbeddedIpv4FromIpv6 lib a =
     (if ip6_isIPv4Mapped lib a then Some (ip6_toIPv4 lib a)
      else if ip6_range lib a = ''rfc6145'' then Some (decodeIpv4FromHextets lib (h6 a) (h7 a))
      else if ip6_range lib a = ''rfc6052'' then Some (decodeIpv4FromHextets lib (h6 a) (h7 a))
      else map_option (\<lambda>(high, low). decodeIpv4FromHextets lib high low)
             (first_sentinel EMBEDDED_IPV4_SENTINEL_RULES a))"

section \<open>Prefix membership\<close>

definition isIpInCidr :: "ipaddr_js \<Rightarrow> string \<Rightarrow> string \<Rightarrow> bool" where
  "isIpInCidr lib ip cidr = (case parseCanonicalIpAddress lib (Some ip) of
     None \<Rightarrow> False
   | Some normalizedIp \<Rightarrow>
      let candidate = trim cidr in
      if candidate = [] then False
      else let comparableIp = normalizeIpv4MappedAddress lib normalizedIp in
        if CHR ''/'' \<notin> set candidate then
          (case parseCanonicalIpAddress lib (Some candidate) of
             None \<Rightarrow> False
           | Some exact \<Rightarrow> let comparableExact = normalizeIpv4MappedAddress lib exact in
               ip_kind comparableIp = ip_kind comparableExact \<and>
               lib_toString lib comparableIp = lib_toString lib comparableExact)
        else (case lib_parseCIDR lib candidate of
             None \<Rightarrow> False
           | Some (baseAddress, prefixLength) \<Rightarrow>
               let comparableBase = normalizeIpv4MappedAddress lib baseAddress in
               if ip_kind comparableIp \<noteq> ip_kind comparableBase then False
               else (case (comparableIp, comparableBase) of
                   (IPv4 a, IPv4 b) \<Rightarrow> ip4_match lib a b prefixLength = Some True
                 | (IPv6 a, IPv6 b) \<Rightarrow> ip6_match lib a b prefixLength = Some True
                 | _ \<Rightarrow> False)))"

section \<open>Decimal and hexadecimal text\<close>

lemma digits_value_snoc: "digits_value (s @ [c]) = 10 * digits_value s + (of_char c - 48)"
  by (simp add: digits_value_def)

lemma of_char_digit_char: "d < 10 \<Longrightarrow> (of_char (digit_char d) :: nat) = 48 + d"
  by (simp add: digit_char_def of_char_of)

lemma digits_value_show_nat [simp]: "digits_value (show_nat n) = n"
proof (induction n rule: show_nat.induct)
  case (1 n)
  then show ?case
    by (subst show_nat.simps) (auto simp: digits_value_snoc of_char_digit_char digits_value_def)
qed

lemma is_digit_digit_char [simp]: "d < 10 \<Longrightarrow> is_digit (digit_char d)"
  by (simp add: is_digit_def of_char_digit_char)

lemma show_nat_digits: "c \<in> set (show_nat n) \<Longrightarrow> is_digit c"
proof (induction n rule: show_nat.induct)
  case (1 n)
  then show ?case
    by (subst (asm) show_nat.simps) (auto split: if_splits)
qed

lemma show_nat_all_digits [simp]: "all_digits (show_nat n)"
  by (auto simp: all_digits_def list_all_iff show_nat_digits)

lemma no_dot_in_show_nat [simp]: "CHR ''.'' \<notin> set (show_nat n)"
  using show_nat_digits [of "CHR ''.''" n] by (auto simp: is_digit_def)

lemma split_dotted: "octets \<noteq> [] \<Longrightarrow> split_on (CHR ''.'') (dotted octets) = map show_nat octets"
  unfolding dotted_def by (intro split_join) auto

section \<open>Reading back a tunnelled IPv4 address\<close>

text \<open>The 16-bit part that carries two octets, and its two halves.\<close>

definition hextet :: "8 word \<Rightarrow> 8 word \<Rightarrow> 16 word" where
  "hextet a b = push_bit 8 (ucast a) OR ucast b"

lemma unat_widen: "unat (ucast (a :: 8 word) :: 16 word) = unat a"
  using unsigned_less [of a, where 'a = nat]
  by (simp add: unsigned_ucast_eq take_bit_nat_eq_self)

lemma hextet_high: "unat (drop_bit 8 (hextet a b) AND 0xff) = unat a"
proof -
  have "drop_bit 8 (hextet a b) AND mask 8 = (ucast a :: 16 word)"
    unfolding hextet_def by (rule bit_word_eqI) (auto simp: bit_simps dest: bit_imp_le_length)
  then have "drop_bit 8 (hextet a b) AND 0xff = (ucast a :: 16 word)"
    by (simp add: mask_eq_exp_minus_1)
  then show ?thesis by (simp add: unat_widen)
qed

lemma hextet_low: "unat (hextet a b AND 0xff) = unat b"
proof -
  have "hextet a b AND mask 8 = (ucast b :: 16 word)"
    unfolding hextet_def by (rule bit_word_eqI) (auto simp: bit_simps dest: bit_imp_le_length)
  then have "hextet a b AND 0xff = (ucast b :: 16 word)"
    by (simp add: mask_eq_exp_minus_1)
  then show ?thesis by (simp add: unat_widen)
qed

text \<open>
  What the code relies on: ipaddr.js parses the dotted decimal text of four octets to those
  octets.
\<close>

definition parses_dotted :: "ipaddr_js \<Rightarrow> bool" where
  "parses_dotted lib \<longleftrightarrow>
     (\<forall>a b c d. ip4_parse lib (dotted [unat a, unat b, unat c, unat d]) = Ip4 a b c d)"

definition ip4_high :: "ip4 \<Rightarrow> 16 word" where "ip4_high v = hextet (o0 v) (o1 v)"
definition ip4_low :: "ip4 \<Rightarrow> 16 word" where "ip4_low v = hextet (o2 v) (o3 v)"

lemma decode_hextets:
  "parses_dotted lib \<Longrightarrow> decodeIpv4FromHextets lib (ip4_high v) (ip4_low v) = v"
  by (cases v) (simp add: decodeIpv4FromHextets_def ip4_high_def ip4_low_def hextet_high hextet_low parses_dotted_def)

lemma xor_ones_twice: "(x XOR 0xffff) XOR 0xffff = (x :: 16 word)"
  by (simp add: xor.assoc)

text \<open>The tunnelling forms of the RFCs, each as the condition on the parts and the octets carried.\<close>

datatype tunnel = Compatible | Nat64Local | SixToFour | Teredo | Isatap

fun tunnels :: "tunnel \<Rightarrow> ip6 \<Rightarrow> ip4 \<Rightarrow> bool" where
  "tunnels Compatible a v \<longleftrightarrow>
     h0 a = 0 \<and> h1 a = 0 \<and> h2 a = 0 \<and> h3 a = 0 \<and> h4 a = 0 \<and> h5 a = 0 \<and> h6 a = ip4_high v \<and> h7 a = ip4_low v"
| "tunnels Nat64Local a v \<longleftrightarrow>
     h0 a = 0x64 \<and> h1 a = 0xff9b \<and> h2 a = 1 \<and> h3 a = 0 \<and> h4 a = 0 \<and> h5 a = 0 \<and> h6 a = ip4_high v \<and> h7 a = ip4_low v"
| "tunnels SixToFour a v \<longleftrightarrow> h0 a = 0x2002 \<and> h1 a = ip4_high v \<and> h2 a = ip4_low v"
| "tunnels Teredo a v \<longleftrightarrow> h0 a = 0x2001 \<and> h1 a = 0 \<and> NOT (h6 a) = ip4_high v \<and> NOT (h7 a) = ip4_low v"
| "tunnels Isatap a v \<longleftrightarrow>
     h0 a \<noteq> 0x2002 \<and> (h0 a = 0x2001 \<longrightarrow> h1 a \<noteq> 0) \<and> (h4 a = 0 \<or> h4 a = 0x200) \<and> h5 a = 0x5efe \<and>
     h6 a = ip4_high v \<and> h7 a = ip4_low v"

lemma xor_ones_NOT: "x XOR 0xffff = NOT (x :: 16 word)"
proof -
  have ones: "(0xffff :: 16 word) = NOT 0" by simp
  show ?thesis unfolding ones by (rule bit_word_eqI) (auto simp: bit_simps)
qed

lemma tunnel_first_sentinel:
  "tunnels t a v \<Longrightarrow> first_sentinel EMBEDDED_IPV4_SENTINEL_RULES a = Some (ip4_high v, ip4_low v)"
  by (cases t) (auto simp: EMBEDDED_IPV4_SENTINEL_RULES_def xor_ones_NOT)

lemma tunnel_extracted:
  assumes "parses_dotted lib" "tunnels t a v"
    and "\<not> ip6_isIPv4Mapped lib a" "ip6_range lib a \<noteq> ''rfc6145''" "ip6_range lib a \<noteq> ''rfc6052''"
  shows "extractEmbeddedIpv4FromIpv6 lib a = Some v"
  using assms tunnel_first_sentinel [OF assms(2)]
  by (simp add: extractEmbeddedIpv4FromIpv6_def decode_hextets)

section \<open>A concrete library\<close>

text \<open>
  An instance of the record on the uncompressed forms of the literals (four decimal octets,
  eight hexadecimal parts) with the ranges the examples below need; it has the documented
  behaviour \<open>parses_dotted\<close>.
\<close>

definition hex_digit_value :: "char \<Rightarrow> nat" where
  "hex_digit_value c = (let n = of_char c in if n < 58 then n - 48 else if n < 71 then n - 55 else n - 87)"

definition hex_value :: "string \<Rightarrow> nat" where
  "hex_value s = fold (\<lambda>c n. 16 * n + hex_digit_value c) s 0"

definition sample_ip4_ok :: "string \<Rightarrow> bool" where
  "sample_ip4_ok s = (let ps = split_on (CHR ''.'') s in
     length ps = 4 \<and> list_all all_digits ps \<and> list_all (\<lambda>p. digits_value p < 256) ps)"

definition sample_ip4_parse :: "string \<Rightarrow> ip4" where
  "sample_ip4_parse s = (case map digits_value (split_on (CHR ''.'') s) of
     [a, b, c, d] \<Rightarrow> Ip4 (of_nat a) (of_nat b) (of_nat c) (of_nat d) | _ \<Rightarrow> Ip4 0 0 0 0)"

definition sample_ip6_ok :: "string \<Rightarrow> bool" where
  "sample_ip6_ok s = (let ps = split_on (CHR '':'') s in
     length ps = 8 \<and> list_all (\<lambda>p. p \<noteq> [] \<and> length p \<le> 4 \<and> list_all is_hex_digit p) ps)"

definition sample_ip6_parse :: "string \<Rightarrow> ip6" where
  "sample_ip6_parse s = (case map hex_value (split_on (CHR '':'') s) of
     [a, b, c, d, e, f, g, h] \<Rightarrow>
       Ip6 (of_nat a) (of_nat b) (of_nat c) (of_nat d) (of_nat e) (of_nat f) (of_nat g) (of_nat h) None
   | _ \<Rightarrow> Ip6 0 0 0 0 0 0 0 0 None)"

definition sample_toString :: "ip_address \<Rightarrow> string" where
  "sample_toString a = (case a of
     IPv4 v \<Rightarrow> dotted [unat (o0 v), unat (o1 v), unat (o2 v), unat (o3 v)]
   | IPv6 v \<Rightarrow> join_with '':'' (map (\<lambda>w. show_hex (unat w)) [h0 v, h1 v, h2 v, h3 v, h4 v, h5 v, h6 v, h7 v]))"

definition ip4_number :: "ip4 \<Rightarrow> nat" where
  "ip4_number v = ((unat (o0 v) * 256 + unat (o1 v)) * 256 + unat (o2 v)) * 256 + unat (o3 v)"

definition sample_ip4_range :: "ip4 \<Rightarrow> string" where
  "sample_ip4_range v = (if o0 v = 127 then ''loopback'' else if o0 v = 10 then ''private'' else ''unicast'')"

definition sample_ip6_mapped :: "ip6 \<Rightarrow> bool" where
  "sample_ip6_mapped v = (h0 v = 0 \<and> h1 v = 0 \<and> h2 v = 0 \<and> h3 v = 0 \<and> h4 v = 0 \<and> h5 v = 0xffff)"

definition sample_ipaddr :: ipaddr_js where
  "sample_ipaddr =
    \<lparr>ip4_isValid = sample_ip4_ok,
     ip4_isValidFourPartDecimal = sample_ip4_ok,
     ip4_parse = sample_ip4_parse,
     ip6_isValid = sample_ip6_ok,
     ip6_parse = sample_ip6_parse,
     lib_isValid = (\<lambda>s. sample_ip4_ok s \<or> sample_ip6_ok s),
     lib_parse = (\<lambda>s. if sample_ip4_ok s then IPv4 (sample_ip4_parse s) else IPv6 (sample_ip6_parse s)),
     lib_parseCIDR = (\<lambda>s. case split_on (CHR ''/'') s of
        [base, bits] \<Rightarrow> if sample_ip4_ok base then Some (IPv4 (sample_ip4_parse base), digits_value bits) else None
      | _ \<Rightarrow> None),
     ip4_range = sample_ip4_range,
     ip6_range = (\<lambda>v. ''unicast''),
     ip4_match = (\<lambda>a b n. Some (ip4_number a div 2 ^ (32 - n) = ip4_number b div 2 ^ (32 - n))),
     ip6_match = (\<lambda>a b n. if n = 128 then Some (a = b) else None),
     lib_toString = sample_toString,
     ip6_isIPv4Mapped = sample_ip6_mapped,
     ip6_toIPv4 = (\<lambda>v. Ip4 (ucast (drop_bit 8 (h6 v))) (ucast (h6 v)) (ucast (drop_bit 8 (h7 v))) (ucast (h7 v)))\<rparr>"

lemma sample_fields [simp]:
  "ip4_isValid sample_ipaddr = sample_ip4_ok"
  "ip4_isValidFourPartDecimal sample_ipaddr = sample_ip4_ok"
  "ip4_parse sample_ipaddr = sample_ip4_parse"
  "ip6_isValid sample_ipaddr = sample_ip6_ok"
  "ip6_parse sample_ipaddr = sample_ip6_parse"
  "ip4_range sample_ipaddr = sample_ip4_range"
  "ip6_range sample_ipaddr v = ''unicast''"
  "ip4_match sample_ipaddr a b n = Some (ip4_number a div 2 ^ (32 - n) = ip4_number b div 2 ^ (32 - n))"
  "lib_toString sample_ipaddr = sample_toString"
  "ip6_isIPv4Mapped sample_ipaddr = sample_ip6_mapped"
  by (simp_all add: sample_ipaddr_def)

lemma sample_parses_dotted: "parses_dotted sample_ipaddr"
  by (simp add: parses_dotted_def sample_ip4_parse_def split_dotted)

lemmas sample_eval = sample_ip4_ok_def sample_ip4_parse_def sample_ip6_ok_def
  sample_ip6_parse_def sample_ip4_range_def sample_ip6_mapped_def ip4_number_def
  all_digits_def is_digit_def is_hex_digit_def hex_value_def hex_digit_value_def digits_value_def
  parseCanonicalIpAddress_def stripIpv6Brackets_def starts_with_def ends_with_def suffix_def

end
