(* ===== verification/SsrfGuard.thy ===== *)
theory SsrfGuard
  imports IpAddresses
begin

text \<open>
  The guard of outgoing requests against server-side request forgery, src/infra/net/ssrf.ts and
  src/infra/net/hostname.ts: host names and literals that are refused before a DNS query, the
  check of the answers, and the lookup function pinned to the checked addresses. The DNS
  resolver is an argument; a rejected query is an error value.
\<close>

section \<open>Host names\<close>

definition normalizeHostname :: "string \<Rightarrow> string" where
  "normalizeHostname hostname = (let lowered = to_lower (trim hostname);
       normalized = (if ends_with lowered ''.'' then butlast lowered else lowered) in
     if starts_with normalized ''['' \<and> ends_with normalized '']'' then slice_inner normalized
     else normalized)"

datatype ssrf_error = SsrFBlocked string | PlainError string

record ssrf_policy =
  allowPrivateNetwork :: bool
  dangerouslyAllowPrivateNetwork :: bool
  allowRfc2544BenchmarkRange :: bool
  allowedHostnames :: "string list option"
  hostnameAllowlist :: "string list option"

definition BLOCKED_HOSTNAMES :: "string list" where
  "BLOCKED_HOSTNAMES = [''localhost'', ''localhost.localdomain'', ''metadata.google.internal'']"

definition normalizeHostnameSet :: "string list option \<Rightarrow> string list" where
  "normalizeHostnameSet values = (case values of None \<Rightarrow> [] | Some vs \<Rightarrow>
     if vs = [] then [] else js_set_of (nonempty_strs (map normalizeHostname vs)))"

definition normalizeHostnameAllowlist :: "string list option \<Rightarrow> string list" where
  "normalizeHostnameAllowlist values = (case values of None \<Rightarrow> [] | Some vs \<Rightarrow>
     if vs = [] then []
     else js_set_of (filter (\<lambda>v. v \<noteq> ''*'' \<and> v \<noteq> ''*.'' \<and> length v > 0) (map normalizeHostname vs)))"

definition isPrivateNetworkAllowedByPolicy :: "ssrf_policy option \<Rightarrow> bool" where
  "isPrivateNetworkAllowedByPolicy policy = (case policy of None \<Rightarrow> False
     | Some p \<Rightarrow> dangerouslyAllowPrivateNetwork p \<or> allowPrivateNetwork p)"

definition resolveIpv4SpecialUseBlockOptions :: "ssrf_policy option \<Rightarrow> bool" where
  "resolveIpv4SpecialUseBlockOptions policy =
     (case policy of None \<Rightarrow> False | Some p \<Rightarrow> allowRfc2544BenchmarkRange p)"

definition isHostnameAllowedByPattern :: "string \<Rightarrow> string \<Rightarrow> bool" where
  "isHostnameAllowedByPattern hostname pattern =
     (if starts_with pattern ''*.'' then
        (let suff = drop 2 pattern in
         if suff = [] \<or> hostname = suff then False else ends_with hostname (''.'' @ suff))
      else hostname = pattern)"

definition matchesHostnameAllowlist :: "string \<Rightarrow> string list \<Rightarrow> bool" where
  "matchesHostnameAllowlist hostname allowlist =
     (if length allowlist = 0 then True else list_ex (isHostnameAllowedByPattern hostname) allowlist)"

section \<open>Literals and names that are refused\<close>

text \<open>\<open>/^0x/i\<close>.\<close>

fun has_hex_prefix :: "string \<Rightarrow> bool" where
  "has_hex_prefix (z # x # _) = (z = CHR ''0'' \<and> (x = CHR ''x'' \<or> x = CHR ''X''))"
| "has_hex_prefix _ = False"

definition looksLikeUnsupportedIpv4Literal :: "string \<Rightarrow> bool" where
  "looksLikeUnsupportedIpv4Literal address = (let parts = split_on (CHR ''.'') address in
     if length parts = 0 \<or> length parts > 4 then False
     else if list_ex (\<lambda>p. length p = 0) parts then True
     else list_all (\<lambda>p. all_digits p \<or> has_hex_prefix p) parts)"

definition isPrivateIpAddress :: "ipaddr_js \<Rightarrow> string \<Rightarrow> ssrf_policy option \<Rightarrow> bool" where
  "isPrivateIpAddress lib address policy = (let
     lowered = to_lower (trim address);
     normalized = (if starts_with lowered ''['' \<and> ends_with lowered '']'' then slice_inner lowered else lowered) in
     if normalized = [] then False
     else let blockOptions = resolveIpv4SpecialUseBlockOptions policy in
       case parseCanonicalIpAddress lib (Some normalized) of
         Some (IPv4 strictIp) \<Rightarrow> isBlockedSpecialUseIpv4Address lib strictIp blockOptions
       | Some (IPv6 strictIp) \<Rightarrow>
           if isBlockedSpecialUseIpv6Address lib strictIp then True
           else (case extractEmbeddedIpv4FromIpv6 lib strictIp of
                   Some embeddedIpv4 \<Rightarrow> isBlockedSpecialUseIpv4Address lib embeddedIpv4 blockOptions
                 | None \<Rightarrow> False)
       | None \<Rightarrow>
           if CHR '':'' \<in> set normalized \<and> parseLooseIpAddress lib (Some normalized) = None then True
           else if \<not> isCanonicalDottedDecimalIPv4 lib (Some normalized) \<and> isLegacyIpv4Literal lib (Some normalized) then True
           else if looksLikeUnsupportedIpv4Literal normalized then True
           else False)"

definition isBlockedHostnameNormalized :: "string \<Rightarrow> bool" where
  "isBlockedHostnameNormalized normalized =
     (if normalized \<in> set BLOCKED_HOSTNAMES then True
      else ends_with normalized ''.localhost'' \<or> ends_with normalized ''.local'' \<or>
           ends_with normalized ''.internal'')"

definition isBlockedHostname :: "string \<Rightarrow> bool" where
  "isBlockedHostname hostname = (let normalized = normalizeHostname hostname in
     if normalized = [] then False else isBlockedHostnameNormalized normalized)"

definition isBlockedHostnameOrIp :: "ipaddr_js \<Rightarrow> string \<Rightarrow> ssrf_policy option \<Rightarrow> bool" where
  "isBlockedHostnameOrIp lib hostname policy = (let normalized = normalizeHostname hostname in
     if normalized = [] then False
     else isBlockedHostnameNormalized normalized \<or> isPrivateIpAddress lib normalized policy)"

definition BLOCKED_HOST_OR_IP_MESSAGE :: string where
  "BLOCKED_HOST_OR_IP_MESSAGE = ''Blocked hostname or private/internal/special-use IP address''"

definition BLOCKED_RESOLVED_IP_MESSAGE :: string where
  "BLOCKED_RESOLVED_IP_MESSAGE = ''Blocked: resolves to private/internal/special-use IP address''"

definition assertAllowedHostOrIpOrThrow :: "ipaddr_js \<Rightarrow> string \<Rightarrow> ssrf_policy option \<Rightarrow> ssrf_error + unit" where
  "assertAllowedHostOrIpOrThrow lib hostnameOrIp policy =
     (if isBlockedHostnameOrIp lib hostnameOrIp policy
      then Inl (SsrFBlocked BLOCKED_HOST_OR_IP_MESSAGE) else Inr ())"

text \<open>A DNS answer: the address text and its family.\<close>

type_synonym lookup_address = "string \<times> nat"

fun assertAllowedResolvedAddressesOrThrow ::
    "ipaddr_js \<Rightarrow> lookup_address list \<Rightarrow> ssrf_policy option \<Rightarrow> ssrf_error + unit" where
  "assertAllowedResolvedAddressesOrThrow lib [] policy = Inr ()"
| "assertAllowedResolvedAddressesOrThrow lib ((address, family) # results) policy =
     (if isBlockedHostnameOrIp lib address policy then Inl (SsrFBlocked BLOCKED_RESOLVED_IP_MESSAGE)
      else assertAllowedResolvedAddressesOrThrow lib results policy)"

section \<open>Resolution with pinning\<close>

text \<open>One pass of the loop; the accumulators are \<open>seen\<close>, \<open>ipv4\<close> and \<open>otherFamilies\<close>.\<close>

fun dedupe_loop :: "lookup_address list \<Rightarrow> string list \<Rightarrow> string list \<Rightarrow> string list \<Rightarrow> string list" where
  "dedupe_loop [] seen ipv4 other = ipv4 @ other"
| "dedupe_loop ((address, family) # results) seen ipv4 other =
     (if address \<in> set seen then dedupe_loop results seen ipv4 other
      else if family = 4 then dedupe_loop results (set_add address seen) (ipv4 @ [address]) other
      else dedupe_loop results (set_add address seen) ipv4 (other @ [address]))"

definition dedupeAndPreferIpv4 :: "lookup_address list \<Rightarrow> string list" where
  "dedupeAndPreferIpv4 results = dedupe_loop results [] [] []"

text \<open>The state of a pinned lookup: its host, its records and the round-robin index.\<close>

record pinned_lookup =
  pl_host :: string
  pl_records :: "lookup_address list"
  pl_index :: nat

definition createPinnedLookup :: "string \<Rightarrow> string list \<Rightarrow> pinned_lookup" where
  "createPinnedLookup hostname addresses =
     \<lparr>pl_host = normalizeHostname hostname,
      pl_records = map (\<lambda>a. (a, if CHR '':'' \<in> set a then 6 else 4)) addresses,
      pl_index = 0\<rparr>"

text \<open>The \<open>options\<close> argument: the callback itself, nothing, a family number or an object.\<close>

datatype lookup_options =
  OptCallback | OptUndefined | OptFamily nat | OptObject (opt_all: bool) (opt_family: "nat option")

datatype lookup_outcome =
  NoCallback | Fallback | FallbackWithOptions | AllRecords "lookup_address list"
| OneRecord string nat | LookupThrows

definition requested_family :: "lookup_options \<Rightarrow> nat" where
  "requested_family options = (case options of OptFamily n \<Rightarrow> n
     | OptObject _ (Some n) \<Rightarrow> n | _ \<Rightarrow> 0)"

definition usable_records :: "lookup_address list \<Rightarrow> nat \<Rightarrow> lookup_address list" where
  "usable_records records requestedFamily = (let
     candidates = (if requestedFamily = 4 \<or> requestedFamily = 6
                   then filter (\<lambda>entry. snd entry = requestedFamily) records else records) in
     if length candidates > 0 then candidates else records)"

text \<open>A call of the lookup function; \<open>callback\<close> tells whether the third argument is given.\<close>

definition pinned_lookup_call ::
    "pinned_lookup \<Rightarrow> string \<Rightarrow> lookup_options \<Rightarrow> bool \<Rightarrow> lookup_outcome \<times> pinned_lookup" where
  "pinned_lookup_call pl host options callback =
     (if options \<noteq> OptCallback \<and> \<not> callback then (NoCallback, pl)
      else let normalized = normalizeHostname host in
        if normalized = [] \<or> normalized \<noteq> pl_host pl then
          ((if options = OptCallback \<or> options = OptUndefined then Fallback else FallbackWithOptions), pl)
        else let usable = usable_records (pl_records pl) (requested_family options) in
          if (case options of OptObject True _ \<Rightarrow> True | _ \<Rightarrow> False) then (AllRecords usable, pl)
          else if usable = [] then (LookupThrows, pl\<lparr>pl_index := pl_index pl + 1\<rparr>)
          else let chosen = usable ! (pl_index pl mod length usable) in
            (OneRecord (fst chosen) (snd chosen), pl\<lparr>pl_index := pl_index pl + 1\<rparr>))"

record pinned_hostname =
  ph_hostname :: string
  ph_addresses :: "string list"
  ph_lookup :: pinned_lookup

type_synonym lookup_fn = "string \<Rightarrow> ssrf_error + lookup_address list"

definition skipPrivateNetworkChecks :: "string \<Rightarrow> ssrf_policy option \<Rightarrow> bool" where
  "skipPrivateNetworkChecks normalized policy =
     (isPrivateNetworkAllowedByPolicy policy \<or>
      normalized \<in> set (normalizeHostnameSet (Option.bind policy allowedHostnames)))"

definition resolvePinnedHostnameWithPolicy ::
    "ipaddr_js \<Rightarrow> string \<Rightarrow> lookup_fn \<Rightarrow> ssrf_policy option \<Rightarrow> ssrf_error + pinned_hostname" where
  "resolvePinnedHostnameWithPolicy lib hostname lookupFn policy = (let normalized = normalizeHostname hostname in
     if normalized = [] then Inl (PlainError ''Invalid hostname'')
     else let allowlist = normalizeHostnameAllowlist (Option.bind policy hostnameAllowlist);
              skipChecks = skipPrivateNetworkChecks normalized policy in
       if \<not> matchesHostnameAllowlist normalized allowlist
       then Inl (SsrFBlocked (''Blocked hostname (not in allowlist): '' @ hostname))
       else case (if skipChecks then Inr () else assertAllowedHostOrIpOrThrow lib normalized policy) of
         Inl e \<Rightarrow> Inl e
       | Inr _ \<Rightarrow> (case lookupFn normalized of
           Inl e \<Rightarrow> Inl e
         | Inr results \<Rightarrow>
             if length results = 0 then Inl (PlainError (''Unable to resolve hostname: '' @ hostname))
             else case (if skipChecks then Inr () else assertAllowedResolvedAddressesOrThrow lib results policy) of
               Inl e \<Rightarrow> Inl e
             | Inr _ \<Rightarrow> (let addresses = dedupeAndPreferIpv4 results in
                 if length addresses = 0 then Inl (PlainError (''Unable to resolve hostname: '' @ hostname))
                 else Inr \<lparr>ph_hostname = normalized, ph_addresses = addresses,
                           ph_lookup = createPinnedLookup normalized addresses\<rparr>)))"

definition resolvePinnedHostname :: "ipaddr_js \<Rightarrow> string \<Rightarrow> lookup_fn \<Rightarrow> ssrf_error + pinned_hostname" where
  "resolvePinnedHostname lib hostname lookupFn = resolvePinnedHostnameWithPolicy lib hostname lookupFn None"

text \<open>The preflight of a request that a declared proxy resolves.\<close>

definition assertAllowedHostnameForProxyRoute :: "ipaddr_js \<Rightarrow> string \<Rightarrow> ssrf_policy option \<Rightarrow> ssrf_error + unit" where
  "assertAllowedHostnameForProxyRoute lib hostname policy = (let normalized = normalizeHostname hostname in
     if normalized = [] then Inl (PlainError ''Invalid hostname'')
     else let allowlist = normalizeHostnameAllowlist (Option.bind policy hostnameAllowlist) in
       if \<not> matchesHostnameAllowlist normalized allowlist
       then Inl (SsrFBlocked (''Blocked hostname (not in allowlist): '' @ hostname))
       else if \<not> skipPrivateNetworkChecks normalized policy
         then assertAllowedHostOrIpOrThrow lib normalized policy else Inr ())"

section \<open>The pinned addresses\<close>

text \<open>The first answer for each address, in the order of the answers.\<close>

fun first_answers :: "string list \<Rightarrow> lookup_address list \<Rightarrow> lookup_address list" where
  "first_answers seen [] = []"
| "first_answers seen ((a, f) # rs) =
     (if a \<in> set seen then first_answers seen rs else (a, f) # first_answers (a # seen) rs)"

lemma first_answers_cong: "set seen = set seen' \<Longrightarrow> first_answers seen rs = first_answers seen' rs"
proof (induction rs arbitrary: seen seen')
  case (Cons r rs)
  have "first_answers (fst r # seen) rs = first_answers (fst r # seen') rs"
    by (rule Cons.IH) (simp add: Cons.prems)
  then show ?case
    using Cons.IH [OF Cons.prems] Cons.prems by (cases r) simp
qed simp

lemma set_first_answers: "fst ` set (first_answers seen rs) = fst ` set rs - set seen"
  by (induction seen rs rule: first_answers.induct) auto

lemma distinct_first_answers: "distinct (map fst (first_answers seen rs))"
proof (induction seen rs rule: first_answers.induct)
  case (2 seen a f rs)
  then show ?case using set_first_answers [of "a # seen" rs] by auto
qed simp

lemma dedupe_loop_eq:
  "dedupe_loop rs seen v4 other =
     v4 @ map fst (filter (\<lambda>r. snd r = 4) (first_answers seen rs)) @
     other @ map fst (filter (\<lambda>r. snd r \<noteq> 4) (first_answers seen rs))"
proof (induction rs seen v4 other rule: dedupe_loop.induct)
  case (2 a f rs seen v4 other)
  have "first_answers (set_add a seen) rs = first_answers (a # seen) rs"
    by (rule first_answers_cong) simp
  with 2 show ?case by simp
qed simp

lemma dedupe_eq:
  "dedupeAndPreferIpv4 rs = map fst (filter (\<lambda>r. snd r = 4) (first_answers [] rs)) @
     map fst (filter (\<lambda>r. snd r \<noteq> 4) (first_answers [] rs))"
  by (simp add: dedupeAndPreferIpv4_def dedupe_loop_eq)

lemma set_dedupe: "set (dedupeAndPreferIpv4 rs) = fst ` set rs"
proof -
  have "set (dedupeAndPreferIpv4 rs) = fst ` set (first_answers [] rs)"
    unfolding dedupe_eq by force
  then show ?thesis by (simp add: set_first_answers)
qed

lemma distinct_dedupe: "distinct (dedupeAndPreferIpv4 rs)"
proof -
  have "distinct (map fst (filter (\<lambda>r. snd r = 4) xs) @ map fst (filter (\<lambda>r. snd r \<noteq> 4) xs))"
    if "distinct (map fst xs)" for xs :: "lookup_address list"
    using that by (induction xs) (auto simp: image_iff)
  then show ?thesis by (simp add: dedupe_eq distinct_first_answers)
qed

lemma dedupe_eq_Nil [simp]: "dedupeAndPreferIpv4 rs = [] \<longleftrightarrow> rs = []"
  using set_dedupe [of rs] by (metis image_is_empty set_empty)

lemma resolved_check_iff:
  "assertAllowedResolvedAddressesOrThrow lib rs policy = Inr () \<longleftrightarrow>
     list_all (\<lambda>r. \<not> isBlockedHostnameOrIp lib (fst r) policy) rs"
  by (induction lib rs policy rule: assertAllowedResolvedAddressesOrThrow.induct) auto

lemma host_check_iff:
  "assertAllowedHostOrIpOrThrow lib h policy = Inr () \<longleftrightarrow> \<not> isBlockedHostnameOrIp lib h policy"
  by (simp add: assertAllowedHostOrIpOrThrow_def)

text \<open>Resolution is the preflight of the proxy route, the query, and the check of the answers.\<close>

definition resolve_after_preflight ::
    "ipaddr_js \<Rightarrow> string \<Rightarrow> lookup_fn \<Rightarrow> ssrf_policy option \<Rightarrow> ssrf_error + pinned_hostname" where
  "resolve_after_preflight lib hostname lookupFn policy = (let normalized = normalizeHostname hostname in
     case lookupFn normalized of Inl e \<Rightarrow> Inl e
     | Inr [] \<Rightarrow> Inl (PlainError (''Unable to resolve hostname: '' @ hostname))
     | Inr results \<Rightarrow>
         if \<not> skipPrivateNetworkChecks normalized policy \<and>
            \<not> list_all (\<lambda>r. \<not> isBlockedHostnameOrIp lib (fst r) policy) results
         then Inl (SsrFBlocked BLOCKED_RESOLVED_IP_MESSAGE)
         else Inr \<lparr>ph_hostname = normalized, ph_addresses = dedupeAndPreferIpv4 results,
                   ph_lookup = createPinnedLookup normalized (dedupeAndPreferIpv4 results)\<rparr>)"

lemma resolved_check_error:
  "assertAllowedResolvedAddressesOrThrow lib rs policy =
     (if list_all (\<lambda>r. \<not> isBlockedHostnameOrIp lib (fst r) policy) rs then Inr ()
      else Inl (SsrFBlocked BLOCKED_RESOLVED_IP_MESSAGE))"
  by (induction lib rs policy rule: assertAllowedResolvedAddressesOrThrow.induct) auto

lemma resolve_split:
  "resolvePinnedHostnameWithPolicy lib hostname lookupFn policy =
     (case assertAllowedHostnameForProxyRoute lib hostname policy of
        Inl e \<Rightarrow> Inl e | Inr _ \<Rightarrow> resolve_after_preflight lib hostname lookupFn policy)"
proof (cases "lookupFn (normalizeHostname hostname)")
  case (Inl e)
  then show ?thesis
    by (simp add: resolvePinnedHostnameWithPolicy_def assertAllowedHostnameForProxyRoute_def
        resolve_after_preflight_def Let_def assertAllowedHostOrIpOrThrow_def)
next
  case (Inr rs)
  then show ?thesis
    by (cases rs)
      (simp_all add: resolvePinnedHostnameWithPolicy_def assertAllowedHostnameForProxyRoute_def
        resolve_after_preflight_def Let_def assertAllowedHostOrIpOrThrow_def resolved_check_error
        del: assertAllowedResolvedAddressesOrThrow.simps)
qed

lemma preflight_ok_not_blocked:
  assumes "assertAllowedHostnameForProxyRoute lib hostname policy = Inr u"
    and "\<not> skipPrivateNetworkChecks (normalizeHostname hostname) policy"
  shows "\<not> isBlockedHostnameOrIp lib (normalizeHostname hostname) policy"
  using assms by (auto simp: assertAllowedHostnameForProxyRoute_def Let_def
      assertAllowedHostOrIpOrThrow_def split: if_splits)

lemma preflight_ok_allowlist:
  "assertAllowedHostnameForProxyRoute lib hostname policy = Inr u \<Longrightarrow>
   matchesHostnameAllowlist (normalizeHostname hostname)
     (normalizeHostnameAllowlist (Option.bind policy hostnameAllowlist))"
  by (auto simp: assertAllowedHostnameForProxyRoute_def Let_def split: if_splits)

lemma resolve_after_preflight_ok:
  assumes "resolve_after_preflight lib hostname lookupFn policy = Inr pinned"
  obtains answers where "lookupFn (normalizeHostname hostname) = Inr answers" "answers \<noteq> []"
    "pinned = \<lparr>ph_hostname = normalizeHostname hostname, ph_addresses = dedupeAndPreferIpv4 answers,
       ph_lookup = createPinnedLookup (normalizeHostname hostname) (dedupeAndPreferIpv4 answers)\<rparr>"
    "skipPrivateNetworkChecks (normalizeHostname hostname) policy \<or>
     list_all (\<lambda>r. \<not> isBlockedHostnameOrIp lib (fst r) policy) answers"
  using assms by (auto simp: resolve_after_preflight_def Let_def split: sum.splits list.splits if_splits)

section \<open>Properties of the guard\<close>

lemma resolve_ok_cases:
  assumes "resolvePinnedHostnameWithPolicy lib hostname lookupFn policy = Inr pinned"
    and "\<not> skipPrivateNetworkChecks (normalizeHostname hostname) policy"
  obtains answers where "lookupFn (normalizeHostname hostname) = Inr answers" "answers \<noteq> []"
    "ph_hostname pinned = normalizeHostname hostname" "ph_addresses pinned = dedupeAndPreferIpv4 answers"
    "list_all (\<lambda>r. \<not> isBlockedHostnameOrIp lib (fst r) policy) answers"
    "assertAllowedHostnameForProxyRoute lib hostname policy = Inr ()"
proof -
  from assms obtain u where "assertAllowedHostnameForProxyRoute lib hostname policy = Inr u"
    and "resolve_after_preflight lib hostname lookupFn policy = Inr pinned"
    by (auto simp: resolve_split split: sum.splits)
  with assms(2) show ?thesis
    by (elim resolve_after_preflight_ok) (auto intro: that)
qed

text \<open>Evaluation on literals for the examples.\<close>

lemma sample_hosts [simp]:
  "normalizeHostname ''8.8.4.4'' = ''8.8.4.4''"
  "normalizeHostname ''1:2:3:4:5:6:7:8'' = ''1:2:3:4:5:6:7:8''"
  "normalizeHostname ''a.io'' = ''a.io''"
  by (simp_all add: normalizeHostname_def str_eval ends_with_def suffix_def starts_with_def)

lemma sample_literals:
  "parseCanonicalIpAddress sample_ipaddr (Some ''8.8.4.4'') = Some (IPv4 (Ip4 8 8 4 4))"
  "parseCanonicalIpAddress sample_ipaddr (Some ''1:2:3:4:5:6:7:8'') = Some (IPv6 (Ip6 1 2 3 4 5 6 7 8 None))"
  "parseCanonicalIpAddress sample_ipaddr (Some ''a.io'') = None"
  by (simp_all add: str_eval sample_eval parseIpv6WithEmbeddedIpv4_def)

lemma sample_not_private:
  "\<not> isPrivateIpAddress sample_ipaddr ''8.8.4.4'' None"
  "\<not> isPrivateIpAddress sample_ipaddr ''1:2:3:4:5:6:7:8'' None"
  "\<not> isPrivateIpAddress sample_ipaddr ''a.io'' None"
    by (simp add: isPrivateIpAddress_def sample_literals str_eval starts_with_def sample_eval
        isBlockedSpecialUseIpv4Address_def RFC2544_BENCHMARK_PREFIX_def BLOCKED_IPV4_SPECIAL_USE_RANGES_def)
      (simp_all add: isPrivateIpAddress_def sample_literals str_eval starts_with_def ends_with_def suffix_def
        isBlockedSpecialUseIpv6Address_def BLOCKED_IPV6_SPECIAL_USE_RANGES_def sample_ip6_mapped_def
        extractEmbeddedIpv4FromIpv6_def EMBEDDED_IPV4_SENTINEL_RULES_def isLegacyIpv4Literal_def
        stripIpv6Brackets_def isNumericIpv4LiteralPart_def looksLikeUnsupportedIpv4Literal_def
        all_digits_def is_digit_def)

lemma sample_not_blocked:
  "\<not> isBlockedHostnameOrIp sample_ipaddr ''8.8.4.4'' None"
  "\<not> isBlockedHostnameOrIp sample_ipaddr ''1:2:3:4:5:6:7:8'' None"
  "\<not> isBlockedHostnameOrIp sample_ipaddr ''a.io'' None"
  by (simp_all add: isBlockedHostnameOrIp_def sample_not_private isBlockedHostnameNormalized_def
      BLOCKED_HOSTNAMES_def ends_with_def suffix_def)

definition sample_dns :: lookup_fn where
  "sample_dns name = Inr [(''1:2:3:4:5:6:7:8'', 6), (''8.8.4.4'', 4), (''8.8.4.4'', 4)]"

lemma sample_resolution:
  "resolvePinnedHostnameWithPolicy sample_ipaddr ''a.io'' sample_dns None =
     Inr \<lparr>ph_hostname = ''a.io'', ph_addresses = [''8.8.4.4'', ''1:2:3:4:5:6:7:8''],
          ph_lookup = createPinnedLookup ''a.io'' [''8.8.4.4'', ''1:2:3:4:5:6:7:8'']\<rparr>"
  by (simp add: resolvePinnedHostnameWithPolicy_def normalizeHostnameAllowlist_def
      matchesHostnameAllowlist_def assertAllowedHostOrIpOrThrow_def sample_not_blocked sample_dns_def
      dedupeAndPreferIpv4_def set_add_def Let_def)

lemma sample_not_skipped: "\<not> skipPrivateNetworkChecks (normalizeHostname ''a.io'') None"
  by (simp add: skipPrivateNetworkChecks_def isPrivateNetworkAllowedByPolicy_def normalizeHostnameSet_def)

text \<open>
  C4: A resolved host is safe to connect to. When the policy does not lift the private-network
  checks, a successful resolution pins exactly the addresses of the DNS answer, without
  repetition and at least one, IPv4 answers first; neither the host name nor any pinned address
  is blocked, and the name is on the allowlist of the policy.
\<close>

theorem resolved_host_is_safe:
  assumes ok: "resolvePinnedHostnameWithPolicy lib hostname lookupFn policy = Inr pinned"
    and checked: "\<not> skipPrivateNetworkChecks (normalizeHostname hostname) policy"
  shows "(\<exists>answers. lookupFn (ph_hostname pinned) = Inr answers \<and>
      set (ph_addresses pinned) = fst ` set answers \<and>
      ph_addresses pinned = map fst (filter (\<lambda>r. snd r = 4) (first_answers [] answers)) @
        map fst (filter (\<lambda>r. snd r \<noteq> 4) (first_answers [] answers))) \<and>
    ph_addresses pinned \<noteq> [] \<and> distinct (ph_addresses pinned) \<and>
    list_all (\<lambda>a. \<not> isBlockedHostnameOrIp lib a policy) (ph_hostname pinned # ph_addresses pinned) \<and>
    matchesHostnameAllowlist (ph_hostname pinned)
      (normalizeHostnameAllowlist (Option.bind policy hostnameAllowlist))"
proof -
  from resolve_ok_cases [OF ok checked] obtain answers where
    a: "lookupFn (normalizeHostname hostname) = Inr answers" "answers \<noteq> []"
       "ph_hostname pinned = normalizeHostname hostname" "ph_addresses pinned = dedupeAndPreferIpv4 answers"
       "list_all (\<lambda>r. \<not> isBlockedHostnameOrIp lib (fst r) policy) answers"
    and pre: "assertAllowedHostnameForProxyRoute lib hostname policy = Inr ()" .
  have "list_all (\<lambda>a. \<not> isBlockedHostnameOrIp lib a policy) (ph_hostname pinned # ph_addresses pinned)"
    using a preflight_ok_not_blocked [OF pre checked] by (auto simp: list_all_iff set_dedupe)
  then show ?thesis
    using a preflight_ok_allowlist [OF pre] by (auto simp: distinct_dedupe set_dedupe simp flip: dedupe_eq)
qed

lemma resolved_host_is_safe_witness:
  "list_all (\<lambda>a. \<not> isBlockedHostnameOrIp sample_ipaddr a None) [''a.io'', ''8.8.4.4'', ''1:2:3:4:5:6:7:8'']"
  using resolved_host_is_safe [OF sample_resolution sample_not_skipped] by simp

text \<open>
  The preflight of the proxy route is the DNS route without the DNS phase: the DNS route
  succeeds exactly when the preflight accepts and the query returns a nonempty answer whose
  addresses are all unblocked or unchecked; what the preflight refuses is refused with the same
  error whatever the resolver would say, so no query is made for it.
\<close>

theorem proxy_preflight_agrees:
  "((\<exists>pinned. resolvePinnedHostnameWithPolicy lib hostname lookupFn policy = Inr pinned) \<longleftrightarrow>
     assertAllowedHostnameForProxyRoute lib hostname policy = Inr () \<and>
     (\<exists>answers. lookupFn (normalizeHostname hostname) = Inr answers \<and> answers \<noteq> [] \<and>
        (skipPrivateNetworkChecks (normalizeHostname hostname) policy \<or>
         list_all (\<lambda>r. isBlockedHostnameOrIp lib (fst r) policy = False) answers))) \<and>
   (case assertAllowedHostnameForProxyRoute lib hostname policy of
      Inl e \<Rightarrow> resolvePinnedHostnameWithPolicy lib hostname lookupFn policy = Inl e
    | Inr _ \<Rightarrow> True)"
proof (cases "assertAllowedHostnameForProxyRoute lib hostname policy")
  case (Inl e)
  then show ?thesis by (simp add: resolve_split)
next
  case (Inr u)
  have "(\<exists>pinned. resolve_after_preflight lib hostname lookupFn policy = Inr pinned) \<longleftrightarrow>
     (\<exists>answers. lookupFn (normalizeHostname hostname) = Inr answers \<and> answers \<noteq> [] \<and>
        (skipPrivateNetworkChecks (normalizeHostname hostname) policy \<or>
         list_all (\<lambda>r. isBlockedHostnameOrIp lib (fst r) policy = False) answers))"
    by (simp add: resolve_after_preflight_def Let_def split: sum.splits list.splits)
  with Inr show ?thesis by (simp add: resolve_split)
qed

text \<open>
  A public-looking IPv6 literal that tunnels a blocked IPv4 address is refused, in each of
  the five forms (IPv4-compatible, local NAT64, 6to4, Teredo with its inverted bits, ISATAP).
\<close>

theorem tunnelled_private_address_is_blocked:
  assumes "parses_dotted lib" and "tunnels t a v"
    and "\<not> ip6_isIPv4Mapped lib a" "ip6_range lib a \<noteq> ''rfc6145''" "ip6_range lib a \<noteq> ''rfc6052''"
    and "isBlockedSpecialUseIpv4Address lib v (resolveIpv4SpecialUseBlockOptions policy)"
    and "trimmed address" "lowercase address" "\<not> starts_with address ''[''" "address \<noteq> []"
    and "parseCanonicalIpAddress lib (Some address) = Some (IPv6 a)"
  shows "isPrivateIpAddress lib address policy"
  using assms tunnel_extracted [OF assms(1-5)]
  by (simp add: isPrivateIpAddress_def Let_def trim_id lowercase_def)

definition sample_teredo :: ip6 where
  "sample_teredo = Ip6 0x2001 0 1 1 0 0 (NOT 0x7f00) (NOT 1) None"

lemma sample_teredo_tunnels: "tunnels Teredo sample_teredo (Ip4 127 0 0 1)"
  by (simp add: sample_teredo_def ip4_high_def ip4_low_def hextet_def push_bit_eq_mult unsigned_ucast_eq)

lemma sample_teredo_parsed:
  "parseCanonicalIpAddress sample_ipaddr (Some ''2001:0:1:1:0:0:80ff:fffe'') = Some (IPv6 sample_teredo)"
  by (simp add: str_eval sample_eval sample_teredo_def)

lemma tunnelled_private_address_is_blocked_witness:
  "isPrivateIpAddress sample_ipaddr ''2001:0:1:1:0:0:80ff:fffe'' None"
  by (rule tunnelled_private_address_is_blocked [OF sample_parses_dotted sample_teredo_tunnels _ _ _ _ _ _ _ _ sample_teredo_parsed])
    (simp_all add: sample_teredo_def sample_ip6_mapped_def isBlockedSpecialUseIpv4Address_def
      BLOCKED_IPV4_SPECIAL_USE_RANGES_def sample_ip4_range_def trimmed_def js_ws_def lowercase_def str_eval
      starts_with_def RFC2544_BENCHMARK_PREFIX_def sample_ip4_parse_def ip4_number_def digits_value_def)

section \<open>The pinned lookup function\<close>

fun pinned_calls :: "pinned_lookup \<Rightarrow> (string \<times> lookup_options \<times> bool) list \<Rightarrow> lookup_outcome list" where
  "pinned_calls pl [] = []"
| "pinned_calls pl ((host, options, callback) # calls) =
     (let (r, pl') = pinned_lookup_call pl host options callback in r # pinned_calls pl' calls)"

text \<open>The addresses an outcome hands to the connection.\<close>

fun outcome_addresses :: "lookup_outcome \<Rightarrow> string set" where
  "outcome_addresses (AllRecords rs) = fst ` set rs"
| "outcome_addresses (OneRecord a f) = {a}"
| "outcome_addresses _ = {}"

lemma set_usable_records: "set (usable_records rs fam) \<subseteq> set rs"
  by (auto simp: usable_records_def Let_def)

lemma usable_records_Nil [simp]: "usable_records rs fam = [] \<longleftrightarrow> rs = []"
  by (auto simp: usable_records_def Let_def)

lemma pinned_call_keeps [simp]:
  "pl_host (snd (pinned_lookup_call pl host options callback)) = pl_host pl"
  "pl_records (snd (pinned_lookup_call pl host options callback)) = pl_records pl"
  by (simp_all add: pinned_lookup_call_def Let_def)

lemma chosen_record: "rs \<noteq> [] \<Longrightarrow> usable_records rs fam ! (i mod length (usable_records rs fam)) \<in> set rs"
  by (rule subsetD [OF set_usable_records], rule nth_mem) simp

lemma pinned_call_addresses:
  "outcome_addresses (fst (pinned_lookup_call pl host options callback)) \<subseteq> fst ` set (pl_records pl)"
proof (cases "pl_records pl = []")
  case False
  have "fst ` set (usable_records (pl_records pl) f) \<subseteq> fst ` set (pl_records pl)" for f
    by (rule image_mono [OF set_usable_records])
  with False chosen_record [OF False] show ?thesis
    by (simp add: pinned_lookup_call_def Let_def)
next
  case True
  have "usable_records [] f = []" for f by simp
  with True show ?thesis by (simp add: pinned_lookup_call_def Let_def)
qed

lemma pinned_calls_addresses:
  "(\<Union> (outcome_addresses ` set (pinned_calls pl calls))) \<subseteq> fst ` set (pl_records pl)"
proof (induction calls arbitrary: pl)
  case (Cons c calls)
  obtain host options callback where c: "c = (host, options, callback)" by (cases c)
  show ?case
    using Cons.IH [of "snd (pinned_lookup_call pl host options callback)"] pinned_call_addresses [of pl host options callback]
    by (auto simp: c split_def Let_def)
qed simp

text \<open>The outcomes of \<open>k\<close> single-address calls, and the residues they go through.\<close>

definition takes_one :: "lookup_options \<Rightarrow> bool" where
  "takes_one options = (case options of OptObject True _ \<Rightarrow> False | _ \<Rightarrow> True)"

lemma pinned_call_one:
  assumes "takes_one options" "normalizeHostname host = pl_host pl" "pl_host pl \<noteq> []" "pl_records pl \<noteq> []"
  shows "pinned_lookup_call pl host options True =
    (let us = usable_records (pl_records pl) (requested_family options); r = us ! (pl_index pl mod length us) in
     (OneRecord (fst r) (snd r), pl\<lparr>pl_index := pl_index pl + 1\<rparr>))"
  using assms by (auto simp: pinned_lookup_call_def takes_one_def Let_def split: lookup_options.splits bool.splits)

lemma pinned_calls_rotate:
  assumes "takes_one options" "normalizeHostname host = pl_host pl" "pl_host pl \<noteq> []" "pl_records pl \<noteq> []"
  shows "pinned_calls pl (replicate k (host, options, True)) =
    (let us = usable_records (pl_records pl) (requested_family options) in
     map (\<lambda>i. case us ! ((pl_index pl + i) mod length us) of (a, f) \<Rightarrow> OneRecord a f) [0..<k])"
  using assms
proof (induction k arbitrary: pl)
  case (Suc k)
  then show ?case
    by (simp add: pinned_call_one Let_def split_def map_upt_Suc del: upt_Suc)
qed simp

lemma residues: "0 < n \<Longrightarrow> (\<lambda>i. (j + i) mod n) ` {0..<n} = {0..<n}" for j n :: nat
proof -
  assume n: "0 < n"
  have "x \<in> (\<lambda>i. (j + i) mod n) ` {0..<n}" if "x < n" for x
  proof (rule image_eqI)
    have "(j + (x + (n - j mod n)) mod n) mod n = (j mod n + (x + (n - j mod n))) mod n"
      by (simp add: mod_simps)
    also have "j mod n + (x + (n - j mod n)) = x + n"
      using mod_less_divisor [OF n, of j] by simp
    finally show "x = (j + (x + (n - j mod n)) mod n) mod n" using that by simp
    show "(x + (n - j mod n)) mod n \<in> {0..<n}" using n by simp
  qed
  with n show ?thesis by auto
qed

lemma pinned_calls_round:
  assumes "takes_one options" "normalizeHostname host = pl_host pl" "pl_host pl \<noteq> []" "pl_records pl \<noteq> []"
    and us: "us = usable_records (pl_records pl) (requested_family options)"
  shows "set (pinned_calls pl (replicate (length us) (host, options, True))) = (\<lambda>(a, f). OneRecord a f) ` set us"
proof -
  have n: "0 < length us" using assms(4) us by simp
  have "set (pinned_calls pl (replicate (length us) (host, options, True))) =
      (\<lambda>x. case us ! x of (a, f) \<Rightarrow> OneRecord a f) ` (\<lambda>i. (pl_index pl + i) mod length us) ` {0..<length us}"
    using pinned_calls_rotate [OF assms(1-4)] us by (simp add: Let_def image_image)
  also have "\<dots> = (\<lambda>r. case r of (a, f) \<Rightarrow> OneRecord a f) ` (\<lambda>x. us ! x) ` {0..<length us}"
    by (simp add: residues [OF n] image_image)
  also have "(\<lambda>x. us ! x) ` {0..<length us} = set us"
    by (auto simp: set_conv_nth)
  finally show ?thesis .
qed

lemma pl_fields [simp]:
  "pl_host (createPinnedLookup h as) = normalizeHostname h"
  "fst ` set (pl_records (createPinnedLookup h as)) = set as"
  "pl_records (createPinnedLookup h as) = [] \<longleftrightarrow> as = []"
  by (simp_all add: createPinnedLookup_def image_image)

text \<open>
  A pinned lookup never leaves the pinned addresses, and shares the load among them. In any
  sequence of calls, whatever their hosts and options, every address it hands out is one of the
  pinned ones; and at any point of such a sequence, as many single-address calls for the pinned
  host as there are usable records hand out every usable record.
\<close>

theorem pinned_lookup_confined_and_fair:
  "\<Union> (outcome_addresses ` set (pinned_calls (createPinnedLookup h as) calls)) \<subseteq> set as \<and>
   (as \<noteq> [] \<longrightarrow> normalizeHostname h \<noteq> [] \<longrightarrow> normalizeHostname host = normalizeHostname h \<longrightarrow> takes_one options \<longrightarrow>
     set (pinned_calls ((createPinnedLookup h as)\<lparr>pl_index := i\<rparr>)
       (replicate (length (usable_records (pl_records (createPinnedLookup h as)) (requested_family options)))
          (host, options, True))) =
     (\<lambda>(a, f). OneRecord a f) ` set (usable_records (pl_records (createPinnedLookup h as)) (requested_family options)))"
  using pinned_calls_addresses [of "createPinnedLookup h as" calls]
    pinned_calls_round [of options host "(createPinnedLookup h as)\<lparr>pl_index := i\<rparr>", OF _ _ _ _ refl]
  by simp

lemma pinned_lookup_confined_and_fair_witness:
  "set (pinned_calls ((createPinnedLookup ''a.io'' [''8.8.4.4'', ''1:2:3:4:5:6:7:8''])\<lparr>pl_index := 5\<rparr>)
     (replicate 2 (''a.io'', OptUndefined, True))) = {OneRecord ''8.8.4.4'' 4, OneRecord ''1:2:3:4:5:6:7:8'' 6}"
  using pinned_lookup_confined_and_fair [of "''a.io''" "[''8.8.4.4'', ''1:2:3:4:5:6:7:8'']" "[]" "''a.io''" OptUndefined 5]
  by (simp add: createPinnedLookup_def usable_records_def requested_family_def takes_one_def numeral_2_eq_2
      del: pinned_calls.simps)

end
