(* ===== verification/GatewayNet.thy ===== *)
theory GatewayNet
  imports IpAddresses
begin

text \<open>
  Network identity of gateway clients: src/gateway/net.ts (proxy headers, host names, bind
  address, secure WebSocket URLs), src/infra/tailnet.ts and src/gateway/origin-check.ts. What
  the platform provides is a record of arguments: ipaddr.js, \<open>net.isIP\<close>, the network
  interfaces, the URL parser and the test whether a host can be bound.
\<close>

section \<open>The platform\<close>

record net_interface =
  ni_family :: string
  ni_internal :: bool
  ni_address :: "string option"

record platform =
  ipaddr :: ipaddr_js
  net_isIP :: "string \<Rightarrow> nat"
  networkInterfaces :: "(string, net_interface list option) js_map"
  canBindToHost :: "string \<Rightarrow> bool"

section \<open>Addresses of this machine\<close>

definition first_external_ipv4 :: "net_interface list option \<Rightarrow> string option" where
  "first_external_ipv4 list = (case list of None \<Rightarrow> None
     | Some ns \<Rightarrow> (case find (\<lambda>n. ni_family n = ''IPv4'' \<and> \<not> ni_internal n) ns of
         None \<Rightarrow> None | Some n \<Rightarrow> (if ni_address n = Some [] then None else ni_address n)))"

fun first_lan :: "net_interface list option list \<Rightarrow> string option" where
  "first_lan [] = None"
| "first_lan (l # ls) = (case first_external_ipv4 l of Some a \<Rightarrow> Some a | None \<Rightarrow> first_lan ls)"

definition pickPrimaryLanIPv4 :: "platform \<Rightarrow> string option" where
  "pickPrimaryLanIPv4 pf = (let nets = networkInterfaces pf in
     case first_lan (map (\<lambda>name. Option.bind (map_get nets name) id) [''en0'', ''eth0'']) of
       Some a \<Rightarrow> Some a
     | None \<Rightarrow> first_lan (map snd nets))"

definition isTailnetIPv4 :: "platform \<Rightarrow> string \<Rightarrow> bool" where
  "isTailnetIPv4 pf address = isIpInCidr (ipaddr pf) address ''100.64.0.0/10''"

definition isTailnetIPv6 :: "platform \<Rightarrow> string \<Rightarrow> bool" where
  "isTailnetIPv6 pf address = isIpInCidr (ipaddr pf) address ''fd7a:115c:a1e0::/48''"

definition external_addresses :: "platform \<Rightarrow> string list" where
  "external_addresses pf = concat (map (\<lambda>entries. case entries of None \<Rightarrow> []
       | Some es \<Rightarrow> filter (\<lambda>a. a \<noteq> [])
           (map (\<lambda>e. case ni_address e of None \<Rightarrow> [] | Some a \<Rightarrow> trim a) (filter (\<lambda>e. \<not> ni_internal e) es)))
     (map snd (networkInterfaces pf)))"

definition listTailnetAddresses :: "platform \<Rightarrow> string list \<times> string list" where
  "listTailnetAddresses pf = (let as = external_addresses pf in
     (js_set_of (filter (isTailnetIPv4 pf) as), js_set_of (filter (isTailnetIPv6 pf) as)))"

definition first_of :: "'a list \<Rightarrow> 'a option" where
  "first_of xs = (case xs of [] \<Rightarrow> None | x # _ \<Rightarrow> Some x)"

definition pickPrimaryTailnetIPv4 :: "platform \<Rightarrow> string option" where
  "pickPrimaryTailnetIPv4 pf = first_of (fst (listTailnetAddresses pf))"

definition pickPrimaryTailnetIPv6 :: "platform \<Rightarrow> string option" where
  "pickPrimaryTailnetIPv6 pf = first_of (snd (listTailnetAddresses pf))"

section \<open>Host headers\<close>

definition normalizeHostHeader :: "string option \<Rightarrow> string" where
  "normalizeHostHeader hostHeader = to_lower (trim (nullish hostHeader []))"

definition resolveHostName :: "platform \<Rightarrow> string option \<Rightarrow> string" where
  "resolveHostName pf hostHeader = (let host = normalizeHostHeader hostHeader in
     if host = [] then []
     else case (if starts_with host ''['' then index_of (CHR '']'') host else None) of
       Some end \<Rightarrow> drop 1 (take end host)
     | None \<Rightarrow> if net_isIP pf host = 6 then host else hd (split_on (CHR '':'') host))"

definition isLoopbackAddress :: "platform \<Rightarrow> string option \<Rightarrow> bool" where
  "isLoopbackAddress pf ip = isLoopbackIpAddress (ipaddr pf) ip"

definition isPrivateOrLoopbackAddress :: "platform \<Rightarrow> string option \<Rightarrow> bool" where
  "isPrivateOrLoopbackAddress pf ip = isPrivateOrLoopbackIpAddress (ipaddr pf) ip"

definition normalizeIp :: "platform \<Rightarrow> string option \<Rightarrow> string option" where
  "normalizeIp pf ip = normalizeIpAddress (ipaddr pf) ip"

section \<open>The client behind a proxy\<close>

definition stripOptionalPort :: "platform \<Rightarrow> string \<Rightarrow> string" where
  "stripOptionalPort pf ip =
     (case (if starts_with ip ''['' then index_of (CHR '']'') ip else None) of
        Some end \<Rightarrow> drop 1 (take end ip)
      | None \<Rightarrow>
         if net_isIP pf ip \<noteq> 0 then ip
         else case index_of (CHR '':'') (rev ip) of
           None \<Rightarrow> ip
         | Some back \<Rightarrow>
             let lastColon = length ip - 1 - back; candidate = take lastColon ip in
             if CHR ''.'' \<in> set ip \<and> index_of (CHR '':'') ip = Some lastColon \<and> net_isIP pf candidate = 4
             then candidate else ip)"

definition parseIpLiteral :: "platform \<Rightarrow> string option \<Rightarrow> string option" where
  "parseIpLiteral pf raw = (let trimmed_raw = (case raw of None \<Rightarrow> [] | Some r \<Rightarrow> trim r) in
     if trimmed_raw = [] then None
     else case normalizeIp pf (Some (stripOptionalPort pf trimmed_raw)) of
       None \<Rightarrow> None
     | Some normalized \<Rightarrow> if normalized = [] \<or> net_isIP pf normalized = 0 then None else Some normalized)"

definition parseRealIp :: "platform \<Rightarrow> string option \<Rightarrow> string option" where
  "parseRealIp pf realIp = parseIpLiteral pf realIp"

definition isTrustedProxyAddress :: "platform \<Rightarrow> string option \<Rightarrow> string list option \<Rightarrow> bool" where
  "isTrustedProxyAddress pf ip trustedProxies = (case (normalizeIp pf ip, trustedProxies) of
     (Some normalized, Some proxies) \<Rightarrow>
       if normalized = [] \<or> length proxies = 0 then False
       else list_ex (\<lambda>proxy. let candidate = trim proxy in
              if candidate = [] then False else isIpInCidr (ipaddr pf) normalized candidate) proxies
   | _ \<Rightarrow> False)"

text \<open>The chain of valid hops, and the walk from its right end.\<close>

definition forwarded_chain :: "platform \<Rightarrow> string option \<Rightarrow> string list" where
  "forwarded_chain pf forwardedFor = (case forwardedFor of None \<Rightarrow> []
     | Some text \<Rightarrow> List.map_filter (\<lambda>entry. parseIpLiteral pf (Some entry)) (split_on (CHR '','') text))"

fun first_untrusted :: "platform \<Rightarrow> string list option \<Rightarrow> string list \<Rightarrow> string option" where
  "first_untrusted pf trusted [] = None"
| "first_untrusted pf trusted (hop # hops) =
     (if \<not> isTrustedProxyAddress pf (Some hop) trusted then Some hop else first_untrusted pf trusted hops)"

definition resolveForwardedClientIp :: "platform \<Rightarrow> string option \<Rightarrow> string list option \<Rightarrow> string option" where
  "resolveForwardedClientIp pf forwardedFor trustedProxies =
     (if trustedProxies = None \<or> trustedProxies = Some [] then None
      else let forwardedChain = forwarded_chain pf forwardedFor in
        if length forwardedChain = 0 then None
        else first_untrusted pf trustedProxies (rev forwardedChain))"

record client_params =
  remoteAddr :: "string option"
  forwardedFor :: "string option"
  realIp :: "string option"
  trustedProxies :: "string list option"
  allowRealIpFallback :: bool

definition resolveClientIp :: "platform \<Rightarrow> client_params \<Rightarrow> string option" where
  "resolveClientIp pf p = (case normalizeIp pf (remoteAddr p) of
     None \<Rightarrow> None
   | Some remote \<Rightarrow>
       if remote = [] then None
       else if \<not> isTrustedProxyAddress pf (Some remote) (trustedProxies p) then Some remote
       else case resolveForwardedClientIp pf (forwardedFor p) (trustedProxies p) of
         Some forwardedIp \<Rightarrow> Some forwardedIp
       | None \<Rightarrow> if allowRealIpFallback p then parseRealIp pf (realIp p) else None)"

definition isLocalGatewayAddress :: "platform \<Rightarrow> string option \<Rightarrow> bool" where
  "isLocalGatewayAddress pf ip =
     (if isLoopbackAddress pf ip then True
      else case ip of None \<Rightarrow> False | Some raw \<Rightarrow>
        if raw = [] then False
        else case normalizeIp pf ip of None \<Rightarrow> False | Some normalized \<Rightarrow>
          if normalized = [] then False
          else if (case pickPrimaryTailnetIPv4 pf of Some t \<Rightarrow> t \<noteq> [] \<and> normalized = to_lower t | None \<Rightarrow> False) then True
          else (case pickPrimaryTailnetIPv6 pf of Some t \<Rightarrow> t \<noteq> [] \<and> to_lower (trim raw) = to_lower t | None \<Rightarrow> False))"

section \<open>Bind address\<close>

definition isValidIPv4 :: "platform \<Rightarrow> string \<Rightarrow> bool" where
  "isValidIPv4 pf host = isCanonicalDottedDecimalIPv4 (ipaddr pf) (Some host)"

definition resolveGatewayBindHost :: "platform \<Rightarrow> string option \<Rightarrow> string option \<Rightarrow> string" where
  "resolveGatewayBindHost pf bind customHost = (let mode = nullish bind ''loopback'' in
     if mode = ''loopback'' then
       (if canBindToHost pf ''127.0.0.1'' then ''127.0.0.1'' else ''0.0.0.0'')
     else if mode = ''tailnet'' then
       (case pickPrimaryTailnetIPv4 pf of
          Some tailnetIP \<Rightarrow>
            if tailnetIP \<noteq> [] \<and> canBindToHost pf tailnetIP then tailnetIP
            else if canBindToHost pf ''127.0.0.1'' then ''127.0.0.1'' else ''0.0.0.0''
        | None \<Rightarrow> if canBindToHost pf ''127.0.0.1'' then ''127.0.0.1'' else ''0.0.0.0'')
     else if mode = ''lan'' then ''0.0.0.0''
     else if mode = ''custom'' then
       (let host = (case customHost of None \<Rightarrow> [] | Some h \<Rightarrow> trim h) in
        if host = [] then ''0.0.0.0''
        else if isValidIPv4 pf host \<and> canBindToHost pf host then host else ''0.0.0.0'')
     else if mode = ''auto'' then
       (if canBindToHost pf ''127.0.0.1'' then ''127.0.0.1'' else ''0.0.0.0'')
     else ''0.0.0.0'')"

definition resolveGatewayListenHosts :: "platform \<Rightarrow> string \<Rightarrow> string list" where
  "resolveGatewayListenHosts pf bindHost =
     (if bindHost \<noteq> ''127.0.0.1'' then [bindHost]
      else if canBindToHost pf ''::1'' then [bindHost, ''::1''] else [bindHost])"

section \<open>Local hosts and secure URLs\<close>

definition parseHostForAddressChecks :: "string \<Rightarrow> (bool \<times> string) option" where
  "parseHostForAddressChecks host =
     (if host = [] then None
      else let normalizedHost = to_lower (trim host) in
        if normalizedHost = ''localhost'' then Some (True, normalizedHost)
        else Some (False, if starts_with normalizedHost ''['' \<and> ends_with normalizedHost '']''
                          then slice_inner normalizedHost else normalizedHost))"

definition isLoopbackHost :: "platform \<Rightarrow> string \<Rightarrow> bool" where
  "isLoopbackHost pf host = (case parseHostForAddressChecks host of
     None \<Rightarrow> False
   | Some (isLocalhost, unbracketedHost) \<Rightarrow>
       if isLocalhost then True else isLoopbackAddress pf (Some unbracketedHost))"

definition isLocalishHost :: "platform \<Rightarrow> string option \<Rightarrow> bool" where
  "isLocalishHost pf hostHeader = (let host = resolveHostName pf hostHeader in
     if host = [] then False else isLoopbackHost pf host \<or> ends_with host ''.ts.net'')"

definition isPrivateOrLoopbackHost :: "platform \<Rightarrow> string \<Rightarrow> bool" where
  "isPrivateOrLoopbackHost pf host = (case parseHostForAddressChecks host of
     None \<Rightarrow> False
   | Some (isLocalhost, unbracketedHost) \<Rightarrow>
       if isLocalhost then True
       else case normalizeIp pf (Some unbracketedHost) of
         None \<Rightarrow> False
       | Some normalized \<Rightarrow>
           if normalized = [] \<or> \<not> isPrivateOrLoopbackAddress pf (Some normalized) then False
           else if net_isIP pf normalized = 6 \<and> starts_with normalized ''ff'' then False
           else if net_isIP pf normalized = 6 \<and> normalized = ''::'' then False
           else True)"

text \<open>\<open>new URL(text)\<close>, read for its protocol, origin, host and hostname; None when it throws.\<close>

record parsed_url =
  url_protocol :: string
  url_origin :: string
  url_host :: string
  url_hostname :: string

type_synonym url_parser = "string \<Rightarrow> parsed_url option"

definition isSecureWebSocketUrl :: "platform \<Rightarrow> url_parser \<Rightarrow> string \<Rightarrow> bool \<Rightarrow> bool" where
  "isSecureWebSocketUrl pf new_URL url allowPrivateWs = (case new_URL url of
     None \<Rightarrow> False
   | Some parsed \<Rightarrow>
       if url_protocol parsed = ''wss:'' then True
       else if url_protocol parsed \<noteq> ''ws:'' then False
       else if isLoopbackHost pf (url_hostname parsed) then True
       else if allowPrivateWs then isPrivateOrLoopbackHost pf (url_hostname parsed)
       else False)"

section \<open>Browser origins\<close>

datatype origin_match = MatchAllowlist | MatchHostHeaderFallback | MatchLocalLoopback

record parsed_origin =
  po_origin :: string
  po_host :: string
  po_hostname :: string

definition parseOrigin :: "url_parser \<Rightarrow> string option \<Rightarrow> parsed_origin option" where
  "parseOrigin new_URL originRaw = (let trimmed_origin = trim (nullish originRaw []) in
     if trimmed_origin = [] \<or> trimmed_origin = ''null'' then None
     else case new_URL trimmed_origin of
       None \<Rightarrow> None
     | Some url \<Rightarrow> Some \<lparr>po_origin = to_lower (url_origin url), po_host = to_lower (url_host url),
                        po_hostname = to_lower (url_hostname url)\<rparr>)"

record origin_params =
  op_requestHost :: "string option"
  op_origin :: "string option"
  op_allowedOrigins :: "string list option"
  op_allowHostHeaderOriginFallback :: bool
  op_isLocalClient :: bool

definition checkBrowserOrigin :: "platform \<Rightarrow> url_parser \<Rightarrow> origin_params \<Rightarrow> string + origin_match" where
  "checkBrowserOrigin pf new_URL p = (case parseOrigin new_URL (op_origin p) of
     None \<Rightarrow> Inl ''origin missing or invalid''
   | Some parsedOrigin \<Rightarrow>
      let allowlist = js_set_of (nonempty_strs (map (\<lambda>v. to_lower (trim v)) (nullish (op_allowedOrigins p) []))) in
      if ''*'' \<in> set allowlist \<or> po_origin parsedOrigin \<in> set allowlist then Inr MatchAllowlist
      else let requestHost = normalizeHostHeader (op_requestHost p) in
        if op_allowHostHeaderOriginFallback p \<and> requestHost \<noteq> [] \<and> po_host parsedOrigin = requestHost
        then Inr MatchHostHeaderFallback
        else if op_isLocalClient p \<and> isLoopbackHost pf (po_hostname parsedOrigin)
        then Inr MatchLocalLoopback
        else Inl ''origin not allowed'')"

section \<open>Properties of the client address\<close>

lemma first_untrusted_append:
  "first_untrusted pf trusted (xs @ ys) =
     (case first_untrusted pf trusted xs of Some h \<Rightarrow> Some h | None \<Rightarrow> first_untrusted pf trusted ys)"
  by (induction xs) auto

lemma first_untrusted_Some:
  "first_untrusted pf trusted xs = Some h \<Longrightarrow> h \<in> set xs \<and> \<not> isTrustedProxyAddress pf (Some h) trusted"
  by (induction xs) (auto split: if_splits)

lemma first_untrusted_None:
  "first_untrusted pf trusted xs = None \<longleftrightarrow> list_all (\<lambda>h. isTrustedProxyAddress pf (Some h) trusted) xs"
  by (induction xs) auto

lemma forwarded_chain_append:
  "forwarded_chain pf (Some (evil @ CHR '','' # honest)) = forwarded_chain pf (Some evil) @ forwarded_chain pf (Some honest)"
  by (simp add: forwarded_chain_def split_on_append List.map_filter_def)

lemma resolveForwarded_Some:
  assumes "resolveForwardedClientIp pf fwd trusted = Some ip"
  shows "ip \<in> set (forwarded_chain pf fwd)" "\<not> isTrustedProxyAddress pf (Some ip) trusted"
  using assms by (auto simp: resolveForwardedClientIp_def Let_def dest: first_untrusted_Some split: if_splits)

text \<open>The hops of a forwarded header that are not trusted proxies, in the order of the header.\<close>

definition untrusted_hops :: "platform \<Rightarrow> string list option \<Rightarrow> string option \<Rightarrow> string list" where
  "untrusted_hops pf trusted fwd =
     filter (\<lambda>h. isTrustedProxyAddress pf (Some h) trusted = False) (forwarded_chain pf fwd)"

lemma untrusted_hops_append:
  "untrusted_hops pf trusted (Some (evil @ CHR '','' # honest)) =
     untrusted_hops pf trusted (Some evil) @ untrusted_hops pf trusted (Some honest)"
  by (simp add: untrusted_hops_def forwarded_chain_append)

lemma first_untrusted_filter:
  "first_untrusted pf trusted (rev xs) =
     (case filter (\<lambda>h. isTrustedProxyAddress pf (Some h) trusted = False) xs of [] \<Rightarrow> None | h # hs \<Rightarrow> Some (last (h # hs)))"
  by (induction xs rule: rev_induct) (auto split: list.splits)

lemma resolveForwarded_exact:
  assumes "isTrustedProxyAddress pf (Some remote) trusted"
  shows "resolveForwardedClientIp pf fwd trusted =
     (if untrusted_hops pf trusted fwd = [] then None else Some (last (untrusted_hops pf trusted fwd)))"
proof -
  have "trusted \<noteq> None" "trusted \<noteq> Some []"
    using assms by (auto simp: isTrustedProxyAddress_def split: option.splits)
  then show ?thesis
    by (auto simp: resolveForwardedClientIp_def first_untrusted_filter untrusted_hops_def Let_def split: list.splits)
qed

text \<open>
  C5: A client cannot choose the address the gateway sees. The resolved address of a
  request is exactly: none when the socket address cannot be parsed; the normalised socket address
  when it is not a trusted proxy, whatever the headers say; otherwise the last hop of the
  forwarded header that is not a trusted proxy; and only when there is no such hop, the X-Real-IP
  header, if the operator enabled it. So when the part \<open>honest\<close> of the header that the proxies
  appended has an untrusted hop, the address is the last untrusted hop of that part, whatever text
  \<open>evil\<close> the client put in front of it.
\<close>

theorem forwarded_header_not_spoofable:
  "resolveClientIp pf p = (case normalizeIp pf (remoteAddr p) of
      None \<Rightarrow> None
    | Some remote \<Rightarrow>
        if remote = [] then None
        else if isTrustedProxyAddress pf (Some remote) (trustedProxies p) = False then Some remote
        else if untrusted_hops pf (trustedProxies p) (forwardedFor p) \<noteq> []
        then Some (last (untrusted_hops pf (trustedProxies p) (forwardedFor p)))
        else if allowRealIpFallback p then parseRealIp pf (realIp p) else None) \<and>
   (\<forall>remote. normalizeIp pf (remoteAddr p) = Some remote \<longrightarrow> remote \<noteq> [] \<longrightarrow>
      isTrustedProxyAddress pf (Some remote) (trustedProxies p) \<longrightarrow>
      untrusted_hops pf (trustedProxies p) (Some honest) \<noteq> [] \<longrightarrow>
      resolveClientIp pf (p\<lparr>forwardedFor := Some (evil @ '','' @ honest)\<rparr>) =
        Some (last (untrusted_hops pf (trustedProxies p) (Some honest))))"
  by (auto simp: resolveClientIp_def resolveForwarded_exact untrusted_hops_append split: option.splits)

text \<open>
  Behind a trusted proxy the gateway fails closed: the resolved address is never an address
  of the trusted proxies, unless the operator enabled the X-Real-IP fallback and every forwarded
  hop is a proxy; with neither an untrusted hop nor the fallback there is no client address.
\<close>

theorem proxied_client_fails_closed:
  assumes "isTrustedProxyAddress pf (Some remote) (trustedProxies p)"
    and "normalizeIp pf (remoteAddr p) = Some remote"
  shows "case resolveClientIp pf p of
      Some ip \<Rightarrow> (ip \<in> set (forwarded_chain pf (forwardedFor p)) \<and>
                  isTrustedProxyAddress pf (Some ip) (trustedProxies p) = False) \<or>
                 (allowRealIpFallback p \<and> parseRealIp pf (realIp p) = Some ip \<and>
                  list_all (\<lambda>h. isTrustedProxyAddress pf (Some h) (trustedProxies p)) (forwarded_chain pf (forwardedFor p)))
    | None \<Rightarrow> remote = [] \<or>
        (list_all (\<lambda>h. isTrustedProxyAddress pf (Some h) (trustedProxies p)) (forwarded_chain pf (forwardedFor p)) \<and>
         (allowRealIpFallback p \<longrightarrow> parseRealIp pf (realIp p) = None))"
proof (cases "resolveForwardedClientIp pf (forwardedFor p) (trustedProxies p)")
  case (Some ip)
  with assms resolveForwarded_Some [OF Some] show ?thesis
    by (simp add: resolveClientIp_def)
next
  case None
  have "trustedProxies p \<noteq> None" "trustedProxies p \<noteq> Some []"
    using assms(1) by (auto simp: isTrustedProxyAddress_def split: option.splits)
  with None have "list_all (\<lambda>h. isTrustedProxyAddress pf (Some h) (trustedProxies p)) (forwarded_chain pf (forwardedFor p))"
    by (auto simp: resolveForwardedClientIp_def Let_def first_untrusted_None split: if_splits)
  with assms None show ?thesis
    by (auto simp: resolveClientIp_def split: option.splits)
qed

section \<open>Properties of bind address, origins and secure URLs\<close>

text \<open>
  The bind address can be bound, or is the wildcard; a gateway asked for loopback (by
  default, in mode auto, or in mode tailnet without a usable tailnet address) binds loopback
  whenever loopback can be bound, and a custom address is used only when it is a canonical
  dotted decimal literal that can be bound.
\<close>

theorem bind_host_is_bindable:
  "(if resolveGatewayBindHost pf bind customHost = ''0.0.0.0'' then True
    else canBindToHost pf (resolveGatewayBindHost pf bind customHost)) \<and>
   (canBindToHost pf ''127.0.0.1'' \<longrightarrow> nullish bind ''loopback'' \<in> {''loopback'', ''auto''} \<longrightarrow>
      resolveGatewayBindHost pf bind customHost = ''127.0.0.1'') \<and>
   (bind = Some ''tailnet'' \<longrightarrow> canBindToHost pf ''127.0.0.1'' \<longrightarrow>
      resolveGatewayBindHost pf bind customHost \<in> insert ''127.0.0.1'' (set_option (pickPrimaryTailnetIPv4 pf))) \<and>
   (bind = Some ''custom'' \<longrightarrow> resolveGatewayBindHost pf bind customHost \<noteq> ''0.0.0.0'' \<longrightarrow>
      isValidIPv4 pf (resolveGatewayBindHost pf bind customHost))"
  by (intro conjI impI) (auto simp: resolveGatewayBindHost_def Let_def split: option.splits if_splits)

text \<open>
  A browser origin is accepted for one of three reasons only: it is on the allowlist or
  the list has the wildcard; the operator enabled the host-header fallback and the Host header
  names the origin's host; or the socket is local and the origin's host is loopback. A remote
  client of a gateway with an empty list and no fallback is always refused, whatever its Host
  header says, and so is a missing or opaque origin.
\<close>

theorem browser_origin_reasons:
  "(case checkBrowserOrigin pf new_URL p of
      Inr why \<Rightarrow> (\<exists>po. parseOrigin new_URL (op_origin p) = Some po \<and>
        (case why of
           MatchAllowlist \<Rightarrow> (\<exists>v \<in> set (nullish (op_allowedOrigins p) []).
              to_lower (trim v) = ''*'' \<or> (to_lower (trim v) = po_origin po \<and> po_origin po \<noteq> []))
         | MatchHostHeaderFallback \<Rightarrow> op_allowHostHeaderOriginFallback p \<and>
              po_host po = normalizeHostHeader (op_requestHost p) \<and> po_host po \<noteq> []
         | MatchLocalLoopback \<Rightarrow> op_isLocalClient p \<and> isLoopbackHost pf (po_hostname po)))
    | Inl _ \<Rightarrow> True) \<and>
   (op_allowedOrigins p = None \<longrightarrow> op_allowHostHeaderOriginFallback p = False \<longrightarrow> op_isLocalClient p = False \<longrightarrow>
      isl (checkBrowserOrigin pf new_URL p)) \<and>
   (trim (nullish (op_origin p) []) \<in> {[], ''null''} \<longrightarrow> isl (checkBrowserOrigin pf new_URL p))"
proof -
  have members: "x \<in> set (js_set_of (nonempty_strs (map (\<lambda>v. to_lower (trim v)) vs))) \<longleftrightarrow>
      x \<noteq> [] \<and> (\<exists>v \<in> set vs. to_lower (trim v) = x)" for x vs
    by (auto simp: nonempty_strs_def)
  show ?thesis
    unfolding checkBrowserOrigin_def Let_def members
    by (auto simp: parseOrigin_def Let_def split: option.splits)
qed

text \<open>
  A WebSocket URL is trusted with credentials only when it is encrypted, or its host is
  loopback, or the operator enabled private networks and the host normalises to a private or
  loopback address that is neither the unspecified address nor multicast.
\<close>

theorem plaintext_websocket_stays_private:
  assumes "isSecureWebSocketUrl pf new_URL url allowPrivateWs"
    and "new_URL url = Some parsed" and "url_protocol parsed \<noteq> ''wss:''"
    and "\<not> isLoopbackHost pf (url_hostname parsed)"
  shows "url_protocol parsed = ''ws:'' \<and> allowPrivateWs \<and>
    (\<exists>host ip. parseHostForAddressChecks (url_hostname parsed) = Some (False, host) \<and>
       normalizeIp pf (Some host) = Some ip \<and> isPrivateOrLoopbackAddress pf (Some ip) \<and>
       (net_isIP pf ip = 6 \<longrightarrow> ip \<noteq> ''::'' \<and> \<not> starts_with ip ''ff''))"
proof -
  from assms have priv: "url_protocol parsed = ''ws:''" "allowPrivateWs"
    "isPrivateOrLoopbackHost pf (url_hostname parsed)"
    by (auto simp: isSecureWebSocketUrl_def split: if_splits)
  from assms(4) priv(3) obtain host where
    host: "parseHostForAddressChecks (url_hostname parsed) = Some (False, host)"
    by (auto simp: isLoopbackHost_def isPrivateOrLoopbackHost_def split: option.splits if_splits)
  with priv show ?thesis
    by (auto simp: isPrivateOrLoopbackHost_def split: option.splits if_splits)
qed

section \<open>A concrete platform\<close>

definition sample_platform :: platform where
  "sample_platform = \<lparr>ipaddr = sample_ipaddr,
     net_isIP = (\<lambda>s. if sample_ip4_ok s then 4 else if sample_ip6_ok s then 6 else 0),
     networkInterfaces = [], canBindToHost = (\<lambda>h. h = ''127.0.0.1'')\<rparr>"

definition sample_client :: client_params where
  "sample_client = \<lparr>remoteAddr = Some ''10.0.0.1'', forwardedFor = Some ''8.8.4.4'', realIp = None,
     trustedProxies = Some [''10.0.0.1''], allowRealIpFallback = False\<rparr>"

lemma sample_platform_fields [simp]:
  "ipaddr sample_platform = sample_ipaddr"
  "net_isIP sample_platform s = (if sample_ip4_ok s then 4 else if sample_ip6_ok s then 6 else 0)"
  "canBindToHost sample_platform h = (h = ''127.0.0.1'')"
  by (simp_all add: sample_platform_def)

lemma sample_client_fields [simp]:
  "trustedProxies sample_client = Some [''10.0.0.1'']" "remoteAddr sample_client = Some ''10.0.0.1''"
  "forwardedFor sample_client = Some ''8.8.4.4''" "allowRealIpFallback sample_client = False"
  by (simp_all add: sample_client_def)

lemma sample_parsed:
  "parseCanonicalIpAddress sample_ipaddr (Some ''10.0.0.1'') = Some (IPv4 (Ip4 10 0 0 1))"
  "parseCanonicalIpAddress sample_ipaddr (Some ''8.8.4.4'') = Some (IPv4 (Ip4 8 8 4 4))"
  by (simp_all add: str_eval sample_eval)

lemma sample_shown:
  "sample_toString (IPv4 (Ip4 10 0 0 1)) = ''10.0.0.1''" "sample_toString (IPv4 (Ip4 8 8 4 4)) = ''8.8.4.4''"
  by (simp_all add: sample_toString_def dotted_def show_nat.simps digit_char_def char_of_def bit_Suc_0_iff)

lemma sample_normalized:
  "normalizeIp sample_platform (Some ''10.0.0.1'') = Some ''10.0.0.1''"
  "normalizeIp sample_platform (Some ''8.8.4.4'') = Some ''8.8.4.4''"
  by (simp_all add: normalizeIp_def normalizeIpAddress_def sample_parsed sample_shown
      normalizeIpv4MappedAddress_def str_eval)

lemma sample_trusted:
  "isTrustedProxyAddress sample_platform (Some ''10.0.0.1'') (Some [''10.0.0.1''])"
  "\<not> isTrustedProxyAddress sample_platform (Some ''8.8.4.4'') (Some [''10.0.0.1''])"
  by (simp_all add: isTrustedProxyAddress_def sample_normalized isIpInCidr_def sample_parsed sample_shown
      normalizeIpv4MappedAddress_def str_eval)

lemma sample_chain: "forwarded_chain sample_platform (Some ''8.8.4.4'') = [''8.8.4.4'']"
  by (simp add: forwarded_chain_def List.map_filter_def parseIpLiteral_def stripOptionalPort_def
      starts_with_def str_eval sample_ip4_ok_def all_digits_def is_digit_def digits_value_def
      sample_normalized)

lemma sample_untrusted: "untrusted_hops sample_platform (Some [''10.0.0.1'']) (Some ''8.8.4.4'') = [''8.8.4.4'']"
  by (simp add: untrusted_hops_def sample_chain sample_trusted)

lemma forwarded_header_not_spoofable_witness:
  "resolveClientIp sample_platform (sample_client\<lparr>forwardedFor := Some (''127.0.0.1, 10.0.0.1'' @ '','' @ ''8.8.4.4'')\<rparr>) =
     Some ''8.8.4.4''"
  using forwarded_header_not_spoofable [where pf = sample_platform and p = sample_client and honest = "''8.8.4.4''" and evil = "''127.0.0.1, 10.0.0.1''"]
  by (simp add: sample_normalized sample_trusted sample_untrusted)

lemma proxied_client_fails_closed_witness:
  "resolveClientIp sample_platform sample_client = Some ''8.8.4.4'' \<and> \<not> isTrustedProxyAddress sample_platform (Some ''8.8.4.4'') (Some [''10.0.0.1''])"
proof -
  have "resolveClientIp sample_platform sample_client = Some ''8.8.4.4''"
    by (simp add: resolveClientIp_def sample_normalized sample_trusted resolveForwardedClientIp_def sample_chain Let_def)
  then show ?thesis
    using proxied_client_fails_closed [of sample_platform "''10.0.0.1''" sample_client]
    by (simp add: sample_normalized sample_trusted)
qed

lemma bind_host_is_bindable_witness:
  "resolveGatewayBindHost sample_platform None None = ''127.0.0.1''"
  using bind_host_is_bindable [of sample_platform None None] by simp

definition sample_url_parser :: url_parser where
  "sample_url_parser u = (if u = ''ws://10.0.0.1'' then
      Some \<lparr>url_protocol = ''ws:'', url_origin = ''null'', url_host = ''10.0.0.1'', url_hostname = ''10.0.0.1''\<rparr>
    else None)"

lemma browser_origin_reasons_witness:
  "isl (checkBrowserOrigin sample_platform sample_url_parser
     \<lparr>op_requestHost = Some ''10.0.0.1'', op_origin = Some ''ws://10.0.0.1'', op_allowedOrigins = None,
      op_allowHostHeaderOriginFallback = False, op_isLocalClient = False\<rparr>)"
  using browser_origin_reasons [where pf = sample_platform and new_URL = sample_url_parser and p =
     "\<lparr>op_requestHost = Some ''10.0.0.1'', op_origin = Some ''ws://10.0.0.1'', op_allowedOrigins = None,
      op_allowHostHeaderOriginFallback = False, op_isLocalClient = False\<rparr>"]
  by simp

lemma plaintext_websocket_stays_private_witness:
  "normalizeIp sample_platform (Some ''10.0.0.1'') = Some ''10.0.0.1'' \<and>
   (\<exists>ip. isPrivateOrLoopbackAddress sample_platform (Some ip))"
proof -
  have not_loop: "\<not> isLoopbackHost sample_platform ''10.0.0.1''"
    by (simp add: isLoopbackHost_def parseHostForAddressChecks_def isLoopbackAddress_def isLoopbackIpAddress_def
        str_eval starts_with_def sample_parsed [simplified] normalizeIpv4MappedAddress_def ip_range_def sample_ip4_range_def)
  have "isPrivateOrLoopbackHost sample_platform ''10.0.0.1''"
    by (simp add: isPrivateOrLoopbackHost_def parseHostForAddressChecks_def isPrivateOrLoopbackAddress_def
        isPrivateOrLoopbackIpAddress_def str_eval starts_with_def sample_parsed sample_normalized [simplified]
        normalizeIpv4MappedAddress_def sample_ip4_range_def PRIVATE_OR_LOOPBACK_IPV4_RANGES_def
        sample_ip4_ok_def all_digits_def is_digit_def digits_value_def)
  with not_loop have secure: "isSecureWebSocketUrl sample_platform sample_url_parser ''ws://10.0.0.1'' True"
    by (simp add: isSecureWebSocketUrl_def sample_url_parser_def)
  from plaintext_websocket_stays_private [OF secure, of
      "\<lparr>url_protocol = ''ws:'', url_origin = ''null'', url_host = ''10.0.0.1'', url_hostname = ''10.0.0.1''\<rparr>"]
  show ?thesis using not_loop sample_normalized(1) by (auto simp: sample_url_parser_def)
qed

end
