(* ===== verification/JsNumber.thy ===== *)
theory JsNumber
  imports Complex_Main JsPrelude
begin

text \<open>
  JavaScript numbers, for the configuration values whose odd cases decide what a component does:
  NaN, the infinities and the rationals (no rounding). Every comparison with NaN is false,
  \<open>Math.max\<close> and \<open>Math.min\<close> return NaN when an argument is NaN.
\<close>

datatype js_num = NaN | NegInf | Fin rat | PosInf

abbreviation js_int :: "int \<Rightarrow> js_num" where
  "js_int n \<equiv> Fin (of_int n)"

fun js_less :: "js_num \<Rightarrow> js_num \<Rightarrow> bool" where
  "js_less NaN b = False"
| "js_less a NaN = False"
| "js_less NegInf b = (b \<noteq> NegInf)"
| "js_less (Fin x) b = (case b of Fin y \<Rightarrow> x < y | PosInf \<Rightarrow> True | _ \<Rightarrow> False)"
| "js_less PosInf b = False"

fun js_le :: "js_num \<Rightarrow> js_num \<Rightarrow> bool" where
  "js_le NaN b = False"
| "js_le a NaN = False"
| "js_le NegInf b = True"
| "js_le (Fin x) b = (case b of Fin y \<Rightarrow> x \<le> y | PosInf \<Rightarrow> True | _ \<Rightarrow> False)"
| "js_le PosInf b = (b = PosInf)"

fun js_floor :: "js_num \<Rightarrow> js_num" where
  "js_floor (Fin x) = Fin (of_int \<lfloor>x\<rfloor>)"
| "js_floor a = a"

definition js_max :: "js_num \<Rightarrow> js_num \<Rightarrow> js_num" where
  "js_max a b = (if a = NaN \<or> b = NaN then NaN else if js_less a b then b else a)"

definition js_min :: "js_num \<Rightarrow> js_num \<Rightarrow> js_num" where
  "js_min a b = (if a = NaN \<or> b = NaN then NaN else if js_less b a then b else a)"

fun js_add :: "js_num \<Rightarrow> js_num \<Rightarrow> js_num" where
  "js_add NaN b = NaN"
| "js_add a NaN = NaN"
| "js_add (Fin x) b = (case b of Fin y \<Rightarrow> Fin (x + y) | _ \<Rightarrow> b)"
| "js_add PosInf b = (if b = NegInf then NaN else PosInf)"
| "js_add NegInf b = (if b = PosInf then NaN else NegInf)"

fun js_neg :: "js_num \<Rightarrow> js_num" where
  "js_neg (Fin x) = Fin (- x)"
| "js_neg PosInf = NegInf"
| "js_neg NegInf = PosInf"
| "js_neg NaN = NaN"

definition js_sub :: "js_num \<Rightarrow> js_num \<Rightarrow> js_num" where
  "js_sub a b = js_add a (js_neg b)"

definition is_finite :: "js_num \<Rightarrow> bool" where
  "is_finite a = (case a of Fin _ \<Rightarrow> True | _ \<Rightarrow> False)"

lemma js_NaN [simp]: "js_less a NaN = False" "js_le a NaN = False" "js_add a NaN = NaN"
  "js_max a NaN = NaN" "js_max NaN a = NaN" "js_min a NaN = NaN" "js_min NaN a = NaN"
  by (cases a; simp add: js_max_def js_min_def)+

lemma js_Fin [simp]:
  "js_less (Fin x) (Fin y) \<longleftrightarrow> x < y" "js_le (Fin x) (Fin y) \<longleftrightarrow> x \<le> y"
  "js_max (Fin x) (Fin y) = Fin (max x y)" "js_min (Fin x) (Fin y) = Fin (min x y)"
  "js_sub (Fin x) (Fin y) = Fin (x - y)"
  "js_max (Fin x) PosInf = PosInf" "js_max (Fin x) NegInf = Fin x"
  by (auto simp: js_max_def js_min_def js_sub_def)

text \<open>\<open>Math.max(lo, Math.floor(n))\<close> is an integer at least \<open>lo\<close>, infinity, or NaN for NaN.\<close>

definition clamp_floor :: "int \<Rightarrow> js_num \<Rightarrow> js_num" where
  "clamp_floor lo n = js_max (js_int lo) (js_floor n)"

lemma max_of_int: "max (of_int a) (of_int b) = (of_int (max a b) :: rat)"
  by (simp add: max_def)

lemma clamp_floor_simps [simp]:
  "clamp_floor lo (Fin x) = js_int (max lo \<lfloor>x\<rfloor>)"
  "clamp_floor lo NaN = NaN" "clamp_floor lo PosInf = PosInf" "clamp_floor lo NegInf = js_int lo"
  by (simp_all add: clamp_floor_def max_of_int)

lemma clamp_floor_cases:
  obtains "clamp_floor lo n = NaN" "n = NaN" | "clamp_floor lo n = PosInf" "n = PosInf"
  | m where "clamp_floor lo n = js_int m" "lo \<le> m"
  by (cases n) (auto intro: that)

end
