(* ===== verification/RateLimits.thy ===== *)
theory RateLimits
  imports JsNumber GatewayNet
begin

text \<open>
  The limiters of the gateway: failed authentication attempts (src/gateway/auth-rate-limit.ts),
  control-plane writes (src/gateway/control-plane-rate-limit.ts), the fixed window of
  src/infra/fixed-window-rate-limit.ts, and the duplicate filter of src/infra/dedupe.ts with
  src/infra/map-size.ts. The clock is an argument of every operation, in integer milliseconds.
\<close>

section \<open>Fixed windows\<close>

record consume_result =
  cr_allowed :: bool
  cr_retryAfterMs :: js_num
  cr_remaining :: js_num

record fixed_window =
  fw_count :: int
  fw_start :: int

definition fixed_window_init :: fixed_window where
  "fixed_window_init = \<lparr>fw_count = 0, fw_start = 0\<rparr>"

text \<open>The parameters are clamped on creation: \<open>Math.max(1, Math.floor(n))\<close>.\<close>

definition fixed_window_consume :: "js_num \<Rightarrow> js_num \<Rightarrow> int \<Rightarrow> fixed_window \<Rightarrow> consume_result \<times> fixed_window" where
  "fixed_window_consume maxRequestsParam windowMsParam nowMs w = (let
     maxRequests = clamp_floor 1 maxRequestsParam;
     windowMs = clamp_floor 1 windowMsParam;
     w1 = (if js_le windowMs (js_int (nowMs - fw_start w)) then \<lparr>fw_count = 0, fw_start = nowMs\<rparr> else w) in
     if js_le maxRequests (js_int (fw_count w1)) then
       (\<lparr>cr_allowed = False,
         cr_retryAfterMs = js_max (js_int 0) (js_sub (js_add (js_int (fw_start w1)) windowMs) (js_int nowMs)),
         cr_remaining = js_int 0\<rparr>, w1)
     else
       (\<lparr>cr_allowed = True, cr_retryAfterMs = js_int 0,
         cr_remaining = js_max (js_int 0) (js_sub maxRequests (js_int (fw_count w1 + 1)))\<rparr>,
        w1\<lparr>fw_count := fw_count w1 + 1\<rparr>))"

definition fixed_window_reset :: "fixed_window \<Rightarrow> fixed_window" where
  "fixed_window_reset w = fixed_window_init"

section \<open>Control-plane writes\<close>

definition CONTROL_PLANE_RATE_LIMIT_MAX_REQUESTS :: int where
  "CONTROL_PLANE_RATE_LIMIT_MAX_REQUESTS = 3"

definition CONTROL_PLANE_RATE_LIMIT_WINDOW_MS :: int where
  "CONTROL_PLANE_RATE_LIMIT_WINDOW_MS = 60000"

record bucket =
  bk_count :: int
  bk_windowStartMs :: int

type_synonym buckets = "(string, bucket) js_map"

text \<open>A value that is not a string is None.\<close>

definition normalizePart :: "string option \<Rightarrow> string \<Rightarrow> string" where
  "normalizePart v fallback = (case v of None \<Rightarrow> fallback
     | Some s \<Rightarrow> (let normalized = trim s in if length normalized > 0 then normalized else fallback))"

record gateway_client =
  gc_deviceId :: "string option"
  gc_clientIp :: "string option"
  gc_connId :: "string option"

definition resolveControlPlaneRateLimitKey :: "gateway_client option \<Rightarrow> string" where
  "resolveControlPlaneRateLimitKey client = (let
     deviceId = normalizePart (Option.bind client gc_deviceId) ''unknown-device'';
     clientIp = normalizePart (Option.bind client gc_clientIp) ''unknown-ip'';
     connId = normalizePart (Option.bind client gc_connId) [] in
     if deviceId = ''unknown-device'' \<and> clientIp = ''unknown-ip'' \<and> connId \<noteq> []
     then deviceId @ ''|'' @ clientIp @ ''|conn='' @ connId
     else deviceId @ ''|'' @ clientIp)"

record budget_result =
  br_allowed :: bool
  br_retryAfterMs :: int
  br_remaining :: int
  br_key :: string

definition consumeControlPlaneWriteBudget ::
    "gateway_client option \<Rightarrow> int \<Rightarrow> buckets \<Rightarrow> budget_result \<times> buckets" where
  "consumeControlPlaneWriteBudget client nowMs bs = (let key = resolveControlPlaneRateLimitKey client in
     case map_get bs key of
       None \<Rightarrow>
         (\<lparr>br_allowed = True, br_retryAfterMs = 0, br_remaining = CONTROL_PLANE_RATE_LIMIT_MAX_REQUESTS - 1, br_key = key\<rparr>,
          map_set key \<lparr>bk_count = 1, bk_windowStartMs = nowMs\<rparr> bs)
     | Some b \<Rightarrow>
         if nowMs - bk_windowStartMs b \<ge> CONTROL_PLANE_RATE_LIMIT_WINDOW_MS then
           (\<lparr>br_allowed = True, br_retryAfterMs = 0, br_remaining = CONTROL_PLANE_RATE_LIMIT_MAX_REQUESTS - 1, br_key = key\<rparr>,
            map_set key \<lparr>bk_count = 1, bk_windowStartMs = nowMs\<rparr> bs)
         else if bk_count b \<ge> CONTROL_PLANE_RATE_LIMIT_MAX_REQUESTS then
           (\<lparr>br_allowed = False,
             br_retryAfterMs = max 0 (bk_windowStartMs b + CONTROL_PLANE_RATE_LIMIT_WINDOW_MS - nowMs),
             br_remaining = 0, br_key = key\<rparr>, bs)
         else
           (\<lparr>br_allowed = True, br_retryAfterMs = 0,
             br_remaining = max 0 (CONTROL_PLANE_RATE_LIMIT_MAX_REQUESTS - (bk_count b + 1)), br_key = key\<rparr>,
            map_set key (b\<lparr>bk_count := bk_count b + 1\<rparr>) bs))"

section \<open>The contract of a fixed window\<close>

text \<open>
  A window limiter seen through its count and the start of its window: \<open>step\<close> tells whether a
  request at a time is allowed, the delay it reports, and the next state; \<open>live\<close> tells whether
  a window was opened at all.
\<close>

locale window_limiter =
  fixes step :: "int \<Rightarrow> 's \<Rightarrow> bool \<times> int \<times> 's"
    and live :: "'s \<Rightarrow> bool" and count_of :: "'s \<Rightarrow> int" and start_of :: "'s \<Rightarrow> int"
    and limit :: int and width :: int
  assumes limit_pos: "0 < limit" and width_pos: "0 < width"
    and step_new: "live s \<Longrightarrow> width \<le> t - start_of s \<Longrightarrow>
      fst (step t s) \<and> live (snd (snd (step t s))) \<and> count_of (snd (snd (step t s))) = 1 \<and>
      start_of (snd (snd (step t s))) = t"
    and step_first: "\<not> live s \<Longrightarrow>
      fst (step t s) \<and> live (snd (snd (step t s))) \<and> count_of (snd (snd (step t s))) = 1 \<and>
      start_of (snd (snd (step t s))) = t"
    and step_spent: "live s \<Longrightarrow> t - start_of s < width \<Longrightarrow> limit \<le> count_of s \<Longrightarrow>
      step t s = (False, start_of s + width - t, s)"
    and step_room: "live s \<Longrightarrow> t - start_of s < width \<Longrightarrow> count_of s < limit \<Longrightarrow>
      fst (step t s) \<and> live (snd (snd (step t s))) \<and> count_of (snd (snd (step t s))) = count_of s + 1 \<and>
      start_of (snd (snd (step t s))) = start_of s"
begin

fun allowed_in :: "int list \<Rightarrow> 's \<Rightarrow> nat" where
  "allowed_in [] s = 0"
| "allowed_in (t # ts) s = (if fst (step t s) then 1 else 0) + allowed_in ts (snd (snd (step t s)))"

lemma step_cases:
  obtains (opens) "\<not> live s \<or> width \<le> t - start_of s" "fst (step t s)" "live (snd (snd (step t s)))"
      "count_of (snd (snd (step t s))) = 1" "start_of (snd (snd (step t s))) = t"
  | (spent) "live s" "t - start_of s < width" "limit \<le> count_of s" "step t s = (False, start_of s + width - t, s)"
  | (room) "live s" "t - start_of s < width" "count_of s < limit" "fst (step t s)" "live (snd (snd (step t s)))"
      "count_of (snd (snd (step t s))) = count_of s + 1" "start_of (snd (snd (step t s))) = start_of s"
  using step_new [of s t] step_first [of s t] step_spent [of s t] step_room [of s t] by (meson not_le)

lemma allowed_same_window:
  assumes "\<And>t. t \<in> set ts \<Longrightarrow> t < start_of s + width" and "live s" "count_of s \<le> limit"
  shows "int (allowed_in ts s) \<le> limit - count_of s"
  using assms
proof (induction ts arbitrary: s)
  case (Cons t ts)
  have t: "t - start_of s < width" using Cons.prems(1) [of t] by simp
  show ?case
  proof (cases rule: step_cases [of s t])
    case opens
    with t Cons.prems(2) show ?thesis by simp
  next
    case spent
    with Cons.IH [of s] Cons.prems show ?thesis by simp
  next
    case room
    with Cons.IH [of "snd (snd (step t s))"] Cons.prems show ?thesis by simp
  qed
qed simp

lemma allowed_stretch:
  assumes "\<And>t. t \<in> set ts \<Longrightarrow> a \<le> t \<and> t < a + width" and "live s \<Longrightarrow> 0 \<le> count_of s \<and> count_of s \<le> limit"
  shows "int (allowed_in ts s) \<le> 2 * limit"
proof -
  have "int (allowed_in ts s) \<le> (if live s then limit - count_of s else 0) + limit"
    using assms
  proof (induction ts arbitrary: s)
    case (Cons t ts)
    show ?case
    proof (cases rule: step_cases [of s t])
      case opens
      let ?s = "snd (snd (step t s))"
      have "int (allowed_in ts ?s) \<le> limit - count_of ?s"
      proof (rule allowed_same_window)
        show "x < start_of ?s + width" if "x \<in> set ts" for x
          using Cons.prems(1) [of x] Cons.prems(1) [of t] that opens(5) by simp
        show "count_of ?s \<le> limit" using limit_pos opens(4) by simp
      qed (rule opens(3))
      with opens Cons.prems(2) show ?thesis by (auto split: if_splits)
    next
      case spent
      with Cons.IH [of s] Cons.prems show ?thesis by simp
    next
      case room
      with Cons.IH [of "snd (snd (step t s))"] Cons.prems show ?thesis by simp
    qed
  qed (use limit_pos in auto)
  with assms(2) limit_pos show ?thesis by (auto split: if_splits)
qed

text \<open>The reported delay is exact: the request is refused until then and allowed from then on.\<close>

lemma retry_exact:
  assumes "\<not> fst (step t s)"
  shows "0 < fst (snd (step t s)) \<and> snd (snd (step t s)) = s \<and>
    fst (step t' s) = (t + fst (snd (step t s)) \<le> t')"
proof (cases rule: step_cases [of s t])
  case spent
  show ?thesis
    using spent step_spent [of s t'] step_new [of s t'] by (cases "t' - start_of s < width") auto
qed (use assms in auto)

end

section \<open>Both limiters are window limiters\<close>

definition fixed_step :: "rat \<Rightarrow> rat \<Rightarrow> int \<Rightarrow> fixed_window \<Rightarrow> bool \<times> int \<times> fixed_window" where
  "fixed_step maxRequests windowMs t w = (let (r, w') = fixed_window_consume (Fin maxRequests) (Fin windowMs) t w in
     (cr_allowed r, (case cr_retryAfterMs r of Fin x \<Rightarrow> \<lfloor>x\<rfloor> | _ \<Rightarrow> 0), w'))"

lemma floor_max_of_int: "\<lfloor>max 0 (of_int a + of_int b - of_int c :: rat)\<rfloor> = max 0 (a + b - c)"
proof -
  have "max 0 (of_int a + of_int b - of_int c :: rat) = of_int (max 0 (a + b - c))" by simp
  then show ?thesis by (simp only: floor_of_int)
qed

lemma fixed_window_consume_Fin:
  "fixed_window_consume (Fin m) (Fin w) t s = (let lim = max 1 \<lfloor>m\<rfloor>; wid = max 1 \<lfloor>w\<rfloor>;
     s1 = (if wid \<le> t - fw_start s then \<lparr>fw_count = 0, fw_start = t\<rparr> else s) in
     if lim \<le> fw_count s1
     then (\<lparr>cr_allowed = False, cr_retryAfterMs = js_int (max 0 (fw_start s1 + wid - t)), cr_remaining = js_int 0\<rparr>, s1)
     else (\<lparr>cr_allowed = True, cr_retryAfterMs = js_int 0, cr_remaining = js_int (max 0 (lim - (fw_count s1 + 1)))\<rparr>,
           s1\<lparr>fw_count := fw_count s1 + 1\<rparr>))"
  by (auto simp: fixed_window_consume_def Let_def max_of_int simp flip: of_int_diff of_int_add)

interpretation fixed: window_limiter "fixed_step m w" "\<lambda>_. True" fw_count fw_start "max 1 \<lfloor>m\<rfloor>" "max 1 \<lfloor>w\<rfloor>" for m w
  by unfold_locales (auto simp: fixed_step_def fixed_window_consume_Fin Let_def)

definition control_step :: "gateway_client option \<Rightarrow> int \<Rightarrow> buckets \<Rightarrow> bool \<times> int \<times> buckets" where
  "control_step client t bs = (let (r, bs') = consumeControlPlaneWriteBudget client t bs in
     (br_allowed r, br_retryAfterMs r, bs'))"

definition client_bucket :: "gateway_client option \<Rightarrow> buckets \<Rightarrow> bucket option" where
  "client_bucket client bs = map_get bs (resolveControlPlaneRateLimitKey client)"

interpretation control: window_limiter "control_step client" "\<lambda>bs. client_bucket client bs \<noteq> None"
    "\<lambda>bs. bk_count (the (client_bucket client bs))" "\<lambda>bs. bk_windowStartMs (the (client_bucket client bs))"
    CONTROL_PLANE_RATE_LIMIT_MAX_REQUESTS CONTROL_PLANE_RATE_LIMIT_WINDOW_MS for client
  by unfold_locales
    (auto simp: control_step_def consumeControlPlaneWriteBudget_def client_bucket_def Let_def
      CONTROL_PLANE_RATE_LIMIT_MAX_REQUESTS_def CONTROL_PLANE_RATE_LIMIT_WINDOW_MS_def)

text \<open>Requests of many clients: a request changes the bucket of its own key only.\<close>

lemma control_step_own:
  "client_bucket c bs = client_bucket c bs' \<Longrightarrow>
   fst (control_step c t bs) = fst (control_step c t bs') \<and>
   client_bucket c (snd (snd (control_step c t bs))) = client_bucket c (snd (snd (control_step c t bs')))"
  by (auto simp: control_step_def consumeControlPlaneWriteBudget_def client_bucket_def Let_def split: option.splits)

lemma control_step_other:
  "resolveControlPlaneRateLimitKey c \<noteq> resolveControlPlaneRateLimitKey c' \<Longrightarrow>
   client_bucket c (snd (snd (control_step c' t bs))) = client_bucket c bs"
  by (auto simp: control_step_def consumeControlPlaneWriteBudget_def client_bucket_def Let_def split: option.splits)

lemma control_step_key:
  "resolveControlPlaneRateLimitKey c = resolveControlPlaneRateLimitKey c' \<Longrightarrow> control_step c = control_step c'"
  by (intro ext) (simp add: control_step_def consumeControlPlaneWriteBudget_def Let_def)

type_synonym write_request = "gateway_client option \<times> int"

fun control_run :: "write_request list \<Rightarrow> buckets \<Rightarrow> buckets" where
  "control_run [] bs = bs"
| "control_run ((c, t) # reqs) bs = control_run reqs (snd (snd (control_step c t bs)))"

fun allowed_for :: "string \<Rightarrow> write_request list \<Rightarrow> buckets \<Rightarrow> nat" where
  "allowed_for k [] bs = 0"
| "allowed_for k ((c, t) # reqs) bs =
     (if resolveControlPlaneRateLimitKey c = k \<and> fst (control_step c t bs) then 1 else 0) +
     allowed_for k reqs (snd (snd (control_step c t bs)))"

lemma allowed_in_cong:
  "client_bucket c bs = client_bucket c bs' \<Longrightarrow> control.allowed_in c ts bs = control.allowed_in c ts bs'"
proof (induction ts arbitrary: bs bs')
  case (Cons t ts)
  note own = control_step_own [OF Cons.prems, of t]
  show ?case using conjunct1 [OF own] Cons.IH [OF conjunct2 [OF own]] by simp
qed simp

lemma allowed_for_project:
  "allowed_for (resolveControlPlaneRateLimitKey c) reqs bs =
   control.allowed_in c (map snd (filter (\<lambda>r. resolveControlPlaneRateLimitKey (fst r) = resolveControlPlaneRateLimitKey c) reqs)) bs"
proof (induction reqs arbitrary: bs)
  case (Cons r reqs)
  obtain c' t where r: "r = (c', t)" by (cases r)
  show ?case
  proof (cases "resolveControlPlaneRateLimitKey c' = resolveControlPlaneRateLimitKey c")
    case True
    with Cons.IH show ?thesis using control_step_key [OF True] by (simp add: r)
  next
    case False
    then have "client_bucket c (snd (snd (control_step c' t bs))) = client_bucket c bs"
      by (intro control_step_other) simp
    from allowed_in_cong [OF this] Cons.IH False show ?thesis by (simp add: r)
  qed
qed simp

definition wf_buckets :: "buckets \<Rightarrow> bool" where
  "wf_buckets bs \<longleftrightarrow> (\<forall>k b. map_get bs k = Some b \<longrightarrow> 0 \<le> bk_count b \<and> bk_count b \<le> CONTROL_PLANE_RATE_LIMIT_MAX_REQUESTS)"

lemma wf_control_step: "wf_buckets bs \<Longrightarrow> wf_buckets (snd (snd (control_step c t bs)))"
  unfolding wf_buckets_def control_step_def consumeControlPlaneWriteBudget_def Let_def
  by (auto simp: CONTROL_PLANE_RATE_LIMIT_MAX_REQUESTS_def split: option.splits; force)

lemma wf_control_run: "wf_buckets bs \<Longrightarrow> wf_buckets (control_run reqs bs)"
  by (induction reqs bs rule: control_run.induct) (simp_all add: wf_control_step)

text \<open>
  Control-plane writes are budgeted per client. After any history, in any stretch of
  requests shorter than a window (60 s), interleaved between clients in any order and with any
  clock order, a client key is granted at most six writes, twice the budget of a window; and the
  delay a refused write reports is exact: the same client is refused before and granted after.
\<close>

theorem control_plane_budget:
  assumes "\<forall>r \<in> set reqs. a \<le> snd r \<and> snd r < a + CONTROL_PLANE_RATE_LIMIT_WINDOW_MS"
  shows "allowed_for (resolveControlPlaneRateLimitKey c) reqs (control_run history []) \<le> 6 \<and>
    (fst (control_step c t bs) = False \<longrightarrow>
      0 < fst (snd (control_step c t bs)) \<and> snd (snd (control_step c t bs)) = bs \<and>
      fst (control_step c t' bs) = (t + fst (snd (control_step c t bs)) \<le> t'))"
proof -
  let ?bs = "control_run history []"
  have "wf_buckets ?bs" by (rule wf_control_run) (simp add: wf_buckets_def)
  then have "int (allowed_for (resolveControlPlaneRateLimitKey c) reqs ?bs) \<le> 2 * CONTROL_PLANE_RATE_LIMIT_MAX_REQUESTS"
    unfolding allowed_for_project
    by (intro control.allowed_stretch [of _ a]) (use assms in \<open>auto simp: wf_buckets_def client_bucket_def\<close>)
  then show ?thesis
    using control.retry_exact [of c t bs t'] by (simp add: CONTROL_PLANE_RATE_LIMIT_MAX_REQUESTS_def)
qed

lemma control_plane_budget_witness:
  "allowed_for (resolveControlPlaneRateLimitKey None) [(None, 1), (None, 2), (None, 3), (None, 4)] (control_run [(None, 0)] []) \<le> 6"
  by (rule conjunct1 [OF control_plane_budget [where a = 0]])
    (simp add: CONTROL_PLANE_RATE_LIMIT_WINDOW_MS_def)

fun fixed_run :: "js_num \<Rightarrow> js_num \<Rightarrow> int list \<Rightarrow> fixed_window \<Rightarrow> bool list" where
  "fixed_run m w [] s = []"
| "fixed_run m w (t # ts) s = (let (r, s') = fixed_window_consume m w t s in cr_allowed r # fixed_run m w ts s')"

lemma fixed_run_allowed_in:
  "length (filter id (fixed_run (Fin m) (Fin w) ts s)) = fixed.allowed_in m w ts s"
  by (induction ts arbitrary: s) (auto simp: fixed_step_def split_def Let_def)

lemma fixed_run_NaN: "list_all id (fixed_run NaN w ts s)"
  by (induction ts arbitrary: s) (auto simp: fixed_window_consume_def Let_def)

text \<open>
  The fixed-window limiter, for any numeric parameters: after a reset, requests within
  one window length are granted at most twice the clamped limit and a refusal reports the exact
  delay; a limiter created with the limit NaN grants every request.
\<close>

theorem fixed_window_limits:
  assumes "\<forall>t \<in> set ts. a \<le> t \<and> t < a + max 1 \<lfloor>w\<rfloor>"
  shows "int (length (filter id (fixed_run (Fin m) (Fin w) ts (fixed_window_reset s)))) \<le> 2 * max 1 \<lfloor>m\<rfloor> \<and>
    (fst (fixed_step m w t s) = False \<longrightarrow>
      0 < fst (snd (fixed_step m w t s)) \<and> snd (snd (fixed_step m w t s)) = s \<and>
      fst (fixed_step m w t' s) = (t + fst (snd (fixed_step m w t s)) \<le> t')) \<and>
    list_all id (fixed_run NaN any ts s)"
proof -
  have "int (fixed.allowed_in m w ts (fixed_window_reset s)) \<le> 2 * max 1 \<lfloor>m\<rfloor>"
    by (rule fixed.allowed_stretch [of _ a])
      (use assms in \<open>auto simp: fixed_window_reset_def fixed_window_init_def\<close>)
  then show ?thesis
    using fixed.retry_exact [of m w t s t'] by (simp add: fixed_run_allowed_in fixed_run_NaN)
qed

lemma fixed_window_limits_witness:
  "length (filter id (fixed_run (Fin 2) (Fin 10) [1, 2, 3, 4, 5] (fixed_window_reset fixed_window_init))) \<le> 4"
proof -
  have "int (length (filter id (fixed_run (Fin 2) (Fin 10) [1, 2, 3, 4, 5] (fixed_window_reset fixed_window_init)))) \<le> 2 * max 1 \<lfloor>2 :: rat\<rfloor>"
    by (rule conjunct1 [OF fixed_window_limits [where a = 1 and w = 10]]) simp
  then show ?thesis by (simp del: fixed_run.simps)
qed

section \<open>Failed authentication attempts\<close>

record rate_limit_config =
  rc_maxAttempts :: "int option"
  rc_windowMs :: "int option"
  rc_lockoutMs :: "int option"
  rc_exemptLoopback :: "bool option"
  rc_pruneIntervalMs :: "int option"

record rate_limit_entry =
  attempts :: "int list"
  lockedUntil :: "int option"

record rate_check =
  ck_allowed :: bool
  ck_remaining :: int
  ck_retryAfterMs :: int

text \<open>A limiter: its resolved configuration, its prune timer (the interval) and its entries.\<close>

record auth_limiter =
  maxAttempts :: int
  windowMs :: int
  lockoutMs :: int
  exemptLoopback :: bool
  pruneTimer :: "int option"
  entries :: "(string, rate_limit_entry) js_map"

definition config_field :: "rate_limit_config option \<Rightarrow> (rate_limit_config \<Rightarrow> 'a option) \<Rightarrow> 'a \<Rightarrow> 'a" where
  "config_field config f d = nullish (Option.bind config f) d"

definition createAuthRateLimiter :: "rate_limit_config option \<Rightarrow> auth_limiter" where
  "createAuthRateLimiter config =
     \<lparr>maxAttempts = config_field config rc_maxAttempts 10,
      windowMs = config_field config rc_windowMs 60000,
      lockoutMs = config_field config rc_lockoutMs 300000,
      exemptLoopback = config_field config rc_exemptLoopback True,
      pruneTimer = (let i = config_field config rc_pruneIntervalMs 60000 in if i > 0 then Some i else None),
      entries = []\<rparr>"

definition normalizeRateLimitClientIp :: "platform \<Rightarrow> string option \<Rightarrow> string" where
  "normalizeRateLimitClientIp pf ip = nullish (resolveClientIp pf
     \<lparr>remoteAddr = ip, forwardedFor = None, realIp = None, trustedProxies = None, allowRealIpFallback = False\<rparr>) ''unknown''"

definition normalizeScope :: "string option \<Rightarrow> string" where
  "normalizeScope scope = str_or (trim (nullish scope ''default'')) ''default''"

definition resolveKey :: "platform \<Rightarrow> string option \<Rightarrow> string option \<Rightarrow> string \<times> string" where
  "resolveKey pf rawIp rawScope = (let ip = normalizeRateLimitClientIp pf rawIp; scope = normalizeScope rawScope in
     (scope @ '':'' @ ip, ip))"

definition isExempt :: "platform \<Rightarrow> auth_limiter \<Rightarrow> string \<Rightarrow> bool" where
  "isExempt pf al ip = (exemptLoopback al \<and> isLoopbackAddress pf (Some ip))"

definition slideWindow :: "auth_limiter \<Rightarrow> rate_limit_entry \<Rightarrow> int \<Rightarrow> rate_limit_entry" where
  "slideWindow al entry now = (let cutoff = now - windowMs al in
     entry\<lparr>attempts := filter (\<lambda>ts. ts > cutoff) (attempts entry)\<rparr>)"

text \<open>\<open>entry.lockedUntil && now < entry.lockedUntil\<close>; a lock instant of 0 is falsy.\<close>

definition locked_at :: "rate_limit_entry \<Rightarrow> int \<Rightarrow> bool" where
  "locked_at entry now = (case lockedUntil entry of None \<Rightarrow> False | Some u \<Rightarrow> u \<noteq> 0 \<and> now < u)"

definition lock_expired :: "rate_limit_entry \<Rightarrow> int \<Rightarrow> bool" where
  "lock_expired entry now = (case lockedUntil entry of None \<Rightarrow> False | Some u \<Rightarrow> u \<noteq> 0 \<and> now \<ge> u)"

definition auth_check :: "platform \<Rightarrow> auth_limiter \<Rightarrow> string option \<Rightarrow> string option \<Rightarrow> int \<Rightarrow> rate_check \<times> auth_limiter" where
  "auth_check pf al rawIp rawScope now = (let (key, ip) = resolveKey pf rawIp rawScope in
     if isExempt pf al ip then
       (\<lparr>ck_allowed = True, ck_remaining = maxAttempts al, ck_retryAfterMs = 0\<rparr>, al)
     else case map_get (entries al) key of
       None \<Rightarrow> (\<lparr>ck_allowed = True, ck_remaining = maxAttempts al, ck_retryAfterMs = 0\<rparr>, al)
     | Some entry \<Rightarrow>
         if locked_at entry now then
           (\<lparr>ck_allowed = False, ck_remaining = 0, ck_retryAfterMs = the (lockedUntil entry) - now\<rparr>, al)
         else let entry1 = (if lock_expired entry now then \<lparr>attempts = [], lockedUntil = None\<rparr> else entry);
                  entry2 = slideWindow al entry1 now;
                  remaining = max 0 (maxAttempts al - int (length (attempts entry2))) in
           (\<lparr>ck_allowed = remaining > 0, ck_remaining = remaining, ck_retryAfterMs = 0\<rparr>,
            al\<lparr>entries := map_set key entry2 (entries al)\<rparr>))"

definition recordFailure :: "platform \<Rightarrow> auth_limiter \<Rightarrow> string option \<Rightarrow> string option \<Rightarrow> int \<Rightarrow> auth_limiter" where
  "recordFailure pf al rawIp rawScope now = (let (key, ip) = resolveKey pf rawIp rawScope in
     if isExempt pf al ip then al
     else let entry = nullish (map_get (entries al) key) \<lparr>attempts = [], lockedUntil = None\<rparr>;
              lim1 = al\<lparr>entries := map_set key entry (entries al)\<rparr> in
       if locked_at entry now then lim1
       else let slid = slideWindow al entry now;
                pushed = slid\<lparr>attempts := attempts slid @ [now]\<rparr>;
                entry2 = (if int (length (attempts pushed)) \<ge> maxAttempts al
                          then pushed\<lparr>lockedUntil := Some (now + lockoutMs al)\<rparr> else pushed) in
         lim1\<lparr>entries := map_set key entry2 (entries lim1)\<rparr>)"

definition auth_reset :: "platform \<Rightarrow> auth_limiter \<Rightarrow> string option \<Rightarrow> string option \<Rightarrow> auth_limiter" where
  "auth_reset pf al rawIp rawScope = al\<lparr>entries := map_delete (fst (resolveKey pf rawIp rawScope)) (entries al)\<rparr>"

text \<open>One entry of the prune loop: None when it is deleted.\<close>

definition prune_entry :: "auth_limiter \<Rightarrow> int \<Rightarrow> rate_limit_entry \<Rightarrow> rate_limit_entry option" where
  "prune_entry al now entry =
     (if locked_at entry now then Some entry
      else let slid = slideWindow al entry now in
        if length (attempts slid) = 0 then None else Some slid)"

definition auth_prune :: "auth_limiter \<Rightarrow> int \<Rightarrow> auth_limiter" where
  "auth_prune al now = al\<lparr>entries :=
     List.map_filter (\<lambda>(key, entry). map_option (Pair key) (prune_entry al now entry)) (entries al)\<rparr>"

definition auth_size :: "auth_limiter \<Rightarrow> nat" where
  "auth_size al = length (entries al)"

definition auth_dispose :: "auth_limiter \<Rightarrow> auth_limiter" where
  "auth_dispose al = al\<lparr>pruneTimer := None, entries := []\<rparr>"

section \<open>Lockout\<close>

text \<open>The operations between a lockout and its end: everything but a reset of the locked key and dispose.\<close>

datatype auth_op =
  OpCheck "string option" "string option" int | OpFailure "string option" "string option" int
| OpPrune int | OpReset "string option" "string option"

fun op_time :: "auth_op \<Rightarrow> int option" where
  "op_time (OpCheck ip scope t) = Some t"
| "op_time (OpFailure ip scope t) = Some t"
| "op_time (OpPrune t) = Some t"
| "op_time (OpReset ip scope) = None"

fun auth_step :: "platform \<Rightarrow> auth_op \<Rightarrow> auth_limiter \<Rightarrow> auth_limiter" where
  "auth_step pf (OpCheck ip scope t) al = snd (auth_check pf al ip scope t)"
| "auth_step pf (OpFailure ip scope t) al = recordFailure pf al ip scope t"
| "auth_step pf (OpPrune t) al = auth_prune al t"
| "auth_step pf (OpReset ip scope) al = auth_reset pf al ip scope"

lemma auth_step_config [simp]:
  "maxAttempts (auth_step pf op al) = maxAttempts al" "windowMs (auth_step pf op al) = windowMs al"
  "lockoutMs (auth_step pf op al) = lockoutMs al" "exemptLoopback (auth_step pf op al) = exemptLoopback al"
  by (cases op; simp add: auth_check_def recordFailure_def auth_prune_def auth_reset_def Let_def split_def split: option.split)+

lemma map_get_map_filter:
  "wf_map m \<Longrightarrow> map_get (List.map_filter (\<lambda>(k, v). map_option (Pair k) (f v)) m) k = Option.bind (map_get m k) f"
proof (induction m)
  case (Cons kv m)
  obtain k' v where kv: "kv = (k', v)" by (cases kv)
  have fresh: "map_get m k' = None" using Cons.prems by (simp add: kv wf_map_def map_of_eq_None_iff)
  from Cons have IH: "map_get (List.map_filter (\<lambda>(k, v). map_option (Pair k) (f v)) m) k = Option.bind (map_get m k) f"
    by (simp add: wf_map_def kv)
  show ?case
    using IH fresh by (cases "f v") (auto simp: kv List.map_filter_simps)
qed (simp add: List.map_filter_simps)

lemma keys_map_filter: "fst ` set (List.map_filter (\<lambda>(k, v). map_option (Pair k) (f v)) m) \<subseteq> fst ` set m"
  by (induction m) (auto simp: List.map_filter_simps split: option.splits)

lemma wf_map_map_filter: "wf_map m \<Longrightarrow> wf_map (List.map_filter (\<lambda>(k, v). map_option (Pair k) (f v)) m)"
proof (induction m)
  case (Cons kv m)
  then show ?case
    using keys_map_filter [of f m] by (cases kv) (auto simp: wf_map_def List.map_filter_simps split: option.splits)
qed (simp add: List.map_filter_simps)

lemma wf_auth_step: "wf_map (entries al) \<Longrightarrow> wf_map (entries (auth_step pf op al))"
  by (cases op)
    (simp_all add: auth_check_def recordFailure_def auth_prune_def auth_reset_def Let_def split_def
      wf_map_map_filter [unfolded split_def] split: option.split)

text \<open>A locked entry is untouched by any of these operations before its instant.\<close>

definition frozen :: "platform \<Rightarrow> string \<Rightarrow> int \<Rightarrow> auth_op \<Rightarrow> bool" where
  "frozen pf key u op = (case op_time op of Some t \<Rightarrow> t < u
     | None \<Rightarrow> (case op of OpReset ip scope \<Rightarrow> fst (resolveKey pf ip scope) \<noteq> key | _ \<Rightarrow> True))"

lemma auth_step_locked:
  assumes "map_get (entries al) key = Some e" "lockedUntil e = Some u" "u \<noteq> 0" "wf_map (entries al)" "frozen pf key u op"
  shows "map_get (entries (auth_step pf op al)) key = Some e"
proof (cases op)
  case (OpPrune t)
  with assms show ?thesis
    by (simp add: auth_prune_def map_get_map_filter prune_entry_def locked_at_def frozen_def)
qed (use assms in \<open>auto simp: auth_check_def recordFailure_def auth_reset_def Let_def split_def
      locked_at_def frozen_def split: option.splits\<close>)

lemma auth_steps_locked:
  assumes "map_get (entries al) key = Some e" "lockedUntil e = Some u" "u \<noteq> 0" "wf_map (entries al)"
    and "list_all (frozen pf key u) ops"
  shows "map_get (entries (fold (auth_step pf) ops al)) key = Some e"
  using assms
proof (induction ops arbitrary: al)
  case (Cons op ops)
  then show ?case using auth_step_locked [of al key e u pf op] by (auto intro!: Cons.IH wf_auth_step)
qed simp

section \<open>What the limiter guarantees\<close>

text \<open>The failures that fall into the window ending at \<open>t\<close>.\<close>

definition in_window :: "int \<Rightarrow> int list \<Rightarrow> int \<Rightarrow> int list" where
  "in_window w ts t = filter (\<lambda>x. t - w < x) ts"

lemma in_window_in_window: "t \<le> t' \<Longrightarrow> in_window w (in_window w ts t) t' = in_window w ts t'"
  by (auto simp: in_window_def intro!: filter_cong)

lemma in_window_snoc: "0 < w \<Longrightarrow> in_window w (ts @ [t]) t = in_window w ts t @ [t]"
  by (simp add: in_window_def)

lemma sorted_snoc_last: "sorted (ts @ [t]) \<Longrightarrow> ts = [] \<or> last ts \<le> (t :: int)"
  by (cases "ts = []") (simp_all add: sorted_append)

definition fail_all :: "platform \<Rightarrow> string option \<Rightarrow> string option \<Rightarrow> int list \<Rightarrow> auth_limiter \<Rightarrow> auth_limiter" where
  "fail_all pf ip scope ts al = fold (\<lambda>t l. recordFailure pf l ip scope t) ts al"

text \<open>No failure of the list reaches the limit of its window.\<close>

definition below_limit :: "auth_limiter \<Rightarrow> int list \<Rightarrow> bool" where
  "below_limit al ts \<longleftrightarrow>
     (\<forall>n < length ts. int (length (in_window (windowMs al) (take (Suc n) ts) (ts ! n))) < maxAttempts al)"

lemma below_limit_snoc:
  "below_limit al (ts @ [t]) \<longleftrightarrow>
     below_limit al ts \<and> int (length (in_window (windowMs al) (ts @ [t]) t)) < maxAttempts al"
  by (auto simp: below_limit_def nth_append less_Suc_eq)

lemma recordFailure_config [simp]:
  "maxAttempts (recordFailure pf al ip scope t) = maxAttempts al" "windowMs (recordFailure pf al ip scope t) = windowMs al"
  "lockoutMs (recordFailure pf al ip scope t) = lockoutMs al" "exemptLoopback (recordFailure pf al ip scope t) = exemptLoopback al"
  using auth_step_config [of pf "OpFailure ip scope t" al] by simp_all

lemma fail_all_config [simp]:
  "maxAttempts (fail_all pf ip scope ts al) = maxAttempts al" "windowMs (fail_all pf ip scope ts al) = windowMs al"
  "lockoutMs (fail_all pf ip scope ts al) = lockoutMs al" "exemptLoopback (fail_all pf ip scope ts al) = exemptLoopback al"
  unfolding fail_all_def by (induction ts arbitrary: al) simp_all

text \<open>A failure of a key that is not locked, on the entry's list of attempts.\<close>

lemma recordFailure_entry:
  assumes "\<not> isExempt pf al (snd (resolveKey pf ip scope))"
    and "nullish (map_get (entries al) (fst (resolveKey pf ip scope))) \<lparr>attempts = [], lockedUntil = None\<rparr> = \<lparr>attempts = as, lockedUntil = None\<rparr>"
  shows "map_get (entries (recordFailure pf al ip scope t)) (fst (resolveKey pf ip scope)) =
    Some \<lparr>attempts = in_window (windowMs al) as t @ [t],
          lockedUntil = (if int (length (in_window (windowMs al) as t @ [t])) \<ge> maxAttempts al
                         then Some (t + lockoutMs al) else None)\<rparr>"
  using assms by (simp add: recordFailure_def Let_def split_def locked_at_def slideWindow_def in_window_def)

lemma fail_all_entry:
  assumes "\<not> isExempt pf al (snd (resolveKey pf ip scope))" "map_get (entries al) (fst (resolveKey pf ip scope)) = None"
    and "0 < windowMs al" "sorted ts" "below_limit al ts"
  shows "nullish (map_get (entries (fail_all pf ip scope ts al)) (fst (resolveKey pf ip scope)))
      \<lparr>attempts = [], lockedUntil = None\<rparr> =
    \<lparr>attempts = (if ts = [] then [] else in_window (windowMs al) ts (last ts)), lockedUntil = None\<rparr>"
  using assms(4,5)
proof (induction ts rule: rev_induct)
  case Nil
  then show ?case using assms(2) by (simp add: fail_all_def)
next
  case (snoc t ts)
  let ?al = "fail_all pf ip scope ts al" and ?k = "fst (resolveKey pf ip scope)"
  let ?as = "if ts = [] then [] else in_window (windowMs al) ts (last ts)"
  from snoc have old: "nullish (map_get (entries ?al) ?k) \<lparr>attempts = [], lockedUntil = None\<rparr> = \<lparr>attempts = ?as, lockedUntil = None\<rparr>"
    by (simp add: sorted_append below_limit_snoc)
  have ex: "\<not> isExempt pf ?al (snd (resolveKey pf ip scope))" using assms(1) by (simp add: isExempt_def)
  have "ts = [] \<or> last ts \<le> t" using snoc.prems by (intro sorted_snoc_last)
  then have "in_window (windowMs al) ?as t = in_window (windowMs al) ts t"
    by (auto simp: in_window_def intro!: filter_cong)
  moreover have "fail_all pf ip scope (ts @ [t]) al = recordFailure pf ?al ip scope t" by (simp add: fail_all_def)
  ultimately show ?case
    using recordFailure_entry [OF ex old, of t] snoc.prems assms(3)
    by (simp add: below_limit_snoc in_window_snoc)
qed

lemma auth_check_entry:
  assumes "\<not> isExempt pf al (snd (resolveKey pf ip scope))"
    and "nullish (map_get (entries al) (fst (resolveKey pf ip scope))) \<lparr>attempts = [], lockedUntil = None\<rparr> = \<lparr>attempts = as, lockedUntil = None\<rparr>"
    and "0 < maxAttempts al"
  shows "fst (auth_check pf al ip scope t) =
    (let r = max 0 (maxAttempts al - int (length (in_window (windowMs al) as t))) in
     \<lparr>ck_allowed = 0 < r, ck_remaining = r, ck_retryAfterMs = 0\<rparr>)"
  using assms by (auto simp: auth_check_def Let_def split_def locked_at_def lock_expired_def slideWindow_def in_window_def
      split: option.splits)

text \<open>
  C6: The lockout is exact. Failures \<open>ts\<close> of a client that never reached the limit leave it
  admitted, with the limit less the failures still in the window as its remaining attempts. A
  further failure at \<open>t\<close> that fills the window locks the client: until \<open>t\<close> plus the lockout
  time, whatever checks, failures, prunings and resets of other keys happen in between, every
  check is refused and reports the time that is left.
\<close>

theorem auth_lockout_exact:
  assumes "\<not> isExempt pf al (snd (resolveKey pf ip scope))"
    and "map_get (entries al) (fst (resolveKey pf ip scope)) = None" "wf_map (entries al)"
    and "0 < windowMs al" "0 < maxAttempts al" "sorted (ts @ [t])" "below_limit al ts"
  shows "fst (auth_check pf (fail_all pf ip scope ts al) ip scope t) =
      (let r = max 0 (maxAttempts al - int (length (in_window (windowMs al) ts t))) in
       \<lparr>ck_allowed = 0 < r, ck_remaining = r, ck_retryAfterMs = 0\<rparr>) \<and>
    (maxAttempts al \<le> int (length (in_window (windowMs al) (ts @ [t]) t)) \<longrightarrow>
     t + lockoutMs al \<noteq> 0 \<longrightarrow> list_all (frozen pf (fst (resolveKey pf ip scope)) (t + lockoutMs al)) ops \<longrightarrow>
     t' < t + lockoutMs al \<longrightarrow>
      fst (auth_check pf (fold (auth_step pf) ops (fail_all pf ip scope (ts @ [t]) al)) ip scope t') =
      \<lparr>ck_allowed = False, ck_remaining = 0, ck_retryAfterMs = t + lockoutMs al - t'\<rparr>)"
proof -
  let ?al = "fail_all pf ip scope ts al" and ?k = "fst (resolveKey pf ip scope)"
  let ?as = "if ts = [] then [] else in_window (windowMs al) ts (last ts)"
  let ?w = "in_window (windowMs al) (ts @ [t]) t" and ?u = "t + lockoutMs al"
  have ex: "\<not> isExempt pf ?al (snd (resolveKey pf ip scope))" using assms(1) by (simp add: isExempt_def)
  have old: "nullish (map_get (entries ?al) ?k) \<lparr>attempts = [], lockedUntil = None\<rparr> = \<lparr>attempts = ?as, lockedUntil = None\<rparr>"
    using assms by (intro fail_all_entry) (simp_all add: sorted_append)
  have "ts = [] \<or> last ts \<le> t" using assms(6) by (rule sorted_snoc_last)
  then have as: "in_window (windowMs al) ?as t = in_window (windowMs al) ts t"
    by (auto simp: in_window_def intro!: filter_cong)
  have check: "fst (auth_check pf ?al ip scope t) =
      (let r = max 0 (maxAttempts al - int (length (in_window (windowMs al) ts t))) in
       \<lparr>ck_allowed = 0 < r, ck_remaining = r, ck_retryAfterMs = 0\<rparr>)"
    using auth_check_entry [OF ex old, of t] assms(5) as by simp
  have "fst (auth_check pf (fold (auth_step pf) ops (fail_all pf ip scope (ts @ [t]) al)) ip scope t') =
      \<lparr>ck_allowed = False, ck_remaining = 0, ck_retryAfterMs = ?u - t'\<rparr>"
    if full: "maxAttempts al \<le> int (length ?w)" and u: "?u \<noteq> 0" and ops: "list_all (frozen pf ?k ?u) ops" and t': "t' < ?u"
  proof -
    let ?al1 = "fail_all pf ip scope (ts @ [t]) al"
    have al1: "?al1 = auth_step pf (OpFailure ip scope t) ?al" by (simp add: fail_all_def)
    have locked: "map_get (entries ?al1) ?k = Some \<lparr>attempts = ?w, lockedUntil = Some ?u\<rparr>"
      using recordFailure_entry [OF ex old, of t] full assms(4) as by (simp add: al1 in_window_snoc)
    have "wf_map (entries ?al)"
      unfolding fail_all_def using assms(3)
      by (induction ts arbitrary: al) (use wf_auth_step [of _ pf "OpFailure _ _ _"] in auto)
    then have wf: "wf_map (entries ?al1)" unfolding al1 by (rule wf_auth_step)
    have "map_get (entries (fold (auth_step pf) ops ?al1)) ?k = Some \<lparr>attempts = ?w, lockedUntil = Some ?u\<rparr>"
      by (rule auth_steps_locked [OF locked _ u wf ops]) simp
    moreover have "exemptLoopback (fold (auth_step pf) ops ?al1) = exemptLoopback al"
    proof -
      have "exemptLoopback (fold (auth_step pf) ops l) = exemptLoopback l" for l
        by (induction ops arbitrary: l) simp_all
      then show ?thesis by simp
    qed
    ultimately show ?thesis
      using assms(1) u t' by (simp add: auth_check_def Let_def split_def isExempt_def locked_at_def)
  qed
  with check show ?thesis by blast
qed

definition sample_limiter :: auth_limiter where
  "sample_limiter = createAuthRateLimiter (Some \<lparr>rc_maxAttempts = Some 2, rc_windowMs = Some 100,
     rc_lockoutMs = Some 10, rc_exemptLoopback = Some False, rc_pruneIntervalMs = None\<rparr>)"

lemma sample_limiter_fields [simp]:
  "maxAttempts sample_limiter = 2" "windowMs sample_limiter = 100" "lockoutMs sample_limiter = 10"
  "entries sample_limiter = []" "\<not> isExempt pf sample_limiter i"
  by (simp_all add: sample_limiter_def createAuthRateLimiter_def config_field_def isExempt_def)

lemma auth_lockout_exact_witness:
  "fst (auth_check sample_platform (fold (auth_step sample_platform) [OpFailure None None 9, OpPrune 10] (fail_all sample_platform None None [1, 5] sample_limiter)) None None 12) =
   \<lparr>ck_allowed = False, ck_remaining = 0, ck_retryAfterMs = 3\<rparr>"
  using auth_lockout_exact [of sample_platform sample_limiter None None "[1]" 5 "[OpFailure None None 9, OpPrune 10]" 12]
  by (simp add: below_limit_def in_window_def frozen_def)

text \<open>
  A lock that ended is cleared by a check only. With a lockout shorter than the window, a
  failure recorded after the lock ended and before any check counts the old attempts again and
  locks the client at once, where a check in between would have given it the full budget.
\<close>

lemma stale_attempts_relock:
  "locked_at (the (map_get (entries (fail_all pf ip scope [1, 5, 20] sample_limiter)) (fst (resolveKey pf ip scope)))) 21"
  "\<not> locked_at (the (map_get (entries (recordFailure pf (snd (auth_check pf (fail_all pf ip scope [1, 5] sample_limiter) ip scope 19)) ip scope 20))
      (fst (resolveKey pf ip scope)))) 21"
  by (simp_all add: fail_all_def recordFailure_def auth_check_def Let_def split_def slideWindow_def locked_at_def
      lock_expired_def isExempt_def sample_limiter_def createAuthRateLimiter_def config_field_def)

section \<open>Duplicate filter\<close>

type_synonym dedupe_cache = "(string, int) js_map"

text \<open>The loop of \<open>pruneMapToMaxSize\<close>: the oldest entry goes while the map is too large.\<close>

fun drop_oldest :: "js_num \<Rightarrow> ('k, 'v) js_map \<Rightarrow> ('k, 'v) js_map" where
  "drop_oldest limit [] = []"
| "drop_oldest limit (e # m) = (if js_less limit (js_int (int (length (e # m)))) then drop_oldest limit m else e # m)"

definition pruneMapToMaxSize :: "('k, 'v) js_map \<Rightarrow> js_num \<Rightarrow> ('k, 'v) js_map" where
  "pruneMapToMaxSize m maxSize = (let limit = clamp_floor 0 maxSize in
     if js_le limit (js_int 0) then [] else drop_oldest limit m)"

record dedupe_options =
  do_ttlMs :: js_num
  do_maxSize :: js_num

definition dedupe_ttl :: "dedupe_options \<Rightarrow> js_num" where
  "dedupe_ttl opts = js_max (js_int 0) (do_ttlMs opts)"

definition dedupe_max :: "dedupe_options \<Rightarrow> js_num" where
  "dedupe_max opts = clamp_floor 0 (do_maxSize opts)"

definition dedupe_touch :: "string \<Rightarrow> int \<Rightarrow> dedupe_cache \<Rightarrow> dedupe_cache" where
  "dedupe_touch key now cache = map_set key now (map_delete key cache)"

definition dedupe_prune :: "dedupe_options \<Rightarrow> int \<Rightarrow> dedupe_cache \<Rightarrow> dedupe_cache" where
  "dedupe_prune opts now cache = (let
     ttlMs = dedupe_ttl opts; maxSize = dedupe_max opts;
     kept = (if js_less (js_int 0) ttlMs
             then filter (\<lambda>(k, ts). \<not> js_less (js_int ts) (js_sub (js_int now) ttlMs)) cache else cache) in
     if js_le maxSize (js_int 0) then [] else pruneMapToMaxSize kept maxSize)"

definition dedupe_hasUnexpired :: "dedupe_options \<Rightarrow> string \<Rightarrow> int \<Rightarrow> bool \<Rightarrow> dedupe_cache \<Rightarrow> bool \<times> dedupe_cache" where
  "dedupe_hasUnexpired opts key now touchOnRead cache = (case map_get cache key of
     None \<Rightarrow> (False, cache)
   | Some existing \<Rightarrow>
       if js_less (js_int 0) (dedupe_ttl opts) \<and> js_le (dedupe_ttl opts) (js_int (now - existing))
       then (False, map_delete key cache)
       else (True, if touchOnRead then dedupe_touch key now cache else cache))"

definition dedupe_check :: "dedupe_options \<Rightarrow> string option \<Rightarrow> int \<Rightarrow> dedupe_cache \<Rightarrow> bool \<times> dedupe_cache" where
  "dedupe_check opts key now cache = (case key of None \<Rightarrow> (False, cache) | Some k \<Rightarrow>
     if k = [] then (False, cache)
     else (case dedupe_hasUnexpired opts k now True cache of
             (True, cache1) \<Rightarrow> (True, cache1)
           | (False, cache1) \<Rightarrow> (False, dedupe_prune opts now (dedupe_touch k now cache1))))"

definition dedupe_peek :: "dedupe_options \<Rightarrow> string option \<Rightarrow> int \<Rightarrow> dedupe_cache \<Rightarrow> bool \<times> dedupe_cache" where
  "dedupe_peek opts key now cache = (case key of None \<Rightarrow> (False, cache) | Some k \<Rightarrow>
     if k = [] then (False, cache) else dedupe_hasUnexpired opts k now False cache)"

definition dedupe_clear :: "dedupe_cache \<Rightarrow> dedupe_cache" where
  "dedupe_clear cache = []"

definition dedupe_size :: "dedupe_cache \<Rightarrow> nat" where
  "dedupe_size cache = length cache"

section \<open>What the duplicate filter guarantees\<close>

definition fin_opts :: "rat \<Rightarrow> rat \<Rightarrow> dedupe_options" where
  "fin_opts ttl mx = \<lparr>do_ttlMs = Fin ttl, do_maxSize = Fin mx\<rparr>"

lemma fin_opts_simps [simp]:
  "dedupe_ttl (fin_opts ttl mx) = Fin (max 0 ttl)" "dedupe_max (fin_opts ttl mx) = js_int (max 0 \<lfloor>mx\<rfloor>)"
  by (simp_all add: fin_opts_def dedupe_ttl_def dedupe_max_def)

lemma delete_filter: "map_delete k m = filter (\<lambda>e. fst e \<noteq> k) m"
  by (induction m) auto

lemma update_absent: "map_get m k = None \<Longrightarrow> map_set k v m = m @ [(k, v)]"
  by (induction m) (auto split: if_splits)

lemma touch_eq: "dedupe_touch k t c = filter (\<lambda>e. fst e \<noteq> k) c @ [(k, t)]"
  unfolding dedupe_touch_def by (subst update_absent) (simp_all add: delete_filter [symmetric])

lemma drop_oldest_keeps:
  "int (length (x # b)) \<le> n \<Longrightarrow> \<exists>a'. drop_oldest (js_int n) (a @ x # b) = a' @ x # b"
proof (induction a)
  case Nil
  then show ?case by simp
next
  case (Cons e a)
  then show ?case by (cases "n < int (length ((e # a) @ x # b))") (auto simp flip: of_int_less_iff intro: exI [of _ "e # a"])
qed

lemma drop_oldest_length: "0 \<le> n \<Longrightarrow> int (length (drop_oldest (js_int n) m)) \<le> n"
  by (induction m) auto

lemma drop_oldest_set: "set (drop_oldest l m) \<subseteq> set m"
  by (induction m) auto

lemma drop_oldest_wf: "wf_map m \<Longrightarrow> wf_map (drop_oldest l m)"
  by (induction m) (auto simp: wf_map_def)

lemma prune_fin:
  "dedupe_prune (fin_opts ttl mx) now c = (if max 0 \<lfloor>mx\<rfloor> \<le> 0 then []
     else drop_oldest (js_int (max 0 \<lfloor>mx\<rfloor>))
       (if 0 < max 0 ttl then filter (\<lambda>(k, ts). of_int now - max 0 ttl \<le> of_int ts) c else c))"
  by (auto simp: dedupe_prune_def pruneMapToMaxSize_def Let_def not_less)

definition checks :: "dedupe_options \<Rightarrow> (string \<times> int) list \<Rightarrow> dedupe_cache \<Rightarrow> dedupe_cache" where
  "checks opts hist c = fold (\<lambda>(k, t) c. snd (dedupe_check opts (Some k) t c)) hist c"

lemma checks_simps [simp]:
  "checks opts [] c = c" "checks opts ((k, t) # hist) c = checks opts hist (snd (dedupe_check opts (Some k) t c))"
  "checks opts (xs @ ys) c = checks opts ys (checks opts xs c)"
  by (simp_all add: checks_def)

text \<open>A check, on finite options: what it answers and the list it leaves.\<close>

definition fresh_hit :: "rat \<Rightarrow> dedupe_cache \<Rightarrow> string \<Rightarrow> int \<Rightarrow> bool" where
  "fresh_hit ttl c k t = (case map_get c k of None \<Rightarrow> False
     | Some t0 \<Rightarrow> 0 < max 0 ttl \<longrightarrow> of_int (t - t0) < max 0 ttl)"

lemma check_fin:
  assumes "k \<noteq> []"
  shows "dedupe_check (fin_opts ttl mx) (Some k) t c =
    (if fresh_hit ttl c k t then (True, filter (\<lambda>e. fst e \<noteq> k) c @ [(k, t)])
     else (False, dedupe_prune (fin_opts ttl mx) t (filter (\<lambda>e. fst e \<noteq> k) c @ [(k, t)])))"
  using assms
  by (auto simp: dedupe_check_def dedupe_hasUnexpired_def fresh_hit_def touch_eq delete_filter not_le filter_filter
      split: option.splits)

lemma prune_set: "set (dedupe_prune (fin_opts ttl mx) t c) \<subseteq> set c"
  by (auto simp: prune_fin dest!: subsetD [OF drop_oldest_set])

lemma check_sound:
  assumes "k \<noteq> []"
  shows "set (snd (dedupe_check (fin_opts ttl mx) (Some k) t c)) \<subseteq> insert (k, t) (set c)"
  using prune_set [of ttl mx t "filter (\<lambda>e. fst e \<noteq> k) c @ [(k, t)]"] assms by (auto simp: check_fin)

lemma checks_sound:
  "list_all (\<lambda>h. fst h \<noteq> []) hist \<Longrightarrow> set (checks (fin_opts ttl mx) hist c) \<subseteq> set hist \<union> set c"
proof (induction hist arbitrary: c)
  case (Cons h hist)
  obtain k t where h: "h = (k, t)" by (cases h)
  with Cons show ?case using check_sound [of k ttl mx t c] by fastforce
qed simp

lemma prune_wf: "wf_map c \<Longrightarrow> wf_map (dedupe_prune (fin_opts ttl mx) t c)"
  by (auto simp: prune_fin intro!: drop_oldest_wf wf_map_filter)

lemma check_bounded:
  assumes "k \<noteq> []" "wf_map c" "int (length c) \<le> max 0 \<lfloor>mx\<rfloor>"
    and c': "c' = snd (dedupe_check (fin_opts ttl mx) (Some k) t c)"
  shows "wf_map c' \<and> int (length c') \<le> max 0 \<lfloor>mx\<rfloor>"
proof (cases "fresh_hit ttl c k t")
  case True
  then obtain v where "(k, v) \<in> set c"
    by (auto simp: fresh_hit_def split: option.splits dest: map_of_SomeD)
  then have "length (filter (\<lambda>e. fst e \<noteq> k) c) < length c"
    by (intro length_filter_less [of "(k, v)"]) auto
  with True assms show ?thesis by (auto simp: c' check_fin wf_map_def distinct_map_filter)
next
  case False
  have "wf_map (filter (\<lambda>e. fst e \<noteq> k) c @ [(k, t)])" using assms(2) by (auto simp: wf_map_def distinct_map_filter)
  then have "wf_map (dedupe_prune (fin_opts ttl mx) t (filter (\<lambda>e. fst e \<noteq> k) c @ [(k, t)]))"
    by (rule prune_wf)
  moreover have "int (length (dedupe_prune (fin_opts ttl mx) t m)) \<le> max 0 \<lfloor>mx\<rfloor>" for m
    by (simp add: prune_fin drop_oldest_length)
  ultimately show ?thesis using False assms(1) by (simp add: c' check_fin)
qed

lemma checks_bounded:
  "list_all (\<lambda>h. fst h \<noteq> []) hist \<Longrightarrow> wf_map c \<Longrightarrow> int (length c) \<le> max 0 \<lfloor>mx\<rfloor> \<Longrightarrow>
   wf_map (checks (fin_opts ttl mx) hist c) \<and> int (length (checks (fin_opts ttl mx) hist c)) \<le> max 0 \<lfloor>mx\<rfloor>"
proof (induction hist arbitrary: c)
  case (Cons h hist)
  then show ?case using check_bounded [of "fst h" c mx _ ttl "snd h", OF _ _ _ refl] by (cases h) (auto intro: Cons.IH)
qed simp

text \<open>The key \<open>k\<close> was touched at \<open>t0\<close> and at most \<open>n\<close> entries are younger.\<close>

definition touched :: "string \<Rightarrow> int \<Rightarrow> nat \<Rightarrow> dedupe_cache \<Rightarrow> bool" where
  "touched k t0 n c \<longleftrightarrow> (\<exists>a b. c = a @ (k, t0) # b \<and> length b \<le> n)"

lemma touched_prune:
  assumes "touched k t0 n c" "int n < \<lfloor>mx\<rfloor>" "0 < max 0 ttl \<Longrightarrow> of_int now - max 0 ttl \<le> of_int t0"
  shows "touched k t0 n (dedupe_prune (fin_opts ttl mx) now c)"
proof -
  from assms(1) obtain a b where c: "c = a @ (k, t0) # b" "length b \<le> n" by (auto simp: touched_def)
  let ?f = "if 0 < max 0 ttl then filter (\<lambda>(k, ts). of_int now - max 0 ttl \<le> of_int ts) else (\<lambda>c. c)"
  have f: "?f c = ?f a @ (k, t0) # ?f b" using assms(3) by (simp add: c(1))
  have len: "length (?f b) \<le> n" using c(2) order_trans [OF length_filter_le] by auto
  then have "int (length ((k, t0) # ?f b)) \<le> max 0 \<lfloor>mx\<rfloor>" using assms(2) by simp
  from drop_oldest_keeps [OF this, of "?f a"] obtain a' where
    "drop_oldest (js_int (max 0 \<lfloor>mx\<rfloor>)) (?f a @ (k, t0) # ?f b) = a' @ (k, t0) # ?f b" by blast
  moreover have "dedupe_prune (fin_opts ttl mx) now c = drop_oldest (js_int (max 0 \<lfloor>mx\<rfloor>)) (?f c)"
  proof -
    have "\<not> max 0 \<lfloor>mx\<rfloor> \<le> 0" using assms(2) by linarith
    then show ?thesis by (cases "0 < max 0 ttl") (simp_all only: prune_fin if_True if_False)
  qed
  ultimately have e: "dedupe_prune (fin_opts ttl mx) now c = a' @ (k, t0) # ?f b" by (simp only: f)
  show ?thesis unfolding touched_def by (intro exI [of _ a'] exI [of _ "?f b"] conjI e len)
qed

lemma touched_other:
  "k \<noteq> k' \<Longrightarrow> touched k t0 n c \<Longrightarrow> touched k t0 (Suc n) (filter (\<lambda>e. fst e \<noteq> k') c @ [(k', t)])"
proof -
  assume "k \<noteq> k'" "touched k t0 n c"
  then obtain a b where "c = a @ (k, t0) # b" "length b \<le> n" by (auto simp: touched_def)
  with \<open>k \<noteq> k'\<close> show ?thesis
    unfolding touched_def
    by (intro exI [of _ "filter (\<lambda>e. fst e \<noteq> k') a"] exI [of _ "filter (\<lambda>e. fst e \<noteq> k') b @ [(k', t)]"])
      (auto intro: order_trans [OF length_filter_le])
qed

lemma touched_self: "touched k t 0 (filter (\<lambda>e. fst e \<noteq> k) c @ [(k, t)])"
  by (auto simp: touched_def)

lemma touched_check:
  assumes "touched k t0 n c" "k' \<noteq> k" "k' \<noteq> []" "int (Suc n) < \<lfloor>mx\<rfloor>"
    and "0 < max 0 ttl \<Longrightarrow> of_int t - max 0 ttl \<le> of_int t0"
  shows "touched k t0 (Suc n) (snd (dedupe_check (fin_opts ttl mx) (Some k') t c))"
  using touched_other [OF assms(2) [symmetric] assms(1), of t]
    touched_prune [OF touched_other [OF assms(2) [symmetric] assms(1), of t] assms(4), of ttl t] assms(3,5)
  by (simp add: check_fin)

lemma touched_checks:
  assumes "touched k t0 n c" "list_all (\<lambda>h. fst h \<noteq> [] \<and> fst h \<noteq> k \<and> snd h \<le> t) mid"
    and "int (n + length mid) < \<lfloor>mx\<rfloor>" "0 < max 0 ttl \<Longrightarrow> of_int t - max 0 ttl \<le> of_int t0"
  shows "touched k t0 (n + length mid) (checks (fin_opts ttl mx) mid c)"
  using assms
proof (induction mid arbitrary: n c)
  case (Cons h mid)
  obtain k' t' where h: "h = (k', t')" by (cases h)
  have "of_int t' - max 0 ttl \<le> of_int t0" if "0 < max 0 ttl"
    using Cons.prems(2,4) that h by (auto intro: order_trans [of _ "of_int t - max 0 ttl"])
  then have "touched k t0 (Suc n) (snd (dedupe_check (fin_opts ttl mx) (Some k') t' c))"
    using Cons.prems h by (intro touched_check) auto
  from Cons.IH [OF this] Cons.prems h show ?case by simp
qed simp

lemma touched_get: "touched k t0 n c \<Longrightarrow> wf_map c \<Longrightarrow> map_get c k = Some t0"
  by (auto simp: touched_def wf_map_def map_add_def map_of_eq_None_iff split: option.splits)

text \<open>
  The duplicate filter is exact. From an empty cache with finite options, after any
  checks: the cache never holds more than its maximum; a key reported as a duplicate was checked
  before, less than the time to live ago (when that is positive); and a key checked at \<open>t0\<close> is
  reported as a duplicate at \<open>t\<close>, less than the time to live later, when fewer other keys than
  the maximum were checked in between, none of them later than \<open>t\<close>.
\<close>

theorem dedupe_exact:
  assumes "k \<noteq> []" "list_all (\<lambda>h. fst h \<noteq> []) hist"
  shows "int (dedupe_size (checks (fin_opts ttl mx) hist [])) \<le> max 0 \<lfloor>mx\<rfloor> \<and>
    (fst (dedupe_check (fin_opts ttl mx) (Some k) t (checks (fin_opts ttl mx) hist [])) \<longrightarrow>
      (\<exists>t0. (k, t0) \<in> set hist \<and> (0 < ttl \<longrightarrow> of_int (t - t0) < ttl))) \<and>
    (hist = before @ [(k, t0)] @ mid \<longrightarrow> int (length mid) < \<lfloor>mx\<rfloor> \<longrightarrow>
      list_all (\<lambda>h. fst h \<noteq> k \<and> snd h \<le> t) mid \<longrightarrow> (0 < ttl \<longrightarrow> of_int (t - t0) < ttl) \<longrightarrow> t0 \<le> t \<longrightarrow>
      fst (dedupe_check (fin_opts ttl mx) (Some k) t (checks (fin_opts ttl mx) hist [])))"
proof (intro conjI impI)
  let ?o = "fin_opts ttl mx" let ?c = "checks ?o hist []"
  show "int (dedupe_size ?c) \<le> max 0 \<lfloor>mx\<rfloor>"
    using checks_bounded [OF assms(2), of "[]" mx ttl] by (simp add: dedupe_size_def)
  show "\<exists>t0. (k, t0) \<in> set hist \<and> (0 < ttl \<longrightarrow> of_int (t - t0) < ttl)" if "fst (dedupe_check ?o (Some k) t ?c)"
    using that assms checks_sound [OF assms(2), of ttl mx "[]"]
    by (auto simp: check_fin fresh_hit_def max_def split: option.splits if_splits dest!: map_of_SomeD)
  assume hist: "hist = before @ [(k, t0)] @ mid" and mid: "int (length mid) < \<lfloor>mx\<rfloor>"
    "list_all (\<lambda>h. fst h \<noteq> k \<and> snd h \<le> t) mid" and ttl: "0 < ttl \<longrightarrow> of_int (t - t0) < ttl" and t0: "t0 \<le> t"
  have recent: "of_int now - max 0 ttl \<le> of_int t0" if "0 < max 0 ttl" "now = t0 \<or> now = t" for now :: int
    using that ttl by (auto simp: max_def split: if_splits)
  let ?b = "checks ?o before []"
  have m0: "int 0 < \<lfloor>mx\<rfloor>" using mid(1) by linarith
  have "touched k t0 0 (snd (dedupe_check ?o (Some k) t0 ?b))"
    using touched_prune [OF touched_self [of k t0 ?b] m0, where ttl = ttl and now = t0] assms(1) recent [of t0]
    by (simp add: check_fin touched_self)
  from touched_checks [OF this, where t = t and mid = mid and mx = mx and ttl = ttl] mid assms(2) recent [of t] hist
  have "touched k t0 (length mid) ?c" by (simp add: list_all_iff)
  then have "map_get ?c k = Some t0"
    using checks_bounded [OF assms(2), of "[]" mx ttl] by (simp add: touched_get)
  with assms(1) ttl show "fst (dedupe_check ?o (Some k) t ?c)"
    by (auto simp: check_fin fresh_hit_def max_def)
qed

lemma dedupe_exact_witness:
  "fst (dedupe_check (fin_opts 100 2) (Some ''a'') 90 (checks (fin_opts 100 2) [(''z'', 1), (''a'', 5), (''b'', 7)] []))"
  using dedupe_exact [where k = "''a''" and hist = "[(''z'', 1), (''a'', 5), (''b'', 7)]" and ttl = 100 and mx = 2 and t = 90
      and before = "[(''z'', 1)]" and t0 = 5 and mid = "[(''b'', 7)]"] by simp

end
