(* ===== verification/ExecWrappers.thy ===== *)
theory ExecWrappers
  imports JsPrelude
begin

text \<open>
  What a node is asked to run: the recognition of shell and dispatch wrappers in an argv
  (src/infra/exec-wrapper-resolution.ts, src/infra/shell-inline-command.ts), the display text of
  a command and its consistency with the argv (src/infra/system-run-command.ts). An index into
  the argv of a scan is the list of the arguments from there on.
\<close>

section \<open>Wrapper names\<close>

definition POSIX_SHELL_WRAPPER_NAMES :: "string list" where
  "POSIX_SHELL_WRAPPER_NAMES = [''ash'', ''bash'', ''dash'', ''fish'', ''ksh'', ''sh'', ''zsh'']"

definition WINDOWS_CMD_WRAPPER_NAMES :: "string list" where
  "WINDOWS_CMD_WRAPPER_NAMES = [''cmd'']"

definition POWERSHELL_WRAPPER_NAMES :: "string list" where
  "POWERSHELL_WRAPPER_NAMES = [''powershell'', ''pwsh'']"

definition SHELL_MULTIPLEXER_WRAPPER_NAMES :: "string list" where
  "SHELL_MULTIPLEXER_WRAPPER_NAMES = [''busybox'', ''toybox'']"

definition DISPATCH_WRAPPER_NAMES :: "string list" where
  "DISPATCH_WRAPPER_NAMES =
     [''chrt'', ''doas'', ''env'', ''ionice'', ''nice'', ''nohup'', ''setsid'', ''stdbuf'', ''sudo'',
      ''taskset'', ''timeout'']"

definition withWindowsExeAliases :: "string list \<Rightarrow> string list" where
  "withWindowsExeAliases names = js_set_of (concat (map (\<lambda>name. [name, name @ ''.exe'']) names))"

definition stripWindowsExeSuffix :: "string \<Rightarrow> string" where
  "stripWindowsExeSuffix v = (if ends_with v ''.exe'' then take (length v - 4) v else v)"

definition SHELL_WRAPPER_CANONICAL :: "string list" where
  "SHELL_WRAPPER_CANONICAL =
     js_set_of (POSIX_SHELL_WRAPPER_NAMES @ WINDOWS_CMD_WRAPPER_NAMES @ POWERSHELL_WRAPPER_NAMES)"

definition ENV_OPTIONS_WITH_VALUE :: "string list" where
  "ENV_OPTIONS_WITH_VALUE = [''-u'', ''--unset'', ''-c'', ''--chdir'', ''-s'', ''--split-string'',
     ''--default-signal'', ''--ignore-signal'', ''--block-signal'']"

definition ENV_INLINE_VALUE_PREFIXES :: "string list" where
  "ENV_INLINE_VALUE_PREFIXES = [''-u'', ''-c'', ''-s'', ''--unset='', ''--chdir='', ''--split-string='',
     ''--default-signal='', ''--ignore-signal='', ''--block-signal='']"

definition ENV_FLAG_OPTIONS :: "string list" where
  "ENV_FLAG_OPTIONS = [''-i'', ''--ignore-environment'', ''-0'', ''--null'']"

definition NICE_OPTIONS_WITH_VALUE :: "string list" where
  "NICE_OPTIONS_WITH_VALUE = [''-n'', ''--adjustment'', ''--priority'']"

definition STDBUF_OPTIONS_WITH_VALUE :: "string list" where
  "STDBUF_OPTIONS_WITH_VALUE = [''-i'', ''--input'', ''-o'', ''--output'', ''-e'', ''--error'']"

definition TIMEOUT_FLAG_OPTIONS :: "string list" where
  "TIMEOUT_FLAG_OPTIONS = [''--foreground'', ''--preserve-status'', ''-v'', ''--verbose'']"

definition TIMEOUT_OPTIONS_WITH_VALUE :: "string list" where
  "TIMEOUT_OPTIONS_WITH_VALUE = [''-k'', ''--kill-after'', ''-s'', ''--signal'']"

definition TRANSPARENT_DISPATCH_WRAPPERS :: "string list" where
  "TRANSPARENT_DISPATCH_WRAPPERS = [''nice'', ''nohup'', ''stdbuf'', ''timeout'']"

definition MAX_DISPATCH_WRAPPER_DEPTH :: nat where
  "MAX_DISPATCH_WRAPPER_DEPTH = 4"

datatype shell_kind = PosixShell | CmdShell | PowerShell

definition SHELL_WRAPPER_SPECS :: "(shell_kind \<times> string list) list" where
  "SHELL_WRAPPER_SPECS = [(PosixShell, POSIX_SHELL_WRAPPER_NAMES), (CmdShell, WINDOWS_CMD_WRAPPER_NAMES),
     (PowerShell, POWERSHELL_WRAPPER_NAMES)]"

section \<open>Executable tokens\<close>

text \<open>\<open>path.posix.basename\<close> and \<open>path.win32.basename\<close> of Node.\<close>

definition base_after :: "(char \<Rightarrow> bool) \<Rightarrow> string \<Rightarrow> string" where
  "base_after sep p = rev (takeWhile (\<lambda>c. \<not> sep c) (dropWhile sep (rev p)))"

definition posix_basename :: "string \<Rightarrow> string" where
  "posix_basename p = base_after (\<lambda>c. c = CHR ''/'') p"

definition ascii_letter :: "char \<Rightarrow> bool" where
  "ascii_letter c = (let n = (of_char c :: nat) in (65 \<le> n \<and> n \<le> 90) \<or> (97 \<le> n \<and> n \<le> 122))"

definition win32_basename :: "string \<Rightarrow> string" where
  "win32_basename p = base_after (\<lambda>c. c = CHR ''/'' \<or> c = CHR 0x5C)
     (case p of c # d # rest \<Rightarrow> if ascii_letter c \<and> d = CHR '':'' then rest else p | _ \<Rightarrow> p)"

definition basenameLower :: "string \<Rightarrow> string" where
  "basenameLower token = (let win = win32_basename token; posix = posix_basename token;
     base = (if length win < length posix then win else posix) in to_lower (trim base))"

definition normalizeExecutableToken :: "string \<Rightarrow> string" where
  "normalizeExecutableToken token = stripWindowsExeSuffix (basenameLower token)"

definition isDispatchWrapperExecutable :: "string \<Rightarrow> bool" where
  "isDispatchWrapperExecutable token = (normalizeExecutableToken token \<in> set DISPATCH_WRAPPER_NAMES)"

definition isShellWrapperExecutable :: "string \<Rightarrow> bool" where
  "isShellWrapperExecutable token = (normalizeExecutableToken token \<in> set SHELL_WRAPPER_CANONICAL)"

definition normalizeRawCommand :: "string option \<Rightarrow> string option" where
  "normalizeRawCommand rawCommand = str_opt (case rawCommand of None \<Rightarrow> [] | Some r \<Rightarrow> trim r)"

definition findShellWrapperSpec :: "string \<Rightarrow> shell_kind option" where
  "findShellWrapperSpec baseExecutable =
     map_option fst (find (\<lambda>(kind, names). stripWindowsExeSuffix baseExecutable \<in> set names) SHELL_WRAPPER_SPECS)"

text \<open>\<open>argv[i]?.trim() ?? ""\<close>, the first token of an argv.\<close>

definition head_token :: "string list \<Rightarrow> string" where
  "head_token argv = (case argv of [] \<Rightarrow> [] | a # _ \<Rightarrow> trim a)"

datatype unwrap_result = NotWrapper | Blocked string | Unwrapped string "string list"

definition unwrapKnownShellMultiplexerInvocation :: "string list \<Rightarrow> unwrap_result" where
  "unwrapKnownShellMultiplexerInvocation argv = (let token0 = head_token argv in
     if token0 = [] then NotWrapper
     else let wrapper = normalizeExecutableToken token0 in
       if wrapper \<notin> set SHELL_MULTIPLEXER_WRAPPER_NAMES then NotWrapper
       else let appletArgs = (if head_token (drop 1 argv) = ''--'' then drop 2 argv else drop 1 argv);
                applet = head_token appletArgs in
         if applet = [] \<or> \<not> isShellWrapperExecutable applet then Blocked wrapper
         else if length appletArgs = 0 then Blocked wrapper
         else Unwrapped wrapper appletArgs)"

section \<open>Scanning the options of a dispatch wrapper\<close>

definition name_start :: "char \<Rightarrow> bool" where
  "name_start c = (ascii_letter c \<or> c = CHR ''_'')"

definition ascii_digit :: "char \<Rightarrow> bool" where
  "ascii_digit c = (let n = (of_char c :: nat) in 48 \<le> n \<and> n \<le> 57)"

definition name_char :: "char \<Rightarrow> bool" where
  "name_char c = (name_start c \<or> ascii_digit c)"

text \<open>\<open>/^[A-Za-z_][A-Za-z0-9_]*=.*/\<close>.\<close>

definition isEnvAssignment :: "string \<Rightarrow> bool" where
  "isEnvAssignment token = (case token of [] \<Rightarrow> False
     | c # cs \<Rightarrow> name_start c \<and> (case dropWhile name_char cs of [] \<Rightarrow> False | d # _ \<Rightarrow> d = CHR ''=''))"

definition hasEnvInlineValuePrefix :: "string \<Rightarrow> bool" where
  "hasEnvInlineValuePrefix lower = list_ex (\<lambda>p. starts_with lower p) ENV_INLINE_VALUE_PREFIXES"

datatype scan_directive = Continue | ConsumeNext | Stop | Invalid

fun scan_tokens :: "string list \<Rightarrow> (string \<Rightarrow> string \<Rightarrow> scan_directive) \<Rightarrow> bool \<Rightarrow> string list \<Rightarrow> string list option" where
  "scan_tokens separators onToken expectsOptionValue [] = (if expectsOptionValue then None else Some [])"
| "scan_tokens separators onToken expectsOptionValue (arg # rest) = (let token = trim arg in
     if token = [] then scan_tokens separators onToken expectsOptionValue rest
     else if expectsOptionValue then scan_tokens separators onToken False rest
     else if token \<in> set separators then Some rest
     else (case onToken token (to_lower token) of
             Stop \<Rightarrow> Some (arg # rest)
           | Invalid \<Rightarrow> None
           | ConsumeNext \<Rightarrow> scan_tokens separators onToken True rest
           | Continue \<Rightarrow> scan_tokens separators onToken False rest))"

text \<open>\<open>adjust\<close> maps the arguments from the command index on; None is the null of the source.\<close>

definition scanWrapperInvocation ::
    "string list \<Rightarrow> string list \<Rightarrow> (string \<Rightarrow> string \<Rightarrow> scan_directive) \<Rightarrow> (string list \<Rightarrow> string list option) \<Rightarrow> string list option" where
  "scanWrapperInvocation argv separators onToken adjust =
     (case scan_tokens separators onToken False (drop 1 argv) of
        None \<Rightarrow> None
      | Some args \<Rightarrow> (case adjust args of None \<Rightarrow> None | Some cmd \<Rightarrow> if cmd = [] then None else Some cmd))"

definition flag_of :: "string \<Rightarrow> string" where
  "flag_of lower = takeWhile (\<lambda>c. c \<noteq> CHR ''='') lower"

definition env_onToken :: "string \<Rightarrow> string \<Rightarrow> scan_directive" where
  "env_onToken token lower =
     (if isEnvAssignment token then Continue
      else if \<not> starts_with token ''-'' \<or> token = ''-'' then Stop
      else let flag = flag_of lower in
        if flag \<in> set ENV_FLAG_OPTIONS then Continue
        else if flag \<in> set ENV_OPTIONS_WITH_VALUE then (if CHR ''='' \<in> set lower then Continue else ConsumeNext)
        else if hasEnvInlineValuePrefix lower then Continue
        else Invalid)"

definition unwrapEnvInvocation :: "string list \<Rightarrow> string list option" where
  "unwrapEnvInvocation argv = scanWrapperInvocation argv [''--'', ''-''] env_onToken Some"

fun env_modifiers :: "bool \<Rightarrow> string list \<Rightarrow> bool" where
  "env_modifiers expectsOptionValue [] = False"
| "env_modifiers expectsOptionValue (arg # rest) = (let token = trim arg in
     if token = [] then env_modifiers expectsOptionValue rest
     else if expectsOptionValue then True
     else if token = ''--'' \<or> token = ''-'' then False
     else if isEnvAssignment token then True
     else if \<not> starts_with token ''-'' \<or> token = ''-'' then False
     else let lower = to_lower token; flag = flag_of lower in
       if flag \<in> set ENV_FLAG_OPTIONS then True
       else if flag \<in> set ENV_OPTIONS_WITH_VALUE then
         (if CHR ''='' \<in> set lower then True else env_modifiers True rest)
       else if hasEnvInlineValuePrefix lower then True
       else True)"

definition envInvocationUsesModifiers :: "string list \<Rightarrow> bool" where
  "envInvocationUsesModifiers argv = env_modifiers False (drop 1 argv)"

definition unwrapDashOptionInvocation ::
    "string list \<Rightarrow> (string \<Rightarrow> string \<Rightarrow> scan_directive) \<Rightarrow> (string list \<Rightarrow> string list option) \<Rightarrow> string list option" where
  "unwrapDashOptionInvocation argv onFlag adjust = scanWrapperInvocation argv [''--'']
     (\<lambda>token lower. if \<not> starts_with token ''-'' \<or> token = ''-'' then Stop else onFlag (flag_of lower) lower) adjust"

text \<open>\<open>/^-\d+$/\<close>.\<close>

definition is_dash_number :: "string \<Rightarrow> bool" where
  "is_dash_number s = (case s of [] \<Rightarrow> False | c # ds \<Rightarrow> c = CHR ''-'' \<and> ds \<noteq> [] \<and> list_all ascii_digit ds)"

definition unwrapNiceInvocation :: "string list \<Rightarrow> string list option" where
  "unwrapNiceInvocation argv = unwrapDashOptionInvocation argv
     (\<lambda>flag lower. if is_dash_number lower then Continue
        else if flag \<in> set NICE_OPTIONS_WITH_VALUE then (if CHR ''='' \<in> set lower \<or> lower \<noteq> flag then Continue else ConsumeNext)
        else if starts_with lower ''-n'' \<and> length lower > 2 then Continue
        else Invalid) Some"

definition unwrapNohupInvocation :: "string list \<Rightarrow> string list option" where
  "unwrapNohupInvocation argv = scanWrapperInvocation argv [''--'']
     (\<lambda>token lower. if \<not> starts_with token ''-'' \<or> token = ''-'' then Stop
        else if lower = ''--help'' \<or> lower = ''--version'' then Continue else Invalid) Some"

definition unwrapStdbufInvocation :: "string list \<Rightarrow> string list option" where
  "unwrapStdbufInvocation argv = unwrapDashOptionInvocation argv
     (\<lambda>flag lower. if flag \<notin> set STDBUF_OPTIONS_WITH_VALUE then Invalid
        else if CHR ''='' \<in> set lower then Continue else ConsumeNext) Some"

text \<open>\<open>timeout\<close> takes a duration before the command.\<close>

definition unwrapTimeoutInvocation :: "string list \<Rightarrow> string list option" where
  "unwrapTimeoutInvocation argv = unwrapDashOptionInvocation argv
     (\<lambda>flag lower. if flag \<in> set TIMEOUT_FLAG_OPTIONS then Continue
        else if flag \<in> set TIMEOUT_OPTIONS_WITH_VALUE then (if CHR ''='' \<in> set lower then Continue else ConsumeNext)
        else Invalid)
     (\<lambda>args. if length args > 1 then Some (drop 1 args) else None)"

definition unwrapDispatchWrapper :: "string \<Rightarrow> string list option \<Rightarrow> unwrap_result" where
  "unwrapDispatchWrapper wrapper unwrapped =
     (case unwrapped of Some argv \<Rightarrow> Unwrapped wrapper argv | None \<Rightarrow> Blocked wrapper)"

definition unwrapKnownDispatchWrapperInvocation :: "string list \<Rightarrow> unwrap_result" where
  "unwrapKnownDispatchWrapperInvocation argv = (let token0 = head_token argv in
     if token0 = [] then NotWrapper
     else let wrapper = normalizeExecutableToken token0 in
       if wrapper = ''env'' then unwrapDispatchWrapper wrapper (unwrapEnvInvocation argv)
       else if wrapper = ''nice'' then unwrapDispatchWrapper wrapper (unwrapNiceInvocation argv)
       else if wrapper = ''nohup'' then unwrapDispatchWrapper wrapper (unwrapNohupInvocation argv)
       else if wrapper = ''stdbuf'' then unwrapDispatchWrapper wrapper (unwrapStdbufInvocation argv)
       else if wrapper = ''timeout'' then unwrapDispatchWrapper wrapper (unwrapTimeoutInvocation argv)
       else if wrapper \<in> {''chrt'', ''doas'', ''ionice'', ''setsid'', ''sudo'', ''taskset''} then Blocked wrapper
       else NotWrapper)"

section \<open>The execution plan of nested dispatch wrappers\<close>

record dispatch_plan =
  dp_argv :: "string list"
  dp_wrappers :: "string list"
  dp_policyBlocked :: bool
  dp_blockedWrapper :: "string option"

definition isSemanticDispatchWrapperUsage :: "string \<Rightarrow> string list \<Rightarrow> bool" where
  "isSemanticDispatchWrapperUsage wrapper argv =
     (if wrapper = ''env'' then envInvocationUsesModifiers argv
      else wrapper \<notin> set TRANSPARENT_DISPATCH_WRAPPERS)"

definition blockedDispatchWrapperPlan :: "string list \<Rightarrow> string list \<Rightarrow> string \<Rightarrow> dispatch_plan" where
  "blockedDispatchWrapperPlan argv wrappers wrapper =
     \<lparr>dp_argv = argv, dp_wrappers = wrappers, dp_policyBlocked = True, dp_blockedWrapper = Some wrapper\<rparr>"

text \<open>The loop with the depth that is left; Inl is an early return, Inr the state after the loop.\<close>

fun dispatch_loop :: "nat \<Rightarrow> string list \<Rightarrow> string list \<Rightarrow> dispatch_plan + (string list \<times> string list)" where
  "dispatch_loop 0 current wrappers = Inr (current, wrappers)"
| "dispatch_loop (Suc left) current wrappers =
     (case unwrapKnownDispatchWrapperInvocation current of
        Blocked wrapper \<Rightarrow> Inl (blockedDispatchWrapperPlan current wrappers wrapper)
      | NotWrapper \<Rightarrow> Inr (current, wrappers)
      | Unwrapped wrapper argv \<Rightarrow>
          if length argv = 0 then Inr (current, wrappers)
          else if isSemanticDispatchWrapperUsage wrapper current
          then Inl (blockedDispatchWrapperPlan current (wrappers @ [wrapper]) wrapper)
          else dispatch_loop left argv (wrappers @ [wrapper]))"

definition resolveDispatchWrapperExecutionPlan :: "string list \<Rightarrow> nat \<Rightarrow> dispatch_plan" where
  "resolveDispatchWrapperExecutionPlan argv maxDepth = (case dispatch_loop maxDepth argv [] of
     Inl plan \<Rightarrow> plan
   | Inr (current, wrappers) \<Rightarrow>
       (let plan = \<lparr>dp_argv = current, dp_wrappers = wrappers, dp_policyBlocked = False, dp_blockedWrapper = None\<rparr> in
        if length wrappers \<ge> maxDepth then
          (case unwrapKnownDispatchWrapperInvocation current of
             Blocked wrapper \<Rightarrow> blockedDispatchWrapperPlan current wrappers wrapper
           | Unwrapped wrapper _ \<Rightarrow> blockedDispatchWrapperPlan current wrappers wrapper
           | NotWrapper \<Rightarrow> plan)
        else plan))"

definition unwrapDispatchWrappersForResolution :: "string list \<Rightarrow> string list" where
  "unwrapDispatchWrappersForResolution argv =
     dp_argv (resolveDispatchWrapperExecutionPlan argv MAX_DISPATCH_WRAPPER_DEPTH)"

section \<open>Inline commands of shells\<close>

definition POSIX_INLINE_COMMAND_FLAGS :: "string list" where
  "POSIX_INLINE_COMMAND_FLAGS = [''-lc'', ''-c'', ''--command'']"

definition POWERSHELL_INLINE_COMMAND_FLAGS :: "string list" where
  "POWERSHELL_INLINE_COMMAND_FLAGS = [''-c'', ''-command'', ''--command'']"

text \<open>\<open>/^-[^-]*c[^-]*$/i\<close>.\<close>

definition is_combined_c :: "string \<Rightarrow> bool" where
  "is_combined_c token = (case token of [] \<Rightarrow> False
     | d # cs \<Rightarrow> d = CHR ''-'' \<and> CHR ''-'' \<notin> set cs \<and> (CHR ''c'' \<in> set cs \<or> CHR ''C'' \<in> set cs))"

text \<open>
  The loop at index \<open>i\<close> with the arguments from there on: the inline command and the index of
  the token that holds it. Reading past the end gives no command and no index.
\<close>

fun inline_match :: "string list \<Rightarrow> bool \<Rightarrow> nat \<Rightarrow> string list \<Rightarrow> string option \<times> nat option" where
  "inline_match flags allowCombinedC i [] = (None, None)"
| "inline_match flags allowCombinedC i (arg # rest) = (let token = trim arg; lower = to_lower token;
     next = (str_opt (head_token rest), if rest \<noteq> [] then Some (i + 1) else None) in
     if token = [] then inline_match flags allowCombinedC (i + 1) rest
     else if lower = ''--'' then (None, None)
     else if lower \<in> set flags then next
     else if allowCombinedC \<and> is_combined_c token then
       (let inline = trim (drop (the (index_of (CHR ''c'') lower) + 1) token) in
        if inline \<noteq> [] then (Some inline, Some i) else next)
     else inline_match flags allowCombinedC (i + 1) rest)"

definition resolveInlineCommandMatch :: "string list \<Rightarrow> string list \<Rightarrow> bool \<Rightarrow> string option \<times> nat option" where
  "resolveInlineCommandMatch argv flags allowCombinedC = inline_match flags allowCombinedC 1 (drop 1 argv)"

definition extractInlineCommandByFlags :: "string list \<Rightarrow> string list \<Rightarrow> bool \<Rightarrow> string option" where
  "extractInlineCommandByFlags argv flags allowCombinedC = fst (resolveInlineCommandMatch argv flags allowCombinedC)"

definition extractPosixShellInlineCommand :: "string list \<Rightarrow> string option" where
  "extractPosixShellInlineCommand argv = extractInlineCommandByFlags argv POSIX_INLINE_COMMAND_FLAGS True"

definition extractPowerShellInlineCommand :: "string list \<Rightarrow> string option" where
  "extractPowerShellInlineCommand argv = extractInlineCommandByFlags argv POWERSHELL_INLINE_COMMAND_FLAGS False"

definition extractCmdInlineCommand :: "string list \<Rightarrow> string option" where
  "extractCmdInlineCommand argv =
     (case dropWhile (\<lambda>item. to_lower (trim item) \<noteq> ''/c'' \<and> to_lower (trim item) \<noteq> ''/k'') argv of
        [] \<Rightarrow> None
      | _ # tail \<Rightarrow> if length tail = 0 then None else str_opt (trim (join_with '' '' tail)))"

fun extractShellWrapperPayload :: "string list \<Rightarrow> shell_kind \<Rightarrow> string option" where
  "extractShellWrapperPayload argv PosixShell = extractPosixShellInlineCommand argv"
| "extractShellWrapperPayload argv CmdShell = extractCmdInlineCommand argv"
| "extractShellWrapperPayload argv PowerShell = extractPowerShellInlineCommand argv"

record shell_wrapper_command =
  sw_isWrapper :: bool
  sw_command :: "string option"

definition no_wrapper :: shell_wrapper_command where
  "no_wrapper = \<lparr>sw_isWrapper = False, sw_command = None\<rparr>"

text \<open>The first argument is the depth that is left of \<open>MAX_DISPATCH_WRAPPER_DEPTH\<close>.\<close>

fun extractShellWrapperCommandInternal :: "nat \<Rightarrow> string list \<Rightarrow> string option \<Rightarrow> shell_wrapper_command" where
  "extractShellWrapperCommandInternal 0 argv rawCommand = no_wrapper"
| "extractShellWrapperCommandInternal (Suc left) argv rawCommand = (let token0 = head_token argv in
     if token0 = [] then no_wrapper
     else case unwrapKnownDispatchWrapperInvocation argv of
       Blocked _ \<Rightarrow> no_wrapper
     | Unwrapped _ inner \<Rightarrow> extractShellWrapperCommandInternal left inner rawCommand
     | NotWrapper \<Rightarrow>
         (case unwrapKnownShellMultiplexerInvocation argv of
            Blocked _ \<Rightarrow> no_wrapper
          | Unwrapped _ inner \<Rightarrow> extractShellWrapperCommandInternal left inner rawCommand
          | NotWrapper \<Rightarrow>
              (case findShellWrapperSpec (normalizeExecutableToken token0) of
                 None \<Rightarrow> no_wrapper
               | Some kind \<Rightarrow>
                   (case extractShellWrapperPayload argv kind of
                      None \<Rightarrow> no_wrapper
                    | Some payload \<Rightarrow> \<lparr>sw_isWrapper = True, sw_command = nullish_opt rawCommand (Some payload)\<rparr>))))"

definition extractShellWrapperCommand :: "string list \<Rightarrow> string option \<Rightarrow> shell_wrapper_command" where
  "extractShellWrapperCommand argv rawCommand =
     extractShellWrapperCommandInternal MAX_DISPATCH_WRAPPER_DEPTH argv (normalizeRawCommand rawCommand)"

definition extractShellWrapperInlineCommand :: "string list \<Rightarrow> string option" where
  "extractShellWrapperInlineCommand argv =
     (let extracted = extractShellWrapperCommandInternal MAX_DISPATCH_WRAPPER_DEPTH argv None in
      if sw_isWrapper extracted then sw_command extracted else None)"

fun hasEnvManipulationBeforeShellWrapperInternal :: "nat \<Rightarrow> string list \<Rightarrow> bool \<Rightarrow> bool" where
  "hasEnvManipulationBeforeShellWrapperInternal 0 argv seen = False"
| "hasEnvManipulationBeforeShellWrapperInternal (Suc left) argv seen = (let token0 = head_token argv in
     if token0 = [] then False
     else case unwrapKnownDispatchWrapperInvocation argv of
       Blocked _ \<Rightarrow> False
     | Unwrapped wrapper inner \<Rightarrow> hasEnvManipulationBeforeShellWrapperInternal left inner
         (seen \<or> (wrapper = ''env'' \<and> envInvocationUsesModifiers argv))
     | NotWrapper \<Rightarrow>
         (case unwrapKnownShellMultiplexerInvocation argv of
            Blocked _ \<Rightarrow> False
          | Unwrapped _ inner \<Rightarrow> hasEnvManipulationBeforeShellWrapperInternal left inner seen
          | NotWrapper \<Rightarrow>
              (case findShellWrapperSpec (normalizeExecutableToken token0) of
                 None \<Rightarrow> False
               | Some kind \<Rightarrow> (case extractShellWrapperPayload argv kind of None \<Rightarrow> False | Some _ \<Rightarrow> seen))))"

definition hasEnvManipulationBeforeShellWrapper :: "string list \<Rightarrow> bool" where
  "hasEnvManipulationBeforeShellWrapper argv =
     hasEnvManipulationBeforeShellWrapperInternal MAX_DISPATCH_WRAPPER_DEPTH argv False"

section \<open>Display text and consistency\<close>

definition escape_quotes :: "string \<Rightarrow> string" where
  "escape_quotes arg = concat (map (\<lambda>c. if c = CHR 0x22 then [CHR 0x5C, c] else [c]) arg)"

definition format_arg :: "string \<Rightarrow> string" where
  "format_arg arg =
     (if length arg = 0 then [CHR 0x22, CHR 0x22]
      else if \<not> list_ex (\<lambda>c. js_ws c \<or> c = CHR 0x22) arg then arg
      else [CHR 0x22] @ escape_quotes arg @ [CHR 0x22])"

definition formatExecCommand :: "string list \<Rightarrow> string" where
  "formatExecCommand argv = join_with '' '' (map format_arg argv)"

definition extractShellCommandFromArgv :: "string list \<Rightarrow> string option" where
  "extractShellCommandFromArgv argv = sw_command (extractShellWrapperCommand argv None)"

definition POSIX_OR_POWERSHELL_INLINE_WRAPPER_NAMES :: "string list" where
  "POSIX_OR_POWERSHELL_INLINE_WRAPPER_NAMES =
     [''ash'', ''bash'', ''dash'', ''fish'', ''ksh'', ''powershell'', ''pwsh'', ''sh'', ''zsh'']"

definition unwrapShellWrapperArgv :: "string list \<Rightarrow> string list" where
  "unwrapShellWrapperArgv argv = (let dispatchUnwrapped = unwrapDispatchWrappersForResolution argv in
     case unwrapKnownShellMultiplexerInvocation dispatchUnwrapped of
       Unwrapped _ inner \<Rightarrow> inner | _ \<Rightarrow> dispatchUnwrapped)"

definition hasTrailingPositionalArgvAfterInlineCommand :: "string list \<Rightarrow> bool" where
  "hasTrailingPositionalArgvAfterInlineCommand argv = (let wrapperArgv = unwrapShellWrapperArgv argv;
     token0 = head_token wrapperArgv in
     if token0 = [] then False
     else let wrapper = normalizeExecutableToken token0 in
       if wrapper \<notin> set POSIX_OR_POWERSHELL_INLINE_WRAPPER_NAMES then False
       else case (if wrapper = ''powershell'' \<or> wrapper = ''pwsh''
                  then snd (resolveInlineCommandMatch wrapperArgv POWERSHELL_INLINE_COMMAND_FLAGS False)
                  else snd (resolveInlineCommandMatch wrapperArgv POSIX_INLINE_COMMAND_FLAGS True)) of
         None \<Rightarrow> False
       | Some inlineCommandIndex \<Rightarrow>
           list_ex (\<lambda>entry. length (trim entry) > 0) (drop (inlineCommandIndex + 1) wrapperArgv))"

datatype command_error =
  RawCommandMismatch (ce_raw: string) (ce_inferred: string) | MissingCommand

fun command_error_message :: "command_error \<Rightarrow> string" where
  "command_error_message (RawCommandMismatch _ _) = ''INVALID_REQUEST: rawCommand does not match command''"
| "command_error_message MissingCommand = ''rawCommand requires params.command''"

record command_validation =
  cv_shellCommand :: "string option"
  cv_cmdText :: string

definition validateSystemRunCommandConsistency :: "string list \<Rightarrow> string option \<Rightarrow> command_error + command_validation" where
  "validateSystemRunCommandConsistency argv rawCommand = (let
     raw = normalizeRawCommand rawCommand;
     shellWrapperResolution = extractShellWrapperCommand argv None;
     shellCommand = sw_command shellWrapperResolution;
     shellWrapperPositionalArgv = hasTrailingPositionalArgvAfterInlineCommand argv;
     envManipulation = (sw_isWrapper shellWrapperResolution \<and> hasEnvManipulationBeforeShellWrapper argv);
     mustBindDisplayToFullArgv = (envManipulation \<or> shellWrapperPositionalArgv);
     inferred = (case shellCommand of
         Some c \<Rightarrow> if \<not> mustBindDisplayToFullArgv then trim c else formatExecCommand argv
       | None \<Rightarrow> formatExecCommand argv) in
     if raw \<noteq> None \<and> raw \<noteq> Some inferred then Inl (RawCommandMismatch (the raw) inferred)
     else Inr \<lparr>cv_shellCommand = (case shellCommand of None \<Rightarrow> None
                 | Some c \<Rightarrow> if envManipulation then Some c else nullish_opt raw (Some c)),
               cv_cmdText = nullish raw inferred\<rparr>)"

text \<open>
  \<open>command\<close> is None when it is not an array; an array element is given as the text that
  \<open>String(v)\<close> makes of it. \<open>rawCommand\<close> is None when it is not a string.
\<close>

record resolved_command =
  rc_argv :: "string list"
  rc_rawCommand :: "string option"
  rc_shellCommand :: "string option"
  rc_cmdText :: string

definition resolveSystemRunCommand :: "string list option \<Rightarrow> string option \<Rightarrow> command_error + resolved_command" where
  "resolveSystemRunCommand command rawCommand = (let raw = normalizeRawCommand rawCommand; argv = nullish command [] in
     if length argv = 0 then
       (if raw \<noteq> None then Inl MissingCommand
        else Inr \<lparr>rc_argv = [], rc_rawCommand = None, rc_shellCommand = None, rc_cmdText = []\<rparr>)
     else case validateSystemRunCommandConsistency argv raw of
       Inl e \<Rightarrow> Inl e
     | Inr validation \<Rightarrow> Inr \<lparr>rc_argv = argv, rc_rawCommand = raw, rc_shellCommand = cv_shellCommand validation,
                              rc_cmdText = cv_cmdText validation\<rparr>)"

section \<open>The display text determines the command\<close>

definition dquote :: char where "dquote = CHR 0x22"
definition backslash :: char where "backslash = CHR 0x5C"

lemma dquote_backslash [simp]: "dquote \<noteq> backslash" "backslash \<noteq> dquote" "dquote \<noteq> CHR '' ''" "CHR '' '' \<noteq> dquote"
  "\<not> js_ws dquote" "js_ws (CHR '' '')" "backslash \<noteq> CHR '' ''" "CHR '' '' \<noteq> backslash"
  by (simp_all add: dquote_def backslash_def js_ws_def)

text \<open>The text after the first argument: each further argument behind a space.\<close>

definition tail_text :: "string list \<Rightarrow> string" where
  "tail_text argv = concat (map (\<lambda>a. CHR '' '' # format_arg a) argv)"

lemma tail_text_simps [simp]: "tail_text [] = []" "tail_text (a # as) = CHR '' '' # format_arg a @ tail_text as"
  by (simp_all add: tail_text_def)

lemma join_formatted: "join_with '' '' (map format_arg (a # as)) = format_arg a @ tail_text as"
proof (induction as arbitrary: a)
  case Nil
  show ?case by simp
next
  case (Cons b as)
  have "join_with '' '' (map format_arg (a # b # as)) = format_arg a @ '' '' @ join_with '' '' (map format_arg (b # as))"
    by (simp only: list.map join_with.simps)
  also have "\<dots> = format_arg a @ '' '' @ format_arg b @ tail_text as" by (simp only: Cons.IH)
  finally show ?case by (simp only: tail_text_simps append_Cons append_Nil)
qed

lemma formatExecCommand_simps [simp]:
  "formatExecCommand [] = []" "formatExecCommand (a # as) = format_arg a @ tail_text as"
  unfolding formatExecCommand_def by (simp, rule join_formatted)

lemma escape_simps [simp]: "escape_quotes [] = []"
  "escape_quotes (c # s) = (if c = dquote then backslash # dquote # escape_quotes s else c # escape_quotes s)"
  by (simp_all add: escape_quotes_def dquote_def backslash_def)

lemma format_arg_cases:
  obtains (plain) "format_arg a = a" "a \<noteq> []" "dquote \<notin> set a" "CHR '' '' \<notin> set a"
  | (quoted) "format_arg a = dquote # escape_quotes a @ [dquote]"
proof (cases "a = [] \<or> list_ex (\<lambda>c. js_ws c \<or> c = CHR 0x22) a")
  case True
  then have "format_arg a = dquote # escape_quotes a @ [dquote]" by (auto simp: format_arg_def dquote_def)
  then show thesis by (rule quoted)
next
  case False
  then have a: "a \<noteq> []" "\<And>c. c \<in> set a \<Longrightarrow> \<not> js_ws c \<and> c \<noteq> dquote" by (auto simp: list_ex_iff dquote_def)
  from False have "format_arg a = a" by (simp add: format_arg_def)
  moreover have "dquote \<notin> set a" "CHR '' '' \<notin> set a" using a(2) [of dquote] a(2) [of "CHR '' ''"] by auto
  ultimately show thesis using a(1) by (intro plain)
qed

lemma format_arg_not_Nil [simp]: "format_arg a \<noteq> []"
  by (cases a rule: format_arg_cases) auto

lemma escape_not_dquote: "escape_quotes s @ dquote # r = dquote # t \<Longrightarrow> s = [] \<and> r = t"
  by (cases s) (auto split: if_splits)

text \<open>Text without quotes on one side is read through on the other.\<close>

lemma skip_plain:
  assumes "a @ tail_text ts = escape_quotes v @ dquote # tail_text us" "dquote \<notin> set a"
  shows "\<exists>v'. tail_text ts = escape_quotes v' @ dquote # tail_text us"
  using assms
proof (induction a arbitrary: v)
  case Nil
  then show ?case by auto
next
  case (Cons c a)
  show ?case
  proof (cases v)
    case Nil
    with Cons.prems show ?thesis by simp
  next
    case (Cons d w)
    show ?thesis
    proof (cases "d = dquote")
      case True
      with Cons Cons.prems have "a @ tail_text ts = dquote # escape_quotes w @ dquote # tail_text us" by simp
      with Cons.prems(2) show ?thesis by (cases a; cases ts) auto
    next
      case False
      with Cons Cons.prems show ?thesis by (intro Cons.IH [of w]) auto
    qed
  qed
qed

text \<open>One reading is between arguments where the other is inside quotes: they never meet again.\<close>

lemma no_shifted_reading: "tail_text ts \<noteq> escape_quotes v @ dquote # tail_text us"
proof (induction "length ts + length us" arbitrary: ts us v rule: less_induct)
  case less
  show ?case
  proof
    assume eq: "tail_text ts = escape_quotes v @ dquote # tail_text us"
    then obtain a ts' where ts: "ts = a # ts'" by (cases ts) auto
    from eq obtain w where rest: "format_arg a @ tail_text ts' = escape_quotes w @ dquote # tail_text us"
      by (cases v) (auto simp: ts split: if_splits)
    show False
    proof (cases a rule: format_arg_cases)
      case plain
      with rest skip_plain [of a ts' w us] obtain x where "tail_text ts' = escape_quotes x @ dquote # tail_text us" by auto
      with less [of ts' us x] show False by (simp add: ts)
    next
      case quoted
      with rest have "dquote # escape_quotes a @ dquote # tail_text ts' = escape_quotes w @ dquote # tail_text us" by simp
      from escape_not_dquote [OF this [symmetric]] have "tail_text us = escape_quotes a @ dquote # tail_text ts'" by simp
      with less [of us ts' a] show False by (simp add: ts)
    qed
  qed
qed

lemma quoted_unique:
  "escape_quotes a @ dquote # tail_text ts = escape_quotes b @ dquote # tail_text us \<Longrightarrow> a = b \<and> tail_text ts = tail_text us"
proof (induction a arbitrary: b)
  case Nil
  then show ?case using escape_not_dquote [of b "tail_text us" "tail_text ts"] by auto
next
  case (Cons c a)
  show ?case
  proof (cases b)
    case Nil
    with Cons.prems show ?thesis by (auto split: if_splits)
  next
    case b: (Cons d b')
    show ?thesis
    proof (cases "c = dquote \<longleftrightarrow> d = dquote")
      case True
      with Cons.prems b show ?thesis by (auto dest!: Cons.IH split: if_splits)
    next
      case False
      have meet: False if "dquote # escape_quotes x @ dquote # tail_text t1 = escape_quotes y @ dquote # tail_text t2" for x y t1 t2
        using escape_not_dquote [OF that [symmetric]] no_shifted_reading [of t2 x t1] by simp
      from False Cons.prems b show ?thesis
        by (auto split: if_splits dest: meet meet [OF sym])
    qed
  qed
qed

lemma plain_unique:
  assumes "a @ tail_text ts = b @ tail_text us" "CHR '' '' \<notin> set a" "CHR '' '' \<notin> set b"
  shows "a = b \<and> tail_text ts = tail_text us"
proof -
  have "takeWhile (\<lambda>c. c \<noteq> CHR '' '') (x @ tail_text t) = x" if "CHR '' '' \<notin> set x" for x t
    using that by (cases t) (auto simp: takeWhile_append takeWhile_eq_all_conv)
  from this [OF assms(2), of ts] this [OF assms(3), of us] assms(1) show ?thesis by simp
qed

lemma format_arg_unique:
  "format_arg a @ tail_text ts = format_arg b @ tail_text us \<Longrightarrow> a = b \<and> tail_text ts = tail_text us"
proof (cases a rule: format_arg_cases; cases b rule: format_arg_cases)
  assume eq: "format_arg a @ tail_text ts = format_arg b @ tail_text us"
  { assume "format_arg a = a" "CHR '' '' \<notin> set a" "format_arg b = b" "CHR '' '' \<notin> set b"
    with eq show ?thesis using plain_unique by simp }
  { assume "format_arg a = a" "a \<noteq> []" "dquote \<notin> set a" "format_arg b = dquote # escape_quotes b @ [dquote]"
    with eq show ?thesis by (cases a) auto }
  { assume "format_arg b = b" "b \<noteq> []" "dquote \<notin> set b" "format_arg a = dquote # escape_quotes a @ [dquote]"
    with eq show ?thesis by (cases b) auto }
  { assume "format_arg a = dquote # escape_quotes a @ [dquote]" "format_arg b = dquote # escape_quotes b @ [dquote]"
    with eq show ?thesis using quoted_unique by simp }
qed

lemma tail_text_inject: "tail_text ts = tail_text us \<Longrightarrow> ts = us"
proof (induction ts arbitrary: us)
  case Nil
  then show ?case by (cases us) auto
next
  case (Cons a ts)
  then obtain b us' where us: "us = b # us'" by (cases us) auto
  with Cons.prems have "format_arg a @ tail_text ts = format_arg b @ tail_text us'" by simp
  from format_arg_unique [OF this] Cons.IH [of us'] us show ?case by simp
qed

lemma display_text_eq_iff: "formatExecCommand argv = formatExecCommand argv' \<longleftrightarrow> argv = argv'"
proof
  assume "formatExecCommand argv = formatExecCommand argv'"
  then show "argv = argv'"
    by (cases argv; cases argv') (auto dest!: format_arg_unique tail_text_inject)
qed simp

text \<open>
  The text shown for a command determines it: two argument vectors with the same display
  text are equal, quotes, blanks, empty arguments and trailing backslashes included.
\<close>

theorem display_text_injective:
  "(formatExecCommand argv = formatExecCommand argv') = (argv = argv')"
  by (rule display_text_eq_iff)

section \<open>What an execution plan stands for\<close>

lemma scan_tokens_suffix: "scan_tokens seps f e args = Some out \<Longrightarrow> suffix out args"
proof (induction seps f e args rule: scan_tokens.induct)
  case (2 seps f e arg rest)
  show ?case
  proof (cases "out = arg # rest")
    case False
    then have "suffix out rest"
      using "2.prems" "2.IH" by (auto simp: Let_def split: if_splits scan_directive.splits)
    then show ?thesis by (rule suffix_ConsI)
  qed simp
qed (auto split: if_splits)

lemma scanWrapper_suffix:
  assumes "scanWrapperInvocation argv seps f adjust = Some out" "\<And>xs ys. adjust xs = Some ys \<Longrightarrow> suffix ys xs"
  shows "suffix out argv \<and> out \<noteq> []"
proof -
  from assms(1) obtain args where "scan_tokens seps f False (drop 1 argv) = Some args" "adjust args = Some out" "out \<noteq> []"
    by (auto simp: scanWrapperInvocation_def split: option.splits if_splits)
  with scan_tokens_suffix assms(2) have "suffix args (drop 1 argv)" "suffix out args" "out \<noteq> []" by blast+
  then show ?thesis using suffix_drop [of 1 argv] by (meson suffix_order.trans)
qed

lemma unwrap_dispatch_suffix:
  "unwrapKnownDispatchWrapperInvocation argv = Unwrapped w out \<Longrightarrow>
   suffix out argv \<and> out \<noteq> [] \<and> w \<in> {''env'', ''nice'', ''nohup'', ''stdbuf'', ''timeout''}"
proof -
  have drop: "suffix ys xs" if "(if length xs > 1 then Some (drop 1 xs) else None) = Some ys" for xs ys :: "string list"
    using that suffix_drop [of 1 xs] by (auto split: if_splits)
  show "unwrapKnownDispatchWrapperInvocation argv = Unwrapped w out \<Longrightarrow> ?thesis"
    unfolding unwrapKnownDispatchWrapperInvocation_def Let_def unwrapDispatchWrapper_def
      unwrapEnvInvocation_def unwrapNiceInvocation_def unwrapNohupInvocation_def unwrapStdbufInvocation_def
      unwrapTimeoutInvocation_def unwrapDashOptionInvocation_def
    by (auto split: if_splits option.splits dest!: scanWrapper_suffix intro: drop)
qed

lemma dispatch_loop_end:
  assumes "dispatch_loop n current ws = Inr (current', ws')"
  shows "suffix current' current \<and> (\<exists>more. ws' = ws @ more \<and> length more \<le> n \<and>
      set more \<subseteq> {''env'', ''nice'', ''nohup'', ''stdbuf'', ''timeout''}) \<and>
    (unwrapKnownDispatchWrapperInvocation current' = NotWrapper \<or> length ws' = length ws + n)"
  using assms
proof (induction n current ws rule: dispatch_loop.induct)
  case (2 n current ws)
  show ?case
  proof (cases "unwrapKnownDispatchWrapperInvocation current")
    case (Unwrapped w inner)
    from unwrap_dispatch_suffix [OF this] have s: "suffix inner current" "inner \<noteq> []" "w \<in> {''env'', ''nice'', ''nohup'', ''stdbuf'', ''timeout''}"
      by auto
    with Unwrapped "2.prems" have sem: "\<not> isSemanticDispatchWrapperUsage w current"
      and loop: "dispatch_loop n inner (ws @ [w]) = Inr (current', ws')" by (auto split: if_splits)
    from "2.IH" [OF Unwrapped _ sem loop] s(2) obtain more where
      "suffix current' inner" "ws' = ws @ [w] @ more" "length more \<le> n"
      "set more \<subseteq> {''env'', ''nice'', ''nohup'', ''stdbuf'', ''timeout''}"
      "unwrapKnownDispatchWrapperInvocation current' = NotWrapper \<or> length ws' = length (ws @ [w]) + n"
      by auto
    then show ?thesis using s suffix_order.trans [OF \<open>suffix current' inner\<close> s(1)]
      by (intro conjI exI [of _ "w # more"]) auto
  qed (use "2.prems" in auto)
qed auto

lemma dispatch_loop_blocked:
  "dispatch_loop n current ws = Inl plan \<Longrightarrow> suffix (dp_argv plan) current \<and> dp_policyBlocked plan"
proof (induction n current ws rule: dispatch_loop.induct)
  case (2 n current ws)
  show ?case
  proof (cases "unwrapKnownDispatchWrapperInvocation current")
    case (Unwrapped w inner)
    from unwrap_dispatch_suffix [OF this] have s: "suffix inner current" "inner \<noteq> []" by auto
    show ?thesis
    proof (cases "isSemanticDispatchWrapperUsage w current")
      case True
      with Unwrapped s "2.prems" show ?thesis by (auto simp: blockedDispatchWrapperPlan_def)
    next
      case False
      with Unwrapped s "2.prems" "2.IH" [OF Unwrapped _ False] show ?thesis
        by (auto intro: suffix_order.trans)
    qed
  qed (use "2.prems" in \<open>auto simp: blockedDispatchWrapperPlan_def\<close>)
qed auto

text \<open>
  A plan that is not blocked ends at the command itself: its argv is a suffix of the argv
  asked for, what it stripped are at most the allowed number of the transparent wrappers (env
  without modifiers, nice, nohup, stdbuf, timeout), and its first token is not one of the known
  dispatch wrappers any more; deeper nestings, sudo and its kind, and env with modifiers are
  blocked with a suffix of the argv too.
\<close>

theorem dispatch_plan_reaches_command:
  "suffix (dp_argv (resolveDispatchWrapperExecutionPlan argv maxDepth)) argv \<and>
   (dp_policyBlocked (resolveDispatchWrapperExecutionPlan argv maxDepth) = False \<longrightarrow>
      unwrapKnownDispatchWrapperInvocation (dp_argv (resolveDispatchWrapperExecutionPlan argv maxDepth)) = NotWrapper \<and>
      length (dp_wrappers (resolveDispatchWrapperExecutionPlan argv maxDepth)) \<le> maxDepth \<and>
      set (dp_wrappers (resolveDispatchWrapperExecutionPlan argv maxDepth)) \<subseteq>
        {''env'', ''nice'', ''nohup'', ''stdbuf'', ''timeout''})"
proof (cases "dispatch_loop maxDepth argv []")
  case (Inl plan)
  with dispatch_loop_blocked [OF Inl] show ?thesis by (simp add: resolveDispatchWrapperExecutionPlan_def)
next
  case (Inr r)
  obtain current ws where r: "r = (current, ws)" by (cases r)
  from dispatch_loop_end [OF Inr [unfolded r]] obtain more where "suffix current argv" "ws = more" "length more \<le> maxDepth"
    "set more \<subseteq> {''env'', ''nice'', ''nohup'', ''stdbuf'', ''timeout''}"
    "unwrapKnownDispatchWrapperInvocation current = NotWrapper \<or> length ws = maxDepth" by auto
  then show ?thesis
    using Inr r by (auto simp: resolveDispatchWrapperExecutionPlan_def blockedDispatchWrapperPlan_def Let_def split: unwrap_result.splits)
qed

section \<open>The display text and the command that runs\<close>

text \<open>The commands whose display text is the whole argv, and those shown by their shell payload.\<close>

definition shown_by_payload :: "string list \<Rightarrow> string option" where
  "shown_by_payload argv = (case sw_command (extractShellWrapperCommand argv None) of None \<Rightarrow> None
     | Some c \<Rightarrow> if (sw_isWrapper (extractShellWrapperCommand argv None) \<and> hasEnvManipulationBeforeShellWrapper argv) \<or>
                    hasTrailingPositionalArgvAfterInlineCommand argv then None else Some (trim c))"

lemma validate_ok:
  "validateSystemRunCommandConsistency argv raw = Inr v \<Longrightarrow>
   cv_cmdText v = (case shown_by_payload argv of None \<Rightarrow> formatExecCommand argv | Some c \<Rightarrow> c)"
  by (auto simp: validateSystemRunCommandConsistency_def shown_by_payload_def Let_def
      split: option.splits if_splits)

text \<open>
  C7: The text an approver sees is bound to what runs. A command is resolved only when the
  text given with it is blank or equal to the text computed from its argv; the resolved text is
  then that computed text; and two resolved commands shown with the same text, neither of them
  by the payload of a plain shell invocation, have the same argv. A payload is shown alone only
  when neither environment changes nor further positional arguments accompany it.
\<close>

theorem resolved_text_bound_to_argv:
  assumes "resolveSystemRunCommand (Some argv) raw = Inr r"
  shows "rc_argv r = argv \<and>
    rc_cmdText r = (case shown_by_payload argv of None \<Rightarrow> formatExecCommand argv | Some c \<Rightarrow> c) \<and>
    normalizeRawCommand raw \<in> {None, Some (rc_cmdText r)} \<and>
    (resolveSystemRunCommand (Some argv') raw' = Inr r' \<longrightarrow> shown_by_payload argv = None \<longrightarrow>
     shown_by_payload argv' = None \<longrightarrow> rc_cmdText r = rc_cmdText r' \<longrightarrow> argv = argv')"
proof -
  have raw_twice: "normalizeRawCommand (normalizeRawCommand x) = normalizeRawCommand x" for x
    by (auto simp: normalizeRawCommand_def str_opt_def split: option.splits)
  have empty: "shown_by_payload [] = None"
    by (simp add: shown_by_payload_def extractShellWrapperCommand_def MAX_DISPATCH_WRAPPER_DEPTH_def
        numeral_eq_Suc head_token_def no_wrapper_def)
  have shown: "rc_argv q = as \<and> rc_cmdText q = (case shown_by_payload as of None \<Rightarrow> formatExecCommand as | Some c \<Rightarrow> c) \<and>
      normalizeRawCommand x \<in> {None, Some (rc_cmdText q)}" if "resolveSystemRunCommand (Some as) x = Inr q" for as x q
  proof (cases "as = []")
    case True
    with that empty show ?thesis by (auto simp: resolveSystemRunCommand_def Let_def split: if_splits)
  next
    case False
    with that obtain v where v: "validateSystemRunCommandConsistency as (normalizeRawCommand x) = Inr v"
      "rc_argv q = as" "rc_cmdText q = cv_cmdText v"
      by (auto simp: resolveSystemRunCommand_def Let_def split: sum.splits)
    moreover from v(1) have "normalizeRawCommand x \<in> {None, Some (cv_cmdText v)}"
      by (auto simp: validateSystemRunCommandConsistency_def Let_def raw_twice split: if_splits)
    ultimately show ?thesis using validate_ok [OF v(1)] by simp
  qed
  from shown [OF assms] shown [of argv' raw' r'] show ?thesis
    by (auto simp: display_text_eq_iff)
qed

text \<open>Evaluation on literals for the examples.\<close>

lemmas token_eval = head_token_def normalizeExecutableToken_def stripWindowsExeSuffix_def basenameLower_def
  win32_basename_def posix_basename_def base_after_def ends_with_def suffix_def str_eval ascii_letter_def

lemma sample_tokens:
  "head_token (''ls'' # args) = ''ls''" "normalizeExecutableToken ''ls'' = ''ls''"
  "head_token (''nice'' # args) = ''nice''" "normalizeExecutableToken ''nice'' = ''nice''"
  by (simp_all add: token_eval)

lemma sample_not_dispatch: "unwrapKnownDispatchWrapperInvocation [''ls''] = NotWrapper"
  by (simp add: unwrapKnownDispatchWrapperInvocation_def sample_tokens)

lemma sample_nice: "unwrapKnownDispatchWrapperInvocation [''nice'', ''ls''] = Unwrapped ''nice'' [''ls'']"
  by (simp add: unwrapKnownDispatchWrapperInvocation_def sample_tokens unwrapNiceInvocation_def
      unwrapDashOptionInvocation_def scanWrapperInvocation_def unwrapDispatchWrapper_def str_eval starts_with_def)

lemma sample_plan: "resolveDispatchWrapperExecutionPlan [''nice'', ''ls''] 2 =
    \<lparr>dp_argv = [''ls''], dp_wrappers = [''nice''], dp_policyBlocked = False, dp_blockedWrapper = None\<rparr>"
  by (simp add: resolveDispatchWrapperExecutionPlan_def numeral_2_eq_2 sample_nice sample_not_dispatch
      isSemanticDispatchWrapperUsage_def TRANSPARENT_DISPATCH_WRAPPERS_def)

lemma dispatch_plan_reaches_command_witness:
  "unwrapKnownDispatchWrapperInvocation (dp_argv (resolveDispatchWrapperExecutionPlan [''nice'', ''ls''] 2)) = NotWrapper"
  using dispatch_plan_reaches_command [of "[''nice'', ''ls'']" 2] sample_plan by simp

lemma sample_ls: "sw_command (extractShellWrapperCommand [''ls''] None) = None" "sw_isWrapper (extractShellWrapperCommand [''ls''] None) = False"
  by (simp_all add: extractShellWrapperCommand_def MAX_DISPATCH_WRAPPER_DEPTH_def numeral_eq_Suc sample_not_dispatch
      sample_tokens unwrapKnownShellMultiplexerInvocation_def SHELL_MULTIPLEXER_WRAPPER_NAMES_def findShellWrapperSpec_def
      SHELL_WRAPPER_SPECS_def POSIX_SHELL_WRAPPER_NAMES_def WINDOWS_CMD_WRAPPER_NAMES_def POWERSHELL_WRAPPER_NAMES_def
      stripWindowsExeSuffix_def ends_with_def suffix_def no_wrapper_def)

lemma sample_positional: "\<not> hasTrailingPositionalArgvAfterInlineCommand [''ls'']"
  by (simp add: hasTrailingPositionalArgvAfterInlineCommand_def unwrapShellWrapperArgv_def unwrapDispatchWrappersForResolution_def
      resolveDispatchWrapperExecutionPlan_def MAX_DISPATCH_WRAPPER_DEPTH_def numeral_eq_Suc sample_not_dispatch
      unwrapKnownShellMultiplexerInvocation_def sample_tokens SHELL_MULTIPLEXER_WRAPPER_NAMES_def
      POSIX_OR_POWERSHELL_INLINE_WRAPPER_NAMES_def)

lemma sample_format: "format_arg ''ls'' = ''ls''"
  by (simp add: format_arg_def js_ws_def)

lemma sample_resolved: "resolveSystemRunCommand (Some [''ls'']) None =
    Inr \<lparr>rc_argv = [''ls''], rc_rawCommand = None, rc_shellCommand = None, rc_cmdText = ''ls''\<rparr>"
  by (simp add: resolveSystemRunCommand_def validateSystemRunCommandConsistency_def sample_ls sample_positional
      normalizeRawCommand_def str_opt_def sample_format Let_def)

lemma resolved_text_bound_to_argv_witness:
  "rc_cmdText \<lparr>rc_argv = [''ls''], rc_rawCommand = None, rc_shellCommand = None, rc_cmdText = ''ls''\<rparr> = formatExecCommand [''ls'']"
  using resolved_text_bound_to_argv [OF sample_resolved] sample_ls by (simp add: shown_by_payload_def)

end
