(* ===== verification/ExecApprovals.thy ===== *)
theory ExecApprovals
  imports ExecWrappers
begin

text \<open>
  Approval of commands on nodes: the approval records and their life cycle
  (src/gateway/exec-approval-manager.ts), the requests that create and resolve them
  (src/gateway/server-methods/exec-approval.ts), the binding of an approval to a command
  (src/infra/system-run-approval-binding.ts, src/infra/system-run-approval-context.ts,
  src/infra/system-run-normalize.ts, src/gateway/node-invoke-system-run-approval-match.ts), and
  the guard that forwards system.run to a node (src/gateway/node-invoke-system-run-approval.ts
  with its errors). Times, fresh ids, the collation of localeCompare and the SHA-256 of the
  environment are arguments. An operation runs to its end before the next one starts, as on the
  event loop; timers are a list of what is armed, and their firing is a step of its own.
\<close>

section \<open>Values of unknown type\<close>

text \<open>A number is given by the text that \<open>String(n)\<close> makes of it.\<close>

datatype js_value = JUndefined | JNull | JBool bool | JNum string | JStr string
  | JArr "js_value list" | JObj "(string \<times> js_value) list"

fun js_string :: "js_value \<Rightarrow> string" and js_element :: "js_value \<Rightarrow> string" where
  "js_string JUndefined = ''undefined''"
| "js_string JNull = ''null''"
| "js_string (JBool b) = (if b then ''true'' else ''false'')"
| "js_string (JNum n) = n"
| "js_string (JStr s) = s"
| "js_string (JArr vs) = join_with '','' (map js_element vs)"
| "js_string (JObj fs) = ''[object Object]''"
| "js_element JUndefined = []"
| "js_element JNull = []"
| "js_element (JBool b) = (if b then ''true'' else ''false'')"
| "js_element (JNum n) = n"
| "js_element (JStr s) = s"
| "js_element (JArr vs) = join_with '','' (map js_element vs)"
| "js_element (JObj fs) = ''[object Object]''"

type_synonym js_fields = "(string, js_value) js_map"

definition field :: "js_fields \<Rightarrow> string \<Rightarrow> js_value" where
  "field fs k = nullish (map_get fs k) JUndefined"

definition asRecord :: "js_value \<Rightarrow> js_fields option" where
  "asRecord v = (case v of JObj fs \<Rightarrow> Some fs | _ \<Rightarrow> None)"

definition normalizeNonEmptyString :: "js_value \<Rightarrow> string option" where
  "normalizeNonEmptyString v = (case v of JStr s \<Rightarrow> str_opt (trim s) | _ \<Rightarrow> None)"

definition normalizeStringArray :: "js_value \<Rightarrow> string list" where
  "normalizeStringArray v = (case v of JArr vs \<Rightarrow> map js_string vs | _ \<Rightarrow> [])"

definition opt_value :: "string option \<Rightarrow> js_value" where
  "opt_value s = (case s of None \<Rightarrow> JNull | Some t \<Rightarrow> JStr t)"

section \<open>The binding of an approval\<close>

record run_binding =
  rb_argv :: "string list"
  rb_cwd :: "string option"
  rb_agentId :: "string option"
  rb_sessionKey :: "string option"
  rb_envHash :: "string option"

record run_plan =
  rp_argv :: "string list"
  rp_cwd :: "string option"
  rp_rawCommand :: "string option"
  rp_agentId :: "string option"
  rp_sessionKey :: "string option"

text \<open>The sort key of localeCompare and the hex digest of the serialised entries.\<close>

record env_tools =
  collation :: "string \<Rightarrow> nat"
  sha256_json :: "(string \<times> string) list \<Rightarrow> string"

definition normalizeSystemRunApprovalPlan :: "js_value \<Rightarrow> run_plan option" where
  "normalizeSystemRunApprovalPlan v = (case asRecord v of None \<Rightarrow> None
     | Some candidate \<Rightarrow>
        let argv = normalizeStringArray (field candidate ''argv'') in
        if length argv = 0 then None
        else Some \<lparr>rp_argv = argv, rp_cwd = normalizeNonEmptyString (field candidate ''cwd''),
                   rp_rawCommand = normalizeNonEmptyString (field candidate ''rawCommand''),
                   rp_agentId = normalizeNonEmptyString (field candidate ''agentId''),
                   rp_sessionKey = normalizeNonEmptyString (field candidate ''sessionKey'')\<rparr>)"

text \<open>A stored plan read again as a value of unknown type.\<close>

definition plan_value :: "run_plan option \<Rightarrow> js_value" where
  "plan_value plan = (case plan of None \<Rightarrow> JNull | Some p \<Rightarrow>
     JObj [(''argv'', JArr (map JStr (rp_argv p))), (''cwd'', opt_value (rp_cwd p)),
           (''rawCommand'', opt_value (rp_rawCommand p)), (''agentId'', opt_value (rp_agentId p)),
           (''sessionKey'', opt_value (rp_sessionKey p))])"

text \<open>\<open>/^[A-Za-z_][A-Za-z0-9_]*$/\<close>, the test of portable variable names.\<close>

definition portable_key :: "string \<Rightarrow> bool" where
  "portable_key key = (case key of [] \<Rightarrow> False | c # cs \<Rightarrow> name_start c \<and> list_all name_char cs)"

definition normalizeEnvVarKey :: "string \<Rightarrow> bool \<Rightarrow> string option" where
  "normalizeEnvVarKey rawKey portable = (let key = trim rawKey in
     if key = [] then None else if portable \<and> \<not> portable_key key then None else Some key)"

definition env_entry :: "string \<times> js_value \<Rightarrow> (string \<times> string) option" where
  "env_entry kv = (case snd kv of JStr v \<Rightarrow> map_option (\<lambda>key. (key, v)) (normalizeEnvVarKey (fst kv) True) | _ \<Rightarrow> None)"

definition normalizeSystemRunEnvEntries :: "env_tools \<Rightarrow> js_value \<Rightarrow> (string \<times> string) list" where
  "normalizeSystemRunEnvEntries tools env = (case asRecord env of None \<Rightarrow> []
     | Some fs \<Rightarrow> sort_key (\<lambda>kv. collation tools (fst kv)) (List.map_filter env_entry fs))"

definition hashSystemRunEnvEntries :: "env_tools \<Rightarrow> (string \<times> string) list \<Rightarrow> string option" where
  "hashSystemRunEnvEntries tools es = (if length es = 0 then None else Some (sha256_json tools es))"

definition buildSystemRunApprovalEnvBinding :: "env_tools \<Rightarrow> js_value \<Rightarrow> string option \<times> string list" where
  "buildSystemRunApprovalEnvBinding tools env = (let es = normalizeSystemRunEnvEntries tools env in
     (hashSystemRunEnvEntries tools es, map fst es))"

definition buildSystemRunApprovalBinding ::
    "env_tools \<Rightarrow> js_value \<Rightarrow> js_value \<Rightarrow> js_value \<Rightarrow> js_value \<Rightarrow> js_value \<Rightarrow> run_binding \<times> string list" where
  "buildSystemRunApprovalBinding tools argv cwd agentId sessionKey env =
     (let envBinding = buildSystemRunApprovalEnvBinding tools env in
      (\<lparr>rb_argv = normalizeStringArray argv, rb_cwd = normalizeNonEmptyString cwd,
        rb_agentId = normalizeNonEmptyString agentId, rb_sessionKey = normalizeNonEmptyString sessionKey,
        rb_envHash = fst envBinding\<rparr>, snd envBinding))"

definition argvMatches :: "string list \<Rightarrow> string list \<Rightarrow> bool" where
  "argvMatches expectedArgv actualArgv =
     (if length expectedArgv = 0 \<or> length expectedArgv \<noteq> length actualArgv then False
      else list_all2 (=) expectedArgv actualArgv)"

datatype mismatch = Mismatch (mm_code: string) (mm_message: string) (mm_details: "js_fields option")

definition requestMismatch :: "js_fields option \<Rightarrow> mismatch + unit" where
  "requestMismatch details = Inl (Mismatch ''APPROVAL_REQUEST_MISMATCH'' ''approval id does not match request'' details)"

text \<open>A hash that is null or empty is falsy.\<close>

definition truthy_str :: "string option \<Rightarrow> bool" where
  "truthy_str s = (s \<noteq> None \<and> s \<noteq> Some [])"

definition str_array :: "string list \<Rightarrow> js_value" where
  "str_array ss = JArr (map JStr ss)"

definition matchSystemRunApprovalEnvHash :: "string option \<Rightarrow> string option \<Rightarrow> string list \<Rightarrow> mismatch + unit" where
  "matchSystemRunApprovalEnvHash expectedEnvHash actualEnvHash actualEnvKeys =
     (if \<not> truthy_str expectedEnvHash \<and> \<not> truthy_str actualEnvHash then Inr ()
      else if \<not> truthy_str expectedEnvHash \<and> truthy_str actualEnvHash then
        Inl (Mismatch ''APPROVAL_ENV_BINDING_MISSING''
          ''approval id missing env binding for requested env overrides''
          (Some [(''envKeys'', str_array actualEnvKeys)]))
      else if expectedEnvHash \<noteq> actualEnvHash then
        Inl (Mismatch ''APPROVAL_ENV_MISMATCH'' ''approval id env binding mismatch''
          (Some [(''envKeys'', str_array actualEnvKeys), (''expectedEnvHash'', opt_value expectedEnvHash),
                 (''actualEnvHash'', opt_value actualEnvHash)]))
      else Inr ())"

definition matchSystemRunApprovalBinding :: "run_binding \<Rightarrow> run_binding \<Rightarrow> string list \<Rightarrow> mismatch + unit" where
  "matchSystemRunApprovalBinding expected actual actualEnvKeys =
     (if \<not> argvMatches (rb_argv expected) (rb_argv actual) then requestMismatch None
      else if rb_cwd expected \<noteq> rb_cwd actual then requestMismatch None
      else if rb_agentId expected \<noteq> rb_agentId actual then requestMismatch None
      else if rb_sessionKey expected \<noteq> rb_sessionKey actual then requestMismatch None
      else matchSystemRunApprovalEnvHash (rb_envHash expected) (rb_envHash actual) actualEnvKeys)"

definition missingSystemRunApprovalBinding :: "string list \<Rightarrow> mismatch + unit" where
  "missingSystemRunApprovalBinding actualEnvKeys = requestMismatch (Some [(''envKeys'', str_array actualEnvKeys)])"

text \<open>An error answer: its message and its details.\<close>

type_synonym guard_error = "string \<times> js_fields option"

definition toSystemRunApprovalMismatchError :: "string \<Rightarrow> mismatch \<Rightarrow> guard_error" where
  "toSystemRunApprovalMismatchError runId m =
     (mm_message m, Some ([(''code'', JStr (mm_code m)), (''runId'', JStr runId)] @ nullish (mm_details m) []))"

definition systemRunApprovalGuardError :: "string \<Rightarrow> string \<Rightarrow> js_fields option \<Rightarrow> guard_error" where
  "systemRunApprovalGuardError code message details = (message, Some ((''code'', JStr code) # nullish details []))"

definition systemRunApprovalRequired :: "string \<Rightarrow> guard_error" where
  "systemRunApprovalRequired runId =
     systemRunApprovalGuardError ''APPROVAL_REQUIRED'' ''approval required'' (Some [(''runId'', JStr runId)])"

section \<open>Approval records and their manager\<close>

datatype decision = AllowOnce | AllowAlways | Deny

record approval_request =
  aq_command :: string
  aq_commandArgv :: "string list option"
  aq_envKeys :: "string list option"
  aq_binding :: "run_binding option"
  aq_plan :: "run_plan option"
  aq_cwd :: "string option"
  aq_nodeId :: "string option"
  aq_host :: "string option"
  aq_security :: "string option"
  aq_ask :: "string option"
  aq_agentId :: "string option"
  aq_resolvedPath :: "string option"
  aq_sessionKey :: "string option"
  aq_turnSourceChannel :: "string option"
  aq_turnSourceTo :: "string option"
  aq_turnSourceAccountId :: "string option"
  aq_turnSourceThreadId :: "string option"

text \<open>\<open>resolvedBy\<close> is undefined (None), null (Some None) or a name.\<close>

record approval_record =
  ar_id :: string
  ar_request :: approval_request
  ar_createdAtMs :: int
  ar_expiresAtMs :: int
  ar_requestedByConnId :: "string option"
  ar_requestedByDeviceId :: "string option"
  ar_requestedByClientId :: "string option"
  ar_resolvedAtMs :: "int option"
  ar_decision :: "decision option"
  ar_resolvedBy :: "string option option"

text \<open>An entry has an identity, which its promise, its timers and the grace check refer to.\<close>

record pending_entry =
  pe_uid :: nat
  pe_record :: approval_record

datatype armed_timer = ExpireTimer string nat | GraceTimer string nat

text \<open>The manager: entries, armed timers, settled promises with their value, next identity.\<close>

record manager =
  mg_pending :: "(string, pending_entry) js_map"
  mg_timers :: "armed_timer list"
  mg_settled :: "(nat \<times> decision option) list"
  mg_next :: nat

definition RESOLVED_ENTRY_GRACE_MS :: int where
  "RESOLVED_ENTRY_GRACE_MS = 15000"

definition approval_create :: "approval_request \<Rightarrow> int \<Rightarrow> string option \<Rightarrow> string \<Rightarrow> int \<Rightarrow> approval_record" where
  "approval_create request timeoutMs givenId uuid now =
     \<lparr>ar_id = (case givenId of Some i \<Rightarrow> if length (trim i) > 0 then trim i else uuid | None \<Rightarrow> uuid),
      ar_request = request, ar_createdAtMs = now, ar_expiresAtMs = now + timeoutMs,
      ar_requestedByConnId = None, ar_requestedByDeviceId = None, ar_requestedByClientId = None,
      ar_resolvedAtMs = None, ar_decision = None, ar_resolvedBy = None\<rparr>"

text \<open>The identity of the promise on success; the error message when the id was resolved already.\<close>

definition approval_register :: "approval_record \<Rightarrow> manager \<Rightarrow> (string + nat) \<times> manager" where
  "approval_register r m = (case map_get (mg_pending m) (ar_id r) of
     Some existing \<Rightarrow>
       if ar_resolvedAtMs (pe_record existing) = None then (Inr (pe_uid existing), m)
       else (Inl (''approval id '' @ [CHR 0x27] @ ar_id r @ [CHR 0x27] @ '' already resolved''), m)
   | None \<Rightarrow> (Inr (mg_next m),
       \<lparr>mg_pending = map_set (ar_id r) \<lparr>pe_uid = mg_next m, pe_record = r\<rparr> (mg_pending m),
        mg_timers = ExpireTimer (ar_id r) (mg_next m) # mg_timers m,
        mg_settled = mg_settled m, mg_next = mg_next m + 1\<rparr>))"

text \<open>What resolve and expire share: the entry is closed, its promise settled, the grace timer armed.\<close>

definition approval_close :: "string \<Rightarrow> pending_entry \<Rightarrow> decision option \<Rightarrow> string option \<Rightarrow> int \<Rightarrow> manager \<Rightarrow> manager" where
  "approval_close recordId e d resolvedBy now m =
     m\<lparr>mg_pending := map_set recordId (e\<lparr>pe_record := (pe_record e)
          \<lparr>ar_resolvedAtMs := Some now, ar_decision := d, ar_resolvedBy := Some resolvedBy\<rparr>\<rparr>) (mg_pending m),
       mg_timers := GraceTimer recordId (pe_uid e) #
          filter (\<lambda>t. \<not> (case t of ExpireTimer _ u \<Rightarrow> u = pe_uid e | GraceTimer _ _ \<Rightarrow> False)) (mg_timers m),
       mg_settled := mg_settled m @ [(pe_uid e, d)]\<rparr>"

definition approval_resolve :: "string \<Rightarrow> decision \<Rightarrow> string option \<Rightarrow> int \<Rightarrow> manager \<Rightarrow> bool \<times> manager" where
  "approval_resolve recordId d resolvedBy now m = (case map_get (mg_pending m) recordId of
     None \<Rightarrow> (False, m)
   | Some e \<Rightarrow> if ar_resolvedAtMs (pe_record e) \<noteq> None then (False, m)
               else (True, approval_close recordId e (Some d) resolvedBy now m))"

definition approval_expire :: "string \<Rightarrow> string option \<Rightarrow> int \<Rightarrow> manager \<Rightarrow> bool \<times> manager" where
  "approval_expire recordId resolvedBy now m = (case map_get (mg_pending m) recordId of
     None \<Rightarrow> (False, m)
   | Some e \<Rightarrow> if ar_resolvedAtMs (pe_record e) \<noteq> None then (False, m)
               else (True, approval_close recordId e None resolvedBy now m))"

text \<open>A timer fires: it is no longer armed, and its callback runs.\<close>

definition approval_fire :: "armed_timer \<Rightarrow> int \<Rightarrow> manager \<Rightarrow> manager" where
  "approval_fire t now m = (let m1 = m\<lparr>mg_timers := remove1 t (mg_timers m)\<rparr> in case t of
     ExpireTimer recordId _ \<Rightarrow> snd (approval_expire recordId None now m1)
   | GraceTimer recordId uid \<Rightarrow>
       (case map_get (mg_pending m1) recordId of
          Some e \<Rightarrow> if pe_uid e = uid then m1\<lparr>mg_pending := map_delete recordId (mg_pending m1)\<rparr> else m1
        | None \<Rightarrow> m1))"

definition getSnapshot :: "manager \<Rightarrow> string \<Rightarrow> approval_record option" where
  "getSnapshot m recordId = map_option pe_record (map_get (mg_pending m) recordId)"

definition consumeAllowOnce :: "string \<Rightarrow> manager \<Rightarrow> bool \<times> manager" where
  "consumeAllowOnce recordId m = (case map_get (mg_pending m) recordId of
     None \<Rightarrow> (False, m)
   | Some e \<Rightarrow> if ar_decision (pe_record e) \<noteq> Some AllowOnce then (False, m)
               else (True, m\<lparr>mg_pending := map_set recordId (e\<lparr>pe_record := (pe_record e)\<lparr>ar_decision := None\<rparr>\<rparr>) (mg_pending m)\<rparr>))"

definition awaitDecision :: "manager \<Rightarrow> string \<Rightarrow> nat option" where
  "awaitDecision m recordId = map_option pe_uid (map_get (mg_pending m) recordId)"

section \<open>Life cycle of an approval\<close>

definition empty_manager :: manager where
  "empty_manager = \<lparr>mg_pending = [], mg_timers = [], mg_settled = [], mg_next = 0\<rparr>"

text \<open>
  What can happen to a manager, in any order and at any times; the list holds the identities of
  the approvals that were consumed as one-time approvals, the latest first.
\<close>

inductive approval_run :: "manager \<Rightarrow> nat list \<Rightarrow> bool" where
  run_empty: "approval_run empty_manager []"
| run_register: "approval_run m used \<Longrightarrow> ar_resolvedAtMs r = None \<Longrightarrow> ar_decision r = None \<Longrightarrow>
    approval_run (snd (approval_register r m)) used"
| run_resolve: "approval_run m used \<Longrightarrow> approval_run (snd (approval_resolve i d by now m)) used"
| run_expire: "approval_run m used \<Longrightarrow> approval_run (snd (approval_expire i by now m)) used"
| run_fire: "approval_run m used \<Longrightarrow> t \<in> set (mg_timers m) \<Longrightarrow> approval_run (approval_fire t now m) used"
| run_consume: "approval_run m used \<Longrightarrow> consumeAllowOnce i m = (True, m') \<Longrightarrow> map_get (mg_pending m) i = Some e \<Longrightarrow>
    approval_run m' (pe_uid e # used)"

definition open_entry :: "pending_entry \<Rightarrow> bool" where
  "open_entry e = (ar_resolvedAtMs (pe_record e) = None)"

definition unique_ids :: "(string, pending_entry) js_map \<Rightarrow> bool" where
  "unique_ids p \<longleftrightarrow> (\<forall>k e k' e'. map_get p k = Some e \<longrightarrow> map_get p k' = Some e' \<longrightarrow> pe_uid e = pe_uid e' \<longrightarrow> k = k')"

lemma unique_idsD: "unique_ids p \<Longrightarrow> map_get p k = Some e \<Longrightarrow> map_get p k' = Some e' \<Longrightarrow> k' \<noteq> k \<Longrightarrow> pe_uid e' \<noteq> pe_uid e"
  unfolding unique_ids_def by metis

lemma unique_ids_set:
  assumes "unique_ids p" "\<And>k e'. map_get p k = Some e' \<Longrightarrow> k \<noteq> i \<Longrightarrow> pe_uid e' \<noteq> pe_uid e"
  shows "unique_ids (map_set i e p)"
  unfolding unique_ids_def
proof (intro allI impI)
  fix k a k' b
  assume a: "map_get (map_set i e p) k = Some a" and b: "map_get (map_set i e p) k' = Some b" and u: "pe_uid a = pe_uid b"
  show "k = k'"
  proof (cases "k = i")
    case True
    with a b u assms(2) [of k' b] show ?thesis by (cases "k' = i") auto
  next
    case False
    with a b u assms(2) [of k a] unique_idsD [OF assms(1), of k a k' b] show ?thesis by (cases "k' = i") auto
  qed
qed

lemma unique_ids_delete: "unique_ids p \<Longrightarrow> unique_ids (map_delete i p)"
  unfolding unique_ids_def by (metis map_get_delete option.distinct(1))

definition ids_ok :: "manager \<Rightarrow> bool" where
  "ids_ok m \<longleftrightarrow> unique_ids (mg_pending m) \<and> (\<forall>k e. map_get (mg_pending m) k = Some e \<longrightarrow> pe_uid e < mg_next m) \<and>
     (\<forall>s \<in> set (mg_settled m). fst s < mg_next m) \<and> distinct (map fst (mg_settled m))"

definition entries_ok :: "manager \<Rightarrow> nat list \<Rightarrow> bool" where
  "entries_ok m used \<longleftrightarrow> (\<forall>k e. map_get (mg_pending m) k = Some e \<longrightarrow>
     (if open_entry e then ar_decision (pe_record e) = None \<and> pe_uid e \<notin> fst ` set (mg_settled m)
      else \<exists>d. (pe_uid e, d) \<in> set (mg_settled m) \<and>
        ar_decision (pe_record e) = (if pe_uid e \<in> set used then None else d)))"

definition used_ok :: "manager \<Rightarrow> nat list \<Rightarrow> bool" where
  "used_ok m used \<longleftrightarrow> distinct used \<and> (\<forall>u \<in> set used. (u, Some AllowOnce) \<in> set (mg_settled m))"

definition timers_ok :: "manager \<Rightarrow> bool" where
  "timers_ok m \<longleftrightarrow> (\<forall>k e. map_get (mg_pending m) k = Some e \<longrightarrow>
       (if open_entry e then ExpireTimer k (pe_uid e) \<in> set (mg_timers m) else GraceTimer k (pe_uid e) \<in> set (mg_timers m))) \<and>
     (\<forall>k u. ExpireTimer k u \<in> set (mg_timers m) \<longrightarrow> (\<exists>e. map_get (mg_pending m) k = Some e \<and> pe_uid e = u \<and> open_entry e)) \<and>
     (\<forall>k u. GraceTimer k u \<in> set (mg_timers m) \<longrightarrow> u \<in> fst ` set (mg_settled m))"

lemma grace_timerD: "timers_ok m \<Longrightarrow> GraceTimer k u \<in> set (mg_timers m) \<Longrightarrow> u \<in> fst ` set (mg_settled m)"
  by (auto simp: timers_ok_def)

lemma expire_timerD:
  "timers_ok m \<Longrightarrow> ExpireTimer k u \<in> set (mg_timers m) \<Longrightarrow>
   \<exists>e. map_get (mg_pending m) k = Some e \<and> pe_uid e = u \<and> open_entry e"
  by (simp add: timers_ok_def)

lemma timers_okI:
  assumes "\<And>k e. map_get (mg_pending m) k = Some e \<Longrightarrow> open_entry e \<Longrightarrow> ExpireTimer k (pe_uid e) \<in> set (mg_timers m)"
    and "\<And>k e. map_get (mg_pending m) k = Some e \<Longrightarrow> \<not> open_entry e \<Longrightarrow> GraceTimer k (pe_uid e) \<in> set (mg_timers m)"
    and "\<And>k u. ExpireTimer k u \<in> set (mg_timers m) \<Longrightarrow> \<exists>e. map_get (mg_pending m) k = Some e \<and> pe_uid e = u \<and> open_entry e"
    and "\<And>k u. GraceTimer k u \<in> set (mg_timers m) \<Longrightarrow> u \<in> fst ` set (mg_settled m)"
  shows "timers_ok m"
  using assms by (simp add: timers_ok_def)

lemma timers_okD:
  "timers_ok m \<Longrightarrow> map_get (mg_pending m) k = Some e \<Longrightarrow>
   if open_entry e then ExpireTimer k (pe_uid e) \<in> set (mg_timers m) else GraceTimer k (pe_uid e) \<in> set (mg_timers m)"
  by (simp add: timers_ok_def)

definition manager_ok :: "manager \<Rightarrow> nat list \<Rightarrow> bool" where
  "manager_ok m used \<longleftrightarrow> ids_ok m \<and> entries_ok m used \<and> used_ok m used \<and> timers_ok m"

lemmas manager_ok_defs = manager_ok_def ids_ok_def entries_ok_def used_ok_def timers_ok_def

lemma register_ok:
  assumes "manager_ok m used" "ar_resolvedAtMs r = None" "ar_decision r = None"
  shows "manager_ok (snd (approval_register r m)) used"
proof (cases "map_get (mg_pending m) (ar_id r)")
  case (Some e)
  with assms show ?thesis by (simp add: approval_register_def)
next
  case None
  have ids: "ids_ok m" "entries_ok m used" "used_ok m used" "timers_ok m" using assms(1) by (simp_all add: manager_ok_def)
  have other: "pe_uid e' \<noteq> mg_next m" if "map_get (mg_pending m) k = Some e'" for k e'
    using ids(1) that unfolding ids_ok_def by (metis less_irrefl)
  have "ids_ok (snd (approval_register r m))"
    using ids(1) None other
    by (auto simp: approval_register_def ids_ok_def less_SucI intro!: unique_ids_set)
  moreover have "entries_ok (snd (approval_register r m)) used"
    using ids(1,2) None assms(2,3)
    by (auto simp: approval_register_def entries_ok_def ids_ok_def open_entry_def)
  moreover have "used_ok (snd (approval_register r m)) used"
    using ids(3) None by (simp add: approval_register_def used_ok_def)
  moreover have "timers_ok (snd (approval_register r m))"
    using timers_okD [OF ids(4)] expire_timerD [OF ids(4)] grace_timerD [OF ids(4)] None assms(2)
    by (intro timers_okI) (fastforce simp: approval_register_def open_entry_def split: if_splits)+
  ultimately show ?thesis by (simp add: manager_ok_def)
qed

lemma close_ok:
  assumes ok: "manager_ok m used" and e: "map_get (mg_pending m) i = Some e" "open_entry e"
  shows "manager_ok (approval_close i e d by now m) used"
proof -
  have ids: "ids_ok m" "entries_ok m used" "used_ok m used" "timers_ok m" using ok by (simp_all add: manager_ok_def)
  from ids(2) e have fresh: "pe_uid e \<notin> fst ` set (mg_settled m)" by (auto simp: entries_ok_def)
  then have unused: "pe_uid e \<notin> set used" using ids(3) by (force simp: used_ok_def)
  have other: "pe_uid e' \<noteq> pe_uid e" if "map_get (mg_pending m) k = Some e'" "k \<noteq> i" for k e'
    using ids(1) unique_idsD [OF _ e(1) that] unfolding ids_ok_def by blast
  have "ids_ok (approval_close i e d by now m)"
    using ids(1) e fresh other
    by (auto simp: ids_ok_def approval_close_def intro!: unique_ids_set)
  moreover have "entries_ok (approval_close i e d by now m) used"
    unfolding entries_ok_def
  proof (intro allI impI)
    fix k a
    assume a: "map_get (mg_pending (approval_close i e d by now m)) k = Some a"
    show "if open_entry a then ar_decision (pe_record a) = None \<and> pe_uid a \<notin> fst ` set (mg_settled (approval_close i e d by now m))
      else \<exists>d'. (pe_uid a, d') \<in> set (mg_settled (approval_close i e d by now m)) \<and>
        ar_decision (pe_record a) = (if pe_uid a \<in> set used then None else d')"
    proof (cases "k = i")
      case True
      with a unused show ?thesis by (auto simp: approval_close_def open_entry_def)
    next
      case False
      with a have old: "map_get (mg_pending m) k = Some a" by (simp add: approval_close_def)
      from ids(2) [unfolded entries_ok_def, rule_format, OF old] other [OF old False] show ?thesis
        by (auto simp: approval_close_def split: if_splits)
    qed
  qed
  moreover have "used_ok (approval_close i e d by now m) used"
    using ids(3) by (auto simp: used_ok_def approval_close_def)
  moreover have "timers_ok (approval_close i e d by now m)"
  proof (rule timers_okI)
    let ?m = "approval_close i e d by now m"
    show "ExpireTimer k (pe_uid a) \<in> set (mg_timers ?m)" if "map_get (mg_pending ?m) k = Some a" "open_entry a" for k a
    proof -
      from that have "k \<noteq> i" "map_get (mg_pending m) k = Some a" by (auto simp: approval_close_def open_entry_def split: if_splits)
      with timers_okD [OF ids(4) this(2)] other [OF this(2) this(1)] that show ?thesis by (simp add: approval_close_def)
    qed
    show "GraceTimer k (pe_uid a) \<in> set (mg_timers ?m)" if "map_get (mg_pending ?m) k = Some a" "\<not> open_entry a" for k a
    proof (cases "k = i")
      case False
      with that have "map_get (mg_pending m) k = Some a" by (simp add: approval_close_def)
      with timers_okD [OF ids(4) this] that show ?thesis by (simp add: approval_close_def)
    qed (use that in \<open>simp add: approval_close_def\<close>, auto)
    show "\<exists>a. map_get (mg_pending ?m) k = Some a \<and> pe_uid a = u \<and> open_entry a" if "ExpireTimer k u \<in> set (mg_timers ?m)" for k u
    proof -
      from that have t: "ExpireTimer k u \<in> set (mg_timers m)" "u \<noteq> pe_uid e" by (auto simp: approval_close_def)
      from expire_timerD [OF ids(4) t(1)] t(2) e(1) show ?thesis by (auto simp: approval_close_def)
    qed
    show "u \<in> fst ` set (mg_settled ?m)" if "GraceTimer k u \<in> set (mg_timers ?m)" for k u
      using that grace_timerD [OF ids(4), of k u] by (auto simp: approval_close_def)
  qed
  ultimately show ?thesis by (simp add: manager_ok_def)
qed

lemma consume_ok:
  assumes ok: "manager_ok m used" and "consumeAllowOnce i m = (True, m')" "map_get (mg_pending m) i = Some e"
  shows "manager_ok m' (pe_uid e # used)"
proof -
  have ids: "ids_ok m" "entries_ok m used" "used_ok m used" "timers_ok m" using ok by (simp_all add: manager_ok_def)
  let ?e = "e\<lparr>pe_record := (pe_record e)\<lparr>ar_decision := None\<rparr>\<rparr>"
  from assms(2,3) have d: "ar_decision (pe_record e) = Some AllowOnce"
    and m': "m' = m\<lparr>mg_pending := map_set i ?e (mg_pending m)\<rparr>"
    by (auto simp: consumeAllowOnce_def split: if_splits)
  from ids(2) assms(3) d have e: "\<not> open_entry e" "pe_uid e \<notin> set used" "(pe_uid e, Some AllowOnce) \<in> set (mg_settled m)"
    unfolding entries_ok_def by (fastforce split: if_splits)+
  have other: "pe_uid e' \<noteq> pe_uid e" if "map_get (mg_pending m) k = Some e'" "k \<noteq> i" for k e'
    using ids(1) unique_idsD [OF _ assms(3) that] unfolding ids_ok_def by blast
  have "ids_ok m'"
    using ids(1) assms(3) other
    by (auto simp: ids_ok_def m' intro!: unique_ids_set)
  moreover have "entries_ok m' (pe_uid e # used)"
    unfolding entries_ok_def
  proof (intro allI impI)
    fix k a
    assume a: "map_get (mg_pending m') k = Some a"
    show "if open_entry a then ar_decision (pe_record a) = None \<and> pe_uid a \<notin> fst ` set (mg_settled m')
      else \<exists>d'. (pe_uid a, d') \<in> set (mg_settled m') \<and>
        ar_decision (pe_record a) = (if pe_uid a \<in> set (pe_uid e # used) then None else d')"
    proof (cases "k = i")
      case True
      with a e show ?thesis by (auto simp: m' open_entry_def)
    next
      case False
      with a have old: "map_get (mg_pending m) k = Some a" by (simp add: m')
      from ids(2) [unfolded entries_ok_def, rule_format, OF old] other [OF old False] show ?thesis
        by (auto simp: m' split: if_splits)
    qed
  qed
  moreover have "used_ok m' (pe_uid e # used)"
    using ids(3) e by (auto simp: used_ok_def m')
  moreover have "timers_ok m'"
    using timers_okD [OF ids(4)] expire_timerD [OF ids(4)] grace_timerD [OF ids(4)] assms(3) e
    by (intro timers_okI) (fastforce simp: m' open_entry_def split: if_splits)+
  ultimately show ?thesis by (simp add: manager_ok_def)
qed

lemma fire_expire:
  assumes ok: "manager_ok m used" and t: "ExpireTimer k u \<in> set (mg_timers m)"
  obtains e where "map_get (mg_pending m) k = Some e" "pe_uid e = u" "open_entry e"
    "approval_fire (ExpireTimer k u) now m = approval_close k e None None now m"
proof -
  from ok have "timers_ok m" by (simp add: manager_ok_def)
  from expire_timerD [OF this t] obtain e where e: "map_get (mg_pending m) k = Some e" "pe_uid e = u" "open_entry e" by auto
  then have "approval_fire (ExpireTimer k u) now m = approval_close k e None None now m"
    by (simp add: approval_fire_def approval_expire_def approval_close_def open_entry_def filter_remove1 remove1_filter_not)
  with e show thesis by (rule that)
qed

lemma fire_grace_ok:
  assumes ok: "manager_ok m used" and t: "GraceTimer k u \<in> set (mg_timers m)"
  shows "manager_ok (approval_fire (GraceTimer k u) now m) used"
proof -
  let ?m = "approval_fire (GraceTimer k u) now m"
  have ids: "ids_ok m" "entries_ok m used" "used_ok m used" "timers_ok m" using ok by (simp_all add: manager_ok_def)
  have settled: "mg_settled ?m = mg_settled m" and timers: "mg_timers ?m = remove1 (GraceTimer k u) (mg_timers m)"
    and mnext: "mg_next ?m = mg_next m"
    by (simp_all add: approval_fire_def Let_def split: option.splits)
  have kept: "map_get (mg_pending m) k' = Some a \<and> (k' \<noteq> k \<or> pe_uid a \<noteq> u)"
    if "map_get (mg_pending ?m) k' = Some a" for k' a
    using that by (auto simp: approval_fire_def Let_def split: option.splits if_splits)
  have gone: "map_get (mg_pending ?m) k' = Some a" if "map_get (mg_pending m) k' = Some a" "k' \<noteq> k \<or> pe_uid a \<noteq> u" for k' a
    using that by (auto simp: approval_fire_def Let_def split: option.splits if_splits)
  have "unique_ids (mg_pending ?m)"
    using ids(1) by (auto simp: ids_ok_def approval_fire_def Let_def unique_ids_delete split: option.splits if_splits)
  then have "ids_ok ?m" using ids(1) kept unfolding ids_ok_def settled mnext by blast
  moreover have "entries_ok ?m used" using ids(2) kept unfolding entries_ok_def settled by blast
  moreover have "used_ok ?m used" using ids(3) by (simp add: used_ok_def settled)
  moreover have "timers_ok ?m"
  proof (rule timers_okI)
    show "ExpireTimer k' (pe_uid a) \<in> set (mg_timers ?m)" if "map_get (mg_pending ?m) k' = Some a" "open_entry a" for k' a
      using timers_okD [OF ids(4), of k' a] kept [OF that(1)] that by (simp add: timers in_set_remove1)
    show "GraceTimer k' (pe_uid a) \<in> set (mg_timers ?m)" if "map_get (mg_pending ?m) k' = Some a" "\<not> open_entry a" for k' a
    proof -
      from kept [OF that(1)] have "GraceTimer k' (pe_uid a) \<noteq> GraceTimer k u" by auto
      with timers_okD [OF ids(4), of k' a] kept [OF that(1)] that show ?thesis by (simp add: timers in_set_remove1)
    qed
    show "\<exists>a. map_get (mg_pending ?m) k' = Some a \<and> pe_uid a = v \<and> open_entry a" if "ExpireTimer k' v \<in> set (mg_timers ?m)" for k' v
    proof -
      from that have "ExpireTimer k' v \<in> set (mg_timers m)" by (simp add: timers in_set_remove1)
      from expire_timerD [OF ids(4) this] obtain a where a: "map_get (mg_pending m) k' = Some a" "pe_uid a = v" "open_entry a" by auto
      from ids(2) a have "v \<notin> fst ` set (mg_settled m)" unfolding entries_ok_def by (auto split: if_splits)
      with grace_timerD [OF ids(4) t] a have "pe_uid a \<noteq> u" by auto
      with gone [OF a(1)] a show ?thesis by auto
    qed
    show "v \<in> fst ` set (mg_settled ?m)" if "GraceTimer k' v \<in> set (mg_timers ?m)" for k' v
      using that grace_timerD [OF ids(4), of k' v] set_remove1_subset [of "GraceTimer k u" "mg_timers m"]
      by (auto simp: timers settled)
  qed
  ultimately show ?thesis by (simp add: manager_ok_def)
qed

lemma approval_run_ok: "approval_run m used \<Longrightarrow> manager_ok m used"
proof (induction rule: approval_run.induct)
  case run_empty
  show ?case by (simp add: manager_ok_def ids_ok_def unique_ids_def entries_ok_def used_ok_def timers_ok_def empty_manager_def)
next
  case (run_register m used r)
  then show ?case by (intro register_ok)
next
  case (run_resolve m used i d who now)
  then show ?case by (auto simp: approval_resolve_def open_entry_def intro: close_ok split: option.splits)
next
  case (run_expire m used i who now)
  then show ?case by (auto simp: approval_expire_def open_entry_def intro: close_ok split: option.splits)
next
  case (run_fire m used t now)
  show ?case
  proof (cases t)
    case (ExpireTimer k u)
    with run_fire fire_expire [of m used k u now] close_ok show ?thesis by metis
  next
    case (GraceTimer k u)
    with run_fire fire_grace_ok show ?thesis by blast
  qed
next
  case (run_consume m used i m' e)
  then show ?case by (intro consume_ok)
qed

text \<open>A request and the states of a manager that hears of it, for examples.\<close>

definition sample_request :: approval_request where
  "sample_request = \<lparr>aq_command = ''ls'', aq_commandArgv = Some [''ls''], aq_envKeys = None,
     aq_binding = Some \<lparr>rb_argv = [''ls''], rb_cwd = None, rb_agentId = None, rb_sessionKey = None, rb_envHash = None\<rparr>,
     aq_plan = Some \<lparr>rp_argv = [''ls''], rp_cwd = None, rp_rawCommand = None, rp_agentId = None, rp_sessionKey = None\<rparr>,
     aq_cwd = None, aq_nodeId = Some ''n1'', aq_host = Some ''node'', aq_security = None, aq_ask = None, aq_agentId = None,
     aq_resolvedPath = None, aq_sessionKey = None, aq_turnSourceChannel = None, aq_turnSourceTo = None,
     aq_turnSourceAccountId = None, aq_turnSourceThreadId = None\<rparr>"

definition sample_record :: approval_record where
  "sample_record = approval_create sample_request 1000 (Some ''r1'') ''u'' 0"

definition sample_registered :: manager where
  "sample_registered = snd (approval_register sample_record empty_manager)"

definition sample_resolved :: "string option \<Rightarrow> manager" where
  "sample_resolved name = snd (approval_resolve ''r1'' AllowOnce name 5 sample_registered)"

lemma sample_runs: "approval_run sample_registered []" "approval_run (sample_resolved name) []"
proof -
  show reg: "approval_run sample_registered []"
    unfolding sample_registered_def
    by (rule run_register [OF run_empty]) (simp_all add: sample_record_def approval_create_def)
  show "approval_run (sample_resolved name) []"
    unfolding sample_resolved_def by (rule run_resolve [OF reg])
qed

lemma sample_record_id [simp]: "ar_id sample_record = ''r1''" "ar_resolvedAtMs sample_record = None"
  "ar_request sample_record = sample_request" "ar_expiresAtMs sample_record = 1000"
  "ar_requestedByDeviceId sample_record = None" "ar_requestedByConnId sample_record = None"
  by (simp_all add: sample_record_def approval_create_def str_eval)

lemma sample_entries:
  "mg_pending sample_registered = [(''r1'', \<lparr>pe_uid = 0, pe_record = sample_record\<rparr>)]"
  "mg_pending (sample_resolved name) = [(''r1'', \<lparr>pe_uid = 0, pe_record = sample_record
     \<lparr>ar_resolvedAtMs := Some 5, ar_decision := Some AllowOnce, ar_resolvedBy := Some name\<rparr>\<rparr>)]"
  by (simp_all add: sample_resolved_def sample_registered_def approval_register_def empty_manager_def
      approval_resolve_def approval_close_def)

text \<open>
  C2: An approval is decided once and used once. However registrations, decisions, expiries,
  timers and uses interleave, every promise is settled at most once; the decision an entry shows
  is the one its promise was settled with, until it is consumed; a one-time approval is consumed
  at most once, and only if it was settled as such; an undecided entry shows no decision.
\<close>

theorem approval_decided_and_used_once:
  assumes "approval_run m used"
  shows "distinct (map fst (mg_settled m)) \<and> distinct used \<and>
    list_all (\<lambda>u. (u, Some AllowOnce) \<in> set (mg_settled m)) used \<and>
    (map_get (mg_pending m) i = Some e \<longrightarrow> ar_decision (pe_record e) = Some d \<longrightarrow>
      (pe_uid e, Some d) \<in> set (mg_settled m) \<and> pe_uid e \<notin> set used) \<and>
    (map_get (mg_pending m) i = Some e \<longrightarrow> ar_resolvedAtMs (pe_record e) = None \<longrightarrow>
      ar_decision (pe_record e) = None \<and> pe_uid e \<notin> fst ` set (mg_settled m))"
proof -
  from approval_run_ok [OF assms] have ids: "ids_ok m" "entries_ok m used" "used_ok m used" by (simp_all add: manager_ok_def)
  have entry: "if open_entry e then ar_decision (pe_record e) = None \<and> pe_uid e \<notin> fst ` set (mg_settled m)
     else \<exists>d. (pe_uid e, d) \<in> set (mg_settled m) \<and> ar_decision (pe_record e) = (if pe_uid e \<in> set used then None else d)"
    if "map_get (mg_pending m) i = Some e" using ids(2) that by (simp add: entries_ok_def)
  show ?thesis
    using ids(1,3) entry by (auto simp: ids_ok_def used_ok_def list_all_iff open_entry_def split: if_splits)
qed

lemma approval_decided_and_used_once_witness:
  "distinct (map fst (mg_settled (sample_resolved None))) \<and> (0, Some AllowOnce) \<in> set (mg_settled (sample_resolved None))"
  using approval_decided_and_used_once [OF sample_runs(2) [of None], where i = "''r1''" and d = AllowOnce,
      of "\<lparr>pe_uid = 0, pe_record = sample_record
        \<lparr>ar_resolvedAtMs := Some 5, ar_decision := Some AllowOnce, ar_resolvedBy := Some None\<rparr>\<rparr>"]
  by (simp add: sample_entries)

text \<open>
  C10: No approval waits for ever and none stays for ever. In every reachable state an
  undecided entry has its expiry timer armed, and when that fires the promise of this very entry
  is settled with no decision; a decided entry has its grace timer armed, and when that fires
  the entry is gone.
\<close>

theorem approval_timers_complete:
  assumes "approval_run m used" and "map_get (mg_pending m) i = Some e"
  shows "if ar_resolvedAtMs (pe_record e) = None
    then ExpireTimer i (pe_uid e) \<in> set (mg_timers m) \<and>
      (pe_uid e, None) \<in> set (mg_settled (approval_fire (ExpireTimer i (pe_uid e)) now m))
    else GraceTimer i (pe_uid e) \<in> set (mg_timers m) \<and>
      map_get (mg_pending (approval_fire (GraceTimer i (pe_uid e)) now m)) i = None"
proof -
  from approval_run_ok [OF assms(1)] have "timers_ok m" by (simp add: manager_ok_def)
  from timers_okD [OF this assms(2)] assms(2) show ?thesis
    by (auto simp: open_entry_def approval_fire_def approval_expire_def approval_close_def Let_def)
qed

lemma approval_timers_complete_witness:
  "ExpireTimer ''r1'' 0 \<in> set (mg_timers sample_registered) \<and>
   (0, None) \<in> set (mg_settled (approval_fire (ExpireTimer ''r1'' 0) 1000 sample_registered))"
  using approval_timers_complete [OF sample_runs(1), of "''r1''" "\<lparr>pe_uid = 0, pe_record = sample_record\<rparr>" 1000]
  by (simp add: sample_entries)

end
