(* ===== verification/RunGuard.thy ===== *)
theory RunGuard
  imports ExecApprovals
begin

text \<open>
  The use of approvals: how a request for an approval is recorded and resolved
  (src/gateway/server-methods/exec-approval.ts), what a command is approved for
  (src/infra/system-run-approval-context.ts, src/gateway/node-invoke-system-run-approval-match.ts),
  and the guard in front of system.run on a node (src/gateway/node-invoke-system-run-approval.ts).
\<close>

section \<open>The context of an approval\<close>

text \<open>\<open>String(v)\<close> of the elements of an array; None when the value is not an array.\<close>

definition command_array :: "js_value \<Rightarrow> string list option" where
  "command_array v = (case v of JArr vs \<Rightarrow> Some (map js_string vs) | _ \<Rightarrow> None)"

definition raw_text :: "js_value \<Rightarrow> string option" where
  "raw_text v = (case v of JStr s \<Rightarrow> Some s | _ \<Rightarrow> None)"

definition command_guard_error :: "command_error \<Rightarrow> guard_error" where
  "command_guard_error e = (command_error_message e, Some (case e of
     RawCommandMismatch raw inferred \<Rightarrow>
       [(''code'', JStr ''RAW_COMMAND_MISMATCH''), (''rawCommand'', JStr raw), (''inferred'', JStr inferred)]
   | MissingCommand \<Rightarrow> [(''code'', JStr ''MISSING_COMMAND'')]))"

definition normalizeCommandText :: "js_value \<Rightarrow> string" where
  "normalizeCommandText v = (case v of JStr s \<Rightarrow> s | _ \<Rightarrow> [])"

definition parsePreparedSystemRunPayload :: "js_value \<Rightarrow> (string \<times> run_plan) option" where
  "parsePreparedSystemRunPayload payload = (case asRecord payload of None \<Rightarrow> None
     | Some raw \<Rightarrow> (case (normalizeNonEmptyString (field raw ''cmdText''), normalizeSystemRunApprovalPlan (field raw ''plan'')) of
         (Some cmdText, Some plan) \<Rightarrow> Some (cmdText, plan) | _ \<Rightarrow> None))"

record request_context =
  rx_plan :: "run_plan option"
  rx_commandArgv :: "string list option"
  rx_commandText :: string
  rx_cwd :: "string option"
  rx_agentId :: "string option"
  rx_sessionKey :: "string option"

definition resolveSystemRunApprovalRequestContext ::
    "js_value \<Rightarrow> js_value \<Rightarrow> js_value \<Rightarrow> js_value \<Rightarrow> js_value \<Rightarrow> js_value \<Rightarrow> js_value \<Rightarrow> request_context" where
  "resolveSystemRunApprovalRequestContext host command commandArgv systemRunPlan cwd agentId sessionKey = (let
     hostName = nullish (normalizeNonEmptyString host) [];
     plan = (if hostName = ''node'' then normalizeSystemRunApprovalPlan systemRunPlan else None);
     fallbackArgv = normalizeStringArray commandArgv;
     fallbackCommand = normalizeCommandText command in
     \<lparr>rx_plan = plan,
      rx_commandArgv = (case plan of Some p \<Rightarrow> Some (rp_argv p)
                        | None \<Rightarrow> if length fallbackArgv > 0 then Some fallbackArgv else None),
      rx_commandText = (case plan of Some p \<Rightarrow> nullish (rp_rawCommand p) (formatExecCommand (rp_argv p)) | None \<Rightarrow> fallbackCommand),
      rx_cwd = nullish_opt (Option.bind plan rp_cwd) (normalizeNonEmptyString cwd),
      rx_agentId = nullish_opt (Option.bind plan rp_agentId) (normalizeNonEmptyString agentId),
      rx_sessionKey = nullish_opt (Option.bind plan rp_sessionKey) (normalizeNonEmptyString sessionKey)\<rparr>)"

record runtime_context =
  ux_plan :: "run_plan option"
  ux_argv :: "string list"
  ux_cwd :: "string option"
  ux_agentId :: "string option"
  ux_sessionKey :: "string option"
  ux_rawCommand :: "string option"

definition resolveSystemRunApprovalRuntimeContext ::
    "js_value \<Rightarrow> js_value \<Rightarrow> js_value \<Rightarrow> js_value \<Rightarrow> js_value \<Rightarrow> js_value \<Rightarrow> guard_error + runtime_context" where
  "resolveSystemRunApprovalRuntimeContext plan command rawCommand cwd agentId sessionKey =
     (case normalizeSystemRunApprovalPlan plan of
        Some p \<Rightarrow> Inr \<lparr>ux_plan = Some p, ux_argv = rp_argv p, ux_cwd = rp_cwd p, ux_agentId = rp_agentId p,
                       ux_sessionKey = rp_sessionKey p, ux_rawCommand = rp_rawCommand p\<rparr>
      | None \<Rightarrow> (case resolveSystemRunCommand (command_array command) (raw_text rawCommand) of
          Inl e \<Rightarrow> Inl (command_guard_error e)
        | Inr c \<Rightarrow> Inr \<lparr>ux_plan = None, ux_argv = rc_argv c, ux_cwd = normalizeNonEmptyString cwd,
                        ux_agentId = normalizeNonEmptyString agentId,
                        ux_sessionKey = normalizeNonEmptyString sessionKey,
                        ux_rawCommand = normalizeNonEmptyString rawCommand\<rparr>))"

definition evaluateSystemRunApprovalMatch ::
    "env_tools \<Rightarrow> string list \<Rightarrow> approval_request \<Rightarrow> string option \<Rightarrow> string option \<Rightarrow> string option \<Rightarrow> js_value \<Rightarrow> mismatch + unit" where
  "evaluateSystemRunApprovalMatch tools argv request cwd agentId sessionKey env =
     (if aq_host request \<noteq> Some ''node'' then requestMismatch None
      else let (actual, envKeys) = buildSystemRunApprovalBinding tools (str_array argv) (opt_value cwd)
                                     (opt_value agentId) (opt_value sessionKey) env in
        (case aq_binding request of
           None \<Rightarrow> missingSystemRunApprovalBinding envKeys
         | Some expected \<Rightarrow> matchSystemRunApprovalBinding expected actual envKeys))"

section \<open>The guard of system.run\<close>

record approval_client =
  ac_connId :: "string option"
  ac_deviceId :: "string option"
  ac_scopes :: "string list"

definition normalizeString :: "js_value \<Rightarrow> string option" where
  "normalizeString v = (case v of JStr s \<Rightarrow> str_opt (trim s) | _ \<Rightarrow> None)"

definition normalizeApprovalDecision :: "js_value \<Rightarrow> decision option" where
  "normalizeApprovalDecision v = (let s = normalizeString v in
     if s = Some ''allow-once'' then Some AllowOnce
     else if s = Some ''allow-always'' then Some AllowAlways else None)"

text \<open>\<open>ac_scopes\<close> is empty when the connection carries no array of scopes.\<close>

definition clientHasApprovals :: "approval_client option \<Rightarrow> bool" where
  "clientHasApprovals client = (let scopes = (case client of None \<Rightarrow> [] | Some c \<Rightarrow> ac_scopes c) in
     ''operator.admin'' \<in> set scopes \<or> ''operator.approvals'' \<in> set scopes)"

definition SYSTEM_RUN_PARAMS :: "string list" where
  "SYSTEM_RUN_PARAMS = [''command'', ''rawCommand'', ''cwd'', ''env'', ''timeoutMs'', ''needsScreenRecording'',
     ''agentId'', ''sessionKey'', ''runId'']"

definition pickSystemRunParams :: "js_fields \<Rightarrow> js_fields" where
  "pickSystemRunParams raw =
     List.map_filter (\<lambda>key. map_option (Pair key) (map_get raw key)) SYSTEM_RUN_PARAMS"

text \<open>\<open>if (v) next.k = v; else delete next.k\<close>.\<close>

definition set_or_delete :: "string \<Rightarrow> string option \<Rightarrow> js_fields \<Rightarrow> js_fields" where
  "set_or_delete k v next = (case v of Some t \<Rightarrow> map_set k (JStr t) next | None \<Rightarrow> map_delete k next)"

definition apply_plan :: "runtime_context \<Rightarrow> js_fields \<Rightarrow> js_fields" where
  "apply_plan ctx next = (case ux_plan ctx of None \<Rightarrow> next
     | Some plan \<Rightarrow>
         set_or_delete ''sessionKey'' (ux_sessionKey ctx) (set_or_delete ''agentId'' (ux_agentId ctx)
           (set_or_delete ''cwd'' (ux_cwd ctx) (set_or_delete ''rawCommand'' (ux_rawCommand ctx)
             (map_set ''command'' (str_array (rp_argv plan)) next)))))"

definition grant :: "string \<Rightarrow> js_fields \<Rightarrow> js_fields" where
  "grant approvalDecision next = map_set ''approvalDecision'' (JStr approvalDecision) (map_set ''approved'' (JBool True) next)"

definition run_id_detail :: "string \<Rightarrow> js_fields option" where
  "run_id_detail runId = Some [(''runId'', JStr runId)]"

text \<open>The checks of expiry, node and caller after the lookup of the snapshot: the error, if any.\<close>

definition guard_identity ::
    "js_value \<Rightarrow> approval_client option \<Rightarrow> int \<Rightarrow> string \<Rightarrow> approval_record \<Rightarrow> guard_error option" where
  "guard_identity nodeId client nowMs runId snapshot =
     (if nowMs > ar_expiresAtMs snapshot then
        Some (systemRunApprovalGuardError ''APPROVAL_EXPIRED'' ''approval expired'' (run_id_detail runId))
      else if normalizeString nodeId = None then
        Some (systemRunApprovalGuardError ''MISSING_NODE_ID'' ''node.invoke requires nodeId'' (run_id_detail runId))
      else if normalizeString (opt_value (aq_nodeId (ar_request snapshot))) = None then
        Some (systemRunApprovalGuardError ''APPROVAL_NODE_BINDING_MISSING'' ''approval id missing node binding'' (run_id_detail runId))
      else if normalizeString (opt_value (aq_nodeId (ar_request snapshot))) \<noteq> normalizeString nodeId then
        Some (systemRunApprovalGuardError ''APPROVAL_NODE_MISMATCH'' ''approval id not valid for this node'' (run_id_detail runId))
      else if truthy_str (ar_requestedByDeviceId snapshot) then
        (if ar_requestedByDeviceId snapshot \<noteq> Option.bind client ac_deviceId then
           Some (systemRunApprovalGuardError ''APPROVAL_DEVICE_MISMATCH'' ''approval id not valid for this device'' (run_id_detail runId))
         else None)
      else if truthy_str (ar_requestedByConnId snapshot) \<and> ar_requestedByConnId snapshot \<noteq> Option.bind client ac_connId then
        Some (systemRunApprovalGuardError ''APPROVAL_CLIENT_MISMATCH'' ''approval id not valid for this client'' (run_id_detail runId))
      else None)"

text \<open>The context and the match of the binding; the result is what is forwarded, still without approval fields.\<close>

definition guard_binding ::
    "env_tools \<Rightarrow> js_fields \<Rightarrow> string \<Rightarrow> approval_record \<Rightarrow> guard_error + js_fields" where
  "guard_binding tools p runId snapshot =
     (case resolveSystemRunApprovalRuntimeContext (plan_value (aq_plan (ar_request snapshot)))
             (field p ''command'') (field p ''rawCommand'') (field p ''cwd'') (field p ''agentId'') (field p ''sessionKey'') of
        Inl e \<Rightarrow> Inl e
      | Inr ctx \<Rightarrow>
          (case evaluateSystemRunApprovalMatch tools (ux_argv ctx) (ar_request snapshot) (ux_cwd ctx)
                  (ux_agentId ctx) (ux_sessionKey ctx) (field p ''env'') of
             Inl m \<Rightarrow> Inl (toSystemRunApprovalMismatchError runId m)
           | Inr _ \<Rightarrow> Inr (apply_plan ctx (pickSystemRunParams p))))"

definition guard_checks ::
    "env_tools \<Rightarrow> js_value \<Rightarrow> js_fields \<Rightarrow> approval_client option \<Rightarrow> int \<Rightarrow> string \<Rightarrow> approval_record \<Rightarrow> guard_error + js_fields" where
  "guard_checks tools nodeId p client nowMs runId snapshot =
     (case guard_identity nodeId client nowMs runId snapshot of
        Some e \<Rightarrow> Inl e | None \<Rightarrow> guard_binding tools p runId snapshot)"

text \<open>The decision that the gateway recorded, enforced.\<close>

definition guard_decision ::
    "bool \<Rightarrow> decision option \<Rightarrow> approval_client option \<Rightarrow> string \<Rightarrow> approval_record \<Rightarrow> js_fields \<Rightarrow> manager \<Rightarrow>
     (guard_error + js_fields) \<times> manager" where
  "guard_decision approved requestedDecision client runId snapshot next m =
     (if ar_decision snapshot = Some AllowOnce then
        (case consumeAllowOnce runId m of
           (False, m1) \<Rightarrow> (Inl (systemRunApprovalRequired runId), m1)
         | (True, m1) \<Rightarrow> (Inr (grant ''allow-once'' next), m1))
      else if ar_decision snapshot = Some AllowAlways then (Inr (grant ''allow-always'' next), m)
      else let timedOut = (ar_resolvedAtMs snapshot \<noteq> None \<and> ar_decision snapshot = None \<and> ar_resolvedBy snapshot = Some None) in
        if timedOut \<and> approved \<and> requestedDecision = Some AllowOnce \<and> clientHasApprovals client
        then (Inr (grant ''allow-once'' next), m)
        else (Inl (systemRunApprovalRequired runId), m))"

definition sanitizeSystemRunParamsForForwarding ::
    "env_tools \<Rightarrow> js_value \<Rightarrow> js_value \<Rightarrow> approval_client option \<Rightarrow> int \<Rightarrow> manager option \<Rightarrow>
     (guard_error + js_value) \<times> manager option" where
  "sanitizeSystemRunParamsForForwarding tools nodeId rawParams client nowMs mgr = (case asRecord rawParams of
     None \<Rightarrow> (Inr rawParams, mgr)
   | Some p \<Rightarrow>
      let approved = (field p ''approved'' = JBool True);
          requestedDecision = normalizeApprovalDecision (field p ''approvalDecision'') in
      if \<not> (approved \<or> requestedDecision \<noteq> None) then
        (case resolveSystemRunCommand (command_array (field p ''command'')) (raw_text (field p ''rawCommand'')) of
           Inl e \<Rightarrow> (Inl (command_guard_error e), mgr)
         | Inr _ \<Rightarrow> (Inr (JObj (pickSystemRunParams p)), mgr))
      else case normalizeString (field p ''runId'') of
        None \<Rightarrow> (Inl (systemRunApprovalGuardError ''MISSING_RUN_ID'' ''approval override requires params.runId'' None), mgr)
      | Some runId \<Rightarrow> (case mgr of
          None \<Rightarrow> (Inl (systemRunApprovalGuardError ''APPROVALS_UNAVAILABLE'' ''exec approvals unavailable'' None), mgr)
        | Some m \<Rightarrow> (case getSnapshot m runId of
            None \<Rightarrow> (Inl (systemRunApprovalGuardError ''UNKNOWN_APPROVAL_ID'' ''unknown or expired approval id'' (run_id_detail runId)), mgr)
          | Some snapshot \<Rightarrow> (case guard_checks tools nodeId p client nowMs runId snapshot of
              Inl e \<Rightarrow> (Inl e, mgr)
            | Inr next \<Rightarrow> (case guard_decision approved requestedDecision client runId snapshot next m of
                (r, m1) \<Rightarrow> (map_sum (\<lambda>e. e) JObj r, Some m1))))))"

section \<open>An example\<close>

definition sample_tools :: env_tools where
  "sample_tools = \<lparr>collation = (\<lambda>_. 0), sha256_json = (\<lambda>_. ''h'')\<rparr>"

definition sample_params :: js_fields where
  "sample_params = [(''command'', str_array [''ls'']), (''runId'', JStr ''r1''), (''approved'', JBool True),
     (''approvalDecision'', JStr ''allow-once''), (''secret'', JNull)]"

definition sample_client :: "approval_client option" where
  "sample_client = Some \<lparr>ac_connId = Some ''c1'', ac_deviceId = None, ac_scopes = [''operator.approvals'']\<rparr>"

definition sample_forwarded :: js_fields where
  "sample_forwarded = [(''command'', str_array [''ls'']), (''runId'', JStr ''r1''), (''approved'', JBool True),
     (''approvalDecision'', JStr ''allow-once'')]"

definition sample_consumed :: "string option \<Rightarrow> manager" where
  "sample_consumed name = snd (consumeAllowOnce ''r1'' (sample_resolved name))"

lemma sample_param_fields:
  "field sample_params ''command'' = str_array [''ls'']" "field sample_params ''runId'' = JStr ''r1''"
  "field sample_params ''approved'' = JBool True" "field sample_params ''approvalDecision'' = JStr ''allow-once''"
  "field sample_params ''rawCommand'' = JUndefined" "field sample_params ''cwd'' = JUndefined"
  "field sample_params ''agentId'' = JUndefined" "field sample_params ''sessionKey'' = JUndefined"
  "field sample_params ''env'' = JUndefined"
  by (simp_all add: sample_params_def field_def)

lemma sample_strings:
  "normalizeString (JStr ''r1'') = Some ''r1''" "normalizeString (JStr ''allow-once'') = Some ''allow-once''"
  by (simp_all add: normalizeString_def str_opt_def str_eval)

lemma sample_approver: "clientHasApprovals sample_client"
  by (simp add: clientHasApprovals_def sample_client_def)

lemma sample_checks:
  assumes "ar_request r = sample_request" "ar_expiresAtMs r = 1000" "ar_requestedByDeviceId r = None" "ar_requestedByConnId r = None"
  shows "guard_checks sample_tools (JStr ''n1'') sample_params sample_client 7 ''r1'' r =
    Inr [(''command'', str_array [''ls'']), (''runId'', JStr ''r1'')]"
proof -
  have "guard_identity (JStr ''n1'') sample_client 7 ''r1'' r = None"
    using assms by (simp add: guard_identity_def sample_request_def opt_value_def normalizeString_def str_eval truthy_str_def)
  moreover have "guard_binding sample_tools sample_params ''r1'' r = Inr [(''command'', str_array [''ls'']), (''runId'', JStr ''r1'')]"
    unfolding guard_binding_def assms sample_param_fields by code_simp
  ultimately show ?thesis by (simp add: guard_checks_def)
qed

lemma sample_snapshots:
  "getSnapshot (sample_resolved name) ''r1'' = Some (sample_record
     \<lparr>ar_resolvedAtMs := Some 5, ar_decision := Some AllowOnce, ar_resolvedBy := Some name\<rparr>)"
  "getSnapshot (sample_consumed name) ''r1'' = Some (sample_record
     \<lparr>ar_resolvedAtMs := Some 5, ar_decision := None, ar_resolvedBy := Some name\<rparr>)"
  "consumeAllowOnce ''r1'' (sample_resolved name) = (True, sample_consumed name)"
  by (simp_all add: getSnapshot_def sample_consumed_def consumeAllowOnce_def sample_entries)

lemma sample_forward:
  "sanitizeSystemRunParamsForForwarding sample_tools (JStr ''n1'') (JObj sample_params) sample_client 7 (Some (sample_resolved name)) =
     (Inr (JObj sample_forwarded), Some (sample_consumed name))"
  by (simp add: sanitizeSystemRunParamsForForwarding_def asRecord_def Let_def sample_param_fields sample_strings
      sample_snapshots sample_checks guard_decision_def grant_def sample_forwarded_def)

lemma sample_forward_again:
  "sanitizeSystemRunParamsForForwarding sample_tools (JStr ''n1'') (JObj sample_params) sample_client 7 (Some (sample_consumed None)) =
     (Inr (JObj sample_forwarded), Some (sample_consumed None))"
  by (simp add: sanitizeSystemRunParamsForForwarding_def asRecord_def Let_def sample_param_fields sample_strings
      sample_snapshots sample_checks guard_decision_def grant_def sample_forwarded_def normalizeApprovalDecision_def
      sample_approver)

section \<open>What a forwarded command is\<close>

lemma map_get_pick_keys:
  "distinct keys \<Longrightarrow> map_get (List.map_filter (\<lambda>key. map_option (Pair key) (f key)) keys) k = (if k \<in> set keys then f k else None)"
  by (induction keys) (auto simp: List.map_filter_simps split: option.splits)

lemma distinct_run_params: "distinct SYSTEM_RUN_PARAMS"
  by (simp add: SYSTEM_RUN_PARAMS_def)

lemma map_get_pick: "map_get (pickSystemRunParams p) k = (if k \<in> set SYSTEM_RUN_PARAMS then map_get p k else None)"
  by (simp add: pickSystemRunParams_def map_get_pick_keys [OF distinct_run_params])

lemma field_pick: "k \<in> set SYSTEM_RUN_PARAMS \<Longrightarrow> field (pickSystemRunParams p) k = field p k"
  by (simp add: field_def map_get_pick)

lemma map_get_set_or_delete [simp]:
  "map_get (set_or_delete k v fs) k' = (if k' = k then map_option JStr v else map_get fs k')"
  by (cases v) (simp_all add: set_or_delete_def)

lemma field_grant: "k \<noteq> ''approved'' \<Longrightarrow> k \<noteq> ''approvalDecision'' \<Longrightarrow> field (grant d fs) k = field fs k"
  by (simp add: field_def grant_def)

lemma normalize_opt_value: "normalizeNonEmptyString v = w \<Longrightarrow> normalizeNonEmptyString (opt_value w) = w"
  by (auto simp: normalizeNonEmptyString_def opt_value_def str_opt_def split: js_value.splits if_splits)

lemma opt_value_normal: "x = normalizeNonEmptyString v \<Longrightarrow> normalizeNonEmptyString (opt_value x) = x"
  using normalize_opt_value by blast

lemma command_array_str_array [simp]: "command_array (str_array argv) = Some argv"
  by (simp add: command_array_def str_array_def comp_def)

lemma normalizeStringArray_str_array [simp]: "normalizeStringArray (str_array argv) = argv"
  by (simp add: normalizeStringArray_def str_array_def comp_def)

text \<open>The forwarded fields agree with the context in which the binding was matched.\<close>

definition fields_agree :: "runtime_context \<Rightarrow> js_fields \<Rightarrow> bool" where
  "fields_agree ctx fs \<longleftrightarrow>
     (ux_argv ctx \<noteq> [] \<longrightarrow> command_array (field fs ''command'') = Some (ux_argv ctx)) \<and>
     normalizeNonEmptyString (field fs ''cwd'') = ux_cwd ctx \<and>
     normalizeNonEmptyString (field fs ''agentId'') = ux_agentId ctx \<and>
     normalizeNonEmptyString (field fs ''sessionKey'') = ux_sessionKey ctx"

lemma plan_fields_normal:
  assumes "normalizeSystemRunApprovalPlan v = Some plan"
  shows "rp_argv plan \<noteq> []" "normalizeNonEmptyString (opt_value (rp_cwd plan)) = rp_cwd plan"
    "normalizeNonEmptyString (opt_value (rp_agentId plan)) = rp_agentId plan"
    "normalizeNonEmptyString (opt_value (rp_sessionKey plan)) = rp_sessionKey plan"
  using assms by (auto simp: normalizeSystemRunApprovalPlan_def Let_def opt_value_normal split: option.splits if_splits)

lemma resolve_argv:
  "resolveSystemRunCommand cmd raw = Inr c \<Longrightarrow> rc_argv c = nullish cmd []"
  by (auto simp: resolveSystemRunCommand_def Let_def split: if_splits sum.splits)

lemma context_agrees:
  assumes "resolveSystemRunApprovalRuntimeContext plan (field p ''command'') (field p ''rawCommand'') (field p ''cwd'')
      (field p ''agentId'') (field p ''sessionKey'') = Inr ctx"
  shows "fields_agree ctx (apply_plan ctx (pickSystemRunParams p)) \<and>
    field (apply_plan ctx (pickSystemRunParams p)) ''env'' = field p ''env''"
proof (cases "normalizeSystemRunApprovalPlan plan")
  case (Some pl)
  with assms have ctx: "ctx = \<lparr>ux_plan = Some pl, ux_argv = rp_argv pl, ux_cwd = rp_cwd pl, ux_agentId = rp_agentId pl,
      ux_sessionKey = rp_sessionKey pl, ux_rawCommand = rp_rawCommand pl\<rparr>"
    by (simp add: resolveSystemRunApprovalRuntimeContext_def)
  have opt: "nullish (map_option JStr v) JUndefined = (case v of None \<Rightarrow> JUndefined | Some t \<Rightarrow> JStr t)" for v
    by (cases v) simp_all
  have norm: "normalizeNonEmptyString (case v of None \<Rightarrow> JUndefined | Some t \<Rightarrow> JStr t) = normalizeNonEmptyString (opt_value v)" for v
    by (cases v) (simp_all add: normalizeNonEmptyString_def opt_value_def)
  show ?thesis
    using plan_fields_normal [OF Some]
    by (simp add: ctx fields_agree_def apply_plan_def field_def opt norm map_get_pick SYSTEM_RUN_PARAMS_def)
next
  case None
  with assms obtain c where c: "resolveSystemRunCommand (command_array (field p ''command'')) (raw_text (field p ''rawCommand'')) = Inr c"
    and ctx: "ctx = \<lparr>ux_plan = None, ux_argv = rc_argv c, ux_cwd = normalizeNonEmptyString (field p ''cwd''),
       ux_agentId = normalizeNonEmptyString (field p ''agentId''), ux_sessionKey = normalizeNonEmptyString (field p ''sessionKey''),
       ux_rawCommand = normalizeNonEmptyString (field p ''rawCommand'')\<rparr>"
    by (auto simp: resolveSystemRunApprovalRuntimeContext_def split: sum.splits)
  from resolve_argv [OF c] have "rc_argv c \<noteq> [] \<Longrightarrow> command_array (field p ''command'') = Some (rc_argv c)"
    by (cases "command_array (field p ''command'')") auto
  then show ?thesis
    by (simp add: ctx fields_agree_def apply_plan_def field_pick SYSTEM_RUN_PARAMS_def)
qed

lemma match_ok:
  assumes "evaluateSystemRunApprovalMatch tools argv request cwd agentId sessionKey env = Inr u"
    and "normalizeNonEmptyString (opt_value cwd) = cwd" "normalizeNonEmptyString (opt_value agentId) = agentId"
    "normalizeNonEmptyString (opt_value sessionKey) = sessionKey"
  obtains b where "aq_host request = Some ''node''" "aq_binding request = Some b" "argv \<noteq> []" "rb_argv b = argv"
    "rb_cwd b = cwd" "rb_agentId b = agentId" "rb_sessionKey b = sessionKey"
    "truthy_str (rb_envHash b) \<or> truthy_str (fst (buildSystemRunApprovalEnvBinding tools env)) \<longrightarrow>
       rb_envHash b = fst (buildSystemRunApprovalEnvBinding tools env)"
proof -
  from assms(1) have host: "aq_host request = Some ''node''"
    by (auto simp: evaluateSystemRunApprovalMatch_def requestMismatch_def split: if_splits)
  with assms obtain b where b: "aq_binding request = Some b"
    and m: "matchSystemRunApprovalBinding b (fst (buildSystemRunApprovalBinding tools (str_array argv) (opt_value cwd)
        (opt_value agentId) (opt_value sessionKey) env)) (snd (buildSystemRunApprovalBinding tools (str_array argv)
        (opt_value cwd) (opt_value agentId) (opt_value sessionKey) env)) = Inr u"
    by (auto simp: evaluateSystemRunApprovalMatch_def missingSystemRunApprovalBinding_def requestMismatch_def split_def
        Let_def split: option.splits)
  have "rb_argv b = argv" "argv \<noteq> []"
    using m by (auto simp: matchSystemRunApprovalBinding_def argvMatches_def requestMismatch_def buildSystemRunApprovalBinding_def
        list.rel_eq Let_def split: if_splits)
  with host b m assms(2-4) show thesis
    by (intro that [of b])
      (auto simp: matchSystemRunApprovalBinding_def requestMismatch_def buildSystemRunApprovalBinding_def Let_def
        matchSystemRunApprovalEnvHash_def split: if_splits)
qed

definition binding_holds :: "env_tools \<Rightarrow> js_fields \<Rightarrow> approval_request \<Rightarrow> bool" where
  "binding_holds tools fs request \<longleftrightarrow> (\<exists>b. aq_host request = Some ''node'' \<and> aq_binding request = Some b \<and>
     rb_argv b \<noteq> [] \<and> command_array (field fs ''command'') = Some (rb_argv b) \<and>
     normalizeNonEmptyString (field fs ''cwd'') = rb_cwd b \<and>
     normalizeNonEmptyString (field fs ''agentId'') = rb_agentId b \<and>
     normalizeNonEmptyString (field fs ''sessionKey'') = rb_sessionKey b \<and>
     (truthy_str (rb_envHash b) \<or> truthy_str (fst (buildSystemRunApprovalEnvBinding tools (field fs ''env''))) \<longrightarrow>
       rb_envHash b = fst (buildSystemRunApprovalEnvBinding tools (field fs ''env''))))"

text \<open>The caller of an approval: its device when the approval has one, else its connection.\<close>

definition same_caller :: "approval_record \<Rightarrow> approval_client option \<Rightarrow> bool" where
  "same_caller snapshot client = (if truthy_str (ar_requestedByDeviceId snapshot)
     then ar_requestedByDeviceId snapshot = Option.bind client ac_deviceId
     else truthy_str (ar_requestedByConnId snapshot) \<longrightarrow> ar_requestedByConnId snapshot = Option.bind client ac_connId)"

lemma guard_checks_ok:
  assumes "guard_checks tools nodeId p client nowMs runId snapshot = Inr next"
  shows "nowMs \<le> ar_expiresAtMs snapshot" "normalizeString nodeId \<noteq> None"
    "normalizeString nodeId = normalizeString (opt_value (aq_nodeId (ar_request snapshot)))"
    "same_caller snapshot client" "binding_holds tools next (ar_request snapshot)"
    "\<exists>ctx. next = apply_plan ctx (pickSystemRunParams p)"
proof -
  from assms have identity: "guard_identity nodeId client nowMs runId snapshot = None"
    and binding: "guard_binding tools p runId snapshot = Inr next"
    by (auto simp: guard_checks_def split: option.splits)
  from identity show "nowMs \<le> ar_expiresAtMs snapshot" "normalizeString nodeId \<noteq> None"
    "normalizeString nodeId = normalizeString (opt_value (aq_nodeId (ar_request snapshot)))"
    unfolding guard_identity_def by (auto split: if_splits)
  from identity show "same_caller snapshot client"
    unfolding guard_identity_def same_caller_def by (auto split: if_splits)
  let ?resolve = "resolveSystemRunApprovalRuntimeContext (plan_value (aq_plan (ar_request snapshot)))
      (field p ''command'') (field p ''rawCommand'') (field p ''cwd'') (field p ''agentId'') (field p ''sessionKey'')"
  obtain ctx where ctx: "?resolve = Inr ctx"
    using binding by (cases ?resolve) (simp_all add: guard_binding_def)
  let ?match = "evaluateSystemRunApprovalMatch tools (ux_argv ctx) (ar_request snapshot) (ux_cwd ctx)
                       (ux_agentId ctx) (ux_sessionKey ctx) (field p ''env'')"
  obtain u where m: "?match = Inr u"
    using binding ctx by (cases ?match) (simp_all add: guard_binding_def)
  from binding ctx m have next_eq: "next = apply_plan ctx (pickSystemRunParams p)"
    by (simp add: guard_binding_def)
  then show "\<exists>ctx. next = apply_plan ctx (pickSystemRunParams p)" by blast
  from context_agrees [OF ctx] next_eq have agree: "fields_agree ctx next" "field next ''env'' = field p ''env''" by auto
  have "normalizeNonEmptyString (opt_value (ux_cwd ctx)) = ux_cwd ctx"
    "normalizeNonEmptyString (opt_value (ux_agentId ctx)) = ux_agentId ctx"
    "normalizeNonEmptyString (opt_value (ux_sessionKey ctx)) = ux_sessionKey ctx"
    using agree(1) unfolding fields_agree_def by (blast intro: normalize_opt_value)+
  from match_ok [OF m this] obtain b where b: "aq_host (ar_request snapshot) = Some ''node''" "aq_binding (ar_request snapshot) = Some b"
    "ux_argv ctx \<noteq> []" "rb_argv b = ux_argv ctx" "rb_cwd b = ux_cwd ctx" "rb_agentId b = ux_agentId ctx" "rb_sessionKey b = ux_sessionKey ctx"
    "truthy_str (rb_envHash b) \<or> truthy_str (fst (buildSystemRunApprovalEnvBinding tools (field p ''env''))) \<longrightarrow>
       rb_envHash b = fst (buildSystemRunApprovalEnvBinding tools (field p ''env''))" .
  note a = agree(1) [unfolded fields_agree_def]
  show "binding_holds tools next (ar_request snapshot)"
    unfolding binding_holds_def agree(2)
    using a b(3) by (intro exI [of _ b] conjI b(1) b(2) b(8)) (simp_all only: b(4-7) simp_thms)
qed

lemma binding_holds_grant [simp]: "binding_holds tools (grant d fs) request = binding_holds tools fs request"
  by (simp add: binding_holds_def field_grant)

text \<open>What the recorded decision allows, before and after the use.\<close>

definition decision_allows :: "js_fields \<Rightarrow> approval_client option \<Rightarrow> string \<Rightarrow> approval_record \<Rightarrow> manager \<Rightarrow> manager \<Rightarrow> bool" where
  "decision_allows p client runId snapshot m m' = (case ar_decision snapshot of
     Some AllowOnce \<Rightarrow> consumeAllowOnce runId m = (True, m')
   | Some AllowAlways \<Rightarrow> m' = m
   | Some Deny \<Rightarrow> False
   | None \<Rightarrow> m' = m \<and> ar_resolvedAtMs snapshot \<noteq> None \<and> ar_resolvedBy snapshot = Some None \<and>
       field p ''approved'' = JBool True \<and> normalizeApprovalDecision (field p ''approvalDecision'') = Some AllowOnce \<and>
       clientHasApprovals client)"

lemma guard_decision_ok:
  assumes "guard_decision (field p ''approved'' = JBool True) (normalizeApprovalDecision (field p ''approvalDecision''))
      client runId snapshot next m = (Inr fs, m')"
  shows "decision_allows p client runId snapshot m m' \<and> (\<exists>d. fs = grant d next)"
  using assms by (cases "ar_decision snapshot")
    (auto simp: guard_decision_def decision_allows_def Let_def split: if_splits prod.splits bool.splits decision.splits)

lemma sanitize_override_cases:
  assumes "sanitizeSystemRunParamsForForwarding tools nodeId (JObj p) client nowMs (Some m) = (Inr (JObj fs), Some m')"
    and "field p ''approved'' = JBool True \<or> normalizeApprovalDecision (field p ''approvalDecision'') \<noteq> None"
  obtains runId snapshot nx where "normalizeString (field p ''runId'') = Some runId" "getSnapshot m runId = Some snapshot"
    "guard_checks tools nodeId p client nowMs runId snapshot = Inr nx"
    "guard_decision (field p ''approved'' = JBool True) (normalizeApprovalDecision (field p ''approvalDecision''))
       client runId snapshot nx m = (Inr fs, m')"
  using assms
  by (auto simp: sanitizeSystemRunParamsForForwarding_def asRecord_def Let_def map_sum_def
      split: option.splits sum.splits prod.splits if_splits)

lemma sanitize_plain_cases:
  assumes "sanitizeSystemRunParamsForForwarding tools nodeId (JObj p) client nowMs mgr = (Inr (JObj fs), mgr')"
    and "\<not> (field p ''approved'' = JBool True \<or> normalizeApprovalDecision (field p ''approvalDecision'') \<noteq> None)"
  shows "fs = pickSystemRunParams p \<and> mgr' = mgr"
  using assms
  by (auto simp: sanitizeSystemRunParamsForForwarding_def asRecord_def Let_def split: sum.splits)

lemma pick_no_approval: "map_get (pickSystemRunParams p) ''approved'' = None" "map_get (pickSystemRunParams p) ''approvalDecision'' = None"
  by (simp_all add: map_get_pick SYSTEM_RUN_PARAMS_def)

text \<open>
  C1: A command reaches a node as approved only under a matching approval. When the guard
  forwards parameters with the approval flag, the run id names a recorded approval that has not
  expired, belongs to the same node and to the same device (or connection), and was made for
  exactly what is forwarded: the same argument vector, working directory, agent, session and
  environment digest; and the recorded decision allows it: a one-time approval that this very
  use consumes, a standing approval, or an approval that ended without a name and a caller that
  holds an approval scope.
\<close>

theorem approved_run_is_bound:
  assumes "sanitizeSystemRunParamsForForwarding tools nodeId (JObj p) client nowMs (Some m) = (Inr (JObj fs), Some m')"
    and "map_get fs ''approved'' \<noteq> None"
  shows "\<exists>runId snapshot. normalizeString (field p ''runId'') = Some runId \<and> getSnapshot m runId = Some snapshot \<and>
    nowMs \<le> ar_expiresAtMs snapshot \<and>
    normalizeString nodeId \<noteq> None \<and> normalizeString nodeId = normalizeString (opt_value (aq_nodeId (ar_request snapshot))) \<and>
    same_caller snapshot client \<and> binding_holds tools fs (ar_request snapshot) \<and>
    decision_allows p client runId snapshot m m'"
proof (cases "field p ''approved'' = JBool True \<or> normalizeApprovalDecision (field p ''approvalDecision'') \<noteq> None")
  case True
  from sanitize_override_cases [OF assms(1) True] obtain runId snapshot nx where
    r: "normalizeString (field p ''runId'') = Some runId" "getSnapshot m runId = Some snapshot"
    and c: "guard_checks tools nodeId p client nowMs runId snapshot = Inr nx"
    and d: "guard_decision (field p ''approved'' = JBool True) (normalizeApprovalDecision (field p ''approvalDecision''))
       client runId snapshot nx m = (Inr fs, m')" .
  with guard_checks_ok [OF c] guard_decision_ok [OF d] show ?thesis by auto
next
  case False
  with sanitize_plain_cases [OF assms(1) False] pick_no_approval assms(2) show ?thesis by auto
qed

lemma approved_run_is_bound_witness:
  "\<exists>runId snapshot. normalizeString (field sample_params ''runId'') = Some runId \<and>
     getSnapshot (sample_resolved (Some ''op'')) runId = Some snapshot \<and> 7 \<le> ar_expiresAtMs snapshot \<and>
     binding_holds sample_tools sample_forwarded (ar_request snapshot)"
  using approved_run_is_bound [OF sample_forward [of "Some ''op''"]] by (auto simp: sample_forwarded_def)

text \<open>
  No control field is smuggled through the guard. The parameters forwarded to a node are
  among the nine that system.run understands and the two approval fields; and when the caller did
  not ask for an approval, or no approval manager is there, there is no approval field at all.
\<close>

theorem no_smuggled_parameters:
  assumes "sanitizeSystemRunParamsForForwarding tools nodeId (JObj p) client nowMs mgr = (Inr (JObj fs), mgr')"
  shows "dom (map_get fs) \<subseteq> set SYSTEM_RUN_PARAMS \<union> {''approved'', ''approvalDecision''} \<and>
    (mgr = None \<or> (field p ''approved'' \<noteq> JBool True \<and> normalizeApprovalDecision (field p ''approvalDecision'') = None) \<longrightarrow>
      map_get fs ''approved'' = None \<and> map_get fs ''approvalDecision'' = None)"
proof (cases "field p ''approved'' = JBool True \<or> normalizeApprovalDecision (field p ''approvalDecision'') \<noteq> None")
  case True
  with assms obtain m m' where mgr: "mgr = Some m" "mgr' = Some m'"
    by (auto simp: sanitizeSystemRunParamsForForwarding_def asRecord_def Let_def split: option.splits sum.splits prod.splits)
  from sanitize_override_cases [OF assms [unfolded mgr] True] obtain runId snapshot nx where
    c: "guard_checks tools nodeId p client nowMs runId snapshot = Inr nx"
    and d: "guard_decision (field p ''approved'' = JBool True) (normalizeApprovalDecision (field p ''approvalDecision''))
       client runId snapshot nx m = (Inr fs, m')" .
  from guard_checks_ok(6) [OF c] guard_decision_ok [OF d] obtain ctx d where fs: "fs = grant d (apply_plan ctx (pickSystemRunParams p))"
    by blast
  have "dom (map_get (apply_plan ctx (pickSystemRunParams p))) \<subseteq> set SYSTEM_RUN_PARAMS"
    by (auto simp: apply_plan_def map_get_pick SYSTEM_RUN_PARAMS_def split: option.splits if_splits)
  then have "dom (map_get fs) \<subseteq> set SYSTEM_RUN_PARAMS \<union> {''approved'', ''approvalDecision''}"
    unfolding fs grant_def by (force split: if_splits)
  with True mgr show ?thesis by auto
next
  case False
  from sanitize_plain_cases [OF assms False] have fs: "fs = pickSystemRunParams p" by simp
  then show ?thesis
    using pick_no_approval by (auto simp: map_get_pick split: if_splits)
qed

lemma no_smuggled_parameters_witness:
  "dom (map_get sample_forwarded) \<subseteq> set SYSTEM_RUN_PARAMS \<union> {''approved'', ''approvalDecision''}"
  using no_smuggled_parameters [OF sample_forward [of None]] by blast

section \<open>Requests for approvals\<close>

text \<open>
  The parameters of exec.approval.request after the schema check; fields the code inspects with
  typeof are optional strings, those it passes on as unknown are values.
\<close>

record request_params =
  xp_id :: "string option"
  xp_command :: string
  xp_commandArgv :: js_value
  xp_env :: js_value
  xp_cwd :: "string option"
  xp_systemRunPlan :: js_value
  xp_nodeId :: "string option"
  xp_host :: "string option"
  xp_security :: "string option"
  xp_ask :: "string option"
  xp_agentId :: "string option"
  xp_resolvedPath :: "string option"
  xp_sessionKey :: "string option"
  xp_turnSourceChannel :: "string option"
  xp_turnSourceTo :: "string option"
  xp_turnSourceAccountId :: "string option"
  xp_turnSourceThreadId :: "string option"
  xp_timeoutMs :: "int option"
  xp_twoPhase :: bool

record request_client =
  qc_connId :: "string option"
  qc_deviceId :: "string option"
  qc_clientId :: "string option"
  qc_displayName :: "string option"

definition DEFAULT_EXEC_APPROVAL_TIMEOUT_MS :: int where
  "DEFAULT_EXEC_APPROVAL_TIMEOUT_MS = 120000"

definition trimmed_or_null :: "string option \<Rightarrow> string option" where
  "trimmed_or_null v = (case v of None \<Rightarrow> None | Some t \<Rightarrow> str_opt (trim t))"

definition param_value :: "string option \<Rightarrow> js_value" where
  "param_value v = (case v of None \<Rightarrow> JUndefined | Some t \<Rightarrow> JStr t)"

text \<open>The request to record and its explicit id, or the message of the error answer.\<close>

definition approval_request_payload :: "env_tools \<Rightarrow> request_params \<Rightarrow> manager \<Rightarrow> string + (approval_request \<times> string option)" where
  "approval_request_payload tools p m = (let
     explicitId = trimmed_or_null (xp_id p);
     host = trim (nullish (xp_host p) []);
     nodeId = trim (nullish (xp_nodeId p) []);
     ctx = resolveSystemRunApprovalRequestContext (JStr host) (JStr (xp_command p)) (xp_commandArgv p)
             (xp_systemRunPlan p) (param_value (xp_cwd p)) (param_value (xp_agentId p)) (param_value (xp_sessionKey p)) in
     if host = ''node'' \<and> nodeId = [] then Inl ''nodeId is required for host=node''
     else if host = ''node'' \<and> rx_plan ctx = None then Inl ''systemRunPlan is required for host=node''
     else if host = ''node'' \<and> nullish (rx_commandArgv ctx) [] = [] then Inl ''commandArgv is required for host=node''
     else let binding = (if host = ''node'' then Some (buildSystemRunApprovalBinding tools
               (case rx_commandArgv ctx of None \<Rightarrow> JUndefined | Some a \<Rightarrow> str_array a) (opt_value (rx_cwd ctx))
               (opt_value (rx_agentId ctx)) (opt_value (rx_sessionKey ctx)) (xp_env p)) else None) in
       if (case explicitId of Some i \<Rightarrow> getSnapshot m i \<noteq> None | None \<Rightarrow> False) then Inl ''approval id already pending''
       else Inr (\<lparr>aq_command = rx_commandText ctx, aq_commandArgv = rx_commandArgv ctx,
              aq_envKeys = (case binding of None \<Rightarrow> None | Some (b, ks) \<Rightarrow> if length ks > 0 then Some ks else None),
              aq_binding = map_option fst binding, aq_plan = rx_plan ctx, aq_cwd = rx_cwd ctx,
              aq_nodeId = (if host = ''node'' then Some nodeId else None), aq_host = str_opt host,
              aq_security = xp_security p, aq_ask = xp_ask p, aq_agentId = rx_agentId ctx,
              aq_resolvedPath = xp_resolvedPath p, aq_sessionKey = rx_sessionKey ctx,
              aq_turnSourceChannel = trimmed_or_null (xp_turnSourceChannel p),
              aq_turnSourceTo = trimmed_or_null (xp_turnSourceTo p),
              aq_turnSourceAccountId = trimmed_or_null (xp_turnSourceAccountId p),
              aq_turnSourceThreadId = xp_turnSourceThreadId p\<rparr>, explicitId))"

text \<open>
  The request handler up to its first await: the record registered and the identity of its
  promise, or the error message. What is broadcast is the record.
\<close>

definition exec_approval_request ::
    "env_tools \<Rightarrow> request_params \<Rightarrow> request_client option \<Rightarrow> string \<Rightarrow> int \<Rightarrow> manager \<Rightarrow> (string + approval_record \<times> nat) \<times> manager" where
  "exec_approval_request tools p client uuid now m = (case approval_request_payload tools p m of
     Inl e \<Rightarrow> (Inl e, m)
   | Inr (request, explicitId) \<Rightarrow>
       let timeoutMs = nullish (xp_timeoutMs p) DEFAULT_EXEC_APPROVAL_TIMEOUT_MS;
           r = (approval_create request timeoutMs explicitId uuid now)
                 \<lparr>ar_requestedByConnId := Option.bind client qc_connId,
                  ar_requestedByDeviceId := Option.bind client qc_deviceId,
                  ar_requestedByClientId := Option.bind client qc_clientId\<rparr> in
       (case approval_register r m of
          (Inl e, m1) \<Rightarrow> (Inl (''registration failed: Error: '' @ e), m1)
        | (Inr promise, m1) \<Rightarrow> (Inr (r, promise), m1)))"

text \<open>After the forwarder: with nobody to ask, the request expires at once.\<close>

definition exec_approval_request_forwarded :: "bool \<Rightarrow> bool \<Rightarrow> string \<Rightarrow> int \<Rightarrow> manager \<Rightarrow> manager" where
  "exec_approval_request_forwarded hasApprovalClients forwardedToTargets recordId now m =
     (if \<not> hasApprovalClients \<and> \<not> forwardedToTargets
      then snd (approval_expire recordId (Some ''auto-expire:no-approver-clients'') now m) else m)"

definition exec_approval_wait :: "string option \<Rightarrow> manager \<Rightarrow> string + nat \<times> approval_record option" where
  "exec_approval_wait givenId m = (let i = trim (nullish givenId []) in
     if i = [] then Inl ''id is required''
     else case awaitDecision m i of
       None \<Rightarrow> Inl ''approval expired or not found''
     | Some promise \<Rightarrow> Inr (promise, getSnapshot m i))"

definition parse_decision :: "string \<Rightarrow> decision option" where
  "parse_decision d = (if d = ''allow-once'' then Some AllowOnce else if d = ''allow-always'' then Some AllowAlways
     else if d = ''deny'' then Some Deny else None)"

definition exec_approval_resolve ::
    "string \<Rightarrow> string \<Rightarrow> request_client option \<Rightarrow> int \<Rightarrow> manager \<Rightarrow> (string + unit) \<times> manager" where
  "exec_approval_resolve givenId decisionText client now m = (case parse_decision decisionText of
     None \<Rightarrow> (Inl ''invalid decision'', m)
   | Some d \<Rightarrow>
       let resolvedBy = nullish_opt (Option.bind client qc_displayName) (Option.bind client qc_clientId) in
       (case approval_resolve givenId d resolvedBy now m of
          (False, m1) \<Rightarrow> (Inl ''unknown approval id'', m1)
        | (True, m1) \<Rightarrow> (Inr (), m1)))"

section \<open>What a recorded request can be used for\<close>

lemma normalize_param: "normalizeNonEmptyString (param_value v) = trimmed_or_null v"
  by (cases v) (simp_all add: normalizeNonEmptyString_def param_value_def trimmed_or_null_def)

lemma trimmed_or_null_normal: "normalizeNonEmptyString (opt_value (trimmed_or_null v)) = trimmed_or_null v"
  using normalize_param opt_value_normal by metis

lemma normalize_plan_value:
  assumes "normalizeSystemRunApprovalPlan v = Some plan"
  shows "normalizeSystemRunApprovalPlan (plan_value (Some plan)) = Some plan"
proof -
  have raw: "normalizeNonEmptyString (opt_value (rp_rawCommand plan)) = rp_rawCommand plan"
    using assms by (auto simp: normalizeSystemRunApprovalPlan_def Let_def opt_value_normal split: option.splits if_splits)
  have argv: "normalizeStringArray (JArr (map JStr (rp_argv plan))) = rp_argv plan"
    by (simp add: normalizeStringArray_def comp_def)
  show ?thesis
    using plan_fields_normal [OF assms] raw argv
    by (simp add: normalizeSystemRunApprovalPlan_def plan_value_def asRecord_def field_def Let_def)
qed

lemma env_match_iff:
  "matchSystemRunApprovalEnvHash a b ks = Inr () \<longleftrightarrow> (\<not> truthy_str a \<and> \<not> truthy_str b) \<or> (truthy_str a \<and> a = b)"
  by (auto simp: matchSystemRunApprovalEnvHash_def)

lemma binding_match_iff:
  "matchSystemRunApprovalBinding e a ks = Inr () \<longleftrightarrow>
     rb_argv e \<noteq> [] \<and> rb_argv e = rb_argv a \<and> rb_cwd e = rb_cwd a \<and> rb_agentId e = rb_agentId a \<and>
     rb_sessionKey e = rb_sessionKey a \<and> matchSystemRunApprovalEnvHash (rb_envHash e) (rb_envHash a) ks = Inr ()"
  by (auto simp: matchSystemRunApprovalBinding_def argvMatches_def requestMismatch_def list.rel_eq)

lemma node_request_payload:
  assumes "approval_request_payload tools p m = Inr (request, i)" "trim (nullish (xp_host p) []) = ''node''"
  obtains plan where "normalizeSystemRunApprovalPlan (xp_systemRunPlan p) = Some plan" "aq_plan request = Some plan"
    "aq_host request = Some ''node''"
    "aq_cwd request = nullish_opt (rp_cwd plan) (trimmed_or_null (xp_cwd p))"
    "aq_agentId request = nullish_opt (rp_agentId plan) (trimmed_or_null (xp_agentId p))"
    "aq_sessionKey request = nullish_opt (rp_sessionKey plan) (trimmed_or_null (xp_sessionKey p))"
    "aq_binding request = Some (fst (buildSystemRunApprovalBinding tools (str_array (rp_argv plan)) (opt_value (aq_cwd request))
       (opt_value (aq_agentId request)) (opt_value (aq_sessionKey request)) (xp_env p)))"
proof -
  have node: "normalizeNonEmptyString (JStr ''node'') = Some ''node''"
    by (simp add: normalizeNonEmptyString_def str_eval)
  from assms node show thesis
    by (cases "normalizeSystemRunApprovalPlan (xp_systemRunPlan p)")
      (auto simp: approval_request_payload_def resolveSystemRunApprovalRequestContext_def Let_def normalize_param
        split: if_splits intro!: that)
qed

text \<open>The environment digest of a request, empty when no variable is set.\<close>

definition env_digest :: "env_tools \<Rightarrow> js_value \<Rightarrow> string option" where
  "env_digest tools env = fst (buildSystemRunApprovalEnvBinding tools env)"

lemma guard_binding_of_request:
  assumes request: "approval_request_payload tools p m = Inr (request, i)" and node: "trim (nullish (xp_host p) []) = ''node''"
    and plan: "normalizeSystemRunApprovalPlan (xp_systemRunPlan p) = Some plan" and r: "ar_request r = request"
  shows "(\<exists>nx. guard_binding tools fs runId r = Inr nx) \<longleftrightarrow>
    rp_cwd plan = nullish_opt (rp_cwd plan) (trimmed_or_null (xp_cwd p)) \<and>
    rp_agentId plan = nullish_opt (rp_agentId plan) (trimmed_or_null (xp_agentId p)) \<and>
    rp_sessionKey plan = nullish_opt (rp_sessionKey plan) (trimmed_or_null (xp_sessionKey p)) \<and>
    ((\<not> truthy_str (env_digest tools (xp_env p)) \<and> \<not> truthy_str (env_digest tools (field fs ''env''))) \<or>
     (truthy_str (env_digest tools (xp_env p)) \<and> env_digest tools (xp_env p) = env_digest tools (field fs ''env'')))"
proof -
  from node_request_payload [OF request node] plan obtain
    a: "aq_plan request = Some plan" "aq_host request = Some ''node''"
    and cwd: "aq_cwd request = nullish_opt (rp_cwd plan) (trimmed_or_null (xp_cwd p))"
    and agent: "aq_agentId request = nullish_opt (rp_agentId plan) (trimmed_or_null (xp_agentId p))"
    and skey: "aq_sessionKey request = nullish_opt (rp_sessionKey plan) (trimmed_or_null (xp_sessionKey p))"
    and b: "aq_binding request = Some (fst (buildSystemRunApprovalBinding tools (str_array (rp_argv plan)) (opt_value (aq_cwd request))
       (opt_value (aq_agentId request)) (opt_value (aq_sessionKey request)) (xp_env p)))"
    by (metis option.inject)
  note n = plan_fields_normal [OF plan]
  have norm: "normalizeNonEmptyString (opt_value (nullish_opt x (trimmed_or_null y))) = nullish_opt x (trimmed_or_null y)"
    if "normalizeNonEmptyString (opt_value x) = x" for x y
    using that trimmed_or_null_normal by (cases x) simp_all
  have ctx: "resolveSystemRunApprovalRuntimeContext (plan_value (Some plan)) c rc cw ag sk =
     Inr \<lparr>ux_plan = Some plan, ux_argv = rp_argv plan, ux_cwd = rp_cwd plan, ux_agentId = rp_agentId plan,
          ux_sessionKey = rp_sessionKey plan, ux_rawCommand = rp_rawCommand plan\<rparr>" for c rc cw ag sk
    by (simp add: resolveSystemRunApprovalRuntimeContext_def normalize_plan_value [OF plan])
  have sum: "(\<exists>x. (case s of Inl e \<Rightarrow> Inl (f e) | Inr u \<Rightarrow> Inr y) = Inr x) \<longleftrightarrow> s = Inr ()"
    for s :: "mismatch + unit" and f :: "mismatch \<Rightarrow> guard_error" and y :: js_fields
    by (cases s) auto
  show ?thesis
    unfolding guard_binding_def r a(1) ctx
    by (simp add: sum evaluateSystemRunApprovalMatch_def split_def Let_def a b binding_match_iff buildSystemRunApprovalBinding_def
        n norm cwd agent skey env_match_iff env_digest_def eq_commute [of "nullish_opt _ _"])
qed

text \<open>
  C9: A request for a node is usable for exactly what its plan says. An accepted request for
  host node records the normalised plan, and its approval, used before it expires, passes the
  binding checks of the guard precisely when the working directory, agent and session of the
  request were already in the plan (or given nowhere) and the environment digest is the one of
  the request. A value given beside a plan that lacks it makes an approval nothing can use.
\<close>

theorem node_request_usable_exactly:
  assumes "exec_approval_request tools p client uuid now m = (Inr (r, promise), m')"
    and "trim (nullish (xp_host p) []) = ''node''"
  shows "\<exists>plan. normalizeSystemRunApprovalPlan (xp_systemRunPlan p) = Some plan \<and> aq_plan (ar_request r) = Some plan \<and>
    ((\<exists>nx. guard_binding tools fs runId r = Inr nx) \<longleftrightarrow>
      (rp_cwd plan = None \<longrightarrow> trimmed_or_null (xp_cwd p) = None) \<and>
      (rp_agentId plan = None \<longrightarrow> trimmed_or_null (xp_agentId p) = None) \<and>
      (rp_sessionKey plan = None \<longrightarrow> trimmed_or_null (xp_sessionKey p) = None) \<and>
      ((\<not> truthy_str (env_digest tools (xp_env p)) \<and> \<not> truthy_str (env_digest tools (field fs ''env''))) \<or>
       (truthy_str (env_digest tools (xp_env p)) \<and> env_digest tools (xp_env p) = env_digest tools (field fs ''env''))))"
proof -
  from assms(1) obtain request i where req: "approval_request_payload tools p m = Inr (request, i)" "ar_request r = request"
    by (auto simp: exec_approval_request_def approval_create_def Let_def split: sum.splits prod.splits)
  from node_request_payload [OF req(1) assms(2)] obtain plan where
    plan: "normalizeSystemRunApprovalPlan (xp_systemRunPlan p) = Some plan" "aq_plan request = Some plan" by metis
  have null: "x = nullish_opt x y \<longleftrightarrow> (x = None \<longrightarrow> y = None)" for x y :: "string option"
    by (cases x) auto
  show ?thesis
    using guard_binding_of_request [OF req(1) assms(2) plan(1) req(2), of fs runId] plan req(2)
    by (intro exI [of _ plan]) (simp add: null)
qed

definition sample_ask :: request_params where
  "sample_ask = \<lparr>xp_id = Some ''r1'', xp_command = ''ls'', xp_commandArgv = JUndefined, xp_env = JUndefined, xp_cwd = Some ''/tmp'',
     xp_systemRunPlan = JObj [(''argv'', str_array [''ls''])], xp_nodeId = Some ''n1'', xp_host = Some ''node'', xp_security = None,
     xp_ask = None, xp_agentId = None, xp_resolvedPath = None, xp_sessionKey = None, xp_turnSourceChannel = None,
     xp_turnSourceTo = None, xp_turnSourceAccountId = None, xp_turnSourceThreadId = None, xp_timeoutMs = None, xp_twoPhase = False\<rparr>"

lemma sample_ask_accepted:
  "case exec_approval_request sample_tools sample_ask None ''u'' 0 empty_manager of
     (Inr (r, promise), m) \<Rightarrow> promise = 0 \<and> aq_cwd (ar_request r) = Some ''/tmp'' | (Inl e, m) \<Rightarrow> False"
  by code_simp

lemma node_request_usable_exactly_witness:
  "\<exists>r m'. exec_approval_request sample_tools sample_ask None ''u'' 0 empty_manager = (Inr (r, 0), m') \<and>
     \<not> (\<exists>nx. guard_binding sample_tools sample_params ''r1'' r = Inr nx)"
proof -
  obtain r m' where r: "exec_approval_request sample_tools sample_ask None ''u'' 0 empty_manager = (Inr (r, 0), m')"
    using sample_ask_accepted by (auto split: sum.splits prod.splits)
  have plan: "normalizeSystemRunApprovalPlan (xp_systemRunPlan sample_ask) =
      Some \<lparr>rp_argv = [''ls''], rp_cwd = None, rp_rawCommand = None, rp_agentId = None, rp_sessionKey = None\<rparr>"
    "trimmed_or_null (xp_cwd sample_ask) = Some ''/tmp''" "trim (nullish (xp_host sample_ask) []) = ''node''"
    by code_simp+
  from node_request_usable_exactly [OF r plan(3), of sample_params "''r1''"] plan(1,2) r show ?thesis by auto
qed

section \<open>One-time approvals\<close>

lemma consume_snapshot:
  assumes "consumeAllowOnce runId m = (True, m')" "getSnapshot m runId = Some s"
  shows "getSnapshot m' runId = Some (s\<lparr>ar_decision := None\<rparr>)"
  using assms by (auto simp: consumeAllowOnce_def getSnapshot_def split: option.splits if_splits)

lemma approved_cases:
  assumes "sanitizeSystemRunParamsForForwarding tools nodeId (JObj p) client nowMs (Some m) = (Inr (JObj fs), Some m')"
    and "map_get fs ''approved'' \<noteq> None" and "normalizeString (field p ''runId'') = Some runId" and "getSnapshot m runId = Some s"
  shows "decision_allows p client runId s m m'"
proof (cases "field p ''approved'' = JBool True \<or> normalizeApprovalDecision (field p ''approvalDecision'') \<noteq> None")
  case True
  from sanitize_override_cases [OF assms(1) True] obtain runId' s' nx where
    r: "normalizeString (field p ''runId'') = Some runId'" "getSnapshot m runId' = Some s'"
    and d: "guard_decision (field p ''approved'' = JBool True) (normalizeApprovalDecision (field p ''approvalDecision''))
       client runId' s' nx m = (Inr fs, m')" .
  from r(1) assms(3) have "runId' = runId" by (simp only: option.inject)
  moreover with r(2) assms(4) have "s' = s" by (simp only: option.inject)
  ultimately show ?thesis using guard_decision_ok [OF d] by (simp only:)
next
  case False
  with sanitize_plain_cases [OF assms(1) False] pick_no_approval assms(2) show ?thesis by auto
qed

text \<open>
  C8: A one-time approval forwards one command. After a command was forwarded under a one-time
  approval, a second one with the same run id is forwarded as approved only if the approval had
  been resolved without a name and the second caller asks with both approval fields and holds an
  approval scope; an approval resolved by a named client can never be used twice.
\<close>

theorem one_time_approval_not_replayed:
  assumes "getSnapshot m runId = Some s" "ar_decision s = Some AllowOnce"
    and "normalizeString (field p ''runId'') = Some runId" "normalizeString (field p' ''runId'') = Some runId"
    and "sanitizeSystemRunParamsForForwarding tools nodeId (JObj p) client now (Some m) = (Inr (JObj fs), Some m1)"
    and "map_get fs ''approved'' \<noteq> None"
    and "sanitizeSystemRunParamsForForwarding tools' nodeId' (JObj p') client' now' (Some m1) = (Inr (JObj fs'), Some m2)"
    and "map_get fs' ''approved'' \<noteq> None"
  shows "ar_resolvedBy s = Some None \<and> clientHasApprovals client' \<and> field p' ''approved'' = JBool True \<and>
    normalizeApprovalDecision (field p' ''approvalDecision'') = Some AllowOnce"
proof -
  from approved_cases [OF assms(5,6,3,1)] assms(2) have "consumeAllowOnce runId m = (True, m1)"
    by (simp add: decision_allows_def)
  from consume_snapshot [OF this assms(1)] have "getSnapshot m1 runId = Some (s\<lparr>ar_decision := None\<rparr>)" .
  from approved_cases [OF assms(7,8,4) this] show ?thesis by (simp add: decision_allows_def)
qed

lemma one_time_approval_not_replayed_witness:
  "clientHasApprovals sample_client \<and> field sample_params ''approved'' = JBool True"
  using one_time_approval_not_replayed [OF sample_snapshots(1) [of None] _ sample_strings(1) [folded sample_param_fields(2)]
      sample_strings(1) [folded sample_param_fields(2)] sample_forward _ sample_forward_again]
  by (simp add: sample_forwarded_def)

section \<open>A replay\<close>

text \<open>
  A replay. A one-time approval resolved by a client that has neither a display name nor an
  id, and then used, looks like one that timed out: the same parameters are forwarded as approved
  a second time, with no new decision, and the manager does not change any more.
\<close>

theorem nameless_one_time_approval_is_replayed:
  "sanitizeSystemRunParamsForForwarding sample_tools (JStr ''n1'') (JObj sample_params) sample_client 7
     (Some (snd (exec_approval_resolve ''r1'' ''allow-once'' None 5 sample_registered))) =
     (Inr (JObj sample_forwarded), Some (sample_consumed None)) \<and>
   sanitizeSystemRunParamsForForwarding sample_tools (JStr ''n1'') (JObj sample_params) sample_client 7 (Some (sample_consumed None)) =
     (Inr (JObj sample_forwarded), Some (sample_consumed None))"
proof
  have "snd (exec_approval_resolve ''r1'' ''allow-once'' None 5 sample_registered) = sample_resolved None"
    by (simp add: exec_approval_resolve_def parse_decision_def sample_resolved_def Let_def split: prod.split bool.split)
  then show "sanitizeSystemRunParamsForForwarding sample_tools (JStr ''n1'') (JObj sample_params) sample_client 7
     (Some (snd (exec_approval_resolve ''r1'' ''allow-once'' None 5 sample_registered))) =
     (Inr (JObj sample_forwarded), Some (sample_consumed None))"
    using sample_forward [of None] by simp
qed (rule sample_forward_again)

text \<open>
  The fallback for a timed-out approval comes too late. When the expiry timer of a request
  has fired, at or after the expiry time of its record, every later attempt to use the request,
  by whatever caller and with whatever scopes, is refused: as expired if the node, the run id and
  the record are there. The branch that allows an approver's client to run the command after a
  time-out is reached only in the millisecond of the expiry itself.
\<close>

theorem timed_out_request_is_refused:
  assumes "approval_run m used" and "map_get (mg_pending m) i = Some e" and "ar_resolvedAtMs (pe_record e) = None"
    and "ar_expiresAtMs (pe_record e) \<le> fired" "fired < now"
    and "normalizeString (field p ''runId'') = Some i"
    and "field p ''approved'' = JBool True \<or> normalizeApprovalDecision (field p ''approvalDecision'') \<noteq> None"
  shows "ExpireTimer i (pe_uid e) \<in> set (mg_timers m) \<and>
    sanitizeSystemRunParamsForForwarding tools nodeId (JObj p) client now (Some (approval_fire (ExpireTimer i (pe_uid e)) fired m)) =
      (Inl (''approval expired'', Some [(''code'', JStr ''APPROVAL_EXPIRED''), (''runId'', JStr i)]),
       Some (approval_fire (ExpireTimer i (pe_uid e)) fired m))"
proof -
  from approval_run_ok [OF assms(1)] have "timers_ok m" by (simp add: manager_ok_def)
  from timers_okD [OF this assms(2)] assms(3) have armed: "ExpireTimer i (pe_uid e) \<in> set (mg_timers m)"
    by (auto simp: open_entry_def)
  obtain s where s: "getSnapshot (approval_fire (ExpireTimer i (pe_uid e)) fired m) i = Some s"
    "ar_expiresAtMs s = ar_expiresAtMs (pe_record e)"
    using assms(2,3) by (simp add: approval_fire_def approval_expire_def approval_close_def getSnapshot_def Let_def)
  with assms(4,5) have "ar_expiresAtMs s < now" by simp
  then have "guard_checks tools nodeId p client now i s =
      Inl (''approval expired'', Some [(''code'', JStr ''APPROVAL_EXPIRED''), (''runId'', JStr i)])"
    by (simp add: guard_checks_def guard_identity_def systemRunApprovalGuardError_def run_id_detail_def)
  with assms(6,7) s armed show ?thesis
    by (auto simp: sanitizeSystemRunParamsForForwarding_def asRecord_def Let_def)
qed

lemma timed_out_request_is_refused_witness:
  "fst (sanitizeSystemRunParamsForForwarding sample_tools (JStr ''n1'') (JObj sample_params) sample_client 1001
     (Some (approval_fire (ExpireTimer ''r1'' 0) 1000 sample_registered))) =
     Inl (''approval expired'', Some [(''code'', JStr ''APPROVAL_EXPIRED''), (''runId'', JStr ''r1'')])"
  using timed_out_request_is_refused [OF sample_runs(1), of "''r1''" "\<lparr>pe_uid = 0, pe_record = sample_record\<rparr>" 1000 1001
      sample_params sample_tools "JStr ''n1''" sample_client]
  by (simp add: sample_entries sample_param_fields sample_strings)

end
