(* ===== verification/CommandQueue.thy ===== *)
theory CommandQueue
  imports JsPrelude JsNumber "HOL-Library.Multiset"
begin

text \<open>
  The in-process command queue, src/process/command-queue.ts: lanes that run a bounded number of
  tasks at a time, in order. A task is what it does to the queue up to its first await (the
  operations it calls, and whether it then throws); from there on it is in flight until its
  promise settles, which is an event of its own. The nested calls of one turn of the event loop
  (a task that enqueues, a lane that is drained while it is being drained) are an explicit stack
  of frames, as in the code, where \<open>draining\<close> and the shared lane object make them meet. The
  clock stands still during a turn; the callback \<open>onWait\<close> and the logs are a trace, and the
  callback is taken not to call the queue.
\<close>

section \<open>Data\<close>

definition MAIN_LANE :: string where
  "MAIN_LANE = ''main''"

datatype lane_op =
    OpEnqueue string task "int option"
  | OpSetConcurrency string js_num
  | OpClear string
  | OpReset
  | OpMarkDraining
and task = Task (tk_sync: "lane_op list") (tk_throws: bool)

text \<open>How a promise ends.\<close>

datatype outcome = TaskResolved | TaskRejected | LaneCleared string | GatewayDraining

record queue_entry =
  qe_pid :: nat
  qe_task :: task
  qe_enqueuedAt :: int
  qe_warnAfterMs :: int

record lane_state =
  ln_queue :: "queue_entry list"
  ln_active :: "nat list"
  ln_max :: js_num
  ln_draining :: bool
  ln_generation :: nat

text \<open>A task in flight: what the closure around \<open>entry.task()\<close> holds.\<close>

record in_flight =
  if_taskId :: nat
  if_lane :: string
  if_generation :: nat
  if_pid :: nat

text \<open>
  The module state: the lanes, the task counter and the draining flag; the tasks in flight, the
  promises settled so far and the promises handed out; and two traces, of the tasks started
  (lane and promise) and of the waits that were reported.
\<close>

record queue_state =
  qs_lanes :: "(string, lane_state) js_map"
  qs_nextTaskId :: nat
  qs_gatewayDraining :: bool
  qs_running :: "in_flight list"
  qs_settled :: "(nat \<times> outcome) list"
  qs_nextPid :: nat
  qs_started :: "(string \<times> nat) list"
  qs_waits :: "(string \<times> int \<times> nat) list"

definition new_lane :: lane_state where
  "new_lane = \<lparr>ln_queue = [], ln_active = [], ln_max = js_int 1, ln_draining = False, ln_generation = 0\<rparr>"

definition initial_queue :: queue_state where
  "initial_queue = \<lparr>qs_lanes = [], qs_nextTaskId = 1, qs_gatewayDraining = False, qs_running = [], qs_settled = [],
     qs_nextPid = 0, qs_started = [], qs_waits = []\<rparr>"

text \<open>\<open>getLaneState\<close>: the state of a lane, created when it is first asked for.\<close>

definition getLaneState :: "queue_state \<Rightarrow> string \<Rightarrow> lane_state" where
  "getLaneState st lane = nullish (map_get (qs_lanes st) lane) new_lane"

definition put_lane :: "string \<Rightarrow> lane_state \<Rightarrow> queue_state \<Rightarrow> queue_state" where
  "put_lane lane l st = st\<lparr>qs_lanes := map_set lane l (qs_lanes st)\<rparr>"

definition clean_lane :: "string \<Rightarrow> string" where
  "clean_lane lane = str_or (trim lane) MAIN_LANE"

definition has_room :: "lane_state \<Rightarrow> bool" where
  "has_room l = js_less (js_int (int (length (ln_active l)))) (ln_max l)"

definition settle :: "nat \<Rightarrow> outcome \<Rightarrow> queue_state \<Rightarrow> queue_state" where
  "settle pid r st = st\<lparr>qs_settled := qs_settled st @ [(pid, r)]\<rparr>"

section \<open>One turn\<close>

text \<open>
  What is still to do in the turn: operations to call, a call of \<open>drainLane\<close>, the loop of
  \<open>pump\<close>, the end of the closure around a task that settled, the settling of a promise.
\<close>

datatype frame =
    Ops "lane_op list"
  | DrainLane string
  | Pump string
  | Finished in_flight outcome
  | Settle nat outcome

definition completeTask :: "in_flight \<Rightarrow> queue_state \<Rightarrow> bool \<times> queue_state" where
  "completeTask t st = (let state = getLaneState st (if_lane t) in
     if if_generation t \<noteq> ln_generation state then (False, st)
     else (True, put_lane (if_lane t) (state\<lparr>ln_active := removeAll (if_taskId t) (ln_active state)\<rparr>) st))"

text \<open>The end of the async closure: \<open>pump\<close> if the task is of the current generation, then the promise.\<close>

definition finish_task :: "in_flight \<Rightarrow> outcome \<Rightarrow> queue_state \<Rightarrow> frame list \<times> queue_state" where
  "finish_task t r st = (case completeTask t st of
     (current, st1) \<Rightarrow> ((if current then [Pump (if_lane t)] else []) @ [Settle (if_pid t) r], st1))"

definition reset_lane :: "lane_state \<Rightarrow> lane_state" where
  "reset_lane l = l\<lparr>ln_generation := ln_generation l + 1, ln_active := [], ln_draining := False\<rparr>"

text \<open>A call of an exported function: the new state and the frames it leaves to be done.\<close>

fun exec_op :: "int \<Rightarrow> lane_op \<Rightarrow> queue_state \<Rightarrow> frame list \<times> queue_state" where
  "exec_op now (OpEnqueue lane task warnAfterMs) st =
     (let pid = qs_nextPid st; st1 = st\<lparr>qs_nextPid := pid + 1\<rparr> in
      if qs_gatewayDraining st then ([], settle pid GatewayDraining st1)
      else let cleaned = clean_lane lane; state = getLaneState st1 cleaned;
               entry = \<lparr>qe_pid = pid, qe_task = task, qe_enqueuedAt = now, qe_warnAfterMs = nullish warnAfterMs 2000\<rparr> in
        ([DrainLane cleaned], put_lane cleaned (state\<lparr>ln_queue := ln_queue state @ [entry]\<rparr>) st1))"
| "exec_op now (OpSetConcurrency lane maxConcurrent) st =
     (let cleaned = clean_lane lane; state = getLaneState st cleaned in
      ([DrainLane cleaned], put_lane cleaned (state\<lparr>ln_max := clamp_floor 1 maxConcurrent\<rparr>) st))"
| "exec_op now (OpClear lane) st =
     (let cleaned = clean_lane lane in
      case map_get (qs_lanes st) cleaned of
        None \<Rightarrow> ([], st)
      | Some state \<Rightarrow> ([], fold (\<lambda>e. settle (qe_pid e) (LaneCleared cleaned)) (ln_queue state)
                           (put_lane cleaned (state\<lparr>ln_queue := []\<rparr>) st)))"
| "exec_op now OpReset st =
     (map (\<lambda>(lane, l). DrainLane lane) (filter (\<lambda>(lane, l). ln_queue l \<noteq> []) (qs_lanes st)),
      st\<lparr>qs_gatewayDraining := False, qs_lanes := map (\<lambda>(lane, l). (lane, reset_lane l)) (qs_lanes st)\<rparr>)"
| "exec_op now OpMarkDraining st = ([], st\<lparr>qs_gatewayDraining := True\<rparr>)"

text \<open>One iteration of the loop of \<open>pump\<close>, on a lane with room and a queue \<open>entry # rest\<close>.\<close>

definition start_task :: "int \<Rightarrow> string \<Rightarrow> queue_entry \<Rightarrow> queue_entry list \<Rightarrow> queue_state \<Rightarrow> frame list \<times> queue_state" where
  "start_task now lane entry rest st =
     (let state = getLaneState st lane; waitedMs = now - qe_enqueuedAt entry;
          t = \<lparr>if_taskId = qs_nextTaskId st, if_lane = lane, if_generation = ln_generation state, if_pid = qe_pid entry\<rparr>;
          st1 = put_lane lane (state\<lparr>ln_queue := rest, ln_active := ln_active state @ [if_taskId t]\<rparr>) st in
      ([Ops (tk_sync (qe_task entry))] @ (if tk_throws (qe_task entry) then [Finished t TaskRejected] else []) @ [Pump lane],
       st1\<lparr>qs_nextTaskId := qs_nextTaskId st + 1,
           qs_running := (if tk_throws (qe_task entry) then qs_running st else qs_running st @ [t]),
           qs_started := qs_started st @ [(lane, qe_pid entry)],
           qs_waits := (if waitedMs \<ge> qe_warnAfterMs entry then qs_waits st @ [(lane, waitedMs, length rest)] else qs_waits st)\<rparr>))"

fun exec_frame :: "int \<Rightarrow> frame \<Rightarrow> queue_state \<Rightarrow> frame list \<times> queue_state" where
  "exec_frame now (Ops []) st = ([], st)"
| "exec_frame now (Ops (oper # ops)) st = (let (fs, st1) = exec_op now oper st in (fs @ [Ops ops], st1))"
| "exec_frame now (DrainLane lane) st = (let state = getLaneState st lane in
     if ln_draining state then ([], st) else ([Pump lane], put_lane lane (state\<lparr>ln_draining := True\<rparr>) st))"
| "exec_frame now (Pump lane) st = (let state = getLaneState st lane in
     case (has_room state, ln_queue state) of
       (True, entry # rest) \<Rightarrow> start_task now lane entry rest st
     | _ \<Rightarrow> ([], put_lane lane (state\<lparr>ln_draining := False\<rparr>) st))"
| "exec_frame now (Finished t r) st = finish_task t r st"
| "exec_frame now (Settle pid r) st = ([], settle pid r st)"

lemma pump_start:
  "has_room (getLaneState st lane) \<Longrightarrow> ln_queue (getLaneState st lane) = entry # rest \<Longrightarrow>
     exec_frame now (Pump lane) st = start_task now lane entry rest st"
  by (simp add: Let_def)

lemma pump_idle:
  "\<not> (has_room (getLaneState st lane) \<and> ln_queue (getLaneState st lane) \<noteq> []) \<Longrightarrow>
     exec_frame now (Pump lane) st = ([], put_lane lane ((getLaneState st lane)\<lparr>ln_draining := False\<rparr>) st)"
  by (auto simp: Let_def split: bool.split list.split)

text \<open>The turn ends: every started task leaves the queue, and its operations are finite.\<close>

primrec op_weight :: "lane_op \<Rightarrow> nat" and task_weight :: "task \<Rightarrow> nat" where
  "op_weight (OpEnqueue lane t w) = task_weight t + 1"
| "op_weight (OpSetConcurrency lane n) = 1"
| "op_weight (OpClear lane) = 1"
| "op_weight OpReset = 1"
| "op_weight OpMarkDraining = 1"
| "task_weight (Task ops throws) = sum_list (map op_weight ops) + 1"

definition queued_weight :: "queue_state \<Rightarrow> nat" where
  "queued_weight st = sum_list (map (\<lambda>(lane, l). sum_list (map (\<lambda>e. task_weight (qe_task e)) (ln_queue l))) (qs_lanes st))"

fun frame_weight :: "frame \<Rightarrow> nat" where
  "frame_weight (Ops ops) = sum_list (map op_weight ops)"
| "frame_weight _ = 0"

fun frame_size :: "frame \<Rightarrow> nat" where
  "frame_size (DrainLane lane) = 2"
| "frame_size (Finished t r) = 3"
| "frame_size _ = 1"

lemma sum_list_update_alist:
  fixes f :: "'v \<Rightarrow> 'a :: comm_monoid_add"
  shows "sum_list (map (\<lambda>(k, v). f v) (AList.update k v m)) + (case map_of m k of None \<Rightarrow> 0 | Some v' \<Rightarrow> f v') =
   sum_list (map (\<lambda>(k, v). f v) m) + f v"
  by (induction m) (auto simp: algebra_simps split: option.splits)

lemma queued_weight_put:
  "queued_weight (put_lane lane l st) + sum_list (map (\<lambda>e. task_weight (qe_task e)) (ln_queue (getLaneState st lane))) =
   queued_weight st + sum_list (map (\<lambda>e. task_weight (qe_task e)) (ln_queue l))"
  using sum_list_update_alist [of "\<lambda>l. sum_list (map (\<lambda>e. task_weight (qe_task e)) (ln_queue l))" lane l "qs_lanes st"]
  by (cases "map_get (qs_lanes st) lane") (simp_all add: queued_weight_def put_lane_def getLaneState_def new_lane_def)

lemma queued_weight_put_same:
  "ln_queue l = ln_queue (getLaneState st lane) \<Longrightarrow> queued_weight (put_lane lane l st) = queued_weight st"
  using queued_weight_put [of lane l st] by simp

lemma queued_weight_push:
  "ln_queue l = ln_queue (getLaneState st lane) @ [e] \<Longrightarrow> queued_weight (put_lane lane l st) = queued_weight st + task_weight (qe_task e)"
  using queued_weight_put [of lane l st] by simp

lemma queued_weight_shift:
  "ln_queue (getLaneState st lane) = e # ln_queue l \<Longrightarrow> queued_weight (put_lane lane l st) + task_weight (qe_task e) = queued_weight st"
  using queued_weight_put [of lane l st] by simp

lemma queued_weight_frame [simp]:
  "queued_weight (settle pid r st) = queued_weight st"
  "queued_weight (st\<lparr>qs_nextPid := n\<rparr>) = queued_weight st"
  "queued_weight (st\<lparr>qs_gatewayDraining := b\<rparr>) = queued_weight st"
  "queued_weight (st\<lparr>qs_nextTaskId := n, qs_running := rs, qs_started := ss, qs_waits := ws\<rparr>) = queued_weight st"
  by (simp_all add: queued_weight_def settle_def)

lemma getLaneState_frame [simp]:
  "getLaneState (settle pid r st) lane = getLaneState st lane"
  "getLaneState (st\<lparr>qs_nextPid := n\<rparr>) lane = getLaneState st lane"
  "getLaneState (st\<lparr>qs_gatewayDraining := b\<rparr>) lane = getLaneState st lane"
  "getLaneState (st\<lparr>qs_nextTaskId := n, qs_running := rs, qs_started := ss, qs_waits := ws\<rparr>) lane = getLaneState st lane"
  by (simp_all add: getLaneState_def settle_def)

lemma getLaneState_put [simp]: "getLaneState (put_lane lane l st) lane' = (if lane' = lane then l else getLaneState st lane')"
  by (simp add: getLaneState_def put_lane_def)

lemma put_lane_fields [simp]:
  "qs_running (put_lane lane l st) = qs_running st" "qs_nextPid (put_lane lane l st) = qs_nextPid st"
  "qs_settled (put_lane lane l st) = qs_settled st" "qs_nextTaskId (put_lane lane l st) = qs_nextTaskId st"
  "qs_started (put_lane lane l st) = qs_started st" "qs_gatewayDraining (put_lane lane l st) = qs_gatewayDraining st"
  by (simp_all add: put_lane_def)

lemma settle_fields [simp]:
  "qs_running (settle pid r st) = qs_running st" "qs_nextPid (settle pid r st) = qs_nextPid st"
  "qs_settled (settle pid r st) = qs_settled st @ [(pid, r)]" "qs_nextTaskId (settle pid r st) = qs_nextTaskId st"
  "qs_started (settle pid r st) = qs_started st" "qs_lanes (settle pid r st) = qs_lanes st"
  by (simp_all add: settle_def)

lemma queued_weight_settles [simp]: "queued_weight (fold (\<lambda>e. settle (p e) (r e)) es st) = queued_weight st"
  by (induction es arbitrary: st) simp_all

text \<open>An operation does not enqueue more than it weighs.\<close>

lemma exec_op_weight:
  "exec_op now oper st = (fs, st1) \<Longrightarrow> queued_weight st1 + sum_list (map frame_weight fs) < queued_weight st + op_weight oper"
proof (cases oper)
  case (OpEnqueue lane task w)
  assume "exec_op now oper st = (fs, st1)"
  with OpEnqueue show ?thesis
    by (auto simp: Let_def queued_weight_push split: if_splits)
next
  case (OpClear lane)
  assume "exec_op now oper st = (fs, st1)"
  with OpClear show ?thesis
    using queued_weight_put [of "clean_lane lane" "getLaneState st (clean_lane lane)\<lparr>ln_queue := []\<rparr>" st]
    by (auto simp: Let_def getLaneState_def split: option.splits)
next
  case OpReset
  have z: "sum_list (map (frame_weight \<circ> (\<lambda>(lane, l). DrainLane lane)) ls) = 0" for ls :: "(string, lane_state) js_map"
    by (induction ls) auto
  have "queued_weight (st\<lparr>qs_gatewayDraining := False, qs_lanes := map (\<lambda>(lane, l). (lane, reset_lane l)) (qs_lanes st)\<rparr>) = queued_weight st"
    by (simp add: queued_weight_def comp_def split_def reset_lane_def)
  moreover assume "exec_op now oper st = (fs, st1)"
  ultimately show ?thesis using OpReset z by auto
qed (auto simp: Let_def queued_weight_put_same)

lemma exec_frame_progress:
  assumes "exec_frame now f st = (gs, st1)"
  shows "queued_weight st1 + sum_list (map frame_weight gs) < queued_weight st + frame_weight f \<or>
    (queued_weight st1 + sum_list (map frame_weight gs) = queued_weight st + frame_weight f \<and>
     sum_list (map frame_size gs) < frame_size f)"
proof (cases f)
  case (Ops ops)
  with assms exec_op_weight [of now "hd ops" st] show ?thesis
    by (cases ops) (auto split: prod.splits)
next
  case (Pump lane)
  show ?thesis
  proof (cases "has_room (getLaneState st lane) \<and> ln_queue (getLaneState st lane) \<noteq> []")
    case True
    then obtain e rest where q: "ln_queue (getLaneState st lane) = e # rest" by (cases "ln_queue (getLaneState st lane)") auto
    let ?as = "ln_active (getLaneState st lane) @ [qs_nextTaskId st]"
    have "queued_weight (put_lane lane ((getLaneState st lane)\<lparr>ln_queue := rest, ln_active := ?as\<rparr>) st) + task_weight (qe_task e) =
        queued_weight st"
      using q by (intro queued_weight_shift) simp
    moreover have "sum_list (map op_weight (tk_sync (qe_task e))) < task_weight (qe_task e)" by (cases "qe_task e") simp
    moreover have "exec_frame now f st = start_task now lane e rest st"
      using True q Pump by (simp add: pump_start del: exec_frame.simps)
    with assms have "gs = [Ops (tk_sync (qe_task e))] @ (if tk_throws (qe_task e) then
          [Finished \<lparr>if_taskId = qs_nextTaskId st, if_lane = lane, if_generation = ln_generation (getLaneState st lane), if_pid = qe_pid e\<rparr> TaskRejected]
          else []) @ [Pump lane]"
      and "queued_weight st1 = queued_weight (put_lane lane ((getLaneState st lane)\<lparr>ln_queue := rest, ln_active := ?as\<rparr>) st)"
      by (auto simp: start_task_def Let_def simp del: append_Cons)
    ultimately show ?thesis using Pump by simp
  next
    case False
    then have "exec_frame now f st = ([], put_lane lane ((getLaneState st lane)\<lparr>ln_draining := False\<rparr>) st)"
      using Pump by (simp add: pump_idle del: exec_frame.simps)
    with assms Pump show ?thesis by (auto simp: queued_weight_put_same)
  qed
next
  case (Finished t r)
  with assms show ?thesis
    by (auto simp: finish_task_def completeTask_def Let_def queued_weight_put_same split: if_splits)
qed (use assms in \<open>auto simp: Let_def queued_weight_put_same split: if_splits\<close>)

function run_frames :: "int \<Rightarrow> frame list \<Rightarrow> queue_state \<Rightarrow> queue_state" where
  "run_frames now [] st = st"
| "run_frames now (f # fs) st = (case exec_frame now f st of (gs, st1) \<Rightarrow> run_frames now (gs @ fs) st1)"
  by pat_completeness auto

termination
proof (relation "measures [\<lambda>(now, fs, st). queued_weight st + sum_list (map frame_weight fs), \<lambda>(now, fs, st). sum_list (map frame_size fs)]", simp)
  fix now f fs st gs st1
  assume "(gs, st1) = exec_frame now f st"
  then have "exec_frame now f st = (gs, st1)" by simp
  from exec_frame_progress [OF this]
  show "((now, gs @ fs, st1), now, f # fs, st) \<in> measures [\<lambda>(now, fs, st). queued_weight st + sum_list (map frame_weight fs),
      \<lambda>(now, fs, st). sum_list (map frame_size fs)]"
    by auto
qed

section \<open>The queue as the gateway uses it\<close>

text \<open>
  What may happen in a turn of its own: a call of an exported function, or the settling of the
  promise of a task in flight.
\<close>

datatype queue_event = Call lane_op | TaskDone nat bool

fun queue_step :: "int \<Rightarrow> queue_event \<Rightarrow> queue_state \<Rightarrow> queue_state" where
  "queue_step now (Call oper) st = run_frames now [Ops [oper]] st"
| "queue_step now (TaskDone taskId ok) st =
     (case find (\<lambda>t. if_taskId t = taskId) (qs_running st) of
        None \<Rightarrow> st
      | Some t \<Rightarrow> run_frames now [Finished t (if ok then TaskResolved else TaskRejected)]
                   (st\<lparr>qs_running := remove1 t (qs_running st)\<rparr>))"

definition queue_run :: "(int \<times> queue_event) list \<Rightarrow> queue_state" where
  "queue_run evs = fold (\<lambda>(now, ev). queue_step now ev) evs initial_queue"

definition getQueueSize :: "string \<Rightarrow> queue_state \<Rightarrow> nat" where
  "getQueueSize lane st = (case map_get (qs_lanes st) (clean_lane lane) of
     None \<Rightarrow> 0 | Some state \<Rightarrow> length (ln_queue state) + length (ln_active state))"

definition getTotalQueueSize :: "queue_state \<Rightarrow> nat" where
  "getTotalQueueSize st = sum_list (map (\<lambda>(lane, l). length (ln_queue l) + length (ln_active l)) (qs_lanes st))"

definition getActiveTaskCount :: "queue_state \<Rightarrow> nat" where
  "getActiveTaskCount st = sum_list (map (\<lambda>(lane, l). length (ln_active l)) (qs_lanes st))"

text \<open>
  \<open>waitForActiveTasks\<close>: the ids noted at the start, and one poll at a later time; the next poll
  comes POLL_INTERVAL_MS later when the result is None.
\<close>

definition POLL_INTERVAL_MS :: int where
  "POLL_INTERVAL_MS = 50"

definition active_at_start :: "queue_state \<Rightarrow> nat list" where
  "active_at_start st = js_set_of (concat (map (\<lambda>(lane, l). ln_active l) (qs_lanes st)))"

definition wait_poll :: "nat list \<Rightarrow> int \<Rightarrow> int \<Rightarrow> queue_state \<Rightarrow> bool option" where
  "wait_poll activeAtStart deadline now st =
     (if length activeAtStart = 0 then Some True
      else if \<not> list_ex (\<lambda>(lane, l). list_ex (\<lambda>taskId. taskId \<in> set activeAtStart) (ln_active l)) (qs_lanes st) then Some True
      else if now \<ge> deadline then Some False
      else None)"

section \<open>Invariants of turns\<close>

text \<open>
  The interface of the proofs: a property of what is still to do and of the state that every
  frame keeps, that a call and the end of a task establish, holds between any two events.
\<close>

locale turn_invariant =
  fixes inv :: "frame list \<Rightarrow> queue_state \<Rightarrow> bool" and allowed :: "lane_op \<Rightarrow> bool"
  assumes frame_ok: "inv (f # fs) st \<Longrightarrow> exec_frame now f st = (gs, st1) \<Longrightarrow> inv (gs @ fs) st1"
    and call_ok: "inv [] st \<Longrightarrow> allowed oper \<Longrightarrow> inv [Ops [oper]] st"
    and done_ok: "inv [] st \<Longrightarrow> find (\<lambda>t. if_taskId t = i) (qs_running st) = Some t \<Longrightarrow>
      inv [Finished t r] (st\<lparr>qs_running := remove1 t (qs_running st)\<rparr>)"
    and initial_ok: "inv [] initial_queue"
begin

lemma run_frames_ok: "inv fs st \<Longrightarrow> inv [] (run_frames now fs st)"
proof (induction now fs st rule: run_frames.induct)
  case (2 now f fs st)
  show ?case
  proof (cases "exec_frame now f st")
    case (Pair gs st1)
    from frame_ok [OF 2(2) Pair] 2(1) Pair show ?thesis by simp
  qed
qed simp

lemma step_ok: "inv [] st \<Longrightarrow> (case ev of Call oper \<Rightarrow> allowed oper | TaskDone i ok \<Rightarrow> True) \<Longrightarrow> inv [] (queue_step now ev st)"
  by (cases ev) (auto simp del: run_frames.simps split: option.split intro: run_frames_ok call_ok done_ok)

lemma run_ok:
  assumes "list_all (\<lambda>(now, ev). case ev of Call oper \<Rightarrow> allowed oper | TaskDone i ok \<Rightarrow> True) evs"
  shows "inv [] (queue_run evs)"
proof -
  have "inv [] st \<Longrightarrow> inv [] (fold (\<lambda>(now, ev). queue_step now ev) evs st)" for st
    using assms by (induction evs arbitrary: st) (auto intro!: step_ok)
  then show ?thesis unfolding queue_run_def using initial_ok by blast
qed

end

text \<open>
  First: work is never left with room. A lane marked as draining has a loop to return to, and a
  lane with room and waiting work has one, or a drain, on the stack.
\<close>

definition work_waits :: "lane_state \<Rightarrow> bool" where
  "work_waits l \<longleftrightarrow> has_room l \<and> ln_queue l \<noteq> []"

definition pump_inv :: "frame list \<Rightarrow> queue_state \<Rightarrow> bool" where
  "pump_inv fs st \<longleftrightarrow> (\<forall>lane. (ln_draining (getLaneState st lane) \<longrightarrow> Pump lane \<in> set fs) \<and>
     (work_waits (getLaneState st lane) \<longrightarrow> Pump lane \<in> set fs \<or> DrainLane lane \<in> set fs))"

lemma new_lane_simps [simp]: "ln_queue new_lane = []" "ln_active new_lane = []" "\<not> ln_draining new_lane" "\<not> work_waits new_lane"
  "ln_generation new_lane = 0" "ln_max new_lane = js_int 1"
  by (simp_all add: new_lane_def work_waits_def)

lemma getLaneState_fold [simp]: "getLaneState (fold (\<lambda>e. settle (p e) (r e)) es st) lane = getLaneState st lane"
  by (induction es arbitrary: st) simp_all

lemma getLaneState_reset:
  "getLaneState (st\<lparr>qs_gatewayDraining := b, qs_lanes := map (\<lambda>(lane, l). (lane, f l)) (qs_lanes st)\<rparr>) lane =
     (case map_get (qs_lanes st) lane of None \<Rightarrow> new_lane | Some l \<Rightarrow> f l)"
proof -
  have "map_get (map (\<lambda>(lane, l). (lane, f l)) ls) lane = map_option f (map_get ls lane)" for ls
    by (induction ls) auto
  then show ?thesis by (simp add: getLaneState_def split: option.split)
qed

lemma getLaneState_Some: "map_get (qs_lanes st) lane = Some l \<Longrightarrow> getLaneState st lane = l"
  by (simp add: getLaneState_def)

lemma getLaneState_None: "map_get (qs_lanes st) lane = None \<Longrightarrow> getLaneState st lane = new_lane"
  by (simp add: getLaneState_def)

lemma pump_inv_Ops [simp]: "pump_inv (Ops ops # fs) st = pump_inv fs st" "pump_inv (gs @ Ops ops # fs) st = pump_inv (gs @ fs) st"
  by (simp_all add: pump_inv_def)

lemma reset_drains:
  assumes "exec_op now OpReset st = (gs, st1)" "map_get (qs_lanes st) lane = Some l" "ln_queue l \<noteq> []"
  shows "DrainLane lane \<in> set gs"
proof -
  from assms(2,3) have "(lane, l) \<in> set (filter (\<lambda>(lane, l). ln_queue l \<noteq> []) (qs_lanes st))"
    by (simp add: map_of_SomeD)
  with assms(1) show ?thesis by force
qed

lemma pump_inv_op:
  assumes "pump_inv fs st" "exec_op now oper st = (gs, st1)"
  shows "pump_inv (gs @ fs) st1"
proof (cases oper)
  case OpReset
  show ?thesis unfolding pump_inv_def
  proof (intro allI)
    fix lane
    have "getLaneState st1 lane = (case map_get (qs_lanes st) lane of None \<Rightarrow> new_lane | Some l \<Rightarrow> reset_lane l)"
      using assms(2) OpReset by (auto simp: getLaneState_reset)
    moreover have "\<not> ln_draining (reset_lane l)" "work_waits (reset_lane l) \<longrightarrow> ln_queue l \<noteq> []" for l
      by (simp_all add: reset_lane_def work_waits_def)
    ultimately show "(ln_draining (getLaneState st1 lane) \<longrightarrow> Pump lane \<in> set (gs @ fs)) \<and>
      (work_waits (getLaneState st1 lane) \<longrightarrow> Pump lane \<in> set (gs @ fs) \<or> DrainLane lane \<in> set (gs @ fs))"
      using reset_drains assms(2) OpReset by (auto split: option.splits)
  qed
qed (use assms in \<open>auto simp: pump_inv_def work_waits_def has_room_def Let_def
      split: if_splits option.splits dest: getLaneState_Some\<close>)

interpretation pump: turn_invariant pump_inv "\<lambda>_. True"
proof
  fix f fs st now gs st1
  assume inv: "pump_inv (f # fs) st" and ex: "exec_frame now f st = (gs, st1)"
  show "pump_inv (gs @ fs) st1"
  proof (cases f)
    case (Ops ops)
    with inv ex show ?thesis
      by (cases ops) (auto split: prod.splits intro: pump_inv_op)
  next
    case (Pump lane)
    show ?thesis
    proof (cases "work_waits (getLaneState st lane)")
      case True
      then obtain e rest where q: "ln_queue (getLaneState st lane) = e # rest"
        by (cases "ln_queue (getLaneState st lane)") (auto simp: work_waits_def)
      with True Pump ex have "start_task now lane e rest st = (gs, st1)"
        by (simp add: work_waits_def pump_start del: exec_frame.simps)
      with inv Pump show ?thesis by (auto simp: start_task_def Let_def pump_inv_def split: if_splits)
    next
      case False
      with Pump ex have "gs = [] \<and> st1 = put_lane lane ((getLaneState st lane)\<lparr>ln_draining := False\<rparr>) st"
        by (simp add: work_waits_def pump_idle del: exec_frame.simps)
      with inv Pump False show ?thesis
        by (auto simp: pump_inv_def work_waits_def has_room_def)
    qed
  next
    case (Finished t r)
    with inv ex show ?thesis
      by (auto simp: finish_task_def completeTask_def Let_def pump_inv_def work_waits_def has_room_def split: if_splits)
  qed (use inv ex in \<open>auto simp: pump_inv_def work_waits_def has_room_def Let_def split: if_splits\<close>)
qed (auto simp: pump_inv_def initial_queue_def getLaneState_def)

text \<open>
  Second: slots. Every active id of a lane is the id of a task in flight, started on this lane
  in its current generation; limits are at least one, or NaN.
\<close>

fun frame_flights :: "frame \<Rightarrow> in_flight list" where
  "frame_flights (Finished t r) = [t]"
| "frame_flights _ = []"

definition flights :: "frame list \<Rightarrow> queue_state \<Rightarrow> in_flight list" where
  "flights fs st = qs_running st @ concat (map frame_flights fs)"

definition holds_slot :: "string \<Rightarrow> lane_state \<Rightarrow> nat \<Rightarrow> in_flight \<Rightarrow> bool" where
  "holds_slot lane l i t \<longleftrightarrow> if_taskId t = i \<and> if_lane t = lane \<and> if_generation t = ln_generation l"

definition slot_inv :: "frame list \<Rightarrow> queue_state \<Rightarrow> bool" where
  "slot_inv fs st \<longleftrightarrow> distinct (map if_taskId (flights fs st)) \<and>
     (\<forall>t \<in> set (flights fs st). if_taskId t < qs_nextTaskId st) \<and>
     (\<forall>lane. \<forall>i \<in> set (ln_active (getLaneState st lane)). \<exists>t \<in> set (flights fs st). holds_slot lane (getLaneState st lane) i t) \<and>
     (\<forall>lane. ln_max (getLaneState st lane) = NaN \<or> js_le (js_int 1) (ln_max (getLaneState st lane)))"

lemma slot_inv_cong:
  assumes "mset (flights fs st) = mset (flights fs' st')" "qs_nextTaskId st = qs_nextTaskId st'"
    "\<And>lane. getLaneState st lane = getLaneState st' lane"
  shows "slot_inv fs st = slot_inv fs' st'"
  unfolding slot_inv_def assms(2,3) mset_eq_setD [OF assms(1)]
  using assms(1) mset_eq_imp_distinct_iff [of "map if_taskId (flights fs st)" "map if_taskId (flights fs' st')"] by simp

lemma clamp_one: "clamp_floor 1 n = NaN \<or> js_le (Fin 1) (clamp_floor 1 n)"
  by (cases n) auto

lemma slot_inv_op:
  assumes "slot_inv fs st" "exec_op now oper st = (gs, st1)"
  shows "slot_inv (gs @ fs) st1"
proof -
  have fl: "flights (gs @ fs) st1 = flights fs st" "qs_nextTaskId st1 = qs_nextTaskId st"
  proof -
    have r: "qs_running (fold (\<lambda>e. settle (p e) (r e)) es s) = qs_running s"
      "qs_nextTaskId (fold (\<lambda>e. settle (p e) (r e)) es s) = qs_nextTaskId s" for p r es s
      by (induction es arbitrary: s) (simp_all add: settle_def)
    have d: "concat (map (frame_flights \<circ> (\<lambda>(lane, l). DrainLane lane)) ls) = []" for ls :: "(string, lane_state) js_map"
      by (induction ls) auto
    show "flights (gs @ fs) st1 = flights fs st" "qs_nextTaskId st1 = qs_nextTaskId st"
      using assms(2) by (cases oper; auto simp: flights_def Let_def put_lane_def settle_def r d split: if_splits option.splits)+
  qed
  have lane: "(ln_active (getLaneState st1 lane) = [] \<or>
      (ln_active (getLaneState st1 lane) = ln_active (getLaneState st lane) \<and>
       ln_generation (getLaneState st1 lane) = ln_generation (getLaneState st lane))) \<and>
    (ln_max (getLaneState st1 lane) = ln_max (getLaneState st lane) \<or> (\<exists>n. ln_max (getLaneState st1 lane) = clamp_floor 1 n))" for lane
  proof (cases oper)
    case OpReset
    with assms(2) show ?thesis
      by (auto simp: getLaneState_reset reset_lane_def getLaneState_None getLaneState_Some split: option.split)
  qed (use assms(2) in \<open>auto simp: Let_def split: if_splits option.splits dest: getLaneState_Some\<close>)
  show ?thesis unfolding slot_inv_def fl
  proof (intro conjI allI ballI)
    show "\<exists>t \<in> set (flights fs st). holds_slot lane (getLaneState st1 lane) i t" if "i \<in> set (ln_active (getLaneState st1 lane))" for lane i
      using that lane [of lane] assms(1) by (auto simp: slot_inv_def holds_slot_def)
    show "ln_max (getLaneState st1 lane) = NaN \<or> js_le (js_int 1) (ln_max (getLaneState st1 lane))" for lane
      using lane [of lane] assms(1) clamp_one by (fastforce simp: slot_inv_def)
  qed (use assms(1) in \<open>auto simp: slot_inv_def\<close>)
qed

lemma slot_inv_start:
  assumes "slot_inv (Pump lane # fs) st" "start_task now lane e rest st = (gs, st1)"
  shows "slot_inv (gs @ fs) st1"
proof -
  let ?t = "\<lparr>if_taskId = qs_nextTaskId st, if_lane = lane, if_generation = ln_generation (getLaneState st lane), if_pid = qe_pid e\<rparr>"
  have fl: "mset (flights (gs @ fs) st1) = mset (?t # flights fs st)"
    using assms(2) by (auto simp: start_task_def Let_def flights_def put_lane_def)
  have st1: "qs_nextTaskId st1 = qs_nextTaskId st + 1"
    "getLaneState st1 k = (if k = lane then (getLaneState st lane)
       \<lparr>ln_queue := rest, ln_active := ln_active (getLaneState st lane) @ [qs_nextTaskId st]\<rparr> else getLaneState st k)" for k
    using assms(2) by (auto simp: start_task_def Let_def)
  have "mset (map if_taskId (flights (gs @ fs) st1)) = mset (map if_taskId (?t # flights fs st))"
    using fl by simp
  moreover have "distinct (map if_taskId (?t # flights fs st))"
    using assms(1) by (auto simp: slot_inv_def flights_def)
  ultimately have "distinct (map if_taskId (flights (gs @ fs) st1))"
    by (metis mset_eq_imp_distinct_iff)
  moreover have "set (flights (gs @ fs) st1) = insert ?t (set (flights fs st))"
    using mset_eq_setD [OF fl] by simp
  ultimately show ?thesis
    using assms(1) unfolding slot_inv_def by (auto simp: st1 flights_def holds_slot_def less_Suc_eq)
qed

lemma slot_inv_finish:
  assumes "slot_inv (Finished t r # fs) st" "finish_task t r st = (gs, st1)"
  shows "slot_inv (gs @ fs) st1"
proof -
  have fl: "flights (gs @ fs) st1 = flights fs st" "qs_nextTaskId st1 = qs_nextTaskId st"
    using assms(2) by (auto simp: finish_task_def completeTask_def Let_def flights_def put_lane_def split: if_splits)
  have "mset (flights (Finished t r # fs) st) = mset (t # flights fs st)" by (simp add: flights_def)
  with assms(1) have ids: "distinct (map if_taskId (t # flights fs st))" and set: "set (flights (Finished t r # fs) st) = insert t (set (flights fs st))"
    unfolding slot_inv_def by (metis mset_map mset_eq_imp_distinct_iff, metis mset_eq_setD list.simps(15))
  have keep: "i \<noteq> if_taskId t \<and> holds_slot k (getLaneState st k) i t' \<longrightarrow> t' \<noteq> t" for i k t' by (auto simp: holds_slot_def)
  have gen: "ln_generation (getLaneState st1 k) = ln_generation (getLaneState st k)" "ln_max (getLaneState st1 k) = ln_max (getLaneState st k)" for k
    using assms(2) by (auto simp: finish_task_def completeTask_def Let_def split: if_splits)
  have act: "i \<in> set (ln_active (getLaneState st k)) \<and> \<not> holds_slot k (getLaneState st k) i t"
    if "i \<in> set (ln_active (getLaneState st1 k))" for i k
    using that assms(2) by (auto simp: finish_task_def completeTask_def Let_def holds_slot_def split: if_splits)
  show ?thesis unfolding slot_inv_def fl gen
  proof (intro conjI allI ballI)
    fix k i assume "i \<in> set (ln_active (getLaneState st1 k))"
    with act have a: "i \<in> set (ln_active (getLaneState st k))" "\<not> holds_slot k (getLaneState st k) i t" by blast+
    with assms(1) set show "\<exists>t \<in> set (flights fs st). holds_slot k (getLaneState st1 k) i t"
      by (auto simp: slot_inv_def holds_slot_def gen)
  qed (use assms(1) ids set in \<open>auto simp: slot_inv_def\<close>)
qed

interpretation slot: turn_invariant slot_inv "\<lambda>_. True"
proof
  fix f fs st now gs st1
  assume inv: "slot_inv (f # fs) st" and ex: "exec_frame now f st = (gs, st1)"
  have same: "slot_inv (gs @ fs) st1" if "frame_flights f = []" "concat (map frame_flights gs) = []"
      "qs_running st1 = qs_running st" "qs_nextTaskId st1 = qs_nextTaskId st"
      "\<And>k. ln_active (getLaneState st1 k) = ln_active (getLaneState st k) \<and> ln_max (getLaneState st1 k) = ln_max (getLaneState st k) \<and>
         ln_generation (getLaneState st1 k) = ln_generation (getLaneState st k)"
  proof -
    have "flights (gs @ fs) st1 = flights (f # fs) st"
      using that(1-3) by (simp add: flights_def del: concat_eq_Nil_conv)
    with inv that(4,5) show ?thesis by (simp add: slot_inv_def holds_slot_def)
  qed
  show "slot_inv (gs @ fs) st1"
  proof (cases f)
    case (Ops ops)
    have skip: "slot_inv (Ops ops # fs) st = slot_inv fs st" "slot_inv (hs @ Ops ops # fs) st = slot_inv (hs @ fs) st" for hs ops st
      by (intro slot_inv_cong; simp add: flights_def)+
    show ?thesis using inv ex Ops by (cases ops) (auto simp: skip split: prod.splits intro: slot_inv_op)
  next
    case (Pump lane)
    show ?thesis
    proof (cases "has_room (getLaneState st lane) \<and> ln_queue (getLaneState st lane) \<noteq> []")
      case True
      then obtain e rest where "ln_queue (getLaneState st lane) = e # rest" by (cases "ln_queue (getLaneState st lane)") auto
      with True Pump ex inv slot_inv_start show ?thesis by (simp add: pump_start del: exec_frame.simps)
    next
      case False
      with Pump ex have "gs = []" "st1 = put_lane lane ((getLaneState st lane)\<lparr>ln_draining := False\<rparr>) st"
        by (simp_all add: pump_idle del: exec_frame.simps)
      then show ?thesis using inv Pump by (intro same) (auto simp: put_lane_def getLaneState_def)
    qed
  next
    case (Finished t r)
    with inv ex slot_inv_finish show ?thesis by simp
  next
    case (DrainLane lane)
    with ex have "gs \<in> {[], [Pump lane]}" "st1 = st \<or> st1 = put_lane lane ((getLaneState st lane)\<lparr>ln_draining := True\<rparr>) st"
      by (auto simp: Let_def split: if_splits)
    then show ?thesis using inv DrainLane by (intro same) (auto simp: put_lane_def getLaneState_def)
  next
    case (Settle pid r)
    with ex have "gs = []" "st1 = settle pid r st" by auto
    then show ?thesis using inv Settle by (intro same) (auto simp: settle_def getLaneState_def)
  qed
next
  fix st oper assume "slot_inv [] st"
  then show "slot_inv [Ops [oper]] st" by (simp add: slot_inv_def flights_def)
next
  fix st i t r assume inv: "slot_inv [] st" and "find (\<lambda>t. if_taskId t = i) (qs_running st) = Some t"
  then have "t \<in> set (qs_running st)" by (auto dest: find_Some_iff')
  then have "mset (flights [Finished t r] (st\<lparr>qs_running := remove1 t (qs_running st)\<rparr>)) = mset (flights [] st)"
    by (simp add: flights_def)
  from slot_inv_cong [OF this] inv show "slot_inv [Finished t r] (st\<lparr>qs_running := remove1 t (qs_running st)\<rparr>)"
    by (simp add: getLaneState_def)
qed (auto simp: slot_inv_def initial_queue_def getLaneState_def flights_def)

text \<open>
  Third: every promise handed out is in exactly one place: queued in a lane, held by a task in
  flight or by a frame of the turn, or settled.
\<close>

fun frame_pids :: "frame \<Rightarrow> nat list" where
  "frame_pids (Finished t r) = [if_pid t]"
| "frame_pids (Settle pid r) = [pid]"
| "frame_pids _ = []"

definition lane_pids :: "lane_state \<Rightarrow> nat multiset" where
  "lane_pids l = mset (map qe_pid (ln_queue l))"

definition queued_pids :: "queue_state \<Rightarrow> nat multiset" where
  "queued_pids st = sum_list (map (\<lambda>(lane, l). lane_pids l) (qs_lanes st))"

definition other_pids :: "frame list \<Rightarrow> queue_state \<Rightarrow> nat multiset" where
  "other_pids fs st = mset (map if_pid (qs_running st)) + mset (concat (map frame_pids fs)) + mset (map fst (qs_settled st))"

definition account_inv :: "frame list \<Rightarrow> queue_state \<Rightarrow> bool" where
  "account_inv fs st \<longleftrightarrow> queued_pids st + other_pids fs st = mset [0..<qs_nextPid st]"

lemma queued_pids_put:
  "queued_pids (put_lane lane l st) + lane_pids (getLaneState st lane) = queued_pids st + lane_pids l"
  using sum_list_update_alist [of lane_pids lane l "qs_lanes st"]
  by (cases "map_get (qs_lanes st) lane") (simp_all add: queued_pids_def put_lane_def getLaneState_def lane_pids_def)

lemma queued_pids_put_same [simp]:
  "ln_queue l = ln_queue (getLaneState st lane) \<Longrightarrow> queued_pids (put_lane lane l st) = queued_pids st"
  using queued_pids_put [of lane l st] by (simp add: lane_pids_def)

lemma queued_pids_push:
  "ln_queue l = ln_queue (getLaneState st lane) @ [e] \<Longrightarrow> queued_pids (put_lane lane l st) = add_mset (qe_pid e) (queued_pids st)"
  using queued_pids_put [of lane l st] by (simp add: lane_pids_def)

lemma queued_pids_shift:
  "ln_queue (getLaneState st lane) = e # ln_queue l \<Longrightarrow> add_mset (qe_pid e) (queued_pids (put_lane lane l st)) = queued_pids st"
  using queued_pids_put [of lane l st] by (simp add: lane_pids_def)

lemma queued_pids_clear:
  "ln_queue l = [] \<Longrightarrow> queued_pids (put_lane lane l st) + lane_pids (getLaneState st lane) = queued_pids st"
  using queued_pids_put [of lane l st] by (simp add: lane_pids_def)

lemma queued_pids_frame [simp]:
  "queued_pids (settle pid r st) = queued_pids st"
  "queued_pids (st\<lparr>qs_nextPid := n\<rparr>) = queued_pids st"
  "queued_pids (st\<lparr>qs_gatewayDraining := b\<rparr>) = queued_pids st"
  "queued_pids (st\<lparr>qs_running := rs\<rparr>) = queued_pids st"
  "queued_pids (st\<lparr>qs_nextTaskId := n, qs_running := rs, qs_started := ss, qs_waits := ws\<rparr>) = queued_pids st"
  by (simp_all add: queued_pids_def settle_def)

lemma queued_pids_settles [simp]: "queued_pids (fold (\<lambda>e. settle (p e) (r e)) es st) = queued_pids st"
  by (induction es arbitrary: st) simp_all

lemma settles_fields:
  "qs_nextPid (fold (\<lambda>e. settle (p e) (r e)) es st) = qs_nextPid st"
  "qs_running (fold (\<lambda>e. settle (p e) (r e)) es st) = qs_running st"
  "qs_started (fold (\<lambda>e. settle (p e) (r e)) es st) = qs_started st"
  "image_mset fst (mset (qs_settled (fold (\<lambda>e. settle (p e) (r e)) es st))) = image_mset fst (mset (qs_settled st)) + image_mset p (mset es)"
  by (induction es arbitrary: st) (simp_all add: settle_def)

lemma account_inv_op:
  assumes "account_inv fs st" "exec_op now oper st = (gs, st1)"
  shows "account_inv (gs @ fs) st1"
proof (cases oper)
  case (OpEnqueue lane task w)
  show ?thesis
  proof (cases "qs_gatewayDraining st")
    case True
    with OpEnqueue assms show ?thesis
      by (auto simp: account_inv_def other_pids_def settle_def Let_def queued_pids_def simp del: mset_upt)
  next
    case False
    let ?c = "clean_lane lane"
    let ?e = "\<lparr>qe_pid = qs_nextPid st, qe_task = task, qe_enqueuedAt = now, qe_warnAfterMs = nullish w 2000\<rparr>"
    let ?l = "(getLaneState st ?c)\<lparr>ln_queue := ln_queue (getLaneState st ?c) @ [?e]\<rparr>"
    have "queued_pids (put_lane ?c ?l (st\<lparr>qs_nextPid := qs_nextPid st + 1\<rparr>)) = add_mset (qs_nextPid st) (queued_pids st)"
      using queued_pids_push [of ?l "st\<lparr>qs_nextPid := qs_nextPid st + 1\<rparr>" ?c ?e] by simp
    with False OpEnqueue assms show ?thesis
      by (auto simp: account_inv_def other_pids_def Let_def simp del: mset_upt)
  qed
next
  case (OpClear lane)
  show ?thesis
  proof (cases "map_get (qs_lanes st) (clean_lane lane)")
    case (Some l)
    let ?st = "put_lane (clean_lane lane) (l\<lparr>ln_queue := []\<rparr>) st"
    have "queued_pids st = queued_pids ?st + lane_pids l"
      using queued_pids_clear [of "l\<lparr>ln_queue := []\<rparr>" "clean_lane lane" st] getLaneState_Some [OF Some] by simp
    then show ?thesis
      using assms OpClear Some by (auto simp: account_inv_def other_pids_def Let_def settles_fields lane_pids_def ac_simps)
  qed (use assms OpClear in \<open>simp add: Let_def\<close>)
next
  case OpReset
  have d: "concat (map (frame_pids \<circ> (\<lambda>(lane, l). DrainLane lane)) ls) = []" for ls :: "(string, lane_state) js_map"
    by (induction ls) auto
  have "queued_pids (st\<lparr>qs_gatewayDraining := False, qs_lanes := map (\<lambda>(lane, l). (lane, reset_lane l)) (qs_lanes st)\<rparr>) = queued_pids st"
    by (simp add: queued_pids_def comp_def split_def lane_pids_def reset_lane_def)
  with assms OpReset show ?thesis
    by (auto simp: account_inv_def other_pids_def d simp del: concat_eq_Nil_conv)
qed (use assms in \<open>auto simp: account_inv_def other_pids_def Let_def\<close>)

interpretation account: turn_invariant account_inv "\<lambda>_. True"
proof
  fix f fs st now gs st1
  assume inv: "account_inv (f # fs) st" and ex: "exec_frame now f st = (gs, st1)"
  show "account_inv (gs @ fs) st1"
  proof (cases f)
    case (Ops ops)
    have skip: "account_inv (Ops ops # fs) st = account_inv fs st" "account_inv (hs @ Ops ops # fs) st = account_inv (hs @ fs) st" for hs ops st
      by (simp_all add: account_inv_def other_pids_def)
    show ?thesis using inv ex Ops by (cases ops) (auto simp: skip split: prod.splits intro: account_inv_op)
  next
    case (Pump lane)
    show ?thesis
    proof (cases "has_room (getLaneState st lane) \<and> ln_queue (getLaneState st lane) \<noteq> []")
      case True
      then obtain e rest where q: "ln_queue (getLaneState st lane) = e # rest" by (cases "ln_queue (getLaneState st lane)") auto
      let ?l = "(getLaneState st lane)\<lparr>ln_queue := rest, ln_active := ln_active (getLaneState st lane) @ [qs_nextTaskId st]\<rparr>"
      have "queued_pids st = add_mset (qe_pid e) (queued_pids (put_lane lane ?l st))"
        using queued_pids_shift [of st lane e ?l] q by simp
      moreover have "start_task now lane e rest st = (gs, st1)"
        using True q Pump ex by (simp add: pump_start del: exec_frame.simps)
      ultimately show ?thesis using inv Pump
        by (auto simp: start_task_def Let_def account_inv_def other_pids_def split: if_splits)
    next
      case False
      with Pump ex have "gs = []" "st1 = put_lane lane ((getLaneState st lane)\<lparr>ln_draining := False\<rparr>) st"
        by (simp_all add: pump_idle del: exec_frame.simps)
      then show ?thesis using inv Pump by (simp add: account_inv_def other_pids_def)
    qed
  qed (use inv ex in \<open>auto simp: account_inv_def other_pids_def finish_task_def completeTask_def Let_def split: if_splits\<close>)
next
  fix st i t r assume inv: "account_inv [] st" and "find (\<lambda>t. if_taskId t = i) (qs_running st) = Some t"
  then have "t \<in> set (qs_running st)" by (auto dest: find_Some_iff')
  then have "add_mset (if_pid t) (mset (map if_pid (remove1 t (qs_running st)))) = mset (map if_pid (qs_running st))"
    by (metis image_mset_add_mset insert_DiffM mset_map mset_remove1 set_mset_mset)
  with inv show "account_inv [Finished t r] (st\<lparr>qs_running := remove1 t (qs_running st)\<rparr>)"
    by (simp add: account_inv_def other_pids_def)
qed (auto simp: account_inv_def other_pids_def initial_queue_def queued_pids_def)

text \<open>
  Fourth: order and limits. The promises started on a lane and those waiting in it form one
  increasing sequence, and while no operation raises the limit of the lane above \<open>M\<close>, at most
  \<open>M\<close> slots of it are held.
\<close>

definition limit_le :: "nat \<Rightarrow> js_num \<Rightarrow> bool" where
  "limit_le M n \<longleftrightarrow> n = NaN \<or> js_le n (js_int (int M))"

primrec op_limited :: "string \<Rightarrow> nat \<Rightarrow> lane_op \<Rightarrow> bool" and task_limited :: "string \<Rightarrow> nat \<Rightarrow> task \<Rightarrow> bool" where
  "op_limited L M (OpEnqueue lane t w) = task_limited L M t"
| "op_limited L M (OpSetConcurrency lane n) = (clean_lane lane = L \<longrightarrow> limit_le M (clamp_floor 1 n))"
| "op_limited L M (OpClear lane) = True"
| "op_limited L M OpReset = True"
| "op_limited L M OpMarkDraining = True"
| "task_limited L M (Task ops throws) = list_all id (map (op_limited L M) ops)"

definition started_on :: "string \<Rightarrow> queue_state \<Rightarrow> nat list" where
  "started_on lane st = map snd (filter (\<lambda>(k, pid). k = lane) (qs_started st))"

definition lane_order :: "string \<Rightarrow> queue_state \<Rightarrow> nat list" where
  "lane_order lane st = started_on lane st @ map qe_pid (ln_queue (getLaneState st lane))"

fun frame_limited :: "string \<Rightarrow> nat \<Rightarrow> frame \<Rightarrow> bool" where
  "frame_limited L M (Ops ops) = list_all (op_limited L M) ops"
| "frame_limited L M _ = True"

definition order_inv :: "string \<Rightarrow> nat \<Rightarrow> frame list \<Rightarrow> queue_state \<Rightarrow> bool" where
  "order_inv L M fs st \<longleftrightarrow> sorted_wrt (<) (lane_order L st) \<and> list_all (\<lambda>pid. pid < qs_nextPid st) (lane_order L st) \<and>
     length (ln_active (getLaneState st L)) \<le> M \<and> limit_le M (ln_max (getLaneState st L)) \<and>
     list_all (frame_limited L M) fs \<and> (\<forall>lane. list_all (\<lambda>e. task_limited L M (qe_task e)) (ln_queue (getLaneState st lane)))"

lemma room_below_limit: "limit_le M (ln_max l) \<Longrightarrow> has_room l \<Longrightarrow> length (ln_active l) < M"
  by (cases "ln_max l") (auto simp: limit_le_def has_room_def)

lemma started_on_frame [simp]:
  "started_on lane (put_lane k l st) = started_on lane st" "started_on lane (settle pid r st) = started_on lane st"
  "started_on lane (st\<lparr>qs_nextPid := n\<rparr>) = started_on lane st" "started_on lane (st\<lparr>qs_running := rs\<rparr>) = started_on lane st"
  "started_on lane (st\<lparr>qs_gatewayDraining := b\<rparr>) = started_on lane st"
  "started_on lane (st\<lparr>qs_gatewayDraining := b, qs_lanes := ls\<rparr>) = started_on lane st"
  "started_on lane (fold (\<lambda>e. settle (p e) (r' e)) es st) = started_on lane st"
  by (simp_all add: started_on_def settles_fields)

lemma order_inv_op:
  assumes "order_inv L M fs st" "op_limited L M oper" "exec_op now oper st = (gs, st1)"
  shows "order_inv L M (gs @ fs) st1"
proof (cases oper)
  case OpReset
  have d: "list_all (frame_limited L M) (map (\<lambda>(lane, l). DrainLane lane) ls)" for ls :: "(string, lane_state) js_map"
    by (induction ls) auto
  have lane: "ln_queue (getLaneState st1 k) = ln_queue (getLaneState st k)" "ln_max (getLaneState st1 k) = ln_max (getLaneState st k)"
    "ln_active (getLaneState st1 k) = []" for k
    using assms(3) OpReset by (auto simp: getLaneState_reset reset_lane_def getLaneState_None getLaneState_Some split: option.split)
  with assms OpReset d show ?thesis
    by (auto simp: order_inv_def lane_order_def)
next
  case (OpEnqueue lane task w)
  with assms show ?thesis
    by (auto simp: order_inv_def lane_order_def Let_def sorted_wrt_append list_all_iff less_Suc_eq split: if_splits)
next
  case (OpClear lane)
  with assms show ?thesis
    by (auto simp: order_inv_def lane_order_def Let_def sorted_wrt_append settles_fields dest: getLaneState_Some split: option.splits if_splits)
qed (use assms in \<open>auto simp: order_inv_def lane_order_def Let_def\<close>)

lemma order_inv_limits:
  assumes "1 \<le> M"
  shows "turn_invariant (order_inv L M) (op_limited L M)"
proof
  fix f fs st now gs st1
  assume inv: "order_inv L M (f # fs) st" and ex: "exec_frame now f st = (gs, st1)"
  show "order_inv L M (gs @ fs) st1"
  proof (cases f)
    case (Ops ops)
    show ?thesis
    proof (cases ops)
      case (Cons oper rest)
      obtain hs where h: "exec_op now oper st = (hs, st1)" "gs = hs @ [Ops rest]"
        using ex Ops Cons by (auto split: prod.splits)
      have "order_inv L M fs st" "op_limited L M oper" "list_all (op_limited L M) rest"
        using inv Ops Cons by (auto simp: order_inv_def)
      with order_inv_op [OF _ _ h(1)] h(2) show ?thesis by (auto simp: order_inv_def)
    qed (use inv ex Ops in \<open>auto simp: order_inv_def\<close>)
  next
    case (Pump lane)
    show ?thesis
    proof (cases "has_room (getLaneState st lane) \<and> ln_queue (getLaneState st lane) \<noteq> []")
      case True
      then obtain e rest where q: "ln_queue (getLaneState st lane) = e # rest" by (cases "ln_queue (getLaneState st lane)") auto
      let ?l = "(getLaneState st lane)\<lparr>ln_queue := rest, ln_active := ln_active (getLaneState st lane) @ [qs_nextTaskId st]\<rparr>"
      have start: "start_task now lane e rest st = (gs, st1)"
        using True q Pump ex by (simp add: pump_start del: exec_frame.simps)
      then have st1: "qs_started st1 = qs_started st @ [(lane, qe_pid e)]" "qs_nextPid st1 = qs_nextPid st"
        "getLaneState st1 k = (if k = lane then ?l else getLaneState st k)" for k
        by (auto simp: start_task_def Let_def)
      have order: "lane_order L st1 = lane_order L st"
        using q by (cases "lane = L") (auto simp: lane_order_def started_on_def st1)
      have "task_limited L M (qe_task e)" using inv q by (auto simp: order_inv_def dest: spec [of _ lane])
      then have "list_all (op_limited L M) (tk_sync (qe_task e))" by (cases "qe_task e") (simp add: list_all_iff)
      then have gs: "list_all (frame_limited L M) gs" using start by (auto simp: start_task_def Let_def split: if_splits)
      have "length (ln_active (getLaneState st1 L)) \<le> M"
        using inv room_below_limit [of M "getLaneState st lane"] True by (auto simp: order_inv_def st1 Suc_le_eq)
      moreover have "list_all (\<lambda>e. task_limited L M (qe_task e)) (ln_queue (getLaneState st1 k))" for k
        using inv q by (auto simp: order_inv_def st1 dest: spec [of _ lane])
      ultimately show ?thesis using inv gs order by (auto simp: order_inv_def st1)
    next
      case False
      with Pump ex have "gs = []" "st1 = put_lane lane ((getLaneState st lane)\<lparr>ln_draining := False\<rparr>) st"
        by (simp_all add: pump_idle del: exec_frame.simps)
      then show ?thesis using inv by (auto simp: order_inv_def lane_order_def)
    qed
  next
    case (Finished t r)
    have shorter: "length xs \<le> M \<Longrightarrow> length (removeAll x xs) \<le> M" for x :: nat and xs
      by (rule order_trans [OF length_removeAll_less_eq])
    then show ?thesis using inv ex Finished
      by (auto simp: order_inv_def lane_order_def finish_task_def completeTask_def Let_def intro: shorter split: if_splits)
  qed (use inv ex in \<open>auto simp: order_inv_def lane_order_def Let_def split: if_splits\<close>)
next
  show "order_inv L M [] initial_queue"
    using assms by (simp add: order_inv_def lane_order_def started_on_def initial_queue_def getLaneState_def limit_le_def)
qed (auto simp: order_inv_def lane_order_def getLaneState_def started_on_def list_all_iff)

interpretation order: turn_invariant "order_inv L (Suc M)" "op_limited L (Suc M)" for L M
  by (rule order_inv_limits) simp

section \<open>What the queue promises\<close>

lemma all_calls: "list_all (\<lambda>(now, ev). case ev of Call oper \<Rightarrow> True | TaskDone i ok \<Rightarrow> True) evs"
  by (auto simp: list_all_iff split: queue_event.split)

text \<open>
  C30: The queue never stalls. After any calls and completions, whatever the tasks do to the
  queue while they start, no lane is marked as draining, a lane with waiting work has no room,
  and every slot that is held belongs to a task in flight of this lane and generation; so when
  nothing is in flight, nothing waits, except in a lane whose limit was set to NaN.
\<close>

theorem queue_never_stalls:
  "\<not> ln_draining (getLaneState (queue_run evs) lane) \<and>
   (ln_queue (getLaneState (queue_run evs) lane) = [] \<or> \<not> has_room (getLaneState (queue_run evs) lane)) \<and>
   (set (ln_active (getLaneState (queue_run evs) lane)) \<subseteq> if_taskId ` set (filter (\<lambda>t. if_lane t = lane \<and>
      if_generation t = ln_generation (getLaneState (queue_run evs) lane)) (qs_running (queue_run evs)))) \<and>
   (qs_running (queue_run evs) \<noteq> [] \<or> ln_queue (getLaneState (queue_run evs) lane) = [] \<or>
      ln_max (getLaneState (queue_run evs) lane) = NaN)"
proof -
  let ?st = "queue_run evs" let ?l = "getLaneState ?st lane"
  from pump.run_ok [OF all_calls] have p: "\<not> ln_draining ?l" "\<not> work_waits ?l" by (auto simp: pump_inv_def)
  from slot.run_ok [OF all_calls] have s: "\<forall>i \<in> set (ln_active ?l). \<exists>t \<in> set (qs_running ?st). holds_slot lane ?l i t"
    and m: "ln_max ?l = NaN \<or> js_le (js_int 1) (ln_max ?l)" by (simp_all add: slot_inv_def flights_def)
  from s have "set (ln_active ?l) \<subseteq> if_taskId ` set (filter (\<lambda>t. if_lane t = lane \<and> if_generation t = ln_generation ?l) (qs_running ?st))"
    by (fastforce simp: holds_slot_def image_iff)
  moreover have "has_room ?l \<or> ln_max ?l = NaN" if "ln_active ?l = []"
    using m that by (cases "ln_max ?l") (auto simp: has_room_def)
  ultimately show ?thesis using p by (auto simp: work_waits_def)
qed

text \<open>
  C31: No promise is lost and none is settled twice. After any calls and completions, the
  promises handed out are exactly those waiting in a lane, those of the tasks in flight and those
  that were settled, each once: clearing a lane, resetting all lanes and the drain before a
  restart included.
\<close>

theorem queue_accounts_for_promises:
  "queued_pids (queue_run evs) + mset (map if_pid (qs_running (queue_run evs))) + mset (map fst (qs_settled (queue_run evs))) =
   mset [0..<qs_nextPid (queue_run evs)]"
  using account.run_ok [OF all_calls, of evs] by (simp add: account_inv_def other_pids_def ac_simps)

text \<open>
  C32: Lanes are ordered and bounded. The tasks of a lane start in the order in which they were
  enqueued, and those still waiting come later; and if no call, made from outside or by a task,
  sets the limit of the lane above \<open>M + 1\<close>, never more than \<open>M + 1\<close> of its slots are held.
\<close>

theorem queue_order_and_limit:
  assumes "list_all (\<lambda>(now, ev). case ev of Call oper \<Rightarrow> op_limited lane (Suc M) oper | TaskDone i ok \<Rightarrow> True) evs"
  shows "sorted_wrt (<) (started_on lane (queue_run evs) @ map qe_pid (ln_queue (getLaneState (queue_run evs) lane))) \<and>
    length (ln_active (getLaneState (queue_run evs) lane)) \<le> Suc M"
  using order.run_ok [OF assms] by (auto simp: order_inv_def lane_order_def)

definition sample_events :: "(int \<times> queue_event) list" where
  "sample_events = [(0, Call (OpEnqueue '' main '' (Task [OpEnqueue ''main'' (Task [] True) None] False) None)),
     (1, Call (OpEnqueue ''main'' (Task [] False) None)), (5, TaskDone 1 True)]"

lemma queue_order_and_limit_witness:
  "length (ln_active (getLaneState (queue_run sample_events) ''main'')) \<le> 1"
  using queue_order_and_limit [of "''main''" 0 sample_events] by (simp add: sample_events_def)

theorem queue_never_stalls_witness:
  "qs_running (queue_run (sample_events @ [(6, TaskDone 3 True)])) = [] \<and>
   ln_queue (getLaneState (queue_run (sample_events @ [(6, TaskDone 3 True)])) ''main'') = []"
proof -
  have "qs_running (queue_run (sample_events @ [(6, TaskDone 3 True)])) = [] \<and>
      ln_max (getLaneState (queue_run (sample_events @ [(6, TaskDone 3 True)])) ''main'') \<noteq> NaN" by code_simp
  with queue_never_stalls [of "sample_events @ [(6, TaskDone 3 True)]" "''main''"] show ?thesis by simp
qed

text \<open>A task enqueued by a task, one that throws at once, and a second call: all in order.\<close>

lemma sample_events_run:
  "started_on ''main'' (queue_run sample_events) = [0, 1, 2] \<and> map fst (qs_settled (queue_run sample_events)) = [1, 0]"
  by code_simp

text \<open>
  The wait before a restart: a poll reports drained exactly when no task that was active at the
  start still is, whatever was started since, and at the deadline at the latest there is an answer.
\<close>

lemma wait_poll_result:
  "(wait_poll (active_at_start st0) deadline now st = Some True) =
     (\<forall>i \<in> set (active_at_start st0). \<forall>(lane, l) \<in> set (qs_lanes st). i \<notin> set (ln_active l))"
  "deadline \<le> now \<Longrightarrow> wait_poll ids deadline now st \<noteq> None"
  by (auto simp: wait_poll_def list_ex_iff)

end
