(* ===== verification/DevicePairing.thy ===== *)
theory DevicePairing
  imports OperatorScopes
begin

text \<open>
  Pairing of devices and their tokens: src/infra/device-pairing.ts with the shared parts
  src/infra/pairing-pending.ts, src/infra/pairing-token.ts and \<open>pruneExpiredPending\<close> of
  src/infra/pairing-files.ts. The store is the content of the two JSON files; every operation
  holds the lock from its load to its write and is one step here. The clock, request ids and
  fresh tokens are arguments; tokens are compared through their SHA-256, a parameter.
\<close>

section \<open>Records\<close>

record pending_device =
  pq_requestId :: string
  pq_deviceId :: string
  pq_publicKey :: string
  pq_displayName :: "string option"
  pq_platform :: "string option"
  pq_deviceFamily :: "string option"
  pq_clientId :: "string option"
  pq_clientMode :: "string option"
  pq_role :: "string option"
  pq_roles :: "string list option"
  pq_scopes :: "string list option"
  pq_remoteIp :: "string option"
  pq_silent :: "bool option"
  pq_isRepair :: "bool option"
  pq_ts :: int

record device_token =
  dt_token :: string
  dt_role :: string
  dt_scopes :: "string list"
  dt_createdAtMs :: int
  dt_rotatedAtMs :: "int option"
  dt_revokedAtMs :: "int option"
  dt_lastUsedAtMs :: "int option"

record paired_device =
  pd_deviceId :: string
  pd_publicKey :: string
  pd_displayName :: "string option"
  pd_platform :: "string option"
  pd_deviceFamily :: "string option"
  pd_clientId :: "string option"
  pd_clientMode :: "string option"
  pd_role :: "string option"
  pd_roles :: "string list option"
  pd_scopes :: "string list option"
  pd_approvedScopes :: "string list option"
  pd_remoteIp :: "string option"
  pd_tokens :: "(string, device_token) js_map option"
  pd_createdAtMs :: int
  pd_approvedAtMs :: int

record pairing_store =
  ps_pending :: "(string, pending_device) js_map"
  ps_paired :: "(string, paired_device) js_map"

text \<open>What a device sends, without the fields the gateway adds.\<close>

record pairing_request =
  pr_deviceId :: string
  pr_publicKey :: string
  pr_displayName :: "string option"
  pr_platform :: "string option"
  pr_deviceFamily :: "string option"
  pr_clientId :: "string option"
  pr_clientMode :: "string option"
  pr_role :: "string option"
  pr_scopes :: "string list option"
  pr_remoteIp :: "string option"
  pr_silent :: "bool option"

definition PENDING_TTL_MS :: int where
  "PENDING_TTL_MS = 5 * 60 * 1000"

definition pruneExpiredPending :: "int \<Rightarrow> int \<Rightarrow> (string, pending_device) js_map \<Rightarrow> (string, pending_device) js_map" where
  "pruneExpiredPending nowMs ttlMs pendingById = filter (\<lambda>(i, req). \<not> (nowMs - pq_ts req > ttlMs)) pendingById"

definition loadState :: "int \<Rightarrow> pairing_store \<Rightarrow> pairing_store" where
  "loadState now st = st\<lparr>ps_pending := pruneExpiredPending now PENDING_TTL_MS (ps_pending st)\<rparr>"

definition normalizeDeviceId :: "string \<Rightarrow> string" where
  "normalizeDeviceId deviceId = trim deviceId"

definition normalizeRole :: "string option \<Rightarrow> string option" where
  "normalizeRole role = (case role of None \<Rightarrow> None | Some r \<Rightarrow> str_opt (trim r))"

text \<open>The items of \<open>mergeRoles\<close>: a role, a list of roles, or undefined.\<close>

datatype role_item = RoleText "string option" | RoleList "string list option"

fun add_role_item :: "role_item \<Rightarrow> string list \<Rightarrow> string list" where
  "add_role_item (RoleText None) roles = roles"
| "add_role_item (RoleText (Some r)) roles = (if trim r \<noteq> [] then set_add (trim r) roles else roles)"
| "add_role_item (RoleList None) roles = roles"
| "add_role_item (RoleList (Some rs)) roles = fold (\<lambda>r acc. if trim r \<noteq> [] then set_add (trim r) acc else acc) rs roles"

definition mergeRoles :: "role_item list \<Rightarrow> string list option" where
  "mergeRoles items = (let roles = fold add_role_item items [] in if length roles = 0 then None else Some roles)"

definition mergeScopes :: "string list option list \<Rightarrow> string list option" where
  "mergeScopes items = (let scopes = fold (\<lambda>item acc. add_role_item (RoleList item) acc) items [] in
     if length scopes = 0 then None else Some scopes)"

definition mergePendingDevicePairingRequest :: "int \<Rightarrow> pending_device \<Rightarrow> pairing_request \<Rightarrow> bool \<Rightarrow> pending_device" where
  "mergePendingDevicePairingRequest now existing incoming isRepair =
     existing\<lparr>pq_displayName := nullish_opt (pr_displayName incoming) (pq_displayName existing),
       pq_platform := nullish_opt (pr_platform incoming) (pq_platform existing),
       pq_deviceFamily := nullish_opt (pr_deviceFamily incoming) (pq_deviceFamily existing),
       pq_clientId := nullish_opt (pr_clientId incoming) (pq_clientId existing),
       pq_clientMode := nullish_opt (pr_clientMode incoming) (pq_clientMode existing),
       pq_role := nullish_opt (normalizeRole (pq_role existing)) (normalizeRole (pr_role incoming)),
       pq_roles := mergeRoles [RoleList (pq_roles existing), RoleText (pq_role existing), RoleText (pr_role incoming)],
       pq_scopes := mergeScopes [pq_scopes existing, pr_scopes incoming],
       pq_remoteIp := nullish_opt (pr_remoteIp incoming) (pq_remoteIp existing),
       pq_silent := Some (pq_silent existing = Some True \<and> pr_silent incoming = Some True),
       pq_isRepair := Some (pq_isRepair existing = Some True \<or> isRepair),
       pq_ts := now\<rparr>"

section \<open>Scopes\<close>

definition scopesAllow :: "string list \<Rightarrow> string list \<Rightarrow> bool" where
  "scopesAllow requested allowed = (if length requested = 0 then True else if length allowed = 0 then False
     else list_all (\<lambda>scope. scope \<in> set allowed) requested)"

definition DEVICE_SCOPE_IMPLICATIONS :: "string \<Rightarrow> string list" where
  "DEVICE_SCOPE_IMPLICATIONS scope =
     (if scope = ''operator.admin'' then [''operator.read'', ''operator.write'', ''operator.approvals'', ''operator.pairing'']
      else if scope = ''operator.write'' then [''operator.read''] else [])"

text \<open>The inner loop: the implied scopes that are new, added to the set and pushed on the queue.\<close>

fun add_implied :: "string list \<Rightarrow> string list \<Rightarrow> string list \<Rightarrow> string list \<times> string list" where
  "add_implied [] expanded queue = (expanded, queue)"
| "add_implied (s # ss) expanded queue =
     (if s \<notin> set expanded then add_implied ss (expanded @ [s]) (queue @ [s]) else add_implied ss expanded queue)"

definition implied_universe :: "string set" where
  "implied_universe = {''operator.read'', ''operator.write'', ''operator.approvals'', ''operator.pairing''}"

lemma implied_in_universe: "set (DEVICE_SCOPE_IMPLICATIONS s) \<subseteq> implied_universe"
  by (auto simp: DEVICE_SCOPE_IMPLICATIONS_def implied_universe_def)

lemma add_implied_result:
  assumes "add_implied ss expanded queue = (expanded', queue')"
  shows "\<exists>new. expanded' = expanded @ new \<and> queue' = queue @ new \<and> set new = set ss - set expanded \<and> distinct new"
  using assms
proof (induction ss arbitrary: expanded queue)
  case (Cons s ss)
  show ?case
  proof (cases "s \<in> set expanded")
    case False
    with Cons.prems have "add_implied ss (expanded @ [s]) (queue @ [s]) = (expanded', queue')" by simp
    from Cons.IH [OF this] obtain new where "expanded' = expanded @ s # new" "queue' = queue @ s # new"
      "set new = set ss - insert s (set expanded)" "distinct new" by auto
    with False show ?thesis by (intro exI [of _ "s # new"]) auto
  qed (use Cons in auto)
qed simp

text \<open>The worklist loop; \<open>queue.pop()\<close> takes the last element.\<close>

function expand_loop :: "string list \<Rightarrow> string list \<Rightarrow> string list" where
  "expand_loop expanded queue =
     (if queue = [] then expanded
      else if last queue = [] then expand_loop expanded (butlast queue)
      else case add_implied (DEVICE_SCOPE_IMPLICATIONS (last queue)) expanded (butlast queue) of
        (expanded', queue') \<Rightarrow> expand_loop expanded' queue')"
  by pat_completeness auto

termination
proof (relation "measures [\<lambda>(expanded, queue). card (implied_universe - set expanded), \<lambda>(expanded, queue). length queue]", simp)
  fix expanded queue e' q' :: "string list"
  assume q: "queue \<noteq> []" and "(e', q') = add_implied (DEVICE_SCOPE_IMPLICATIONS (last queue)) expanded (butlast queue)"
  then have "add_implied (DEVICE_SCOPE_IMPLICATIONS (last queue)) expanded (butlast queue) = (e', q')" by simp
  from add_implied_result [OF this] obtain new where new: "e' = expanded @ new" "q' = butlast queue @ new"
    "set new = set (DEVICE_SCOPE_IMPLICATIONS (last queue)) - set expanded" by blast
  have fin: "finite implied_universe" by (simp add: implied_universe_def)
  show "((e', q'), expanded, queue) \<in> measures [\<lambda>(expanded, queue). card (implied_universe - set expanded), \<lambda>(expanded, queue). length queue]"
  proof (cases "new = []")
    case True
    with new q show ?thesis by simp
  next
    case False
    then obtain s where "s \<in> set new" by (cases new) auto
    with new(3) implied_in_universe have "s \<in> implied_universe - set expanded" by blast
    then have "implied_universe - set e' \<subset> implied_universe - set expanded"
      using \<open>s \<in> set new\<close> new(1) by auto
    with fin show ?thesis by (simp add: psubset_card_mono)
  qed
qed simp

declare expand_loop.simps [simp del]

definition expandScopeImplications :: "string list \<Rightarrow> string list" where
  "expandScopeImplications scopes = expand_loop (js_set_of scopes) scopes"

definition scopesAllowWithImplications :: "string list \<Rightarrow> string list \<Rightarrow> bool" where
  "scopesAllowWithImplications requested allowed =
     scopesAllow (expandScopeImplications requested) (expandScopeImplications allowed)"

section \<open>Operations\<close>

definition truthy_int :: "int option \<Rightarrow> bool" where
  "truthy_int n = (n \<noteq> None \<and> n \<noteq> Some 0)"

definition getPairedDeviceFromState :: "pairing_store \<Rightarrow> string \<Rightarrow> paired_device option" where
  "getPairedDeviceFromState st deviceId = map_get (ps_paired st) (normalizeDeviceId deviceId)"

definition cloneDeviceTokens :: "paired_device \<Rightarrow> (string, device_token) js_map" where
  "cloneDeviceTokens device = nullish (pd_tokens device) []"

definition buildDeviceAuthToken ::
    "string \<Rightarrow> string \<Rightarrow> string list \<Rightarrow> device_token option \<Rightarrow> int \<Rightarrow> int option \<Rightarrow> device_token" where
  "buildDeviceAuthToken fresh role scopes existing now rotatedAtMs =
     \<lparr>dt_token = fresh, dt_role = role, dt_scopes = scopes,
      dt_createdAtMs = nullish (map_option dt_createdAtMs existing) now, dt_rotatedAtMs = rotatedAtMs,
      dt_revokedAtMs = None, dt_lastUsedAtMs = Option.bind existing dt_lastUsedAtMs\<rparr>"

definition listDevicePairing :: "int \<Rightarrow> pairing_store \<Rightarrow> pending_device list \<times> paired_device list" where
  "listDevicePairing now st0 = (let st = loadState now st0 in
     (sort_key (\<lambda>r. - pq_ts r) (map snd (ps_pending st)), sort_key (\<lambda>d. - pd_approvedAtMs d) (map snd (ps_paired st))))"

definition getPairedDevice :: "int \<Rightarrow> string \<Rightarrow> pairing_store \<Rightarrow> paired_device option" where
  "getPairedDevice now deviceId st = map_get (ps_paired (loadState now st)) (normalizeDeviceId deviceId)"

definition requestDevicePairing ::
    "int \<Rightarrow> string \<Rightarrow> pairing_request \<Rightarrow> pairing_store \<Rightarrow> (string + pending_device \<times> bool) \<times> pairing_store" where
  "requestDevicePairing now uuid req st0 = (let st = loadState now st0; deviceId = normalizeDeviceId (pr_deviceId req) in
     if deviceId = [] then (Inl ''deviceId required'', st0)
     else let isRepair = (map_get (ps_paired st) deviceId \<noteq> None) in
       case find (\<lambda>pending. pq_deviceId pending = deviceId) (map snd (ps_pending st)) of
         Some existing \<Rightarrow> (let merged = mergePendingDevicePairingRequest now existing req isRepair in
           (Inr (merged, False), st\<lparr>ps_pending := map_set (pq_requestId existing) merged (ps_pending st)\<rparr>))
       | None \<Rightarrow> (let request = \<lparr>pq_requestId = uuid, pq_deviceId = deviceId, pq_publicKey = pr_publicKey req,
             pq_displayName = pr_displayName req, pq_platform = pr_platform req, pq_deviceFamily = pr_deviceFamily req,
             pq_clientId = pr_clientId req, pq_clientMode = pr_clientMode req, pq_role = pr_role req,
             pq_roles = (case pr_role req of None \<Rightarrow> None | Some r \<Rightarrow> if r = [] then None else Some [r]),
             pq_scopes = pr_scopes req, pq_remoteIp = pr_remoteIp req, pq_silent = pr_silent req,
             pq_isRepair = Some isRepair, pq_ts = now\<rparr> in
           (Inr (request, True), st\<lparr>ps_pending := map_set uuid request (ps_pending st)\<rparr>)))"

text \<open>The token of an approved request, and the tokens of the device after it.\<close>

definition approved_tokens ::
    "int \<Rightarrow> string \<Rightarrow> pending_device \<Rightarrow> paired_device option \<Rightarrow> string list option \<Rightarrow> (string, device_token) js_map" where
  "approved_tokens now fresh pending existing approvedScopes =
     (let tokens = nullish (Option.bind existing pd_tokens) [] in
      case normalizeRole (pq_role pending) of None \<Rightarrow> tokens
      | Some roleForToken \<Rightarrow>
          (let existingToken = map_get tokens roleForToken;
               requestedScopes = normalizeDeviceAuthScopes (pq_scopes pending);
               nextScopes = (if length requestedScopes > 0 then requestedScopes
                 else normalizeDeviceAuthScopes (nullish_opt (map_option dt_scopes existingToken)
                        (nullish_opt approvedScopes (nullish_opt (Option.bind existing pd_approvedScopes)
                          (Option.bind existing pd_scopes))))) in
           map_set roleForToken (buildDeviceAuthToken fresh roleForToken nextScopes existingToken now
             (if existingToken \<noteq> None then Some now else None)) tokens))"

definition approved_device :: "int \<Rightarrow> string \<Rightarrow> pending_device \<Rightarrow> paired_device option \<Rightarrow> paired_device" where
  "approved_device now fresh pending existing =
     (let roles = mergeRoles [RoleList (Option.bind existing pd_roles), RoleText (Option.bind existing pd_role),
                    RoleList (pq_roles pending), RoleText (pq_role pending)];
          approvedScopes = mergeScopes [nullish_opt (Option.bind existing pd_approvedScopes) (Option.bind existing pd_scopes),
                    pq_scopes pending] in
      \<lparr>pd_deviceId = pq_deviceId pending, pd_publicKey = pq_publicKey pending,
       pd_displayName = pq_displayName pending, pd_platform = pq_platform pending,
       pd_deviceFamily = pq_deviceFamily pending, pd_clientId = pq_clientId pending,
       pd_clientMode = pq_clientMode pending, pd_role = pq_role pending, pd_roles = roles,
       pd_scopes = approvedScopes, pd_approvedScopes = approvedScopes, pd_remoteIp = pq_remoteIp pending,
       pd_tokens = Some (approved_tokens now fresh pending existing approvedScopes),
       pd_createdAtMs = nullish (map_option pd_createdAtMs existing) now, pd_approvedAtMs = now\<rparr>)"

definition approveDevicePairing ::
    "int \<Rightarrow> string \<Rightarrow> string \<Rightarrow> pairing_store \<Rightarrow> (string \<times> paired_device) option \<times> pairing_store" where
  "approveDevicePairing now fresh requestId st0 = (let st = loadState now st0 in
     case map_get (ps_pending st) requestId of None \<Rightarrow> (None, st0)
     | Some pending \<Rightarrow>
        (let device = approved_device now fresh pending (map_get (ps_paired st) (pq_deviceId pending)) in
         (Some (requestId, device), \<lparr>ps_pending = map_delete requestId (ps_pending st),
            ps_paired = map_set (pd_deviceId device) device (ps_paired st)\<rparr>)))"

text \<open>\<open>rejectPendingPairingRequest\<close> for devices.\<close>

definition rejectDevicePairing :: "int \<Rightarrow> string \<Rightarrow> pairing_store \<Rightarrow> (string \<times> string) option \<times> pairing_store" where
  "rejectDevicePairing now requestId st0 = (let st = loadState now st0 in
     case map_get (ps_pending st) requestId of None \<Rightarrow> (None, st0)
     | Some pending \<Rightarrow> (Some (requestId, pq_deviceId pending), st\<lparr>ps_pending := map_delete requestId (ps_pending st)\<rparr>))"

definition removePairedDevice :: "int \<Rightarrow> string \<Rightarrow> pairing_store \<Rightarrow> string option \<times> pairing_store" where
  "removePairedDevice now deviceId st0 = (let st = loadState now st0; normalized = normalizeDeviceId deviceId in
     if normalized = [] \<or> map_get (ps_paired st) normalized = None then (None, st0)
     else (Some normalized, st\<lparr>ps_paired := map_delete normalized (ps_paired st)\<rparr>))"

definition clearDevicePairing :: "int \<Rightarrow> string \<Rightarrow> pairing_store \<Rightarrow> bool \<times> pairing_store" where
  "clearDevicePairing now deviceId st0 = (let st = loadState now st0; normalizedId = normalizeDeviceId deviceId in
     if map_get (ps_paired st) normalizedId = None then (False, st0)
     else (True, st\<lparr>ps_paired := map_delete normalizedId (ps_paired st)\<rparr>))"

text \<open>
  A patch of the access metadata, the fields the gateway sends; None is an absent key, Some None
  a key whose value is undefined.
\<close>

record metadata_patch =
  mp_displayName :: "string option option"
  mp_clientId :: "string option option"
  mp_clientMode :: "string option option"
  mp_role :: "string option option"
  mp_scopes :: "string list option option"
  mp_remoteIp :: "string option option"

definition updatePairedDeviceMetadata :: "int \<Rightarrow> string \<Rightarrow> metadata_patch \<Rightarrow> pairing_store \<Rightarrow> pairing_store" where
  "updatePairedDeviceMetadata now deviceId patch st0 = (let st = loadState now st0 in
     case map_get (ps_paired st) (normalizeDeviceId deviceId) of None \<Rightarrow> st0
     | Some existing \<Rightarrow>
        (let roles = mergeRoles [RoleList (pd_roles existing), RoleText (pd_role existing), RoleText (Option.bind (mp_role patch) id)];
             scopes = mergeScopes [pd_scopes existing, Option.bind (mp_scopes patch) id] in
         st\<lparr>ps_paired := map_set deviceId (existing\<lparr>
           pd_displayName := nullish (mp_displayName patch) (pd_displayName existing),
           pd_clientId := nullish (mp_clientId patch) (pd_clientId existing),
           pd_clientMode := nullish (mp_clientMode patch) (pd_clientMode existing),
           pd_remoteIp := nullish (mp_remoteIp patch) (pd_remoteIp existing),
           pd_role := nullish_opt (Option.bind (mp_role patch) id) (pd_role existing),
           pd_roles := roles, pd_scopes := scopes\<rparr>) (ps_paired st)\<rparr>))"

text \<open>The comparison of tokens; \<open>sha\<close> is SHA-256.\<close>

definition verifyPairingToken :: "(string \<Rightarrow> string) \<Rightarrow> string \<Rightarrow> string \<Rightarrow> bool" where
  "verifyPairingToken sha provided expected = (sha provided = sha expected)"

definition put_device :: "paired_device \<Rightarrow> pairing_store \<Rightarrow> pairing_store" where
  "put_device device st = st\<lparr>ps_paired := map_set (pd_deviceId device) device (ps_paired st)\<rparr>"

definition verifyDeviceToken ::
    "(string \<Rightarrow> string) \<Rightarrow> int \<Rightarrow> string \<Rightarrow> string \<Rightarrow> string \<Rightarrow> string list \<Rightarrow> pairing_store \<Rightarrow> (string + unit) \<times> pairing_store" where
  "verifyDeviceToken sha now deviceId token givenRole scopes st0 = (let st = loadState now st0 in
     case getPairedDeviceFromState st deviceId of None \<Rightarrow> (Inl ''device-not-paired'', st0)
     | Some device \<Rightarrow> (case normalizeRole (Some givenRole) of None \<Rightarrow> (Inl ''role-missing'', st0)
       | Some role \<Rightarrow> (case map_get (nullish (pd_tokens device) []) role of None \<Rightarrow> (Inl ''token-missing'', st0)
         | Some entry \<Rightarrow>
             if truthy_int (dt_revokedAtMs entry) then (Inl ''token-revoked'', st0)
             else if \<not> verifyPairingToken sha token (dt_token entry) then (Inl ''token-mismatch'', st0)
             else if \<not> roleScopesAllow role (normalizeDeviceAuthScopes (Some scopes)) (dt_scopes entry)
             then (Inl ''scope-mismatch'', st0)
             else (Inr (), put_device (device\<lparr>pd_tokens :=
                    Some (map_set role (entry\<lparr>dt_lastUsedAtMs := Some now\<rparr>) (nullish (pd_tokens device) []))\<rparr>) st))))"

record token_context =
  tc_device :: paired_device
  tc_role :: string
  tc_tokens :: "(string, device_token) js_map"
  tc_existing :: "device_token option"

definition resolveDeviceTokenUpdateContext :: "pairing_store \<Rightarrow> string \<Rightarrow> string \<Rightarrow> token_context option" where
  "resolveDeviceTokenUpdateContext st deviceId givenRole = (case getPairedDeviceFromState st deviceId of None \<Rightarrow> None
     | Some device \<Rightarrow> (case normalizeRole (Some givenRole) of None \<Rightarrow> None
       | Some role \<Rightarrow> (let tokens = cloneDeviceTokens device in
           Some \<lparr>tc_device = device, tc_role = role, tc_tokens = tokens, tc_existing = map_get tokens role\<rparr>)))"

definition put_token :: "token_context \<Rightarrow> device_token \<Rightarrow> pairing_store \<Rightarrow> pairing_store" where
  "put_token ctx next st = put_device ((tc_device ctx)\<lparr>pd_tokens := Some (map_set (tc_role ctx) next (tc_tokens ctx))\<rparr>) st"

definition ensureDeviceToken ::
    "int \<Rightarrow> string \<Rightarrow> string \<Rightarrow> string \<Rightarrow> string list \<Rightarrow> pairing_store \<Rightarrow> device_token option \<times> pairing_store" where
  "ensureDeviceToken now fresh deviceId givenRole scopes st0 = (let st = loadState now st0;
       requestedScopes = normalizeDeviceAuthScopes (Some scopes) in
     case resolveDeviceTokenUpdateContext st deviceId givenRole of None \<Rightarrow> (None, st0)
     | Some ctx \<Rightarrow>
        (let issue = buildDeviceAuthToken fresh (tc_role ctx) requestedScopes (tc_existing ctx) now
               (if tc_existing ctx \<noteq> None then Some now else None) in
         case tc_existing ctx of
           Some existing \<Rightarrow> if \<not> truthy_int (dt_revokedAtMs existing) \<and> roleScopesAllow (tc_role ctx) requestedScopes (dt_scopes existing)
             then (Some existing, st0) else (Some issue, put_token ctx issue st)
         | None \<Rightarrow> (Some issue, put_token ctx issue st)))"

definition rotateDeviceToken ::
    "int \<Rightarrow> string \<Rightarrow> string \<Rightarrow> string \<Rightarrow> string list option \<Rightarrow> pairing_store \<Rightarrow> device_token option \<times> pairing_store" where
  "rotateDeviceToken now fresh deviceId givenRole scopes st0 = (let st = loadState now st0 in
     case resolveDeviceTokenUpdateContext st deviceId givenRole of None \<Rightarrow> (None, st0)
     | Some ctx \<Rightarrow>
        (let device = tc_device ctx; existing = tc_existing ctx;
             requestedScopes = normalizeDeviceAuthScopes (nullish_opt scopes (nullish_opt (map_option dt_scopes existing) (pd_scopes device)));
             approvedScopes = normalizeDeviceAuthScopes (nullish_opt (pd_approvedScopes device)
                (nullish_opt (pd_scopes device) (map_option dt_scopes existing))) in
         if \<not> scopesAllowWithImplications requestedScopes approvedScopes then (None, st0)
         else let next = buildDeviceAuthToken fresh (tc_role ctx) requestedScopes existing now (Some now) in
           (Some next, put_token ctx next st)))"

definition revokeDeviceToken :: "int \<Rightarrow> string \<Rightarrow> string \<Rightarrow> pairing_store \<Rightarrow> device_token option \<times> pairing_store" where
  "revokeDeviceToken now deviceId givenRole st0 = (let st = loadState now st0 in
     case map_get (ps_paired st) (normalizeDeviceId deviceId) of None \<Rightarrow> (None, st0)
     | Some device \<Rightarrow> (case normalizeRole (Some givenRole) of None \<Rightarrow> (None, st0)
       | Some role \<Rightarrow> (case map_get (nullish (pd_tokens device) []) role of None \<Rightarrow> (None, st0)
         | Some old \<Rightarrow> (let entry = old\<lparr>dt_revokedAtMs := Some now\<rparr> in
             (Some entry, put_device (device\<lparr>pd_tokens := Some (map_set role entry (nullish (pd_tokens device) []))\<rparr>) st)))))"

text \<open>The summary of a device's tokens, without the secrets; \<open>collate\<close> is the key of localeCompare.\<close>

definition summarizeDeviceTokens ::
    "(string \<Rightarrow> nat) \<Rightarrow> (string, device_token) js_map option \<Rightarrow> (string \<times> string list \<times> int \<times> int option \<times> int option \<times> int option) list option" where
  "summarizeDeviceTokens collate tokens = (case tokens of None \<Rightarrow> None
     | Some ts \<Rightarrow> (let summaries = sort_key (\<lambda>s. collate (fst s)) (map (\<lambda>(role, t). (dt_role t, dt_scopes t, dt_createdAtMs t,
                        dt_rotatedAtMs t, dt_revokedAtMs t, dt_lastUsedAtMs t)) ts) in
         if length summaries > 0 then Some summaries else None))"

section \<open>Implied scopes\<close>

text \<open>The reference: a scope and what it implies, which is closed in one step.\<close>

definition implied_by :: "string set \<Rightarrow> string set" where
  "implied_by S = S \<union> (\<Union>s \<in> S. set (DEVICE_SCOPE_IMPLICATIONS s))"

lemma implied_closed: "s \<in> implied_by S \<Longrightarrow> set (DEVICE_SCOPE_IMPLICATIONS s) \<subseteq> implied_by S"
  by (auto simp: implied_by_def DEVICE_SCOPE_IMPLICATIONS_def split: if_splits)

lemma implied_by_mono: "S \<subseteq> T \<Longrightarrow> implied_by S \<subseteq> implied_by T"
  by (auto simp: implied_by_def)

lemma implied_by_idem [simp]: "implied_by (implied_by S) = implied_by S"
  using implied_closed by (auto simp: implied_by_def [of "implied_by S"])

lemma implied_by_subset_iff: "implied_by S \<subseteq> implied_by T \<longleftrightarrow> S \<subseteq> implied_by T"
  using implied_by_mono [of S "implied_by T"] by (auto simp: implied_by_def [of S])

lemma expand_loop_result:
  assumes "set queue \<subseteq> set expanded"
    and "\<And>s. s \<in> set expanded \<Longrightarrow> s \<in> set queue \<or> set (DEVICE_SCOPE_IMPLICATIONS s) \<subseteq> set expanded"
  shows "set (expand_loop expanded queue) = implied_by (set expanded)"
  using assms
proof (induction expanded queue rule: expand_loop.induct)
  case (1 expanded queue)
  show ?case
  proof (cases "queue = []")
    case True
    then have "expand_loop expanded queue = expanded" by (subst expand_loop.simps) simp
    with True 1(4) show ?thesis by (auto simp: implied_by_def)
  next
    case False
    have split: "set queue = insert (last queue) (set (butlast queue))"
      using False by (metis append_butlast_last_id list.set(2) rotate1.simps(2) set_rotate1)
    show ?thesis
    proof (cases "last queue = []")
      case True
      have "set (expand_loop expanded (butlast queue)) = implied_by (set expanded)"
      proof (rule 1(1) [OF False True])
        show "set (butlast queue) \<subseteq> set expanded" using 1(3) split by auto
        show "s \<in> set (butlast queue) \<or> set (DEVICE_SCOPE_IMPLICATIONS s) \<subseteq> set expanded" if "s \<in> set expanded" for s
          using 1(4) [OF that] split True by (auto simp: DEVICE_SCOPE_IMPLICATIONS_def)
      qed
      with False True show ?thesis by (subst expand_loop.simps) simp
    next
      case ne: False
      obtain e' q' where e: "add_implied (DEVICE_SCOPE_IMPLICATIONS (last queue)) expanded (butlast queue) = (e', q')"
        by (cases "add_implied (DEVICE_SCOPE_IMPLICATIONS (last queue)) expanded (butlast queue)")
      from add_implied_result [OF this] obtain new where new: "e' = expanded @ new" "q' = butlast queue @ new"
        "set new = set (DEVICE_SCOPE_IMPLICATIONS (last queue)) - set expanded" by blast
      have mem: "last queue \<in> set expanded" using 1(3) split by auto
      have "set (expand_loop e' q') = implied_by (set e')"
      proof (rule 1(2) [OF False ne e [symmetric]])
        show "set q' \<subseteq> set e'" using new 1(3) split by auto
        show "s \<in> set q' \<or> set (DEVICE_SCOPE_IMPLICATIONS s) \<subseteq> set e'" if "s \<in> set e'" for s
          using that new 1(4) [of s] split by auto
      qed
      also have "\<dots> = implied_by (set expanded)"
        using new mem implied_closed [of _ "set expanded"] by (auto simp: implied_by_def)
      finally show ?thesis using False ne e by (subst expand_loop.simps) simp
    qed
  qed
qed

lemma set_expand: "set (expandScopeImplications scopes) = implied_by (set scopes)"
  unfolding expandScopeImplications_def by (subst expand_loop_result) auto

text \<open>
  The worklist of scope implications computes the closure. For every list of scopes the
  loop ends with exactly the scopes listed and those they imply; so a request is within an
  approval exactly when each requested scope is approved or implied by an approved one.
\<close>

theorem scope_implications_exact:
  "set (expandScopeImplications scopes) = set scopes \<union> (\<Union>s \<in> set scopes. set (DEVICE_SCOPE_IMPLICATIONS s)) \<and>
   (scopesAllowWithImplications requested allowed = (set requested \<subseteq> set (expandScopeImplications allowed)))"
proof
  show "set (expandScopeImplications scopes) = set scopes \<union> (\<Union>s \<in> set scopes. set (DEVICE_SCOPE_IMPLICATIONS s))"
    by (simp add: set_expand implied_by_def)
  have "scopesAllow r a \<longleftrightarrow> set r \<subseteq> set a" for r a
    by (auto simp: scopesAllow_def list_all_iff)
  then show "scopesAllowWithImplications requested allowed = (set requested \<subseteq> set (expandScopeImplications allowed))"
    by (simp add: scopesAllowWithImplications_def set_expand implied_by_subset_iff)
qed

lemma device_scopes_iff: "scopesAllowWithImplications r a \<longleftrightarrow> set r \<subseteq> implied_by (set a)"
proof -
  have "scopesAllow r a \<longleftrightarrow> set r \<subseteq> set a" for r a
    by (auto simp: scopesAllow_def list_all_iff)
  then show ?thesis by (simp add: scopesAllowWithImplications_def set_expand implied_by_subset_iff)
qed

interpretation device_scopes: admin_scope_authority scopesAllowWithImplications
proof
  fix granted s
  assume "''operator.admin'' \<in> set granted"
  then have "scope_name s \<in> implied_by (set granted)"
    by (cases s) (force simp: implied_by_def DEVICE_SCOPE_IMPLICATIONS_def)+
  then show "scopesAllowWithImplications [scope_name s] granted" by (simp add: device_scopes_iff)
qed (auto simp: device_scopes_iff intro: subsetD [OF implied_by_mono])

section \<open>Runs of the store\<close>

datatype pairing_op =
    RequestOp string pairing_request
  | ApproveOp string string
  | RejectOp string
  | RemoveOp string
  | ClearOp string
  | UpdateOp string metadata_patch
  | VerifyOp string string string "string list"
  | EnsureOp string string string "string list"
  | RotateOp string string string "string list option"
  | RevokeOp string string

text \<open>
  One operation: the id or token generated comes first; \<open>sha\<close> is SHA-256 and the time is the
  clock while the lock is held.
\<close>

fun pairing_step :: "(string \<Rightarrow> string) \<Rightarrow> int \<Rightarrow> pairing_op \<Rightarrow> pairing_store \<Rightarrow> pairing_store" where
  "pairing_step sha now (RequestOp uuid req) st = snd (requestDevicePairing now uuid req st)"
| "pairing_step sha now (ApproveOp fresh requestId) st = snd (approveDevicePairing now fresh requestId st)"
| "pairing_step sha now (RejectOp requestId) st = snd (rejectDevicePairing now requestId st)"
| "pairing_step sha now (RemoveOp deviceId) st = snd (removePairedDevice now deviceId st)"
| "pairing_step sha now (ClearOp deviceId) st = snd (clearDevicePairing now deviceId st)"
| "pairing_step sha now (UpdateOp deviceId patch) st = updatePairedDeviceMetadata now deviceId patch st"
| "pairing_step sha now (VerifyOp deviceId token role scopes) st = snd (verifyDeviceToken sha now deviceId token role scopes st)"
| "pairing_step sha now (EnsureOp fresh deviceId role scopes) st = snd (ensureDeviceToken now fresh deviceId role scopes st)"
| "pairing_step sha now (RotateOp fresh deviceId role scopes) st = snd (rotateDeviceToken now fresh deviceId role scopes st)"
| "pairing_step sha now (RevokeOp deviceId role) st = snd (revokeDeviceToken now deviceId role st)"

definition empty_store :: pairing_store where
  "empty_store = \<lparr>ps_pending = [], ps_paired = []\<rparr>"

definition pairing_run :: "(string \<Rightarrow> string) \<Rightarrow> (int \<times> pairing_op) list \<Rightarrow> pairing_store \<Rightarrow> pairing_store" where
  "pairing_run sha ops st = fold (\<lambda>(now, oper). pairing_step sha now oper) ops st"

lemma approved_device_fields [simp]:
  "pd_deviceId (approved_device now fresh pending existing) = pq_deviceId pending"
  "pd_approvedScopes (approved_device now fresh pending existing) =
     mergeScopes [nullish_opt (Option.bind existing pd_approvedScopes) (Option.bind existing pd_scopes), pq_scopes pending]"
  "pd_scopes (approved_device now fresh pending existing) = pd_approvedScopes (approved_device now fresh pending existing)"
  "pd_tokens (approved_device now fresh pending existing) =
     Some (approved_tokens now fresh pending existing (pd_approvedScopes (approved_device now fresh pending existing)))"
  by (simp_all add: approved_device_def Let_def)

text \<open>What every operation does to the paired devices: one entry is set, one removed, or none.\<close>

lemma loadState_paired [simp]: "ps_paired (loadState now st) = ps_paired st"
  by (simp add: loadState_def)

lemma put_device_paired [simp]: "ps_paired (put_device d st) = map_set (pd_deviceId d) d (ps_paired st)"
  by (simp add: put_device_def)

lemma resolve_context:
  assumes "resolveDeviceTokenUpdateContext st deviceId givenRole = Some ctx"
  obtains device role where "map_get (ps_paired st) (trim deviceId) = Some device" "role = trim givenRole" "role \<noteq> []"
    "ctx = \<lparr>tc_device = device, tc_role = role, tc_tokens = nullish (pd_tokens device) [],
            tc_existing = map_get (nullish (pd_tokens device) []) role\<rparr>"
  using assms by (auto simp: resolveDeviceTokenUpdateContext_def getPairedDeviceFromState_def normalizeDeviceId_def
      normalizeRole_def cloneDeviceTokens_def str_opt_def Let_def split: option.splits if_splits intro!: that)

text \<open>The device a token operation writes: the one it read, with one token replaced.\<close>

definition with_token :: "paired_device \<Rightarrow> string \<Rightarrow> device_token \<Rightarrow> paired_device" where
  "with_token d role t = d\<lparr>pd_tokens := Some (map_set role t (nullish (pd_tokens d) []))\<rparr>"

text \<open>The token a token operation writes for the token it found, on the device it found it on.\<close>

inductive writes_token :: "pairing_op \<Rightarrow> int \<Rightarrow> paired_device \<Rightarrow> string \<Rightarrow> device_token \<Rightarrow> bool" where
  used: "map_get (nullish (pd_tokens d) []) role = Some t \<Longrightarrow> \<not> truthy_int (dt_revokedAtMs t) \<Longrightarrow>
    writes_token (VerifyOp deviceId token r scopes) now d role (t\<lparr>dt_lastUsedAtMs := Some now\<rparr>)"
| ensured: "writes_token (EnsureOp fresh deviceId r scopes) now d role
    (buildDeviceAuthToken fresh role (normalizeDeviceAuthScopes (Some scopes)) e now at)"
| rotated: "scopesAllowWithImplications ss (normalizeDeviceAuthScopes (nullish_opt (pd_approvedScopes d) (nullish_opt (pd_scopes d)
      (map_option dt_scopes (map_get (nullish (pd_tokens d) []) role))))) \<Longrightarrow>
    ss = normalizeDeviceAuthScopes given \<Longrightarrow>
    writes_token (RotateOp fresh deviceId r scopes) now d role (buildDeviceAuthToken fresh role ss e now at)"
| revoked: "map_get (nullish (pd_tokens d) []) role = Some t \<Longrightarrow>
    writes_token (RevokeOp deviceId r) now d role (t\<lparr>dt_revokedAtMs := Some now\<rparr>)"

text \<open>The device a token operation is for.\<close>

fun token_target :: "pairing_op \<Rightarrow> string option" where
  "token_target (VerifyOp deviceId token role scopes) = Some deviceId"
| "token_target (EnsureOp fresh deviceId role scopes) = Some deviceId"
| "token_target (RotateOp fresh deviceId role scopes) = Some deviceId"
| "token_target (RevokeOp deviceId role) = Some deviceId"
| "token_target oper = None"

lemma step_paired:
  obtains (same) "ps_paired (pairing_step sha now oper st) = ps_paired st"
  | (removed) k where "ps_paired (pairing_step sha now oper st) = map_delete k (ps_paired st)"
  | (approved) fresh requestId pending where "oper = ApproveOp fresh requestId"
      "map_get (ps_pending (loadState now st)) requestId = Some pending"
      "ps_paired (pairing_step sha now oper st) = map_set (pq_deviceId pending)
        (approved_device now fresh pending (map_get (ps_paired st) (pq_deviceId pending))) (ps_paired st)"
  | (updated) deviceId patch d d' where "oper = UpdateOp deviceId patch" "map_get (ps_paired st) (trim deviceId) = Some d"
      "ps_paired (pairing_step sha now oper st) = map_set deviceId d' (ps_paired st)"
      "pd_deviceId d' = pd_deviceId d" "pd_tokens d' = pd_tokens d" "pd_approvedScopes d' = pd_approvedScopes d"
      "pd_scopes d' = mergeScopes [pd_scopes d, Option.bind (mp_scopes patch) id]"
  | (token) k d role t where "map_get (ps_paired st) (trim k) = Some d" "trim role = role" "role \<noteq> []" "writes_token oper now d role t"
      "token_target oper = Some k" "ps_paired (pairing_step sha now oper st) = map_set (pd_deviceId d) (with_token d role t) (ps_paired st)"
proof (cases oper)
  case (RequestOp uuid req)
  then show ?thesis
    by (intro same) (auto simp: requestDevicePairing_def Let_def split: option.split)
next
  case (ApproveOp fresh requestId)
  show ?thesis
  proof (cases "map_get (ps_pending (loadState now st)) requestId")
    case None
    with ApproveOp show ?thesis by (intro same) (simp add: approveDevicePairing_def)
  next
    case (Some pending)
    with ApproveOp show ?thesis by (intro approved) (simp_all add: approveDevicePairing_def Let_def)
  qed
next
  case (RejectOp requestId)
  then show ?thesis by (intro same) (auto simp: rejectDevicePairing_def Let_def split: option.split)
next
  case (RemoveOp deviceId)
  then show ?thesis using same removed by (cases "normalizeDeviceId deviceId = [] \<or> map_get (ps_paired st) (normalizeDeviceId deviceId) = None")
      (auto simp: removePairedDevice_def Let_def)
next
  case (ClearOp deviceId)
  then show ?thesis using same removed by (cases "map_get (ps_paired st) (normalizeDeviceId deviceId) = None")
      (auto simp: clearDevicePairing_def Let_def)
next
  case (UpdateOp deviceId patch)
  show ?thesis
  proof (cases "map_get (ps_paired st) (trim deviceId)")
    case None
    with UpdateOp show ?thesis by (intro same) (simp add: updatePairedDeviceMetadata_def normalizeDeviceId_def)
  next
    case (Some d)
    show ?thesis
      by (rule updated [OF UpdateOp Some], simp add: UpdateOp Some updatePairedDeviceMetadata_def normalizeDeviceId_def Let_def) simp_all
  qed
next
  case (VerifyOp deviceId tok r scopes)
  show ?thesis
  proof (cases "ps_paired (pairing_step sha now oper st) = ps_paired st")
    case False
    with VerifyOp obtain d t where d: "map_get (ps_paired st) (trim deviceId) = Some d" "map_get (nullish (pd_tokens d) []) (trim r) = Some t"
      "trim r \<noteq> []" "ps_paired (pairing_step sha now oper st) =
        map_set (pd_deviceId d) (with_token d (trim r) (t\<lparr>dt_lastUsedAtMs := Some now\<rparr>)) (ps_paired st)"
      "\<not> truthy_int (dt_revokedAtMs t)"
      by (auto simp: verifyDeviceToken_def Let_def getPairedDeviceFromState_def normalizeDeviceId_def normalizeRole_def with_token_def
          split: option.splits if_splits)
    show ?thesis by (rule token [OF d(1) _ d(3) _ _ d(4)]) (simp_all add: VerifyOp used [OF d(2,5)])
  qed (rule same)
next
  case (EnsureOp fresh deviceId r scopes)
  show ?thesis
  proof (cases "ps_paired (pairing_step sha now oper st) = ps_paired st")
    case False
    with EnsureOp obtain ctx where c: "resolveDeviceTokenUpdateContext (loadState now st) deviceId r = Some ctx"
      by (auto simp: ensureDeviceToken_def Let_def split: option.splits)
    from resolve_context [OF this] obtain d where d: "map_get (ps_paired st) (trim deviceId) = Some d" "trim r \<noteq> []"
      "ctx = \<lparr>tc_device = d, tc_role = trim r, tc_tokens = nullish (pd_tokens d) [], tc_existing = map_get (nullish (pd_tokens d) []) (trim r)\<rparr>"
      by (metis loadState_paired)
    obtain e at where e: "ps_paired (pairing_step sha now oper st) = map_set (pd_deviceId d)
        (with_token d (trim r) (buildDeviceAuthToken fresh (trim r) (normalizeDeviceAuthScopes (Some scopes)) e now at)) (ps_paired st)"
      using False EnsureOp c d(3) by (auto simp: ensureDeviceToken_def Let_def put_token_def with_token_def split: option.splits if_splits)
    show ?thesis by (rule token [OF d(1) _ d(2) _ _ e]) (simp_all add: EnsureOp ensured)
  qed (rule same)
next
  case (RotateOp fresh deviceId r scopes)
  show ?thesis
  proof (cases "ps_paired (pairing_step sha now oper st) = ps_paired st")
    case False
    with RotateOp obtain ctx where c: "resolveDeviceTokenUpdateContext (loadState now st) deviceId r = Some ctx"
      by (auto simp: rotateDeviceToken_def Let_def split: option.splits)
    from resolve_context [OF this] obtain d where d: "map_get (ps_paired st) (trim deviceId) = Some d" "trim r \<noteq> []"
      "ctx = \<lparr>tc_device = d, tc_role = trim r, tc_tokens = nullish (pd_tokens d) [], tc_existing = map_get (nullish (pd_tokens d) []) (trim r)\<rparr>"
      by (metis loadState_paired)
    obtain given e at where e: "scopesAllowWithImplications (normalizeDeviceAuthScopes given)
        (normalizeDeviceAuthScopes (nullish_opt (pd_approvedScopes d) (nullish_opt (pd_scopes d)
          (map_option dt_scopes (map_get (nullish (pd_tokens d) []) (trim r))))))"
      "ps_paired (pairing_step sha now oper st) = map_set (pd_deviceId d)
        (with_token d (trim r) (buildDeviceAuthToken fresh (trim r) (normalizeDeviceAuthScopes given) e now at)) (ps_paired st)"
      using False RotateOp c d(3) by (auto simp: rotateDeviceToken_def Let_def put_token_def with_token_def split: option.splits if_splits)
    show ?thesis by (rule token [OF d(1) _ d(2) _ _ e(2)]) (simp_all add: RotateOp rotated [OF e(1) refl])
  qed (rule same)
next
  case (RevokeOp deviceId r)
  show ?thesis
  proof (cases "ps_paired (pairing_step sha now oper st) = ps_paired st")
    case False
    with RevokeOp obtain d t where d: "map_get (ps_paired st) (trim deviceId) = Some d" "map_get (nullish (pd_tokens d) []) (trim r) = Some t"
      "trim r \<noteq> []" "ps_paired (pairing_step sha now oper st) =
        map_set (pd_deviceId d) (with_token d (trim r) (t\<lparr>dt_revokedAtMs := Some now\<rparr>)) (ps_paired st)"
      by (auto simp: revokeDeviceToken_def Let_def normalizeDeviceId_def normalizeRole_def with_token_def
          split: option.splits if_splits)
    show ?thesis by (rule token [OF d(1) _ d(3) _ _ d(4)]) (simp_all add: RevokeOp revoked [OF d(2)])
  qed (rule same)
qed

section \<open>The store is well formed\<close>

definition token_ok :: "string \<Rightarrow> device_token \<Rightarrow> bool" where
  "token_ok role t \<longleftrightarrow> dt_role t = role \<and> trim role = role \<and> role \<noteq> [] \<and>
     normalizeDeviceAuthScopes (Some (dt_scopes t)) = dt_scopes t"

definition device_ok :: "string \<Rightarrow> paired_device \<Rightarrow> bool" where
  "device_ok k d \<longleftrightarrow> pd_deviceId d = trim k \<and> pd_deviceId d \<noteq> [] \<and>
     (\<forall>role t. map_get (nullish (pd_tokens d) []) role = Some t \<longrightarrow> token_ok role t)"

definition paired_ok :: "pairing_store \<Rightarrow> bool" where
  "paired_ok st \<longleftrightarrow> (\<forall>k d. map_get (ps_paired st) k = Some d \<longrightarrow> device_ok k d)"

definition pending_ok :: "pairing_store \<Rightarrow> bool" where
  "pending_ok st \<longleftrightarrow> wf_map (ps_pending st) \<and>
     (\<forall>k r. map_get (ps_pending st) k = Some r \<longrightarrow> pq_requestId r = k \<and> trim (pq_deviceId r) = pq_deviceId r \<and> pq_deviceId r \<noteq> []) \<and>
     (\<forall>k k' r r'. map_get (ps_pending st) k = Some r \<longrightarrow> map_get (ps_pending st) k' = Some r' \<longrightarrow>
        pq_deviceId r = pq_deviceId r' \<longrightarrow> k = k')"

lemma loadState_pending: "wf_map (ps_pending st) \<Longrightarrow> map_get (ps_pending (loadState now st)) k =
   (case map_get (ps_pending st) k of None \<Rightarrow> None | Some r \<Rightarrow> if now - pq_ts r > PENDING_TTL_MS then None else Some r)"
  by (auto simp: loadState_def pruneExpiredPending_def map_get_filter split: option.split)

lemma pending_ok_load: "pending_ok st \<Longrightarrow> pending_ok (loadState now st)"
proof -
  assume ok: "pending_ok st"
  then have wf: "wf_map (ps_pending st)" by (simp add: pending_ok_def)
  then have "wf_map (ps_pending (loadState now st))" by (simp add: loadState_def pruneExpiredPending_def)
  moreover have "map_get (ps_pending (loadState now st)) k = Some r \<Longrightarrow> map_get (ps_pending st) k = Some r" for k r
    by (auto simp: loadState_pending [OF wf] split: option.splits if_splits)
  ultimately show ?thesis using ok unfolding pending_ok_def by blast
qed

lemma find_pending:
  assumes "pending_ok st" "find (\<lambda>p. pq_deviceId p = i) (map snd (ps_pending st)) = Some r"
  shows "map_get (ps_pending st) (pq_requestId r) = Some r \<and> pq_deviceId r = i"
proof -
  from find_Some_iff' [OF assms(2)] obtain k where k: "(k, r) \<in> set (ps_pending st)" "pq_deviceId r = i" by auto
  with assms(1) have "map_get (ps_pending st) k = Some r" by (auto simp: pending_ok_def wf_map_def)
  with assms(1) k show ?thesis by (auto simp: pending_ok_def)
qed

lemma find_pending_None:
  "find (\<lambda>p. pq_deviceId p = i) (map snd (ps_pending st)) = None \<Longrightarrow> map_get (ps_pending st) k = Some r \<Longrightarrow> pq_deviceId r \<noteq> i"
  by (force simp: find_None_iff dest: map_of_SomeD)

lemma pending_ok_set:
  assumes "pending_ok st" "pq_requestId r = k" "trim (pq_deviceId r) = pq_deviceId r" "pq_deviceId r \<noteq> []"
    and "\<And>k' r'. map_get (ps_pending st) k' = Some r' \<Longrightarrow> pq_deviceId r' = pq_deviceId r \<Longrightarrow> k' = k"
  shows "pending_ok (st\<lparr>ps_pending := map_set k r (ps_pending st)\<rparr>)"
  using assms unfolding pending_ok_def by (auto split: if_splits)

lemma pending_ok_delete: "pending_ok st \<Longrightarrow> pending_ok \<lparr>ps_pending = map_delete k (ps_pending st), ps_paired = p\<rparr>"
  "pending_ok st \<Longrightarrow> pending_ok (st\<lparr>ps_pending := map_delete k (ps_pending st)\<rparr>)"
  unfolding pending_ok_def by (auto split: if_splits)

lemma pending_ok_paired: "pending_ok (st\<lparr>ps_paired := p\<rparr>) = pending_ok st"
  by (simp add: pending_ok_def)

lemma pending_ok_put [simp]: "pending_ok (put_device d st) = pending_ok st" "pending_ok (put_token ctx t st) = pending_ok st"
  by (simp_all add: put_device_def put_token_def pending_ok_paired)

lemma pending_ok_request:
  assumes "pending_ok st0"
  shows "pending_ok (snd (requestDevicePairing now uuid req st0))"
proof -
  let ?st = "loadState now st0" and ?i = "normalizeDeviceId (pr_deviceId req)"
  have ok: "pending_ok ?st" using assms by (rule pending_ok_load)
  show ?thesis
  proof (cases "find (\<lambda>p. pq_deviceId p = ?i) (map snd (ps_pending ?st))")
    case (Some e)
    from find_pending [OF ok Some] have e: "map_get (ps_pending ?st) (pq_requestId e) = Some e" "pq_deviceId e = ?i" by simp_all
    let ?m = "mergePendingDevicePairingRequest now e req (map_get (ps_paired ?st) ?i \<noteq> None)"
    have m: "pq_requestId ?m = pq_requestId e" "pq_deviceId ?m = pq_deviceId e"
      by (simp_all add: mergePendingDevicePairingRequest_def)
    have t: "trim (pq_deviceId e) = pq_deviceId e" "pq_deviceId e \<noteq> []"
      using ok e(1) unfolding pending_ok_def by metis+
    have "pending_ok (?st\<lparr>ps_pending := map_set (pq_requestId e) ?m (ps_pending ?st)\<rparr>)"
    proof (rule pending_ok_set [OF ok])
      show "k' = pq_requestId e" if "map_get (ps_pending ?st) k' = Some r'" "pq_deviceId r' = pq_deviceId ?m" for k' r'
        using ok e that unfolding pending_ok_def m by metis
    qed (simp_all only: m t not_False_eq_True)
    with Some assms show ?thesis by (simp add: requestDevicePairing_def Let_def)
  next
    case None
    show ?thesis
    proof (cases "?i = []")
      case False
      from find_pending_None [OF None] have "pending_ok (?st\<lparr>ps_pending := map_set uuid r (ps_pending ?st)\<rparr>)"
        if "pq_requestId r = uuid" "pq_deviceId r = ?i" for r
        using that False by (intro pending_ok_set [OF ok]) (auto simp: normalizeDeviceId_def)
      with None False show ?thesis by (simp add: requestDevicePairing_def Let_def)
    qed (use assms in \<open>simp add: requestDevicePairing_def Let_def\<close>)
  qed
qed

lemma pending_ok_step: "pending_ok st \<Longrightarrow> pending_ok (pairing_step sha now oper st)"
proof (cases oper)
  case (RequestOp uuid req)
  then show "pending_ok st \<Longrightarrow> ?thesis" by (simp add: pending_ok_request)
qed (auto simp: approveDevicePairing_def rejectDevicePairing_def removePairedDevice_def clearDevicePairing_def
    updatePairedDeviceMetadata_def verifyDeviceToken_def ensureDeviceToken_def rotateDeviceToken_def revokeDeviceToken_def Let_def
    pending_ok_load pending_ok_paired
    split: option.split intro: pending_ok_delete pending_ok_load)

lemma device_okD: "device_ok k d \<Longrightarrow> map_get (nullish (pd_tokens d) []) role = Some t \<Longrightarrow> token_ok role t"
  by (simp add: device_ok_def)

lemma writes_token_ok: "writes_token oper now d role t \<Longrightarrow> device_ok k d \<Longrightarrow> trim role = role \<Longrightarrow> role \<noteq> [] \<Longrightarrow> token_ok role t"
  by (cases rule: writes_token.cases)
    (auto simp: token_ok_def buildDeviceAuthToken_def normalizeDeviceAuthScopes_idem dest: device_okD [unfolded token_ok_def])

lemma approved_tokens_get:
  "map_get (approved_tokens now fresh pending existing a) role =
     (if normalizeRole (pq_role pending) = Some role
      then Some (buildDeviceAuthToken fresh role
          (let req = normalizeDeviceAuthScopes (pq_scopes pending); old = map_get (nullish (Option.bind existing pd_tokens) []) role in
           if length req > 0 then req else normalizeDeviceAuthScopes (nullish_opt (map_option dt_scopes old)
             (nullish_opt a (nullish_opt (Option.bind existing pd_approvedScopes) (Option.bind existing pd_scopes)))))
          (map_get (nullish (Option.bind existing pd_tokens) []) role) now
          (if map_get (nullish (Option.bind existing pd_tokens) []) role \<noteq> None then Some now else None))
      else map_get (nullish (Option.bind existing pd_tokens) []) role)"
  by (auto simp: approved_tokens_def Let_def split: option.split)

lemma normalizeRole_Some: "normalizeRole r = Some role \<Longrightarrow> trim role = role \<and> role \<noteq> []"
  by (auto simp: normalizeRole_def str_opt_def split: option.splits if_splits)

lemma approved_device_ok:
  assumes "\<And>e. existing = Some e \<Longrightarrow> device_ok (pq_deviceId pending) e" "trim (pq_deviceId pending) = pq_deviceId pending" "pq_deviceId pending \<noteq> []"
  shows "device_ok (pq_deviceId pending) (approved_device now fresh pending existing)"
  unfolding device_ok_def
proof (intro conjI allI impI)
  fix role t
  assume t: "map_get (nullish (pd_tokens (approved_device now fresh pending existing)) []) role = Some t"
  show "token_ok role t"
  proof (cases "normalizeRole (pq_role pending) = Some role")
    case True
    with t normalizeRole_Some [OF True] show ?thesis
      by (auto simp: approved_tokens_get token_ok_def buildDeviceAuthToken_def normalizeDeviceAuthScopes_idem Let_def)
  next
    case False
    with t have "map_get (nullish (Option.bind existing pd_tokens) []) role = Some t" by (simp add: approved_tokens_get)
    with assms(1) show ?thesis by (cases existing) (auto intro: device_okD)
  qed
qed (use assms in simp_all)

lemma device_ok_trim: "device_ok (trim k) d \<Longrightarrow> device_ok k d" "device_ok k d \<Longrightarrow> pd_deviceId d = trim k"
  by (auto simp: device_ok_def)

lemma paired_ok_set: "paired_ok st \<Longrightarrow> device_ok k d \<Longrightarrow> ps_paired st' = map_set k d (ps_paired st) \<Longrightarrow> paired_ok st'"
  by (simp add: paired_ok_def)

lemma paired_ok_step:
  assumes "paired_ok st" "pending_ok st"
  shows "paired_ok (pairing_step sha now oper st)"
proof (cases rule: step_paired [of sha now oper st])
  case same
  with assms show ?thesis by (simp add: paired_ok_def)
next
  case (removed k)
  with assms show ?thesis by (simp add: paired_ok_def)
next
  case (approved fresh requestId pending)
  from pending_ok_load [OF assms(2)] approved(2) have "trim (pq_deviceId pending) = pq_deviceId pending" "pq_deviceId pending \<noteq> []"
    unfolding pending_ok_def by metis+
  with assms(1) show ?thesis
    by (intro paired_ok_set [OF assms(1) _ approved(3)] approved_device_ok) (simp_all add: paired_ok_def)
next
  case (updated deviceId patch d d')
  with assms(1) have "device_ok (trim deviceId) d" by (simp add: paired_ok_def)
  with updated(4,5) have "device_ok deviceId d'" by (auto simp: device_ok_def)
  then show ?thesis by (rule paired_ok_set [OF assms(1) _ updated(3)])
next
  case (token k d role t)
  with assms(1) have d: "device_ok (trim k) d" by (simp add: paired_ok_def)
  with writes_token_ok [OF token(4) d token(2,3)] have "device_ok (pd_deviceId d) (with_token d role t)"
    by (auto simp: device_ok_def with_token_def)
  then show ?thesis by (rule paired_ok_set [OF assms(1) _ token(6)])
qed

lemma store_run_ok: "paired_ok st \<and> pending_ok st \<Longrightarrow> paired_ok (pairing_run sha ops st) \<and> pending_ok (pairing_run sha ops st)"
  unfolding pairing_run_def by (induction ops arbitrary: st) (auto simp: pending_ok_step paired_ok_step)

lemma empty_store_ok: "paired_ok empty_store \<and> pending_ok empty_store"
  by (simp add: pending_ok_def paired_ok_def empty_store_def)

text \<open>
  The pairing store stays well formed. After any operations at any times: the pending
  requests are stored under their own ids, at most one for each device; every paired device is
  stored under its id, up to surrounding blanks, which is not empty; and every token is stored
  under its own role, with its scopes in normal form.
\<close>

theorem pairing_store_well_formed:
  "pending_ok (pairing_run sha ops empty_store) \<and> paired_ok (pairing_run sha ops empty_store)"
  using store_run_ok [OF empty_store_ok] by blast

section \<open>Tokens stay within the approval\<close>

text \<open>
  The scopes approved for a device, with further scopes \<open>C\<close>, and what they imply.
\<close>

definition approval :: "string set \<Rightarrow> paired_device \<Rightarrow> string set" where
  "approval C d = implied_by (clean_scopes (nullish (pd_approvedScopes d) []) \<union> C)"

definition within_approval :: "string set \<Rightarrow> paired_device \<Rightarrow> bool" where
  "within_approval C d \<longleftrightarrow> clean_scopes (nullish (pd_scopes d) []) \<subseteq> approval C d \<and>
     (\<forall>role t. map_get (nullish (pd_tokens d) []) role = Some t \<longrightarrow> clean_scopes (dt_scopes t) \<subseteq> approval C d)"

text \<open>
  Two operations take scopes from their caller and do not look at the approval: the token issued
  to a connection, and the access metadata recorded for it. These are the scopes they were given
  for the device \<open>k\<close>.
\<close>

fun claimed_by :: "string \<Rightarrow> pairing_op \<Rightarrow> string set" where
  "claimed_by k (UpdateOp deviceId patch) =
     (if trim deviceId = k then clean_scopes (nullish (Option.bind (mp_scopes patch) id) []) else {})"
| "claimed_by k (EnsureOp fresh deviceId role scopes) = (if trim deviceId = k then clean_scopes scopes else {})"
| "claimed_by k oper = {}"

definition claimed :: "string \<Rightarrow> (int \<times> pairing_op) list \<Rightarrow> string set" where
  "claimed k ops = (\<Union>(now, oper) \<in> set ops. claimed_by k oper)"

lemma clean_fold_add:
  "set (fold (\<lambda>r acc. if trim r \<noteq> [] then set_add (trim r) acc else acc) rs acc) = clean_scopes rs \<union> set acc"
  by (induction rs arbitrary: acc) (auto simp: clean_scopes_def)

lemma clean_mergeScopes: "clean_scopes (nullish (mergeScopes [a, b]) []) = clean_scopes (nullish a []) \<union> clean_scopes (nullish b [])"
proof -
  have "set (nullish (mergeScopes [a, b]) []) = clean_scopes (nullish a []) \<union> clean_scopes (nullish b [])"
  proof -
    let ?f = "\<lambda>rs acc. fold (\<lambda>r acc. if trim r \<noteq> [] then set_add (trim r) acc else acc) rs acc"
    have "set (?f (nullish b []) (?f (nullish a []) [])) = clean_scopes (nullish a []) \<union> clean_scopes (nullish b [])"
      by (auto simp: clean_fold_add)
    moreover have "nullish (mergeScopes [a, b]) [] = ?f (nullish b []) (?f (nullish a []) [])"
      by (cases a; cases b) (simp_all add: mergeScopes_def Let_def)
    ultimately show ?thesis by simp
  qed
  then show ?thesis
    by (simp add: clean_scopes_def [of "nullish (mergeScopes [a, b]) []"] image_Un Un_Diff trim_clean_scopes)
qed

lemma clean_normalize [simp]: "clean_scopes (normalizeDeviceAuthScopes ss) = clean_scopes (nullish ss [])"
proof -
  have "set (normalizeDeviceAuthScopes ss) = clean_scopes (nullish ss [])" by (simp add: normalizeDeviceAuthScopes_props)
  then show ?thesis using trim_clean_scopes [of "nullish ss []"] by (simp add: clean_scopes_def [of "normalizeDeviceAuthScopes ss"])
qed

lemma set_normalize: "set (normalizeDeviceAuthScopes ss) = clean_scopes (nullish ss [])"
  by (simp add: normalizeDeviceAuthScopes_props)

lemma approval_of_approved:
  "approval C (approved_device now fresh pending existing) =
     implied_by (clean_scopes (nullish (nullish_opt (Option.bind existing pd_approvedScopes) (Option.bind existing pd_scopes)) []) \<union>
       clean_scopes (nullish (pq_scopes pending) []) \<union> C)"
  by (simp add: approval_def clean_mergeScopes)

lemma approval_grows: "approval C e \<subseteq> approval C (approved_device now fresh pending (Some e))"
  unfolding approval_of_approved
  by (cases "pd_approvedScopes e") (auto simp: approval_def implied_by_def)

lemma within_approved_device:
  assumes "\<And>e. existing = Some e \<Longrightarrow> within_approval C e"
  shows "within_approval C (approved_device now fresh pending existing)"
proof -
  let ?d = "approved_device now fresh pending existing"
  let ?a = "mergeScopes [nullish_opt (Option.bind existing pd_approvedScopes) (Option.bind existing pd_scopes), pq_scopes pending]"
  have a: "clean_scopes (nullish ?a []) \<subseteq> approval C ?d" unfolding approval_def implied_by_def approved_device_fields by blast
  have req: "clean_scopes (nullish (pq_scopes pending) []) \<subseteq> approval C ?d" by (auto simp: approval_of_approved implied_by_def)
  have old: "clean_scopes (dt_scopes t) \<subseteq> approval C ?d" if "map_get (nullish (Option.bind existing pd_tokens) []) role = Some t" for role t
  proof (cases existing)
    case (Some e)
    with that assms have "clean_scopes (dt_scopes t) \<subseteq> approval C e" by (auto simp: within_approval_def)
    with approval_grows Some show ?thesis by blast
  qed (use that in simp)
  have none: "clean_scopes (nullish (nullish_opt (Option.bind existing pd_approvedScopes) (Option.bind existing pd_scopes)) []) \<subseteq> approval C ?d"
    by (auto simp: approval_of_approved implied_by_def)
  show ?thesis unfolding within_approval_def
  proof (intro conjI allI impI)
    show "clean_scopes (nullish (pd_scopes ?d) []) \<subseteq> approval C ?d" using a by simp
    fix role t assume t: "map_get (nullish (pd_tokens ?d) []) role = Some t"
    show "clean_scopes (dt_scopes t) \<subseteq> approval C ?d"
    proof (cases "normalizeRole (pq_role pending) = Some role")
      case True
      with t req old [of role] a none show ?thesis
        by (cases "map_get (nullish (Option.bind existing pd_tokens) []) role"; cases ?a)
          (auto simp: approved_tokens_get buildDeviceAuthToken_def Let_def split: if_splits)
    next
      case False
      with t old show ?thesis by (simp add: approved_tokens_get)
    qed
  qed
qed

lemma within_with_token:
  assumes "within_approval C d" "clean_scopes (dt_scopes t) \<subseteq> approval C d"
  shows "within_approval C (with_token d role t)"
  using assms by (auto simp: within_approval_def with_token_def approval_def)

lemma claims_within: "S \<subseteq> C \<Longrightarrow> S \<subseteq> approval C d"
  by (auto simp: approval_def implied_by_def)

lemma writes_within:
  assumes "writes_token oper now d role t" "within_approval C d"
    and "\<And>fresh deviceId r scopes. oper = EnsureOp fresh deviceId r scopes \<Longrightarrow> clean_scopes scopes \<subseteq> C"
  shows "clean_scopes (dt_scopes t) \<subseteq> approval C d"
  using assms(1)
proof (cases rule: writes_token.cases)
  case (rotated ss given fresh deviceId r scopes e at)
  let ?a = "nullish_opt (pd_approvedScopes d) (nullish_opt (pd_scopes d) (map_option dt_scopes (map_get (nullish (pd_tokens d) []) role)))"
  have "clean_scopes (nullish ?a []) \<subseteq> approval C d"
    using assms(2) by (cases "pd_approvedScopes d"; cases "pd_scopes d"; cases "map_get (nullish (pd_tokens d) []) role")
      (auto simp: within_approval_def approval_def implied_by_def)
  moreover have "set ss \<subseteq> implied_by (clean_scopes (nullish ?a []))"
    using rotated(3) by (simp add: device_scopes_iff set_normalize)
  ultimately have "set ss \<subseteq> approval C d" using implied_by_mono [of "clean_scopes (nullish ?a [])" "approval C d"] by (auto simp: approval_def)
  moreover have "clean_scopes ss = set ss" using rotated(4) by (simp add: set_normalize)
  ultimately show ?thesis using rotated(2) by (simp add: buildDeviceAuthToken_def)
qed (use assms(2,3) claims_within [where C = C and d = d] in \<open>auto simp: within_approval_def buildDeviceAuthToken_def\<close>)

text \<open>\<open>C\<close> gives the claims for each device.\<close>

definition all_within :: "(string \<Rightarrow> string set) \<Rightarrow> pairing_store \<Rightarrow> bool" where
  "all_within C st \<longleftrightarrow> (\<forall>k d. map_get (ps_paired st) k = Some d \<longrightarrow> within_approval (C (trim k)) d)"

lemma within_step:
  assumes "all_within C st" "\<forall>k. claimed_by k oper \<subseteq> C k" "paired_ok st" "pending_ok st"
  shows "all_within C (pairing_step sha now oper st)"
proof (cases rule: step_paired [of sha now oper st])
  case (approved fresh requestId pending)
  from pending_ok_load [OF assms(4)] approved(2) have "trim (pq_deviceId pending) = pq_deviceId pending"
    unfolding pending_ok_def by metis
  with assms(1) have "within_approval (C (trim (pq_deviceId pending))) (approved_device now fresh pending (map_get (ps_paired st) (pq_deviceId pending)))"
    unfolding all_within_def by (intro within_approved_device) metis
  with assms(1) approved(3) show ?thesis by (simp add: all_within_def)
next
  case (updated deviceId patch d d')
  from assms(1) updated(2) have d: "within_approval (C (trim deviceId)) d" by (force simp: all_within_def)
  have "clean_scopes (nullish (Option.bind (mp_scopes patch) id) []) \<subseteq> C (trim deviceId)"
    using assms(2) [rule_format, of "trim deviceId"] updated(1) by simp
  moreover have "approval (C (trim deviceId)) d' = approval (C (trim deviceId)) d" using updated(6) by (simp add: approval_def)
  ultimately have "within_approval (C (trim deviceId)) d'"
    using d updated(5,7) claims_within by (simp add: within_approval_def clean_mergeScopes)
  with assms(1) updated(3) show ?thesis by (simp add: all_within_def)
next
  case (token k d role t)
  from assms(1) token(1) have d: "within_approval (C (trim k)) d" by (force simp: all_within_def)
  have "pd_deviceId d = trim k" using assms(3) token(1) by (simp add: paired_ok_def device_ok_def)
  have "clean_scopes scopes \<subseteq> C (trim k)" if "oper = EnsureOp fresh deviceId r scopes" for fresh deviceId r scopes
    using that assms(2) [rule_format, of "trim k"] token(5) by simp
  from within_with_token [OF d writes_within [OF token(4) d this]] assms(1) token(6) \<open>pd_deviceId d = trim k\<close> show ?thesis
    by (simp add: all_within_def)
qed (use assms in \<open>simp_all add: all_within_def\<close>)


section \<open>Revoked tokens stay dead\<close>

definition dead_token :: "(string \<Rightarrow> string) \<Rightarrow> string \<Rightarrow> string \<Rightarrow> string \<Rightarrow> pairing_store \<Rightarrow> bool" where
  "dead_token sha deviceId role tok st \<longleftrightarrow> (\<forall>d t. map_get (ps_paired st) (trim deviceId) = Some d \<longrightarrow>
     map_get (nullish (pd_tokens d) []) role = Some t \<longrightarrow> truthy_int (dt_revokedAtMs t) \<or> \<not> verifyPairingToken sha tok (dt_token t))"

text \<open>The token an operation generates.\<close>

fun generated :: "pairing_op \<Rightarrow> string option" where
  "generated (ApproveOp fresh requestId) = Some fresh"
| "generated (EnsureOp fresh deviceId role scopes) = Some fresh"
| "generated (RotateOp fresh deviceId role scopes) = Some fresh"
| "generated oper = None"

definition fresh_op :: "(string \<Rightarrow> string) \<Rightarrow> string \<Rightarrow> int \<times> pairing_op \<Rightarrow> bool" where
  "fresh_op sha tok x \<longleftrightarrow> fst x \<noteq> 0 \<and> (case generated (snd x) of None \<Rightarrow> True | Some fresh \<Rightarrow> sha fresh \<noteq> sha tok)"

lemma writes_dead:
  assumes "writes_token oper now d role t" "fresh_op sha tok (now, oper)"
    and "\<And>t0. map_get (nullish (pd_tokens d) []) role = Some t0 \<Longrightarrow> truthy_int (dt_revokedAtMs t0) \<or> \<not> verifyPairingToken sha tok (dt_token t0)"
  shows "truthy_int (dt_revokedAtMs t) \<or> \<not> verifyPairingToken sha tok (dt_token t)"
  using assms by (cases rule: writes_token.cases) (auto simp: fresh_op_def verifyPairingToken_def buildDeviceAuthToken_def truthy_int_def)

lemma dead_step:
  assumes "dead_token sha deviceId role tok st" "paired_ok st" "pending_ok st" "fresh_op sha tok (now, oper)"
  shows "dead_token sha deviceId role tok (pairing_step sha now oper st)"
proof (cases rule: step_paired [of sha now oper st])
  case (approved fresh requestId pending)
  with assms(4) have "sha fresh \<noteq> sha tok" by (simp add: fresh_op_def)
  with assms(1) approved(3) show ?thesis
    by (cases "map_get (ps_paired st) (pq_deviceId pending)")
      (auto simp: dead_token_def approved_tokens_get buildDeviceAuthToken_def verifyPairingToken_def split: if_splits)
next
  case (updated k patch d d')
  with assms(1) show ?thesis by (auto simp: dead_token_def)
next
  case (token k d r t)
  from assms(2) token(1) have "pd_deviceId d = trim k" by (simp add: paired_ok_def device_ok_def)
  moreover have "truthy_int (dt_revokedAtMs t) \<or> \<not> verifyPairingToken sha tok (dt_token t)" if "trim k = trim deviceId" "r = role"
    using that assms(1) token(1) by (intro writes_dead [OF token(4) assms(4)]) (auto simp: dead_token_def)
  ultimately show ?thesis using assms(1) token(1,6) by (auto simp: dead_token_def with_token_def split: if_splits)
qed (use assms(1) in \<open>simp_all add: dead_token_def\<close>)

text \<open>
  C34: A revoked token is never accepted again. Once a token of a device and role was revoked,
  after any further operations, re-pairing, rotation and connections included, no verification
  for this device and role accepts it, provided that the clock does not show zero and no token
  generated later has the same digest.
\<close>

theorem revoked_token_stays_dead:
  assumes "revokeDeviceToken now deviceId givenRole (pairing_run sha ops empty_store) = (Some t, st)" "now \<noteq> 0"
    and "list_all (fresh_op sha (dt_token t)) later"
  shows "fst (verifyDeviceToken sha now' deviceId (dt_token t) givenRole scopes (pairing_run sha later st)) \<noteq> Inr ()"
proof -
  let ?st = "pairing_run sha ops empty_store"
  have ok0: "paired_ok ?st \<and> pending_ok ?st" by (rule store_run_ok [OF empty_store_ok])
  from assms(1) obtain d old where d: "map_get (ps_paired ?st) (trim deviceId) = Some d"
    "map_get (nullish (pd_tokens d) []) (trim givenRole) = Some old" "t = old\<lparr>dt_revokedAtMs := Some now\<rparr>"
    "ps_paired st = map_set (pd_deviceId d) (with_token d (trim givenRole) t) (ps_paired ?st)"
    by (auto simp: revokeDeviceToken_def Let_def normalizeDeviceId_def normalizeRole_def with_token_def split: option.splits if_splits)
  have st: "st = pairing_step sha now (RevokeOp deviceId givenRole) ?st" using assms(1) by simp
  have "pd_deviceId d = trim deviceId" using ok0 d(1) by (simp add: paired_ok_def device_ok_def)
  with d have dead: "dead_token sha deviceId (trim givenRole) (dt_token t) st"
    using assms(2) by (auto simp: dead_token_def with_token_def truthy_int_def)
  have "paired_ok st \<and> pending_ok st" unfolding st using ok0 pending_ok_step paired_ok_step by blast
  with dead assms(3) have "dead_token sha deviceId (trim givenRole) (dt_token t) (pairing_run sha later st)"
    unfolding pairing_run_def
  proof (induction later arbitrary: st)
    case (Cons x later)
    obtain n oper where x: "x = (n, oper)" by (cases x)
    from Cons.IH [of "pairing_step sha n oper st"] Cons.prems dead_step show ?case
      by (simp add: x pending_ok_step paired_ok_step)
  qed simp
  then show ?thesis
    by (auto simp: verifyDeviceToken_def Let_def getPairedDeviceFromState_def normalizeDeviceId_def normalizeRole_def dead_token_def
        str_opt_def split: option.splits if_splits)
qed

definition sample_pairing :: pairing_request where
  "sample_pairing = \<lparr>pr_deviceId = '' d1 '', pr_publicKey = ''pk'', pr_displayName = None, pr_platform = None, pr_deviceFamily = None,
     pr_clientId = None, pr_clientMode = None, pr_role = Some ''operator'', pr_scopes = Some [''operator.write''], pr_remoteIp = None,
     pr_silent = None\<rparr>"

definition sample_ops :: "(int \<times> pairing_op) list" where
  "sample_ops = [(1, RequestOp ''q'' sample_pairing), (2, ApproveOp ''tok'' ''q''),
     (3, RotateOp ''tok2'' ''d1'' ''operator'' (Some [''operator.read'']))]"

definition no_patch :: metadata_patch where
  "no_patch = \<lparr>mp_displayName = None, mp_clientId = None, mp_clientMode = None, mp_role = None, mp_scopes = None, mp_remoteIp = None\<rparr>"

text \<open>A connection is issued a token with a scope that was never approved, and another is recorded.\<close>

definition sample_claims :: "(int \<times> pairing_op) list" where
  "sample_claims = sample_ops @ [(4, UpdateOp ''d1'' (no_patch\<lparr>mp_scopes := Some (Some [''operator.approvals''])\<rparr>)),
     (5, EnsureOp ''tok3'' ''d1'' ''operator'' [''operator.admin'']), (6, VerifyOp ''d1'' ''tok3'' ''operator'' [''operator.pairing''])]"

lemma sample_claims_run:
  "case map_get (ps_paired (pairing_run id sample_claims empty_store)) ''d1'' of None \<Rightarrow> False
   | Some d \<Rightarrow> pd_approvedScopes d = Some [''operator.write''] \<and>
       (case map_get (nullish (pd_tokens d) []) ''operator'' of None \<Rightarrow> False
        | Some t \<Rightarrow> dt_scopes t = [''operator.admin''] \<and> dt_lastUsedAtMs t = Some 6)"
  by code_simp

definition sample_token :: device_token where
  "sample_token = \<lparr>dt_token = ''tok2'', dt_role = ''operator'', dt_scopes = [''operator.read''], dt_createdAtMs = 2,
     dt_rotatedAtMs = Some 3, dt_revokedAtMs = None, dt_lastUsedAtMs = None\<rparr>"

lemma sample_run:
  "case map_get (ps_paired (pairing_run id sample_ops empty_store)) ''d1'' of None \<Rightarrow> False
   | Some d \<Rightarrow> pd_approvedScopes d = Some [''operator.write''] \<and> map_get (nullish (pd_tokens d) []) ''operator'' = Some sample_token"
  by code_simp

lemma sample_claimed: "claimed ''d1'' sample_claims = {''operator.approvals'', ''operator.admin''}"
proof -
  have "clean_scopes [''operator.approvals''] = {''operator.approvals''}" "clean_scopes [''operator.admin''] = {''operator.admin''}"
    by code_simp+
  moreover have "trim ''d1'' = ''d1''" by code_simp
  ultimately show ?thesis by (auto simp: claimed_def sample_claims_def sample_ops_def)
qed


lemma revoked_token_stays_dead_witness:
  "\<exists>t st. revokeDeviceToken 4 ''d1'' ''operator'' (pairing_run id sample_ops empty_store) = (Some t, st) \<and>
     fst (verifyDeviceToken id 6 ''d1'' (dt_token t) ''operator'' [] (pairing_run id [(5, EnsureOp ''tok3'' ''d1'' ''operator'' [])] st)) \<noteq> Inr ()"
proof -
  have "case revokeDeviceToken 4 ''d1'' ''operator'' (pairing_run id sample_ops empty_store) of
      (Some t, st) \<Rightarrow> dt_token t = ''tok2'' | (None, st) \<Rightarrow> False"
    by code_simp
  then obtain t st where r: "revokeDeviceToken 4 ''d1'' ''operator'' (pairing_run id sample_ops empty_store) = (Some t, st)" "dt_token t = ''tok2''"
    by (auto split: option.splits prod.splits)
  have "list_all (fresh_op id (dt_token t)) [(5, EnsureOp ''tok3'' ''d1'' ''operator'' [])]" by (simp add: fresh_op_def r(2))
  from revoked_token_stays_dead [OF r(1) _ this] r(1) show ?thesis by auto
qed

end
