(* ===== verification/SessionKeys.thy ===== *)
theory SessionKeys
  imports JsPrelude
begin

text \<open>
  Session keys and the ids they are made of: src/routing/session-key.ts,
  src/sessions/session-key-utils.ts and src/routing/account-id.ts with
  src/infra/prototype-keys.ts and src/channels/chat-type.ts. A key is \<open>agent:<id>:<rest>\<close>; the
  regular expressions are written as functions on the segments between colons. The two caches of
  account ids are explicit.
\<close>

section \<open>Ids\<close>

definition DEFAULT_AGENT_ID :: string where "DEFAULT_AGENT_ID = ''main''"
definition DEFAULT_MAIN_KEY :: string where "DEFAULT_MAIN_KEY = ''main''"
definition DEFAULT_ACCOUNT_ID :: string where "DEFAULT_ACCOUNT_ID = ''default''"
definition ACCOUNT_ID_CACHE_MAX :: nat where "ACCOUNT_ID_CACHE_MAX = 512"

text \<open>\<open>[a-z0-9]\<close>, \<open>[a-z0-9_-]\<close> and their case-insensitive forms.\<close>

definition id_start :: "char \<Rightarrow> bool" where
  "id_start c = (let n = (of_char c :: nat) in (97 \<le> n \<and> n \<le> 122) \<or> (48 \<le> n \<and> n \<le> 57))"

definition id_char :: "char \<Rightarrow> bool" where
  "id_char c = (id_start c \<or> c = CHR ''_'' \<or> c = CHR ''-'')"

definition upper_ascii :: "char \<Rightarrow> bool" where
  "upper_ascii c = (let n = (of_char c :: nat) in 65 \<le> n \<and> n \<le> 90)"

text \<open>\<open>VALID_ID_RE\<close>.\<close>

definition valid_id :: "string \<Rightarrow> bool" where
  "valid_id s = (case s of [] \<Rightarrow> False | c # cs \<Rightarrow>
     (id_start c \<or> upper_ascii c) \<and> list_all (\<lambda>d. id_char d \<or> upper_ascii d) cs \<and> length cs \<le> 63)"

text \<open>\<open>replace(INVALID_CHARS_RE, "-")\<close>: each maximal run of other characters becomes one dash.\<close>

function collapse_invalid :: "string \<Rightarrow> string" where
  "collapse_invalid [] = []"
| "collapse_invalid (c # cs) = (if id_char c then c # collapse_invalid cs
     else CHR ''-'' # collapse_invalid (dropWhile (\<lambda>d. \<not> id_char d) cs))"
  by pat_completeness auto

termination
  by (relation "measure length") (auto simp: less_Suc_eq_le intro: length_dropWhile_le)

definition strip_leading_dashes :: "string \<Rightarrow> string" where
  "strip_leading_dashes s = dropWhile (\<lambda>c. c = CHR ''-'') s"

definition strip_trailing_dashes :: "string \<Rightarrow> string" where
  "strip_trailing_dashes s = rev (dropWhile (\<lambda>c. c = CHR ''-'') (rev s))"

definition id_slug :: "string \<Rightarrow> string" where
  "id_slug s = take 64 (strip_trailing_dashes (strip_leading_dashes (collapse_invalid (to_lower s))))"

definition normalizeToken :: "string option \<Rightarrow> string" where
  "normalizeToken value = to_lower (trim (nullish value []))"

definition normalizeMainKey :: "string option \<Rightarrow> string" where
  "normalizeMainKey value = (let trimmed = trim (nullish value []) in if trimmed \<noteq> [] then to_lower trimmed else DEFAULT_MAIN_KEY)"

definition normalizeAgentId :: "string option \<Rightarrow> string" where
  "normalizeAgentId value = (let trimmed = trim (nullish value []) in
     if trimmed = [] then DEFAULT_AGENT_ID
     else if valid_id trimmed then to_lower trimmed
     else str_or (id_slug trimmed) DEFAULT_AGENT_ID)"

definition isValidAgentId :: "string option \<Rightarrow> bool" where
  "isValidAgentId value = (let trimmed = trim (nullish value []) in trimmed \<noteq> [] \<and> valid_id trimmed)"

definition sanitizeAgentId :: "string option \<Rightarrow> string" where
  "sanitizeAgentId value = normalizeAgentId value"

definition isBlockedObjectKey :: "string \<Rightarrow> bool" where
  "isBlockedObjectKey key = (key \<in> set [''__proto__'', ''prototype'', ''constructor''])"

definition canonicalizeAccountId :: "string \<Rightarrow> string" where
  "canonicalizeAccountId value = (if valid_id value then to_lower value else id_slug value)"

definition normalizeCanonicalAccountId :: "string \<Rightarrow> string option" where
  "normalizeCanonicalAccountId value = (let canonical = canonicalizeAccountId value in
     if canonical = [] \<or> isBlockedObjectKey canonical then None else Some canonical)"

text \<open>The caches are maps in insertion order; the oldest key goes when there are too many.\<close>

definition setNormalizeCache :: "string \<Rightarrow> 'v \<Rightarrow> (string, 'v) js_map \<Rightarrow> (string, 'v) js_map" where
  "setNormalizeCache key value cache = (let c = map_set key value cache in
     if length c \<le> ACCOUNT_ID_CACHE_MAX then c
     else case c of [] \<Rightarrow> c | (oldest, v) # rest \<Rightarrow> map_delete oldest c)"

record account_caches =
  ac_ids :: "(string, string) js_map"
  ac_optional :: "(string, string option) js_map"

definition normalizeAccountId :: "string option \<Rightarrow> account_caches \<Rightarrow> string \<times> account_caches" where
  "normalizeAccountId value cs = (let trimmed = trim (nullish value []) in
     if trimmed = [] then (DEFAULT_ACCOUNT_ID, cs)
     else let cached = nullish (map_get (ac_ids cs) trimmed) [] in
       if cached \<noteq> [] then (cached, cs)
       else let normalized = str_or (nullish (normalizeCanonicalAccountId trimmed) []) DEFAULT_ACCOUNT_ID in
         (normalized, cs\<lparr>ac_ids := setNormalizeCache trimmed normalized (ac_ids cs)\<rparr>))"

definition normalizeOptionalAccountId :: "string option \<Rightarrow> account_caches \<Rightarrow> string option \<times> account_caches" where
  "normalizeOptionalAccountId value cs = (let trimmed = trim (nullish value []) in
     if trimmed = [] then (None, cs)
     else case map_get (ac_optional cs) trimmed of
       Some hit \<Rightarrow> (hit, cs)
     | None \<Rightarrow> let normalized = Option.bind (normalizeCanonicalAccountId trimmed) str_opt in
         (normalized, cs\<lparr>ac_optional := setNormalizeCache trimmed normalized (ac_optional cs)\<rparr>))"

section \<open>The caches do not matter\<close>

text \<open>The specification: the normal form of an account id as a function of the id.\<close>

definition account_id :: "string option \<Rightarrow> string" where
  "account_id value = (let trimmed = trim (nullish value []) in
     if trimmed = [] then DEFAULT_ACCOUNT_ID else nullish (normalizeCanonicalAccountId trimmed) DEFAULT_ACCOUNT_ID)"

definition optional_account_id :: "string option \<Rightarrow> string option" where
  "optional_account_id value = (let trimmed = trim (nullish value []) in
     if trimmed = [] then None else normalizeCanonicalAccountId trimmed)"

definition cache_of :: "(string \<Rightarrow> 'v) \<Rightarrow> (string, 'v) js_map \<Rightarrow> bool" where
  "cache_of f c \<longleftrightarrow> wf_map c \<and> length c \<le> ACCOUNT_ID_CACHE_MAX \<and> (\<forall>k. map_get c k = None \<or> map_get c k = Some (f k))"

lemma cache_of_set: "cache_of f c \<Longrightarrow> cache_of f (setNormalizeCache k (f k) c)"
proof -
  assume c: "cache_of f c"
  let ?c = "map_set k (f k) c"
  have wf: "wf_map ?c" and get: "map_get ?c k' = None \<or> map_get ?c k' = Some (f k')" for k'
    using c by (auto simp: cache_of_def)
  have len: "length ?c \<le> Suc ACCOUNT_ID_CACHE_MAX"
    using c length_map_set_le [of k "f k" c] by (simp add: cache_of_def)
  show ?thesis
  proof (cases ?c)
    case Nil
    then show ?thesis using c by (simp add: setNormalizeCache_def cache_of_def)
  next
    case (Cons kv rest)
    obtain o' v' where kv: "kv = (o', v')" by (cases kv)
    have d: "map_delete o' ?c = rest"
      using wf Cons kv by (auto simp: wf_map_def intro!: delete_id)
    have "wf_map rest" using wf Cons by (simp add: wf_map_def)
    moreover have "map_get rest k' = None \<or> map_get rest k' = Some (f k')" for k'
      using get [of k'] map_get_delete [of o' ?c k'] unfolding d by (auto split: if_splits)
    ultimately show ?thesis
      using wf get len Cons kv d by (auto simp: setNormalizeCache_def cache_of_def Let_def)
  qed
qed

lemma canonical_not_Nil: "normalizeCanonicalAccountId t = Some c \<Longrightarrow> c \<noteq> []"
  by (auto simp: normalizeCanonicalAccountId_def Let_def split: if_splits)

definition caches_ok :: "account_caches \<Rightarrow> bool" where
  "caches_ok cs \<longleftrightarrow> cache_of (\<lambda>t. nullish (normalizeCanonicalAccountId t) DEFAULT_ACCOUNT_ID) (ac_ids cs) \<and>
     cache_of normalizeCanonicalAccountId (ac_optional cs)"

lemma normalizeAccountId_ok:
  assumes "caches_ok cs"
  shows "fst (normalizeAccountId value cs) = account_id value \<and> caches_ok (snd (normalizeAccountId value cs))"
proof -
  let ?t = "trim (nullish value [])" and ?f = "\<lambda>t. nullish (normalizeCanonicalAccountId t) DEFAULT_ACCOUNT_ID"
  have f: "str_or (nullish (normalizeCanonicalAccountId ?t) []) DEFAULT_ACCOUNT_ID = ?f ?t"
    using canonical_not_Nil by (cases "normalizeCanonicalAccountId ?t") auto
  have hit: "map_get (ac_ids cs) ?t = None \<or> map_get (ac_ids cs) ?t = Some (?f ?t)"
    using assms by (simp add: caches_ok_def cache_of_def)
  show ?thesis
    using assms cache_of_set [of ?f "ac_ids cs" ?t] hit
    by (cases "map_get (ac_ids cs) ?t") (auto simp: normalizeAccountId_def account_id_def caches_ok_def Let_def f)
qed

lemma normalizeOptionalAccountId_ok:
  assumes "caches_ok cs"
  shows "fst (normalizeOptionalAccountId value cs) = optional_account_id value \<and> caches_ok (snd (normalizeOptionalAccountId value cs))"
proof -
  let ?t = "trim (nullish value [])"
  have f: "Option.bind (normalizeCanonicalAccountId ?t) str_opt = normalizeCanonicalAccountId ?t"
    using canonical_not_Nil by (cases "normalizeCanonicalAccountId ?t") auto
  have hit: "map_get (ac_optional cs) ?t = None \<or> map_get (ac_optional cs) ?t = Some (normalizeCanonicalAccountId ?t)"
    using assms by (simp add: caches_ok_def cache_of_def)
  show ?thesis
    using assms cache_of_set [of normalizeCanonicalAccountId "ac_optional cs" ?t] hit
    by (cases "map_get (ac_optional cs) ?t")
      (auto simp: normalizeOptionalAccountId_def optional_account_id_def caches_ok_def Let_def f)
qed

datatype account_call = RequiredId "string option" | OptionalId "string option"

fun run_account_calls :: "account_call list \<Rightarrow> account_caches \<Rightarrow> string option list \<times> account_caches" where
  "run_account_calls [] cs = ([], cs)"
| "run_account_calls (RequiredId v # calls) cs = (let (r, cs1) = normalizeAccountId v cs; (rs, cs2) = run_account_calls calls cs1 in
     (Some r # rs, cs2))"
| "run_account_calls (OptionalId v # calls) cs = (let (r, cs1) = normalizeOptionalAccountId v cs; (rs, cs2) = run_account_calls calls cs1 in
     (r # rs, cs2))"

lemma run_account_calls_ok:
  "caches_ok cs \<Longrightarrow> fst (run_account_calls calls cs) =
      map (\<lambda>c. case c of RequiredId v \<Rightarrow> Some (account_id v) | OptionalId v \<Rightarrow> optional_account_id v) calls \<and>
    caches_ok (snd (run_account_calls calls cs))"
proof (induction calls arbitrary: cs)
  case (Cons c calls)
  show ?case
  proof (cases c)
    case (RequiredId v)
    from normalizeAccountId_ok [OF Cons.prems, of v] Cons.IH [of "snd (normalizeAccountId v cs)"] show ?thesis
      by (simp add: RequiredId split_def Let_def)
  next
    case (OptionalId v)
    from normalizeOptionalAccountId_ok [OF Cons.prems, of v] Cons.IH [of "snd (normalizeOptionalAccountId v cs)"] show ?thesis
      by (simp add: OptionalId split_def Let_def)
  qed
qed simp

definition caches_after :: "account_call list \<Rightarrow> account_caches" where
  "caches_after calls = snd (run_account_calls calls \<lparr>ac_ids = [], ac_optional = []\<rparr>)"

lemma caches_after_ok: "caches_ok (caches_after calls)"
  unfolding caches_after_def by (rule run_account_calls_ok [THEN conjunct2]) (simp add: caches_ok_def cache_of_def)

text \<open>
  The caches of account ids are transparent and bounded. Any sequence of calls, starting
  with empty caches, returns what the plain normalisation returns for each argument, whatever was
  asked before; and neither cache ever holds more than its maximum.
\<close>

theorem account_caches_transparent:
  "fst (run_account_calls calls \<lparr>ac_ids = [], ac_optional = []\<rparr>) =
     map (\<lambda>c. case c of RequiredId v \<Rightarrow> Some (account_id v) | OptionalId v \<Rightarrow> optional_account_id v) calls \<and>
   length (ac_ids (snd (run_account_calls calls \<lparr>ac_ids = [], ac_optional = []\<rparr>))) \<le> ACCOUNT_ID_CACHE_MAX \<and>
   length (ac_optional (snd (run_account_calls calls \<lparr>ac_ids = [], ac_optional = []\<rparr>))) \<le> ACCOUNT_ID_CACHE_MAX"
proof -
  have "caches_ok \<lparr>ac_ids = [], ac_optional = []\<rparr>" by (simp add: caches_ok_def cache_of_def)
  from run_account_calls_ok [OF this, of calls] show ?thesis by (simp add: caches_ok_def cache_of_def)
qed

section \<open>The shape of ids\<close>

lemma lower_id_char: "id_char (lower_char c) \<or> \<not> (id_char c \<or> upper_ascii c)"
proof -
  have "lower_char CHR ''-'' = CHR ''-''" "lower_char CHR ''_'' = CHR ''_''" by (simp_all add: lower_char_def)
  then show ?thesis by (auto simp: id_char_def id_start_def upper_ascii_def of_char_lower Let_def)
qed

lemma upper_lower_start: "id_start c \<or> upper_ascii c \<Longrightarrow> id_start (lower_char c)"
  by (auto simp: id_start_def upper_ascii_def of_char_lower Let_def)

lemma id_char_lower: "id_char c \<Longrightarrow> lower_char c = c"
proof -
  assume "id_char c"
  then have "\<not> (65 \<le> (of_char c :: nat) \<and> (of_char c :: nat) \<le> 90) \<and> (of_char c :: nat) < 192"
    by (auto simp: id_char_def id_start_def Let_def)
  then show ?thesis by (auto simp: lower_char_def Let_def)
qed

lemma collapse_id_chars: "list_all id_char (collapse_invalid s)"
  by (induction s rule: collapse_invalid.induct) (auto simp: id_char_def)

lemma slug_id_chars: "list_all id_char (id_slug s)"
proof -
  have "set (id_slug s) \<subseteq> set (collapse_invalid (to_lower s))"
    by (auto simp: id_slug_def strip_leading_dashes_def strip_trailing_dashes_def dest!: in_set_takeD set_dropWhileD)
  with collapse_id_chars [of "to_lower s"] show ?thesis by (auto simp: list_all_iff)
qed

lemma lower_valid_id: "valid_id s \<Longrightarrow> list_all id_char (to_lower s) \<and> length s \<le> 64 \<and> s \<noteq> []"
  using lower_id_char by (auto simp: valid_id_def to_lower_def list_all_iff id_char_def dest!: upper_lower_start split: list.splits)

definition plain_id :: "string \<Rightarrow> bool" where
  "plain_id s \<longleftrightarrow> list_all id_char s \<and> s \<noteq> [] \<and> length s \<le> 64"

lemma plain_id_agent: "plain_id (normalizeAgentId v)"
proof -
  let ?t = "trim (nullish v [])"
  have "plain_id (to_lower ?t)" if "valid_id ?t" using lower_valid_id [OF that] by (simp add: plain_id_def)
  moreover have "plain_id (str_or (id_slug ?t) DEFAULT_AGENT_ID)"
    using slug_id_chars [of ?t] by (simp add: str_or_def plain_id_def id_slug_def DEFAULT_AGENT_ID_def id_char_def id_start_def Let_def)
  ultimately show ?thesis
    by (simp add: normalizeAgentId_def Let_def) (simp add: plain_id_def DEFAULT_AGENT_ID_def id_char_def id_start_def)
qed

lemma plain_id_account: "plain_id (account_id v)"
proof -
  let ?t = "trim (nullish v [])"
  have "plain_id c" if "normalizeCanonicalAccountId t = Some c" for t c
    using that lower_valid_id [of t] slug_id_chars [of t] canonical_not_Nil [OF that]
    by (auto simp: normalizeCanonicalAccountId_def canonicalizeAccountId_def Let_def plain_id_def id_slug_def split: if_splits)
  then show ?thesis
    by (cases "normalizeCanonicalAccountId ?t")
      (auto simp: account_id_def Let_def plain_id_def DEFAULT_ACCOUNT_ID_def id_char_def id_start_def)
qed

lemma plain_id_facts:
  assumes "plain_id s"
  shows "CHR '':'' \<notin> set s" "to_lower s = s" "trim s = s" "s \<noteq> []"
proof -
  from assms have c: "c \<in> set s \<Longrightarrow> id_char c" for c by (auto simp: plain_id_def list_all_iff)
  show "CHR '':'' \<notin> set s" using c [of "CHR '':''"] by (auto simp: id_char_def id_start_def Let_def)
  show "to_lower s = s" using c id_char_lower by (simp add: to_lower_def map_idI)
  have "\<not> js_ws c" if "c \<in> set s" for c
    using c [OF that] by (auto simp: id_char_def id_start_def js_ws_def Let_def)
  then show "trim s = s" by (intro trim_id trimmed_no_ws) blast
  show "s \<noteq> []" using assms by (simp add: plain_id_def)
qed

section \<open>Parsing and classifying keys\<close>

abbreviation colon :: char where "colon \<equiv> CHR '':''"

record parsed_key =
  pk_agentId :: string
  pk_rest :: string

definition parseAgentSessionKey :: "string option \<Rightarrow> parsed_key option" where
  "parseAgentSessionKey sessionKey = (let raw = to_lower (trim (nullish sessionKey [])) in
     if raw = [] then None
     else let parts = nonempty_strs (split_on colon raw) in
       if length parts < 3 then None
       else if parts ! 0 \<noteq> ''agent'' then None
       else let agentId = trim (parts ! 1); rest = join_with [colon] (drop 2 parts) in
         if agentId = [] \<or> rest = [] then None
         else Some \<lparr>pk_agentId = agentId, pk_rest = rest\<rparr>)"

datatype chat_type = Direct | Group | Channel

text \<open>\<open>SessionKeyChatType\<close> is a chat type or "unknown", here None.\<close>

fun discord_channel_segments :: "string list \<Rightarrow> bool" where
  "discord_channel_segments [d, g, c] = (d = ''discord'' \<and> starts_with g ''guild-'' \<and> length g > 6 \<and>
     starts_with c ''channel-'' \<and> length c > 8)"
| "discord_channel_segments [d, a, g, c] = (d = ''discord'' \<and> a \<noteq> [] \<and> starts_with g ''guild-'' \<and> length g > 6 \<and>
     starts_with c ''channel-'' \<and> length c > 8)"
| "discord_channel_segments _ = False"

definition deriveSessionChatType :: "string option \<Rightarrow> chat_type option" where
  "deriveSessionChatType sessionKey = (let raw = to_lower (trim (nullish sessionKey [])) in
     if raw = [] then None
     else let scoped = nullish (map_option pk_rest (parseAgentSessionKey (Some raw))) raw;
              tokens = js_set_of (nonempty_strs (split_on colon scoped)) in
       if ''group'' \<in> set tokens then Some Group
       else if ''channel'' \<in> set tokens then Some Channel
       else if ''direct'' \<in> set tokens \<or> ''dm'' \<in> set tokens then Some Direct
       else if discord_channel_segments (split_on colon scoped) then Some Channel
       else None)"

fun cron_run_segments :: "string list \<Rightarrow> bool" where
  "cron_run_segments [c, j, r, i] = (c = ''cron'' \<and> j \<noteq> [] \<and> r = ''run'' \<and> i \<noteq> [])"
| "cron_run_segments _ = False"

definition isCronRunSessionKey :: "string option \<Rightarrow> bool" where
  "isCronRunSessionKey sessionKey = (case parseAgentSessionKey sessionKey of None \<Rightarrow> False
     | Some parsed \<Rightarrow> cron_run_segments (split_on colon (pk_rest parsed)))"

definition isCronSessionKey :: "string option \<Rightarrow> bool" where
  "isCronSessionKey sessionKey = (case parseAgentSessionKey sessionKey of None \<Rightarrow> False
     | Some parsed \<Rightarrow> starts_with (to_lower (pk_rest parsed)) ''cron:'')"

definition isSubagentSessionKey :: "string option \<Rightarrow> bool" where
  "isSubagentSessionKey sessionKey = (let raw = trim (nullish sessionKey []) in
     if raw = [] then False
     else if starts_with (to_lower raw) ''subagent:'' then True
     else starts_with (to_lower (nullish (map_option pk_rest (parseAgentSessionKey (Some raw))) [])) ''subagent:'')"

definition isAcpSessionKey :: "string option \<Rightarrow> bool" where
  "isAcpSessionKey sessionKey = (let raw = trim (nullish sessionKey []) in
     if raw = [] then False
     else if starts_with (to_lower raw) ''acp:'' then True
     else starts_with (to_lower (nullish (map_option pk_rest (parseAgentSessionKey (Some raw))) [])) ''acp:'')"

text \<open>\<open>s.split(p).length - 1\<close> counts the occurrences of p from the left, without overlaps.\<close>

function count_splits :: "string \<Rightarrow> string \<Rightarrow> nat" where
  "count_splits p s = (if p = [] \<or> s = [] then 0
     else if starts_with s p then Suc (count_splits p (drop (length p) s))
     else count_splits p (tl s))"
  by pat_completeness auto

termination
  by (relation "measure (length o snd)") auto

declare count_splits.simps [simp del]

definition getSubagentDepth :: "string option \<Rightarrow> nat" where
  "getSubagentDepth sessionKey = (let raw = to_lower (trim (nullish sessionKey [])) in
     if raw = [] then 0 else count_splits '':subagent:'' raw)"

text \<open>\<open>s.lastIndexOf(p)\<close> for a non-empty p, None for -1.\<close>

fun last_index_of :: "string \<Rightarrow> string \<Rightarrow> nat option" where
  "last_index_of p [] = None"
| "last_index_of p (c # s) = (case last_index_of p s of Some i \<Rightarrow> Some (Suc i)
     | None \<Rightarrow> if starts_with (c # s) p then Some 0 else None)"

definition THREAD_SESSION_MARKERS :: "string list" where
  "THREAD_SESSION_MARKERS = ['':thread:'', '':topic:'']"

definition later_index :: "nat option \<Rightarrow> nat option \<Rightarrow> nat option" where
  "later_index candidate idx = (case (candidate, idx) of (Some c, Some i) \<Rightarrow> if c > i then Some c else Some i
     | (Some c, None) \<Rightarrow> Some c | (None, _) \<Rightarrow> idx)"

definition resolveThreadParentSessionKey :: "string option \<Rightarrow> string option" where
  "resolveThreadParentSessionKey sessionKey = (let raw = trim (nullish sessionKey []) in
     if raw = [] then None
     else let normalized = to_lower raw;
              idx = fold (\<lambda>marker. later_index (last_index_of marker normalized)) THREAD_SESSION_MARKERS None in
       case idx of None \<Rightarrow> None
       | Some i \<Rightarrow> if i \<le> 0 then None else str_opt (trim (take i raw)))"

definition normalizeChatType :: "string option \<Rightarrow> chat_type option" where
  "normalizeChatType raw = (let value = nullish (map_option (\<lambda>r. to_lower (trim r)) raw) [] in
     if value = [] then None
     else if value = ''direct'' \<or> value = ''dm'' then Some Direct
     else if value = ''group'' then Some Group
     else if value = ''channel'' then Some Channel
     else None)"

section \<open>Building keys\<close>

text \<open>The values of an options object are \<^typ>\<open>'v\<close>; str embeds a string in them.\<close>

definition scopedHeartbeatWakeOptions :: "(string \<Rightarrow> 'v) \<Rightarrow> string \<Rightarrow> (string, 'v) js_map \<Rightarrow> (string, 'v) js_map" where
  "scopedHeartbeatWakeOptions str sessionKey wakeOptions =
     (if parseAgentSessionKey (Some sessionKey) \<noteq> None then map_set ''sessionKey'' (str sessionKey) wakeOptions else wakeOptions)"

definition agent_key :: "string list \<Rightarrow> string" where
  "agent_key segments = join_with [colon] (''agent'' # segments)"

definition buildAgentMainSessionKey :: "string \<Rightarrow> string option \<Rightarrow> string" where
  "buildAgentMainSessionKey agentId mainKey = agent_key [normalizeAgentId (Some agentId), normalizeMainKey mainKey]"

definition toAgentRequestSessionKey :: "string option \<Rightarrow> string option" where
  "toAgentRequestSessionKey storeKey = (let raw = trim (nullish storeKey []) in
     if raw = [] then None
     else Some (nullish (map_option pk_rest (parseAgentSessionKey (Some raw))) raw))"

definition toAgentStoreSessionKey :: "string \<Rightarrow> string option \<Rightarrow> string option \<Rightarrow> string" where
  "toAgentStoreSessionKey agentId requestKey mainKey = (let raw = trim (nullish requestKey []) in
     if raw = [] \<or> to_lower raw = DEFAULT_MAIN_KEY then buildAgentMainSessionKey agentId mainKey
     else case parseAgentSessionKey (Some raw) of
       Some parsed \<Rightarrow> agent_key [pk_agentId parsed, pk_rest parsed]
     | None \<Rightarrow> let lowered = to_lower raw in
         if starts_with lowered ''agent:'' then lowered
         else agent_key [normalizeAgentId (Some agentId), lowered])"

definition resolveAgentIdFromSessionKey :: "string option \<Rightarrow> string" where
  "resolveAgentIdFromSessionKey sessionKey =
     normalizeAgentId (Some (nullish (map_option pk_agentId (parseAgentSessionKey sessionKey)) DEFAULT_AGENT_ID))"

datatype key_shape = MissingKey | AgentKey | LegacyOrAlias | MalformedAgent

definition classifySessionKeyShape :: "string option \<Rightarrow> key_shape" where
  "classifySessionKeyShape sessionKey = (let raw = trim (nullish sessionKey []) in
     if raw = [] then MissingKey
     else if parseAgentSessionKey (Some raw) \<noteq> None then AgentKey
     else if starts_with (to_lower raw) ''agent:'' then MalformedAgent else LegacyOrAlias)"

text \<open>
  \<open>identityLinks\<close> is the list of entries of the object, in the order of \<open>Object.entries\<close>; a value
  that is not an array is None.
\<close>

type_synonym identity_links = "(string \<times> string list option) list"

definition link_candidates :: "string \<Rightarrow> string \<Rightarrow> string list" where
  "link_candidates channel peerId = (let rawCandidate = normalizeToken (Some peerId);
       c1 = (if rawCandidate \<noteq> [] then set_add rawCandidate [] else []);
       channel' = normalizeToken (Some channel) in
     if channel' \<noteq> [] then
       (let scopedCandidate = normalizeToken (Some (channel' @ [colon] @ peerId)) in
        if scopedCandidate \<noteq> [] then set_add scopedCandidate c1 else c1)
     else c1)"

fun linked_name :: "string list \<Rightarrow> identity_links \<Rightarrow> string option" where
  "linked_name candidates [] = None"
| "linked_name candidates ((canonical, ids) # entries) = (let canonicalName = trim canonical in
     if canonicalName = [] then linked_name candidates entries
     else case ids of
       None \<Rightarrow> linked_name candidates entries
     | Some xs \<Rightarrow>
         if list_ex (\<lambda>i. normalizeToken (Some i) \<noteq> [] \<and> normalizeToken (Some i) \<in> set candidates) xs
         then Some canonicalName else linked_name candidates entries)"

definition resolveLinkedPeerId :: "identity_links option \<Rightarrow> string \<Rightarrow> string \<Rightarrow> string option" where
  "resolveLinkedPeerId identityLinks channel peerId0 = (case identityLinks of None \<Rightarrow> None
     | Some links \<Rightarrow> let peerId = trim peerId0 in
         if peerId = [] then None
         else let candidates = link_candidates channel peerId in
           if length candidates = 0 then None else linked_name candidates links)"

datatype dm_scope = ScopeMain | PerPeer | PerChannelPeer | PerAccountChannelPeer

record peer_params =
  pp_agentId :: string
  pp_mainKey :: "string option"
  pp_channel :: string
  pp_accountId :: "string option"
  pp_peerKind :: "chat_type option"
  pp_peerId :: "string option"
  pp_identityLinks :: "identity_links option"
  pp_dmScope :: "dm_scope option"

fun chat_type_name :: "chat_type \<Rightarrow> string" where
  "chat_type_name Direct = ''direct''"
| "chat_type_name Group = ''group''"
| "chat_type_name Channel = ''channel''"

text \<open>The \<open>peerId\<close> of the direct branch after the identity links and the lower casing.\<close>

definition direct_peer :: "peer_params \<Rightarrow> string" where
  "direct_peer p = (let dmScope = nullish (pp_dmScope p) ScopeMain;
       peerId = trim (nullish (pp_peerId p) []);
       linkedPeerId = (if dmScope = ScopeMain then None
         else resolveLinkedPeerId (pp_identityLinks p) (pp_channel p) peerId) in
     to_lower (case linkedPeerId of Some l \<Rightarrow> str_or l peerId | None \<Rightarrow> peerId))"

definition buildAgentPeerSessionKey :: "peer_params \<Rightarrow> account_caches \<Rightarrow> string \<times> account_caches" where
  "buildAgentPeerSessionKey p cs = (let peerKind = nullish (pp_peerKind p) Direct in
     if peerKind = Direct then
       let dmScope = nullish (pp_dmScope p) ScopeMain;
           peerId = direct_peer p in
       if dmScope = PerAccountChannelPeer \<and> peerId \<noteq> [] then
         let channel = str_or (to_lower (trim (pp_channel p))) ''unknown'';
             (accountId, cs1) = normalizeAccountId (pp_accountId p) cs in
         (agent_key [normalizeAgentId (Some (pp_agentId p)), channel, accountId, ''direct'', peerId], cs1)
       else if dmScope = PerChannelPeer \<and> peerId \<noteq> [] then
         let channel = str_or (to_lower (trim (pp_channel p))) ''unknown'' in
         (agent_key [normalizeAgentId (Some (pp_agentId p)), channel, ''direct'', peerId], cs)
       else if dmScope = PerPeer \<and> peerId \<noteq> [] then
         (agent_key [normalizeAgentId (Some (pp_agentId p)), ''direct'', peerId], cs)
       else (buildAgentMainSessionKey (pp_agentId p) (pp_mainKey p), cs)
     else
       let channel = str_or (to_lower (trim (pp_channel p))) ''unknown'';
           peerId = to_lower (str_or (trim (nullish (pp_peerId p) [])) ''unknown'') in
       (agent_key [normalizeAgentId (Some (pp_agentId p)), channel, chat_type_name peerKind, peerId], cs))"

definition buildGroupHistoryKey ::
  "string \<Rightarrow> string option \<Rightarrow> chat_type \<Rightarrow> string \<Rightarrow> account_caches \<Rightarrow> string \<times> account_caches" where
  "buildGroupHistoryKey channel0 accountId0 peerKind peerId0 cs = (let channel = str_or (normalizeToken (Some channel0)) ''unknown'';
       (accountId, cs1) = normalizeAccountId accountId0 cs;
       peerId = str_or (to_lower (trim peerId0)) ''unknown'' in
     (join_with [colon] [channel, accountId, chat_type_name peerKind, peerId], cs1))"

record thread_keys =
  tk_sessionKey :: string
  tk_parentSessionKey :: "string option"

definition resolveThreadSessionKeys ::
  "string \<Rightarrow> string option \<Rightarrow> string option \<Rightarrow> bool option \<Rightarrow> (string \<Rightarrow> string) option \<Rightarrow> thread_keys" where
  "resolveThreadSessionKeys baseSessionKey threadId0 parentSessionKey useSuffix0 normalizeThreadId =
     (let threadId = trim (nullish threadId0 []) in
      if threadId = [] then \<lparr>tk_sessionKey = baseSessionKey, tk_parentSessionKey = None\<rparr>
      else let normalizedThreadId = nullish normalizeThreadId to_lower threadId;
               useSuffix = nullish useSuffix0 True;
               sessionKey = (if useSuffix then baseSessionKey @ '':thread:'' @ normalizedThreadId else baseSessionKey) in
        \<lparr>tk_sessionKey = sessionKey, tk_parentSessionKey = parentSessionKey\<rparr>)"

section \<open>Reading back what was built\<close>

lemma join_split: "join_with [d] (split_on d s) = s"
proof (induction s)
  case (Cons c s)
  then show ?case
    by (cases "split_on d s"; cases "tl (split_on d s)") auto
qed simp

text \<open>A key is clean when no segment is empty.\<close>

definition clean_key :: "string \<Rightarrow> bool" where
  "clean_key s \<longleftrightarrow> [] \<notin> set (split_on colon s)"

lemma clean_segments: "clean_key s \<Longrightarrow> nonempty_strs (split_on colon s) = split_on colon s"
  by (auto simp: clean_key_def nonempty_strs_def filter_id_conv)

lemma clean_not_Nil: "clean_key s \<Longrightarrow> s \<noteq> []"
  by (auto simp: clean_key_def)

lemma sep_inj: "d \<notin> set w \<Longrightarrow> d \<notin> set w' \<Longrightarrow> w @ d # s = w' @ d # s' \<longleftrightarrow> w = w' \<and> s = s'"
proof (induction w arbitrary: w')
  case Nil
  then show ?case by (cases w') auto
next
  case (Cons a w)
  then show ?case by (cases w') auto
qed

lemma agent_key_cons: "rs \<noteq> [] \<Longrightarrow> agent_key (a # rs) = ''agent:'' @ a @ colon # join_with [colon] rs"
  by (cases rs) (simp_all add: agent_key_def)

lemma trimmed_append: "s \<noteq> [] \<Longrightarrow> t \<noteq> [] \<Longrightarrow> trimmed (s @ t) \<longleftrightarrow> \<not> js_ws (hd s) \<and> \<not> js_ws (last t)"
  by (simp add: trimmed_def)

lemma trimmed_last: "trimmed s \<Longrightarrow> s \<noteq> [] \<Longrightarrow> \<not> js_ws (last s)"
  by (simp add: trimmed_def)

lemma agent_prefix_facts [simp]:
  "to_lower ''agent:'' = ''agent:''" "split_on colon ''agent'' = [''agent'']" "\<not> js_ws CHR ''a''" "\<not> js_ws colon"
  by (simp_all add: str_eval)

definition plain_segment :: "string \<Rightarrow> bool" where
  "plain_segment a \<longleftrightarrow> a \<noteq> [] \<and> colon \<notin> set a \<and> lowercase a \<and> trim a \<noteq> []"

lemma plain_id_segment: "plain_id a \<Longrightarrow> plain_segment a"
  using plain_id_facts [of a] by (simp add: plain_segment_def lowercase_def)

lemma split_agent_key: "colon \<notin> set a \<Longrightarrow> split_on colon (''agent:'' @ a @ colon # r) = ''agent'' # a # split_on colon r"
  using split_on_append_sep [of colon "''agent''" "a @ colon # r"] by (simp add: split_on_append_sep)

lemma parse_built:
  assumes a: "plain_segment a" and r: "lowercase r" "r = [] \<or> \<not> js_ws (last r)"
  shows "parseAgentSessionKey (Some (''agent:'' @ a @ colon # r)) =
    (if nonempty_strs (split_on colon r) = [] then None
     else Some \<lparr>pk_agentId = trim a, pk_rest = join_with [colon] (nonempty_strs (split_on colon r))\<rparr>)"
proof -
  let ?k = "''agent:'' @ a @ colon # r"
  have low: "to_lower ?k = ?k" using a r by (simp add: plain_segment_def lowercase_def to_lower_def lower_char_def)
  have trim: "trim ?k = ?k" using r by (intro trim_id) (auto simp: trimmed_def)
  have segs: "nonempty_strs (split_on colon ?k) = ''agent'' # a # nonempty_strs (split_on colon r)"
    using a by (simp add: split_on_append_sep plain_segment_def nonempty_strs_def)
  have "join_with [colon] (nonempty_strs ws) \<noteq> []" if "nonempty_strs ws \<noteq> []" for ws
    using that by (subst join_with_Nil_iff) (auto simp: nonempty_strs_def)
  then show ?thesis
    using a unfolding parseAgentSessionKey_def Let_def nullish_simps trim low segs
    by (auto simp: plain_segment_def Suc_le_eq numeral_3_eq_3)
qed

lemma parse_built_clean:
  assumes "plain_segment a" "lowercase r" "\<not> js_ws (last r)" "clean_key r"
  shows "parseAgentSessionKey (Some (''agent:'' @ a @ colon # r)) = Some \<lparr>pk_agentId = trim a, pk_rest = r\<rparr>"
  using assms clean_not_Nil [OF assms(4)] parse_built [of a r] by (simp add: clean_segments join_split)

lemma parse_Some_form:
  assumes "parseAgentSessionKey (Some k) = Some q"
  shows "\<exists>a. plain_segment a \<and> pk_agentId q = trim a \<and> lowercase (pk_rest q) \<and> pk_rest q \<noteq> [] \<and> clean_key (pk_rest q) \<and>
    (clean_key (to_lower (trim k)) \<longrightarrow> to_lower (trim k) = ''agent:'' @ a @ colon # pk_rest q)"
proof -
  let ?raw = "to_lower (trim k)" and ?parts = "nonempty_strs (split_on colon (to_lower (trim k)))"
  from assms have q: "3 \<le> length ?parts" "?parts ! 0 = ''agent''" "trim (?parts ! 1) \<noteq> []"
      "q = \<lparr>pk_agentId = trim (?parts ! 1), pk_rest = join_with [colon] (drop 2 ?parts)\<rparr>"
    unfolding parseAgentSessionKey_def Let_def nullish_simps by (auto split: if_splits)
  then obtain a b rs where parts: "?parts = ''agent'' # a # b # rs"
    by (cases ?parts; cases "tl ?parts"; cases "tl (tl ?parts)") auto
  have seg: "w \<noteq> [] \<and> colon \<notin> set w \<and> lowercase w" if "w \<in> set ?parts" for w
    using that split_on_no_sep [of w colon ?raw] set_split_on [of w colon ?raw] lowercase_subset [of ?raw w]
    by (auto simp: nonempty_strs_def)
  have split: "split_on colon (join_with [colon] (b # rs)) = b # rs"
    using seg parts by (intro split_join) auto
  have "lowercase (join_with [colon] (b # rs))"
  proof -
    have "lower_char c = c" if c: "c \<in> set (join_with [colon] (b # rs))" for c
    proof (cases "c = colon")
      case False
      with c set_join_with [of "[colon]" "b # rs"] obtain w where w: "w \<in> set (b # rs)" "c \<in> set w" by auto
      then have "lowercase w" using seg [of w] parts by auto
      with w show ?thesis by (simp add: lowercase_iff)
    qed (simp add: lower_char_def)
    then show ?thesis by (simp add: lowercase_iff)
  qed
  moreover have "clean_key (join_with [colon] (b # rs))" using seg parts by (auto simp: clean_key_def split)
  moreover have "?raw = ''agent:'' @ a @ colon # join_with [colon] (b # rs)" if "clean_key ?raw"
    using join_split [of colon ?raw] parts clean_segments [OF that] by simp
  ultimately show ?thesis
    using q parts seg [of a] clean_not_Nil by (intro exI [of _ a]) (auto simp: plain_segment_def)
qed

lemma normalizeMainKey_shape: "lowercase (normalizeMainKey m) \<and> trimmed (normalizeMainKey m) \<and> normalizeMainKey m \<noteq> []"
proof -
  have "lowercase DEFAULT_MAIN_KEY \<and> trimmed DEFAULT_MAIN_KEY \<and> DEFAULT_MAIN_KEY \<noteq> []"
    by (simp add: DEFAULT_MAIN_KEY_def lowercase_def trimmed_def str_eval)
  then show ?thesis by (simp add: normalizeMainKey_def Let_def)
qed

lemma agent_key_pair: "agent_key [a, r] = ''agent:'' @ a @ colon # r"
  by (simp add: agent_key_def)

lemma stored_stable:
  assumes "plain_segment a" "trim a = a" "lowercase r" "\<not> js_ws (last r)" "clean_key r"
  shows "toAgentStoreSessionKey a' (Some (agent_key [a, r])) m' = agent_key [a, r] \<and>
    toAgentRequestSessionKey (Some (agent_key [a, r])) = Some r"
proof -
  let ?k = "agent_key [a, r]"
  have "trim ?k = ?k" using assms by (intro trim_id) (auto simp: agent_key_pair trimmed_def clean_key_def)
  moreover have "to_lower ?k \<noteq> DEFAULT_MAIN_KEY" by (simp add: agent_key_pair DEFAULT_MAIN_KEY_def to_lower_def lower_char_def)
  moreover have "parseAgentSessionKey (Some ?k) = Some \<lparr>pk_agentId = a, pk_rest = r\<rparr>"
    using assms parse_built_clean [of a r] by (simp add: agent_key_pair)
  moreover have "?k \<noteq> []" by (simp add: agent_key_pair)
  ultimately show ?thesis by (simp add: toAgentStoreSessionKey_def toAgentRequestSessionKey_def Let_def)
qed

lemma plain_segment_trim: "plain_segment a \<Longrightarrow> plain_segment (trim a)"
  using set_trim [of a] by (auto simp: plain_segment_def lowercase_iff)

lemma clean_last: "clean_key (x @ colon # r) \<Longrightarrow> r \<noteq> []"
  by (auto simp: clean_key_def split_on_append)

lemma stored_parsed_stable:
  assumes q: "parseAgentSessionKey (Some raw) = Some q" and raw: "trim raw = raw" "raw \<noteq> []" "clean_key (to_lower raw)"
    and main: "to_lower raw \<noteq> DEFAULT_MAIN_KEY"
  shows "toAgentStoreSessionKey a' (Some (toAgentStoreSessionKey a (Some raw) m)) m' = toAgentStoreSessionKey a (Some raw) m \<and>
    starts_with (to_lower raw) ''agent:''"
proof -
  from parse_Some_form [OF q] raw obtain s where s: "plain_segment s" "pk_agentId q = trim s" "lowercase (pk_rest q)"
      "clean_key (pk_rest q)" and eq: "to_lower raw = ''agent:'' @ s @ colon # pk_rest q" by auto
  have K: "toAgentStoreSessionKey a (Some raw) m = agent_key [trim s, pk_rest q]"
    using raw q s main by (simp add: toAgentStoreSessionKey_def Let_def)
  have "\<not> js_ws (last (to_lower raw))" using raw by (metis trimmed_last trimmed_lower trimmed_trim to_lower_eq_Nil)
  then have "\<not> js_ws (last (pk_rest q))" using s(4) by (simp add: eq clean_not_Nil)
  with stored_stable [of "trim s" "pk_rest q" a' m'] s plain_segment_trim [of s] eq show ?thesis by (simp add: K)
qed

text \<open>
  Storing a session key is stable and reversible. For a request key and a main key without
  empty segments, the stored key is a fixed point: stored again for any agent and any main key it
  comes back unchanged, so a key that is passed through the router twice does not move to another
  agent. And unless the request named an agent itself, the request key read back from the stored
  key is the request key in lower case, or the main key for a blank request or the alias "main".
\<close>

theorem stored_keys_round_trip:
  assumes k: "clean_key (normalizeMainKey k)" and m: "clean_key (normalizeMainKey m)"
  shows "toAgentStoreSessionKey a' (Some (toAgentStoreSessionKey a k m)) m' = toAgentStoreSessionKey a k m \<and>
    (\<not> starts_with (normalizeMainKey k) ''agent:'' \<longrightarrow>
      toAgentRequestSessionKey (Some (toAgentStoreSessionKey a k m)) =
        Some (if normalizeMainKey k = DEFAULT_MAIN_KEY then normalizeMainKey m else normalizeMainKey k))"
proof -
  let ?raw = "trim (nullish k [])" and ?K = "toAgentStoreSessionKey a k m"
  show ?thesis
  proof (cases "normalizeMainKey k = DEFAULT_MAIN_KEY")
    case True
    then have K: "?K = agent_key [normalizeAgentId (Some a), normalizeMainKey m]"
      by (auto simp: toAgentStoreSessionKey_def normalizeMainKey_def Let_def buildAgentMainSessionKey_def split: if_splits)
    show ?thesis
      using stored_stable [of "normalizeAgentId (Some a)" "normalizeMainKey m" a' m'] True m normalizeMainKey_shape [of m]
        plain_id_facts(3) [OF plain_id_agent] plain_id_segment [OF plain_id_agent]
      by (simp add: K trimmed_last)
  next
    case False
    then have raw: "?raw \<noteq> []" "to_lower ?raw \<noteq> DEFAULT_MAIN_KEY" and nk: "normalizeMainKey k = to_lower ?raw"
      by (auto simp: normalizeMainKey_def Let_def split: if_splits)
    have last: "\<not> js_ws (last (to_lower ?raw))" using raw by (simp add: trimmed_last)
    show ?thesis
    proof (cases "parseAgentSessionKey (Some ?raw)")
      case (Some q)
      have same: "toAgentStoreSessionKey a k m = toAgentStoreSessionKey a (Some ?raw) m" by (simp add: toAgentStoreSessionKey_def)
      from stored_parsed_stable [OF Some _ raw(1) _ raw(2)] k nk show ?thesis by (simp add: same)
    next
      case None
      show ?thesis
      proof (cases "starts_with (to_lower ?raw) ''agent:''")
        case True
        then have K: "?K = to_lower ?raw" using raw None by (simp add: toAgentStoreSessionKey_def Let_def)
        have "parseAgentSessionKey (Some (to_lower ?raw)) = None"
          using None by (simp add: parseAgentSessionKey_def Let_def trim_lower)
        then show ?thesis unfolding K using raw True nk by (simp add: toAgentStoreSessionKey_def Let_def trim_lower)
      next
        case False
        then have K: "?K = agent_key [normalizeAgentId (Some a), to_lower ?raw]"
          using raw None by (simp add: toAgentStoreSessionKey_def Let_def)
        with stored_stable [of "normalizeAgentId (Some a)" "to_lower ?raw" a' m'] k nk last
          plain_id_facts(3) [OF plain_id_agent] plain_id_segment [OF plain_id_agent] raw
        show ?thesis by simp
      qed
    qed
  qed
qed

theorem stored_keys_round_trip_witness:
  "toAgentStoreSessionKey ''ops'' (Some (toAgentStoreSessionKey ''main'' (Some '' Cron:Job1 '') None)) None =
     toAgentStoreSessionKey ''main'' (Some '' Cron:Job1 '') None \<and>
   toAgentRequestSessionKey (Some (toAgentStoreSessionKey ''main'' (Some '' Cron:Job1 '') None)) = Some ''cron:job1''"
proof -
  have k: "normalizeMainKey (Some '' Cron:Job1 '') = ''cron:job1''" by code_simp
  have "clean_key (normalizeMainKey (Some '' Cron:Job1 ''))" "clean_key (normalizeMainKey None)" by code_simp+
  from stored_keys_round_trip [OF this, of "''ops''" "''main''" None] show ?thesis
    unfolding k by (simp add: DEFAULT_MAIN_KEY_def)
qed

text \<open>Without the hypothesis: a trailing blank segment is lost on the second pass.\<close>

lemma stored_key_with_blank_segment:
  "toAgentStoreSessionKey ''main'' (Some ''a::b'') None = ''agent:main:a::b''"
  "toAgentStoreSessionKey ''main'' (Some ''agent:main:a::b'') None = ''agent:main:a:b''"
  by code_simp+

section \<open>Keys of peers and threads\<close>

lemma valid_id_plain: "plain_id s \<Longrightarrow> id_start (hd s) \<Longrightarrow> valid_id s"
  by (cases s) (auto simp: plain_id_def valid_id_def list_all_iff)

lemma collapse_id: "list_all id_char s \<Longrightarrow> collapse_invalid s = s"
  by (induction s) auto

lemma length_collapse: "length (collapse_invalid s) \<le> length s"
proof (induction s rule: collapse_invalid.induct)
  case (2 c cs)
  then show ?case using length_dropWhile_le [of "\<lambda>d. \<not> id_char d" cs] by auto
qed simp

lemma length_trim: "length (trim s) \<le> length s"
  using length_dropWhile_le [of js_ws s] length_dropWhile_le [of js_ws "rev (dropWhile js_ws s)"]
  by (simp add: trim_def trim_end_def trim_start_def)

lemma strip_trailing_idem: "strip_trailing_dashes (strip_trailing_dashes s) = strip_trailing_dashes s"
  by (simp add: strip_trailing_dashes_def)

lemma length_strip: "length (strip_trailing_dashes (strip_leading_dashes s)) \<le> length s"
  using length_dropWhile_le [of "\<lambda>c. c = CHR ''-''" s] length_dropWhile_le [of "\<lambda>c. c = CHR ''-''" "rev (dropWhile (\<lambda>c. c = CHR ''-'') s)"]
  by (simp add: strip_trailing_dashes_def strip_leading_dashes_def)

lemma id_slug_idem:
  assumes "length s \<le> 64" "id_slug s \<noteq> []"
  shows "id_slug (id_slug s) = id_slug s"
proof -
  let ?c = "collapse_invalid (to_lower s)" and ?s = "strip_trailing_dashes (strip_leading_dashes (collapse_invalid (to_lower s)))"
  have slug: "id_slug s = ?s"
    using length_strip [of ?c] length_collapse [of "to_lower s"] assms(1) by (simp add: id_slug_def)
  have low: "to_lower ?s = ?s" and coll: "collapse_invalid ?s = ?s" and len: "length ?s \<le> 64"
    using slug_id_chars [of s] id_char_lower slug length_strip [of ?c] length_collapse [of "to_lower s"] assms(1)
    by (auto simp: to_lower_def list_all_iff intro: map_idI collapse_id)
  have "strip_leading_dashes ?c \<noteq> []" using assms(2) by (auto simp: slug strip_trailing_dashes_def)
  moreover from this have "hd (strip_leading_dashes ?c) \<noteq> CHR ''-''"
    unfolding strip_leading_dashes_def by (rule hd_dropWhile)
  ultimately have "?s \<noteq> []" "hd ?s \<noteq> CHR ''-''"
    using dropWhile_rev_hd [of "strip_leading_dashes ?c" "\<lambda>c. c = CHR ''-''"] by (auto simp: strip_trailing_dashes_def)
  then have "strip_leading_dashes ?s = ?s" by (cases ?s) (auto simp: strip_leading_dashes_def)
  then show ?thesis using low coll len by (simp add: slug) (simp add: id_slug_def strip_trailing_idem)
qed

lemma normalizeAgentId_idem:
  assumes "length a \<le> 64"
  shows "normalizeAgentId (Some (normalizeAgentId (Some a))) = normalizeAgentId (Some a)"
proof -
  let ?n = "normalizeAgentId (Some a)"
  have "?n = id_slug ?n \<or> valid_id ?n"
  proof (cases "valid_id (trim a)")
    case True
    then have "id_start (hd (to_lower (trim a)))"
      using upper_lower_start lower_id_char by (auto simp: valid_id_def to_lower_def split: list.splits)
    with True show ?thesis using plain_id_agent [of "Some a"] valid_id_plain [of ?n]
      by (auto simp: normalizeAgentId_def Let_def DEFAULT_AGENT_ID_def valid_id_def id_start_def id_char_def)
  next
    case False
    have "valid_id DEFAULT_AGENT_ID" by code_simp
    with False id_slug_idem [of "trim a"] length_trim [of a] assms show ?thesis
      by (auto simp: normalizeAgentId_def Let_def str_or_def)
  qed
  then show ?thesis
    using plain_id_facts [OF plain_id_agent, of "Some a"]
    by (subst normalizeAgentId_def) (auto simp: Let_def str_or_def)
qed

lemma only_colons:
  assumes "nonempty_strs (split_on colon r) = []"
  shows "set r \<subseteq> {colon}"
  using assms set_join_with [of "[colon]" "split_on colon r"]
  by (fastforce simp: nonempty_strs_def join_split filter_empty_conv)

lemma agent_of_built:
  assumes "lowercase r" "\<not> js_ws (last r)" "\<not> set r \<subseteq> {colon}"
  shows "resolveAgentIdFromSessionKey (Some (''agent:'' @ normalizeAgentId v @ colon # r)) = normalizeAgentId (Some (normalizeAgentId v))"
  using parse_built [OF plain_id_segment [OF plain_id_agent] assms(1), of v] assms(2) only_colons [of r] assms(3)
    plain_id_facts(3) [OF plain_id_agent]
  by (auto simp: resolveAgentIdFromSessionKey_def)

lemma lower_last: "lowercase s \<Longrightarrow> trimmed s \<Longrightarrow> s \<noteq> [] \<Longrightarrow> lowercase (x @ s) = lowercase x \<and> \<not> js_ws (last (x @ s))"
  by (simp add: trimmed_last)

lemma linked_name_trimmed: "linked_name cs es = Some n \<Longrightarrow> trimmed n \<and> n \<noteq> []"
  by (induction cs es rule: linked_name.induct) (auto simp: Let_def split: if_splits option.splits)

lemma direct_peer_shape: "lowercase (direct_peer p) \<and> trimmed (direct_peer p)"
proof -
  have "trimmed l" if "resolveLinkedPeerId links ch peer = Some l" for links ch peer l
    using that linked_name_trimmed by (auto simp: resolveLinkedPeerId_def Let_def split: option.splits if_splits)
  then show ?thesis by (auto simp: direct_peer_def Let_def str_or_def split: option.splits)
qed

lemma peer_channel_shape: "lowercase (str_or (to_lower (trim c)) ''unknown'')"
  by (simp add: str_or_def) (simp add: lowercase_def str_eval)

lemma chat_type_lower: "lowercase (chat_type_name k)" "lowercase ''direct''" "lowercase [colon]"
  by (cases k) (simp_all add: lowercase_def str_eval)

lemma lowercase_Cons_colon [simp]: "lowercase (colon # s) = lowercase s"
  using lowercase_append [of "[colon]" s] chat_type_lower(3) by simp

lemma account_of_caches: "caches_ok cs \<Longrightarrow> fst (normalizeAccountId v cs) = account_id v"
  using normalizeAccountId_ok by blast

definition ends_plain :: "string \<Rightarrow> bool" where
  "ends_plain r \<longleftrightarrow> lowercase r \<and> \<not> js_ws (last r) \<and> \<not> set r \<subseteq> {colon}"

lemma ends_plain_cons: "ends_plain r \<Longrightarrow> lowercase x \<Longrightarrow> ends_plain (x @ colon # r)"
  by (cases "r = []") (auto simp: ends_plain_def)

lemma ends_plain_tag: "lowercase y \<Longrightarrow> trimmed y \<Longrightarrow> y \<noteq> [] \<Longrightarrow> ends_plain (chat_type_name k @ colon # y)"
proof -
  assume y: "lowercase y" "trimmed y" "y \<noteq> []"
  have "\<not> set (chat_type_name k) \<subseteq> {colon}" by (cases k) auto
  then show ?thesis using y chat_type_lower(1) [of k] by (auto simp: ends_plain_def trimmed_last)
qed

lemma direct_tag: "''direct'' @ x = chat_type_name Direct @ x"
  by simp

lemma main_key_ends_plain: "\<not> set (normalizeMainKey m) \<subseteq> {colon} \<Longrightarrow> ends_plain (normalizeMainKey m)"
  using normalizeMainKey_shape [of m] by (simp add: ends_plain_def trimmed_last)

definition direct_key_rest :: "peer_params \<Rightarrow> string" where
  "direct_key_rest p = (let channel = str_or (to_lower (trim (pp_channel p))) ''unknown''; peer = ''direct'' @ colon # direct_peer p in
     if direct_peer p = [] then normalizeMainKey (pp_mainKey p)
     else case nullish (pp_dmScope p) ScopeMain of
       PerAccountChannelPeer \<Rightarrow> channel @ colon # account_id (pp_accountId p) @ colon # peer
     | PerChannelPeer \<Rightarrow> channel @ colon # peer
     | PerPeer \<Rightarrow> peer
     | ScopeMain \<Rightarrow> normalizeMainKey (pp_mainKey p))"

text \<open>The specification of a peer key: everything after the agent, without the caches.\<close>

definition key_rest :: "peer_params \<Rightarrow> string" where
  "key_rest p = (case nullish (pp_peerKind p) Direct of Direct \<Rightarrow> direct_key_rest p
     | kind \<Rightarrow> str_or (to_lower (trim (pp_channel p))) ''unknown'' @ colon # chat_type_name kind @ colon #
         to_lower (str_or (trim (nullish (pp_peerId p) [])) ''unknown''))"

lemma built_key:
  assumes "caches_ok cs"
  shows "fst (buildAgentPeerSessionKey p cs) = ''agent:'' @ normalizeAgentId (Some (pp_agentId p)) @ colon # key_rest p"
  using account_of_caches [OF assms, of "pp_accountId p"]
  by (auto simp: buildAgentPeerSessionKey_def Let_def key_rest_def direct_key_rest_def agent_key_def split_def
      buildAgentMainSessionKey_def split: chat_type.splits dm_scope.splits)

lemma key_rest_ends_plain:
  assumes "\<not> set (normalizeMainKey (pp_mainKey p)) \<subseteq> {colon}"
  shows "ends_plain (key_rest p)"
proof -
  have u: "lowercase ''unknown''" "trimmed ''unknown''" by (simp_all add: lowercase_def trimmed_def str_eval)
  have acc: "lowercase (account_id v)" for v
    using plain_id_facts(2) [OF plain_id_account] by (simp add: lowercase_def)
  have peer: "ends_plain (chat_type_name k @ colon # to_lower (str_or (trim i) ''unknown''))" for k i
    using u by (intro ends_plain_tag) (simp_all add: str_or_def)
  have direct: "direct_peer p \<noteq> [] \<Longrightarrow> ends_plain (''direct'' @ colon # direct_peer p)"
    using direct_peer_shape [of p] ends_plain_tag [of "direct_peer p" Direct] by simp
  show ?thesis
    using main_key_ends_plain [OF assms] ends_plain_cons [OF peer peer_channel_shape] direct
      ends_plain_cons [OF direct peer_channel_shape] ends_plain_cons [OF ends_plain_cons [OF direct acc] peer_channel_shape]
    unfolding key_rest_def direct_key_rest_def Let_def
    by (simp del: chat_type_name.simps append_Cons split: chat_type.splits dm_scope.splits)
qed

lemma lower_colon: "colon \<in> set (to_lower s) \<Longrightarrow> colon \<in> set s"
proof -
  assume "colon \<in> set (to_lower s)"
  then obtain c where c: "c \<in> set s" "lower_char c = colon" by (auto simp: to_lower_def)
  have "(of_char (lower_char c) :: nat) = 58" by (simp add: c(2))
  then have "(of_char c :: nat) = of_char colon" by (auto simp: of_char_lower Let_def split: if_splits)
  then have "c = colon" by (simp only: of_char_eq_iff)
  with c show ?thesis by simp
qed

text \<open>
  A session key names the agent it was built for. For every combination of peer kind, scope,
  channel, account, peer and identity links, and whatever the account caches hold, the agent read
  back from the key that \<open>buildAgentPeerSessionKey\<close> makes is the normalised id of the agent it was
  made for. The configured main key must have a character other than a colon, and the agent id at
  most 64 characters, the length the normal form is cut to.
\<close>

theorem peer_key_names_its_agent:
  assumes "length (pp_agentId p) \<le> 64" and "\<not> set (normalizeMainKey (pp_mainKey p)) \<subseteq> {colon}"
  shows "resolveAgentIdFromSessionKey (Some (fst (buildAgentPeerSessionKey p (caches_after calls)))) =
    normalizeAgentId (Some (pp_agentId p))"
  using key_rest_ends_plain [OF assms(2)] agent_of_built [of "key_rest p" "Some (pp_agentId p)"]
  unfolding built_key [OF caches_after_ok] by (simp add: ends_plain_def normalizeAgentId_idem [OF assms(1)])

text \<open>The peer a direct key is for: the linked name of the peer id, or the id, in lower case.\<close>

definition effective_peer :: "peer_params \<Rightarrow> string" where
  "effective_peer p = (let peerId = trim (nullish (pp_peerId p) []) in
     to_lower (case resolveLinkedPeerId (pp_identityLinks p) (pp_channel p) peerId of None \<Rightarrow> peerId | Some name \<Rightarrow> name))"

lemma effective_peer_exact: "pp_dmScope p \<notin> {None, Some ScopeMain} \<Longrightarrow> direct_peer p = effective_peer p"
proof -
  have "name \<noteq> []" if "resolveLinkedPeerId links ch peer = Some name" for links ch peer name
    using that linked_name_trimmed by (auto simp: resolveLinkedPeerId_def Let_def split: option.splits if_splits)
  then show "pp_dmScope p \<notin> {None, Some ScopeMain} \<Longrightarrow> ?thesis"
    by (auto simp: direct_peer_def effective_peer_def Let_def str_or_def split: option.splits)
qed

text \<open>
  C37: Direct messages of different effective peers stay in different sessions. In the scope
  per-account-channel-peer two direct keys are equal exactly when the agent, the channel, the
  account (each in its normal form) and the effective peer are all equal. The effective peer is
  the lower-cased name that the identity links give to the peer id, or the lower-cased trimmed id
  itself where no link applies: so two unlinked peers share a session exactly when their trimmed
  ids differ only in letter case. Two users can thus share one: ids that differ in case, and an
  unlinked peer whose id is the name of a linked identity. The channel must not contain a colon;
  peer ids may; a missing peer id is not covered.
\<close>

theorem direct_sessions_isolated:
  assumes kind: "nullish (pp_peerKind p) Direct = Direct" "nullish (pp_peerKind q) Direct = Direct"
    and scope: "pp_dmScope p = Some PerAccountChannelPeer" "pp_dmScope q = Some PerAccountChannelPeer"
    and ids: "effective_peer p \<noteq> []" "effective_peer q \<noteq> []"
    and channel: "colon \<notin> set (pp_channel p)" "colon \<notin> set (pp_channel q)"
  shows "fst (buildAgentPeerSessionKey p (caches_after c1)) = fst (buildAgentPeerSessionKey q (caches_after c2)) \<longleftrightarrow>
    normalizeAgentId (Some (pp_agentId p)) = normalizeAgentId (Some (pp_agentId q)) \<and>
    str_or (to_lower (trim (pp_channel p))) ''unknown'' = str_or (to_lower (trim (pp_channel q))) ''unknown'' \<and>
    account_id (pp_accountId p) = account_id (pp_accountId q) \<and> effective_peer p = effective_peer q"
proof -
  have same: "direct_peer p = effective_peer p" "direct_peer q = effective_peer q" using scope by (simp_all add: effective_peer_exact)
  with ids have peer: "direct_peer p \<noteq> []" "direct_peer q \<noteq> []" by simp_all
  have ch: "colon \<notin> set (str_or (to_lower (trim c)) ''unknown'')" if "colon \<notin> set c" for c
    using lower_colon [of "trim c"] that set_trim [of c] by (auto simp: str_or_def)
  show ?thesis
    unfolding built_key [OF caches_after_ok]
    using kind scope peer sep_inj [OF plain_id_facts(1) [OF plain_id_agent] plain_id_facts(1) [OF plain_id_agent]]
      sep_inj [OF ch [OF channel(1)] ch [OF channel(2)]]
      sep_inj [OF plain_id_facts(1) [OF plain_id_account] plain_id_facts(1) [OF plain_id_account]]
    by (simp add: key_rest_def direct_key_rest_def Let_def same)
qed

definition sample_peer :: peer_params where
  "sample_peer = \<lparr>pp_agentId = ''Main'', pp_mainKey = None, pp_channel = ''telegram'', pp_accountId = None, pp_peerKind = None,
     pp_peerId = Some ''User:7'', pp_identityLinks = Some [(''alice'', Some [''telegram:user:7''])],
     pp_dmScope = Some PerAccountChannelPeer\<rparr>"

theorem peer_key_names_its_agent_witness:
  "resolveAgentIdFromSessionKey (Some (fst (buildAgentPeerSessionKey sample_peer (caches_after [])))) = normalizeAgentId (Some ''Main'')"
proof -
  have "length (pp_agentId sample_peer) \<le> 64" "\<not> set (normalizeMainKey (pp_mainKey sample_peer)) \<subseteq> {colon}"
    by (simp_all add: sample_peer_def normalizeMainKey_def DEFAULT_MAIN_KEY_def)
  from peer_key_names_its_agent [OF this, of "[]"] show ?thesis by (simp add: sample_peer_def)
qed

theorem direct_sessions_isolated_witness:
  "fst (buildAgentPeerSessionKey sample_peer (caches_after [])) = ''agent:main:telegram:default:direct:alice'' \<and>
   fst (buildAgentPeerSessionKey (sample_peer\<lparr>pp_peerId := Some ''bob''\<rparr>) (caches_after [])) \<noteq> fst (buildAgentPeerSessionKey sample_peer (caches_after []))"
proof -
  let ?q = "sample_peer\<lparr>pp_peerId := Some ''bob''\<rparr>"
  have kind: "nullish (pp_peerKind sample_peer) Direct = Direct" "nullish (pp_peerKind ?q) Direct = Direct"
    and scope: "pp_dmScope sample_peer = Some PerAccountChannelPeer" "pp_dmScope ?q = Some PerAccountChannelPeer"
    and channel: "colon \<notin> set (pp_channel sample_peer)" "colon \<notin> set (pp_channel ?q)"
    by (simp_all add: sample_peer_def)
  have p: "effective_peer sample_peer = ''alice''" and q: "effective_peer ?q = ''bob''" by code_simp+
  have "fst (buildAgentPeerSessionKey sample_peer (caches_after [])) = ''agent:main:telegram:default:direct:alice''" by code_simp
  with direct_sessions_isolated [OF kind scope _ _ channel, of "[]" "[]"] show ?thesis by (auto simp: p q)
qed

text \<open>
  Two users in one session: an unlinked peer whose id is the name of a linked identity, and ids that
  differ only in letter case, on a channel where ids are case-sensitive.
\<close>

lemma direct_sessions_shared:
  "fst (buildAgentPeerSessionKey (sample_peer\<lparr>pp_peerId := Some ''alice''\<rparr>) (caches_after [])) =
   fst (buildAgentPeerSessionKey sample_peer (caches_after []))"
  "fst (buildAgentPeerSessionKey (sample_peer\<lparr>pp_peerId := Some ''BOB''\<rparr>) (caches_after [])) =
   fst (buildAgentPeerSessionKey (sample_peer\<lparr>pp_peerId := Some ''bob''\<rparr>) (caches_after []))"
  by code_simp+

text \<open>
  The chat type of a key is read off its segments, so a direct key whose peer is called "group"
  is taken for a group.
\<close>

lemma direct_key_taken_for_group:
  "fst (buildAgentPeerSessionKey (sample_peer\<lparr>pp_peerId := Some ''group''\<rparr>) (caches_after [])) = ''agent:main:telegram:default:direct:group''"
  "deriveSessionChatType (Some ''agent:main:telegram:default:direct:group'') = Some Group"
  "deriveSessionChatType (Some ''agent:main:telegram:default:direct:alice'') = Some Direct"
  by code_simp+

lemma overlong_agent_id_moves:
  "normalizeAgentId (Some (''_'' @ replicate 62 CHR ''x'' @ ''-y'')) \<noteq>
   normalizeAgentId (Some (normalizeAgentId (Some (''_'' @ replicate 62 CHR ''x'' @ ''-y''))))"
  by code_simp

section \<open>Threads\<close>

lemma last_index_append: "last_index_of p y = Some i \<Longrightarrow> last_index_of p (x @ y) = Some (length x + i)"
  by (induction x) auto

lemma last_index_before: "last_index_of p y = None \<Longrightarrow> last_index_of p (x @ y) = Some j \<Longrightarrow> j < length x"
  by (induction x arbitrary: j) (auto split: option.splits if_splits)

lemma starts_with_no_colon: "colon \<notin> set t \<Longrightarrow> colon \<in> set p \<Longrightarrow> \<not> starts_with t p"
  using set_mono_prefix by (auto simp: starts_with_def)

lemma last_index_no_colon: "colon \<notin> set t \<Longrightarrow> colon \<in> set p \<Longrightarrow> last_index_of p t = None"
proof (induction t)
  case (Cons c t)
  then show ?case using starts_with_no_colon [of "c # t" p] by simp
qed simp

lemma thread_suffix_index:
  assumes "colon \<notin> set t"
  shows "last_index_of '':thread:'' ('':thread:'' @ t) = Some 0" "last_index_of '':topic:'' ('':thread:'' @ t) = None"
  using starts_with_no_colon [OF assms, of "''thread:''"] starts_with_no_colon [OF assms, of "''topic:''"]
    last_index_no_colon [OF assms, of "'':thread:''"] last_index_no_colon [OF assms, of "'':topic:''"] by simp_all

text \<open>
  A thread session leads back to its parent. For a trimmed, non-empty base key and a thread id
  without colons, the parent that \<open>resolveThreadParentSessionKey\<close> reads from the key made by
  \<open>resolveThreadSessionKeys\<close> is the base key itself, in its own letter case, even when the base key is
  the key of a thread or of a topic. Without a thread id the key is the base key.
\<close>

theorem thread_key_leads_back:
  assumes "trimmed base" "base \<noteq> []" "colon \<notin> set (nullish threadId [])"
  shows "(if trim (nullish threadId []) = []
     then tk_sessionKey (resolveThreadSessionKeys base threadId parent None None) = base
     else resolveThreadParentSessionKey (Some (tk_sessionKey (resolveThreadSessionKeys base threadId parent None None))) = Some base)"
proof (cases "trim (nullish threadId []) = []")
  case False
  let ?t = "to_lower (trim (nullish threadId []))" and ?m = "'':thread:''"
  let ?k = "base @ ?m @ ?t"
  have t: "colon \<notin> set ?t"
    using assms(3) set_trim [of "nullish threadId []"] lower_colon [of "trim (nullish threadId [])"] by blast
  have key: "tk_sessionKey (resolveThreadSessionKeys base threadId parent None None) = ?k"
    using False by (simp add: resolveThreadSessionKeys_def Let_def)
  have "\<not> js_ws (last ?t)" using False by (simp add: trimmed_last)
  then have trim: "trim ?k = ?k" using assms False by (intro trim_id) (simp add: trimmed_def)
  have "to_lower ?m = ?m" by (simp add: to_lower_def lower_char_def)
  then have low: "to_lower ?k = to_lower base @ ?m @ ?t" by (simp only: to_lower_append to_lower_idem)
  have thread: "last_index_of ?m (to_lower ?k) = Some (length base)"
    unfolding low using last_index_append [OF thread_suffix_index(1) [OF t], of "to_lower base"] by simp
  have topic: "last_index_of '':topic:'' (to_lower ?k) = Some j \<Longrightarrow> j < length base" for j
    unfolding low using last_index_before [OF thread_suffix_index(2) [OF t], of "to_lower base" j] by simp
  have "fold (\<lambda>marker. later_index (last_index_of marker (to_lower ?k))) THREAD_SESSION_MARKERS None = Some (length base)"
    using thread topic by (cases "last_index_of '':topic:'' (to_lower ?k)")
      (auto simp: THREAD_SESSION_MARKERS_def later_index_def simp del: last_index_of.simps append_Cons)
  then have "resolveThreadParentSessionKey (Some ?k) = str_opt (trim base)"
    using assms(2) trim by (simp add: resolveThreadParentSessionKey_def Let_def)
  then show ?thesis using False key assms by (simp add: trim_id)
qed (simp add: resolveThreadSessionKeys_def Let_def)

theorem thread_key_leads_back_witness:
  "resolveThreadParentSessionKey (Some (tk_sessionKey (resolveThreadSessionKeys ''agent:main:slack:channel:C1'' (Some ''T42'') None None None))) =
     Some ''agent:main:slack:channel:C1''"
proof -
  have "trimmed ''agent:main:slack:channel:C1''" "''agent:main:slack:channel:C1'' \<noteq> []" "colon \<notin> set (nullish (Some ''T42'') [])"
    "trim ''T42'' \<noteq> []"
    by (simp_all add: trimmed_def str_eval)
  with thread_key_leads_back [OF this(1,2,3), of None] show ?thesis by simp
qed

end
