(* ===== verification/ChannelIds.thy ===== *)
theory ChannelIds
  imports JsPrelude
begin

text \<open>
  Names of chat channels: the ids and aliases of src/channels/registry.ts, the family aliases of
  src/utils/message-channel.ts and the route of a reply of
  src/auto-reply/reply/reply-routing-helpers.ts. The registry of plugins, which is filled when the
  program runs, is a parameter: the list of its channels, or None when none is active.
\<close>

definition CHAT_CHANNEL_ORDER :: "string list" where
  "CHAT_CHANNEL_ORDER = [''telegram'', ''whatsapp'', ''discord'', ''irc'', ''googlechat'', ''slack'', ''signal'', ''imessage'']"

definition CHAT_CHANNEL_ALIASES :: "(string, string) js_map" where
  "CHAT_CHANNEL_ALIASES = [(''imsg'', ''imessage''), (''internet-relay-chat'', ''irc''), (''google-chat'', ''googlechat''),
     (''gchat'', ''googlechat'')]"

definition normalizeChannelKey :: "string option \<Rightarrow> string option" where
  "normalizeChannelKey raw = str_opt (nullish (map_option (\<lambda>r. to_lower (trim r)) raw) [])"

definition normalizeChatChannelId :: "string option \<Rightarrow> string option" where
  "normalizeChatChannelId raw = (case normalizeChannelKey raw of None \<Rightarrow> None
     | Some normalized \<Rightarrow> let resolved = nullish (map_get CHAT_CHANNEL_ALIASES normalized) normalized in
         if resolved \<in> set CHAT_CHANNEL_ORDER then Some resolved else None)"

record plugin_channel =
  pc_id :: string
  pc_aliases :: "string list"

type_synonym plugin_registry = "plugin_channel list option"

text \<open>\<open>requireActivePluginRegistry\<close> makes an empty registry when there is none.\<close>

definition normalizeAnyChannelId :: "plugin_registry \<Rightarrow> string option \<Rightarrow> string option" where
  "normalizeAnyChannelId registry raw = (case normalizeChannelKey raw of None \<Rightarrow> None
     | Some key \<Rightarrow> map_option pc_id (List.find (\<lambda>entry. let n = to_lower (trim (pc_id entry)) in
         (n \<noteq> [] \<and> n = key) \<or> list_ex (\<lambda>alias. to_lower (trim alias) = key) (pc_aliases entry)) (nullish registry [])))"

definition INTERNAL_MESSAGE_CHANNEL :: string where "INTERNAL_MESSAGE_CHANNEL = ''webchat''"

definition normalizeFamilyAliasPluginId :: "plugin_registry \<Rightarrow> string \<Rightarrow> string option" where
  "normalizeFamilyAliasPluginId registry0 alias = (case registry0 of None \<Rightarrow> None
     | Some channels \<Rightarrow> map_option pc_id (List.find (\<lambda>entry. to_lower (pc_id entry) = alias \<or>
         list_ex (\<lambda>item. to_lower (trim item) = alias) (pc_aliases entry)) channels))"

definition normalizeMessageChannelFamilyAlias :: "plugin_registry \<Rightarrow> string option \<Rightarrow> string option" where
  "normalizeMessageChannelFamilyAlias registry raw = (let normalized = nullish (map_option (\<lambda>r. to_lower (trim r)) raw) [] in
     if normalized = [] then None
     else let baseAlias = hd (split_on CHR '':'' normalized) in
       if baseAlias = [] then None
       else if baseAlias = INTERNAL_MESSAGE_CHANNEL then Some INTERNAL_MESSAGE_CHANNEL
       else Some (nullish (normalizeChatChannelId (Some baseAlias)) (nullish (normalizeFamilyAliasPluginId registry baseAlias) baseAlias)))"

definition normalizeMessageChannel :: "plugin_registry \<Rightarrow> string option \<Rightarrow> string option" where
  "normalizeMessageChannel registry raw = (let normalized = nullish (normalizeMessageChannelFamilyAlias registry raw) [] in
     if normalized = [] then None
     else if normalized = INTERNAL_MESSAGE_CHANNEL then Some INTERNAL_MESSAGE_CHANNEL
     else case normalizeChatChannelId (Some normalized) of Some builtIn \<Rightarrow> Some builtIn
     | None \<Rightarrow> Some (nullish (Option.bind registry (\<lambda>channels. map_option pc_id (List.find (\<lambda>entry. to_lower (pc_id entry) = normalized \<or>
         list_ex (\<lambda>alias. to_lower (trim alias) = normalized) (pc_aliases entry)) channels))) normalized))"

definition resolveMessageChannel :: "plugin_registry \<Rightarrow> string option \<Rightarrow> string option \<Rightarrow> string option" where
  "resolveMessageChannel registry primary fallback = nullish_opt (normalizeMessageChannel registry primary) (normalizeMessageChannel registry fallback)"

definition isInternalMessageChannel :: "plugin_registry \<Rightarrow> string option \<Rightarrow> bool" where
  "isInternalMessageChannel registry raw = (normalizeMessageChannel registry raw = Some INTERNAL_MESSAGE_CHANNEL)"

definition normalizeReplyRouteProviderAlias :: "plugin_registry \<Rightarrow> string option \<Rightarrow> string option" where
  "normalizeReplyRouteProviderAlias registry rawChannel = (let normalized = normalizeMessageChannelFamilyAlias registry rawChannel in
     if normalized = Some INTERNAL_MESSAGE_CHANNEL then None else normalized)"

definition safeResolveAnyReplyRouteChannel :: "plugin_registry \<Rightarrow> string option \<Rightarrow> string option" where
  "safeResolveAnyReplyRouteChannel registry routeChannel =
     (if nullish routeChannel [] = [] then None else normalizeAnyChannelId registry routeChannel)"

definition resolveReplyRouteChannel :: "plugin_registry \<Rightarrow> string option \<Rightarrow> string option" where
  "resolveReplyRouteChannel registry rawChannel = (let normalizedChannel = nullish (normalizeReplyRouteProviderAlias registry rawChannel) [] in
     if normalizedChannel = [] \<or> normalizedChannel = INTERNAL_MESSAGE_CHANNEL then None
     else if normalizedChannel \<in> set CHAT_CHANNEL_ORDER then Some normalizedChannel
     else safeResolveAnyReplyRouteChannel registry (Some normalizedChannel))"

end
