(* ===== verification/AgentRouting.thy ===== *)
theory AgentRouting
  imports SessionKeys ChannelIds
begin

text \<open>
  From a message to the agent and the session that handle it: src/routing/resolve-route.ts, with
  src/routing/bindings.ts, src/routing/account-lookup.ts and the default agent of
  src/agents/agent-scope.ts. A configuration is
  an object with an identity, and so are its parts (a number beside the value): the caches of the
  code are keyed by these identities. The debug log is not modelled.
\<close>

section \<open>The configuration\<close>

text \<open>An id of unknown type: a string, a number with its decimal text, or anything else.\<close>

datatype id_value = IdString string | IdNumber string | IdOther

fun normalizeId :: "id_value \<Rightarrow> string" where
  "normalizeId (IdString s) = trim s"
| "normalizeId (IdNumber s) = trim s"
| "normalizeId IdOther = []"

record binding_match =
  bm_channel :: "string option"
  bm_accountId :: "string option"
  bm_peer :: "(string option \<times> id_value) option"
  bm_guildId :: id_value
  bm_teamId :: id_value
  bm_roles :: "string list option"

record agent_binding =
  ab_agentId :: string
  ab_match :: "binding_match option"

record agent_entry =
  ae_id :: "string option"
  ae_default :: bool

record session_config =
  sc_dmScope :: "dm_scope option"
  sc_identityLinks :: "identity_links option"

text \<open>
  \<open>rc_agents\<close> is the object \<open>cfg.agents\<close> with its \<open>list\<close> (None when it is not an array), \<open>rc_bindings\<close>
  the value of \<open>cfg.bindings\<close>, whose elements may be null; each with its identity.
\<close>

record route_config =
  rc_id :: nat
  rc_agents :: "(nat \<times> agent_entry list option) option"
  rc_bindings :: "(nat \<times> agent_binding option list option) option"
  rc_session :: "(nat \<times> session_config) option"

abbreviation ref_of :: "(nat \<times> 'a) option \<Rightarrow> nat option" where
  "ref_of x \<equiv> map_option fst x"

definition listBindings :: "route_config \<Rightarrow> agent_binding option list" where
  "listBindings cfg = (case rc_bindings cfg of Some (_, Some bs) \<Rightarrow> bs | _ \<Rightarrow> [])"

definition listAgents :: "route_config \<Rightarrow> agent_entry list" where
  "listAgents cfg = (case rc_agents cfg of Some (_, Some agents) \<Rightarrow> agents | _ \<Rightarrow> [])"

text \<open>Agents: the entries of the list are objects, so \<open>listAgentEntries\<close> keeps them all.\<close>

definition listAgentEntries :: "route_config \<Rightarrow> agent_entry list" where
  "listAgentEntries cfg = listAgents cfg"

definition listAgentIds :: "route_config \<Rightarrow> string list" where
  "listAgentIds cfg = (let agents = listAgentEntries cfg in
     if length agents = 0 then [DEFAULT_AGENT_ID]
     else let ids = js_set_of (map (\<lambda>e. normalizeAgentId (ae_id e)) agents) in
       if length ids > 0 then ids else [DEFAULT_AGENT_ID])"

definition resolveDefaultAgentId :: "route_config \<Rightarrow> string" where
  "resolveDefaultAgentId cfg = (let agents = listAgentEntries cfg in
     if length agents = 0 then DEFAULT_AGENT_ID
     else let defaults = filter ae_default agents;
              entry = (case defaults of d # _ \<Rightarrow> d | [] \<Rightarrow> agents ! 0);
              chosen = nullish (map_option trim (ae_id entry)) [] in
       normalizeAgentId (Some (str_or chosen DEFAULT_AGENT_ID)))"

text \<open>\<open>resolveSessionAgentIds\<close>: the default agent and the agent of a session.\<close>

definition resolveSessionAgentIds :: "route_config option \<Rightarrow> string option \<Rightarrow> string option \<Rightarrow> string \<times> string" where
  "resolveSessionAgentIds config sessionKey0 agentId =
     (let defaultAgentId = resolveDefaultAgentId (nullish config \<lparr>rc_id = 0, rc_agents = None, rc_bindings = None, rc_session = None\<rparr>);
          explicitAgentIdRaw = nullish (map_option (\<lambda>a. to_lower (trim a)) agentId) [];
          explicitAgentId = (if explicitAgentIdRaw \<noteq> [] then Some (normalizeAgentId (Some explicitAgentIdRaw)) else None);
          sessionKey = nullish (map_option trim sessionKey0) [];
          normalizedSessionKey = (if sessionKey \<noteq> [] then Some (to_lower sessionKey) else None);
          parsed = Option.bind normalizedSessionKey (\<lambda>k. parseAgentSessionKey (Some k));
          parsedId = nullish (map_option pk_agentId parsed) [] in
      (defaultAgentId, nullish explicitAgentId
         (if parsedId \<noteq> [] then normalizeAgentId (Some parsedId) else defaultAgentId)))"

section \<open>Bindings of accounts\<close>

definition normalizeBindingChannelId :: "string option \<Rightarrow> string option" where
  "normalizeBindingChannelId raw = (case normalizeChatChannelId raw of Some normalized \<Rightarrow> Some normalized
     | None \<Rightarrow> str_opt (to_lower (trim (nullish raw []))))"

record resolved_binding =
  rb_agentId :: string
  rb_accountId :: string
  rb_channelId :: string

definition resolveNormalizedBindingMatch ::
  "agent_binding option \<Rightarrow> account_caches \<Rightarrow> resolved_binding option \<times> account_caches" where
  "resolveNormalizedBindingMatch binding cs = (case binding of None \<Rightarrow> (None, cs)
     | Some b \<Rightarrow> (case ab_match b of None \<Rightarrow> (None, cs)
       | Some match \<Rightarrow> (case normalizeBindingChannelId (bm_channel match) of None \<Rightarrow> (None, cs)
         | Some channelId \<Rightarrow> let accountId = nullish (map_option trim (bm_accountId match)) [] in
             if accountId = [] \<or> accountId = ''*'' then (None, cs)
             else let (account, cs1) = normalizeAccountId (Some accountId) cs in
               (Some \<lparr>rb_agentId = normalizeAgentId (Some (ab_agentId b)), rb_accountId = account, rb_channelId = channelId\<rparr>, cs1))))"

fun resolve_bindings :: "agent_binding option list \<Rightarrow> account_caches \<Rightarrow> resolved_binding list \<times> account_caches" where
  "resolve_bindings [] cs = ([], cs)"
| "resolve_bindings (b # bs) cs = (let (r, cs1) = resolveNormalizedBindingMatch b cs; (rs, cs2) = resolve_bindings bs cs1 in
     (case r of None \<Rightarrow> rs | Some x \<Rightarrow> x # rs, cs2))"

text \<open>\<open>localeCompare\<close> is the parameter locale_sort.\<close>

definition listBoundAccountIds ::
  "(string list \<Rightarrow> string list) \<Rightarrow> route_config \<Rightarrow> string \<Rightarrow> account_caches \<Rightarrow> string list \<times> account_caches" where
  "listBoundAccountIds locale_sort cfg channelId cs = (case normalizeBindingChannelId (Some channelId) of None \<Rightarrow> ([], cs)
     | Some normalizedChannel \<Rightarrow> let (rs, cs1) = resolve_bindings (listBindings cfg) cs in
         (locale_sort (js_set_of (map rb_accountId (filter (\<lambda>r. rb_channelId r = normalizedChannel) rs))), cs1))"

text \<open>The loop stops at the first hit, so later bindings do not reach the caches.\<close>

fun default_bound_account ::
  "string \<Rightarrow> string \<Rightarrow> agent_binding option list \<Rightarrow> account_caches \<Rightarrow> string option \<times> account_caches" where
  "default_bound_account channel agentId [] cs = (None, cs)"
| "default_bound_account channel agentId (b # bs) cs = (let (r, cs1) = resolveNormalizedBindingMatch b cs in
     case r of None \<Rightarrow> default_bound_account channel agentId bs cs1
     | Some x \<Rightarrow> if rb_channelId x \<noteq> channel \<or> rb_agentId x \<noteq> agentId then default_bound_account channel agentId bs cs1
         else (Some (rb_accountId x), cs1))"

definition resolveDefaultAgentBoundAccountId :: "route_config \<Rightarrow> string \<Rightarrow> account_caches \<Rightarrow> string option \<times> account_caches" where
  "resolveDefaultAgentBoundAccountId cfg channelId cs = (case normalizeBindingChannelId (Some channelId) of None \<Rightarrow> (None, cs)
     | Some normalizedChannel \<Rightarrow>
         default_bound_account normalizedChannel (normalizeAgentId (Some (resolveDefaultAgentId cfg))) (listBindings cfg) cs)"

definition bind_account ::
  "resolved_binding \<Rightarrow> (string, (string, string list) js_map) js_map \<Rightarrow> (string, (string, string list) js_map) js_map" where
  "bind_account r m = (let byAgent = nullish (map_get m (rb_channelId r)) [];
       accounts = nullish (map_get byAgent (rb_agentId r)) [];
       accounts' = (if rb_accountId r \<in> set accounts then accounts else accounts @ [rb_accountId r]) in
     map_set (rb_channelId r) (map_set (rb_agentId r) accounts' byAgent) m)"

definition buildChannelAccountBindings ::
  "route_config \<Rightarrow> account_caches \<Rightarrow> (string, (string, string list) js_map) js_map \<times> account_caches" where
  "buildChannelAccountBindings cfg cs = (let (rs, cs1) = resolve_bindings (listBindings cfg) cs in (fold bind_account rs [], cs1))"

definition resolvePreferredAccountId :: "string \<Rightarrow> string list \<Rightarrow> string" where
  "resolvePreferredAccountId defaultAccountId boundAccounts =
     (case boundAccounts of a # _ \<Rightarrow> a | [] \<Rightarrow> defaultAccountId)"

definition resolveAccountEntry :: "(string, 'v) js_map option \<Rightarrow> string \<Rightarrow> 'v option" where
  "resolveAccountEntry accounts0 accountId = (case accounts0 of None \<Rightarrow> None
     | Some accounts \<Rightarrow> (case map_get accounts accountId of Some v \<Rightarrow> Some v
       | None \<Rightarrow> (case List.find (\<lambda>key. to_lower key = to_lower accountId) (map_keys accounts) of
           None \<Rightarrow> None | Some matchKey \<Rightarrow> if matchKey = [] then None else map_get accounts matchKey)))"

section \<open>Bindings and their index\<close>

definition matchesAccountId :: "string option \<Rightarrow> string \<Rightarrow> account_caches \<Rightarrow> bool \<times> account_caches" where
  "matchesAccountId match actual cs = (let trimmed = trim (nullish match []) in
     if trimmed = [] then (actual = DEFAULT_ACCOUNT_ID, cs)
     else if trimmed = ''*'' then (True, cs)
     else let (account, cs1) = normalizeAccountId (Some trimmed) cs in (account = actual, cs1))"

definition matchesChannel :: "binding_match option \<Rightarrow> string \<Rightarrow> bool" where
  "matchesChannel match channel = (let key = normalizeToken (Option.bind match bm_channel) in
     if key = [] then False else key = channel)"

datatype peer_constraint = NoPeer | InvalidPeer | ValidPeer chat_type string

record normalized_match =
  nm_accountPattern :: string
  nm_peer :: peer_constraint
  nm_guildId :: "string option"
  nm_teamId :: "string option"
  nm_roles :: "string list option"

text \<open>An evaluated binding is an object of its own: \<open>eb_ref\<close> is its identity, the index of the binding.\<close>

record evaluated_binding =
  eb_ref :: nat
  eb_binding :: agent_binding
  eb_match :: normalized_match

definition normalizePeerConstraint :: "(string option \<times> id_value) option \<Rightarrow> peer_constraint" where
  "normalizePeerConstraint peer = (case peer of None \<Rightarrow> NoPeer
     | Some (kind0, id0) \<Rightarrow> let peerId = normalizeId id0 in
         case normalizeChatType kind0 of None \<Rightarrow> InvalidPeer
         | Some kind \<Rightarrow> if peerId = [] then InvalidPeer else ValidPeer kind peerId)"

definition normalizeBindingMatch :: "binding_match option \<Rightarrow> normalized_match" where
  "normalizeBindingMatch match = (let rawRoles = Option.bind match bm_roles in
     \<lparr>nm_accountPattern = trim (nullish (Option.bind match bm_accountId) []),
      nm_peer = normalizePeerConstraint (Option.bind match bm_peer),
      nm_guildId = str_opt (nullish (map_option (\<lambda>m. normalizeId (bm_guildId m)) match) []),
      nm_teamId = str_opt (nullish (map_option (\<lambda>m. normalizeId (bm_teamId m)) match) []),
      nm_roles = (case rawRoles of Some roles \<Rightarrow> if length roles > 0 then Some roles else None | None \<Rightarrow> None)\<rparr>)"

text \<open>The \<open>flatMap\<close> over the bindings, with the account caches it reads and writes.\<close>

fun evaluate_bindings ::
  "nat \<Rightarrow> agent_binding option list \<Rightarrow> string \<Rightarrow> string \<Rightarrow> account_caches \<Rightarrow> evaluated_binding list \<times> account_caches" where
  "evaluate_bindings i [] channel accountId cs = ([], cs)"
| "evaluate_bindings i (None # bs) channel accountId cs = evaluate_bindings (Suc i) bs channel accountId cs"
| "evaluate_bindings i (Some b # bs) channel accountId cs =
     (if \<not> matchesChannel (ab_match b) channel then evaluate_bindings (Suc i) bs channel accountId cs
      else let (ok, cs1) = matchesAccountId (Option.bind (ab_match b) bm_accountId) accountId cs;
               (rest, cs2) = evaluate_bindings (Suc i) bs channel accountId cs1 in
        (if \<not> ok then rest
         else \<lparr>eb_ref = i, eb_binding = b, eb_match = normalizeBindingMatch (ab_match b)\<rparr> # rest, cs2))"

record route_peer =
  rp_kind :: chat_type
  rp_id :: string

record bindings_index =
  ix_byPeer :: "(string, evaluated_binding list) js_map"
  ix_byGuildWithRoles :: "(string, evaluated_binding list) js_map"
  ix_byGuild :: "(string, evaluated_binding list) js_map"
  ix_byTeam :: "(string, evaluated_binding list) js_map"
  ix_byAccount :: "evaluated_binding list"
  ix_byChannel :: "evaluated_binding list"

definition pushToIndexMap ::
  "string option \<Rightarrow> evaluated_binding \<Rightarrow> (string, evaluated_binding list) js_map \<Rightarrow> (string, evaluated_binding list) js_map" where
  "pushToIndexMap key binding m = (case key of None \<Rightarrow> m
     | Some k \<Rightarrow> if k = [] then m
         else case map_get m k of Some existing \<Rightarrow> map_set k (existing @ [binding]) m
         | None \<Rightarrow> map_set k [binding] m)"

definition peerLookupKeys :: "chat_type \<Rightarrow> string \<Rightarrow> string list" where
  "peerLookupKeys kind peerId = (if kind = Group then [''group:'' @ peerId, ''channel:'' @ peerId]
     else if kind = Channel then [''channel:'' @ peerId, ''group:'' @ peerId]
     else [chat_type_name kind @ '':'' @ peerId])"

definition add_unseen :: "evaluated_binding \<Rightarrow> evaluated_binding list \<Rightarrow> evaluated_binding list" where
  "add_unseen b out = (if eb_ref b \<in> set (map eb_ref out) then out else out @ [b])"

definition collectPeerIndexedBindings :: "bindings_index \<Rightarrow> route_peer option \<Rightarrow> evaluated_binding list" where
  "collectPeerIndexedBindings index peer = (case peer of None \<Rightarrow> []
     | Some p \<Rightarrow> fold (\<lambda>key out. case map_get (ix_byPeer index) key of None \<Rightarrow> out
         | Some ms \<Rightarrow> fold add_unseen ms out) (peerLookupKeys (rp_kind p) (rp_id p)) [])"

definition index_binding :: "evaluated_binding \<Rightarrow> bindings_index \<Rightarrow> bindings_index" where
  "index_binding b ix = (let m = eb_match b in
     case nm_peer m of
       ValidPeer kind peerId \<Rightarrow>
         ix\<lparr>ix_byPeer := fold (\<lambda>key. pushToIndexMap (Some key) b) (peerLookupKeys kind peerId) (ix_byPeer ix)\<rparr>
     | _ \<Rightarrow>
       if nm_guildId m \<noteq> None \<and> nm_roles m \<noteq> None
       then ix\<lparr>ix_byGuildWithRoles := pushToIndexMap (nm_guildId m) b (ix_byGuildWithRoles ix)\<rparr>
       else if nm_guildId m \<noteq> None \<and> nm_roles m = None
       then ix\<lparr>ix_byGuild := pushToIndexMap (nm_guildId m) b (ix_byGuild ix)\<rparr>
       else if nm_teamId m \<noteq> None then ix\<lparr>ix_byTeam := pushToIndexMap (nm_teamId m) b (ix_byTeam ix)\<rparr>
       else if nm_accountPattern m \<noteq> ''*'' then ix\<lparr>ix_byAccount := ix_byAccount ix @ [b]\<rparr>
       else ix\<lparr>ix_byChannel := ix_byChannel ix @ [b]\<rparr>)"

definition empty_index :: bindings_index where
  "empty_index = \<lparr>ix_byPeer = [], ix_byGuildWithRoles = [], ix_byGuild = [], ix_byTeam = [], ix_byAccount = [], ix_byChannel = []\<rparr>"

definition buildEvaluatedBindingsIndex :: "evaluated_binding list \<Rightarrow> bindings_index" where
  "buildEvaluatedBindingsIndex bindings = fold index_binding bindings empty_index"

section \<open>The tiers\<close>

datatype matched_by = ByPeer | ByPeerParent | ByGuildRoles | ByGuild | ByTeam | ByAccount | ByChannel | ByDefault

record binding_scope =
  bs_peer :: "route_peer option"
  bs_guildId :: string
  bs_teamId :: string
  bs_memberRoleIds :: "string list"

definition peerKindMatches :: "chat_type \<Rightarrow> chat_type \<Rightarrow> bool" where
  "peerKindMatches bindingKind scopeKind = (if bindingKind = scopeKind then True
     else let both = js_set_of [bindingKind, scopeKind] in Group \<in> set both \<and> Channel \<in> set both)"

definition matchesBindingScope :: "normalized_match \<Rightarrow> binding_scope \<Rightarrow> bool" where
  "matchesBindingScope m scope =
     (if nm_peer m = InvalidPeer then False
      else if (case nm_peer m of ValidPeer kind peerId \<Rightarrow>
                 (case bs_peer scope of None \<Rightarrow> True
                  | Some p \<Rightarrow> \<not> peerKindMatches kind (rp_kind p) \<or> rp_id p \<noteq> peerId) | _ \<Rightarrow> False) then False
      else if nm_guildId m \<noteq> None \<and> nm_guildId m \<noteq> Some (bs_guildId scope) then False
      else if nm_teamId m \<noteq> None \<and> nm_teamId m \<noteq> Some (bs_teamId scope) then False
      else case nm_roles m of Some roles \<Rightarrow> list_ex (\<lambda>role. role \<in> set (bs_memberRoleIds scope)) roles
        | None \<Rightarrow> True)"

text \<open>The normalised request: everything the choice of a route depends on besides the configuration.\<close>

record route_query =
  rq_channel :: string
  rq_accountId :: string
  rq_peer :: "route_peer option"
  rq_parentPeer :: "route_peer option"
  rq_guildId :: string
  rq_teamId :: string
  rq_memberRoleIds :: "string list"
  rq_dmScope :: dm_scope

record tier =
  ti_matchedBy :: matched_by
  ti_enabled :: bool
  ti_scopePeer :: "route_peer option"
  ti_candidates :: "evaluated_binding list"
  ti_predicate :: "normalized_match \<Rightarrow> bool"

definition valid_peer :: "normalized_match \<Rightarrow> bool" where
  "valid_peer m = (case nm_peer m of ValidPeer _ _ \<Rightarrow> True | _ \<Rightarrow> False)"

definition route_tiers :: "bindings_index \<Rightarrow> route_query \<Rightarrow> tier list" where
  "route_tiers ix q = (let peer = rq_peer q; parentPeer = rq_parentPeer q; guildId = rq_guildId q; teamId = rq_teamId q;
       parentScope = (case parentPeer of Some p \<Rightarrow> if rp_id p \<noteq> [] then Some p else None | None \<Rightarrow> None) in
     [\<lparr>ti_matchedBy = ByPeer, ti_enabled = (peer \<noteq> None), ti_scopePeer = peer,
       ti_candidates = collectPeerIndexedBindings ix peer, ti_predicate = valid_peer\<rparr>,
      \<lparr>ti_matchedBy = ByPeerParent, ti_enabled = (parentScope \<noteq> None), ti_scopePeer = parentScope,
       ti_candidates = collectPeerIndexedBindings ix parentPeer, ti_predicate = valid_peer\<rparr>,
      \<lparr>ti_matchedBy = ByGuildRoles, ti_enabled = (guildId \<noteq> [] \<and> length (rq_memberRoleIds q) > 0), ti_scopePeer = peer,
       ti_candidates = (if guildId \<noteq> [] then nullish (map_get (ix_byGuildWithRoles ix) guildId) [] else []),
       ti_predicate = (\<lambda>m. nm_guildId m \<noteq> None \<and> nm_roles m \<noteq> None)\<rparr>,
      \<lparr>ti_matchedBy = ByGuild, ti_enabled = (guildId \<noteq> []), ti_scopePeer = peer,
       ti_candidates = (if guildId \<noteq> [] then nullish (map_get (ix_byGuild ix) guildId) [] else []),
       ti_predicate = (\<lambda>m. nm_guildId m \<noteq> None \<and> nm_roles m = None)\<rparr>,
      \<lparr>ti_matchedBy = ByTeam, ti_enabled = (teamId \<noteq> []), ti_scopePeer = peer,
       ti_candidates = (if teamId \<noteq> [] then nullish (map_get (ix_byTeam ix) teamId) [] else []),
       ti_predicate = (\<lambda>m. nm_teamId m \<noteq> None)\<rparr>,
      \<lparr>ti_matchedBy = ByAccount, ti_enabled = True, ti_scopePeer = peer, ti_candidates = ix_byAccount ix,
       ti_predicate = (\<lambda>m. nm_accountPattern m \<noteq> ''*'')\<rparr>,
      \<lparr>ti_matchedBy = ByChannel, ti_enabled = True, ti_scopePeer = peer, ti_candidates = ix_byChannel ix,
       ti_predicate = (\<lambda>m. nm_accountPattern m = ''*'')\<rparr>])"

definition scope_for :: "route_query \<Rightarrow> route_peer option \<Rightarrow> binding_scope" where
  "scope_for q peer = \<lparr>bs_peer = peer, bs_guildId = rq_guildId q, bs_teamId = rq_teamId q,
     bs_memberRoleIds = js_set_of (rq_memberRoleIds q)\<rparr>"

fun first_match :: "route_query \<Rightarrow> tier list \<Rightarrow> (matched_by \<times> evaluated_binding) option" where
  "first_match q [] = None"
| "first_match q (t # ts) = (if \<not> ti_enabled t then first_match q ts
     else case List.find (\<lambda>c. ti_predicate t (eb_match c) \<and> matchesBindingScope (eb_match c) (scope_for q (ti_scopePeer t)))
            (ti_candidates t) of
       Some matched \<Rightarrow> Some (ti_matchedBy t, matched)
     | None \<Rightarrow> first_match q ts)"

definition choose_binding :: "bindings_index \<Rightarrow> route_query \<Rightarrow> (matched_by \<times> evaluated_binding) option" where
  "choose_binding ix q = first_match q (route_tiers ix q)"

section \<open>The index agrees with a search of the whole list\<close>

text \<open>The order of the tiers, the more specific first.\<close>

fun tier_rank :: "matched_by \<Rightarrow> nat" where
  "tier_rank ByPeer = 0"
| "tier_rank ByPeerParent = 1"
| "tier_rank ByGuildRoles = 2"
| "tier_rank ByGuild = 3"
| "tier_rank ByTeam = 4"
| "tier_rank ByAccount = 5"
| "tier_rank ByChannel = 6"
| "tier_rank ByDefault = 7"

lemma tier_rank_inject: "tier_rank t = tier_rank u \<Longrightarrow> t = u"
  by (cases t; cases u) simp_all

instantiation matched_by :: linorder
begin

definition less_eq_matched_by :: "matched_by \<Rightarrow> matched_by \<Rightarrow> bool" where
  "less_eq_matched_by t u \<longleftrightarrow> tier_rank t \<le> tier_rank u"

definition less_matched_by :: "matched_by \<Rightarrow> matched_by \<Rightarrow> bool" where
  "less_matched_by t u \<longleftrightarrow> tier_rank t < tier_rank u"

instance
  by standard (auto simp: less_eq_matched_by_def less_matched_by_def intro: tier_rank_inject)

end

text \<open>The kind of binding a match is, and when a binding applies to a request in a tier.\<close>

definition tier_class :: "normalized_match \<Rightarrow> matched_by" where
  "tier_class m = (if valid_peer m then ByPeer
     else if nm_guildId m \<noteq> None then (if nm_roles m \<noteq> None then ByGuildRoles else ByGuild)
     else if nm_teamId m \<noteq> None then ByTeam
     else if nm_accountPattern m \<noteq> ''*'' then ByAccount else ByChannel)"

definition eligible :: "matched_by \<Rightarrow> route_query \<Rightarrow> evaluated_binding \<Rightarrow> bool" where
  "eligible t q b = (let m = eb_match b in
     if t = ByPeerParent then tier_class m = ByPeer \<and> matchesBindingScope m (scope_for q (rq_parentPeer q))
     else tier_class m = t \<and> matchesBindingScope m (scope_for q (rq_peer q)))"

definition all_tiers :: "matched_by list" where
  "all_tiers = [ByPeer, ByPeerParent, ByGuildRoles, ByGuild, ByTeam, ByAccount, ByChannel]"

fun choose_reference :: "matched_by list \<Rightarrow> route_query \<Rightarrow> evaluated_binding list \<Rightarrow> (matched_by \<times> evaluated_binding) option" where
  "choose_reference [] q evs = None"
| "choose_reference (t # ts) q evs = (case List.find (eligible t q) evs of Some b \<Rightarrow> Some (t, b)
     | None \<Rightarrow> choose_reference ts q evs)"

abbreviation bucket :: "(string, 'v list) js_map \<Rightarrow> string \<Rightarrow> 'v list" where
  "bucket m k \<equiv> nullish (map_get m k) []"

definition wf_match :: "normalized_match \<Rightarrow> bool" where
  "wf_match m \<longleftrightarrow> nm_guildId m \<noteq> Some [] \<and> nm_teamId m \<noteq> Some [] \<and> (\<forall>k i. nm_peer m = ValidPeer k i \<longrightarrow> i \<noteq> [])"

definition wf_evaluated :: "evaluated_binding list \<Rightarrow> bool" where
  "wf_evaluated evs \<longleftrightarrow> distinct (map eb_ref evs) \<and> (\<forall>b \<in> set evs. wf_match (eb_match b))"

lemma bucket_push:
  "bucket (pushToIndexMap key b m) k = bucket m k @ (if key = Some k \<and> k \<noteq> [] then [b] else [])"
  by (auto simp: pushToIndexMap_def split: option.splits)

lemma peer_keys_distinct: "distinct (peerLookupKeys k i) \<and> [] \<notin> set (peerLookupKeys k i)"
  by (simp add: peerLookupKeys_def)

lemma bucket_push_keys:
  "distinct keys \<Longrightarrow> [] \<notin> set keys \<Longrightarrow>
    bucket (fold (\<lambda>key. pushToIndexMap (Some key) b) keys m) k = bucket m k @ (if k \<in> set keys then [b] else [])"
proof (induction keys arbitrary: m)
  case (Cons a keys)
  then show ?case by (auto simp: bucket_push)
qed simp

definition has_peer_key :: "string \<Rightarrow> evaluated_binding \<Rightarrow> bool" where
  "has_peer_key key b = (case nm_peer (eb_match b) of ValidPeer k i \<Rightarrow> key \<in> set (peerLookupKeys k i) | _ \<Rightarrow> False)"

definition in_bucket :: "matched_by \<Rightarrow> string option \<Rightarrow> string \<Rightarrow> evaluated_binding \<Rightarrow> bool" where
  "in_bucket t key k b \<longleftrightarrow> tier_class (eb_match b) = t \<and> key = Some k"

lemma index_step:
  fixes b ix
  defines "m \<equiv> eb_match b" and "ix' \<equiv> index_binding b ix"
  shows "bucket (ix_byPeer ix') k = bucket (ix_byPeer ix) k @ (if has_peer_key k b then [b] else [])"
    and "k \<noteq> [] \<Longrightarrow> bucket (ix_byGuildWithRoles ix') k =
      bucket (ix_byGuildWithRoles ix) k @ (if in_bucket ByGuildRoles (nm_guildId m) k b then [b] else [])"
    and "k \<noteq> [] \<Longrightarrow> bucket (ix_byGuild ix') k = bucket (ix_byGuild ix) k @ (if in_bucket ByGuild (nm_guildId m) k b then [b] else [])"
    and "k \<noteq> [] \<Longrightarrow> bucket (ix_byTeam ix') k = bucket (ix_byTeam ix) k @ (if in_bucket ByTeam (nm_teamId m) k b then [b] else [])"
    and "ix_byAccount ix' = ix_byAccount ix @ (if tier_class m = ByAccount then [b] else [])"
    and "ix_byChannel ix' = ix_byChannel ix @ (if tier_class m = ByChannel then [b] else [])"
  unfolding m_def ix'_def in_bucket_def has_peer_key_def index_binding_def tier_class_def valid_peer_def Let_def
  using peer_keys_distinct
  by (cases "nm_peer (eb_match b)"; simp add: bucket_push bucket_push_keys)+

lemma index_buckets:
  fixes evs
  defines "ix \<equiv> buildEvaluatedBindingsIndex evs"
  shows "bucket (ix_byPeer ix) k = filter (has_peer_key k) evs"
    and "k \<noteq> [] \<Longrightarrow> bucket (ix_byGuildWithRoles ix) k = filter (\<lambda>b. in_bucket ByGuildRoles (nm_guildId (eb_match b)) k b) evs"
    and "k \<noteq> [] \<Longrightarrow> bucket (ix_byGuild ix) k = filter (\<lambda>b. in_bucket ByGuild (nm_guildId (eb_match b)) k b) evs"
    and "k \<noteq> [] \<Longrightarrow> bucket (ix_byTeam ix) k = filter (\<lambda>b. in_bucket ByTeam (nm_teamId (eb_match b)) k b) evs"
    and "ix_byAccount ix = filter (\<lambda>b. tier_class (eb_match b) = ByAccount) evs"
    and "ix_byChannel ix = filter (\<lambda>b. tier_class (eb_match b) = ByChannel) evs"
  unfolding ix_def buildEvaluatedBindingsIndex_def
  by (induction evs rule: rev_induct; simp add: index_step; simp add: empty_index_def)+

lemma add_unseen_new: "distinct (map eb_ref (out @ ms)) \<Longrightarrow> fold add_unseen ms out = out @ ms"
proof (induction ms arbitrary: out)
  case (Cons b ms)
  then show ?case using Cons.IH [of "out @ [b]"] by (simp add: add_unseen_def)
qed simp

lemma add_unseen_old: "set ms \<subseteq> set out \<Longrightarrow> fold add_unseen ms out = out"
proof (induction ms)
  case (Cons b ms)
  then show ?case by (auto simp: add_unseen_def)
qed simp

lemma peer_keys_meet:
  "key \<in> set (peerLookupKeys k' i') \<Longrightarrow> key \<in> set (peerLookupKeys k i) \<longleftrightarrow> i = i' \<and> peerKindMatches k k'"
  by (cases k; cases k') (auto simp: peerLookupKeys_def peerKindMatches_def)

lemma collect_peers:
  assumes "wf_evaluated evs"
  shows "collectPeerIndexedBindings (buildEvaluatedBindingsIndex evs) peer =
    (case peer of None \<Rightarrow> [] | Some p \<Rightarrow> filter (\<lambda>b. case nm_peer (eb_match b) of
       ValidPeer k i \<Rightarrow> i = rp_id p \<and> peerKindMatches k (rp_kind p) | _ \<Rightarrow> False) evs)"
proof (cases peer)
  case (Some p)
  let ?ix = "buildEvaluatedBindingsIndex evs"
  have step: "(case map_get m key of None \<Rightarrow> out | Some ms \<Rightarrow> fold add_unseen ms out) = fold add_unseen (bucket m key) out" for m key out
    by (cases "map_get m key") auto
  have dist: "distinct (map eb_ref (filter P evs))" for P
    using assms by (simp add: wf_evaluated_def distinct_map_filter)
  let ?P = "\<lambda>b. case nm_peer (eb_match b) of ValidPeer k i \<Rightarrow> i = rp_id p \<and> peerKindMatches k (rp_kind p) | _ \<Rightarrow> False"
  have keys: "has_peer_key key = ?P" if "key \<in> set (peerLookupKeys (rp_kind p) (rp_id p))" for key
  proof
    fix b
    show "has_peer_key key b = ?P b"
    proof (cases "nm_peer (eb_match b)")
      case (ValidPeer k i)
      with peer_keys_meet [OF that, of k i] show ?thesis by (simp add: has_peer_key_def)
    qed (simp_all add: has_peer_key_def)
  qed
  have "fold (\<lambda>key. fold add_unseen (bucket (ix_byPeer ?ix) key)) ks [] = filter ?P evs"
    if "ks \<noteq> []" "set ks \<subseteq> set (peerLookupKeys (rp_kind p) (rp_id p))" for ks
    using that
  proof (induction ks rule: rev_induct)
    case (snoc key ks)
    then have b: "bucket (ix_byPeer ?ix) key = filter ?P evs" using keys [of key] by (simp add: index_buckets)
    show ?case
    proof (cases "ks = []")
      case True
      then show ?thesis using add_unseen_new [of "[]" "filter ?P evs"] dist by (simp add: b)
    next
      case False
      with snoc show ?thesis by (simp add: b add_unseen_old)
    qed
  qed simp
  moreover have "peerLookupKeys (rp_kind p) (rp_id p) \<noteq> []" by (simp add: peerLookupKeys_def)
  ultimately show ?thesis by (simp add: collectPeerIndexedBindings_def Some step)
qed (simp add: collectPeerIndexedBindings_def)

lemma find_filter: "List.find P (filter Q xs) = List.find (\<lambda>x. Q x \<and> P x) xs"
  by (induction xs) auto

lemma find_congr: "(\<And>x. x \<in> set xs \<Longrightarrow> P x = Q x) \<Longrightarrow> List.find P xs = List.find Q xs"
  by (induction xs) auto

lemma find_none: "(\<And>x. x \<in> set xs \<Longrightarrow> \<not> P x) \<Longrightarrow> List.find P xs = None"
  by (auto simp: find_None_iff)

text \<open>In each tier the search among the candidates of the index is the search of the whole list.\<close>

definition tier_search :: "route_query \<Rightarrow> tier \<Rightarrow> evaluated_binding option" where
  "tier_search q t = (if \<not> ti_enabled t then None
     else List.find (\<lambda>c. ti_predicate t (eb_match c) \<and> matchesBindingScope (eb_match c) (scope_for q (ti_scopePeer t))) (ti_candidates t))"

lemma first_match_search:
  "first_match q (t # ts) = (case tier_search q t of Some b \<Rightarrow> Some (ti_matchedBy t, b) | None \<Rightarrow> first_match q ts)"
  by (simp add: tier_search_def)

lemma tier_class_iff:
  "tier_class m = ByPeer \<longleftrightarrow> valid_peer m"
  "tier_class m = ByGuildRoles \<longleftrightarrow> \<not> valid_peer m \<and> nm_guildId m \<noteq> None \<and> nm_roles m \<noteq> None"
  "tier_class m = ByGuild \<longleftrightarrow> \<not> valid_peer m \<and> nm_guildId m \<noteq> None \<and> nm_roles m = None"
  "tier_class m = ByTeam \<longleftrightarrow> \<not> valid_peer m \<and> nm_guildId m = None \<and> nm_teamId m \<noteq> None"
  "tier_class m = ByAccount \<longleftrightarrow> \<not> valid_peer m \<and> nm_guildId m = None \<and> nm_teamId m = None \<and> nm_accountPattern m \<noteq> ''*''"
  "tier_class m = ByChannel \<longleftrightarrow> \<not> valid_peer m \<and> nm_guildId m = None \<and> nm_teamId m = None \<and> nm_accountPattern m = ''*''"
  by (auto simp: tier_class_def)

lemma eligible_iff:
  "eligible ByPeerParent q b \<longleftrightarrow> tier_class (eb_match b) = ByPeer \<and> matchesBindingScope (eb_match b) (scope_for q (rq_parentPeer q))"
  "t \<noteq> ByPeerParent \<Longrightarrow> eligible t q b \<longleftrightarrow> tier_class (eb_match b) = t \<and> matchesBindingScope (eb_match b) (scope_for q (rq_peer q))"
  by (simp_all add: eligible_def Let_def)

lemma valid_peer_iff: "valid_peer m \<longleftrightarrow> (\<exists>k i. nm_peer m = ValidPeer k i)"
  by (cases "nm_peer m") (simp_all add: valid_peer_def)

lemma scope_needs:
  assumes "matchesBindingScope m (scope_for q p)"
  shows "nm_guildId m = Some g \<Longrightarrow> g = rq_guildId q" "nm_teamId m = Some t \<Longrightarrow> t = rq_teamId q"
    "nm_roles m \<noteq> None \<Longrightarrow> rq_memberRoleIds q \<noteq> []"
    "nm_peer m = ValidPeer k i \<Longrightarrow> \<exists>pr. p = Some pr \<and> i = rp_id pr \<and> peerKindMatches k (rp_kind pr)"
  using assms by (auto simp: matchesBindingScope_def scope_for_def list_ex_iff split: if_splits option.splits)

lemma tier_searches:
  fixes evs q
  assumes wf: "wf_evaluated evs"
  defines "ts \<equiv> route_tiers (buildEvaluatedBindingsIndex evs) q"
  shows "tier_search q (ts ! 0) = List.find (eligible ByPeer q) evs"
    and "tier_search q (ts ! 1) = List.find (eligible ByPeerParent q) evs"
    and "tier_search q (ts ! 2) = List.find (eligible ByGuildRoles q) evs"
    and "tier_search q (ts ! 3) = List.find (eligible ByGuild q) evs"
    and "tier_search q (ts ! 4) = List.find (eligible ByTeam q) evs"
    and "tier_search q (ts ! 5) = List.find (eligible ByAccount q) evs"
    and "tier_search q (ts ! 6) = List.find (eligible ByChannel q) evs"
proof -
  note defs = ts_def route_tiers_def tier_search_def Let_def
  have wfm: "wf_match (eb_match b)" if "b \<in> set evs" for b using wf that by (simp add: wf_evaluated_def)
  have peer: "eligible t q b \<longleftrightarrow> (case nm_peer (eb_match b) of ValidPeer k i \<Rightarrow> i = rp_id p \<and> peerKindMatches k (rp_kind p) | _ \<Rightarrow> False) \<and>
      valid_peer (eb_match b) \<and> matchesBindingScope (eb_match b) (scope_for q (Some p))"
    if "(t = ByPeer \<and> rq_peer q = Some p) \<or> (t = ByPeerParent \<and> rq_parentPeer q = Some p)" for t p b
    using that scope_needs(4) [of "eb_match b" q "Some p"]
    by (auto simp: eligible_iff tier_class_iff valid_peer_iff)
  have no_peer: "\<not> eligible t q b" if "(t = ByPeer \<and> rq_peer q = None) \<or> (t = ByPeerParent \<and> rq_parentPeer q = None)" for t b
    using that scope_needs(4) [of "eb_match b" q None] by (auto simp: eligible_iff tier_class_iff valid_peer_iff)
  show "tier_search q (ts ! 0) = List.find (eligible ByPeer q) evs"
  proof (cases "rq_peer q")
    case (Some p)
    then show ?thesis using peer [of ByPeer p] by (auto simp: defs collect_peers [OF wf] find_filter intro!: find_congr)
  qed (use no_peer in \<open>simp add: defs find_none\<close>)
  show "tier_search q (ts ! 1) = List.find (eligible ByPeerParent q) evs"
  proof (cases "rq_parentPeer q")
    case (Some p)
    show ?thesis
    proof (cases "rp_id p = []")
      case True
      have "\<not> eligible ByPeerParent q b" if "b \<in> set evs" for b
        using peer [of ByPeerParent p b] Some True wfm [OF that] by (auto simp: wf_match_def split: peer_constraint.splits)
      with True Some show ?thesis by (simp add: defs find_none)
    next
      case False
      then show ?thesis using Some peer [of ByPeerParent p]
        by (auto simp: defs collect_peers [OF wf] find_filter intro!: find_congr)
    qed
  qed (use no_peer in \<open>simp add: defs find_none\<close>)
  have guild: "eligible t q b \<longleftrightarrow> rq_guildId q \<noteq> [] \<and> in_bucket t (nm_guildId (eb_match b)) (rq_guildId q) b \<and>
      matchesBindingScope (eb_match b) (scope_for q (rq_peer q))" if "b \<in> set evs" "t = ByGuild \<or> t = ByGuildRoles" for t b
    using that scope_needs(1) [of "eb_match b" q "rq_peer q"] wfm [OF that(1)]
    by (auto simp: eligible_iff tier_class_iff in_bucket_def wf_match_def)
  show "tier_search q (ts ! 2) = List.find (eligible ByGuildRoles q) evs"
  proof (cases "rq_guildId q \<noteq> [] \<and> rq_memberRoleIds q \<noteq> []")
    case True
    then show ?thesis using guild by (auto simp: defs index_buckets find_filter in_bucket_def tier_class_iff intro!: find_congr)
  next
    case False
    then show ?thesis using guild scope_needs(3) by (fastforce simp: defs in_bucket_def tier_class_iff intro!: find_none [symmetric])
  qed
  show "tier_search q (ts ! 3) = List.find (eligible ByGuild q) evs"
    using guild by (cases "rq_guildId q = []")
      (auto simp: defs index_buckets find_filter in_bucket_def tier_class_iff intro!: find_none [symmetric] find_congr)
  have team: "eligible ByTeam q b \<longleftrightarrow> rq_teamId q \<noteq> [] \<and> in_bucket ByTeam (nm_teamId (eb_match b)) (rq_teamId q) b \<and>
      matchesBindingScope (eb_match b) (scope_for q (rq_peer q))" if "b \<in> set evs" for b
    using that scope_needs(2) [of "eb_match b" q "rq_peer q"] wfm [OF that]
    by (auto simp: eligible_iff tier_class_iff in_bucket_def wf_match_def)
  show "tier_search q (ts ! 4) = List.find (eligible ByTeam q) evs"
    using team by (cases "rq_teamId q = []")
      (auto simp: defs index_buckets find_filter in_bucket_def tier_class_iff intro!: find_none [symmetric] find_congr)
  show "tier_search q (ts ! 5) = List.find (eligible ByAccount q) evs"
    "tier_search q (ts ! 6) = List.find (eligible ByChannel q) evs"
    by (auto simp: defs index_buckets find_filter eligible_iff tier_class_iff intro!: find_congr)
qed

lemma choose_binding_reference:
  assumes "wf_evaluated evs"
  shows "choose_binding (buildEvaluatedBindingsIndex evs) q = choose_reference all_tiers q evs"
proof -
  let ?ts = "route_tiers (buildEvaluatedBindingsIndex evs) q"
  have "?ts = [?ts ! 0, ?ts ! 1, ?ts ! 2, ?ts ! 3, ?ts ! 4, ?ts ! 5, ?ts ! 6]" by (simp add: route_tiers_def Let_def)
  then have "choose_binding (buildEvaluatedBindingsIndex evs) q =
      first_match q [?ts ! 0, ?ts ! 1, ?ts ! 2, ?ts ! 3, ?ts ! 4, ?ts ! 5, ?ts ! 6]"
    unfolding choose_binding_def by (rule arg_cong)
  moreover have "ti_matchedBy (?ts ! 0) = ByPeer" "ti_matchedBy (?ts ! 1) = ByPeerParent" "ti_matchedBy (?ts ! 2) = ByGuildRoles"
    "ti_matchedBy (?ts ! 3) = ByGuild" "ti_matchedBy (?ts ! 4) = ByTeam" "ti_matchedBy (?ts ! 5) = ByAccount"
    "ti_matchedBy (?ts ! 6) = ByChannel"
    by (simp_all add: route_tiers_def Let_def)
  ultimately show ?thesis
    using tier_searches [OF assms, of q] by (simp add: all_tiers_def first_match_search del: first_match.simps(2) cong: option.case_cong)
qed

section \<open>The router with its caches\<close>

definition MAX_EVALUATED_BINDINGS_CACHE_KEYS :: nat where "MAX_EVALUATED_BINDINGS_CACHE_KEYS = 2000"
definition MAX_RESOLVED_ROUTE_CACHE_KEYS :: nat where "MAX_RESOLVED_ROUTE_CACHE_KEYS = 4000"

record agent_lookup =
  al_ref :: "nat option"
  al_byNormalizedId :: "(string, string) js_map"
  al_fallback :: string

record bindings_cache =
  bc_ref :: "nat option"
  bc_byKey :: "(string, evaluated_binding list) js_map"
  bc_index :: "(string, bindings_index) js_map"

record agent_route =
  ro_agentId :: string
  ro_channel :: string
  ro_accountId :: string
  ro_sessionKey :: string
  ro_mainSessionKey :: string
  ro_matchedBy :: matched_by

record route_cache =
  rch_bindings :: "nat option"
  rch_agents :: "nat option"
  rch_session :: "nat option"
  rch_byKey :: "(string, agent_route) js_map"

text \<open>The three weak maps are keyed by the identity of the configuration.\<close>

record route_state =
  rs_accounts :: account_caches
  rs_agents :: "(nat, agent_lookup) js_map"
  rs_bindings :: "(nat, bindings_cache) js_map"
  rs_routes :: "(nat, route_cache) js_map"

definition add_agent :: "agent_entry \<Rightarrow> (string, string) js_map \<Rightarrow> (string, string) js_map" where
  "add_agent agent m = (let rawId = nullish (map_option trim (ae_id agent)) [] in
     if rawId = [] then m else map_set (normalizeAgentId (Some rawId)) (sanitizeAgentId (Some rawId)) m)"

definition fresh_agent_lookup :: "route_config \<Rightarrow> agent_lookup" where
  "fresh_agent_lookup cfg = \<lparr>al_ref = ref_of (rc_agents cfg), al_byNormalizedId = fold add_agent (listAgents cfg) [],
     al_fallback = sanitizeAgentId (Some (resolveDefaultAgentId cfg))\<rparr>"

definition resolveAgentLookupCache :: "route_config \<Rightarrow> route_state \<Rightarrow> agent_lookup \<times> route_state" where
  "resolveAgentLookupCache cfg st = (let next = fresh_agent_lookup cfg;
       computed = (next, st\<lparr>rs_agents := map_set (rc_id cfg) next (rs_agents st)\<rparr>) in
     case map_get (rs_agents st) (rc_id cfg) of
       Some existing \<Rightarrow> if al_ref existing = ref_of (rc_agents cfg) then (existing, st) else computed
     | None \<Rightarrow> computed)"

definition pick_in_lookup :: "agent_lookup \<Rightarrow> string \<Rightarrow> string" where
  "pick_in_lookup lookup agentId = (let trimmed = trim agentId in
     if trimmed = [] then al_fallback lookup
     else let normalized = normalizeAgentId (Some trimmed) in
       if length (al_byNormalizedId lookup) = 0 then sanitizeAgentId (Some trimmed)
       else let resolved = nullish (map_get (al_byNormalizedId lookup) normalized) [] in
         if resolved \<noteq> [] then resolved else al_fallback lookup)"

definition pickFirstExistingAgentId :: "route_config \<Rightarrow> string \<Rightarrow> route_state \<Rightarrow> string \<times> route_state" where
  "pickFirstExistingAgentId cfg agentId st =
     (let (lookup, st1) = resolveAgentLookupCache cfg st in (pick_in_lookup lookup agentId, st1))"

abbreviation tab :: char where "tab \<equiv> CHR 0x09"

definition bindings_key :: "string \<Rightarrow> string \<Rightarrow> string" where
  "bindings_key channel accountId = channel @ tab # accountId"

definition put_bindings_cache :: "route_config \<Rightarrow> bindings_cache \<Rightarrow> route_state \<Rightarrow> route_state" where
  "put_bindings_cache cfg c st = st\<lparr>rs_bindings := map_set (rc_id cfg) c (rs_bindings st)\<rparr>"

definition current_bindings_cache :: "route_config \<Rightarrow> route_state \<Rightarrow> bindings_cache" where
  "current_bindings_cache cfg st = (let fresh = \<lparr>bc_ref = ref_of (rc_bindings cfg), bc_byKey = [], bc_index = []\<rparr> in
     case map_get (rs_bindings st) (rc_id cfg) of
       Some existing \<Rightarrow> if bc_ref existing = ref_of (rc_bindings cfg) then existing else fresh
     | None \<Rightarrow> fresh)"

definition getEvaluatedBindingsForChannelAccount ::
  "route_config \<Rightarrow> string \<Rightarrow> string \<Rightarrow> route_state \<Rightarrow> evaluated_binding list \<times> route_state" where
  "getEvaluatedBindingsForChannelAccount cfg channel accountId st =
     (let cache = current_bindings_cache cfg st; st1 = put_bindings_cache cfg cache st;
          cacheKey = bindings_key channel accountId in
      case map_get (bc_byKey cache) cacheKey of
        Some hit \<Rightarrow> (hit, st1)
      | None \<Rightarrow>
          let (evaluated, cs) = evaluate_bindings 0 (listBindings cfg) channel accountId (rs_accounts st1);
              byKey = map_set cacheKey evaluated (bc_byKey cache);
              index = map_set cacheKey (buildEvaluatedBindingsIndex evaluated) (bc_index cache);
              cache1 = (if length byKey > MAX_EVALUATED_BINDINGS_CACHE_KEYS
                then cache\<lparr>bc_byKey := map_set cacheKey evaluated [],
                  bc_index := map_set cacheKey (buildEvaluatedBindingsIndex evaluated) []\<rparr>
                else cache\<lparr>bc_byKey := byKey, bc_index := index\<rparr>) in
          (evaluated, put_bindings_cache cfg cache1 (st1\<lparr>rs_accounts := cs\<rparr>)))"

definition getEvaluatedBindingIndexForChannelAccount ::
  "route_config \<Rightarrow> string \<Rightarrow> string \<Rightarrow> route_state \<Rightarrow> bindings_index \<times> route_state" where
  "getEvaluatedBindingIndexForChannelAccount cfg channel accountId st =
     (let (bindings, st1) = getEvaluatedBindingsForChannelAccount cfg channel accountId st;
          existing = map_get (rs_bindings st1) (rc_id cfg);
          cacheKey = bindings_key channel accountId in
      case Option.bind existing (\<lambda>c. map_get (bc_index c) cacheKey) of
        Some indexed \<Rightarrow> (indexed, st1)
      | None \<Rightarrow> let built = buildEvaluatedBindingsIndex bindings in
          (built, case existing of None \<Rightarrow> st1
             | Some c \<Rightarrow> put_bindings_cache cfg (c\<lparr>bc_index := map_set cacheKey built (bc_index c)\<rparr>) st1))"

definition put_route_cache :: "route_config \<Rightarrow> (string, agent_route) js_map \<Rightarrow> route_state \<Rightarrow> route_state" where
  "put_route_cache cfg byKey st = st\<lparr>rs_routes := map_set (rc_id cfg)
     \<lparr>rch_bindings = ref_of (rc_bindings cfg), rch_agents = ref_of (rc_agents cfg), rch_session = ref_of (rc_session cfg),
      rch_byKey = byKey\<rparr> (rs_routes st)\<rparr>"

definition resolveRouteCacheForConfig :: "route_config \<Rightarrow> route_state \<Rightarrow> (string, agent_route) js_map \<times> route_state" where
  "resolveRouteCacheForConfig cfg st = (case map_get (rs_routes st) (rc_id cfg) of
       Some existing \<Rightarrow>
         if rch_bindings existing = ref_of (rc_bindings cfg) \<and> rch_agents existing = ref_of (rc_agents cfg) \<and>
           rch_session existing = ref_of (rc_session cfg) then (rch_byKey existing, st)
         else ([], put_route_cache cfg [] st)
     | None \<Rightarrow> ([], put_route_cache cfg [] st))"

definition formatRouteCachePeer :: "route_peer option \<Rightarrow> string" where
  "formatRouteCachePeer peer = (case peer of None \<Rightarrow> ''-''
     | Some p \<Rightarrow> if rp_id p = [] then ''-'' else chat_type_name (rp_kind p) @ colon # rp_id p)"

definition formatRoleIdsCacheKey :: "string list \<Rightarrow> string" where
  "formatRoleIdsCacheKey roleIds = (case roleIds of [] \<Rightarrow> ''-''
     | [r] \<Rightarrow> r
     | [first, second] \<Rightarrow> if first \<le> second then first @ '','' @ second else second @ '','' @ first
     | _ \<Rightarrow> join_with '','' (sort roleIds))"

fun dm_scope_name :: "dm_scope \<Rightarrow> string" where
  "dm_scope_name ScopeMain = ''main''"
| "dm_scope_name PerPeer = ''per-peer''"
| "dm_scope_name PerChannelPeer = ''per-channel-peer''"
| "dm_scope_name PerAccountChannelPeer = ''per-account-channel-peer''"

definition buildResolvedRouteCacheKey :: "route_query \<Rightarrow> string" where
  "buildResolvedRouteCacheKey q = join_with [tab] [rq_channel q, rq_accountId q, formatRouteCachePeer (rq_peer q),
     formatRouteCachePeer (rq_parentPeer q), str_or (rq_guildId q) ''-'', str_or (rq_teamId q) ''-'',
     formatRoleIdsCacheKey (rq_memberRoleIds q), dm_scope_name (rq_dmScope q)]"

definition session_params ::
  "string \<Rightarrow> string \<Rightarrow> string option \<Rightarrow> route_peer option \<Rightarrow> dm_scope option \<Rightarrow> identity_links option \<Rightarrow> peer_params" where
  "session_params agentId channel accountId peer dmScope identityLinks =
     \<lparr>pp_agentId = agentId, pp_mainKey = Some DEFAULT_MAIN_KEY, pp_channel = str_or (normalizeToken (Some channel)) ''unknown'',
      pp_accountId = accountId, pp_peerKind = Some (nullish (map_option rp_kind peer) Direct),
      pp_peerId = map_option (\<lambda>p. str_or (normalizeId (IdString (rp_id p))) ''unknown'') peer,
      pp_identityLinks = identityLinks, pp_dmScope = dmScope\<rparr>"

definition buildAgentSessionKey ::
  "string \<Rightarrow> string \<Rightarrow> string option \<Rightarrow> route_peer option \<Rightarrow> dm_scope option \<Rightarrow> identity_links option \<Rightarrow> account_caches \<Rightarrow>
    string \<times> account_caches" where
  "buildAgentSessionKey agentId channel accountId peer dmScope identityLinks cs =
     buildAgentPeerSessionKey (session_params agentId channel accountId peer dmScope identityLinks) cs"

record route_input =
  ri_cfg :: route_config
  ri_channel :: string
  ri_accountId :: "string option"
  ri_peer :: "(chat_type \<times> id_value) option"
  ri_parentPeer :: "(chat_type \<times> id_value) option"
  ri_guildId :: id_value
  ri_teamId :: id_value
  ri_memberRoleIds :: "string list option"
  ri_verbose :: bool

definition normalize_peer :: "chat_type \<times> id_value \<Rightarrow> route_peer" where
  "normalize_peer p = \<lparr>rp_kind = nullish (normalizeChatType (Some (chat_type_name (fst p)))) (fst p), rp_id = normalizeId (snd p)\<rparr>"

definition route_query_of :: "route_input \<Rightarrow> string \<Rightarrow> route_query" where
  "route_query_of i accountId = \<lparr>rq_channel = normalizeToken (Some (ri_channel i)), rq_accountId = accountId,
     rq_peer = map_option normalize_peer (ri_peer i), rq_parentPeer = map_option normalize_peer (ri_parentPeer i),
     rq_guildId = normalizeId (ri_guildId i), rq_teamId = normalizeId (ri_teamId i),
     rq_memberRoleIds = nullish (ri_memberRoleIds i) [],
     rq_dmScope = nullish (Option.bind (map_option snd (rc_session (ri_cfg i))) sc_dmScope) ScopeMain\<rparr>"

definition route_links :: "route_input \<Rightarrow> identity_links option" where
  "route_links i = Option.bind (map_option snd (rc_session (ri_cfg i))) sc_identityLinks"

text \<open>The closure \<open>choose\<close>; \<open>routeCache\<close> is the map of the route cache, or None.\<close>

definition choose_route ::
  "route_config \<Rightarrow> route_query \<Rightarrow> identity_links option \<Rightarrow> (string, agent_route) js_map option \<Rightarrow> string \<Rightarrow> matched_by \<Rightarrow>
    route_state \<Rightarrow> agent_route \<times> route_state" where
  "choose_route cfg q identityLinks routeCache agentId matchedBy st =
     (let (resolvedAgentId, st1) = pickFirstExistingAgentId cfg agentId st;
          (key, cs) = buildAgentSessionKey resolvedAgentId (rq_channel q) (Some (rq_accountId q)) (rq_peer q) (Some (rq_dmScope q))
            identityLinks (rs_accounts st1);
          st2 = st1\<lparr>rs_accounts := cs\<rparr>;
          route = \<lparr>ro_agentId = resolvedAgentId, ro_channel = rq_channel q, ro_accountId = rq_accountId q,
            ro_sessionKey = to_lower key,
            ro_mainSessionKey = to_lower (buildAgentMainSessionKey resolvedAgentId (Some DEFAULT_MAIN_KEY)), ro_matchedBy = matchedBy\<rparr> in
      case routeCache of None \<Rightarrow> (route, st2)
      | Some byKey \<Rightarrow> let routeCacheKey = buildResolvedRouteCacheKey q;
            byKey1 = map_set routeCacheKey route byKey in
          (route, put_route_cache cfg
             (if length byKey1 > MAX_RESOLVED_ROUTE_CACHE_KEYS then map_set routeCacheKey route [] else byKey1) st2))"

definition resolveAgentRoute :: "route_input \<Rightarrow> route_state \<Rightarrow> agent_route \<times> route_state" where
  "resolveAgentRoute i st =
     (let cfg = ri_cfg i;
          (accountId, cs) = normalizeAccountId (ri_accountId i) (rs_accounts st);
          st1 = st\<lparr>rs_accounts := cs\<rparr>;
          q = route_query_of i accountId;
          identityLinks = route_links i;
          (routeCache, st2) = (if \<not> ri_verbose i \<and> identityLinks = None
            then (let (m, s) = resolveRouteCacheForConfig cfg st1 in (Some m, s)) else (None, st1)) in
      case Option.bind routeCache (\<lambda>m. map_get m (buildResolvedRouteCacheKey q)) of
        Some cachedRoute \<Rightarrow> (cachedRoute, st2)
      | None \<Rightarrow>
          let (bindings, st3) = getEvaluatedBindingsForChannelAccount cfg (rq_channel q) accountId st2;
              (index, st4) = getEvaluatedBindingIndexForChannelAccount cfg (rq_channel q) accountId st3 in
          case choose_binding index q of
            Some (matchedBy, matched) \<Rightarrow> choose_route cfg q identityLinks routeCache (ab_agentId (eb_binding matched)) matchedBy st4
          | None \<Rightarrow> choose_route cfg q identityLinks routeCache (resolveDefaultAgentId cfg) ByDefault st4)"

section \<open>The specification of a route\<close>

definition account_matches :: "string option \<Rightarrow> string \<Rightarrow> bool" where
  "account_matches match actual = (let trimmed = trim (nullish match []) in
     if trimmed = [] then actual = DEFAULT_ACCOUNT_ID else trimmed = ''*'' \<or> account_id (Some trimmed) = actual)"

fun applicable_bindings :: "nat \<Rightarrow> agent_binding option list \<Rightarrow> string \<Rightarrow> string \<Rightarrow> evaluated_binding list" where
  "applicable_bindings i [] channel accountId = []"
| "applicable_bindings i (b # bs) channel accountId = (case b of None \<Rightarrow> applicable_bindings (Suc i) bs channel accountId
     | Some x \<Rightarrow>
         if matchesChannel (ab_match x) channel \<and> account_matches (Option.bind (ab_match x) bm_accountId) accountId
         then \<lparr>eb_ref = i, eb_binding = x, eb_match = normalizeBindingMatch (ab_match x)\<rparr> # applicable_bindings (Suc i) bs channel accountId
         else applicable_bindings (Suc i) bs channel accountId)"

text \<open>A route without any cache, by a search of the whole list in each tier.\<close>

definition route_for :: "route_config \<Rightarrow> route_query \<Rightarrow> identity_links option \<Rightarrow> agent_route" where
  "route_for cfg q links = (let evs = applicable_bindings 0 (listBindings cfg) (rq_channel q) (rq_accountId q);
       (by, agent) = (case choose_reference all_tiers q evs of Some (t, b) \<Rightarrow> (t, ab_agentId (eb_binding b))
         | None \<Rightarrow> (ByDefault, resolveDefaultAgentId cfg));
       agentId = pick_in_lookup (fresh_agent_lookup cfg) agent in
     \<lparr>ro_agentId = agentId, ro_channel = rq_channel q, ro_accountId = rq_accountId q,
      ro_sessionKey = to_lower (''agent:'' @ normalizeAgentId (Some agentId) @ colon #
        key_rest (session_params agentId (rq_channel q) (Some (rq_accountId q)) (rq_peer q) (Some (rq_dmScope q)) links)),
      ro_mainSessionKey = to_lower (buildAgentMainSessionKey agentId (Some DEFAULT_MAIN_KEY)), ro_matchedBy = by\<rparr>)"

definition query_for :: "route_input \<Rightarrow> route_query" where
  "query_for i = route_query_of i (account_id (ri_accountId i))"

lemma matchesAccountId_ok:
  "caches_ok cs \<Longrightarrow> fst (matchesAccountId m actual cs) = account_matches m actual \<and> caches_ok (snd (matchesAccountId m actual cs))"
  using normalizeAccountId_ok [of cs "Some (trim (nullish m []))"]
  by (auto simp: matchesAccountId_def account_matches_def Let_def split_def)

lemma evaluate_bindings_ok:
  "caches_ok cs \<Longrightarrow> fst (evaluate_bindings i bs channel acct cs) = applicable_bindings i bs channel acct \<and>
    caches_ok (snd (evaluate_bindings i bs channel acct cs))"
proof (induction bs arbitrary: i cs)
  case (Cons b bs)
  show ?case
  proof (cases b)
    case None
    then show ?thesis using Cons by simp
  next
    case (Some x)
    let ?m = "matchesAccountId (Option.bind (ab_match x) bm_accountId) acct cs"
    from matchesAccountId_ok [OF Cons.prems] have "fst ?m = account_matches (Option.bind (ab_match x) bm_accountId) acct"
      and cs: "caches_ok (snd ?m)" by auto
    with Cons.IH [OF cs] Cons.IH [OF Cons.prems] show ?thesis by (simp add: Some split_def Let_def)
  qed
qed simp

lemma applicable_refs: "b \<in> set (applicable_bindings i bs channel acct) \<Longrightarrow> i \<le> eb_ref b"
proof (induction bs arbitrary: i)
  case (Cons x bs)
  then show ?case by (fastforce split: option.splits if_splits)
qed simp

lemma normalize_match_wf: "wf_match (normalizeBindingMatch m)"
  by (auto simp: wf_match_def normalizeBindingMatch_def Let_def str_opt_def normalizePeerConstraint_def
      split: if_splits option.splits prod.splits)

lemma applicable_wf: "wf_evaluated (applicable_bindings i bs channel acct)"
proof (induction bs arbitrary: i)
  case (Cons x bs)
  from Cons [of "Suc i"] show ?case
    by (auto simp: wf_evaluated_def normalize_match_wf split: option.splits dest!: applicable_refs)
qed (simp add: wf_evaluated_def)

text \<open>
  The contents of the objects of a configuration, by their identities. A sequence of requests reads
  one heap when no object of a configuration is written in place; replacing \<open>cfg.bindings\<close>,
  \<open>cfg.agents\<close> or \<open>cfg.session\<close> by another object is allowed.
\<close>

record config_heap =
  hp_agents :: "nat \<Rightarrow> agent_entry list option"
  hp_bindings :: "nat \<Rightarrow> agent_binding option list option"
  hp_session :: "nat \<Rightarrow> session_config"

definition config_at :: "config_heap \<Rightarrow> nat \<Rightarrow> nat option \<Rightarrow> nat option \<Rightarrow> nat option \<Rightarrow> route_config" where
  "config_at h n agents bindings session = \<lparr>rc_id = n, rc_agents = map_option (\<lambda>r. (r, hp_agents h r)) agents,
     rc_bindings = map_option (\<lambda>r. (r, hp_bindings h r)) bindings, rc_session = map_option (\<lambda>r. (r, hp_session h r)) session\<rparr>"

definition reads_heap :: "config_heap \<Rightarrow> route_config \<Rightarrow> bool" where
  "reads_heap h cfg \<longleftrightarrow>
     cfg = config_at h (rc_id cfg) (ref_of (rc_agents cfg)) (ref_of (rc_bindings cfg)) (ref_of (rc_session cfg))"

lemma ref_of_pair [simp]: "ref_of (map_option (\<lambda>r. (r, f r)) x) = x"
  by (cases x) simp_all

lemma reads_heap_parts:
  assumes "reads_heap h cfg"
  shows "listBindings (config_at h n a (ref_of (rc_bindings cfg)) s) = listBindings cfg"
    and "fresh_agent_lookup (config_at h n (ref_of (rc_agents cfg)) b s) = fresh_agent_lookup cfg"
    and "route_for (config_at h n (ref_of (rc_agents cfg)) (ref_of (rc_bindings cfg)) s) q links = route_for cfg q links"
proof -
  have b: "rc_bindings cfg = map_option (\<lambda>r. (r, hp_bindings h r)) (ref_of (rc_bindings cfg))"
    using assms unfolding reads_heap_def config_at_def by (metis route_config.select_convs(3))
  have a: "rc_agents cfg = map_option (\<lambda>r. (r, hp_agents h r)) (ref_of (rc_agents cfg))"
    using assms unfolding reads_heap_def config_at_def by (metis route_config.select_convs(2))
  have lb: "listBindings (config_at h n a (ref_of (rc_bindings cfg)) s) = listBindings cfg" for n a s
    unfolding listBindings_def using b by (simp add: config_at_def)
  have la: "listAgents (config_at h n (ref_of (rc_agents cfg)) b s) = listAgents cfg" for n b s
    unfolding listAgents_def using a by (simp add: config_at_def)
  then have d: "resolveDefaultAgentId (config_at h n (ref_of (rc_agents cfg)) b s) = resolveDefaultAgentId cfg" for n b s
    by (simp add: resolveDefaultAgentId_def listAgentEntries_def)
  have f: "fresh_agent_lookup (config_at h n (ref_of (rc_agents cfg)) b s) = fresh_agent_lookup cfg" for n b s
    by (simp add: fresh_agent_lookup_def la d) (simp add: config_at_def)
  show "listBindings (config_at h n a (ref_of (rc_bindings cfg)) s) = listBindings cfg" by (rule lb)
  show "fresh_agent_lookup (config_at h n (ref_of (rc_agents cfg)) b s) = fresh_agent_lookup cfg" by (rule f)
  show "route_for (config_at h n (ref_of (rc_agents cfg)) (ref_of (rc_bindings cfg)) s) q links = route_for cfg q links"
    unfolding route_for_def by (simp only: lb f d)
qed

section \<open>Keys of the caches\<close>

lemma bindings_key_inject:
  assumes "tab \<notin> set a" "tab \<notin> set a'"
  shows "bindings_key c a = bindings_key c' a' \<longleftrightarrow> c = c' \<and> a = a'"
proof -
  have "bindings_key c a = bindings_key c' a' \<longleftrightarrow> rev (bindings_key c a) = rev (bindings_key c' a')" by simp
  also have "\<dots> \<longleftrightarrow> c = c' \<and> a = a'"
    using sep_inj [of tab "rev a" "rev a'" "rev c" "rev c'"] assms by (auto simp: bindings_key_def)
  finally show ?thesis .
qed

definition clean_text :: "string \<Rightarrow> bool" where
  "clean_text s \<longleftrightarrow> tab \<notin> set s \<and> s \<noteq> ''-''"

definition clean_peer :: "route_peer option \<Rightarrow> bool" where
  "clean_peer p = (case p of None \<Rightarrow> True | Some x \<Rightarrow> rp_id x \<noteq> [] \<and> tab \<notin> set (rp_id x))"

definition clean_role :: "string \<Rightarrow> bool" where
  "clean_role r \<longleftrightarrow> clean_text r \<and> r \<noteq> [] \<and> CHR '','' \<notin> set r"

definition clean_query :: "route_query \<Rightarrow> bool" where
  "clean_query q \<longleftrightarrow> tab \<notin> set (rq_channel q) \<and> tab \<notin> set (rq_accountId q) \<and> clean_peer (rq_peer q) \<and>
     clean_peer (rq_parentPeer q) \<and> clean_text (rq_guildId q) \<and> clean_text (rq_teamId q) \<and> list_all clean_role (rq_memberRoleIds q)"

lemma peer_text_inject:
  assumes "clean_peer p" "clean_peer p'"
  shows "formatRouteCachePeer p = formatRouteCachePeer p' \<longleftrightarrow> p = p'"
proof -
  have dash: "chat_type_name k @ colon # i \<noteq> ''-''" for k i by (cases k) auto
  have names: "chat_type_name k @ colon # i = chat_type_name k' @ colon # i' \<longleftrightarrow> k = k' \<and> i = i'" for k k' i i'
    by (cases k; cases k') auto
  show ?thesis
    using assms dash names by (cases p; cases p') (auto simp: formatRouteCachePeer_def clean_peer_def dest: dash [symmetric, THEN notE])
qed

lemma peer_text_no_tab: "clean_peer p \<Longrightarrow> tab \<notin> set (formatRouteCachePeer p)"
proof (cases p)
  case (Some x)
  moreover assume "clean_peer p"
  ultimately show ?thesis by (cases "rp_kind x") (auto simp: formatRouteCachePeer_def clean_peer_def)
qed (simp add: formatRouteCachePeer_def)

lemma or_dash_inject: "clean_text s \<Longrightarrow> clean_text t \<Longrightarrow> str_or s ''-'' = str_or t ''-'' \<longleftrightarrow> s = t"
  by (auto simp: str_or_def clean_text_def)

lemma or_dash_no_tab: "clean_text s \<Longrightarrow> tab \<notin> set (str_or s ''-'')"
  by (auto simp: str_or_def clean_text_def)

lemma roles_text: "roles \<noteq> [] \<Longrightarrow> formatRoleIdsCacheKey roles = join_with '','' (sort roles)"
proof -
  assume "roles \<noteq> []"
  then consider r where "roles = [r]" | r r' where "roles = [r, r']" | r r' r'' rs where "roles = r # r' # r'' # rs"
    by (cases roles; cases "tl roles"; cases "tl (tl roles)") auto
  then show ?thesis
    by cases (auto simp: formatRoleIdsCacheKey_def)
qed

lemma roles_text_inject:
  assumes "list_all clean_role rs" "list_all clean_role rs'" "formatRoleIdsCacheKey rs = formatRoleIdsCacheKey rs'"
  shows "set rs = set rs'"
proof -
  have split: "split_on CHR '','' (join_with '','' (sort rs)) = sort rs" if "rs \<noteq> []" "list_all clean_role rs" for rs
    using that by (intro split_join) (auto simp: list_all_iff clean_role_def simp flip: set_empty)
  have dash: "join_with '','' (sort rs) \<noteq> ''-''" if "rs \<noteq> []" "list_all clean_role rs" for rs
  proof
    assume "join_with '','' (sort rs) = ''-''"
    with split [OF that] have "sort rs = split_on CHR '','' ''-''" by simp
    then have "''-'' \<in> set (sort rs)" by simp
    with that show False by (auto simp: list_all_iff clean_role_def clean_text_def)
  qed
  show ?thesis
  proof (cases "rs = [] \<or> rs' = []")
    case True
    have e: "formatRoleIdsCacheKey [] = ''-''" by (simp add: formatRoleIdsCacheKey_def)
    from True have "rs = [] \<and> rs' = []"
    proof
      assume rs: "rs = []"
      show ?thesis using assms(2,3) dash [of rs'] roles_text [of rs'] unfolding rs e by metis
    next
      assume rs: "rs' = []"
      show ?thesis using assms(1,3) dash [of rs] roles_text [of rs] unfolding rs e by metis
    qed
    then show ?thesis by simp
  next
    case False
    with assms(3) have "join_with '','' (sort rs) = join_with '','' (sort rs')"
      using roles_text [of rs] roles_text [of rs'] by metis
    then have "sort rs = sort rs'" using split [of rs] split [of rs'] False assms(1,2) by metis
    then show ?thesis by (metis set_sort)
  qed
qed

lemma roles_no_tab: "list_all clean_role rs \<Longrightarrow> tab \<notin> set (formatRoleIdsCacheKey rs)"
proof (cases "rs = []")
  case False
  assume "list_all clean_role rs"
  with False set_join_with [of "'',''" "sort rs"] show ?thesis
    by (auto simp: roles_text list_all_iff clean_role_def clean_text_def)
qed (simp add: formatRoleIdsCacheKey_def)

lemma dm_scope_name_inject: "dm_scope_name d = dm_scope_name d' \<longleftrightarrow> d = d'"
  by (cases d; cases d') simp_all

lemma scope_name_no_tab: "tab \<notin> set (dm_scope_name d)"
  by (cases d) simp_all

text \<open>Two requests with one key differ at most in the order and the repetition of the roles.\<close>

definition same_query :: "route_query \<Rightarrow> route_query \<Rightarrow> bool" where
  "same_query q q' \<longleftrightarrow> q' = q\<lparr>rq_memberRoleIds := rq_memberRoleIds q'\<rparr> \<and> set (rq_memberRoleIds q) = set (rq_memberRoleIds q')"

lemma route_key_inject:
  assumes "clean_query q" "clean_query q'" "buildResolvedRouteCacheKey q = buildResolvedRouteCacheKey q'"
  shows "same_query q q'"
proof -
  let ?f = "\<lambda>q. [rq_channel q, rq_accountId q, formatRouteCachePeer (rq_peer q),
     formatRouteCachePeer (rq_parentPeer q), str_or (rq_guildId q) ''-'', str_or (rq_teamId q) ''-'',
     formatRoleIdsCacheKey (rq_memberRoleIds q), dm_scope_name (rq_dmScope q)]"
  have "split_on tab (join_with [tab] (?f q)) = ?f q" if "clean_query q" for q
    using that peer_text_no_tab or_dash_no_tab roles_no_tab scope_name_no_tab by (intro split_join) (auto simp: clean_query_def)
  with assms have "?f q = ?f q'" unfolding buildResolvedRouteCacheKey_def by metis
  then show ?thesis
    using assms peer_text_inject or_dash_inject roles_text_inject dm_scope_name_inject
    by (auto simp: clean_query_def same_query_def intro!: route_query.equality)
qed

lemma route_for_same: "same_query q q' \<Longrightarrow> route_for cfg q links = route_for cfg q' links"
proof -
  assume "same_query q q'"
  then obtain rs where q': "q' = q\<lparr>rq_memberRoleIds := rs\<rparr>" and rs: "set rs = set (rq_memberRoleIds q)"
    unfolding same_query_def by metis
  have "matchesBindingScope m (scope_for q' p) = matchesBindingScope m (scope_for q p)" for m p
    by (simp add: q' matchesBindingScope_def scope_for_def rs cong: option.case_cong peer_constraint.case_cong)
  then have "eligible t q' = eligible t q" for t
    by (intro ext) (simp add: eligible_def q')
  then have "choose_reference ts q' evs = choose_reference ts q evs" for ts evs
    by (induction ts) (simp_all cong: option.case_cong)
  then show ?thesis by (simp add: route_for_def q')
qed

section \<open>The caches are transparent\<close>

definition agent_lookup_ok :: "config_heap \<Rightarrow> agent_lookup \<Rightarrow> bool" where
  "agent_lookup_ok h e \<longleftrightarrow> e = fresh_agent_lookup (config_at h 0 (al_ref e) None None)"

definition bindings_ok ::
  "agent_binding option list \<Rightarrow> (string, evaluated_binding list) js_map \<Rightarrow> (string, bindings_index) js_map \<Rightarrow> bool" where
  "bindings_ok bs byKey index \<longleftrightarrow> length byKey \<le> MAX_EVALUATED_BINDINGS_CACHE_KEYS \<and> (\<forall>ch acct. tab \<notin> set acct \<longrightarrow>
     (map_get byKey (bindings_key ch acct) = None \<or> map_get byKey (bindings_key ch acct) = Some (applicable_bindings 0 bs ch acct)) \<and>
     (map_get index (bindings_key ch acct) = None \<or>
      map_get index (bindings_key ch acct) = Some (buildEvaluatedBindingsIndex (applicable_bindings 0 bs ch acct))))"

definition bindings_cache_ok :: "config_heap \<Rightarrow> bindings_cache \<Rightarrow> bool" where
  "bindings_cache_ok h c \<longleftrightarrow> bindings_ok (listBindings (config_at h 0 None (bc_ref c) None)) (bc_byKey c) (bc_index c)"

definition routes_ok :: "route_config \<Rightarrow> (string, agent_route) js_map \<Rightarrow> bool" where
  "routes_ok cfg m \<longleftrightarrow> length m \<le> MAX_RESOLVED_ROUTE_CACHE_KEYS \<and> (\<forall>q. clean_query q \<longrightarrow>
     map_get m (buildResolvedRouteCacheKey q) = None \<or> map_get m (buildResolvedRouteCacheKey q) = Some (route_for cfg q None))"

definition route_cache_ok :: "config_heap \<Rightarrow> route_cache \<Rightarrow> bool" where
  "route_cache_ok h c \<longleftrightarrow> routes_ok (config_at h 0 (rch_agents c) (rch_bindings c) (rch_session c)) (rch_byKey c)"

definition state_ok :: "config_heap \<Rightarrow> route_state \<Rightarrow> bool" where
  "state_ok h st \<longleftrightarrow> caches_ok (rs_accounts st) \<and> (\<forall>n e. map_get (rs_agents st) n = Some e \<longrightarrow> agent_lookup_ok h e) \<and>
     (\<forall>n c. map_get (rs_bindings st) n = Some c \<longrightarrow> bindings_cache_ok h c) \<and>
     (\<forall>n c. map_get (rs_routes st) n = Some c \<longrightarrow> route_cache_ok h c)"

lemma state_ok_accounts: "state_ok h st \<Longrightarrow> caches_ok cs \<Longrightarrow> state_ok h (st\<lparr>rs_accounts := cs\<rparr>)"
  by (simp add: state_ok_def)

lemma pick_ok:
  assumes "state_ok h st" "reads_heap h cfg"
  shows "fst (pickFirstExistingAgentId cfg a st) = pick_in_lookup (fresh_agent_lookup cfg) a \<and>
    state_ok h (snd (pickFirstExistingAgentId cfg a st))"
proof -
  have fresh: "fresh_agent_lookup (config_at h 0 (ref_of (rc_agents cfg)) None None) = fresh_agent_lookup cfg"
    by (rule reads_heap_parts(2) [OF assms(2)])
  then have ok: "agent_lookup_ok h (fresh_agent_lookup cfg)"
    by (simp add: agent_lookup_ok_def) (simp add: fresh_agent_lookup_def)
  show ?thesis
  proof (cases "map_get (rs_agents st) (rc_id cfg)")
    case None
    then show ?thesis using assms(1) ok
      by (auto simp: pickFirstExistingAgentId_def resolveAgentLookupCache_def Let_def state_ok_def)
  next
    case (Some e)
    then have "e = fresh_agent_lookup (config_at h 0 (al_ref e) None None)"
      using assms(1) unfolding state_ok_def agent_lookup_ok_def by blast
    then have "al_ref e = ref_of (rc_agents cfg) \<Longrightarrow> e = fresh_agent_lookup cfg" using fresh by metis
    then show ?thesis using assms(1) ok Some
      by (auto simp: pickFirstExistingAgentId_def resolveAgentLookupCache_def Let_def state_ok_def)
  qed
qed

lemma bindings_ok_get:
  assumes "bindings_ok bs byKey index" "tab \<notin> set acct"
  shows "map_get byKey (bindings_key ch acct) = Some hit \<Longrightarrow> hit = applicable_bindings 0 bs ch acct"
    and "map_get index (bindings_key ch acct) = Some ix \<Longrightarrow> ix = buildEvaluatedBindingsIndex (applicable_bindings 0 bs ch acct)"
  using assms unfolding bindings_ok_def by (metis option.distinct(1) option.inject)+

lemma bindings_ok_empty: "bindings_ok bs [] []"
  by (simp add: bindings_ok_def)

lemma bindings_ok_set:
  assumes "bindings_ok bs byKey index" "tab \<notin> set acct" "length (map_set (bindings_key ch acct) evs byKey) \<le> MAX_EVALUATED_BINDINGS_CACHE_KEYS"
    "evs = applicable_bindings 0 bs ch acct"
  shows "bindings_ok bs (map_set (bindings_key ch acct) evs byKey) (map_set (bindings_key ch acct) (buildEvaluatedBindingsIndex evs) index)"
  using assms bindings_key_inject [OF _ assms(2)] by (auto simp: bindings_ok_def)

lemma current_cache_ok:
  assumes "state_ok h st" "reads_heap h cfg"
  shows "bindings_ok (listBindings cfg) (bc_byKey (current_bindings_cache cfg st)) (bc_index (current_bindings_cache cfg st)) \<and>
    bc_ref (current_bindings_cache cfg st) = ref_of (rc_bindings cfg)"
proof (cases "map_get (rs_bindings st) (rc_id cfg)")
  case (Some c)
  then have "bindings_cache_ok h c" using assms(1) by (simp add: state_ok_def)
  then show ?thesis using Some reads_heap_parts(1) [OF assms(2), of 0 None None]
    by (auto simp: current_bindings_cache_def Let_def bindings_cache_ok_def bindings_ok_empty)
qed (simp add: current_bindings_cache_def Let_def bindings_ok_empty)

lemma put_bindings_ok:
  assumes "state_ok h st" "reads_heap h cfg" "bindings_ok (listBindings cfg) (bc_byKey c) (bc_index c)" "bc_ref c = ref_of (rc_bindings cfg)"
  shows "state_ok h (put_bindings_cache cfg c st)"
  using assms reads_heap_parts(1) [OF assms(2), of 0 None None]
  by (auto simp: state_ok_def put_bindings_cache_def bindings_cache_ok_def)

lemma evaluated_ok:
  assumes st: "state_ok h st" and cfg: "reads_heap h cfg" and acct: "tab \<notin> set acct"
  shows "fst (getEvaluatedBindingsForChannelAccount cfg ch acct st) = applicable_bindings 0 (listBindings cfg) ch acct \<and>
    state_ok h (snd (getEvaluatedBindingsForChannelAccount cfg ch acct st))"
proof -
  let ?c = "current_bindings_cache cfg st" and ?k = "bindings_key ch acct"
  let ?evs = "applicable_bindings 0 (listBindings cfg) ch acct"
  let ?st1 = "put_bindings_cache cfg ?c st"
  note c = current_cache_ok [OF st cfg]
  have st1: "state_ok h ?st1" using put_bindings_ok [OF st cfg] c by blast
  show ?thesis
  proof (cases "map_get (bc_byKey ?c) ?k")
    case (Some hit)
    then have "hit = ?evs" using c acct bindings_ok_get(1) by blast
    with Some st1 show ?thesis by (simp add: getEvaluatedBindingsForChannelAccount_def Let_def)
  next
    case None
    let ?e = "evaluate_bindings 0 (listBindings cfg) ch acct (rs_accounts ?st1)"
    from st1 have "caches_ok (rs_accounts ?st1)" by (simp add: state_ok_def)
    from evaluate_bindings_ok [OF this] have e: "fst ?e = ?evs" and cs: "caches_ok (snd ?e)" by auto
    let ?m = "map_set ?k ?evs (bc_byKey ?c)" and ?x = "map_set ?k (buildEvaluatedBindingsIndex ?evs) (bc_index ?c)"
    have small: "bindings_ok (listBindings cfg) (map_set ?k ?evs []) (map_set ?k (buildEvaluatedBindingsIndex ?evs) [])"
      by (rule bindings_ok_set [OF bindings_ok_empty acct]) (simp_all add: MAX_EVALUATED_BINDINGS_CACHE_KEYS_def)
    have big: "length ?m \<le> MAX_EVALUATED_BINDINGS_CACHE_KEYS \<Longrightarrow> bindings_ok (listBindings cfg) ?m ?x"
      using c by (intro bindings_ok_set acct) auto
    have "state_ok h (put_bindings_cache cfg c' (?st1\<lparr>rs_accounts := snd ?e\<rparr>))"
      if "bindings_ok (listBindings cfg) (bc_byKey c') (bc_index c')" "bc_ref c' = ref_of (rc_bindings cfg)" for c'
      using put_bindings_ok [OF state_ok_accounts [OF st1 cs] cfg that] .
    with small big c e None show ?thesis
      by (auto simp: getEvaluatedBindingsForChannelAccount_def Let_def split_def not_less)
  qed
qed

lemma after_evaluated:
  "\<exists>c. map_get (rs_bindings (snd (getEvaluatedBindingsForChannelAccount cfg ch acct st))) (rc_id cfg) = Some c \<and>
    bc_ref c = ref_of (rc_bindings cfg)"
  by (auto simp: getEvaluatedBindingsForChannelAccount_def put_bindings_cache_def current_bindings_cache_def Let_def split_def
      split: option.splits)

lemma index_ok:
  assumes st: "state_ok h st" and cfg: "reads_heap h cfg" and acct: "tab \<notin> set acct"
  shows "fst (getEvaluatedBindingIndexForChannelAccount cfg ch acct st) =
      buildEvaluatedBindingsIndex (applicable_bindings 0 (listBindings cfg) ch acct) \<and>
    state_ok h (snd (getEvaluatedBindingIndexForChannelAccount cfg ch acct st))"
proof -
  let ?r = "getEvaluatedBindingsForChannelAccount cfg ch acct st" and ?k = "bindings_key ch acct"
  let ?ix = "buildEvaluatedBindingsIndex (applicable_bindings 0 (listBindings cfg) ch acct)"
  from evaluated_ok [OF assms] have e: "fst ?r = applicable_bindings 0 (listBindings cfg) ch acct" and st1: "state_ok h (snd ?r)" by auto
  obtain c where c: "map_get (rs_bindings (snd ?r)) (rc_id cfg) = Some c" "bc_ref c = ref_of (rc_bindings cfg)"
    using after_evaluated by blast
  have "bindings_cache_ok h c" using st1 c(1) by (simp add: state_ok_def)
  then have ok: "bindings_ok (listBindings cfg) (bc_byKey c) (bc_index c)"
    unfolding bindings_cache_ok_def c(2) reads_heap_parts(1) [OF cfg] .
  show ?thesis
  proof (cases "map_get (bc_index c) ?k")
    case (Some ix)
    then have "ix = ?ix" using bindings_ok_get(2) [OF ok acct] by blast
    with Some c st1 show ?thesis by (simp add: getEvaluatedBindingIndexForChannelAccount_def Let_def split_def)
  next
    case None
    have "bindings_ok (listBindings cfg) (bc_byKey c) (map_set ?k ?ix (bc_index c))"
      using ok acct bindings_key_inject [OF _ acct] by (auto simp: bindings_ok_def)
    with put_bindings_ok [OF st1 cfg, of "c\<lparr>bc_index := map_set ?k ?ix (bc_index c)\<rparr>"] c(2)
    have "state_ok h (put_bindings_cache cfg (c\<lparr>bc_index := map_set ?k ?ix (bc_index c)\<rparr>) (snd ?r))" by simp
    with None c e show ?thesis by (simp add: getEvaluatedBindingIndexForChannelAccount_def Let_def split_def)
  qed
qed

lemma session_key_ok:
  assumes "caches_ok cs"
  shows "fst (buildAgentSessionKey a ch acct peer d links cs) =
      ''agent:'' @ normalizeAgentId (Some a) @ colon # key_rest (session_params a ch acct peer d links) \<and>
    caches_ok (snd (buildAgentSessionKey a ch acct peer d links cs))"
proof -
  have "caches_ok (snd (buildAgentPeerSessionKey p cs))" for p
    using assms normalizeAccountId_ok [OF assms, of "pp_accountId p"] by (simp add: buildAgentPeerSessionKey_def Let_def split_def)
  then show ?thesis using built_key [OF assms, of "session_params a ch acct peer d links"]
    by (simp add: buildAgentSessionKey_def) (simp add: session_params_def)
qed

lemma routes_ok_get: "routes_ok cfg m \<Longrightarrow> clean_query q \<Longrightarrow> map_get m (buildResolvedRouteCacheKey q) = Some r \<Longrightarrow> r = route_for cfg q None"
  unfolding routes_ok_def by (metis option.distinct(1) option.inject)

lemma routes_ok_set:
  assumes "routes_ok cfg m" "clean_query q" "length (map_set (buildResolvedRouteCacheKey q) (route_for cfg q None) m) \<le> MAX_RESOLVED_ROUTE_CACHE_KEYS"
  shows "routes_ok cfg (map_set (buildResolvedRouteCacheKey q) (route_for cfg q None) m)"
proof -
  have "route_for cfg q' None = route_for cfg q None"
    if "clean_query q'" "buildResolvedRouteCacheKey q' = buildResolvedRouteCacheKey q" for q'
    using route_for_same [OF route_key_inject [OF that(1) assms(2) that(2)]] .
  then have "map_get (map_set (buildResolvedRouteCacheKey q) (route_for cfg q None) m) (buildResolvedRouteCacheKey q') \<in>
      {None, Some (route_for cfg q' None)}" if "clean_query q'" for q'
    using that assms(1) unfolding routes_ok_def map_get_set by (cases "buildResolvedRouteCacheKey q' = buildResolvedRouteCacheKey q") auto
  with assms(3) show ?thesis unfolding routes_ok_def by blast
qed

lemma routes_ok_Nil: "routes_ok cfg []"
  by (simp add: routes_ok_def)

lemma routes_ok_heap:
  assumes "reads_heap h cfg"
  shows "routes_ok (config_at h n (ref_of (rc_agents cfg)) (ref_of (rc_bindings cfg)) s) m = routes_ok cfg m"
  unfolding routes_ok_def reads_heap_parts(3) [OF assms] ..

lemma put_routes_ok:
  assumes "state_ok h st" "reads_heap h cfg" "routes_ok cfg m"
  shows "state_ok h (put_route_cache cfg m st)"
  using assms by (auto simp: state_ok_def put_route_cache_def route_cache_ok_def routes_ok_heap)

lemma route_cache_of_config:
  assumes "state_ok h st" "reads_heap h cfg"
  shows "routes_ok cfg (fst (resolveRouteCacheForConfig cfg st)) \<and> state_ok h (snd (resolveRouteCacheForConfig cfg st))"
proof (cases "map_get (rs_routes st) (rc_id cfg)")
  case None
  then show ?thesis using put_routes_ok [OF assms routes_ok_Nil] by (simp add: resolveRouteCacheForConfig_def routes_ok_Nil)
next
  case (Some c)
  then have "route_cache_ok h c" using assms(1) by (simp add: state_ok_def)
  with Some put_routes_ok [OF assms routes_ok_Nil] assms show ?thesis
    by (auto simp: resolveRouteCacheForConfig_def routes_ok_Nil route_cache_ok_def routes_ok_heap)
qed

lemma choose_route_ok:
  assumes st: "state_ok h st" and cfg: "reads_heap h cfg"
    and cache: "\<And>m. routeCache = Some m \<Longrightarrow> routes_ok cfg m \<and> clean_query q \<and> links = None"
    and choice: "(case choose_reference all_tiers q (applicable_bindings 0 (listBindings cfg) (rq_channel q) (rq_accountId q)) of
      Some (t, b) \<Rightarrow> (t, ab_agentId (eb_binding b)) | None \<Rightarrow> (ByDefault, resolveDefaultAgentId cfg)) = (by, agent)"
  shows "fst (choose_route cfg q links routeCache agent by st) = route_for cfg q links \<and>
    state_ok h (snd (choose_route cfg q links routeCache agent by st))"
proof -
  let ?p = "pickFirstExistingAgentId cfg agent st" and ?a = "pick_in_lookup (fresh_agent_lookup cfg) agent"
  from pick_ok [OF st cfg] have p: "fst ?p = ?a" and st1: "state_ok h (snd ?p)" by auto
  let ?k = "buildAgentSessionKey ?a (rq_channel q) (Some (rq_accountId q)) (rq_peer q) (Some (rq_dmScope q)) links (rs_accounts (snd ?p))"
  from st1 have "caches_ok (rs_accounts (snd ?p))" by (simp add: state_ok_def)
  from session_key_ok [OF this, of ?a "rq_channel q" "Some (rq_accountId q)" "rq_peer q" "Some (rq_dmScope q)" links]
  have k: "fst ?k = ''agent:'' @ normalizeAgentId (Some ?a) @ colon #
      key_rest (session_params ?a (rq_channel q) (Some (rq_accountId q)) (rq_peer q) (Some (rq_dmScope q)) links)"
    and cs: "caches_ok (snd ?k)" by auto
  note st2 = state_ok_accounts [OF st1 cs]
  have route: "\<lparr>ro_agentId = ?a, ro_channel = rq_channel q, ro_accountId = rq_accountId q, ro_sessionKey = to_lower (fst ?k),
      ro_mainSessionKey = to_lower (buildAgentMainSessionKey ?a (Some DEFAULT_MAIN_KEY)), ro_matchedBy = by\<rparr> = route_for cfg q links"
    unfolding route_for_def Let_def choice k by simp
  show ?thesis
  proof (cases routeCache)
    case None
    then show ?thesis using st2 route by (simp add: choose_route_def split_def p Let_def)
  next
    case (Some m)
    let ?key = "buildResolvedRouteCacheKey q"
    from cache [OF Some] have m: "routes_ok cfg m" and q: "clean_query q" and links: "links = None" by auto
    have small: "routes_ok cfg (map_set ?key (route_for cfg q links) [])"
      unfolding links by (rule routes_ok_set [OF routes_ok_Nil q]) (simp add: MAX_RESOLVED_ROUTE_CACHE_KEYS_def)
    have big: "length (map_set ?key (route_for cfg q links) m) \<le> MAX_RESOLVED_ROUTE_CACHE_KEYS \<Longrightarrow>
        routes_ok cfg (map_set ?key (route_for cfg q links) m)"
      using routes_ok_set [OF m q] unfolding links .
    have "choose_route cfg q links routeCache agent by st = (route_for cfg q links, put_route_cache cfg
        (if length (map_set ?key (route_for cfg q links) m) > MAX_RESOLVED_ROUTE_CACHE_KEYS then map_set ?key (route_for cfg q links) []
         else map_set ?key (route_for cfg q links) m) (snd ?p\<lparr>rs_accounts := snd ?k\<rparr>))"
      unfolding route [symmetric] by (simp add: choose_route_def split_def p Let_def Some)
    with put_routes_ok [OF st2 cfg small] put_routes_ok [OF st2 cfg big] show ?thesis by (simp add: not_less)
  qed
qed

lemma account_no_tab: "tab \<notin> set (account_id v)"
  using plain_id_account [of v] by (auto simp: plain_id_def list_all_iff id_char_def id_start_def)

definition cacheable_or_bypassed :: "route_input \<Rightarrow> bool" where
  "cacheable_or_bypassed i \<longleftrightarrow> ri_verbose i \<or> route_links i \<noteq> None \<or> clean_query (query_for i)"

lemma resolveAgentRoute_ok:
  assumes st: "state_ok h st" and cfg: "reads_heap h (ri_cfg i)" and clean: "cacheable_or_bypassed i"
  shows "fst (resolveAgentRoute i st) = route_for (ri_cfg i) (query_for i) (route_links i) \<and> state_ok h (snd (resolveAgentRoute i st))"
proof -
  let ?cfg = "ri_cfg i" and ?q = "query_for i" and ?n = "normalizeAccountId (ri_accountId i) (rs_accounts st)"
  from st have "caches_ok (rs_accounts st)" by (simp add: state_ok_def)
  from normalizeAccountId_ok [OF this] have n: "fst ?n = account_id (ri_accountId i)" and cs: "caches_ok (snd ?n)" by auto
  note st1 = state_ok_accounts [OF st cs]
  let ?st1 = "st\<lparr>rs_accounts := snd ?n\<rparr>"
  let ?caching = "\<not> ri_verbose i \<and> route_links i = None"
  define rc where "rc = (if ?caching then (let (m, s) = resolveRouteCacheForConfig ?cfg ?st1 in (Some m, s)) else (None, ?st1))"
  have rc: "routes_ok ?cfg m \<and> clean_query ?q \<and> route_links i = None" if "fst rc = Some m" for m
    using that clean route_cache_of_config [OF st1 cfg] by (auto simp: rc_def cacheable_or_bypassed_def split_def Let_def split: if_splits)
  have st2: "state_ok h (snd rc)"
    using st1 route_cache_of_config [OF st1 cfg] by (simp add: rc_def split_def Let_def)
  have q: "route_query_of i (fst ?n) = ?q" by (simp add: query_for_def n)
  have acct: "tab \<notin> set (fst ?n)" and qa: "rq_accountId ?q = fst ?n"
    by (simp_all add: n account_no_tab query_for_def route_query_of_def)
  let ?e = "getEvaluatedBindingsForChannelAccount ?cfg (rq_channel ?q) (fst ?n) (snd rc)"
  let ?x = "getEvaluatedBindingIndexForChannelAccount ?cfg (rq_channel ?q) (fst ?n) (snd ?e)"
  let ?evs = "applicable_bindings 0 (listBindings ?cfg) (rq_channel ?q) (rq_accountId ?q)"
  have e: "state_ok h (snd ?e)" using evaluated_ok [OF st2 cfg acct] by blast
  from index_ok [OF e cfg acct] have x: "fst ?x = buildEvaluatedBindingsIndex ?evs" and st4: "state_ok h (snd ?x)" by (auto simp: qa)
  note choice = choose_binding_reference [OF applicable_wf, of 0 "listBindings ?cfg" "rq_channel ?q" "rq_accountId ?q" ?q]
  have body: "resolveAgentRoute i st = (case Option.bind (fst rc) (\<lambda>m. map_get m (buildResolvedRouteCacheKey ?q)) of
      Some cachedRoute \<Rightarrow> (cachedRoute, snd rc)
    | None \<Rightarrow> (case choose_reference all_tiers ?q ?evs of
        Some (t, b) \<Rightarrow> choose_route ?cfg ?q (route_links i) (fst rc) (ab_agentId (eb_binding b)) t (snd ?x)
      | None \<Rightarrow> choose_route ?cfg ?q (route_links i) (fst rc) (resolveDefaultAgentId ?cfg) ByDefault (snd ?x)))"
    unfolding resolveAgentRoute_def Let_def split_def q rc_def [unfolded Let_def split_def, symmetric] x choice ..
  show ?thesis
  proof (cases "Option.bind (fst rc) (\<lambda>m. map_get m (buildResolvedRouteCacheKey ?q))")
    case (Some r)
    then obtain m where m: "fst rc = Some m" "map_get m (buildResolvedRouteCacheKey ?q) = Some r" by (auto simp: bind_eq_Some_conv)
    with rc [OF m(1)] routes_ok_get have "r = route_for ?cfg ?q (route_links i)" by metis
    with Some st2 show ?thesis by (simp add: body)
  next
    case None
    show ?thesis
    proof (cases "choose_reference all_tiers ?q ?evs")
      case None': None
      show ?thesis using choose_route_ok [OF st4 cfg rc, of "fst rc" ByDefault "resolveDefaultAgentId ?cfg"] None None' by (simp add: body)
    next
      case (Some tb)
      then show ?thesis using choose_route_ok [OF st4 cfg rc, of "fst rc" "fst tb" "ab_agentId (eb_binding (snd tb))"] None
        by (cases tb) (simp add: body)
    qed
  qed
qed

fun route_all :: "route_input list \<Rightarrow> route_state \<Rightarrow> agent_route list \<times> route_state" where
  "route_all [] st = ([], st)"
| "route_all (i # is) st = (let (r, st1) = resolveAgentRoute i st; (rs, st2) = route_all is st1 in (r # rs, st2))"

definition cold_state :: route_state where
  "cold_state = \<lparr>rs_accounts = \<lparr>ac_ids = [], ac_optional = []\<rparr>, rs_agents = [], rs_bindings = [], rs_routes = []\<rparr>"

lemma cold_state_ok: "state_ok h cold_state"
  by (simp add: state_ok_def cold_state_def caches_ok_def cache_of_def)

lemma route_all_ok:
  assumes "state_ok h st" "\<forall>i \<in> set is. reads_heap h (ri_cfg i) \<and> cacheable_or_bypassed i"
  shows "fst (route_all is st) = map (\<lambda>i. route_for (ri_cfg i) (query_for i) (route_links i)) is \<and> state_ok h (snd (route_all is st))"
  using assms
proof (induction "is" arbitrary: st)
  case (Cons i "is")
  from Cons.prems resolveAgentRoute_ok [of h st i] have "fst (resolveAgentRoute i st) = route_for (ri_cfg i) (query_for i) (route_links i)"
    and ok: "state_ok h (snd (resolveAgentRoute i st))" by auto
  with Cons.IH [OF ok] Cons.prems show ?case by (simp add: split_def Let_def)
qed simp

section \<open>Properties of the router\<close>

lemma find_first:
  assumes "List.find P xs = Some b"
  shows "\<exists>before after. xs = before @ b # after \<and> P b \<and> (\<forall>y \<in> set before. \<not> P y)"
  using assms
proof (induction xs)
  case (Cons x xs)
  show ?case
  proof (cases "P x")
    case True
    with Cons.prems show ?thesis by (intro exI [of _ "[]"] exI [of _ xs]) simp
  next
    case False
    with Cons obtain before after where "xs = before @ b # after" "P b" "\<forall>y \<in> set before. \<not> P y" by auto
    with False show ?thesis by (intro exI [of _ "x # before"] exI [of _ after]) simp
  qed
qed simp

lemma choose_reference_first:
  assumes "sorted ts"
  shows "case choose_reference ts q evs of
      None \<Rightarrow> \<forall>b \<in> set evs. \<forall>t \<in> set ts. \<not> eligible t q b
    | Some (t, b) \<Rightarrow> t \<in> set ts \<and> (\<exists>before after. evs = before @ b # after \<and> eligible t q b \<and> (\<forall>b' \<in> set before. \<not> eligible t q b')) \<and>
        (\<forall>t' \<in> set ts. t' < t \<longrightarrow> (\<forall>b' \<in> set evs. \<not> eligible t' q b'))"
  using assms
proof (induction ts)
  case (Cons t ts)
  show ?case
  proof (cases "List.find (eligible t q) evs")
    case None
    then have "\<forall>b \<in> set evs. \<not> eligible t q b" by (auto simp: find_None_iff)
    with None Cons show ?thesis by (auto split: option.splits)
  next
    case (Some b)
    have "\<forall>t' \<in> set (t # ts). \<not> t' < t" using Cons.prems by (auto simp: not_less)
    with find_first [OF Some] show ?thesis by (simp add: Some)
  qed
qed simp

text \<open>
  C36: The tiers are tried in order and each is searched in source order. For every list of
  bindings, every channel, account and request, the index of the code finds exactly what a search of
  the whole list of applicable bindings would: when it chooses a binding in a tier, the binding
  applies to the request in that tier, no earlier binding of the list does, and no binding at all
  applies in a more specific tier; when it chooses none, no binding applies in any tier.
\<close>

theorem routing_respects_priority:
  "case choose_binding (buildEvaluatedBindingsIndex (applicable_bindings 0 bs channel accountId)) q of
     None \<Rightarrow> \<forall>b \<in> set (applicable_bindings 0 bs channel accountId). \<forall>t. \<not> eligible t q b
   | Some (t, b) \<Rightarrow> \<exists>before after. applicable_bindings 0 bs channel accountId = before @ b # after \<and> eligible t q b \<and>
       (\<forall>b' \<in> set before. \<not> eligible t q b') \<and>
       (\<forall>t'. t' < t \<longrightarrow> (\<forall>b' \<in> set (applicable_bindings 0 bs channel accountId). \<not> eligible t' q b'))"
proof -
  let ?evs = "applicable_bindings 0 bs channel accountId"
  have no_default: "\<not> eligible ByDefault q b" for b
    by (auto simp: eligible_def tier_class_def Let_def)
  note search = choose_reference_first [where q = q and evs = ?evs]
  have sorted: "sorted all_tiers" by (simp add: all_tiers_def less_eq_matched_by_def)
  have tiers: "t \<in> set all_tiers \<or> t = ByDefault" for t by (cases t) (simp_all add: all_tiers_def)
  show ?thesis
  proof (cases "choose_reference all_tiers q ?evs")
    case None
    with search [OF sorted] have "\<forall>b \<in> set ?evs. \<forall>t \<in> set all_tiers. \<not> eligible t q b" by simp
    then have "\<forall>b \<in> set ?evs. \<forall>t. \<not> eligible t q b" using tiers no_default by metis
    then show ?thesis by (simp add: choose_binding_reference [OF applicable_wf] None)
  next
    case (Some tb)
    obtain t b where tb: "tb = (t, b)" by (cases tb)
    from search [OF sorted] have
      "\<exists>before after. ?evs = before @ b # after \<and> eligible t q b \<and> (\<forall>b' \<in> set before. \<not> eligible t q b')"
      and "\<forall>t' \<in> set all_tiers. t' < t \<longrightarrow> (\<forall>b' \<in> set ?evs. \<not> eligible t' q b')" by (simp_all add: Some tb)
    moreover from this(2) have "\<forall>t'. t' < t \<longrightarrow> (\<forall>b' \<in> set ?evs. \<not> eligible t' q b')" using tiers no_default by metis
    ultimately show ?thesis by (simp add: choose_binding_reference [OF applicable_wf] Some tb)
  qed
qed

text \<open>
  C35: The caches of the router are transparent. Take any sequence of requests, over any number of
  configurations, whose objects are not written in place (they may be replaced), and start with empty
  caches. Then every request gets the route that the cache-free specification computes for it alone:
  bindings filtered by channel and account, searched tier by tier, the agent looked up in the
  configured list, the session key of the peer. A request that uses the route cache must have ids
  free of the separators of the cache key.
\<close>

theorem route_caches_transparent:
  assumes "\<forall>i \<in> set is. reads_heap h (ri_cfg i) \<and> cacheable_or_bypassed i"
  shows "fst (route_all is cold_state) = map (\<lambda>i. route_for (ri_cfg i) (query_for i) (route_links i)) is"
  using route_all_ok [OF cold_state_ok assms] by blast

definition configured_agents :: "route_config \<Rightarrow> string list" where
  "configured_agents cfg = map (\<lambda>a. normalizeAgentId (ae_id a)) (filter (\<lambda>a. trim (nullish (ae_id a) []) \<noteq> []) (listAgents cfg))"

lemma normalize_trim: "normalizeAgentId (Some (trim s)) = normalizeAgentId (Some s)"
  by (simp add: normalizeAgentId_def)

lemma lookup_members:
  fixes cfg
  defines "m \<equiv> al_byNormalizedId (fresh_agent_lookup cfg)"
  shows "map_get m k = Some v \<Longrightarrow> v \<in> set (configured_agents cfg)" and "m = [] \<longleftrightarrow> configured_agents cfg = []"
proof -
  have inv: "map_get (fold add_agent xs acc) k = Some v \<Longrightarrow> (\<forall>k v. map_get acc k = Some v \<longrightarrow> v \<in> S) \<Longrightarrow>
      (\<forall>a \<in> set xs. trim (nullish (ae_id a) []) \<noteq> [] \<longrightarrow> normalizeAgentId (ae_id a) \<in> S) \<Longrightarrow> v \<in> S" for xs acc S k v
  proof (induction xs arbitrary: acc)
    case (Cons a xs)
    have "\<forall>k v. map_get (add_agent a acc) k = Some v \<longrightarrow> v \<in> S"
      using Cons.prems(2,3) by (cases "ae_id a") (auto simp: add_agent_def Let_def sanitizeAgentId_def normalize_trim)
    with Cons show ?case by auto
  qed auto
  show "map_get m k = Some v \<Longrightarrow> v \<in> set (configured_agents cfg)"
    unfolding m_def fresh_agent_lookup_def by (rule inv [of "listAgents cfg" "[]"]) (auto simp: configured_agents_def)
  have "fold add_agent xs acc = [] \<longleftrightarrow> acc = [] \<and> (\<forall>a \<in> set xs. trim (nullish (ae_id a) []) = [])" for xs acc
  proof (induction xs arbitrary: acc)
    case (Cons a xs)
    have "add_agent a acc = [] \<longleftrightarrow> acc = [] \<and> trim (nullish (ae_id a) []) = []"
      by (cases "ae_id a") (auto simp: add_agent_def Let_def)
    with Cons show ?case by auto
  qed simp
  then show "m = [] \<longleftrightarrow> configured_agents cfg = []"
    by (auto simp: m_def fresh_agent_lookup_def configured_agents_def filter_empty_conv)
qed

text \<open>
  A message is never routed to an agent that does not exist. In any such sequence of requests,
  when the configuration lists agents, the agent of every route is one of the listed agents or the
  default agent, whatever the bindings name; and the session key of the route names that agent.
\<close>

theorem routed_agent_exists:
  assumes "\<forall>i \<in> set is. reads_heap h (ri_cfg i) \<and> cacheable_or_bypassed i"
  shows "list_all2 (\<lambda>i r.
    (configured_agents (ri_cfg i) \<noteq> [] \<longrightarrow>
      ro_agentId r \<in> set (configured_agents (ri_cfg i)) \<or> ro_agentId r = normalizeAgentId (Some (resolveDefaultAgentId (ri_cfg i)))) \<and>
    resolveAgentIdFromSessionKey (Some (ro_sessionKey r)) = normalizeAgentId (Some (ro_agentId r))) is (fst (route_all is cold_state))"
proof -
  have one: "(configured_agents cfg \<noteq> [] \<longrightarrow>
      ro_agentId r \<in> set (configured_agents cfg) \<or> ro_agentId r = normalizeAgentId (Some (resolveDefaultAgentId cfg))) \<and>
    resolveAgentIdFromSessionKey (Some (ro_sessionKey r)) = normalizeAgentId (Some (ro_agentId r))"
    if r: "r = route_for cfg q links" for cfg q links r
  proof -
    obtain t a where "(case choose_reference all_tiers q (applicable_bindings 0 (listBindings cfg) (rq_channel q) (rq_accountId q)) of
      Some (t, b) \<Rightarrow> (t, ab_agentId (eb_binding b)) | None \<Rightarrow> (ByDefault, resolveDefaultAgentId cfg)) = (t, a)" by fastforce
    then have agent: "ro_agentId r = pick_in_lookup (fresh_agent_lookup cfg) a"
      and key: "ro_sessionKey r = to_lower (''agent:'' @ normalizeAgentId (Some (ro_agentId r)) @ colon #
        key_rest (session_params (ro_agentId r) (rq_channel q) (Some (rq_accountId q)) (rq_peer q) (Some (rq_dmScope q)) links))"
      unfolding r route_for_def Let_def by simp_all
    have listed: "ro_agentId r \<in> set (configured_agents cfg) \<or> ro_agentId r = normalizeAgentId (Some (resolveDefaultAgentId cfg)) \<or>
        (configured_agents cfg = [] \<and> ro_agentId r = normalizeAgentId (Some a))"
      using lookup_members [where cfg = cfg]
      by (auto simp: agent pick_in_lookup_def Let_def sanitizeAgentId_def normalize_trim fresh_agent_lookup_def split: if_splits)
        (auto simp: nullish_def split: option.splits)
    then have "plain_id (ro_agentId r)" using plain_id_agent by (auto simp: configured_agents_def)
    then have len: "length (ro_agentId r) \<le> 64" by (simp add: plain_id_def)
    have "\<not> set (normalizeMainKey (Some DEFAULT_MAIN_KEY)) \<subseteq> {colon}"
      by (simp add: normalizeMainKey_def DEFAULT_MAIN_KEY_def str_eval)
    then have e: "ends_plain (key_rest (session_params a' ch acct pe d links))" for a' ch acct pe d
      by (intro key_rest_ends_plain) (simp add: session_params_def)
    then have "to_lower (key_rest (session_params a' ch acct pe d links)) = key_rest (session_params a' ch acct pe d links)" for a' ch acct pe d
      by (simp add: ends_plain_def lowercase_def)
    then have "ro_sessionKey r = ''agent:'' @ normalizeAgentId (Some (ro_agentId r)) @ colon #
        key_rest (session_params (ro_agentId r) (rq_channel q) (Some (rq_accountId q)) (rq_peer q) (Some (rq_dmScope q)) links)"
      unfolding key using plain_id_facts(2) [OF plain_id_agent] by (simp add: to_lower_def lower_char_def)
    with e agent_of_built [of _ "Some (ro_agentId r)"] listed normalizeAgentId_idem [OF len] show ?thesis
      by (auto simp: ends_plain_def)
  qed
  show ?thesis unfolding route_all_ok [OF cold_state_ok assms, THEN conjunct1] using one by (simp add: list_all2_conv_all_nth)
qed

definition sample_match :: "string option \<Rightarrow> string \<Rightarrow> binding_match" where
  "sample_match account guild = \<lparr>bm_channel = Some ''Discord'', bm_accountId = account, bm_peer = None, bm_guildId = IdString guild,
     bm_teamId = IdOther, bm_roles = None\<rparr>"

definition sample_bindings :: "agent_binding option list" where
  "sample_bindings = [Some \<lparr>ab_agentId = ''main'', ab_match = Some (sample_match (Some ''*'') [])\<rparr>, None,
     Some \<lparr>ab_agentId = ''Ops'', ab_match = Some (sample_match None ''g1'')\<rparr>]"

definition sample_route_query :: route_query where
  "sample_route_query = \<lparr>rq_channel = ''discord'', rq_accountId = ''default'', rq_peer = Some \<lparr>rp_kind = Group, rp_id = ''c7''\<rparr>,
     rq_parentPeer = None, rq_guildId = ''g1'', rq_teamId = [], rq_memberRoleIds = [], rq_dmScope = PerPeer\<rparr>"

definition sample_choice :: "(matched_by \<times> evaluated_binding) option" where
  "sample_choice = Some (ByGuild, \<lparr>eb_ref = 2, eb_binding = \<lparr>ab_agentId = ''Ops'', ab_match = Some (sample_match None ''g1'')\<rparr>,
     eb_match = normalizeBindingMatch (Some (sample_match None ''g1''))\<rparr>)"

theorem routing_respects_priority_witness:
  "choose_binding (buildEvaluatedBindingsIndex (applicable_bindings 0 sample_bindings ''discord'' ''default'')) sample_route_query = sample_choice \<and>
   list_all (\<lambda>b. \<not> eligible ByPeer sample_route_query b) (applicable_bindings 0 sample_bindings ''discord'' ''default'')"
proof -
  have c: "choose_binding (buildEvaluatedBindingsIndex (applicable_bindings 0 sample_bindings ''discord'' ''default'')) sample_route_query =
      sample_choice" by code_simp
  have "ByPeer < ByGuild" by (simp add: less_matched_by_def)
  with routing_respects_priority [of sample_bindings "''discord''" "''default''" sample_route_query] c show ?thesis
    unfolding c list_all_iff by (simp add: sample_choice_def) blast
qed

definition sample_heap :: config_heap where
  "sample_heap = \<lparr>hp_agents = (\<lambda>_. Some [\<lparr>ae_id = Some ''main'', ae_default = True\<rparr>, \<lparr>ae_id = Some ''ops'', ae_default = False\<rparr>]),
     hp_bindings = (\<lambda>_. Some sample_bindings), hp_session = (\<lambda>_. \<lparr>sc_dmScope = Some PerPeer, sc_identityLinks = None\<rparr>)\<rparr>"

definition sample_input :: "id_value \<Rightarrow> (chat_type \<times> id_value) option \<Rightarrow> route_input" where
  "sample_input guild peer = \<lparr>ri_cfg = config_at sample_heap 1 (Some 1) (Some 2) (Some 3), ri_channel = ''Discord'', ri_accountId = None,
     ri_peer = peer, ri_parentPeer = None, ri_guildId = guild, ri_teamId = IdOther, ri_memberRoleIds = None, ri_verbose = False\<rparr>"

definition sample_inputs :: "route_input list" where
  "sample_inputs = [sample_input (IdString ''g1'') (Some (Group, IdString ''c7'')), sample_input IdOther None,
     sample_input (IdString ''g1'') (Some (Group, IdString ''c7''))]"

lemma sample_inputs_ok: "\<forall>i \<in> set sample_inputs. reads_heap sample_heap (ri_cfg i) \<and> cacheable_or_bypassed i"
proof -
  have "reads_heap sample_heap (config_at sample_heap 1 (Some 1) (Some 2) (Some 3))" by (simp add: reads_heap_def config_at_def)
  moreover have "list_all (\<lambda>i. clean_query (query_for i)) sample_inputs" by code_simp
  ultimately show ?thesis by (auto simp: sample_inputs_def sample_input_def cacheable_or_bypassed_def)
qed

theorem route_caches_transparent_witness:
  "map ro_sessionKey (fst (route_all sample_inputs cold_state)) =
     [''agent:ops:discord:group:c7'', ''agent:main:main'', ''agent:ops:discord:group:c7'']"
proof -
  have "map (\<lambda>i. ro_sessionKey (route_for (ri_cfg i) (query_for i) (route_links i))) sample_inputs =
      [''agent:ops:discord:group:c7'', ''agent:main:main'', ''agent:ops:discord:group:c7'']" by code_simp
  with route_caches_transparent [OF sample_inputs_ok] show ?thesis by (simp add: comp_def)
qed

theorem routed_agent_exists_witness:
  "list_all (\<lambda>r. ro_agentId r \<in> set [''main'', ''ops'']) (fst (route_all sample_inputs cold_state))"
proof -
  have "list_all (\<lambda>i. configured_agents (ri_cfg i) = [''main'', ''ops''] \<and>
      normalizeAgentId (Some (resolveDefaultAgentId (ri_cfg i))) = ''main'') sample_inputs" by code_simp
  with routed_agent_exists [OF sample_inputs_ok] show ?thesis
    by (fastforce simp: list_all2_conv_all_nth list_all_length)
qed

text \<open>
  With an empty peer id the key of the cache is the key of a request without a peer, and the answer
  depends on which of the two came first.
\<close>

lemma empty_peer_id_shares_cache_entry:
  "map ro_sessionKey (fst (route_all [sample_input IdOther None, sample_input IdOther (Some (Group, IdString []))] cold_state)) =
     [''agent:main:main'', ''agent:main:main'']"
  "map ro_sessionKey (fst (route_all [sample_input IdOther (Some (Group, IdString []))] cold_state)) =
     [''agent:main:discord:group:unknown'']"
  by code_simp+

end
