(* ===== verification/HeartbeatWake.thy ===== *)
theory HeartbeatWake
  imports JsNumber
begin

text \<open>
  The wake-up of the heartbeat: src/infra/heartbeat-wake.ts and src/infra/heartbeat-reason.ts. The
  variables of the module are a record; every way the event loop can enter the module is an event
  (a request, a handler installed or disposed of, the timer, the end of an awaited handler call)
  and a step relation gives its effect at a time. A run of the timer callback that awaits a
  handler is an element of \<open>ws_runs\<close>: after a restart there may be several.
\<close>

section \<open>Reasons\<close>

datatype reason_kind = RetryReason | IntervalReason | ManualReason | ExecEventReason | WakeReason | CronReason | HookReason | OtherReason

definition trimReason :: "string option \<Rightarrow> string" where
  "trimReason reason = (case reason of Some r \<Rightarrow> trim r | None \<Rightarrow> [])"

definition normalizeHeartbeatWakeReason :: "string option \<Rightarrow> string" where
  "normalizeHeartbeatWakeReason reason = (let trimmed = trimReason reason in
     if length trimmed > 0 then trimmed else ''requested'')"

definition resolveHeartbeatReasonKind :: "string option \<Rightarrow> reason_kind" where
  "resolveHeartbeatReasonKind reason = (let trimmed = trimReason reason in
     if trimmed = ''retry'' then RetryReason
     else if trimmed = ''interval'' then IntervalReason
     else if trimmed = ''manual'' then ManualReason
     else if trimmed = ''exec-event'' then ExecEventReason
     else if trimmed = ''wake'' then WakeReason
     else if starts_with trimmed ''cron:'' then CronReason
     else if starts_with trimmed ''hook:'' then HookReason
     else OtherReason)"

definition isHeartbeatEventDrivenReason :: "string option \<Rightarrow> bool" where
  "isHeartbeatEventDrivenReason reason = (let kind = resolveHeartbeatReasonKind reason in
     kind = ExecEventReason \<or> kind = CronReason \<or> kind = WakeReason \<or> kind = HookReason)"

definition isHeartbeatActionWakeReason :: "string option \<Rightarrow> bool" where
  "isHeartbeatActionWakeReason reason = (let kind = resolveHeartbeatReasonKind reason in
     kind = ManualReason \<or> kind = ExecEventReason \<or> kind = HookReason)"

definition resolveReasonPriority :: "string \<Rightarrow> nat" where
  "resolveReasonPriority reason = (let kind = resolveHeartbeatReasonKind (Some reason) in
     if kind = RetryReason then 0
     else if kind = IntervalReason then 1
     else if isHeartbeatActionWakeReason (Some reason) then 3
     else 2)"

section \<open>State\<close>

datatype wake_result = Ran | Skipped string | Failed string

datatype wake_timer_kind = NormalTimer | RetryTimer

record pending_wake =
  pw_reason :: string
  pw_priority :: nat
  pw_requestedAt :: int
  pw_agentId :: "string option"
  pw_sessionKey :: "string option"

text \<open>\<open>timer\<close>, \<open>timerDueAt\<close> and \<open>timerKind\<close> are set and cleared together; the delay is the closure's.\<close>

record wake_timer =
  wt_due :: rat
  wt_kind :: wake_timer_kind
  wt_delay :: rat

text \<open>A run of the timer callback: \<open>pendingBatch\<close> and the part of it from the awaited call on.\<close>

record wake_run =
  wr_handler :: nat
  wr_delay :: rat
  wr_batch :: "pending_wake list"
  wr_todo :: "pending_wake list"

record wake_call =
  wc_handler :: nat
  wc_reason :: string
  wc_agentId :: "string option"
  wc_sessionKey :: "string option"

text \<open>A handler is known by its identity; \<open>ws_calls\<close> is the trace of the calls of handlers.\<close>

record wake_state =
  ws_handler :: "nat option"
  ws_generation :: nat
  ws_pending :: "(string, pending_wake) js_map"
  ws_scheduled :: bool
  ws_running :: bool
  ws_timer :: "wake_timer option"
  ws_runs :: "wake_run list"
  ws_calls :: "wake_call list"

definition DEFAULT_COALESCE_MS :: js_num where "DEFAULT_COALESCE_MS = js_int 250"
definition DEFAULT_RETRY_MS :: js_num where "DEFAULT_RETRY_MS = js_int 1000"

definition normalizeWakeTarget :: "string option \<Rightarrow> string option" where
  "normalizeWakeTarget value = str_opt (case value of Some v \<Rightarrow> trim v | None \<Rightarrow> [])"

definition getWakeTargetKey :: "string option \<Rightarrow> string option \<Rightarrow> string" where
  "getWakeTargetKey agentId0 sessionKey0 = (let agentId = normalizeWakeTarget agentId0; sessionKey = normalizeWakeTarget sessionKey0 in
     nullish agentId [] @ ''::'' @ nullish sessionKey [])"

section \<open>Operations\<close>

definition queuePendingWakeReason :: "int \<Rightarrow> string option \<Rightarrow> string option \<Rightarrow> string option \<Rightarrow> wake_state \<Rightarrow> wake_state" where
  "queuePendingWakeReason requestedAt reason agentId sessionKey st =
     (let normalizedReason = normalizeHeartbeatWakeReason reason;
          normalizedAgentId = normalizeWakeTarget agentId;
          normalizedSessionKey = normalizeWakeTarget sessionKey;
          wakeTargetKey = getWakeTargetKey normalizedAgentId normalizedSessionKey;
          next = \<lparr>pw_reason = normalizedReason, pw_priority = resolveReasonPriority normalizedReason, pw_requestedAt = requestedAt,
            pw_agentId = normalizedAgentId, pw_sessionKey = normalizedSessionKey\<rparr>;
          stored = st\<lparr>ws_pending := map_set wakeTargetKey next (ws_pending st)\<rparr> in
      case map_get (ws_pending st) wakeTargetKey of None \<Rightarrow> stored
      | Some previous \<Rightarrow>
          if pw_priority next > pw_priority previous then stored
          else if pw_priority next = pw_priority previous \<and> pw_requestedAt next \<ge> pw_requestedAt previous then stored
          else st)"

definition schedule :: "int \<Rightarrow> js_num \<Rightarrow> wake_timer_kind \<Rightarrow> wake_state \<Rightarrow> wake_state" where
  "schedule now coalesceMs kind st =
     (let delay = (case (if is_finite coalesceMs then js_max (js_int 0) coalesceMs else DEFAULT_COALESCE_MS) of Fin d \<Rightarrow> d | _ \<Rightarrow> 0);
          dueAt = of_int now + delay;
          armed = st\<lparr>ws_timer := Some \<lparr>wt_due = dueAt, wt_kind = kind, wt_delay = delay\<rparr>\<rparr> in
      case ws_timer st of None \<Rightarrow> armed
      | Some t \<Rightarrow> if wt_kind t = RetryTimer then st else if wt_due t \<le> dueAt then st else armed)"

definition requeue :: "int \<Rightarrow> pending_wake \<Rightarrow> wake_state \<Rightarrow> wake_state" where
  "requeue now w st = queuePendingWakeReason now (Some (pw_reason w)) (pw_agentId w) (pw_sessionKey w) st"

text \<open>The \<open>finally\<close> block.\<close>

definition finish_run :: "int \<Rightarrow> rat \<Rightarrow> wake_state \<Rightarrow> wake_state" where
  "finish_run now delay st = (let st1 = st\<lparr>ws_running := False\<rparr> in
     if length (ws_pending st1) > 0 \<or> ws_scheduled st1 then schedule now (Fin delay) NormalTimer st1 else st1)"

text \<open>The loop of a run up to its next await: the call of the handler for the next wake, or the end.\<close>

definition continue_run :: "int \<Rightarrow> wake_run \<Rightarrow> wake_state \<Rightarrow> wake_state" where
  "continue_run now r st = (case wr_todo r of [] \<Rightarrow> finish_run now (wr_delay r) st
     | w # rest \<Rightarrow> st\<lparr>ws_runs := ws_runs st @ [r],
         ws_calls := ws_calls st @ [\<lparr>wc_handler = wr_handler r, wc_reason = pw_reason w, wc_agentId = pw_agentId w, wc_sessionKey = pw_sessionKey w\<rparr>]\<rparr>)"

definition timer_fires :: "int \<Rightarrow> wake_timer \<Rightarrow> wake_state \<Rightarrow> wake_state" where
  "timer_fires now t st0 = (let st = st0\<lparr>ws_timer := None, ws_scheduled := False\<rparr> in
     case ws_handler st of None \<Rightarrow> st
     | Some active \<Rightarrow>
         if ws_running st then schedule now (Fin (wt_delay t)) (wt_kind t) (st\<lparr>ws_scheduled := True\<rparr>)
         else let pendingBatch = map snd (ws_pending st) in
           continue_run now \<lparr>wr_handler = active, wr_delay = wt_delay t, wr_batch = pendingBatch, wr_todo = pendingBatch\<rparr>
             (st\<lparr>ws_pending := [], ws_running := True\<rparr>))"

definition without_run :: "nat \<Rightarrow> wake_state \<Rightarrow> wake_state" where
  "without_run i st = st\<lparr>ws_runs := take i (ws_runs st) @ drop (Suc i) (ws_runs st)\<rparr>"

definition handler_returns :: "int \<Rightarrow> nat \<Rightarrow> wake_result \<Rightarrow> wake_state \<Rightarrow> wake_state" where
  "handler_returns now i res st = (let r = ws_runs st ! i;
       st1 = (if res = Skipped ''requests-in-flight''
         then schedule now DEFAULT_RETRY_MS RetryTimer (requeue now (hd (wr_todo r)) st) else st) in
     continue_run now (r\<lparr>wr_todo := tl (wr_todo r)\<rparr>) (without_run i st1))"

definition handler_throws :: "int \<Rightarrow> nat \<Rightarrow> wake_state \<Rightarrow> wake_state" where
  "handler_throws now i st = (let r = ws_runs st ! i;
       st1 = schedule now DEFAULT_RETRY_MS RetryTimer (fold (requeue now) (wr_batch r) st) in
     finish_run now (wr_delay r) (without_run i st1))"

definition setHeartbeatWakeHandler :: "int \<Rightarrow> nat option \<Rightarrow> wake_state \<Rightarrow> wake_state" where
  "setHeartbeatWakeHandler now next st0 = (let st = st0\<lparr>ws_generation := ws_generation st0 + 1, ws_handler := next\<rparr>;
       st1 = (if next \<noteq> None then st\<lparr>ws_timer := None, ws_running := False, ws_scheduled := False\<rparr> else st) in
     if ws_handler st1 \<noteq> None \<and> length (ws_pending st1) > 0 then schedule now DEFAULT_COALESCE_MS NormalTimer st1 else st1)"

text \<open>The disposer that registration number \<open>generation\<close> of the handler \<open>next\<close> returned.\<close>

definition dispose :: "nat \<Rightarrow> nat option \<Rightarrow> wake_state \<Rightarrow> wake_state" where
  "dispose generation next st = (if ws_generation st \<noteq> generation then st
     else if ws_handler st \<noteq> next then st
     else st\<lparr>ws_generation := ws_generation st + 1, ws_handler := None\<rparr>)"

definition requestHeartbeatNow ::
  "int \<Rightarrow> string option \<Rightarrow> js_num option \<Rightarrow> string option \<Rightarrow> string option \<Rightarrow> wake_state \<Rightarrow> wake_state" where
  "requestHeartbeatNow now reason coalesceMs agentId sessionKey st =
     schedule now (nullish coalesceMs DEFAULT_COALESCE_MS) NormalTimer (queuePendingWakeReason now reason agentId sessionKey st)"

definition hasHeartbeatWakeHandler :: "wake_state \<Rightarrow> bool" where
  "hasHeartbeatWakeHandler st = (ws_handler st \<noteq> None)"

definition hasPendingHeartbeatWake :: "wake_state \<Rightarrow> bool" where
  "hasPendingHeartbeatWake st = (length (ws_pending st) > 0 \<or> ws_timer st \<noteq> None \<or> ws_scheduled st)"

section \<open>Steps\<close>

datatype wake_event =
  EvRequest "string option" "js_num option" "string option" "string option"
| EvSetHandler "nat option"
| EvDispose nat "nat option"
| EvTimer
| EvReturn nat wake_result
| EvThrow nat

text \<open>A timer fires at its time or later, a handler ends when it was called.\<close>

inductive wake_step :: "int \<Rightarrow> wake_event \<Rightarrow> wake_state \<Rightarrow> wake_state \<Rightarrow> bool" where
  Request: "wake_step now (EvRequest reason coalesceMs agentId sessionKey) st (requestHeartbeatNow now reason coalesceMs agentId sessionKey st)"
| SetHandler: "wake_step now (EvSetHandler h) st (setHeartbeatWakeHandler now h st)"
| Dispose: "wake_step now (EvDispose g h) st (dispose g h st)"
| Timer: "ws_timer st = Some t \<Longrightarrow> wt_due t \<le> of_int now \<Longrightarrow> wake_step now EvTimer st (timer_fires now t st)"
| Returns: "i < length (ws_runs st) \<Longrightarrow> wake_step now (EvReturn i res) st (handler_returns now i res st)"
| Throws: "i < length (ws_runs st) \<Longrightarrow> wake_step now (EvThrow i) st (handler_throws now i st)"

inductive wake_steps :: "(int \<times> wake_event) list \<Rightarrow> wake_state \<Rightarrow> wake_state \<Rightarrow> bool" where
  Stop: "wake_steps [] st st"
| Step: "wake_step now ev st st1 \<Longrightarrow> wake_steps evs st1 st2 \<Longrightarrow> wake_steps ((now, ev) # evs) st st2"

definition idle_wake :: wake_state where
  "idle_wake = \<lparr>ws_handler = None, ws_generation = 0, ws_pending = [], ws_scheduled = False, ws_running = False, ws_timer = None,
     ws_runs = [], ws_calls = []\<rparr>"

inductive_cases wake_steps_Nil: "wake_steps [] st st'"
inductive_cases wake_steps_Cons: "wake_steps ((now, ev) # evs) st st'"

inductive_simps wake_step_simps [simp]:
  "wake_step now (EvRequest reason coalesceMs agentId sessionKey) st st'"
  "wake_step now (EvSetHandler h) st st'"
  "wake_step now (EvDispose g h) st st'"
  "wake_step now EvTimer st st'"
  "wake_step now (EvReturn i res) st st'"
  "wake_step now (EvThrow i) st st'"

section \<open>Invariants\<close>

definition wake_key :: "pending_wake \<Rightarrow> string" where
  "wake_key w = getWakeTargetKey (pw_agentId w) (pw_sessionKey w)"

text \<open>A wake in normal form is stored unchanged when it is queued again.\<close>

definition keys_ok :: "(string, pending_wake) js_map \<Rightarrow> bool" where
  "keys_ok m \<longleftrightarrow> (\<forall>(k, w) \<in> set m. k = wake_key w)"

definition run_shape :: "wake_run \<Rightarrow> bool" where
  "run_shape r \<longleftrightarrow> wr_todo r \<noteq> [] \<and> set (wr_todo r) \<subseteq> set (wr_batch r)"

definition wake_inv :: "wake_state \<Rightarrow> bool" where
  "wake_inv st \<longleftrightarrow> keys_ok (ws_pending st) \<and> (\<forall>r \<in> set (ws_runs st). run_shape r) \<and> (ws_running st \<longrightarrow> ws_runs st \<noteq> []) \<and>
     (ws_pending st \<noteq> [] \<and> ws_handler st \<noteq> None \<longrightarrow> ws_timer st \<noteq> None \<or> ws_running st)"

lemma target_idem [simp]: "normalizeWakeTarget (normalizeWakeTarget v) = normalizeWakeTarget v"
  by (auto simp: normalizeWakeTarget_def str_opt_def split: option.splits)

lemma key_normal [simp]: "getWakeTargetKey (normalizeWakeTarget a) s = getWakeTargetKey a s"
  "getWakeTargetKey a (normalizeWakeTarget s) = getWakeTargetKey a s"
  by (simp_all add: getWakeTargetKey_def)

lemma queue_pending:
  "ws_pending (queuePendingWakeReason now r a s st) \<noteq> []"
  "set (map fst (ws_pending (queuePendingWakeReason now r a s st))) = insert (getWakeTargetKey a s) (set (map fst (ws_pending st)))"
  "keys_ok (ws_pending st) \<Longrightarrow> keys_ok (ws_pending (queuePendingWakeReason now r a s st))"
  "ws_timer (queuePendingWakeReason now r a s st) = ws_timer st" "ws_runs (queuePendingWakeReason now r a s st) = ws_runs st"
  "ws_running (queuePendingWakeReason now r a s st) = ws_running st" "ws_handler (queuePendingWakeReason now r a s st) = ws_handler st"
  "ws_scheduled (queuePendingWakeReason now r a s st) = ws_scheduled st" "ws_calls (queuePendingWakeReason now r a s st) = ws_calls st"
proof -
  let ?k = "getWakeTargetKey a s"
  have keys: "set (map fst (map_set k v m)) = insert k (set (map fst m))" for k v and m :: "(string, pending_wake) js_map"
    by (induction m) auto
  have ok: "keys_ok (map_set (wake_key v) v m)" if "keys_ok m" for v m
    using that by (induction m) (auto simp: keys_ok_def)
  show "ws_pending (queuePendingWakeReason now r a s st) \<noteq> []"
    by (auto simp: queuePendingWakeReason_def Let_def split: option.splits)
  show "set (map fst (ws_pending (queuePendingWakeReason now r a s st))) = insert ?k (set (map fst (ws_pending st)))"
    using keys by (auto simp: queuePendingWakeReason_def Let_def split: option.splits dest: map_of_SomeD intro: rev_image_eqI)
  let ?w = "\<lparr>pw_reason = normalizeHeartbeatWakeReason r, pw_priority = resolveReasonPriority (normalizeHeartbeatWakeReason r),
    pw_requestedAt = now, pw_agentId = normalizeWakeTarget a, pw_sessionKey = normalizeWakeTarget s\<rparr>"
  show "keys_ok (ws_pending st) \<Longrightarrow> keys_ok (ws_pending (queuePendingWakeReason now r a s st))"
    using ok [of "ws_pending st" ?w] by (auto simp: queuePendingWakeReason_def Let_def wake_key_def split: option.splits)
qed (simp_all add: queuePendingWakeReason_def Let_def split: option.splits)

lemma schedule_fields [simp]:
  "ws_pending (schedule now c k st) = ws_pending st" "ws_runs (schedule now c k st) = ws_runs st"
  "ws_running (schedule now c k st) = ws_running st" "ws_handler (schedule now c k st) = ws_handler st"
  "ws_scheduled (schedule now c k st) = ws_scheduled st" "ws_calls (schedule now c k st) = ws_calls st"
  "ws_timer (schedule now c k st) \<noteq> None"
  by (auto simp: schedule_def Let_def split: option.splits)

lemma schedule_retry: "ws_timer st = Some t \<Longrightarrow> wt_kind t = RetryTimer \<Longrightarrow> schedule now c k st = st"
  by (simp add: schedule_def Let_def)

lemma requeue_fold:
  "set (map fst (ws_pending (fold (requeue now) ws st))) = wake_key ` set ws \<union> set (map fst (ws_pending st))"
  "keys_ok (ws_pending st) \<Longrightarrow> keys_ok (ws_pending (fold (requeue now) ws st))"
  "ws_timer (fold (requeue now) ws st) = ws_timer st" "ws_runs (fold (requeue now) ws st) = ws_runs st"
  "ws_running (fold (requeue now) ws st) = ws_running st" "ws_handler (fold (requeue now) ws st) = ws_handler st"
  by (induction ws arbitrary: st) (auto simp: requeue_def queue_pending wake_key_def simp del: set_map)

lemma finish_run_fields [simp]:
  "ws_pending (finish_run now d st) = ws_pending st" "ws_runs (finish_run now d st) = ws_runs st"
  "ws_running (finish_run now d st) = False" "ws_handler (finish_run now d st) = ws_handler st"
  "ws_calls (finish_run now d st) = ws_calls st"
  "ws_timer st \<noteq> None \<or> ws_pending st \<noteq> [] \<Longrightarrow> ws_timer (finish_run now d st) \<noteq> None"
  by (auto simp: finish_run_def Let_def simp del: not_None_eq)

lemma finish_run_ok:
  "keys_ok (ws_pending st) \<Longrightarrow> \<forall>r \<in> set (ws_runs st). run_shape r \<Longrightarrow> wake_inv (finish_run now d st)"
  by (simp add: wake_inv_def)

lemma continue_run_ok:
  assumes "keys_ok (ws_pending st)" "\<forall>r \<in> set (ws_runs st). run_shape r" "ws_running st" "set (wr_todo r) \<subseteq> set (wr_batch r)"
  shows "wake_inv (continue_run now r st)"
proof (cases "wr_todo r")
  case Nil
  then show ?thesis using finish_run_ok assms by (simp add: continue_run_def)
next
  case (Cons w rest)
  then show ?thesis using assms by (simp add: continue_run_def wake_inv_def run_shape_def)
qed

lemma without_run_shape: "\<forall>r \<in> set (ws_runs st). run_shape r \<Longrightarrow> \<forall>r \<in> set (ws_runs (without_run i st)). run_shape r"
  by (auto simp: without_run_def dest: in_set_takeD in_set_dropD)

lemma without_run_fields [simp]:
  "ws_pending (without_run i st) = ws_pending st" "ws_timer (without_run i st) = ws_timer st"
  "ws_running (without_run i st) = ws_running st" "ws_handler (without_run i st) = ws_handler st"
  by (simp_all add: without_run_def)

text \<open>The end of a run that is not marked as running: its own timer keeps the invariant.\<close>

lemma wake_inv_step:
  assumes inv: "wake_inv st" and step: "wake_step now ev st st'"
  shows "wake_inv st'"
  using step
proof cases
  case (Request reason coalesceMs agentId sessionKey)
  with inv show ?thesis
    by (auto simp: wake_inv_def requestHeartbeatNow_def queue_pending simp del: not_None_eq)
next
  case (SetHandler h)
  with inv show ?thesis
    by (auto simp: wake_inv_def setHeartbeatWakeHandler_def Let_def simp del: not_None_eq)
next
  case (Dispose g h)
  with inv show ?thesis by (auto simp: wake_inv_def dispose_def)
next
  case (Timer t)
  show ?thesis
  proof (cases "ws_handler st = None \<or> ws_running st")
    case True
    with inv Timer show ?thesis by (auto simp: wake_inv_def timer_fires_def Let_def simp del: not_None_eq split: option.splits)
  next
    case False
    then obtain h where h: "ws_handler st = Some h" "\<not> ws_running st" by auto
    let ?batch = "map snd (ws_pending st)"
    let ?st = "st\<lparr>ws_timer := None, ws_scheduled := False, ws_pending := [], ws_running := True\<rparr>"
    have "wake_inv (continue_run now \<lparr>wr_handler = h, wr_delay = wt_delay t, wr_batch = ?batch, wr_todo = ?batch\<rparr> ?st)"
      using inv by (intro continue_run_ok) (simp_all add: wake_inv_def keys_ok_def)
    with Timer h show ?thesis by (simp add: timer_fires_def Let_def)
  qed
next
  case (Returns i res)
  let ?r = "ws_runs st ! i"
  have r: "run_shape ?r" using inv Returns by (simp add: wake_inv_def)
  let ?st1 = "if res = Skipped ''requests-in-flight'' then schedule now DEFAULT_RETRY_MS RetryTimer (requeue now (hd (wr_todo ?r)) st) else st"
  have s1: "keys_ok (ws_pending ?st1)" "\<forall>r \<in> set (ws_runs ?st1). run_shape r" "ws_running ?st1 = ws_running st" "ws_handler ?st1 = ws_handler st"
    "ws_pending ?st1 \<noteq> [] \<and> ws_handler st \<noteq> None \<longrightarrow> ws_timer ?st1 \<noteq> None \<or> ws_running st"
    using inv by (auto simp: wake_inv_def requeue_def queue_pending simp del: not_None_eq)
  let ?r' = "?r\<lparr>wr_todo := tl (wr_todo ?r)\<rparr>"
  have sub: "set (wr_todo ?r') \<subseteq> set (wr_batch ?r')" using r by (auto simp: run_shape_def dest: list.set_sel(2))
  have st': "st' = continue_run now ?r' (without_run i ?st1)" using Returns by (simp add: handler_returns_def Let_def)
  show ?thesis
  proof (cases "wr_todo ?r'")
    case Nil
    then show ?thesis using finish_run_ok [of "without_run i ?st1"] s1 without_run_shape [OF s1(2)] by (simp add: st' continue_run_def)
  next
    case (Cons w rest)
    then have "run_shape ?r'" using sub by (simp add: run_shape_def)
    with Cons s1 without_run_shape [OF s1(2)] show ?thesis
      by (simp add: st' continue_run_def wake_inv_def del: not_None_eq)
  qed
next
  case (Throws i)
  let ?st1 = "schedule now DEFAULT_RETRY_MS RetryTimer (fold (requeue now) (wr_batch (ws_runs st ! i)) st)"
  have "keys_ok (ws_pending ?st1)" "\<forall>r \<in> set (ws_runs ?st1). run_shape r"
    using inv by (simp_all add: wake_inv_def requeue_fold)
  with Throws show ?thesis using finish_run_ok [of "without_run i ?st1"] without_run_shape [of ?st1 i]
    by (simp add: handler_throws_def Let_def)
qed

lemma wake_inv_steps: "wake_steps evs st st' \<Longrightarrow> wake_inv st \<Longrightarrow> wake_inv st'"
  by (induction rule: wake_steps.induct) (auto intro: wake_inv_step)

lemma idle_wake_inv: "wake_inv idle_wake"
  by (simp add: wake_inv_def idle_wake_def keys_ok_def)

section \<open>No wake is lost and none is stranded\<close>

text \<open>The targets with a wake that waits, in the map or in a batch not yet gone through.\<close>

definition held :: "wake_state \<Rightarrow> string set" where
  "held st = set (map fst (ws_pending st)) \<union> (\<Union>r \<in> set (ws_runs st). wake_key ` set (wr_todo r))"

fun answered :: "wake_state \<Rightarrow> wake_event \<Rightarrow> string option" where
  "answered st (EvReturn i res) = (if res = Skipped ''requests-in-flight'' then None else Some (wake_key (hd (wr_todo (ws_runs st ! i)))))"
| "answered st ev = None"

lemma held_schedule [simp]: "held (schedule now c k st) = held st"
  by (simp add: held_def)

lemma held_finish [simp]: "held (finish_run now d st) = held st"
  by (simp add: held_def)

lemma held_continue: "held (continue_run now r st) = held st \<union> wake_key ` set (wr_todo r)"
  by (cases "wr_todo r") (auto simp: continue_run_def held_def)

lemma held_without_run: "i < length (ws_runs st) \<Longrightarrow> held st \<subseteq> held (without_run i st) \<union> wake_key ` set (wr_todo (ws_runs st ! i))"
proof -
  assume "i < length (ws_runs st)"
  then have "set (ws_runs st) = insert (ws_runs st ! i) (set (take i (ws_runs st) @ drop (Suc i) (ws_runs st)))"
    by (subst id_take_nth_drop [of i "ws_runs st"]) auto
  then show ?thesis by (auto simp: held_def without_run_def)
qed

lemma held_queue: "held (queuePendingWakeReason now r a s st) = insert (getWakeTargetKey a s) (held st)"
  using queue_pending(2) [of now r a s st] by (auto simp: held_def queue_pending simp del: set_map)

lemma held_requeue: "held (requeue now w st) = insert (wake_key w) (held st)"
  by (simp add: requeue_def held_queue wake_key_def)

lemma held_requeue_fold: "held (fold (requeue now) ws st) = wake_key ` set ws \<union> held st"
  by (induction ws arbitrary: st) (auto simp: held_requeue)

lemma held_combine: "A \<subseteq> B \<Longrightarrow> x \<in> P \<Longrightarrow> P \<subseteq> W \<Longrightarrow> B \<subseteq> W \<union> insert x T \<Longrightarrow> A \<subseteq> W \<union> T"
  by blast

lemma held_combine_all: "A \<subseteq> B \<Longrightarrow> T \<subseteq> P \<Longrightarrow> P \<subseteq> W \<Longrightarrow> B \<subseteq> W \<union> T \<Longrightarrow> A \<subseteq> W"
  by blast

lemma held_return:
  assumes inv: "wake_inv st" and i: "i < length (ws_runs st)"
  shows "held st \<subseteq> held (handler_returns now i res st) \<union> {k. answered st (EvReturn i res) = Some k}"
proof -
  let ?r = "ws_runs st ! i"
  have "run_shape ?r" using inv i by (simp add: wake_inv_def)
  then have todo: "set (wr_todo ?r) = insert (hd (wr_todo ?r)) (set (tl (wr_todo ?r)))"
    unfolding run_shape_def by (metis list.set(2) list.collapse)
  show ?thesis
  proof (cases "res = Skipped ''requests-in-flight''")
    case True
    let ?st1 = "schedule now DEFAULT_RETRY_MS RetryTimer (requeue now (hd (wr_todo ?r)) st)"
    have runs: "ws_runs ?st1 = ws_runs st" by (simp add: requeue_def queue_pending)
    have grow: "held st \<subseteq> held ?st1" by (auto simp: held_requeue)
    have new: "wake_key (hd (wr_todo ?r)) \<in> set (map fst (ws_pending ?st1))"
      unfolding schedule_fields requeue_def queue_pending(2) wake_key_def by simp
    have pend: "set (map fst (ws_pending ?st1)) \<subseteq> held (without_run i ?st1)" by (auto simp: held_def)
    have split: "held ?st1 \<subseteq> held (without_run i ?st1) \<union> insert (wake_key (hd (wr_todo ?r))) (wake_key ` set (tl (wr_todo ?r)))"
      using held_without_run [of i ?st1] i unfolding runs todo by simp
    have "held (handler_returns now i res st) = held (without_run i ?st1) \<union> wake_key ` set (tl (wr_todo ?r))"
      using True by (simp add: handler_returns_def Let_def held_continue)
    with held_combine [OF grow new pend split] show ?thesis by (simp add: le_supI1)
  next
    case False
    with held_without_run [OF i] todo show ?thesis by (auto simp: handler_returns_def Let_def held_continue)
  qed
qed

lemma held_throw:
  assumes inv: "wake_inv st" and i: "i < length (ws_runs st)"
  shows "held st \<subseteq> held (handler_throws now i st)"
proof -
  let ?r = "ws_runs st ! i" and ?st1 = "fold (requeue now) (wr_batch (ws_runs st ! i)) st"
  have "run_shape ?r" using inv i by (simp add: wake_inv_def)
  then have todo: "wake_key ` set (wr_todo ?r) \<subseteq> set (map fst (ws_pending ?st1))"
    unfolding requeue_fold by (auto simp: run_shape_def)
  have grow: "held st \<subseteq> held ?st1" by (simp add: held_requeue_fold)
  have split: "held ?st1 \<subseteq> held (without_run i ?st1) \<union> wake_key ` set (wr_todo ?r)"
    using held_without_run [of i ?st1] i by (simp add: requeue_fold)
  have pend: "set (map fst (ws_pending ?st1)) \<subseteq> held (without_run i ?st1)" by (auto simp: held_def)
  have "held (handler_throws now i st) = held (without_run i (schedule now DEFAULT_RETRY_MS RetryTimer ?st1))"
    by (simp add: handler_throws_def Let_def)
  also have "\<dots> = held (without_run i ?st1)" by (simp add: held_def without_run_def)
  finally show ?thesis using held_combine_all [OF grow todo pend split] by simp
qed

lemma held_timer: "keys_ok (ws_pending st) \<Longrightarrow> held st \<subseteq> held (timer_fires now t st)"
proof -
  assume keys: "keys_ok (ws_pending st)"
  have "map wake_key (map snd (ws_pending st)) = map fst (ws_pending st)" using keys by (auto simp: keys_ok_def)
  then have "wake_key ` set (map snd (ws_pending st)) = set (map fst (ws_pending st))" by (metis list.set_map)
  then show ?thesis
    by (auto simp: timer_fires_def Let_def held_continue simp del: set_map split: option.splits) (auto simp: held_def)
qed

lemma held_step:
  assumes inv: "wake_inv st" and step: "wake_step now ev st st'"
  shows "held st \<subseteq> held st' \<union> {k. answered st ev = Some k}"
  using step
proof cases
  case (Request reason coalesceMs a s)
  then show ?thesis by (auto simp: requestHeartbeatNow_def held_queue)
next
  case (SetHandler h)
  then show ?thesis by (auto simp: setHeartbeatWakeHandler_def Let_def held_def)
next
  case (Dispose g h)
  then show ?thesis by (auto simp: dispose_def held_def)
next
  case (Timer t)
  then show ?thesis using held_timer [of st now t] inv by (auto simp: wake_inv_def)
next
  case (Returns i res)
  then show ?thesis using held_return [OF inv] by simp
next
  case (Throws i)
  then show ?thesis using held_throw [OF inv] by auto
qed

text \<open>
  No wake-up is lost. In every reachable state, whatever happens next, a target with a
  waiting wake-up keeps one, unless a handler just answered it with something else than
  "requests-in-flight"; a request leaves its target with a waiting wake-up. This includes throwing
  handlers, handlers replaced or disposed of in the middle of a batch, and interrupted runs.
\<close>

theorem no_wake_lost:
  assumes "wake_steps evs idle_wake st" and step: "wake_step now ev st st'"
  shows "held st \<subseteq> held st' \<union> {k. answered st ev = Some k} \<and>
    (\<forall>reason coalesceMs a s. ev = EvRequest reason coalesceMs a s \<longrightarrow> getWakeTargetKey a s \<in> held st')"
  using held_step [OF wake_inv_steps [OF assms(1) idle_wake_inv] step] step
  by (auto simp: requestHeartbeatNow_def held_queue)

text \<open>
  A run that was in progress when a new handler was installed may never come back. Those runs are
  the first ones of \<open>ws_runs\<close>; \<open>interrupted_left n evs\<close> counts those of \<open>n\<close> that have not come back
  in the course of the events: one that returns or throws counts as alive from then on.
\<close>

fun interrupted_left :: "nat \<Rightarrow> (int \<times> wake_event) list \<Rightarrow> nat" where
  "interrupted_left n [] = n"
| "interrupted_left n ((now, EvReturn i res) # evs) = interrupted_left (if i < n then n - 1 else n) evs"
| "interrupted_left n ((now, EvThrow i) # evs) = interrupted_left (if i < n then n - 1 else n) evs"
| "interrupted_left n ((now, ev) # evs) = interrupted_left n evs"

text \<open>
  The module left to itself: timers fire and the handlers that are not interrupted answer, with
  whatever result \<open>f\<close> they like, as time goes on.
\<close>

inductive handlers_answer :: "(wake_state \<Rightarrow> nat \<Rightarrow> wake_result) \<Rightarrow> nat \<Rightarrow> int \<Rightarrow> wake_state \<Rightarrow> wake_state \<Rightarrow> bool"
  for f n where
  Rest: "handlers_answer f n now st st"
| TimerGoes: "now \<le> now1 \<Longrightarrow> wake_step now1 EvTimer st st1 \<Longrightarrow> handlers_answer f n now1 st1 st2 \<Longrightarrow>
    handlers_answer f n now st st2"
| Answers: "now \<le> now1 \<Longrightarrow> n \<le> i \<Longrightarrow> wake_step now1 (EvReturn i (f st i)) st st1 \<Longrightarrow> handlers_answer f n now1 st1 st2 \<Longrightarrow>
    handlers_answer f n now st st2"

text \<open>Between two states the handler \<open>h\<close> was called for the target \<open>k\<close>.\<close>

definition called_since :: "wake_state \<Rightarrow> nat \<Rightarrow> string \<Rightarrow> wake_state \<Rightarrow> bool" where
  "called_since st h k st' \<longleftrightarrow> (\<exists>c \<in> set (drop (length (ws_calls st)) (ws_calls st')).
     wc_handler c = h \<and> getWakeTargetKey (wc_agentId c) (wc_sessionKey c) = k)"

lemma called_since_earlier:
  "called_since st1 h k st' \<Longrightarrow> length (ws_calls st) \<le> length (ws_calls st1) \<Longrightarrow> called_since st h k st'"
  unfolding called_since_def by (meson set_drop_subset_set_drop subsetD)

lemma requeue_calls [simp]: "ws_calls (requeue now w st) = ws_calls st" "ws_runs (requeue now w st) = ws_runs st"
  "ws_running (requeue now w st) = ws_running st" "ws_handler (requeue now w st) = ws_handler st"
  by (simp_all add: requeue_def queue_pending)

lemma without_run_calls [simp]: "ws_calls (without_run i st) = ws_calls st"
  by (simp add: without_run_def)

lemma continue_run_fields:
  "ws_pending (continue_run now r st) = ws_pending st" "ws_handler (continue_run now r st) = ws_handler st"
  "ws_running (continue_run now r st) \<longleftrightarrow> ws_running st \<and> wr_todo r \<noteq> []"
  "ws_runs (continue_run now r st) = ws_runs st @ (if wr_todo r = [] then [] else [r])"
  "length (ws_calls st) \<le> length (ws_calls (continue_run now r st))"
  by (cases "wr_todo r"; simp add: continue_run_def)+

text \<open>A run whose handler calls are answered calls its handler for every wake that is left.\<close>

lemma continue_calls:
  assumes "w \<in> set (wr_todo r)" "n \<le> length (ws_runs st)"
  shows "\<exists>st'. handlers_answer f n now (continue_run now r st) st' \<and> called_since st (wr_handler r) (wake_key w) st'"
  using assms
proof (induction "wr_todo r" arbitrary: r st)
  case (Cons w0 rest)
  let ?st1 = "continue_run now r st" and ?i = "length (ws_runs st)"
  have todo: "wr_todo r = w0 # rest" using Cons.hyps(2) by simp
  have runs: "ws_runs ?st1 = ws_runs st @ [r]" and
    calls: "ws_calls ?st1 = ws_calls st @ [\<lparr>wc_handler = wr_handler r, wc_reason = pw_reason w0, wc_agentId = pw_agentId w0, wc_sessionKey = pw_sessionKey w0\<rparr>]"
    by (simp_all add: continue_run_def todo)
  show ?case
  proof (cases "w = w0")
    case True
    then have "called_since st (wr_handler r) (wake_key w) ?st1" by (simp add: called_since_def calls wake_key_def)
    then show ?thesis by (blast intro: handlers_answer.Rest)
  next
    case False
    let ?r = "r\<lparr>wr_todo := rest\<rparr>" and ?res = "f ?st1 ?i"
    let ?st2 = "without_run ?i (if ?res = Skipped ''requests-in-flight'' then schedule now DEFAULT_RETRY_MS RetryTimer (requeue now w0 ?st1) else ?st1)"
    have ret: "handler_returns now ?i ?res ?st1 = continue_run now ?r ?st2"
      by (simp add: handler_returns_def Let_def runs todo)
    have "ws_runs ?st2 = ws_runs st" "length (ws_calls st) \<le> length (ws_calls ?st2)"
      by (simp_all add: without_run_def runs calls)
    with Cons.hyps(1) [of ?r ?st2] Cons.prems False todo obtain st' where
      st': "handlers_answer f n now (continue_run now ?r ?st2) st'" "called_since ?st2 (wr_handler r) (wake_key w) st'"
      by auto
    have "handlers_answer f n now ?st1 st'"
      by (rule handlers_answer.Answers [of now now n ?i]) (use Cons.prems st' runs ret in auto)
    moreover have "called_since st (wr_handler r) (wake_key w) st'"
      by (rule called_since_earlier [OF st'(2)]) fact
    ultimately show ?thesis by blast
  qed
qed simp

lemma idle_calls:
  assumes inv: "wake_inv st" "ws_handler st = Some h" "k \<in> set (map fst (ws_pending st))"
    and idle: "ws_running st = False" "n \<le> length (ws_runs st)"
  shows "\<exists>st'. handlers_answer f n now st st' \<and> called_since st h k st'"
proof -
  have "ws_pending st \<noteq> []" using inv(3) by auto
  with inv idle obtain t where t: "ws_timer st = Some t" by (auto simp: wake_inv_def)
  from inv obtain w where w: "(k, w) \<in> set (ws_pending st)" "k = wake_key w" by (auto simp: wake_inv_def keys_ok_def)
  let ?now = "max now \<lceil>wt_due t\<rceil>"
  let ?batch = "map snd (ws_pending st)"
  let ?r = "\<lparr>wr_handler = h, wr_delay = wt_delay t, wr_batch = ?batch, wr_todo = ?batch\<rparr>"
  let ?st = "st\<lparr>ws_timer := None, ws_scheduled := False, ws_pending := [], ws_running := True\<rparr>"
  have fires: "timer_fires ?now t st = continue_run ?now ?r ?st"
    using inv idle by (simp add: timer_fires_def Let_def)
  have "w \<in> set (wr_todo ?r)" using w by force
  with continue_calls [of w ?r n ?st f ?now] idle w obtain st' where
    st': "handlers_answer f n ?now (continue_run ?now ?r ?st) st'" "called_since ?st h k st'" by auto
  have "wt_due t \<le> of_int ?now" by linarith
  then have "handlers_answer f n now st st'"
    by (intro handlers_answer.TimerGoes [of now ?now]) (use t fires st' in auto)
  with st'(2) show ?thesis by (auto simp: called_since_def)
qed

text \<open>A run in progress comes to its end, and its end leaves the timer armed.\<close>

lemma running_calls:
  assumes "wake_inv st" "ws_handler st = Some h" "k \<in> set (map fst (ws_pending st))"
    and "ws_running st \<longrightarrow> n < length (ws_runs st)" "n \<le> length (ws_runs st)"
  shows "\<exists>st'. handlers_answer f n now st st' \<and> called_since st h k st'"
  using assms
proof (induction "length (wr_todo (last (ws_runs st)))" arbitrary: st rule: less_induct)
  case less
  show ?case
  proof (cases "ws_running st")
    case False
    with idle_calls less.prems show ?thesis by simp
  next
    case True
    let ?i = "length (ws_runs st) - 1"
    let ?r = "ws_runs st ! ?i" and ?res = "f st ?i"
    let ?st1 = "if ?res = Skipped ''requests-in-flight'' then schedule now DEFAULT_RETRY_MS RetryTimer (requeue now (hd (wr_todo ?r)) st) else st"
    have "ws_runs st \<noteq> []" using True less.prems(4) by auto
    then have i: "n \<le> ?i" "?i < length (ws_runs st)" "last (ws_runs st) = ?r"
      using True less.prems(4) by (auto simp: last_conv_nth)
    let ?st2 = "handler_returns now ?i ?res st"
    have step: "wake_step now (EvReturn ?i ?res) st ?st2" using i by simp
    have inv: "wake_inv ?st2" by (rule wake_inv_step [OF less.prems(1) step])
    have ret: "?st2 = continue_run now (?r\<lparr>wr_todo := tl (wr_todo ?r)\<rparr>) (without_run ?i ?st1)"
      by (simp add: handler_returns_def Let_def)
    have shape: "wr_todo ?r \<noteq> []" using less.prems(1) i by (auto simp: wake_inv_def run_shape_def)
    have s1: "k \<in> set (map fst (ws_pending ?st1))" "ws_handler ?st1 = Some h" "ws_runs (without_run ?i ?st1) = take ?i (ws_runs st)"
      "ws_calls ?st1 = ws_calls st"
      using less.prems i by (auto simp: requeue_def queue_pending without_run_def simp del: set_map)
    have s2: "k \<in> set (map fst (ws_pending ?st2))" "ws_handler ?st2 = Some h" "length (ws_calls st) \<le> length (ws_calls ?st2)"
      "ws_runs ?st2 = take ?i (ws_runs st) @ (if tl (wr_todo ?r) = [] then [] else [?r\<lparr>wr_todo := tl (wr_todo ?r)\<rparr>])"
      "ws_running ?st2 \<longrightarrow> tl (wr_todo ?r) \<noteq> []"
      using s1 continue_run_fields(5) [of "without_run ?i ?st1" now "?r\<lparr>wr_todo := tl (wr_todo ?r)\<rparr>"]
      unfolding ret continue_run_fields by simp_all
    have "length (wr_todo (last (ws_runs ?st2))) < length (wr_todo (last (ws_runs st)))" if "ws_running ?st2"
      using that s2 i(3) shape by simp
    moreover have "ws_running ?st2 \<longrightarrow> n < length (ws_runs ?st2)" "n \<le> length (ws_runs ?st2)"
      unfolding s2(4) using s2(5) i by auto
    ultimately have "\<exists>st'. handlers_answer f n now ?st2 st' \<and> called_since ?st2 h k st'"
      using less.hyps [of ?st2] idle_calls [OF inv s2(2,1)] inv s2(1,2) by blast
    then obtain st' where st': "handlers_answer f n now ?st2 st'" "called_since ?st2 h k st'" by blast
    with called_since_earlier [OF st'(2)] handlers_answer.Answers [OF order.refl i(1) step st'(1)] s2(3) show ?thesis by blast
  qed
qed

text \<open>After a handler is installed no interrupted run keeps the module marked as running.\<close>

definition alive :: "nat \<Rightarrow> wake_state \<Rightarrow> bool" where
  "alive n st \<longleftrightarrow> n \<le> length (ws_runs st) \<and> (ws_running st \<longrightarrow> n < length (ws_runs st))"

lemma alive_continue:
  assumes "n \<le> length (ws_runs st)"
  shows "alive n (continue_run now r st)"
  using assms by (cases "wr_todo r") (simp_all add: alive_def continue_run_def)

lemma alive_without:
  "i < length (ws_runs st) \<Longrightarrow> n \<le> length (ws_runs st) \<Longrightarrow>
     (if i < n then n - 1 else n) \<le> length (ws_runs (without_run i st))"
  by (auto simp: without_run_def)

lemma alive_step:
  assumes step: "wake_step now ev st st'" and alive: "alive n st" and ev: "\<forall>h. ev \<noteq> EvSetHandler (Some h)"
  shows "alive (interrupted_left n [(now, ev)]) st'"
  using step
proof cases
  case (Request reason coalesceMs a s)
  with alive show ?thesis by (simp add: alive_def requestHeartbeatNow_def queue_pending)
next
  case (SetHandler h)
  with alive ev show ?thesis by (auto simp: alive_def setHeartbeatWakeHandler_def Let_def)
next
  case (Dispose g h)
  with alive show ?thesis by (simp add: alive_def dispose_def)
next
  case (Timer t)
  show ?thesis
  proof (cases "ws_handler st = None \<or> ws_running st")
    case True
    with alive Timer show ?thesis by (auto simp: alive_def timer_fires_def Let_def split: option.splits)
  next
    case False
    then obtain h where "ws_handler st = Some h" "\<not> ws_running st" by auto
    with Timer alive alive_continue show ?thesis by (simp add: timer_fires_def Let_def alive_def)
  qed
next
  case (Returns i res)
  let ?st1 = "if res = Skipped ''requests-in-flight'' then schedule now DEFAULT_RETRY_MS RetryTimer (requeue now (hd (wr_todo (ws_runs st ! i))) st) else st"
  have "(if i < n then n - 1 else n) \<le> length (ws_runs (without_run i ?st1))"
    using alive Returns by (intro alive_without) (simp_all add: alive_def)
  then show ?thesis using Returns alive_continue by (simp add: handler_returns_def Let_def)
next
  case (Throws i)
  let ?st1 = "schedule now DEFAULT_RETRY_MS RetryTimer (fold (requeue now) (wr_batch (ws_runs st ! i)) st)"
  have "(if i < n then n - 1 else n) \<le> length (ws_runs (without_run i ?st1))"
    using alive Throws by (intro alive_without) (simp_all add: alive_def requeue_fold)
  then show ?thesis using Throws by (simp add: handler_throws_def Let_def alive_def)
qed

lemma interrupted_left_Cons: "interrupted_left n (x # evs) = interrupted_left (interrupted_left n [x]) evs"
proof (cases x)
  case (Pair now ev)
  then show ?thesis by (cases ev) simp_all
qed

lemma alive_steps:
  "wake_steps evs st st' \<Longrightarrow> alive n st \<Longrightarrow> \<forall>(now, ev) \<in> set evs. \<forall>h. ev \<noteq> EvSetHandler (Some h) \<Longrightarrow>
   alive (interrupted_left n evs) st'"
proof (induction arbitrary: n rule: wake_steps.induct)
  case (Step now ev st st1 evs st2)
  then have "alive (interrupted_left n [(now, ev)]) st1" by (intro alive_step) auto
  with Step show ?case by (subst interrupted_left_Cons) auto
qed simp

text \<open>
  C38: No wake-up is lost or stranded. Take any history and a handler \<open>h\<close> installed after it; at
  that moment \<open>length (ws_runs st0)\<close> runs of the timer callback may be in the middle of a handler
  call that never comes back (an in-process restart), and they need not. Then whatever happens
  (requests, timers, handlers that return or throw, disposal), as long as \<open>h\<close> is the handler and
  no other was installed, (1) the next step, whatever it is, leaves every waiting target a
  waiting wake-up, unless a handler just answered it with something else than
  "requests-in-flight"; and (2) for every target \<open>k\<close> with a pending wake-up, every answer \<open>f\<close> that
  handlers may give and every time \<open>now\<close>, the module left to itself gets to a call of \<open>h\<close> for \<open>k\<close>,
  by timers firing and by answers of handlers that were not interrupted. In (2) the handlers answer:
  one that throws has its whole batch queued again behind a retry pause.
\<close>

theorem wake_never_stranded:
  assumes history: "wake_steps evs0 idle_wake st0"
    and since: "wake_steps evs (setHeartbeatWakeHandler now0 (Some h) st0) st"
    and only: "\<forall>(time, ev) \<in> set evs. \<forall>other. ev \<noteq> EvSetHandler (Some other)" "ws_handler st = Some h"
  shows "(\<forall>time ev st'. wake_step time ev st st' \<longrightarrow> held st \<subseteq> held st' \<union> {k. answered st ev = Some k}) \<and>
    (\<forall>k \<in> set (map fst (ws_pending st)). \<forall>f now. \<exists>st'.
       handlers_answer f (interrupted_left (length (ws_runs st0)) evs) now st st' \<and> called_since st h k st')"
proof -
  let ?st1 = "setHeartbeatWakeHandler now0 (Some h) st0"
  have "wake_inv ?st1"
    by (rule wake_inv_step [OF wake_inv_steps [OF history idle_wake_inv], of now0 "EvSetHandler (Some h)"]) simp
  then have inv: "wake_inv st" by (rule wake_inv_steps [OF since])
  have "alive (length (ws_runs st0)) ?st1" by (simp add: alive_def setHeartbeatWakeHandler_def Let_def)
  from alive_steps [OF since this only(1)] have "alive (interrupted_left (length (ws_runs st0)) evs) st" .
  then show ?thesis
    using held_step [OF inv] running_calls [OF inv only(2)] by (simp add: alive_def del: set_map)
qed


lemma retry_pause_step:
  assumes t: "ws_timer st = Some t" "wt_kind t = RetryTimer" "of_int now < wt_due t" and ev: "\<forall>h. ev \<noteq> EvSetHandler (Some h)"
    and step: "wake_step now ev st st'"
  shows "ws_timer st' = Some t \<and>
    (\<forall>r \<in> set (ws_runs st'). \<exists>r0 \<in> set (ws_runs st). wr_batch r = wr_batch r0 \<and> suffix (wr_todo r) (wr_todo r0))"
proof -
  have keep: "ws_timer s = Some t \<Longrightarrow> schedule now c k s = s" for c k s using t(2) by (simp add: schedule_retry)
  have fin: "ws_timer s = Some t \<Longrightarrow> ws_timer (finish_run now d s) = Some t" for d s
    by (simp add: finish_run_def Let_def keep)
  have wo: "set (ws_runs (without_run i s)) \<subseteq> set (ws_runs s)" for i s
    by (auto simp: without_run_def dest: in_set_takeD in_set_dropD)
  show ?thesis using step
  proof cases
    case (Request reason coalesceMs a s)
    then show ?thesis using t by (auto simp: requestHeartbeatNow_def keep queue_pending)
  next
    case (SetHandler h)
    then show ?thesis using t ev by (auto simp: setHeartbeatWakeHandler_def Let_def)
  next
    case (Dispose g h)
    then show ?thesis using t by (auto simp: dispose_def)
  next
    case (Timer t')
    then show ?thesis using t by auto
  next
    case (Returns i res)
    let ?r = "ws_runs st ! i"
    have "ws_timer (requeue now w st) = Some t" for w by (simp add: requeue_def queue_pending t)
    then have st': "st' = continue_run now (?r\<lparr>wr_todo := tl (wr_todo ?r)\<rparr>)
        (without_run i (if res = Skipped ''requests-in-flight'' then requeue now (hd (wr_todo ?r)) st else st))"
      using Returns by (simp add: handler_returns_def Let_def keep)
    have "\<exists>r0 \<in> set (ws_runs st). wr_batch ?r = wr_batch r0 \<and> suffix (tl (wr_todo ?r)) (wr_todo r0)"
      using Returns by (intro bexI [of _ ?r]) (auto simp: suffix_tl)
    then show ?thesis using wo [of i st] wo [of i "requeue now (hd (wr_todo ?r)) st"] t fin
      by (cases "tl (wr_todo ?r)") (auto simp: st' continue_run_def requeue_def queue_pending)
  next
    case (Throws i)
    have "ws_timer (fold (requeue now) ws st) = Some t" for ws by (simp add: requeue_fold t)
    then show ?thesis using Throws fin wo [of i "fold (requeue now) (wr_batch (ws_runs st ! i)) st"]
      by (auto simp: handler_throws_def Let_def keep requeue_fold)
  qed
qed

text \<open>
  The pause before a retry is a hard minimum. Once a retry is scheduled, then until its time,
  whatever is requested, answered or thrown, the timer stays as it is and no batch is started: the
  runs in progress are those of before, further along. Only installing a handler ends the pause.
\<close>

theorem retry_pause_is_kept:
  assumes "wake_steps evs st st'" and "ws_timer st = Some t" "wt_kind t = RetryTimer"
    and "\<forall>(now, ev) \<in> set evs. of_int now < wt_due t \<and> (\<forall>h. ev \<noteq> EvSetHandler (Some h))"
  shows "ws_timer st' = Some t \<and>
    (\<forall>r \<in> set (ws_runs st'). \<exists>r0 \<in> set (ws_runs st). wr_batch r = wr_batch r0 \<and> suffix (wr_todo r) (wr_todo r0))"
  using assms
proof (induction rule: wake_steps.induct)
  case (Step now ev st st1 evs st2)
  from Step.prems have "of_int now < wt_due t" "\<forall>h. ev \<noteq> EvSetHandler (Some h)" by auto
  from retry_pause_step [OF Step.prems(1,2) this Step.hyps(1)] Step.IH Step.prems(2,3) show ?case
    by (fastforce intro: suffix_order.trans)
qed auto

section \<open>Concrete runs\<close>

definition sample_wake :: wake_state where
  "sample_wake = requestHeartbeatNow 0 (Some ''hook:x'') None None None (setHeartbeatWakeHandler 0 (Some 1) idle_wake)"

definition sample_timer :: wake_timer where
  "sample_timer = \<lparr>wt_due = 250, wt_kind = NormalTimer, wt_delay = 250\<rparr>"

definition sample_busy :: wake_state where
  "sample_busy = handler_returns 251 0 (Skipped ''requests-in-flight'') (timer_fires 250 sample_timer sample_wake)"

definition sample_retry :: wake_timer where
  "sample_retry = \<lparr>wt_due = 1251, wt_kind = RetryTimer, wt_delay = 1000\<rparr>"

lemma sample_wake_facts:
  "ws_timer sample_wake = Some sample_timer" "map fst (ws_pending sample_wake) = [''::'']" "ws_handler sample_wake = Some 1"
  "ws_timer sample_busy = Some sample_retry" "ws_runs sample_busy = []" "length (ws_calls sample_busy) = 1"
  by code_simp+

lemma sample_wake_steps:
  "wake_steps [(0, EvSetHandler (Some 1)), (0, EvRequest (Some ''hook:x'') None None None)] idle_wake sample_wake"
  by (auto simp: sample_wake_def intro!: wake_steps.intros)

theorem no_wake_lost_witness: "''::'' \<in> held (timer_fires 250 sample_timer sample_wake)"
proof -
  have "wake_step 250 EvTimer sample_wake (timer_fires 250 sample_timer sample_wake)"
    using sample_wake_facts(1) by (simp add: sample_timer_def)
  from no_wake_lost [OF sample_wake_steps this] have "held sample_wake \<subseteq> held (timer_fires 250 sample_timer sample_wake)" by simp
  moreover have "''::'' \<in> held sample_wake" unfolding held_def sample_wake_facts(2) by simp
  ultimately show ?thesis by blast
qed

text \<open>A handler call is in progress and never comes back; handler 2 is installed and a wake-up requested.\<close>

definition sample_interrupted :: wake_state where
  "sample_interrupted = timer_fires 250 sample_timer sample_wake"

definition sample_restarted :: wake_state where
  "sample_restarted = requestHeartbeatNow 301 (Some ''hook:y'') None None None (setHeartbeatWakeHandler 300 (Some 2) sample_interrupted)"

lemma sample_restarted_facts:
  "length (ws_runs sample_interrupted) = 1" "map fst (ws_pending sample_restarted) = [''::'']"
  "ws_handler sample_restarted = Some 2" "length (ws_calls sample_restarted) = 1"
  by code_simp+

lemma sample_interrupted_steps:
  "wake_steps [(0, EvSetHandler (Some 1)), (0, EvRequest (Some ''hook:x'') None None None), (250, EvTimer)] idle_wake sample_interrupted"
proof -
  have "wake_step 250 EvTimer sample_wake sample_interrupted"
    using sample_wake_facts(1) by (simp add: sample_timer_def sample_interrupted_def)
  then show ?thesis
    by (auto simp del: wake_step_simps(4) simp: sample_wake_def intro!: wake_steps.intros wake_step.intros(1,2))
qed

theorem wake_never_stranded_witness:
  "\<exists>st'. handlers_answer (\<lambda>st i. Ran) 1 400 sample_restarted st' \<and> called_since sample_restarted 2 ''::'' st'"
proof -
  have since: "wake_steps [(301, EvRequest (Some ''hook:y'') None None None)] (setHeartbeatWakeHandler 300 (Some 2) sample_interrupted) sample_restarted"
    by (auto simp: sample_restarted_def intro!: wake_steps.intros)
  from wake_never_stranded [OF sample_interrupted_steps since _ sample_restarted_facts(3)]
  show ?thesis unfolding sample_restarted_facts by simp
qed

theorem retry_pause_is_kept_witness:
  "ws_timer (requestHeartbeatNow 300 (Some ''manual'') (Some (js_int 0)) None None sample_busy) = Some sample_retry \<and>
   ws_runs (requestHeartbeatNow 300 (Some ''manual'') (Some (js_int 0)) None None sample_busy) = []"
proof -
  have "wake_steps [(300, EvRequest (Some ''manual'') (Some (js_int 0)) None None)] sample_busy
      (requestHeartbeatNow 300 (Some ''manual'') (Some (js_int 0)) None None sample_busy)"
    by (auto intro!: wake_steps.intros)
  from retry_pause_is_kept [OF this sample_wake_facts(4)] sample_wake_facts(5) show ?thesis
    by (simp add: sample_retry_def)
qed

end
