(* ===== verification/NodeRegistry.thy ===== *)
theory NodeRegistry
  imports JsNumber "HOL-Library.Multiset"
begin

text \<open>
  The registry of connected nodes and of the commands sent to them: src/gateway/node-registry.ts.
  The promise of an invocation is known by its request id; \<open>rg_settled\<close> is the trace of what became of
  the promises, in order. A request id is an argument, as the UUID it is; whether the socket took
  the request is one too.
\<close>

section \<open>State\<close>

text \<open>The connect message of a node, the part of it the registry reads; None for a value of another type.\<close>

record node_connect =
  nc_deviceId :: "string option"
  nc_clientId :: string
  nc_displayName :: "string option"
  nc_platform :: "string option"
  nc_version :: "string option"
  nc_coreVersion :: "string option"
  nc_uiVersion :: "string option"
  nc_deviceFamily :: "string option"
  nc_modelIdentifier :: "string option"
  nc_caps :: "string list option"
  nc_commands :: "string list option"
  nc_permissions :: "(string, bool) js_map option"
  nc_pathEnv :: "string option"

record node_session =
  ns_nodeId :: string
  ns_connId :: string
  ns_displayName :: "string option"
  ns_platform :: "string option"
  ns_version :: "string option"
  ns_coreVersion :: "string option"
  ns_uiVersion :: "string option"
  ns_deviceFamily :: "string option"
  ns_modelIdentifier :: "string option"
  ns_remoteIp :: "string option"
  ns_caps :: "string list"
  ns_commands :: "string list"
  ns_permissions :: "(string, bool) js_map option"
  ns_pathEnv :: "string option"
  ns_connectedAtMs :: int

record pending_invoke =
  pi_nodeId :: string
  pi_command :: string
  pi_timeoutMs :: js_num

text \<open>A result: \<open>ok\<close>, the payload as text, and the error as its code and message.\<close>

record invoke_result =
  ir_ok :: bool
  ir_payloadJSON :: "string option"
  ir_error :: "(string option \<times> string option) option"

datatype invoke_outcome = Resolved invoke_result | RejectedBy string

record registry =
  rg_byId :: "(string, node_session) js_map"
  rg_byConn :: "(string, string) js_map"
  rg_pending :: "(string, pending_invoke) js_map"
  rg_settled :: "(string \<times> invoke_outcome) list"

definition empty_registry :: registry where
  "empty_registry = \<lparr>rg_byId = [], rg_byConn = [], rg_pending = [], rg_settled = []\<rparr>"

section \<open>Operations\<close>

definition node_id_of :: "node_connect \<Rightarrow> string" where
  "node_id_of c = nullish (nc_deviceId c) (nc_clientId c)"

definition register_node :: "int \<Rightarrow> string \<Rightarrow> node_connect \<Rightarrow> string option \<Rightarrow> registry \<Rightarrow> node_session \<times> registry" where
  "register_node now connId c remoteIp rg =
     (let nodeId = node_id_of c;
          session = \<lparr>ns_nodeId = nodeId, ns_connId = connId, ns_displayName = nc_displayName c, ns_platform = nc_platform c,
            ns_version = nc_version c, ns_coreVersion = nc_coreVersion c, ns_uiVersion = nc_uiVersion c,
            ns_deviceFamily = nc_deviceFamily c, ns_modelIdentifier = nc_modelIdentifier c, ns_remoteIp = remoteIp,
            ns_caps = nullish (nc_caps c) [], ns_commands = nullish (nc_commands c) [], ns_permissions = nc_permissions c,
            ns_pathEnv = nc_pathEnv c, ns_connectedAtMs = now\<rparr> in
      (session, rg\<lparr>rg_byId := map_set nodeId session (rg_byId rg), rg_byConn := map_set connId nodeId (rg_byConn rg)\<rparr>))"

definition settle_invoke :: "string \<Rightarrow> invoke_outcome \<Rightarrow> registry \<Rightarrow> registry" where
  "settle_invoke i r rg = rg\<lparr>rg_settled := rg_settled rg @ [(i, r)]\<rparr>"

definition drop_pending :: "string \<Rightarrow> registry \<Rightarrow> registry" where
  "drop_pending i rg = rg\<lparr>rg_pending := map_delete i (rg_pending rg)\<rparr>"

text \<open>One turn of the loop over \<open>pendingInvokes.entries()\<close>.\<close>

definition reject_of_node :: "string \<Rightarrow> string \<times> pending_invoke \<Rightarrow> registry \<Rightarrow> registry" where
  "reject_of_node nodeId entry rg = (let (i, pending) = entry in
     if pi_nodeId pending \<noteq> nodeId then rg
     else drop_pending i (settle_invoke i (RejectedBy (''node disconnected ('' @ pi_command pending @ '')'')) rg))"

definition unregister_node :: "string \<Rightarrow> registry \<Rightarrow> string option \<times> registry" where
  "unregister_node connId rg = (let nodeId = nullish (map_get (rg_byConn rg) connId) [] in
     if nodeId = [] then (None, rg)
     else let rg1 = rg\<lparr>rg_byConn := map_delete connId (rg_byConn rg), rg_byId := map_delete nodeId (rg_byId rg)\<rparr> in
       (Some nodeId, fold (reject_of_node nodeId) (rg_pending rg1) rg1))"

definition listConnected :: "registry \<Rightarrow> node_session list" where
  "listConnected rg = map snd (rg_byId rg)"

definition get_node :: "registry \<Rightarrow> string \<Rightarrow> node_session option" where
  "get_node rg nodeId = map_get (rg_byId rg) nodeId"

definition failed_invoke :: "string \<Rightarrow> string \<Rightarrow> invoke_result" where
  "failed_invoke code message = \<lparr>ir_ok = False, ir_payloadJSON = None, ir_error = Some (Some code, Some message)\<rparr>"

text \<open>\<open>invoke\<close>: the answer at once, or None when the promise waits under its request id.\<close>

definition invoke_node :: "string \<Rightarrow> bool \<Rightarrow> string \<Rightarrow> string \<Rightarrow> js_num option \<Rightarrow> registry \<Rightarrow> invoke_result option \<times> registry" where
  "invoke_node requestId sent nodeId command timeoutMs rg = (case map_get (rg_byId rg) nodeId of
       None \<Rightarrow> (Some (failed_invoke ''NOT_CONNECTED'' ''node not connected''), rg)
     | Some node \<Rightarrow>
         if \<not> sent then (Some (failed_invoke ''UNAVAILABLE'' ''failed to send invoke to node''), rg)
         else (None, rg\<lparr>rg_pending := map_set requestId
            \<lparr>pi_nodeId = nodeId, pi_command = command, pi_timeoutMs = nullish timeoutMs (js_int 30000)\<rparr> (rg_pending rg)\<rparr>))"

definition invoke_times_out :: "string \<Rightarrow> registry \<Rightarrow> registry" where
  "invoke_times_out requestId rg =
     settle_invoke requestId (Resolved (failed_invoke ''TIMEOUT'' ''node invoke timed out'')) (drop_pending requestId rg)"

definition handleInvokeResult :: "string \<Rightarrow> string \<Rightarrow> invoke_result \<Rightarrow> registry \<Rightarrow> bool \<times> registry" where
  "handleInvokeResult i nodeId res rg = (case map_get (rg_pending rg) i of
       None \<Rightarrow> (False, rg)
     | Some pending \<Rightarrow> if pi_nodeId pending \<noteq> nodeId then (False, rg)
         else (True, settle_invoke i (Resolved res) (drop_pending i rg)))"

section \<open>Runs\<close>

datatype registry_event =
  Register int string node_connect "string option"
| Unregister string
| Invoke string bool string string "js_num option"
| TimesOut string
| Result string string invoke_result

text \<open>A timer fires only while its invocation is pending: everything that settles the promise clears it.\<close>

fun registry_step :: "registry_event \<Rightarrow> registry \<Rightarrow> registry" where
  "registry_step (Register now connId c ip) rg = snd (register_node now connId c ip rg)"
| "registry_step (Unregister connId) rg = snd (unregister_node connId rg)"
| "registry_step (Invoke i sent nodeId command t) rg = snd (invoke_node i sent nodeId command t rg)"
| "registry_step (TimesOut i) rg = (if map_get (rg_pending rg) i = None then rg else invoke_times_out i rg)"
| "registry_step (Result i nodeId res) rg = snd (handleInvokeResult i nodeId res rg)"

definition registry_run :: "registry_event list \<Rightarrow> registry \<Rightarrow> registry" where
  "registry_run evs rg = fold registry_step evs rg"

text \<open>The request ids whose promise waits after \<open>invoke\<close>, in order.\<close>

fun issued :: "registry_event list \<Rightarrow> registry \<Rightarrow> string list" where
  "issued [] rg = []"
| "issued (ev # evs) rg = (case ev of
     Invoke i sent nodeId command t \<Rightarrow> (if fst (invoke_node i sent nodeId command t rg) = None then [i] else [])
   | _ \<Rightarrow> []) @ issued evs (registry_step ev rg)"

section \<open>Every invocation ends once\<close>

definition pending_ids :: "registry \<Rightarrow> string multiset" where
  "pending_ids rg = mset (map fst (rg_pending rg))"

definition settled_ids :: "registry \<Rightarrow> string multiset" where
  "settled_ids rg = mset (map fst (rg_settled rg))"

definition registry_ok :: "registry \<Rightarrow> bool" where
  "registry_ok rg \<longleftrightarrow> wf_map (rg_pending rg) \<and> (\<forall>(i, p) \<in> set (rg_pending rg). map_get (rg_byId rg) (pi_nodeId p) \<noteq> None)"

lemma mset_keys_delete:
  "wf_map m \<Longrightarrow> k \<in> fst ` set m \<Longrightarrow> add_mset k (mset (map fst (map_delete k m))) = mset (map fst m)"
proof (induction m)
  case (Cons kv m)
  then show ?case by (cases kv) (auto simp: wf_map_def delete_id)
qed simp

lemma mset_keys_set: "k \<notin> fst ` set m \<Longrightarrow> mset (map fst (map_set k v m)) = add_mset k (mset (map fst m))"
  by (induction m) auto

lemma map_set_fresh: "k \<notin> fst ` set m \<Longrightarrow> map_set k v m = m @ [(k, v)]"
  by (induction m) auto

lemma map_get_keys: "map_get m k \<noteq> None \<longleftrightarrow> k \<in> fst ` set m"
  by (simp add: map_of_eq_None_iff)

lemma settle_drop:
  assumes "wf_map (rg_pending rg)" "map_get (rg_pending rg) i \<noteq> None"
  shows "pending_ids (drop_pending i rg) + settled_ids (settle_invoke i r rg) = pending_ids rg + settled_ids rg"
  using mset_keys_delete [OF assms(1), of i] assms(2) [unfolded map_get_keys]
  by (simp add: pending_ids_def settled_ids_def drop_pending_def settle_invoke_def)

lemma reject_fold:
  assumes "wf_map (rg_pending rg)" "distinct (map fst es)" "set es \<subseteq> set (rg_pending rg)"
  shows "pending_ids (fold (reject_of_node n) es rg) + settled_ids (fold (reject_of_node n) es rg) = pending_ids rg + settled_ids rg \<and>
    rg_pending (fold (reject_of_node n) es rg) = filter (\<lambda>(i, p). \<not> (pi_nodeId p = n \<and> i \<in> fst ` set es)) (rg_pending rg) \<and>
    rg_byId (fold (reject_of_node n) es rg) = rg_byId rg \<and> rg_byConn (fold (reject_of_node n) es rg) = rg_byConn rg"
  using assms
proof (induction es arbitrary: rg)
  case (Cons e es)
  obtain i p where e: "e = (i, p)" by (cases e)
  let ?rg = "reject_of_node n e rg"
  show ?case
  proof (cases "pi_nodeId p = n")
    case False
    have "p' = p" if "(i, p') \<in> set (rg_pending rg)" for p'
      using that Cons.prems e by (auto simp: wf_map_def eq_key_imp_eq_value)
    then have "filter (\<lambda>(j, p). \<not> (pi_nodeId p = n \<and> j \<in> fst ` set (e # es))) (rg_pending rg) =
        filter (\<lambda>(j, p). \<not> (pi_nodeId p = n \<and> j \<in> fst ` set es)) (rg_pending rg)"
      using False by (intro filter_cong) (auto simp: e)
    with Cons.IH [of rg] Cons.prems False show ?thesis by (simp add: e reject_of_node_def)
  next
    case True
    let ?out = "RejectedBy (''node disconnected ('' @ pi_command p @ '')'')"
    have rg: "?rg = drop_pending i (settle_invoke i ?out rg)" using True by (simp add: e reject_of_node_def)
    have del: "map_delete i m = filter (\<lambda>(j, p). j \<noteq> i) m" for m :: "(string, pending_invoke) js_map"
      by (auto simp: AList.delete_eq split_def intro!: filter_cong)
    have get: "map_get (rg_pending rg) i \<noteq> None" unfolding map_get_keys using Cons.prems e by force
    have count: "pending_ids ?rg + settled_ids ?rg = pending_ids rg + settled_ids rg"
      using settle_drop [OF Cons.prems(1) get, of ?out]
      by (simp add: rg pending_ids_def settled_ids_def drop_pending_def settle_invoke_def)
    have pend: "rg_pending ?rg = filter (\<lambda>(j, p). j \<noteq> i) (rg_pending rg)"
      by (simp add: rg drop_pending_def settle_invoke_def del)
    have "wf_map (rg_pending ?rg)" "set es \<subseteq> set (rg_pending ?rg)"
      unfolding pend using Cons.prems e by (simp, force)
    note IH = Cons.IH [OF this(1) _ this(2)]
    have only: "p' = p" if "(i, p') \<in> set (rg_pending rg)" for p'
      using that Cons.prems e by (auto simp: wf_map_def eq_key_imp_eq_value)
    have "filter (\<lambda>(j, p). \<not> (pi_nodeId p = n \<and> j \<in> fst ` set es)) (rg_pending ?rg) =
        filter (\<lambda>(j, p). \<not> (pi_nodeId p = n \<and> j \<in> fst ` set (e # es))) (rg_pending rg)"
      unfolding pend filter_filter using only True by (intro filter_cong) (auto simp: e)
    moreover have "rg_byId ?rg = rg_byId rg \<and> rg_byConn ?rg = rg_byConn rg" by (simp add: rg drop_pending_def settle_invoke_def)
    ultimately show ?thesis using IH Cons.prems(2) count by simp
  qed
qed (simp add: case_prod_unfold)

lemma reject_all:
  fixes n
  assumes "wf_map (rg_pending rg)"
  defines "rg' \<equiv> fold (reject_of_node n) (rg_pending rg) rg"
  shows "pending_ids rg' + settled_ids rg' = pending_ids rg + settled_ids rg" "rg_byId rg' = rg_byId rg" "rg_byConn rg' = rg_byConn rg"
    "rg_pending rg' = filter (\<lambda>(i, p). pi_nodeId p \<noteq> n) (rg_pending rg)"
proof -
  have "filter (\<lambda>(i, p). \<not> (pi_nodeId p = n \<and> i \<in> fst ` set (rg_pending rg))) (rg_pending rg) = filter (\<lambda>(i, p). pi_nodeId p \<noteq> n) (rg_pending rg)"
    by (intro filter_cong) force+
  with reject_fold [OF assms(1) _ subset_refl, of n] assms(1)
  show "pending_ids rg' + settled_ids rg' = pending_ids rg + settled_ids rg" "rg_byId rg' = rg_byId rg" "rg_byConn rg' = rg_byConn rg"
    "rg_pending rg' = filter (\<lambda>(i, p). pi_nodeId p \<noteq> n) (rg_pending rg)"
    by (simp_all add: rg'_def wf_map_def)
qed

lemma unregister_result:
  assumes "wf_map (rg_pending rg)" and n: "map_get (rg_byConn rg) connId = Some n" "n \<noteq> []"
  shows "pending_ids (snd (unregister_node connId rg)) + settled_ids (snd (unregister_node connId rg)) = pending_ids rg + settled_ids rg"
    and "rg_byId (snd (unregister_node connId rg)) = map_delete n (rg_byId rg)"
    and "rg_byConn (snd (unregister_node connId rg)) = map_delete connId (rg_byConn rg)"
    and "rg_pending (snd (unregister_node connId rg)) = filter (\<lambda>(i, p). pi_nodeId p \<noteq> n) (rg_pending rg)"
  using reject_all [of "rg\<lparr>rg_byConn := map_delete connId (rg_byConn rg), rg_byId := map_delete n (rg_byId rg)\<rparr>" n] assms
  by (simp_all add: unregister_node_def Let_def pending_ids_def settled_ids_def)

lemma unregister_nothing: "nullish (map_get (rg_byConn rg) connId) [] = [] \<Longrightarrow> snd (unregister_node connId rg) = rg"
  by (simp add: unregister_node_def)

lemma registry_step_ok:
  assumes ok: "registry_ok rg" and fresh: "set (issued [ev] rg) \<inter> fst ` set (rg_pending rg) = {}"
  shows "registry_ok (registry_step ev rg) \<and>
    pending_ids (registry_step ev rg) + settled_ids (registry_step ev rg) = pending_ids rg + settled_ids rg + mset (issued [ev] rg)"
proof (cases ev)
  case (Register now connId c ip)
  with ok show ?thesis by (auto simp: register_node_def Let_def registry_ok_def pending_ids_def settled_ids_def split: if_splits)
next
  case (Unregister connId)
  show ?thesis
  proof (cases "nullish (map_get (rg_byConn rg) connId) [] = []")
    case True
    with Unregister ok show ?thesis by (simp add: unregister_nothing)
  next
    case False
    then obtain n where n: "map_get (rg_byConn rg) connId = Some n" "n \<noteq> []" by (auto simp: nullish_def split: option.splits)
    with ok Unregister unregister_result [OF _ n] show ?thesis
      by (auto simp: registry_ok_def)
  qed
next
  case (Invoke i sent n command t)
  show ?thesis
  proof (cases "map_get (rg_byId rg) n = None \<or> \<not> sent")
    case True
    with Invoke ok show ?thesis by (auto simp: invoke_node_def split: option.splits)
  next
    case False
    then obtain s where s: "map_get (rg_byId rg) n = Some s" "sent" by auto
    have fresh': "i \<notin> fst ` set (rg_pending rg)" using fresh by (simp add: Invoke invoke_node_def s)
    have set: "set (map_set i v m) = insert (i, v) (set m)" if "i \<notin> fst ` set m" for v and m :: "(string, pending_invoke) js_map"
      using that by (induction m) auto
    show ?thesis using ok s fresh' mset_keys_set [OF fresh'] set [OF fresh']
      by (auto simp: Invoke invoke_node_def registry_ok_def pending_ids_def settled_ids_def)
  qed
next
  case (TimesOut i)
  show ?thesis
  proof (cases "map_get (rg_pending rg) i = None")
    case False
    from settle_drop [OF _ this, of "Resolved (failed_invoke ''TIMEOUT'' ''node invoke timed out'')"] ok False show ?thesis
      by (auto simp: TimesOut registry_ok_def invoke_times_out_def settle_invoke_def drop_pending_def pending_ids_def settled_ids_def
          AList.delete_eq)
  qed (use ok TimesOut in simp)
next
  case (Result i n res)
  show ?thesis
  proof (cases "\<exists>p. map_get (rg_pending rg) i = Some p \<and> pi_nodeId p = n")
    case True
    then have "map_get (rg_pending rg) i \<noteq> None" by auto
    from settle_drop [OF _ this, of "Resolved res"] ok True show ?thesis
      by (auto simp: Result handleInvokeResult_def registry_ok_def settle_invoke_def drop_pending_def pending_ids_def settled_ids_def
          AList.delete_eq)
  next
    case False
    with ok show ?thesis by (auto simp: Result handleInvokeResult_def split: option.splits)
  qed
qed

lemma issued_Cons: "issued (ev # evs) rg = issued [ev] rg @ issued evs (registry_step ev rg)"
  by simp

lemma registry_run_ok:
  assumes "registry_ok rg" "\<forall>x. count (pending_ids rg + settled_ids rg + mset (issued evs rg)) x \<le> 1"
  shows "registry_ok (registry_run evs rg) \<and>
    pending_ids (registry_run evs rg) + settled_ids (registry_run evs rg) = pending_ids rg + settled_ids rg + mset (issued evs rg)"
  using assms
proof (induction evs arbitrary: rg)
  case (Cons ev evs)
  have "x \<notin> fst ` set (rg_pending rg)" if x: "x \<in> set (issued [ev] rg)" for x
  proof
    assume "x \<in> fst ` set (rg_pending rg)"
    then have "1 \<le> count (pending_ids rg) x" "1 \<le> count (mset (issued [ev] rg)) x"
      using x unfolding pending_ids_def by (metis One_nat_def Suc_leI count_greater_zero_iff list.set_map set_mset_mset)+
    moreover from Cons.prems(2) [rule_format, of x] have "count (pending_ids rg) x + count (settled_ids rg) x +
        (count (mset (issued [ev] rg)) x + count (mset (issued evs (registry_step ev rg))) x) \<le> 1"
      unfolding issued_Cons [of ev evs rg] mset_append count_union .
    ultimately show False by linarith
  qed
  then have "set (issued [ev] rg) \<inter> fst ` set (rg_pending rg) = {}" by blast
  from registry_step_ok [OF Cons.prems(1) this] Cons.IH [of "registry_step ev rg"] Cons.prems(2)
  show ?case unfolding issued_Cons [of ev evs rg] registry_run_def by (simp add: ac_simps)
qed (simp add: registry_run_def)

text \<open>
  C39: Every invocation ends exactly once. Take any sequence of connections, disconnections,
  invocations, answers and timeouts, with request ids that are not used twice. Then the promises
  that were handed out are exactly those that still wait and those that were settled, each counted
  once; and a promise waits only while its node is connected, so a disconnection leaves none behind.
\<close>

theorem invocations_end_once:
  assumes "distinct (issued evs empty_registry)"
  shows "mset (issued evs empty_registry) = pending_ids (registry_run evs empty_registry) + settled_ids (registry_run evs empty_registry) \<and>
    distinct (map fst (rg_settled (registry_run evs empty_registry))) \<and>
    list_all (\<lambda>(i, p). get_node (registry_run evs empty_registry) (pi_nodeId p) \<noteq> None) (rg_pending (registry_run evs empty_registry))"
proof -
  have ok: "registry_ok empty_registry" by (simp add: registry_ok_def empty_registry_def)
  have e: "pending_ids empty_registry + settled_ids empty_registry = {#}" by (simp add: pending_ids_def settled_ids_def empty_registry_def)
  have "count (mset (issued evs empty_registry)) x \<le> 1" for x using assms by (simp add: distinct_count_atmost_1)
  then have "\<forall>x. count (pending_ids empty_registry + settled_ids empty_registry + mset (issued evs empty_registry)) x \<le> 1"
    unfolding e by simp
  from registry_run_ok [OF ok this] have ok': "registry_ok (registry_run evs empty_registry)"
    and split: "pending_ids (registry_run evs empty_registry) + settled_ids (registry_run evs empty_registry) = mset (issued evs empty_registry)"
    unfolding e by simp_all
  have "distinct (map fst (rg_settled (registry_run evs empty_registry)))"
  proof -
    have "count (settled_ids (registry_run evs empty_registry)) x \<le> 1" for x
      using arg_cong [OF split, of "\<lambda>m. count m x"] assms by (simp add: distinct_count_atmost_1 split: if_splits)
    then show ?thesis unfolding settled_ids_def distinct_count_atmost_1
      by (metis One_nat_def count_eq_zero_iff le_Suc_eq le_zero_eq set_mset_mset)
  qed
  with ok' split show ?thesis by (auto simp: registry_ok_def get_node_def list_all_iff)
qed

text \<open>A node that reconnects before its old connection is closed is forgotten when that one closes.\<close>

lemma stale_close_forgets_node:
  assumes "node_id_of a = n" "node_id_of b = n" "n \<noteq> []" "c1 \<noteq> c2"
  shows "get_node (registry_run [Register t1 c1 a ip1, Register t2 c2 b ip2] rg) n \<noteq> None"
    and "get_node (registry_run [Register t1 c1 a ip1, Register t2 c2 b ip2, Unregister c1] rg) n = None"
proof -
  let ?rg = "registry_run [Register t1 c1 a ip1, Register t2 c2 b ip2] rg"
  show "get_node ?rg n \<noteq> None" using assms by (simp add: registry_run_def register_node_def get_node_def Let_def)
  have "map_get (rg_byConn ?rg) c1 = Some n" using assms by (simp add: registry_run_def register_node_def Let_def)
  moreover have "rg_byId (fold (reject_of_node n) es r) = rg_byId r" for es r
    by (induction es arbitrary: r) (auto simp: reject_of_node_def drop_pending_def settle_invoke_def)
  moreover have "registry_run [Register t1 c1 a ip1, Register t2 c2 b ip2, Unregister c1] rg = snd (unregister_node c1 ?rg)"
    by (simp add: registry_run_def)
  ultimately show "get_node (registry_run [Register t1 c1 a ip1, Register t2 c2 b ip2, Unregister c1] rg) n = None"
    using assms(3) by (simp add: unregister_node_def get_node_def)
qed

text \<open>When connections of a node do not overlap, the registry has exactly the open ones.\<close>

fun no_overlap :: "registry_event list \<Rightarrow> registry \<Rightarrow> bool" where
  "no_overlap [] rg = True"
| "no_overlap (ev # evs) rg = ((case ev of
     Register now connId c ip \<Rightarrow> node_id_of c \<noteq> [] \<and> connId \<notin> set (map fst (rg_byConn rg)) \<and> node_id_of c \<notin> set (map snd (rg_byConn rg))
   | _ \<Rightarrow> True) \<and> no_overlap evs (registry_step ev rg))"

definition conns_match :: "registry \<Rightarrow> bool" where
  "conns_match rg \<longleftrightarrow> wf_map (rg_byConn rg) \<and> wf_map (rg_pending rg) \<and> distinct (map snd (rg_byConn rg)) \<and> [] \<notin> set (map snd (rg_byConn rg)) \<and>
     (\<forall>n c. (\<exists>s. map_get (rg_byId rg) n = Some s \<and> ns_connId s = c) \<longleftrightarrow> map_get (rg_byConn rg) c = Some n)"

lemma conns_match_step:
  assumes ok: "conns_match rg" and new: "no_overlap [ev] rg"
  shows "conns_match (registry_step ev rg)"
proof (cases ev)
  case (Register now connId c ip)
  let ?n = "node_id_of c" and ?m = "rg_byConn rg"
  have fresh: "connId \<notin> set (map fst ?m)" "?n \<notin> set (map snd ?m)" "?n \<noteq> []" using new Register by simp_all
  have upd: "map_set connId ?n ?m = ?m @ [(connId, ?n)]" using fresh(1) by (simp add: map_set_fresh)
  have none: "map_get ?m k \<noteq> Some ?n" for k using fresh(2) by (force dest: map_of_SomeD)
  have get: "map_get ?m connId = None" using fresh(1) by (simp add: map_of_eq_None_iff)
  have snd: "distinct (map snd (map_set connId ?n ?m))" "[] \<notin> set (map snd (map_set connId ?n ?m))"
    using ok fresh by (auto simp: upd conns_match_def)
  show ?thesis
    using ok snd none get
    by (auto simp: Register register_node_def Let_def conns_match_def)
next
  case (Unregister connId)
  show ?thesis
  proof (cases "nullish (map_get (rg_byConn rg) connId) [] = []")
    case True
    with ok Unregister show ?thesis by (simp add: unregister_nothing)
  next
    case False
    then obtain n where n: "map_get (rg_byConn rg) connId = Some n" "n \<noteq> []" by (auto simp: nullish_def split: option.splits)
    have inj: "map_get (rg_byConn rg) k = Some n \<longleftrightarrow> k = connId" for k
      using ok n(1) by (auto simp: conns_match_def wf_map_def dest!: map_of_SomeD) (metis distinct_map inj_on_contraD snd_conv prod.inject)
    have sub: "set (map snd (map_delete connId (rg_byConn rg))) \<subseteq> set (map snd (rg_byConn rg))"
      "distinct (map snd (map_delete connId (rg_byConn rg)))"
      using ok by (auto simp: conns_match_def AList.delete_eq distinct_map_filter)
    have uniq: "map_get (rg_byConn rg) connId = Some n' \<longleftrightarrow> n' = n" for n' using n(1) by auto
    have wf: "wf_map (rg_pending rg)" using ok by (simp add: conns_match_def)
    show ?thesis
      using ok sub inj uniq unregister_result(2-4) [OF wf n]
      by (auto simp: Unregister conns_match_def)
  qed
next
  case (Invoke i sent n command t)
  with ok show ?thesis by (auto simp: invoke_node_def conns_match_def split: option.splits)
next
  case (TimesOut i)
  with ok show ?thesis by (auto simp: invoke_times_out_def settle_invoke_def drop_pending_def conns_match_def)
next
  case (Result i n res)
  with ok show ?thesis by (auto simp: handleInvokeResult_def settle_invoke_def drop_pending_def conns_match_def split: option.splits)
qed

text \<open>
  The registry has exactly the live nodes. If no connection is opened under the id of a node
  that is still connected, then at every moment a node is found exactly when one of the open
  connections is its own, and the session found is the session of that connection.
\<close>

theorem registry_has_live_nodes:
  assumes "no_overlap evs empty_registry"
  shows "(\<exists>s. get_node (registry_run evs empty_registry) n = Some s \<and> ns_connId s = c) =
    (map_get (rg_byConn (registry_run evs empty_registry)) c = Some n)"
proof -
  have "conns_match rg \<Longrightarrow> no_overlap es rg \<Longrightarrow> conns_match (registry_run es rg)" for es rg
  proof (induction es arbitrary: rg)
    case (Cons e es)
    with conns_match_step [of rg e] show ?case by (simp add: registry_run_def)
  qed (simp add: registry_run_def)
  moreover have "conns_match empty_registry" by (simp add: conns_match_def empty_registry_def)
  ultimately show ?thesis using assms by (simp add: conns_match_def get_node_def)
qed

definition sample_connect :: "string \<Rightarrow> node_connect" where
  "sample_connect n = \<lparr>nc_deviceId = Some n, nc_clientId = ''cli'', nc_displayName = None, nc_platform = None, nc_version = None,
     nc_coreVersion = None, nc_uiVersion = None, nc_deviceFamily = None, nc_modelIdentifier = None, nc_caps = None,
     nc_commands = Some [''system.run''], nc_permissions = None, nc_pathEnv = None\<rparr>"

definition sample_registry_events :: "registry_event list" where
  "sample_registry_events = [Register 0 ''c1'' (sample_connect ''n1'') None, Invoke ''r1'' True ''n1'' ''system.run'' None,
     Invoke ''r2'' True ''n1'' ''system.run'' None, Result ''r1'' ''n2'' (failed_invoke ''X'' ''wrong node''),
     Result ''r1'' ''n1'' (failed_invoke ''E'' ''own answer''), Unregister ''c1'', Register 1 ''c2'' (sample_connect ''n1'') None]"

theorem invocations_end_once_witness:
  "pending_ids (registry_run sample_registry_events empty_registry) + settled_ids (registry_run sample_registry_events empty_registry) =
     mset [''r1'', ''r2'']"
proof -
  have i: "issued sample_registry_events empty_registry = [''r1'', ''r2'']" by code_simp
  have "distinct (issued sample_registry_events empty_registry)" unfolding i by simp
  from invocations_end_once [OF this] show ?thesis unfolding i by simp
qed

theorem registry_has_live_nodes_witness:
  "\<exists>s. get_node (registry_run sample_registry_events empty_registry) ''n1'' = Some s \<and> ns_connId s = ''c2''"
proof -
  have o: "no_overlap sample_registry_events empty_registry" by code_simp
  have "map_get (rg_byConn (registry_run sample_registry_events empty_registry)) ''c2'' = Some ''n1''" by code_simp
  then show ?thesis unfolding registry_has_live_nodes [OF o] .
qed

end
