(* ===== verification/FollowupQueue.thy ===== *)
theory FollowupQueue
  imports ChannelIds JsNumber "HOL-Library.Multiset"
begin

text \<open>
  Messages that arrive while an agent is busy: src/utils/queue-helpers.ts and
  src/auto-reply/reply/queue (state, enqueue, drain, normalize, settings). A queue is an object with
  an identity, as a drain keeps working on its queue after the map has another one for the key; a
  drain is a process that is stopped at one of its awaits. Messages have identities, their numbers.
  The ellipsis that ends a shortened text is a parameter, as it is not a Latin-1 character.
\<close>

section \<open>Settings\<close>

datatype queue_mode = Steer | Followup | Collect | SteerBacklog | Interrupt | QueueMode

datatype drop_policy = DropOld | DropNew | DropSummarize

record queue_settings =
  se_mode :: queue_mode
  se_debounceMs :: "js_num option"
  se_cap :: "js_num option"
  se_dropPolicy :: "drop_policy option"

definition normalizeQueueMode :: "string option \<Rightarrow> queue_mode option" where
  "normalizeQueueMode raw = (case raw of None \<Rightarrow> None
     | Some r \<Rightarrow> if r = [] then None
         else let cleaned = to_lower (trim r) in
           if cleaned = ''queue'' \<or> cleaned = ''queued'' then Some Steer
           else if cleaned = ''interrupt'' \<or> cleaned = ''interrupts'' \<or> cleaned = ''abort'' then Some Interrupt
           else if cleaned = ''steer'' \<or> cleaned = ''steering'' then Some Steer
           else if cleaned = ''followup'' \<or> cleaned = ''follow-ups'' \<or> cleaned = ''followups'' then Some Followup
           else if cleaned = ''collect'' \<or> cleaned = ''coalesce'' then Some Collect
           else if cleaned = ''steer+backlog'' \<or> cleaned = ''steer-backlog'' \<or> cleaned = ''steer_backlog'' then Some SteerBacklog
           else None)"

definition normalizeQueueDropPolicy :: "string option \<Rightarrow> drop_policy option" where
  "normalizeQueueDropPolicy raw = (case raw of None \<Rightarrow> None
     | Some r \<Rightarrow> if r = [] then None
         else let cleaned = to_lower (trim r) in
           if cleaned = ''old'' \<or> cleaned = ''oldest'' then Some DropOld
           else if cleaned = ''new'' \<or> cleaned = ''newest'' then Some DropNew
           else if cleaned = ''summarize'' \<or> cleaned = ''summary'' then Some DropSummarize
           else None)"

definition DEFAULT_QUEUE_DEBOUNCE_MS :: js_num where "DEFAULT_QUEUE_DEBOUNCE_MS = js_int 1000"
definition DEFAULT_QUEUE_CAP :: js_num where "DEFAULT_QUEUE_CAP = js_int 20"
definition DEFAULT_QUEUE_DROP :: drop_policy where "DEFAULT_QUEUE_DROP = DropSummarize"

text \<open>The \<open>messages.queue\<close> section of the configuration and the settings of a session.\<close>

record queue_config =
  qc_mode :: "string option"
  qc_byChannel :: "(string, string) js_map option"
  qc_debounceMs :: "js_num option"
  qc_debounceMsByChannel :: "(string, js_num) js_map option"
  qc_cap :: "js_num option"
  qc_drop :: "string option"

record session_queue =
  sq_queueMode :: "string option"
  sq_queueDebounceMs :: "js_num option"
  sq_queueCap :: "js_num option"
  sq_queueDrop :: "drop_policy option"

record inline_queue =
  iq_mode :: "queue_mode option"
  iq_debounceMs :: "js_num option"
  iq_cap :: "js_num option"
  iq_dropPolicy :: "drop_policy option"

definition finite_debounce :: "js_num option \<Rightarrow> js_num option" where
  "finite_debounce value = (case value of Some v \<Rightarrow> if is_finite v then Some (js_max (js_int 0) v) else None | None \<Rightarrow> None)"

definition resolveChannelDebounce :: "(string, js_num) js_map option \<Rightarrow> string option \<Rightarrow> js_num option" where
  "resolveChannelDebounce byChannel channelKey = (let key = nullish channelKey [] in
     if key = [] then None else finite_debounce (Option.bind byChannel (\<lambda>m. map_get m key)))"

text \<open>plugin_debounce gives the default of a channel plugin.\<close>

definition resolvePluginDebounce :: "(string \<Rightarrow> js_num option) \<Rightarrow> string option \<Rightarrow> js_num option" where
  "resolvePluginDebounce plugin_debounce channelKey = (let key = nullish channelKey [] in
     if key = [] then None else finite_debounce (plugin_debounce key))"

definition resolveQueueSettings ::
  "(string \<Rightarrow> js_num option) \<Rightarrow> queue_config option \<Rightarrow> string option \<Rightarrow> session_queue option \<Rightarrow> inline_queue \<Rightarrow> queue_settings" where
  "resolveQueueSettings plugin_debounce queueCfg channel sessionEntry inline =
     (let channelKey = map_option (\<lambda>c. to_lower (trim c)) channel;
          providerModeRaw = (if nullish channelKey [] \<noteq> []
            then Option.bind (Option.bind queueCfg qc_byChannel) (\<lambda>m. map_get m (nullish channelKey [])) else None);
          resolvedMode = nullish (iq_mode inline)
            (nullish (normalizeQueueMode (Option.bind sessionEntry sq_queueMode))
              (nullish (normalizeQueueMode providerModeRaw)
                (nullish (normalizeQueueMode (Option.bind queueCfg qc_mode)) Collect)));
          debounceRaw = nullish (iq_debounceMs inline)
            (nullish (Option.bind sessionEntry sq_queueDebounceMs)
              (nullish (resolveChannelDebounce (Option.bind queueCfg qc_debounceMsByChannel) channelKey)
                (nullish (resolvePluginDebounce plugin_debounce channelKey)
                  (nullish (Option.bind queueCfg qc_debounceMs) DEFAULT_QUEUE_DEBOUNCE_MS))));
          capRaw = nullish (iq_cap inline) (nullish (Option.bind sessionEntry sq_queueCap)
            (nullish (Option.bind queueCfg qc_cap) DEFAULT_QUEUE_CAP));
          dropRaw = nullish (iq_dropPolicy inline) (nullish (Option.bind sessionEntry sq_queueDrop)
            (nullish (normalizeQueueDropPolicy (Option.bind queueCfg qc_drop)) DEFAULT_QUEUE_DROP)) in
      \<lparr>se_mode = resolvedMode, se_debounceMs = Some (js_max (js_int 0) debounceRaw),
       se_cap = Some (js_max (js_int 1) (js_floor capRaw)), se_dropPolicy = Some dropRaw\<rparr>)"

section \<open>Messages and queues\<close>

datatype thread_id = ThreadNumber int | ThreadText string

record 'r followup_run =
  fr_prompt :: string
  fr_messageId :: "string option"
  fr_summaryLine :: "string option"
  fr_enqueuedAt :: int
  fr_originatingChannel :: "string option"
  fr_originatingTo :: "string option"
  fr_originatingAccountId :: "string option"
  fr_originatingThreadId :: "thread_id option"
  fr_run :: 'r

record 'r followup_queue =
  fq_items :: "(nat \<times> 'r followup_run) list"
  fq_draining :: bool
  fq_lastEnqueuedAt :: int
  fq_mode :: queue_mode
  fq_debounceMs :: js_num
  fq_cap :: js_num
  fq_dropPolicy :: drop_policy
  fq_droppedCount :: nat
  fq_summaryLines :: "string list"
  fq_lastRun :: "'r option"

definition applyQueueRuntimeSettings :: "queue_settings \<Rightarrow> 'r followup_queue \<Rightarrow> 'r followup_queue" where
  "applyQueueRuntimeSettings settings target = target\<lparr>fq_mode := se_mode settings,
     fq_debounceMs := (case se_debounceMs settings of Some d \<Rightarrow> js_max (js_int 0) d | None \<Rightarrow> fq_debounceMs target),
     fq_cap := (case se_cap settings of Some c \<Rightarrow> if js_less (js_int 0) c then js_floor c else fq_cap target | None \<Rightarrow> fq_cap target),
     fq_dropPolicy := nullish (se_dropPolicy settings) (fq_dropPolicy target)\<rparr>"

definition created_queue :: "queue_settings \<Rightarrow> 'r followup_queue" where
  "created_queue settings = \<lparr>fq_items = [], fq_draining = False, fq_lastEnqueuedAt = 0, fq_mode = se_mode settings,
     fq_debounceMs = (case se_debounceMs settings of Some d \<Rightarrow> js_max (js_int 0) d | None \<Rightarrow> DEFAULT_QUEUE_DEBOUNCE_MS),
     fq_cap = (case se_cap settings of Some c \<Rightarrow> if js_less (js_int 0) c then js_floor c else DEFAULT_QUEUE_CAP | None \<Rightarrow> DEFAULT_QUEUE_CAP),
     fq_dropPolicy = nullish (se_dropPolicy settings) DEFAULT_QUEUE_DROP, fq_droppedCount = 0, fq_summaryLines = [], fq_lastRun = None\<rparr>"

text \<open>\<open>text.replace(/\s+/g, " ")\<close>.\<close>

function squeeze_ws :: "string \<Rightarrow> string" where
  "squeeze_ws [] = []"
| "squeeze_ws (c # cs) = (if js_ws c then CHR '' '' # squeeze_ws (dropWhile js_ws cs) else c # squeeze_ws cs)"
  by pat_completeness auto

termination
  by (relation "measure length") (auto simp: less_Suc_eq_le intro: length_dropWhile_le)

definition elideQueueText :: "string \<Rightarrow> string \<Rightarrow> nat \<Rightarrow> string" where
  "elideQueueText ellipsis text limit = (if length text \<le> limit then text else trim_end (take (limit - 1) text) @ ellipsis)"

definition buildQueueSummaryLine :: "string \<Rightarrow> string \<Rightarrow> string" where
  "buildQueueSummaryLine ellipsis text = elideQueueText ellipsis (trim (squeeze_ws text)) 160"

definition summarize_item :: "'r followup_run \<Rightarrow> string" where
  "summarize_item item = str_or (nullish (map_option trim (fr_summaryLine item)) []) (trim (fr_prompt item))"

text \<open>Whether to enqueue, the queue, and the messages dropped; \<open>cap\<close> is an integer or infinity.\<close>

definition applyQueueDropPolicy ::
  "string \<Rightarrow> 'r followup_queue \<Rightarrow> bool \<times> 'r followup_queue \<times> (nat \<times> 'r followup_run) list" where
  "applyQueueDropPolicy ellipsis q = (let cap = fq_cap q; len = length (fq_items q) in
     if js_le cap (js_int 0) \<or> js_less (js_int (int len)) cap then (True, q, [])
     else if fq_dropPolicy q = DropNew then (False, q, [])
     else let dropCount = (case cap of Fin c \<Rightarrow> nat \<lfloor>of_nat len - c + 1\<rfloor> | _ \<Rightarrow> 0);
              dropped = take dropCount (fq_items q);
              q1 = q\<lparr>fq_items := drop dropCount (fq_items q)\<rparr> in
       if fq_dropPolicy q = DropSummarize then
         let lines = fq_summaryLines q1 @ map (\<lambda>i. buildQueueSummaryLine ellipsis (summarize_item (snd i))) dropped;
             limit = (case js_max (js_int 0) cap of Fin c \<Rightarrow> nat \<lfloor>c\<rfloor> | _ \<Rightarrow> length lines) in
         (True, q1\<lparr>fq_droppedCount := fq_droppedCount q1 + length dropped,
            fq_summaryLines := drop (length lines - limit) lines\<rparr>, dropped)
       else (True, q1, dropped))"

definition clearQueueSummaryState :: "'r followup_queue \<Rightarrow> 'r followup_queue" where
  "clearQueueSummaryState q = q\<lparr>fq_droppedCount := 0, fq_summaryLines := []\<rparr>"

text \<open>The preview leaves the queue as it is: \<open>buildQueueSummaryPrompt\<close> works on a copy.\<close>

definition previewQueueSummaryPrompt :: "string \<Rightarrow> 'r followup_queue \<Rightarrow> string option" where
  "previewQueueSummaryPrompt noun q =
     (if fq_dropPolicy q \<noteq> DropSummarize \<or> fq_droppedCount q = 0 then None
      else let title = ''[Queue overflow] Dropped '' @ show_nat (fq_droppedCount q) @ '' '' @ noun @
                 (if fq_droppedCount q = 1 then [] else ''s'') @ '' due to cap.'';
               lines = (if fq_summaryLines q \<noteq> [] then ''Summary:'' # map (\<lambda>l. ''- '' @ l) (fq_summaryLines q) else []) in
        Some (join_with [CHR 0x0A] (title # lines)))"

definition buildCollectPrompt :: "string \<Rightarrow> (nat \<times> 'r followup_run) list \<Rightarrow> string option \<Rightarrow> string" where
  "buildCollectPrompt title items summary = join_with [CHR 0x0A, CHR 0x0A]
     (title # (case summary of Some s \<Rightarrow> if s = [] then [] else [s] | None \<Rightarrow> []) @
      map (\<lambda>(idx, item). trim (''---'' @ [CHR 0x0A] @ ''Queued #'' @ show_nat (idx + 1) @ [CHR 0x0A] @ fr_prompt (snd item)))
        (enumerate 0 items))"

section \<open>Origins\<close>

definition truthy :: "string option \<Rightarrow> bool" where
  "truthy s = (nullish s [] \<noteq> [])"

definition thread_present :: "thread_id option \<Rightarrow> bool" where
  "thread_present t = (t \<noteq> None \<and> t \<noteq> Some (ThreadText []))"

definition show_int :: "int \<Rightarrow> string" where
  "show_int n = (if n < 0 then CHR ''-'' # show_nat (nat (- n)) else show_nat (nat n))"

fun thread_text :: "thread_id \<Rightarrow> string" where
  "thread_text (ThreadNumber n) = show_int n"
| "thread_text (ThreadText s) = s"

text \<open>The pair of \<open>cross\<close> and \<open>key\<close>.\<close>

definition resolveCrossChannelKey :: "plugin_registry \<Rightarrow> 'r followup_run \<Rightarrow> bool \<times> string option" where
  "resolveCrossChannelKey registry item = (let channel = fr_originatingChannel item; to = fr_originatingTo item;
       accountId = fr_originatingAccountId item; threadId = fr_originatingThreadId item in
     if \<not> truthy channel \<and> \<not> truthy to \<and> \<not> truthy accountId \<and> \<not> thread_present threadId then (False, None)
     else let normalizedChannel = nullish (resolveReplyRouteChannel registry channel) [] in
       if normalizedChannel = [] \<or> \<not> truthy to then (True, None)
       else let threadKey = (if thread_present threadId then nullish (map_option thread_text threadId) [] else []) in
         (False, Some (join_with ''|'' [normalizedChannel, nullish to [], nullish accountId [], threadKey])))"

fun cross_channel_loop :: "(bool \<times> string option) list \<Rightarrow> string list \<Rightarrow> bool \<Rightarrow> bool" where
  "cross_channel_loop [] keys hasUnkeyed =
     (if length keys = 0 then False else if hasUnkeyed then True else length keys > 1)"
| "cross_channel_loop ((cross, key) # rest) keys hasUnkeyed =
     (if cross then True
      else if nullish key [] = [] then cross_channel_loop rest keys True
      else cross_channel_loop rest (set_add (nullish key []) keys) hasUnkeyed)"

definition hasCrossChannelItems :: "plugin_registry \<Rightarrow> (nat \<times> 'r followup_run) list \<Rightarrow> bool" where
  "hasCrossChannelItems registry items = cross_channel_loop (map (\<lambda>i. resolveCrossChannelKey registry (snd i)) items) [] False"

datatype dedupe_mode = ByMessageId | ByPrompt | NoDedupe

definition same_routing :: "plugin_registry \<Rightarrow> 'r followup_run \<Rightarrow> 'r followup_run \<Rightarrow> bool" where
  "same_routing registry run item = (resolveReplyRouteChannel registry (fr_originatingChannel item) =
       resolveReplyRouteChannel registry (fr_originatingChannel run) \<and>
     fr_originatingTo item = fr_originatingTo run \<and> fr_originatingAccountId item = fr_originatingAccountId run \<and>
     fr_originatingThreadId item = fr_originatingThreadId run)"

definition isRunAlreadyQueued :: "plugin_registry \<Rightarrow> 'r followup_run \<Rightarrow> (nat \<times> 'r followup_run) list \<Rightarrow> bool \<Rightarrow> bool" where
  "isRunAlreadyQueued registry run items allowPromptFallback = (let messageId = nullish (map_option trim (fr_messageId run)) [] in
     if messageId \<noteq> [] then list_ex (\<lambda>i. map_option trim (fr_messageId (snd i)) = Some messageId \<and> same_routing registry run (snd i)) items
     else if \<not> allowPromptFallback then False
     else list_ex (\<lambda>i. fr_prompt (snd i) = fr_prompt run \<and> same_routing registry run (snd i)) items)"

definition shouldSkipQueueItem :: "plugin_registry \<Rightarrow> 'r followup_run \<Rightarrow> (nat \<times> 'r followup_run) list \<Rightarrow> dedupe_mode \<Rightarrow> bool" where
  "shouldSkipQueueItem registry run items dedupeMode =
     (if dedupeMode = NoDedupe then False else isRunAlreadyQueued registry run items (dedupeMode = ByPrompt))"

section \<open>The state and the drains\<close>

text \<open>
  Where a drain is stopped: at the debounce, with its length, or after it; at the call of
  \<open>runFollowup\<close> for the first item, for a batch (and whether there was a summary) or for the summary,
  with the messages the call is for; after the await of a helper that ran an item, found none, or
  (in the collect mode) left the items to the batch.
\<close>

datatype drain_pc =
  AtDebounce js_num
| Ready
| AfterSkip
| InItem nat
| InCollect "nat list" bool
| InSummary nat
| AfterItem
| AfterEmpty
| AfterSummary

record drain =
  dr_key :: string
  dr_queue :: nat
  dr_callback :: nat
  dr_force :: bool
  dr_pc :: drain_pc

text \<open>
  The queue objects in the order they were made, the map of the live ones, the callbacks, the drains.
  Three traces: the accepted messages with their keys, the delivered ones with key and callback (in
  the order the calls of \<open>runFollowup\<close> succeeded), the prompts of those calls.
\<close>

record 'r followup_state =
  fs_objects :: "'r followup_queue list"
  fs_queues :: "(string, nat) js_map"
  fs_callbacks :: "(string, nat) js_map"
  fs_drains :: "drain list"
  fs_nextMessage :: nat
  fs_accepted :: "(string \<times> nat) list"
  fs_delivered :: "(string \<times> nat) list"
  fs_prompts :: "string list"

definition empty_followups :: "'r followup_state" where
  "empty_followups = \<lparr>fs_objects = [], fs_queues = [], fs_callbacks = [], fs_drains = [], fs_nextMessage = 0, fs_accepted = [],
     fs_delivered = [], fs_prompts = []\<rparr>"

abbreviation object_at :: "'r followup_state \<Rightarrow> nat \<Rightarrow> 'r followup_queue" where
  "object_at st n \<equiv> fs_objects st ! n"

definition set_object :: "nat \<Rightarrow> 'r followup_queue \<Rightarrow> 'r followup_state \<Rightarrow> 'r followup_state" where
  "set_object n q st = st\<lparr>fs_objects := (fs_objects st)[n := q]\<rparr>"

definition has_work :: "'r followup_queue \<Rightarrow> bool" where
  "has_work q = (length (fq_items q) > 0 \<or> fq_droppedCount q > 0)"

definition debounce_of :: "'r followup_queue \<Rightarrow> js_num" where
  "debounce_of q = js_max (js_int 0) (fq_debounceMs q)"

text \<open>The start of the async body: the test of the loop, then the first await, or the \<open>finally\<close> block.\<close>

definition start_drain :: "string \<Rightarrow> nat \<Rightarrow> nat \<Rightarrow> 'r followup_state \<Rightarrow> 'r followup_state" where
  "start_drain key n callback st = (let q = object_at st n in
     if has_work q then st\<lparr>fs_drains := fs_drains st @
       [\<lparr>dr_key = key, dr_queue = n, dr_callback = callback, dr_force = False, dr_pc = AtDebounce (debounce_of q)\<rparr>]\<rparr>
     else (set_object n (q\<lparr>fq_draining := False\<rparr>) st)\<lparr>fs_queues := map_delete key (fs_queues st)\<rparr>)"

text \<open>\<open>beginQueueDrain\<close> and \<open>scheduleFollowupDrain\<close>.\<close>

definition scheduleFollowupDrain :: "string \<Rightarrow> nat \<Rightarrow> 'r followup_state \<Rightarrow> 'r followup_state" where
  "scheduleFollowupDrain key callback st = (case map_get (fs_queues st) key of None \<Rightarrow> st
     | Some n \<Rightarrow> if fq_draining (object_at st n) then st
         else start_drain key n callback ((set_object n ((object_at st n)\<lparr>fq_draining := True\<rparr>) st)
           \<lparr>fs_callbacks := map_set key callback (fs_callbacks st)\<rparr>))"

definition kickFollowupDrainIfIdle :: "string \<Rightarrow> 'r followup_state \<Rightarrow> 'r followup_state" where
  "kickFollowupDrainIfIdle key st = (case map_get (fs_callbacks st) key of None \<Rightarrow> st
     | Some cb \<Rightarrow> scheduleFollowupDrain key cb st)"

definition getFollowupQueue :: "string \<Rightarrow> queue_settings \<Rightarrow> 'r followup_state \<Rightarrow> nat \<times> 'r followup_state" where
  "getFollowupQueue key settings st = (case map_get (fs_queues st) key of
       Some n \<Rightarrow> (n, set_object n (applyQueueRuntimeSettings settings (object_at st n)) st)
     | None \<Rightarrow> let n = length (fs_objects st) in
         (n, st\<lparr>fs_objects := fs_objects st @ [applyQueueRuntimeSettings settings (created_queue settings)],
           fs_queues := map_set key n (fs_queues st)\<rparr>))"

definition enqueueFollowupRun ::
  "plugin_registry \<Rightarrow> string \<Rightarrow> int \<Rightarrow> string \<Rightarrow> 'r followup_run \<Rightarrow> queue_settings \<Rightarrow> dedupe_mode \<Rightarrow> 'r followup_state \<Rightarrow> bool \<times> 'r followup_state"
where
  "enqueueFollowupRun registry ellipsis now key run settings dedupeMode st0 =
     (let (n, st) = getFollowupQueue key settings st0; queue = object_at st n in
      if shouldSkipQueueItem registry run (fq_items queue) dedupeMode then (False, st)
      else let q1 = queue\<lparr>fq_lastEnqueuedAt := now, fq_lastRun := Some (fr_run run)\<rparr>;
               (shouldEnqueue, q2, dropped) = applyQueueDropPolicy ellipsis q1 in
        if \<not> shouldEnqueue then (False, set_object n q2 st)
        else let m = fs_nextMessage st;
                 st1 = (set_object n (q2\<lparr>fq_items := fq_items q2 @ [(m, run)]\<rparr>) st)
                   \<lparr>fs_nextMessage := m + 1, fs_accepted := fs_accepted st @ [(key, m)]\<rparr> in
          (True, if \<not> fq_draining q2 then kickFollowupDrainIfIdle key st1 else st1))"

definition getExistingFollowupQueue :: "string \<Rightarrow> 'r followup_state \<Rightarrow> nat option" where
  "getExistingFollowupQueue key st = (let cleaned = trim key in if cleaned = [] then None else map_get (fs_queues st) cleaned)"

definition getFollowupQueueDepth :: "string \<Rightarrow> 'r followup_state \<Rightarrow> nat" where
  "getFollowupQueueDepth key st = (case getExistingFollowupQueue key st of None \<Rightarrow> 0
     | Some n \<Rightarrow> length (fq_items (object_at st n)))"

definition clearFollowupQueue :: "string \<Rightarrow> 'r followup_state \<Rightarrow> nat \<times> 'r followup_state" where
  "clearFollowupQueue key st = (let cleaned = trim key in
     case getExistingFollowupQueue cleaned st of None \<Rightarrow> (0, st)
     | Some n \<Rightarrow> let queue = object_at st n in
         (length (fq_items queue) + fq_droppedCount queue,
          (set_object n (queue\<lparr>fq_items := [], fq_droppedCount := 0, fq_summaryLines := [], fq_lastRun := None, fq_lastEnqueuedAt := 0\<rparr>) st)
            \<lparr>fs_queues := map_delete cleaned (fs_queues st)\<rparr>))"

definition clearFollowupDrainCallback :: "string \<Rightarrow> 'r followup_state \<Rightarrow> 'r followup_state" where
  "clearFollowupDrainCallback key st = st\<lparr>fs_callbacks := map_delete key (fs_callbacks st)\<rparr>"

text \<open>\<open>clearSessionQueues\<close> without the command lanes: the number of messages cleared and the cleaned keys.\<close>

fun clear_session_loop :: "string option list \<Rightarrow> string list \<Rightarrow> nat \<Rightarrow> 'r followup_state \<Rightarrow> (nat \<times> string list) \<times> 'r followup_state" where
  "clear_session_loop [] seen cleared st = ((cleared, seen), st)"
| "clear_session_loop (key # keys) seen cleared st = (let cleaned = nullish (map_option trim key) [] in
     if cleaned = [] \<or> cleaned \<in> set seen then clear_session_loop keys seen cleared st
     else let (n, st1) = clearFollowupQueue cleaned st in
       clear_session_loop keys (seen @ [cleaned]) (cleared + n) (clearFollowupDrainCallback cleaned st1))"

definition clearSessionQueues :: "string option list \<Rightarrow> 'r followup_state \<Rightarrow> (nat \<times> string list) \<times> 'r followup_state" where
  "clearSessionQueues keys st = clear_session_loop keys [] 0 st"

section \<open>The steps of a drain\<close>

definition without_drain :: "nat \<Rightarrow> 'r followup_state \<Rightarrow> 'r followup_state" where
  "without_drain i st = st\<lparr>fs_drains := take i (fs_drains st) @ drop (Suc i) (fs_drains st)\<rparr>"

definition set_drain :: "nat \<Rightarrow> drain \<Rightarrow> 'r followup_state \<Rightarrow> 'r followup_state" where
  "set_drain i d st = st\<lparr>fs_drains := (fs_drains st)[i := d]\<rparr>"

text \<open>The \<open>finally\<close> block.\<close>

definition end_drain :: "nat \<Rightarrow> drain \<Rightarrow> 'r followup_state \<Rightarrow> 'r followup_state" where
  "end_drain i d st0 = (let n = dr_queue d;
       st = without_drain i (set_object n ((object_at st0 n)\<lparr>fq_draining := False\<rparr>) st0); q = object_at st n in
     if length (fq_items q) = 0 \<and> fq_droppedCount q = 0 then st\<lparr>fs_queues := map_delete (dr_key d) (fs_queues st)\<rparr>
     else scheduleFollowupDrain (dr_key d) (dr_callback d) st)"

text \<open>The test of the loop, and the next debounce.\<close>

definition loop_drain :: "nat \<Rightarrow> drain \<Rightarrow> 'r followup_state \<Rightarrow> 'r followup_state" where
  "loop_drain i d st = (let q = object_at st (dr_queue d) in
     if has_work q then set_drain i (d\<lparr>dr_pc := AtDebounce (debounce_of q)\<rparr>) st else end_drain i d st)"

text \<open>The body of the loop after the debounce, up to the call of \<open>runFollowup\<close> or a break.\<close>

definition drainNextQueueItem :: "nat \<Rightarrow> drain \<Rightarrow> (nat \<Rightarrow> drain_pc) \<Rightarrow> ('r followup_run \<Rightarrow> string) \<Rightarrow> 'r followup_state \<Rightarrow> 'r followup_state" where
  "drainNextQueueItem i d pc prompt st = (case fq_items (object_at st (dr_queue d)) of
       [] \<Rightarrow> set_drain i (d\<lparr>dr_pc := AfterEmpty\<rparr>) st
     | item # _ \<Rightarrow> (set_drain i (d\<lparr>dr_pc := pc (fst item)\<rparr>) st)\<lparr>fs_prompts := fs_prompts st @ [prompt (snd item)]\<rparr>)"

definition drain_body :: "plugin_registry \<Rightarrow> nat \<Rightarrow> drain \<Rightarrow> 'r followup_state \<Rightarrow> 'r followup_state" where
  "drain_body registry i d st = (let q = object_at st (dr_queue d) in
     if fq_mode q = Collect then
       let isCrossChannel = hasCrossChannelItems registry (fq_items q) in
       if \<not> dr_force d \<and> \<not> isCrossChannel then set_drain i (d\<lparr>dr_pc := AfterSkip\<rparr>) st
       else drainNextQueueItem i (d\<lparr>dr_force := dr_force d \<or> isCrossChannel\<rparr>) InItem fr_prompt st
     else case previewQueueSummaryPrompt ''message'' q of
       Some summaryPrompt \<Rightarrow> (case fq_lastRun q of None \<Rightarrow> end_drain i d st
         | Some _ \<Rightarrow> drainNextQueueItem i d InSummary (\<lambda>_. summaryPrompt) st)
     | None \<Rightarrow> drainNextQueueItem i d InItem fr_prompt st)"

text \<open>The batch of the collect mode.\<close>

definition collect_body :: "nat \<Rightarrow> drain \<Rightarrow> 'r followup_state \<Rightarrow> 'r followup_state" where
  "collect_body i d st = (let q = object_at st (dr_queue d); items = fq_items q;
       summary = previewQueueSummaryPrompt ''message'' q;
       run = (if items \<noteq> [] then Some (fr_run (snd (last items))) else fq_lastRun q) in
     case run of None \<Rightarrow> end_drain i d st
     | Some _ \<Rightarrow> (set_drain i (d\<lparr>dr_pc := InCollect (map fst items) (summary \<noteq> None)\<rparr>) st)
         \<lparr>fs_prompts := fs_prompts st @ [buildCollectPrompt ''[Queued messages while agent was busy]'' items summary]\<rparr>)"

definition shift_items :: "nat \<Rightarrow> 'r followup_queue \<Rightarrow> 'r followup_queue" where
  "shift_items k q = q\<lparr>fq_items := drop k (fq_items q)\<rparr>"

text \<open>The call of \<open>runFollowup\<close> succeeds; a batch goes on to the test of the loop at once.\<close>

definition run_succeeds :: "nat \<Rightarrow> drain \<Rightarrow> 'r followup_state \<Rightarrow> 'r followup_state" where
  "run_succeeds i d st = (let n = dr_queue d; q = object_at st n in
     case dr_pc d of
       InItem m \<Rightarrow> (set_drain i (d\<lparr>dr_pc := AfterItem\<rparr>) (set_object n (shift_items 1 q) st))
         \<lparr>fs_delivered := fs_delivered st @ [(dr_key d, m)]\<rparr>
     | InSummary m \<Rightarrow> set_drain i (d\<lparr>dr_pc := AfterSummary\<rparr>) (set_object n (shift_items 1 q) st)
     | InCollect ms summary \<Rightarrow>
         let q1 = shift_items (length ms) q; q2 = (if summary then clearQueueSummaryState q1 else q1) in
         loop_drain i d ((set_object n q2 st)\<lparr>fs_delivered := fs_delivered st @ map (Pair (dr_key d)) ms\<rparr>)
     | _ \<Rightarrow> st)"

text \<open>The call fails: the \<open>catch\<close> and the \<open>finally\<close> block.\<close>

definition run_fails :: "int \<Rightarrow> nat \<Rightarrow> drain \<Rightarrow> 'r followup_state \<Rightarrow> 'r followup_state" where
  "run_fails now i d st = (let n = dr_queue d in
     end_drain i d (set_object n ((object_at st n)\<lparr>fq_lastEnqueuedAt := now\<rparr>) st))"

definition debounce_over :: "int \<Rightarrow> js_num \<Rightarrow> 'r followup_queue \<Rightarrow> bool" where
  "debounce_over now debounceMs q = (js_le debounceMs (js_int 0) \<or> js_le debounceMs (js_int (now - fq_lastEnqueuedAt q)))"

definition resume_drain :: "plugin_registry \<Rightarrow> int \<Rightarrow> nat \<Rightarrow> drain \<Rightarrow> 'r followup_state \<Rightarrow> 'r followup_state" where
  "resume_drain registry now i d st = (let n = dr_queue d in
     case dr_pc d of
       AtDebounce ms \<Rightarrow> if debounce_over now ms (object_at st n) then set_drain i (d\<lparr>dr_pc := Ready\<rparr>) st else st
     | Ready \<Rightarrow> drain_body registry i d st
     | AfterSkip \<Rightarrow> collect_body i d st
     | AfterEmpty \<Rightarrow> end_drain i d st
     | AfterItem \<Rightarrow> loop_drain i d st
     | AfterSummary \<Rightarrow> loop_drain i d (set_object n (clearQueueSummaryState (object_at st n)) st)
     | _ \<Rightarrow> st)"

definition awaits_run :: "drain \<Rightarrow> bool" where
  "awaits_run d = (case dr_pc d of InItem _ \<Rightarrow> True | InCollect _ _ \<Rightarrow> True | InSummary _ \<Rightarrow> True | _ \<Rightarrow> False)"

datatype 'r followup_event =
  Enqueue string "'r followup_run" queue_settings dedupe_mode
| Finalize string nat
| ClearKeys "string option list"
| Resume nat
| RunSucceeds nat
| RunFails nat

text \<open>An event that cannot happen changes nothing.\<close>

fun followup_step :: "plugin_registry \<Rightarrow> string \<Rightarrow> int \<Rightarrow> 'r followup_event \<Rightarrow> 'r followup_state \<Rightarrow> 'r followup_state" where
  "followup_step registry ellipsis now (Enqueue key run settings mode) st = snd (enqueueFollowupRun registry ellipsis now key run settings mode st)"
| "followup_step registry ellipsis now (Finalize key cb) st = scheduleFollowupDrain key cb st"
| "followup_step registry ellipsis now (ClearKeys keys) st = snd (clearSessionQueues keys st)"
| "followup_step registry ellipsis now (Resume i) st = (if i < length (fs_drains st) then resume_drain registry now i (fs_drains st ! i) st else st)"
| "followup_step registry ellipsis now (RunSucceeds i) st =
     (if i < length (fs_drains st) \<and> awaits_run (fs_drains st ! i) then run_succeeds i (fs_drains st ! i) st else st)"
| "followup_step registry ellipsis now (RunFails i) st =
     (if i < length (fs_drains st) \<and> awaits_run (fs_drains st ! i) then run_fails now i (fs_drains st ! i) st else st)"

definition followup_run_all :: "plugin_registry \<Rightarrow> string \<Rightarrow> (int \<times> 'r followup_event) list \<Rightarrow> 'r followup_state \<Rightarrow> 'r followup_state" where
  "followup_run_all registry ellipsis evs st = fold (\<lambda>(now, ev). followup_step registry ellipsis now ev) evs st"

section \<open>No message is lost while the messages past the cap are refused\<close>

definition waiting :: "string \<Rightarrow> 'r followup_state \<Rightarrow> nat list" where
  "waiting key st = (case map_get (fs_queues st) key of None \<Rightarrow> [] | Some n \<Rightarrow> map fst (fq_items (object_at st n)))"

definition messages_of :: "string \<Rightarrow> (string \<times> nat) list \<Rightarrow> nat list" where
  "messages_of key trace = map snd (filter (\<lambda>e. fst e = key) trace)"

lemma messages_of_append [simp]: "messages_of k (xs @ ys) = messages_of k xs @ messages_of k ys"
  by (simp add: messages_of_def)

lemma messages_of_Cons [simp]: "messages_of k ((k', m) # xs) = (if k' = k then m # messages_of k xs else messages_of k xs)"
  by (simp add: messages_of_def)

lemma messages_of_Nil [simp]: "messages_of k [] = []"
  by (simp add: messages_of_def)

lemma messages_of_pairs [simp]: "messages_of k (map (Pair k') ms) = (if k' = k then ms else [])"
  by (induction ms) auto

text \<open>What a stopped drain relies on: \<open>ids\<close> are the messages of its queue.\<close>

fun pc_fits :: "drain_pc \<Rightarrow> nat list \<Rightarrow> bool" where
  "pc_fits (InItem m) ids = (ids \<noteq> [] \<and> hd ids = m)"
| "pc_fits (InCollect ms summary) ids = (\<not> summary \<and> take (length ms) ids = ms)"
| "pc_fits (InSummary m) ids = False"
| "pc_fits AfterSummary ids = False"
| "pc_fits AfterEmpty ids = False"
| "pc_fits AfterItem ids = True"
| "pc_fits (AtDebounce ms) ids = (ids \<noteq> [])"
| "pc_fits Ready ids = (ids \<noteq> [])"
| "pc_fits AfterSkip ids = (ids \<noteq> [])"

lemma pc_fits_append: "pc_fits pc ids \<Longrightarrow> pc_fits pc (ids @ rest)"
proof (cases pc)
  case (InCollect ms summary)
  moreover assume "pc_fits pc ids"
  ultimately have "take (length ms) ids = ms" "\<not> summary" by auto
  moreover from this(1) have "length ms \<le> length ids" by (metis length_take min.cobounded1)
  ultimately show ?thesis using InCollect by simp
qed auto

definition queue_keeps :: "'r followup_queue \<Rightarrow> bool" where
  "queue_keeps q = (fq_dropPolicy q = DropNew \<and> fq_droppedCount q = 0)"

definition drain_fits :: "'r followup_state \<Rightarrow> drain \<Rightarrow> bool" where
  "drain_fits st d = (map_get (fs_queues st) (dr_key d) = Some (dr_queue d) \<and> fq_draining (object_at st (dr_queue d)) \<and>
     pc_fits (dr_pc d) (map fst (fq_items (object_at st (dr_queue d)))))"

text \<open>The keys of \<open>busy\<close> need not be drained, as a call is about to see to it.\<close>

definition queue_fits :: "string set \<Rightarrow> 'r followup_state \<Rightarrow> string \<Rightarrow> nat \<Rightarrow> bool" where
  "queue_fits busy st k n = (n < length (fs_objects st) \<and> queue_keeps (object_at st n) \<and>
     (fq_draining (object_at st n) \<longrightarrow> k \<in> dr_key ` set (fs_drains st)) \<and>
     (k \<notin> busy \<and> fq_items (object_at st n) \<noteq> [] \<and> map_get (fs_callbacks st) k \<noteq> None \<longrightarrow> fq_draining (object_at st n)))"

definition followups_ok :: "string set \<Rightarrow> 'r followup_state \<Rightarrow> bool" where
  "followups_ok busy st = (list_all (drain_fits st) (fs_drains st) \<and> distinct (map dr_key (fs_drains st)) \<and>
     (\<forall>k n. map_get (fs_queues st) k = Some n \<longrightarrow> queue_fits busy st k n) \<and>
     (\<forall>k k' n. map_get (fs_queues st) k = Some n \<and> map_get (fs_queues st) k' = Some n \<longrightarrow> k = k') \<and>
     (\<forall>k. messages_of k (fs_accepted st) = messages_of k (fs_delivered st) @ waiting k st))"

lemma followups_okI:
  assumes "\<And>d. d \<in> set (fs_drains st) \<Longrightarrow> drain_fits st d" and "distinct (map dr_key (fs_drains st))"
    and "\<And>k n. map_get (fs_queues st) k = Some n \<Longrightarrow> queue_fits busy st k n"
    and "\<And>k k' n. map_get (fs_queues st) k = Some n \<Longrightarrow> map_get (fs_queues st) k' = Some n \<Longrightarrow> k = k'"
    and "\<And>k. messages_of k (fs_accepted st) = messages_of k (fs_delivered st) @ waiting k st"
  shows "followups_ok busy st"
  unfolding followups_ok_def list_all_iff using assms by blast

lemma followups_okD:
  assumes "followups_ok busy st"
  shows "d \<in> set (fs_drains st) \<Longrightarrow> drain_fits st d"
    and "distinct (map dr_key (fs_drains st))"
    and "map_get (fs_queues st) k = Some n \<Longrightarrow> queue_fits busy st k n"
    and "map_get (fs_queues st) k = Some n \<Longrightarrow> map_get (fs_queues st) k' = Some n \<Longrightarrow> k = k'"
    and "messages_of k (fs_accepted st) = messages_of k (fs_delivered st) @ waiting k st"
  using assms unfolding followups_ok_def list_all_iff by blast+

text \<open>One queue changes, with its drain.\<close>

lemma followups_ok_update:
  assumes ok: "followups_ok busy st" and live: "map_get (fs_queues st) key = Some n"
    and st': "fs_objects st' = (fs_objects st)[n := q]" "fs_queues st' = fs_queues st"
      "\<And>k. k \<noteq> key \<Longrightarrow> map_get (fs_callbacks st') k = map_get (fs_callbacks st) k"
    and drains: "distinct (map dr_key (fs_drains st'))"
      "\<And>e. dr_key e \<noteq> key \<Longrightarrow> e \<in> set (fs_drains st') \<longleftrightarrow> e \<in> set (fs_drains st)"
      "\<And>e. e \<in> set (fs_drains st') \<Longrightarrow> dr_key e = key \<Longrightarrow> dr_queue e = n \<and> fq_draining q \<and> pc_fits (dr_pc e) (map fst (fq_items q))"
    and q: "queue_keeps q" "fq_draining q \<Longrightarrow> key \<in> dr_key ` set (fs_drains st')"
      "key \<notin> busy' \<Longrightarrow> fq_items q \<noteq> [] \<Longrightarrow> map_get (fs_callbacks st') key \<noteq> None \<Longrightarrow> fq_draining q"
    and busy: "busy \<subseteq> insert key busy'"
    and trace: "\<And>k. k \<noteq> key \<Longrightarrow> messages_of k (fs_accepted st') = messages_of k (fs_accepted st)"
      "\<And>k. k \<noteq> key \<Longrightarrow> messages_of k (fs_delivered st') = messages_of k (fs_delivered st)"
      "messages_of key (fs_accepted st') = messages_of key (fs_delivered st') @ map fst (fq_items q)"
  shows "followups_ok busy' st'"
proof (rule followups_okI)
  have n: "n < length (fs_objects st)" using followups_okD(3)[OF ok live] by (simp add: queue_fits_def)
  have objs: "object_at st' m = (if m = n then q else object_at st m)" for m
    using n st'(1) by simp
  have same: "m \<noteq> n" if "map_get (fs_queues st) k = Some m" "k \<noteq> key" for k m
    using followups_okD(4)[OF ok _ live] that by blast
  show "distinct (map dr_key (fs_drains st'))" by (rule drains(1))
  show "k = k'" if "map_get (fs_queues st') k = Some m" "map_get (fs_queues st') k' = Some m" for k k' m
    using that followups_okD(4)[OF ok] st'(2) by simp
  show "drain_fits st' e" if e: "e \<in> set (fs_drains st')" for e
  proof (cases "dr_key e = key")
    case True
    thus ?thesis using drains(3)[OF e] live by (simp add: drain_fits_def objs st'(2))
  next
    case False
    hence "drain_fits st e" using e drains(2) followups_okD(1)[OF ok] by blast
    moreover from this have "dr_queue e \<noteq> n" using same[OF _ False] by (auto simp: drain_fits_def)
    ultimately show ?thesis by (simp add: drain_fits_def objs st'(2))
  qed
  show "queue_fits busy' st' k m" if "map_get (fs_queues st') k = Some m" for k m
  proof (cases "k = key")
    case True
    thus ?thesis using that live q n by (simp add: queue_fits_def objs st')
  next
    case False
    hence m: "map_get (fs_queues st) k = Some m" "m \<noteq> n" using that same st'(2) by auto
    have "k \<in> dr_key ` set (fs_drains st') \<longleftrightarrow> k \<in> dr_key ` set (fs_drains st)"
      using False drains(2) by (auto simp: image_iff)
    thus ?thesis using followups_okD(3)[OF ok m(1)] m(2) False st'(1,3) busy by (auto simp: queue_fits_def objs)
  qed
  show "messages_of k (fs_accepted st') = messages_of k (fs_delivered st') @ waiting k st'" for k
  proof (cases "k = key")
    case True
    thus ?thesis using trace(3) live by (simp add: waiting_def objs st'(2))
  next
    case False
    hence "waiting k st' = waiting k st" using same by (auto simp: waiting_def objs st'(2) split: option.splits)
    thus ?thesis using followups_okD(5)[OF ok] trace(1,2) False by simp
  qed
qed

lemma drains_split:
  assumes "distinct (map dr_key ds)" and "i < length ds"
  shows "ds = take i ds @ ds ! i # drop (Suc i) ds" "e \<in> set (take i ds) \<Longrightarrow> dr_key e \<noteq> dr_key (ds ! i)"
    "e \<in> set (drop (Suc i) ds) \<Longrightarrow> dr_key e \<noteq> dr_key (ds ! i)" "distinct (map dr_key (take i ds @ drop (Suc i) ds))"
proof -
  show ds: "ds = take i ds @ ds ! i # drop (Suc i) ds" using assms(2) by (rule id_take_nth_drop)
  have "distinct (map dr_key (take i ds @ ds ! i # drop (Suc i) ds))" using assms(1) ds by simp
  thus "e \<in> set (take i ds) \<Longrightarrow> dr_key e \<noteq> dr_key (ds ! i)" "e \<in> set (drop (Suc i) ds) \<Longrightarrow> dr_key e \<noteq> dr_key (ds ! i)"
    "distinct (map dr_key (take i ds @ drop (Suc i) ds))"
    by (auto simp: image_iff)
qed

lemma drains_set:
  assumes "distinct (map dr_key ds)" "i < length ds" "dr_key d' = dr_key (ds ! i)"
  shows "distinct (map dr_key (ds[i := d']))"
    and "dr_key e \<noteq> dr_key d' \<Longrightarrow> e \<in> set (ds[i := d']) \<longleftrightarrow> e \<in> set ds"
    and "e \<in> set (ds[i := d']) \<Longrightarrow> dr_key e = dr_key d' \<Longrightarrow> e = d'"
    and "d' \<in> set (ds[i := d'])"
proof -
  note split = drains_split[OF assms(1,2)]
  have upd: "ds[i := d'] = take i ds @ d' # drop (Suc i) ds" using assms(2) by (rule upd_conv_take_nth_drop)
  have map: "map dr_key (ds[i := d']) = map dr_key ds" using assms(2,3) by (simp add: map_update list_update_same_conv)
  show "distinct (map dr_key (ds[i := d']))" using assms(1) map by simp
  have "set ds = insert (ds ! i) (set (take i ds) \<union> set (drop (Suc i) ds))" by (subst split(1)) simp
  moreover have "set (ds[i := d']) = insert d' (set (take i ds) \<union> set (drop (Suc i) ds))" by (simp add: upd)
  ultimately show "dr_key e \<noteq> dr_key d' \<Longrightarrow> e \<in> set (ds[i := d']) \<longleftrightarrow> e \<in> set ds"
    and "e \<in> set (ds[i := d']) \<Longrightarrow> dr_key e = dr_key d' \<Longrightarrow> e = d'"
    and "d' \<in> set (ds[i := d'])"
    using split(2,3) assms(3) by (auto simp del: set_update_memI)
qed

lemma drains_remove:
  assumes "distinct (map dr_key ds)" "i < length ds"
  shows "distinct (map dr_key (take i ds @ drop (Suc i) ds))"
    and "dr_key e \<noteq> dr_key (ds ! i) \<Longrightarrow> e \<in> set (take i ds @ drop (Suc i) ds) \<longleftrightarrow> e \<in> set ds"
    and "dr_key (ds ! i) \<notin> dr_key ` set (take i ds @ drop (Suc i) ds)"
proof -
  note split = drains_split[OF assms]
  show "distinct (map dr_key (take i ds @ drop (Suc i) ds))" by (rule split(4))
  have "set ds = insert (ds ! i) (set (take i ds) \<union> set (drop (Suc i) ds))" by (subst split(1)) simp
  thus "dr_key e \<noteq> dr_key (ds ! i) \<Longrightarrow> e \<in> set (take i ds @ drop (Suc i) ds) \<longleftrightarrow> e \<in> set ds"
    by auto
  show "dr_key (ds ! i) \<notin> dr_key ` set (take i ds @ drop (Suc i) ds)"
  proof
    assume "dr_key (ds ! i) \<in> dr_key ` set (take i ds @ drop (Suc i) ds)"
    then obtain x where "x \<in> set (take i ds) \<or> x \<in> set (drop (Suc i) ds)" "dr_key x = dr_key (ds ! i)"
      unfolding image_iff set_append by (metis Un_iff)
    thus False using split(2)[of x] split(3)[of x] by blast
  qed
qed

text \<open>The steps of a drain, each as an update of its queue.\<close>

lemma followups_ok_set_drain:
  assumes ok: "followups_ok busy st" and i: "i < length (fs_drains st)" "fs_drains st ! i = d"
    and d': "dr_key d' = dr_key d" "dr_queue d' = dr_queue d" "pc_fits (dr_pc d') (map fst (fq_items q))"
    and q: "queue_keeps q" "fq_draining q"
    and items: "map fst (fq_items (object_at st (dr_queue d))) = ms @ map fst (fq_items q)"
    and st': "fs_objects st' = (fs_objects st)[dr_queue d := q]" "fs_queues st' = fs_queues st" "fs_callbacks st' = fs_callbacks st"
      "fs_drains st' = (fs_drains st)[i := d']" "fs_accepted st' = fs_accepted st"
      "fs_delivered st' = fs_delivered st @ map (Pair (dr_key d)) ms"
  shows "followups_ok busy st'"
proof -
  have live: "map_get (fs_queues st) (dr_key d) = Some (dr_queue d)"
    using followups_okD(1)[OF ok, of d] i by (auto simp: drain_fits_def)
  note ds = drains_set[OF followups_okD(2)[OF ok] i(1), of d', unfolded i(2), OF d'(1), folded st'(4), unfolded d'(1)]
  have "dr_key d \<in> dr_key ` set (fs_drains st')" using ds(4) d'(1) by (metis imageI)
  thus ?thesis
    by (intro followups_ok_update[OF ok live st'(1,2)])
      (use ds d' q st' followups_okD(5)[OF ok, of "dr_key d"] items live in \<open>auto simp: waiting_def\<close>)
qed

lemma followups_ok_delete:
  assumes ok: "followups_ok {key} st" and live: "map_get (fs_queues st) key = Some n"
    and empty: "fq_items (object_at st n) = []" and idle: "key \<notin> dr_key ` set (fs_drains st)"
    and st': "fs_objects st' = fs_objects st" "fs_queues st' = map_delete key (fs_queues st)" "fs_drains st' = fs_drains st"
      "\<And>k. k \<noteq> key \<Longrightarrow> map_get (fs_callbacks st') k = map_get (fs_callbacks st) k"
      "fs_accepted st' = fs_accepted st" "fs_delivered st' = fs_delivered st"
  shows "followups_ok {} st'"
proof (rule followups_okI)
  show "drain_fits st' d" if "d \<in> set (fs_drains st')" for d
  proof -
    have "drain_fits st d" "dr_key d \<noteq> key" using that idle st'(3) followups_okD(1)[OF ok] by auto
    thus ?thesis by (simp add: drain_fits_def st')
  qed
  show "distinct (map dr_key (fs_drains st'))" using followups_okD(2)[OF ok] st'(3) by simp
  show "k = k'" if "map_get (fs_queues st') k = Some m" "map_get (fs_queues st') k' = Some m" for k k' m
    using that followups_okD(4)[OF ok] st'(2) by (auto split: if_splits)
  show "queue_fits {} st' k m" if "map_get (fs_queues st') k = Some m" for k m
  proof -
    have "map_get (fs_queues st) k = Some m" "k \<noteq> key" using that st'(2) by (auto split: if_splits)
    thus ?thesis using followups_okD(3)[OF ok, of k m] st' by (auto simp: queue_fits_def)
  qed
  show "messages_of k (fs_accepted st') = messages_of k (fs_delivered st') @ waiting k st'" for k
    using followups_okD(5)[OF ok, of k] live empty st' by (auto simp: waiting_def split: if_splits option.splits)
qed

lemma followups_ok_not_busy:
  assumes ok: "followups_ok {key} st"
    and "\<And>n. map_get (fs_queues st) key = Some n \<Longrightarrow>
      fq_items (object_at st n) = [] \<or> map_get (fs_callbacks st) key = None \<or> fq_draining (object_at st n)"
  shows "followups_ok {} st"
proof (rule followups_okI)
  show "queue_fits {} st k n" if "map_get (fs_queues st) k = Some n" for k n
    using followups_okD(3)[OF ok that] assms(2)[of n] that by (cases "k = key") (auto simp: queue_fits_def)
qed (auto intro: followups_okD[OF ok])

lemma followups_ok_schedule:
  assumes ok: "followups_ok {key} st"
  shows "followups_ok {} (scheduleFollowupDrain key cb st)"
proof (cases "\<exists>n. map_get (fs_queues st) key = Some n \<and> \<not> fq_draining (object_at st n)")
  case False
  hence "scheduleFollowupDrain key cb st = st" by (auto simp: scheduleFollowupDrain_def split: option.splits)
  thus ?thesis using followups_ok_not_busy[OF ok] False by auto
next
  case True
  then obtain n where live: "map_get (fs_queues st) key = Some n" and nd: "\<not> fq_draining (object_at st n)" by blast
  let ?q = "object_at st n"
  have idle: "dr_key e \<noteq> key" if "e \<in> set (fs_drains st)" for e
    using followups_okD(1)[OF ok that] live nd by (auto simp: drain_fits_def)
  hence idle': "key \<notin> dr_key ` set (fs_drains st)" by auto
  have n: "n < length (fs_objects st)" "queue_keeps ?q" using followups_okD(3)[OF ok live] by (auto simp: queue_fits_def)
  show ?thesis
  proof (cases "has_work ?q")
    case True
    hence items: "fq_items ?q \<noteq> []" using n by (auto simp: has_work_def queue_keeps_def)
    have busy: "has_work (?q\<lparr>fq_draining := True\<rparr>)" using True by (simp add: has_work_def)
    define d where "d = \<lparr>dr_key = key, dr_queue = n, dr_callback = cb, dr_force = False, dr_pc = AtDebounce (debounce_of (?q\<lparr>fq_draining := True\<rparr>))\<rparr>"
    have d: "dr_key d = key" "dr_queue d = n" "pc_fits (dr_pc d) ids \<longleftrightarrow> ids \<noteq> []" for ids by (simp_all add: d_def)
    have st': "scheduleFollowupDrain key cb st = st\<lparr>fs_objects := (fs_objects st)[n := ?q\<lparr>fq_draining := True\<rparr>],
        fs_callbacks := map_set key cb (fs_callbacks st), fs_drains := fs_drains st @ [d]\<rparr>"
      using live nd n busy by (simp add: scheduleFollowupDrain_def start_drain_def set_object_def Let_def d_def)
    show ?thesis
      unfolding st'
      by (intro followups_ok_update[OF ok live, where q = "?q\<lparr>fq_draining := True\<rparr>"])
        (use live n d items idle idle' followups_okD(2)[OF ok] followups_okD(5)[OF ok, of key] in \<open>auto simp: queue_keeps_def waiting_def\<close>)
  next
    case False
    hence "fq_items ?q = []" "\<not> has_work (?q\<lparr>fq_draining := True\<rparr>)" by (simp_all add: has_work_def)
    moreover have same: "?q\<lparr>fq_draining := False\<rparr> = ?q" using nd by (cases ?q) simp
    ultimately show ?thesis
      by (intro followups_ok_delete[OF ok live])
        (use live nd n idle in \<open>auto simp: same Let_def scheduleFollowupDrain_def start_drain_def set_object_def\<close>)
  qed
qed

lemma followups_ok_kick: "followups_ok {key} st \<Longrightarrow> followups_ok {} (kickFollowupDrainIfIdle key st)"
  by (auto simp: kickFollowupDrainIfIdle_def intro: followups_ok_schedule followups_ok_not_busy split: option.splits)

lemma followups_ok_busy: "followups_ok {} st \<Longrightarrow> followups_ok {key} st"
  by (auto simp: followups_ok_def queue_fits_def)

lemma followups_ok_end:
  assumes ok: "followups_ok {} st" and i: "i < length (fs_drains st)" "fs_drains st ! i = d"
  shows "followups_ok {} (end_drain i d st)"
proof -
  let ?n = "dr_queue d" and ?k = "dr_key d"
  let ?q = "object_at st ?n"
  let ?st = "without_drain i (set_object ?n (?q\<lparr>fq_draining := False\<rparr>) st)"
  have live: "map_get (fs_queues st) ?k = Some ?n"
    using followups_okD(1)[OF ok, of d] i by (auto simp: drain_fits_def)
  have n: "?n < length (fs_objects st)" "queue_keeps ?q" using followups_okD(3)[OF ok live] by (auto simp: queue_fits_def)
  note ds = drains_remove[OF followups_okD(2)[OF ok] i(1), unfolded i(2)]
  have off: "dr_key e \<noteq> ?k" if "e \<in> set (take i (fs_drains st)) \<or> e \<in> set (drop (Suc i) (fs_drains st))" for e
    using ds(3) that by (metis UnCI imageI set_append)
  have ok': "followups_ok {?k} ?st"
    by (intro followups_ok_update[OF ok live, where q = "?q\<lparr>fq_draining := False\<rparr>"])
      (use ds off live n followups_okD(5)[OF ok, of ?k] in \<open>auto simp: without_drain_def set_object_def queue_keeps_def waiting_def\<close>)
  have idle: "?k \<notin> dr_key ` set (fs_drains ?st)" using ds(3) by (auto simp: without_drain_def set_object_def)
  have obj: "object_at ?st ?n = ?q\<lparr>fq_draining := False\<rparr>" "map_get (fs_queues ?st) ?k = Some ?n"
    using n live by (auto simp: without_drain_def set_object_def)
  show ?thesis
  proof (cases "fq_items ?q = []")
    case True
    show ?thesis
      by (intro followups_ok_delete[OF ok' obj(2)])
        (use True obj(1) idle n(2) in \<open>auto simp: end_drain_def Let_def queue_keeps_def\<close>)
  next
    case False
    hence "end_drain i d st = scheduleFollowupDrain ?k (dr_callback d) ?st" using obj(1) by (simp add: end_drain_def Let_def)
    thus ?thesis using followups_ok_schedule[OF ok'] by simp
  qed
qed

lemma followups_ok_loop:
  assumes ok: "followups_ok {} st" and i: "i < length (fs_drains st)" "fs_drains st ! i = d"
  shows "followups_ok {} (loop_drain i d st)"
proof -
  let ?q = "object_at st (dr_queue d)"
  have "drain_fits st d" using followups_okD(1)[OF ok] i by auto
  hence q: "fq_draining ?q" "queue_keeps ?q" using followups_okD(3)[OF ok] by (auto simp: drain_fits_def queue_fits_def)
  show ?thesis
  proof (cases "has_work ?q")
    case True
    have "followups_ok {} (set_drain i (d\<lparr>dr_pc := AtDebounce (debounce_of ?q)\<rparr>) st)"
      by (rule followups_ok_set_drain[OF ok i, where ms = "[]" and q = ?q])
        (use q True in \<open>auto simp: set_drain_def has_work_def queue_keeps_def\<close>)
    thus ?thesis using True by (simp add: loop_drain_def Let_def)
  qed (simp add: loop_drain_def followups_ok_end[OF ok i])
qed

text \<open>What the invariant says of the queue of a drain.\<close>

lemma drain_at:
  assumes ok: "followups_ok {} st" and i: "i < length (fs_drains st)" "fs_drains st ! i = d"
  shows "map_get (fs_queues st) (dr_key d) = Some (dr_queue d)" "dr_queue d < length (fs_objects st)"
    "fq_draining (object_at st (dr_queue d))" "queue_keeps (object_at st (dr_queue d))"
    "pc_fits (dr_pc d) (map fst (fq_items (object_at st (dr_queue d))))"
    "previewQueueSummaryPrompt noun (object_at st (dr_queue d)) = None"
proof -
  have "drain_fits st d" using followups_okD(1)[OF ok] i by auto
  thus "map_get (fs_queues st) (dr_key d) = Some (dr_queue d)" "fq_draining (object_at st (dr_queue d))"
    "pc_fits (dr_pc d) (map fst (fq_items (object_at st (dr_queue d))))"
    by (simp_all add: drain_fits_def)
  from this(1) show "dr_queue d < length (fs_objects st)" and keeps: "queue_keeps (object_at st (dr_queue d))"
    using followups_okD(3)[OF ok] by (auto simp: queue_fits_def)
  show "previewQueueSummaryPrompt noun (object_at st (dr_queue d)) = None"
    using keeps by (simp add: queue_keeps_def previewQueueSummaryPrompt_def)
qed

lemma followups_ok_next_item:
  assumes ok: "followups_ok {} st" and i: "i < length (fs_drains st)" "fs_drains st ! i = d"
    and d': "dr_key d' = dr_key d" "dr_queue d' = dr_queue d" and items: "fq_items (object_at st (dr_queue d)) \<noteq> []"
  shows "followups_ok {} (drainNextQueueItem i d' InItem prompt st)"
proof (rule followups_ok_set_drain[OF ok i, where ms = "[]" and q = "object_at st (dr_queue d)"
      and d' = "d'\<lparr>dr_pc := InItem (fst (hd (fq_items (object_at st (dr_queue d)))))\<rparr>"])
qed (use drain_at[OF ok i] d' items in \<open>auto simp: drainNextQueueItem_def set_drain_def hd_map split: list.splits\<close>)

lemma followups_ok_body:
  assumes ok: "followups_ok {} st" and i: "i < length (fs_drains st)" "fs_drains st ! i = d"
    and items: "fq_items (object_at st (dr_queue d)) \<noteq> []"
  shows "followups_ok {} (drain_body registry i d st)"
proof -
  have "followups_ok {} (set_drain i (d\<lparr>dr_pc := AfterSkip\<rparr>) st)"
    by (rule followups_ok_set_drain[OF ok i, where ms = "[]" and q = "object_at st (dr_queue d)"])
      (use drain_at[OF ok i] items in \<open>auto simp: set_drain_def\<close>)
  moreover have "followups_ok {} (drainNextQueueItem i (d\<lparr>dr_force := f\<rparr>) InItem fr_prompt st)" for f
    by (rule followups_ok_next_item[OF ok i _ _ items]) simp_all
  moreover have "followups_ok {} (drainNextQueueItem i d InItem fr_prompt st)"
    by (rule followups_ok_next_item[OF ok i _ _ items]) simp_all
  ultimately show ?thesis by (simp add: drain_body_def Let_def drain_at(6)[OF ok i])
qed

lemma followups_ok_collect:
  assumes ok: "followups_ok {} st" and i: "i < length (fs_drains st)" "fs_drains st ! i = d"
    and items: "fq_items (object_at st (dr_queue d)) \<noteq> []"
  shows "followups_ok {} (collect_body i d st)"
proof (rule followups_ok_set_drain[OF ok i, where ms = "[]" and q = "object_at st (dr_queue d)"
      and d' = "d\<lparr>dr_pc := InCollect (map fst (fq_items (object_at st (dr_queue d)))) False\<rparr>"])
qed (use drain_at[OF ok i] items in \<open>auto simp: collect_body_def set_drain_def Let_def\<close>)

lemma followups_ok_resume:
  assumes ok: "followups_ok {} st" and i: "i < length (fs_drains st)" "fs_drains st ! i = d"
  shows "followups_ok {} (resume_drain registry now i d st)"
proof (cases "dr_pc d")
  case (AtDebounce ms)
  have "followups_ok {} (set_drain i (d\<lparr>dr_pc := Ready\<rparr>) st)"
    by (rule followups_ok_set_drain[OF ok i, where ms = "[]" and q = "object_at st (dr_queue d)"])
      (use drain_at[OF ok i] AtDebounce in \<open>auto simp: set_drain_def\<close>)
  thus ?thesis using ok AtDebounce by (simp add: resume_drain_def Let_def)
qed (use ok followups_ok_body[OF ok i] followups_ok_collect[OF ok i] followups_ok_loop[OF ok i] drain_at(5)[OF ok i] in
    \<open>auto simp: resume_drain_def Let_def\<close>)

lemma followups_ok_fails:
  assumes ok: "followups_ok {} st" and i: "i < length (fs_drains st)" "fs_drains st ! i = d"
  shows "followups_ok {} (run_fails now i d st)"
proof -
  let ?q = "(object_at st (dr_queue d))\<lparr>fq_lastEnqueuedAt := now\<rparr>"
  have "followups_ok {} (set_object (dr_queue d) ?q st)"
    by (rule followups_ok_set_drain[OF ok i, where ms = "[]" and q = ?q and d' = d])
      (use drain_at[OF ok i] i in \<open>auto simp: set_object_def queue_keeps_def list_update_same_conv\<close>)
  thus ?thesis using i by (auto simp: run_fails_def Let_def set_object_def intro: followups_ok_end)
qed

lemma loop_drain_set:
  "loop_drain i d st = loop_drain i (d\<lparr>dr_pc := pc\<rparr>) (set_drain i (d\<lparr>dr_pc := pc\<rparr>) st)"
  by (simp add: loop_drain_def end_drain_def set_drain_def without_drain_def set_object_def Let_def)

lemma followups_ok_succeeds:
  assumes ok: "followups_ok {} st" and i: "i < length (fs_drains st)" "fs_drains st ! i = d"
  shows "followups_ok {} (run_succeeds i d st)"
proof -
  let ?n = "dr_queue d"
  let ?q = "object_at st ?n"
  note at = drain_at[OF ok i]
  show ?thesis
  proof (cases "dr_pc d")
    case (InItem m)
    have "map fst (fq_items ?q) = [m] @ map fst (fq_items (shift_items 1 ?q))"
      using at(5) InItem by (cases "fq_items ?q") (auto simp: shift_items_def)
    thus ?thesis
      by (intro followups_ok_set_drain[OF ok i, where ms = "[m]" and q = "shift_items 1 ?q" and d' = "d\<lparr>dr_pc := AfterItem\<rparr>"])
        (use at InItem in \<open>auto simp: run_succeeds_def set_drain_def set_object_def shift_items_def queue_keeps_def Let_def\<close>)
  next
    case (InCollect ms summary)
    let ?d = "d\<lparr>dr_pc := AfterItem\<rparr>"
    let ?st = "set_drain i ?d ((set_object ?n (shift_items (length ms) ?q) st)\<lparr>fs_delivered := fs_delivered st @ map (Pair (dr_key d)) ms\<rparr>)"
    have "ms @ map fst (drop (length ms) (fq_items ?q)) = map fst (fq_items ?q)"
      using at(5) InCollect by (metis append_take_drop_id drop_map pc_fits.simps(2))
    hence "followups_ok {} ?st"
      by (intro followups_ok_set_drain[OF ok i, where ms = ms and q = "shift_items (length ms) ?q" and d' = ?d])
        (use at InCollect in \<open>auto simp: set_drain_def set_object_def shift_items_def queue_keeps_def\<close>)
    hence "followups_ok {} (loop_drain i ?d ?st)"
      by (rule followups_ok_loop) (use i in \<open>auto simp: set_drain_def set_object_def\<close>)
    thus ?thesis using at(5) InCollect by (simp add: run_succeeds_def Let_def loop_drain_set[of i d _ AfterItem])
  qed (use at(5) ok in \<open>auto simp: run_succeeds_def\<close>)
qed

section \<open>Enqueueing keeps the invariant\<close>

definition refuses_overflow :: "queue_settings \<Rightarrow> bool" where
  "refuses_overflow settings = (se_dropPolicy settings = Some DropNew)"

lemma drop_policy_keeps:
  assumes "queue_keeps q" "applyQueueDropPolicy ellipsis q = (b, q', dropped)"
  shows "q' = q"
  using assms by (auto simp: applyQueueDropPolicy_def queue_keeps_def Let_def split: if_splits)

text \<open>Messages are added to a queue; the key is then busy.\<close>

lemma followups_ok_append:
  assumes ok: "followups_ok {} st" and live: "map_get (fs_queues st) key = Some n"
    and q: "queue_keeps q" "fq_draining q = fq_draining (object_at st n)"
      "map fst (fq_items q) = map fst (fq_items (object_at st n)) @ added"
    and st': "fs_objects st' = (fs_objects st)[n := q]" "fs_queues st' = fs_queues st" "fs_callbacks st' = fs_callbacks st"
      "fs_drains st' = fs_drains st" "fs_accepted st' = fs_accepted st @ map (Pair key) added" "fs_delivered st' = fs_delivered st"
  shows "followups_ok {key} st'"
proof (rule followups_ok_update[OF ok live st'(1,2)])
  show "dr_queue e = n \<and> fq_draining q \<and> pc_fits (dr_pc e) (map fst (fq_items q))"
    if "e \<in> set (fs_drains st')" "dr_key e = key" for e
    using followups_okD(1)[OF ok, of e] that st'(4) live q(2,3) pc_fits_append by (auto simp: drain_fits_def)
  show "key \<in> dr_key ` set (fs_drains st')" if "fq_draining q"
    using that followups_okD(3)[OF ok live] q(2) st'(4) by (simp add: queue_fits_def)
qed (use st' q followups_okD(2)[OF ok] followups_okD(5)[OF ok, of key] live in \<open>auto simp: waiting_def\<close>)

lemma followups_ok_get_queue:
  fixes st :: "'r followup_state"
  assumes ok: "followups_ok {} st" and settings: "refuses_overflow settings" and get: "getFollowupQueue key settings st = (n, st')"
  shows "followups_ok {} st'" "map_get (fs_queues st') key = Some n"
proof -
  show "map_get (fs_queues st') key = Some n"
    using get by (auto simp: getFollowupQueue_def set_object_def Let_def split: option.splits)
  show "followups_ok {} st'"
  proof (cases "map_get (fs_queues st) key")
    case (Some m)
    let ?q = "applyQueueRuntimeSettings settings (object_at st n)"
    have n: "m = n" "st' = set_object n ?q st" using get Some by (auto simp: getFollowupQueue_def)
    note fits = followups_okD(3)[OF ok Some]
    have "followups_ok {key} st'"
      by (rule followups_ok_append[OF ok, where added = "[]" and q = ?q and n = n])
        (use Some n settings fits in
          \<open>auto simp: set_object_def applyQueueRuntimeSettings_def refuses_overflow_def queue_keeps_def queue_fits_def\<close>)
    thus ?thesis
      by (rule followups_ok_not_busy)
        (use Some n fits in \<open>auto simp: set_object_def applyQueueRuntimeSettings_def queue_fits_def\<close>)
  next
    case None
    let ?q = "applyQueueRuntimeSettings settings (created_queue settings) :: 'r followup_queue"
    have n: "n = length (fs_objects st)"
      "st' = st\<lparr>fs_objects := fs_objects st @ [?q], fs_queues := map_set key n (fs_queues st)\<rparr>"
      using get None by (auto simp: getFollowupQueue_def Let_def)
    have q: "queue_keeps ?q" "fq_items ?q = []" "\<not> fq_draining ?q"
      using settings by (auto simp: applyQueueRuntimeSettings_def created_queue_def refuses_overflow_def queue_keeps_def)
    have new: "object_at st' n = ?q" by (simp add: n)
    have old: "k \<noteq> key \<and> m < length (fs_objects st) \<and> object_at st' m = object_at st m"
      if "map_get (fs_queues st) k = Some m" for k m
      using followups_okD(3)[OF ok that] that None n(2) by (auto simp: queue_fits_def nth_append)
    show ?thesis
    proof (rule followups_okI)
      show "drain_fits st' d" if "d \<in> set (fs_drains st')" for d
        using followups_okD(1)[OF ok, of d] that n(2) old by (auto simp: drain_fits_def)
      show "queue_fits {} st' k m" if "map_get (fs_queues st') k = Some m" for k m
      proof (cases "k = key")
        case True
        hence "m = n" "n < length (fs_objects st')" using that n by simp_all
        thus ?thesis using new q by (simp add: queue_fits_def)
      next
        case False
        hence m: "map_get (fs_queues st) k = Some m" using that n(2) by simp
        show ?thesis using followups_okD(3)[OF ok m] old[OF m] n(2) by (simp add: queue_fits_def)
      qed
      show "k = k'" if "map_get (fs_queues st') k = Some m" "map_get (fs_queues st') k' = Some m" for k k' m
        using that n old followups_okD(4)[OF ok] by (auto split: if_splits)
      show "messages_of k (fs_accepted st') = messages_of k (fs_delivered st') @ waiting k st'" for k
        using followups_okD(5)[OF ok, of k] n(2) new q(2) old None by (auto simp: waiting_def split: option.splits if_splits)
    qed (use n followups_okD(2)[OF ok] in simp)
  qed
qed

lemma followups_ok_enqueue:
  assumes ok: "followups_ok {} st" and settings: "refuses_overflow settings"
  shows "followups_ok {} (snd (enqueueFollowupRun registry ellipsis now key run settings mode st))"
proof -
  obtain n st1 where get: "getFollowupQueue key settings st = (n, st1)" by fastforce
  note ok1 = followups_ok_get_queue[OF ok settings get]
  let ?q = "(object_at st1 n)\<lparr>fq_lastEnqueuedAt := now, fq_lastRun := Some (fr_run run)\<rparr>"
  obtain b q dropped where pol: "applyQueueDropPolicy ellipsis ?q = (b, q, dropped)" using prod_cases3 by blast
  note fits = followups_okD(3)[OF ok1]
  have q: "q = ?q" using drop_policy_keeps[OF _ pol] fits by (auto simp: queue_keeps_def queue_fits_def)
  let ?r = "?q\<lparr>fq_items := fq_items ?q @ [(fs_nextMessage st1, run)]\<rparr>"
  have refused: "followups_ok {} (set_object n ?q st1)"
  proof (rule followups_ok_not_busy)
    show "followups_ok {key} (set_object n ?q st1)"
      by (rule followups_ok_append[OF ok1, where added = "[]"]) (use fits in \<open>auto simp: set_object_def queue_fits_def queue_keeps_def\<close>)
  qed (use ok1(2) fits in \<open>auto simp: set_object_def queue_fits_def\<close>)
  let ?st = "(set_object n ?r st1)\<lparr>fs_nextMessage := fs_nextMessage st1 + 1, fs_accepted := fs_accepted st1 @ [(key, fs_nextMessage st1)]\<rparr>"
  have added: "followups_ok {key} ?st"
    by (rule followups_ok_append[OF ok1, where added = "[fs_nextMessage st1]"])
      (use fits in \<open>auto simp: set_object_def queue_fits_def queue_keeps_def\<close>)
  have "followups_ok {} ?st" if "fq_draining ?q"
    by (rule followups_ok_not_busy[OF added]) (use that ok1(2) fits in \<open>auto simp: set_object_def queue_fits_def\<close>)
  thus ?thesis using ok1(1) refused followups_ok_kick[OF added]
    by (auto simp: enqueueFollowupRun_def get pol q Let_def)
qed

fun keeps_messages :: "'r followup_event \<Rightarrow> bool" where
  "keeps_messages (Enqueue key run settings mode) = refuses_overflow settings"
| "keeps_messages (ClearKeys keys) = False"
| "keeps_messages _ = True"

lemma followups_ok_step:
  assumes "followups_ok {} st" and "keeps_messages ev"
  shows "followups_ok {} (followup_step registry ellipsis now ev st)"
  using assms
  by (cases ev) (auto intro: followups_ok_enqueue followups_ok_schedule followups_ok_busy followups_ok_resume
      followups_ok_succeeds followups_ok_fails)

lemma followups_ok_run:
  "followups_ok {} st \<Longrightarrow> list_all (\<lambda>(now, ev). keeps_messages ev) evs \<Longrightarrow> followups_ok {} (followup_run_all registry ellipsis evs st)"
  by (induction evs arbitrary: st) (auto simp: followup_run_all_def intro: followups_ok_step)

lemma followups_ok_empty: "followups_ok {} empty_followups"
  by (auto simp: followups_ok_def empty_followups_def waiting_def)

text \<open>
  C40: while the settings refuse a message that does not fit (the policy "new") and no queue is
  cleared, no accepted message is lost, repeated or reordered, whatever the interleaving of enqueues,
  debounces, calls and failures: of every key, the accepted messages are the delivered ones followed
  by the ones that wait; and where messages wait and a callback is known, a drain is at work.
\<close>

theorem accepted_messages_are_kept:
  assumes "list_all (\<lambda>(now, ev). keeps_messages ev) evs" and "st = followup_run_all registry ellipsis evs empty_followups"
  shows "messages_of key (fs_accepted st) = messages_of key (fs_delivered st) @ waiting key st \<and>
    (waiting key st \<noteq> [] \<and> map_get (fs_callbacks st) key \<noteq> None \<longrightarrow> list_ex (\<lambda>d. dr_key d = key) (fs_drains st))"
proof -
  have ok: "followups_ok {} st" using followups_ok_run[OF followups_ok_empty assms(1)] assms(2) by simp
  have "list_ex (\<lambda>d. dr_key d = key) (fs_drains st)" if "waiting key st \<noteq> []" "map_get (fs_callbacks st) key \<noteq> None"
    using that followups_okD(3)[OF ok, of key] by (auto simp: waiting_def queue_fits_def list_ex_iff split: option.splits)
  thus ?thesis using followups_okD(5)[OF ok] by blast
qed

definition sample_run :: "string \<Rightarrow> unit followup_run" where
  "sample_run prompt = \<lparr>fr_prompt = prompt, fr_messageId = Some prompt, fr_summaryLine = None, fr_enqueuedAt = 0,
     fr_originatingChannel = None, fr_originatingTo = None, fr_originatingAccountId = None, fr_originatingThreadId = None, fr_run = ()\<rparr>"

definition sample_settings :: "queue_mode \<Rightarrow> int \<Rightarrow> drop_policy \<Rightarrow> queue_settings" where
  "sample_settings mode cap policy = \<lparr>se_mode = mode, se_debounceMs = Some (js_int 0), se_cap = Some (js_int cap), se_dropPolicy = Some policy\<rparr>"

definition sample_enqueue :: "string \<Rightarrow> queue_settings \<Rightarrow> int \<times> unit followup_event" where
  "sample_enqueue prompt settings = (0, Enqueue ''k'' (sample_run prompt) settings ByMessageId)"

definition sample_trace :: "queue_settings \<Rightarrow> (int \<times> unit followup_event) list" where
  "sample_trace settings = [sample_enqueue ''a'' settings, (0, Finalize ''k'' 7), (0, Resume 0), (0, Resume 0),
     sample_enqueue ''b'' settings, sample_enqueue ''c'' settings, (0, RunSucceeds 0), (0, Resume 0), (0, Resume 0), (0, Resume 0)]"

theorem accepted_messages_are_kept_witness:
  "(let st = followup_run_all None [] (sample_trace (sample_settings Followup 2 DropNew)) empty_followups in
     messages_of ''k'' (fs_accepted st) = messages_of ''k'' (fs_delivered st) @ waiting ''k'' st \<and>
     messages_of ''k'' (fs_accepted st) = [0, 1] \<and> waiting ''k'' st = [1] \<and> list_ex (\<lambda>d. dr_key d = ''k'') (fs_drains st))"
proof -
  let ?st = "followup_run_all None [] (sample_trace (sample_settings Followup 2 DropNew)) empty_followups"
  have keeps: "list_all (\<lambda>(now, ev). keeps_messages ev) (sample_trace (sample_settings Followup 2 DropNew))" by code_simp
  have "messages_of ''k'' (fs_accepted ?st) = [0, 1] \<and> messages_of ''k'' (fs_delivered ?st) = [0] \<and> waiting ''k'' ?st = [1] \<and> map_get (fs_callbacks ?st) ''k'' = Some 7" by code_simp
  thus ?thesis using accepted_messages_are_kept[OF keeps refl, where registry = None and ellipsis = "[]" and key = "''k''"] by (simp add: Let_def)
qed

text \<open>
  With the policy "summarize" accepted messages are lost. The queue holds two messages in the
  mode "followup"; "b" and "c" come while "a" is worked on: "c" drops "a", the message at work, and when
  its call is done the drain shifts "b" away; the summary then takes "c". Neither "b" nor "c" is
  in a prompt of the agent, and the queue is gone.
\<close>

theorem summarized_overflow_loses_messages:
  "(let st = followup_run_all None [] (sample_trace (sample_settings Followup 2 DropSummarize) @ [(0, RunSucceeds 0), (0, Resume 0)]) empty_followups in
     map snd (fs_accepted st) = [0, 1, 2] \<and> map snd (fs_delivered st) = [0] \<and>
     fs_prompts st = [''a'', ''[Queue overflow] Dropped 1 message due to cap.'' @ [CHR 0x0A] @ ''Summary:'' @ [CHR 0x0A] @ ''- a''] \<and>
     fs_queues st = [] \<and> fs_drains st = [])"
  by code_simp

definition spinning_state :: "unit followup_state" where
  "spinning_state = followup_run_all None [] [sample_enqueue ''a'' (sample_settings Followup 1 DropSummarize), (0, Finalize ''k'' 7),
     (0, Resume 0), (0, Resume 0), sample_enqueue ''b'' (sample_settings Followup 1 DropSummarize), (0, RunSucceeds 0), (0, Resume 0)]
     empty_followups"

text \<open>
  With a cap of one, a message that comes while another is worked on makes the drain spin: the
  queue is empty and its count of dropped messages is not zero, so the drain finds no item for the
  summary, breaks and starts again, for ever, with no timer in between.
\<close>

theorem drain_of_one_spins:
  "followup_run_all None [] (replicate (3 * n) (0, Resume 0)) spinning_state = spinning_state \<and>
   waiting ''k'' spinning_state = [] \<and> map snd (fs_accepted spinning_state) = [0, 1] \<and> map snd (fs_delivered spinning_state) = [0]"
proof -
  have "followup_run_all None [] [(0, Resume 0), (0, Resume 0), (0, Resume 0)] spinning_state = spinning_state" by code_simp
  hence "followup_run_all None [] (replicate (3 * n) (0, Resume 0)) spinning_state = spinning_state"
    by (induction n) (simp_all add: followup_run_all_def replicate_add numeral_3_eq_3)
  moreover have "waiting ''k'' spinning_state = [] \<and> map snd (fs_accepted spinning_state) = [0, 1] \<and>
      map snd (fs_delivered spinning_state) = [0]" by code_simp
  ultimately show ?thesis by blast
qed

section \<open>A queue is bounded by its cap\<close>

definition queue_within :: "nat \<Rightarrow> 'r followup_queue \<Rightarrow> bool" where
  "queue_within limit q = (length (fq_items q) \<le> limit \<and> (\<exists>k \<in> {1..limit}. fq_cap q = js_int (int k)))"

fun caps_within :: "nat \<Rightarrow> 'r followup_event \<Rightarrow> bool" where
  "caps_within limit (Enqueue key run settings mode) = (case se_cap settings of Some (Fin c) \<Rightarrow> 1 \<le> c \<and> c \<le> of_nat limit | _ \<Rightarrow> False)"
| "caps_within limit _ = True"

abbreviation all_within :: "nat \<Rightarrow> 'r followup_state \<Rightarrow> bool" where
  "all_within limit st \<equiv> list_all (queue_within limit) (fs_objects st)"

lemma all_within_set:
  assumes "all_within limit st" "n < length (fs_objects st) \<Longrightarrow> queue_within limit (object_at st n) \<Longrightarrow> queue_within limit q"
  shows "all_within limit (set_object n q st)"
proof (cases "n < length (fs_objects st)")
  case True
  hence "queue_within limit q" using assms by (simp add: list_all_length)
  thus ?thesis using assms(1) True by (simp add: set_object_def list_all_length nth_list_update)
qed (use assms(1) in \<open>simp add: set_object_def list_update_beyond\<close>)

lemma queue_within_same [simp]:
  "queue_within limit (q\<lparr>fq_draining := b\<rparr>) = queue_within limit q"
  "queue_within limit (q\<lparr>fq_lastEnqueuedAt := now\<rparr>) = queue_within limit q"
  "queue_within limit (q\<lparr>fq_lastEnqueuedAt := now, fq_lastRun := r\<rparr>) = queue_within limit q"
  "queue_within limit (clearQueueSummaryState q) = queue_within limit q"
  "queue_within limit q \<Longrightarrow> queue_within limit (shift_items k q)"
  "queue_within limit q \<Longrightarrow> queue_within limit (q\<lparr>fq_items := [], fq_droppedCount := 0, fq_summaryLines := [], fq_lastRun := None, fq_lastEnqueuedAt := 0\<rparr>)"
  by (auto simp: queue_within_def clearQueueSummaryState_def shift_items_def)

lemma queue_within_settings:
  assumes "caps_within limit (Enqueue key run settings mode)" "length (fq_items q) \<le> limit"
  shows "queue_within limit (applyQueueRuntimeSettings settings q)"
proof -
  obtain c where c: "se_cap settings = Some (Fin c)" "1 \<le> c" "c \<le> of_nat limit"
    using assms(1) by (auto split: option.splits js_num.splits)
  have "1 \<le> \<lfloor>c\<rfloor>" "\<lfloor>c\<rfloor> \<le> int limit" using c(2,3) by (simp_all add: le_floor_iff floor_le_iff)
  hence k: "js_floor (Fin c) = js_int (int (nat \<lfloor>c\<rfloor>))" "nat \<lfloor>c\<rfloor> \<in> {1..limit}" by (simp_all add: nat_le_iff le_nat_iff)
  have "fq_cap (applyQueueRuntimeSettings settings q) = js_floor (Fin c)" using c by (simp add: applyQueueRuntimeSettings_def)
  hence "\<exists>k \<in> {1..limit}. fq_cap (applyQueueRuntimeSettings settings q) = js_int (int k)" using k by metis
  thus ?thesis using assms(2) by (simp add: queue_within_def applyQueueRuntimeSettings_def)
qed

lemma drop_policy_within:
  assumes within: "queue_within limit q" and pol: "applyQueueDropPolicy ellipsis q = (True, q', dropped)"
  shows "queue_within limit (q'\<lparr>fq_items := fq_items q' @ [item]\<rparr>)"
proof -
  obtain k where cap: "fq_cap q = js_int (int k)" "1 \<le> k" "k \<le> limit" and len: "length (fq_items q) \<le> limit"
    using within by (auto simp: queue_within_def)
  have "length (fq_items q') < limit \<and> fq_cap q' = fq_cap q"
  proof (cases "length (fq_items q) < k")
    case True
    thus ?thesis using pol cap by (auto simp: applyQueueDropPolicy_def Let_def split: if_splits)
  next
    case False
    hence "(of_nat (length (fq_items q)) - of_nat k + 1 :: rat) = of_int (int (length (fq_items q) - k + 1))"
      by (simp add: of_nat_diff)
    hence "nat \<lfloor>(of_nat (length (fq_items q)) - of_nat k + 1 :: rat)\<rfloor> = length (fq_items q) - k + 1"
      by (metis floor_of_int nat_int)
    thus ?thesis using pol cap False len by (auto simp: applyQueueDropPolicy_def Let_def split: if_splits)
  qed
  thus ?thesis using within cap by (simp add: queue_within_def)
qed

lemma all_within_start: "all_within limit st \<Longrightarrow> all_within limit (start_drain key n callback st)"
  by (auto simp: start_drain_def Let_def intro: all_within_set)

lemma all_within_schedule: "all_within limit st \<Longrightarrow> all_within limit (scheduleFollowupDrain key callback st)"
  unfolding scheduleFollowupDrain_def
  by (auto split: option.split intro!: all_within_start) (rule all_within_set, auto)

lemma all_within_kick: "all_within limit st \<Longrightarrow> all_within limit (kickFollowupDrainIfIdle key st)"
  by (simp add: kickFollowupDrainIfIdle_def all_within_schedule split: option.split)

lemma all_within_end: "all_within limit st \<Longrightarrow> all_within limit (end_drain i d st)"
  using all_within_set[of limit st "dr_queue d" "(object_at st (dr_queue d))\<lparr>fq_draining := False\<rparr>"]
  by (simp add: end_drain_def Let_def without_drain_def all_within_schedule)

lemma all_within_set_drain [simp]: "all_within limit (set_drain i d st) = all_within limit st"
  by (simp add: set_drain_def)

lemma all_within_loop: "all_within limit st \<Longrightarrow> all_within limit (loop_drain i d st)"
  by (simp add: loop_drain_def Let_def all_within_end)

lemma all_within_next: "all_within limit st \<Longrightarrow> all_within limit (drainNextQueueItem i d pc prompt st)"
  by (simp add: drainNextQueueItem_def split: list.split)

lemma all_within_body: "all_within limit st \<Longrightarrow> all_within limit (drain_body registry i d st)"
  by (simp add: drain_body_def Let_def all_within_next all_within_end split: option.split)

lemma all_within_collect: "all_within limit st \<Longrightarrow> all_within limit (collect_body i d st)"
  by (simp add: collect_body_def Let_def all_within_end split: option.split)

lemma all_within_resume: "all_within limit st \<Longrightarrow> all_within limit (resume_drain registry now i d st)"
  by (simp add: resume_drain_def Let_def all_within_body all_within_collect all_within_end all_within_loop all_within_set
      split: drain_pc.split)

lemma all_within_succeeds: "all_within limit st \<Longrightarrow> all_within limit (run_succeeds i d st)"
  by (auto simp: run_succeeds_def Let_def all_within_set intro!: all_within_loop split: drain_pc.split)

lemma all_within_fails: "all_within limit st \<Longrightarrow> all_within limit (run_fails now i d st)"
  by (simp add: run_fails_def Let_def all_within_end all_within_set)

lemma all_within_clear_queue: "all_within limit st \<Longrightarrow> all_within limit (snd (clearFollowupQueue key st))"
  by (auto simp: clearFollowupQueue_def Let_def split: option.split) (rule all_within_set, auto simp: queue_within_def)

lemma all_within_clear: "all_within limit st \<Longrightarrow> all_within limit (snd (clear_session_loop keys seen cleared st))"
proof (induction keys seen cleared st rule: clear_session_loop.induct)
  case (2 key keys seen cleared st)
  let ?k = "nullish (map_option trim key) []"
  obtain n st1 where "clearFollowupQueue ?k st = (n, st1)" by fastforce
  thus ?case using 2 all_within_clear_queue[of limit st ?k] by (simp add: Let_def clearFollowupDrainCallback_def)
qed simp

lemma all_within_enqueue:
  assumes "all_within limit st" "caps_within limit (Enqueue key run settings mode)"
  shows "all_within limit (snd (enqueueFollowupRun registry ellipsis now key run settings mode st))"
proof -
  obtain n st1 where get: "getFollowupQueue key settings st = (n, st1)" by fastforce
  have st1: "all_within limit st1"
  proof (cases "map_get (fs_queues st) key")
    case None
    thus ?thesis using get assms queue_within_settings[OF assms(2), of "created_queue settings"]
      by (auto simp: getFollowupQueue_def Let_def created_queue_def)
  next
    case (Some m)
    hence "st1 = set_object n (applyQueueRuntimeSettings settings (object_at st n)) st" using get by (auto simp: getFollowupQueue_def)
    moreover have "length (fq_items r) \<le> limit" if "queue_within limit r" for r :: "'a followup_queue"
      using that by (simp add: queue_within_def)
    ultimately show ?thesis using all_within_set[OF assms(1)] queue_within_settings[OF assms(2)] by metis
  qed
  let ?q = "(object_at st1 n)\<lparr>fq_lastEnqueuedAt := now, fq_lastRun := Some (fr_run run)\<rparr>"
  obtain b q dropped where pol: "applyQueueDropPolicy ellipsis ?q = (b, q, dropped)" using prod_cases3 by blast
  have q: "\<not> b \<Longrightarrow> q = ?q" using pol by (auto simp: applyQueueDropPolicy_def Let_def split: if_splits)
  have added: "b \<Longrightarrow> all_within limit (set_object n (q\<lparr>fq_items := fq_items q @ [item]\<rparr>) st1)" for item
    using pol by (intro all_within_set[OF st1] drop_policy_within) auto
  have "all_within limit (set_object n ?q st1)" by (rule all_within_set[OF st1]) simp
  thus ?thesis using st1 q added by (auto simp: enqueueFollowupRun_def get pol Let_def intro!: all_within_kick)
qed

lemma all_within_step:
  assumes "all_within limit st" "caps_within limit ev"
  shows "all_within limit (followup_step registry ellipsis now ev st)"
proof (cases ev)
  case (Enqueue key run settings mode)
  thus ?thesis using all_within_enqueue[of limit st key run settings mode] assms by simp
qed (use assms in \<open>auto simp: clearSessionQueues_def all_within_clear all_within_schedule all_within_resume all_within_succeeds
    all_within_fails\<close>)

text \<open>
  when every enqueue comes with a cap between one and \<open>limit\<close>, as the resolved settings do, no
  queue, live or cleared, ever holds more than \<open>limit\<close> messages, whatever the policy, the mode and
  the interleaving with drains, failures and clears.
\<close>

theorem queues_stay_within_cap:
  assumes "list_all (\<lambda>(now, ev). caps_within limit ev) evs"
  shows "list_all (\<lambda>q. length (fq_items q) \<le> limit) (fs_objects (followup_run_all registry ellipsis evs empty_followups))"
proof -
  have "all_within limit (followup_run_all registry ellipsis evs st)" if "all_within limit st" for st
    using assms that by (induction evs arbitrary: st) (auto simp: followup_run_all_def intro: all_within_step)
  from this[of empty_followups] show ?thesis by (auto simp: empty_followups_def list_all_iff queue_within_def)
qed

theorem queues_stay_within_cap_witness:
  "list_all (\<lambda>q. length (fq_items q) \<le> 2)
     (fs_objects (followup_run_all None [] (sample_trace (sample_settings Followup 2 DropSummarize)) empty_followups))"
  by (rule queues_stay_within_cap) code_simp

end
