(* ===== verification/ShellSyntax.thy ===== *)
theory ShellSyntax
  imports ExecWrappers
begin

text \<open>
  How the policy for commands reads a shell command line: the words of src/utils/shell-argv.ts, the
  chains, pipelines and here documents of src/infra/exec-approvals-analysis.ts, and the command
  lines that it builds from words. A scan keeps the rest of the text instead of an index; its
  flags inSingle, inDouble and escaped are never set together and are one mode.
\<close>

section \<open>Characters\<close>

definition squote :: char where "squote = CHR 0x27"
definition backtick :: char where "backtick = CHR 0x60"
definition newline :: char where "newline = CHR 0x0A"
definition carriage :: char where "carriage = CHR 0x0D"

lemmas shell_chars = squote_def backtick_def newline_def carriage_def dquote_def backslash_def

definition line_end :: "char \<Rightarrow> bool" where
  "line_end c = (c = newline \<or> c = carriage)"

datatype shell_mode = Plain | Escaped | InSingle | InDouble

section \<open>Words\<close>

text \<open>The escapes of shell-argv.ts, which include a line end, and those of exec-approvals-analysis.ts.\<close>

definition DOUBLE_QUOTE_ESCAPES_ARGV :: "char list" where
  "DOUBLE_QUOTE_ESCAPES_ARGV = [backslash, dquote, CHR ''$'', backtick, newline, carriage]"

definition DOUBLE_QUOTE_ESCAPES :: "char list" where
  "DOUBLE_QUOTE_ESCAPES = [backslash, dquote, CHR ''$'', backtick]"

definition next_in :: "char list \<Rightarrow> string \<Rightarrow> bool" where
  "next_in cs rest = (case rest of [] \<Rightarrow> False | c # _ \<Rightarrow> c \<in> set cs)"

definition next_is :: "char \<Rightarrow> string \<Rightarrow> bool" where
  "next_is c rest = next_in [c] rest"

definition push_token :: "string \<Rightarrow> string list \<Rightarrow> string list" where
  "push_token buf tokens = (if buf = [] then tokens else tokens @ [buf])"

fun split_args :: "string \<Rightarrow> shell_mode \<Rightarrow> string \<Rightarrow> string list \<Rightarrow> string list option" where
  "split_args [] mode buf tokens = (if mode = Plain then Some (push_token buf tokens) else None)"
| "split_args (ch # rest) Escaped buf tokens = split_args rest Plain (buf @ [ch]) tokens"
| "split_args (ch # rest) InSingle buf tokens =
     (if ch = squote then split_args rest Plain buf tokens else split_args rest InSingle (buf @ [ch]) tokens)"
| "split_args (ch # rest) InDouble buf tokens =
     (if ch = backslash \<and> next_in DOUBLE_QUOTE_ESCAPES_ARGV rest then split_args (tl rest) InDouble (buf @ [hd rest]) tokens
      else if ch = dquote then split_args rest Plain buf tokens
      else split_args rest InDouble (buf @ [ch]) tokens)"
| "split_args (ch # rest) Plain buf tokens =
     (if ch = backslash then split_args rest Escaped buf tokens
      else if ch = squote then split_args rest InSingle buf tokens
      else if ch = dquote then split_args rest InDouble buf tokens
      else if js_ws ch then split_args rest Plain [] (push_token buf tokens)
      else split_args rest Plain (buf @ [ch]) tokens)"

definition splitShellArgs :: "string \<Rightarrow> string list option" where
  "splitShellArgs raw = split_args raw Plain [] []"

text \<open>\<open>'\<close> in a word becomes \<open>'"'"'\<close>.\<close>

definition shellEscapeSingleArg :: "string \<Rightarrow> string" where
  "shellEscapeSingleArg v = [squote] @ concat (map (\<lambda>c. if c = squote then [squote, dquote, squote, dquote, squote] else [c]) v) @ [squote]"

definition renderQuotedArgv :: "string list \<Rightarrow> string" where
  "renderQuotedArgv argv = join_with '' '' (map shellEscapeSingleArg argv)"

section \<open>Windows\<close>

definition WINDOWS_UNSUPPORTED_TOKENS :: "char list" where
  "WINDOWS_UNSUPPORTED_TOKENS = ''&|<>^()%!'' @ [newline, carriage]"

definition findWindowsUnsupportedToken :: "string \<Rightarrow> string option" where
  "findWindowsUnsupportedToken command = (case List.find (\<lambda>ch. ch \<in> set WINDOWS_UNSUPPORTED_TOKENS) command of None \<Rightarrow> None
     | Some ch \<Rightarrow> Some (if line_end ch then ''newline'' else [ch]))"

fun windows_tokens :: "string \<Rightarrow> bool \<Rightarrow> string \<Rightarrow> string list \<Rightarrow> string list option" where
  "windows_tokens [] inDouble buf tokens =
     (if inDouble then None else let all = push_token buf tokens in if all = [] then None else Some all)"
| "windows_tokens (ch # rest) inDouble buf tokens =
     (if ch = dquote then windows_tokens rest (\<not> inDouble) buf tokens
      else if \<not> inDouble \<and> js_ws ch then windows_tokens rest inDouble [] (push_token buf tokens)
      else windows_tokens rest inDouble (buf @ [ch]) tokens)"

definition tokenizeWindowsSegment :: "string \<Rightarrow> string list option" where
  "tokenizeWindowsSegment segment = windows_tokens segment False [] []"

definition isWindowsPlatform :: "string option \<Rightarrow> bool" where
  "isWindowsPlatform platform = starts_with (to_lower (trim (nullish platform []))) ''win''"

section \<open>Chains\<close>

datatype chain_op = AndThen | OrElse | Sequence

fun op_text :: "chain_op \<Rightarrow> string" where
  "op_text AndThen = ''&&''"
| "op_text OrElse = ''||''"
| "op_text Sequence = '';''"

type_synonym chain_part = "string \<times> chain_op option"

record chain_scan =
  cs_parts :: "chain_part list"
  cs_buf :: string
  cs_found :: bool
  cs_invalid :: bool

definition add_char :: "string \<Rightarrow> chain_scan \<Rightarrow> chain_scan" where
  "add_char s st = st\<lparr>cs_buf := cs_buf st @ s\<rparr>"

definition push_chain :: "chain_op \<Rightarrow> chain_scan \<Rightarrow> chain_scan" where
  "push_chain op st = (let trimmed = trim (cs_buf st) in
     if trimmed = [] then st\<lparr>cs_buf := [], cs_found := True, cs_invalid := True\<rparr>
     else st\<lparr>cs_buf := [], cs_found := True, cs_parts := cs_parts st @ [(trimmed, Some op)]\<rparr>)"

fun chain_loop :: "string \<Rightarrow> shell_mode \<Rightarrow> chain_scan \<Rightarrow> chain_scan" where
  "chain_loop [] mode st = st"
| "chain_loop (ch # rest) Escaped st = chain_loop rest Plain (add_char [ch] st)"
| "chain_loop (ch # rest) InSingle st = chain_loop rest (if ch = squote then Plain else InSingle) (add_char [ch] st)"
| "chain_loop (ch # rest) InDouble st =
     (if ch = backslash \<and> next_in [newline, carriage] rest then st\<lparr>cs_invalid := True\<rparr>
      else if ch = backslash \<and> next_in DOUBLE_QUOTE_ESCAPES rest then chain_loop (tl rest) InDouble (add_char [ch, hd rest] st)
      else chain_loop rest (if ch = dquote then Plain else InDouble) (add_char [ch] st))"
| "chain_loop (ch # rest) Plain st =
     (if ch = backslash then chain_loop rest Escaped (add_char [ch] st)
      else if ch = squote then chain_loop rest InSingle (add_char [ch] st)
      else if ch = dquote then chain_loop rest InDouble (add_char [ch] st)
      else if ch = CHR ''&'' \<and> next_is (CHR ''&'') rest then chain_loop (tl rest) Plain (push_chain AndThen st)
      else if ch = CHR ''|'' \<and> next_is (CHR ''|'') rest then chain_loop (tl rest) Plain (push_chain OrElse st)
      else if ch = CHR '';'' then chain_loop rest Plain (push_chain Sequence st)
      else chain_loop rest Plain (add_char [ch] st))"

definition splitCommandChainWithOperators :: "string \<Rightarrow> chain_part list option" where
  "splitCommandChainWithOperators command =
     (let st = chain_loop command Plain \<lparr>cs_parts = [], cs_buf = [], cs_found = False, cs_invalid = False\<rparr>;
          trimmed = trim (cs_buf st) in
      if \<not> cs_found st then None
      else if trimmed = [] then None
      else if cs_invalid st then None
      else Some (cs_parts st @ [(trimmed, None)]))"

definition splitCommandChain :: "string \<Rightarrow> string list option" where
  "splitCommandChain command = map_option (map fst) (splitCommandChainWithOperators command)"

section \<open>Here documents\<close>

text \<open>A delimiter, whether it was quoted, and the text after it.\<close>

fun heredoc_quoted :: "char \<Rightarrow> string \<Rightarrow> string \<Rightarrow> (string \<times> string) option" where
  "heredoc_quoted quote [] delimiter = None"
| "heredoc_quoted quote (ch # rest) delimiter =
     (if line_end ch then None
      else if quote = dquote \<and> ch = backslash \<and> rest \<noteq> [] then heredoc_quoted quote (tl rest) (delimiter @ [hd rest])
      else if ch = quote then Some (delimiter, rest)
      else heredoc_quoted quote rest (delimiter @ [ch]))"

definition heredoc_word :: "char \<Rightarrow> bool" where
  "heredoc_word ch = (\<not> js_ws ch \<and> ch \<notin> set ''|&;<>'')"

definition parseHeredocDelimiter :: "string \<Rightarrow> (string \<times> bool \<times> string) option" where
  "parseHeredocDelimiter source = (case dropWhile (\<lambda>c. c = CHR '' '' \<or> c = CHR 0x09) source of
       [] \<Rightarrow> None
     | first # rest \<Rightarrow>
         if first = squote \<or> first = dquote then map_option (\<lambda>(delimiter, after). (delimiter, True, after)) (heredoc_quoted first rest [])
         else let delimiter = takeWhile heredoc_word (first # rest) in
           if delimiter = [] then None else Some (delimiter, False, dropWhile heredoc_word (first # rest)))"

lemma heredoc_quoted_length: "heredoc_quoted q s d = Some (d', rest) \<Longrightarrow> length rest < length s"
  by (induction q s d rule: heredoc_quoted.induct) (auto split: if_splits simp: length_tl)

lemma parseHeredocDelimiter_length:
  assumes "parseHeredocDelimiter s = Some (d, q, rest)"
  shows "length rest < length s"
proof (cases "dropWhile (\<lambda>c. c = CHR '' '' \<or> c = CHR 0x09) s")
  case (Cons c cs)
  hence "length (c # cs) \<le> length s" by (metis length_dropWhile_le)
  moreover have "length (dropWhile heredoc_word (c # cs)) < length (c # cs)" if "takeWhile heredoc_word (c # cs) \<noteq> []"
    using that by (auto simp: less_Suc_eq_le length_dropWhile_le split: if_splits)
  ultimately show ?thesis using assms Cons by (auto simp: parseHeredocDelimiter_def Let_def split: if_splits dest!: heredoc_quoted_length)
next
  case Nil
  thus ?thesis using assms unfolding parseHeredocDelimiter_def Nil by simp
qed

text \<open>An expansion in a line of an unquoted here document; \<open>esc\<close> tells whether an odd number of backslashes is before it.\<close>

fun heredoc_expands :: "string \<Rightarrow> bool \<Rightarrow> bool" where
  "heredoc_expands [] esc = False"
| "heredoc_expands (ch # rest) esc =
     ((ch = backtick \<and> \<not> esc) \<or> (ch = CHR ''$'' \<and> \<not> esc \<and> next_in ''({'' rest) \<or> heredoc_expands rest (ch = backslash \<and> \<not> esc))"

definition hasUnquotedHeredocExpansionToken :: "string \<Rightarrow> bool" where
  "hasUnquotedHeredocExpansionToken line = heredoc_expands line False"

record heredoc =
  hd_delimiter :: string
  hd_stripTabs :: bool
  hd_quoted :: bool

definition heredoc_line :: "heredoc \<Rightarrow> string \<Rightarrow> string" where
  "heredoc_line h line = (if hd_stripTabs h then dropWhile (\<lambda>c. c = CHR 0x09) line else line)"

section \<open>Pipelines\<close>

record pipe_scan =
  ps_segments :: "string list"
  ps_buf :: string
  ps_mode :: shell_mode
  ps_empty :: bool
  ps_heredocs :: "heredoc list"
  ps_body :: bool
  ps_line :: string

definition DISALLOWED_PIPELINE_TOKENS :: "char list" where
  "DISALLOWED_PIPELINE_TOKENS = [CHR ''>'', CHR ''<'', backtick, newline, carriage, CHR ''('', CHR '')'']"

definition push_char :: "string \<Rightarrow> shell_mode \<Rightarrow> pipe_scan \<Rightarrow> pipe_scan" where
  "push_char s mode st = st\<lparr>ps_buf := ps_buf st @ s, ps_mode := mode, ps_empty := False\<rparr>"

definition push_segment :: "pipe_scan \<Rightarrow> pipe_scan" where
  "push_segment st = (let trimmed = trim (ps_buf st) in
     st\<lparr>ps_segments := (if trimmed = [] then ps_segments st else ps_segments st @ [trimmed]), ps_buf := []\<rparr>)"

text \<open>The end of a line of a here document.\<close>

definition body_line_ends :: "pipe_scan \<Rightarrow> string + pipe_scan" where
  "body_line_ends st = (case ps_heredocs st of
       [] \<Rightarrow> Inr (st\<lparr>ps_line := [], ps_body := False\<rparr>)
     | current # later \<Rightarrow>
         if heredoc_line current (ps_line st) = hd_delimiter current
           then Inr (st\<lparr>ps_line := [], ps_heredocs := later, ps_body := later \<noteq> []\<rparr>)
         else if \<not> hd_quoted current \<and> hasUnquotedHeredocExpansionToken (ps_line st)
           then Inl ''command substitution in unquoted heredoc''
         else Inr (st\<lparr>ps_line := []\<rparr>))"

definition after_newline :: "char \<Rightarrow> string \<Rightarrow> string" where
  "after_newline ch rest = (if ch = carriage \<and> next_is newline rest then tl rest else rest)"

text \<open>\<open><<\<close> with its delimiter; without one, the scan goes on after \<open><<\<close> and meets the dash again.\<close>

definition open_heredoc :: "string \<Rightarrow> pipe_scan \<Rightarrow> pipe_scan \<times> string" where
  "open_heredoc rest st = (let strip = next_is (CHR ''-'') rest;
       source = (if strip then tl rest else rest);
       opened = push_char (''<<'' @ (if strip then ''-'' else [])) Plain st in
     case parseHeredocDelimiter source of
       None \<Rightarrow> (opened, rest)
     | Some (delimiter, quoted, after) \<Rightarrow>
         (opened\<lparr>ps_heredocs := ps_heredocs opened @ [\<lparr>hd_delimiter = delimiter, hd_stripTabs = strip, hd_quoted = quoted\<rparr>],
            ps_buf := ps_buf opened @ take (length source - length after) source\<rparr>, after))"

definition unsupported :: "string \<Rightarrow> string" where
  "unsupported token = ''unsupported shell token: '' @ token"

text \<open>One character inside double quotes, and outside quotes: the state and the text left, or the reason.\<close>

definition double_step :: "char \<Rightarrow> string \<Rightarrow> pipe_scan \<Rightarrow> string + (pipe_scan \<times> string)" where
  "double_step ch rest st =
     (if ch = backslash \<and> next_in [newline, carriage] rest then Inl (unsupported ''newline'')
      else if ch = backslash \<and> next_in DOUBLE_QUOTE_ESCAPES rest then Inr (push_char [ch, hd rest] InDouble st, tl rest)
      else if ch = CHR ''$'' \<and> next_is (CHR ''('') rest then Inl (unsupported ''$()'')
      else if ch = backtick then Inl (unsupported [backtick])
      else if line_end ch then Inl (unsupported ''newline'')
      else Inr (push_char [ch] (if ch = dquote then Plain else InDouble) st, rest))"

definition plain_step :: "char \<Rightarrow> string \<Rightarrow> pipe_scan \<Rightarrow> string + (pipe_scan \<times> string)" where
  "plain_step ch rest st =
     (if ch = backslash then Inr (push_char [ch] Escaped st, rest)
      else if ch = squote then Inr (push_char [ch] InSingle st, rest)
      else if ch = dquote then Inr (push_char [ch] InDouble st, rest)
      else if line_end ch \<and> ps_heredocs st \<noteq> [] then Inr (st\<lparr>ps_body := True, ps_line := []\<rparr>, after_newline ch rest)
      else if ch = CHR ''|'' \<and> next_is (CHR ''|'') rest then Inl (unsupported ''||'')
      else if ch = CHR ''|'' \<and> next_is (CHR ''&'') rest then Inl (unsupported ''|&'')
      else if ch = CHR ''|'' then Inr (push_segment (st\<lparr>ps_empty := True\<rparr>), rest)
      else if ch = CHR ''&'' \<or> ch = CHR '';'' then Inl (unsupported [ch])
      else if ch = CHR ''<'' \<and> next_is (CHR ''<'') rest then Inr (open_heredoc (tl rest) st)
      else if ch \<in> set DISALLOWED_PIPELINE_TOKENS then Inl (unsupported [ch])
      else if ch = CHR ''$'' \<and> next_is (CHR ''('') rest then Inl (unsupported ''$()'')
      else Inr (push_char [ch] Plain st, rest))"

definition pipe_step :: "char \<Rightarrow> string \<Rightarrow> pipe_scan \<Rightarrow> string + (pipe_scan \<times> string)" where
  "pipe_step ch rest st =
     (if ps_body st then
        (if line_end ch then map_sum id (\<lambda>st'. (st', after_newline ch rest)) (body_line_ends st)
         else Inr (st\<lparr>ps_line := ps_line st @ [ch]\<rparr>, rest))
      else case ps_mode st of
        Escaped \<Rightarrow> Inr (push_char [ch] Plain st, rest)
      | InSingle \<Rightarrow> Inr (push_char [ch] (if ch = squote then Plain else InSingle) st, rest)
      | InDouble \<Rightarrow> double_step ch rest st
      | Plain \<Rightarrow> plain_step ch rest st)"

lemma after_newline_length: "length (after_newline ch rest) \<le> length rest"
  by (simp add: after_newline_def)

lemma open_heredoc_length: "length (snd (open_heredoc rest st)) \<le> length rest"
  using parseHeredocDelimiter_length by (fastforce simp: open_heredoc_def Let_def split: option.split)

lemma pipe_step_length: "pipe_step ch rest st = Inr (st', rest') \<Longrightarrow> length rest' < Suc (length rest)"
proof -
  have "length (after_newline ch rest) < Suc (length rest)" using after_newline_length[of ch rest] by simp
  moreover have "length (snd (open_heredoc (tl rest) st)) < Suc (length rest)"
    using open_heredoc_length[of "tl rest" st] by simp
  hence "open_heredoc (tl rest) st = (st', rest') \<Longrightarrow> length rest' < Suc (length rest)" by simp
  ultimately show "pipe_step ch rest st = Inr (st', rest') \<Longrightarrow> length rest' < Suc (length rest)"
    by (auto simp: pipe_step_def double_step_def plain_step_def map_sum_def split: if_splits shell_mode.splits sum.splits)
qed

function pipe_loop :: "string \<Rightarrow> pipe_scan \<Rightarrow> string + pipe_scan" where
  "pipe_loop [] st = Inr st"
| "pipe_loop (ch # rest) st = (case pipe_step ch rest st of Inl reason \<Rightarrow> Inl reason | Inr (st', rest') \<Rightarrow> pipe_loop rest' st')"
  by pat_completeness auto

termination
  by (relation "measure (\<lambda>(s, st). length s)") (auto dest: pipe_step_length)

text \<open>A delimiter on the last line, which has no line end.\<close>

definition close_heredoc :: "pipe_scan \<Rightarrow> pipe_scan" where
  "close_heredoc st = (case ps_heredocs st of
       current # later \<Rightarrow> if ps_body st \<and> heredoc_line current (ps_line st) = hd_delimiter current
         then st\<lparr>ps_heredocs := later, ps_body := later \<noteq> []\<rparr> else st
     | [] \<Rightarrow> st)"

definition empty_pipe :: pipe_scan where
  "empty_pipe = \<lparr>ps_segments = [], ps_buf = [], ps_mode = Plain, ps_empty = False, ps_heredocs = [], ps_body = False, ps_line = []\<rparr>"

definition splitShellPipeline :: "string \<Rightarrow> string + string list" where
  "splitShellPipeline command = (case pipe_loop command empty_pipe of Inl reason \<Rightarrow> Inl reason
     | Inr st0 \<Rightarrow> let st = close_heredoc st0 in
        if ps_heredocs st \<noteq> [] \<or> ps_body st then Inl ''unterminated heredoc''
        else if ps_mode st \<noteq> Plain then Inl ''unterminated shell quote/escape''
        else let done = push_segment st in
          if ps_segments done = [] then Inl ''empty command''
          else if ps_empty done then Inl ''empty pipeline segment''
          else Inr (ps_segments done))"

section \<open>Rebuilding a command line\<close>

text \<open>\<open>render\<close> gives the text of a segment, from its source and its index, or a reason.\<close>

type_synonym segment_renderer = "string \<Rightarrow> nat \<Rightarrow> string + string"

fun render_segments :: "segment_renderer \<Rightarrow> string list \<Rightarrow> nat \<Rightarrow> string + (string list \<times> nat)" where
  "render_segments render [] n = Inr ([], n)"
| "render_segments render (raw # raws) n = (case render raw n of Inl reason \<Rightarrow> Inl reason
     | Inr text \<Rightarrow> (case render_segments render raws (n + 1) of Inl reason \<Rightarrow> Inl reason | Inr (texts, m) \<Rightarrow> Inr (text # texts, m)))"

definition op_suffix :: "chain_op option \<Rightarrow> string" where
  "op_suffix op = (case op of None \<Rightarrow> [] | Some oper \<Rightarrow> '' '' @ op_text oper @ '' '')"

fun render_parts :: "segment_renderer \<Rightarrow> chain_part list \<Rightarrow> nat \<Rightarrow> string \<Rightarrow> string + (string \<times> nat)" where
  "render_parts render [] n text = Inr (text, n)"
| "render_parts render ((part, op) # parts) n text = (case splitShellPipeline part of Inl reason \<Rightarrow> Inl reason
     | Inr raws \<Rightarrow> (case render_segments render raws n of Inl reason \<Rightarrow> Inl reason
        | Inr (texts, m) \<Rightarrow> render_parts render parts m (text @ join_with '' | '' texts @ op_suffix op)))"

definition chain_parts :: "string \<Rightarrow> chain_part list" where
  "chain_parts source = nullish (splitCommandChainWithOperators source) [(source, None)]"

definition rebuildShellCommandFromSource :: "string \<Rightarrow> string option \<Rightarrow> segment_renderer \<Rightarrow> string + (string \<times> nat)" where
  "rebuildShellCommandFromSource command platform render =
     (if isWindowsPlatform platform then Inl ''unsupported platform''
      else let source = trim command in
        if source = [] then Inl ''empty command'' else render_parts render (chain_parts source) 0 [])"

definition finalizeRebuiltShellCommand :: "string + (string \<times> nat) \<Rightarrow> nat option \<Rightarrow> string + string" where
  "finalizeRebuiltShellCommand rebuilt expected = (case rebuilt of Inl reason \<Rightarrow> Inl reason
     | Inr (command, count) \<Rightarrow> if expected \<noteq> None \<and> expected \<noteq> Some count then Inl ''segment count mismatch'' else Inr command)"

definition render_literal :: segment_renderer where
  "render_literal raw n = (case splitShellArgs raw of None \<Rightarrow> Inl ''unable to parse shell segment''
     | Some argv \<Rightarrow> if argv = [] then Inl ''unable to parse shell segment'' else Inr (renderQuotedArgv argv))"

definition buildSafeShellCommand :: "string \<Rightarrow> string option \<Rightarrow> string + string" where
  "buildSafeShellCommand command platform = finalizeRebuiltShellCommand (rebuildShellCommandFromSource command platform render_literal) None"

section \<open>Quoted words are read back\<close>

lemma next_in_simps [simp]: "next_in cs [] = False" "next_in cs (c # s) \<longleftrightarrow> c \<in> set cs" "\<not> next_is c []"
  "next_is c (d # s) \<longleftrightarrow> d = c"
  by (auto simp: next_in_def next_is_def)

lemma shell_char_neq [simp]:
  "squote \<noteq> backslash" "squote \<noteq> dquote" "dquote \<noteq> squote" "backslash \<noteq> squote" "\<not> js_ws squote" "squote \<noteq> backtick"
  "backtick \<noteq> squote" "\<not> line_end squote" "\<not> line_end dquote" "squote \<noteq> CHR ''$''" "\<not> js_ws backslash"
  "CHR '' '' \<noteq> squote" "squote \<noteq> CHR '' ''" "dquote \<noteq> backtick" "dquote \<noteq> CHR ''$''"
  by (simp_all add: shell_chars js_ws_def line_end_def)

definition quoted_char :: "char \<Rightarrow> string" where
  "quoted_char c = (if c = squote then [squote, dquote, squote, dquote, squote] else [c])"

lemma shellEscapeSingleArg_eq: "shellEscapeSingleArg v = squote # concat (map quoted_char v) @ [squote]"
  by (simp add: shellEscapeSingleArg_def quoted_char_def[abs_def])

lemma split_quoted_chars:
  "split_args (concat (map quoted_char v) @ squote # rest) InSingle buf tokens = split_args rest Plain (buf @ v) tokens"
  by (induction v arbitrary: buf) (simp_all add: quoted_char_def)

lemma split_quoted: "split_args (shellEscapeSingleArg v @ rest) Plain buf tokens = split_args rest Plain (buf @ v) tokens"
  by (simp add: shellEscapeSingleArg_eq split_quoted_chars)

lemma splitShellArgs_quoted: "splitShellArgs (renderQuotedArgv argv) = Some (filter (\<lambda>v. v \<noteq> []) argv)"
proof -
  have "split_args (renderQuotedArgv argv) Plain [] tokens = Some (tokens @ filter (\<lambda>v. v \<noteq> []) argv)" for tokens
  proof (induction argv arbitrary: tokens)
    case (Cons v argv)
    thus ?case
      by (cases argv) (simp_all add: renderQuotedArgv_def push_token_def split_quoted split_quoted[of _ "[]", simplified])
  qed (simp add: renderQuotedArgv_def push_token_def)
  thus ?thesis by (simp add: splitShellArgs_def)
qed

lemma split_args_tokens:
  "split_args s mode buf tokens = Some ws \<Longrightarrow> [] \<notin> set tokens \<Longrightarrow> [] \<notin> set ws"
  by (induction s mode buf tokens rule: split_args.induct) (auto simp: push_token_def split: if_splits)

lemma splitShellArgs_nonempty: "splitShellArgs raw = Some ws \<Longrightarrow> [] \<notin> set ws"
  unfolding splitShellArgs_def by (erule split_args_tokens) simp

lemma filter_nonempty: "[] \<notin> set ws \<Longrightarrow> filter (\<lambda>v. v \<noteq> []) ws = ws"
  by (induction ws) auto

lemma splitShellArgs_render: "splitShellArgs raw = Some ws \<Longrightarrow> splitShellArgs (renderQuotedArgv ws) = Some ws"
  using splitShellArgs_nonempty by (simp add: splitShellArgs_quoted filter_nonempty)

section \<open>A rebuilt command line has the structure of its source\<close>

text \<open>The argv of each segment; a segment without words cannot be parsed.\<close>

fun segment_argvs :: "string list \<Rightarrow> string list list option" where
  "segment_argvs [] = Some []"
| "segment_argvs (raw # raws) = (case splitShellArgs raw of None \<Rightarrow> None
     | Some argv \<Rightarrow> if argv = [] then None else map_option (Cons argv) (segment_argvs raws))"

type_synonym shell_structure = "(string list list \<times> chain_op option) list"

fun structure_of :: "chain_part list \<Rightarrow> shell_structure option" where
  "structure_of [] = Some []"
| "structure_of ((part, op) # parts) = (case splitShellPipeline part of Inl _ \<Rightarrow> None
     | Inr raws \<Rightarrow> (case segment_argvs raws of None \<Rightarrow> None
        | Some argvs \<Rightarrow> map_option (Cons (argvs, op)) (structure_of parts)))"

definition command_structure :: "string \<Rightarrow> shell_structure option" where
  "command_structure command = structure_of (chain_parts command)"

definition literal_pipeline :: "string list list \<Rightarrow> string" where
  "literal_pipeline argvs = join_with '' | '' (map renderQuotedArgv argvs)"

fun literal_command :: "shell_structure \<Rightarrow> string" where
  "literal_command [] = []"
| "literal_command ((argvs, op) # parts) = literal_pipeline argvs @ op_suffix op @ literal_command parts"

fun wf_structure :: "shell_structure \<Rightarrow> bool" where
  "wf_structure [] = False"
| "wf_structure [(argvs, op)] = (op = None \<and> argvs \<noteq> [] \<and> list_all (\<lambda>argv. argv \<noteq> [] \<and> [] \<notin> set argv) argvs)"
| "wf_structure ((argvs, op) # parts) =
     (op \<noteq> None \<and> argvs \<noteq> [] \<and> list_all (\<lambda>argv. argv \<noteq> [] \<and> [] \<notin> set argv) argvs \<and> wf_structure parts)"

lemma join_with_append: "ws \<noteq> [] \<Longrightarrow> join_with d (w # ws) = w @ d @ join_with d ws"
  by (cases ws) simp_all

lemma add_char_append [simp]: "add_char t (add_char s st) = add_char (s @ t) st"
  by (simp add: add_char_def)

lemma chain_quoted_chars:
  "chain_loop (concat (map quoted_char v) @ squote # rest) InSingle st =
   chain_loop rest Plain (add_char (concat (map quoted_char v) @ [squote]) st)"
  by (induction v arbitrary: st) (simp_all add: quoted_char_def)

lemma chain_quoted: "chain_loop (shellEscapeSingleArg v @ rest) Plain st = chain_loop rest Plain (add_char (shellEscapeSingleArg v) st)"
  by (simp add: shellEscapeSingleArg_eq chain_quoted_chars)

lemma space_plain [simp]: "CHR '' '' \<noteq> backslash" "CHR '' '' \<noteq> dquote" "CHR ''|'' \<noteq> backslash" "CHR ''|'' \<noteq> squote"
  "CHR ''|'' \<noteq> dquote" "CHR ''&'' \<noteq> backslash" "CHR ''&'' \<noteq> squote" "CHR ''&'' \<noteq> dquote" "CHR '';'' \<noteq> backslash"
  "CHR '';'' \<noteq> squote" "CHR '';'' \<noteq> dquote" "\<not> line_end (CHR '' '')" "\<not> line_end (CHR ''|'')"
  by (simp_all add: shell_chars line_end_def)

lemma chain_rendered: "chain_loop (renderQuotedArgv argv @ rest) Plain st = chain_loop rest Plain (add_char (renderQuotedArgv argv) st)"
proof (induction argv arbitrary: st)
  case (Cons v argv)
  thus ?case
    by (cases "argv = []") (simp_all add: renderQuotedArgv_def chain_quoted join_with_append)
qed (simp add: renderQuotedArgv_def add_char_def)

lemma chain_pipeline: "chain_loop (literal_pipeline argvs @ rest) Plain st = chain_loop rest Plain (add_char (literal_pipeline argvs) st)"
proof (induction argvs arbitrary: st)
  case (Cons argv argvs)
  thus ?case
    by (cases "argvs = []") (simp_all add: literal_pipeline_def chain_rendered join_with_append)
qed (simp add: literal_pipeline_def add_char_def)

lemma chain_op_text:
  "chain_loop (op_suffix (Some oper) @ rest) Plain st = chain_loop rest Plain (add_char '' '' (push_chain oper (add_char '' '' st)))"
  by (cases oper) (simp_all add: op_suffix_def)

text \<open>Quoted words are trimmed texts.\<close>

lemma trim_around:
  assumes "s \<noteq> []" "\<not> js_ws (hd s)" "\<not> js_ws (last s)" "list_all js_ws a" "list_all js_ws b"
  shows "trim (a @ s @ b) = s"
proof -
  have "dropWhile js_ws (a @ s @ b) = s @ b" using assms by (cases s) (simp_all add: dropWhile_append2 list_all_iff)
  moreover have "dropWhile js_ws (rev b @ rev s) = dropWhile js_ws (rev s)"
    using assms(5) by (intro dropWhile_append2) (simp add: list_all_iff)
  moreover have "dropWhile js_ws (rev s) = rev s" using assms(1,3) by (cases s rule: rev_cases) simp_all
  ultimately show ?thesis by (simp add: trim_def trim_start_def trim_end_def)
qed

lemma rendered_ends: "argv \<noteq> [] \<Longrightarrow> renderQuotedArgv argv \<noteq> [] \<and> hd (renderQuotedArgv argv) = squote \<and> last (renderQuotedArgv argv) = squote"
proof (induction argv)
  case (Cons v argv)
  thus ?case by (cases "argv = []") (simp_all add: renderQuotedArgv_def join_with_append shellEscapeSingleArg_eq)
qed simp

lemma pipeline_ends:
  "argvs \<noteq> [] \<Longrightarrow> [] \<notin> set argvs \<Longrightarrow>
   literal_pipeline argvs \<noteq> [] \<and> hd (literal_pipeline argvs) = squote \<and> last (literal_pipeline argvs) = squote"
proof (induction argvs)
  case (Cons v argvs)
  hence "v \<noteq> []" by auto
  thus ?case using Cons rendered_ends[of v] by (cases "argvs = []") (simp_all add: literal_pipeline_def join_with_append hd_append)
qed simp

lemma trim_rendered: "argv \<noteq> [] \<Longrightarrow> list_all js_ws a \<Longrightarrow> list_all js_ws b \<Longrightarrow> trim (a @ renderQuotedArgv argv @ b) = renderQuotedArgv argv"
  using rendered_ends[of argv] by (intro trim_around) simp_all

lemma trim_pipeline:
  "argvs \<noteq> [] \<Longrightarrow> [] \<notin> set argvs \<Longrightarrow> list_all js_ws a \<Longrightarrow> list_all js_ws b \<Longrightarrow> trim (a @ literal_pipeline argvs @ b) = literal_pipeline argvs"
  using pipeline_ends[of argvs] by (intro trim_around) simp_all

text \<open>The scan of a pipeline over quoted words.\<close>

lemma push_char_append [simp]: "push_char t m' (push_char s m st) = push_char (s @ t) m' st"
  by (simp add: push_char_def)

lemma push_char_fields [simp]: "ps_mode (push_char s m st) = m" "ps_body (push_char s m st) = ps_body st"
  "ps_heredocs (push_char s m st) = ps_heredocs st" "ps_segments (push_char s m st) = ps_segments st"
  "ps_buf (push_char s m st) = ps_buf st @ s" "\<not> ps_empty (push_char s m st)"
  by (simp_all add: push_char_def)

lemma pipe_loop_step: "pipe_step ch rest st = Inr (st', rest') \<Longrightarrow> pipe_loop (ch # rest) st = pipe_loop rest' st'"
  by simp

lemma pipe_quoted_chars:
  "ps_mode st = InSingle \<Longrightarrow> \<not> ps_body st \<Longrightarrow>
   pipe_loop (concat (map quoted_char v) @ squote # rest) st = pipe_loop rest (push_char (concat (map quoted_char v) @ [squote]) Plain st)"
proof (induction v arbitrary: st)
  case (Cons c v)
  thus ?case by (cases "c = squote") (simp_all add: quoted_char_def pipe_step_def plain_step_def double_step_def)
qed (simp add: pipe_step_def)

lemma pipe_quoted:
  "ps_mode st = Plain \<Longrightarrow> \<not> ps_body st \<Longrightarrow>
   pipe_loop (shellEscapeSingleArg v @ rest) st = pipe_loop rest (push_char (shellEscapeSingleArg v) Plain st)"
  by (simp add: shellEscapeSingleArg_eq pipe_quoted_chars pipe_step_def plain_step_def)

lemma pipe_space:
  "ps_mode st = Plain \<Longrightarrow> \<not> ps_body st \<Longrightarrow> pipe_loop (CHR '' '' # rest) st = pipe_loop rest (push_char '' '' Plain st)"
  by (simp add: pipe_step_def plain_step_def DISALLOWED_PIPELINE_TOKENS_def shell_chars)

lemma pipe_bar:
  "ps_mode st = Plain \<Longrightarrow> \<not> ps_body st \<Longrightarrow>
   pipe_loop (CHR ''|'' # CHR '' '' # rest) st = pipe_loop (CHR '' '' # rest) (push_segment (st\<lparr>ps_empty := True\<rparr>))"
  by (rule pipe_loop_step) (simp add: pipe_step_def plain_step_def)

lemma pipe_rendered:
  "argv \<noteq> [] \<Longrightarrow> ps_mode st = Plain \<Longrightarrow> \<not> ps_body st \<Longrightarrow>
   pipe_loop (renderQuotedArgv argv @ rest) st = pipe_loop rest (push_char (renderQuotedArgv argv) Plain st)"
proof (induction argv arbitrary: st)
  case (Cons v argv)
  thus ?case by (cases "argv = []") (simp_all add: renderQuotedArgv_def pipe_quoted pipe_space join_with_append del: pipe_loop.simps)
qed simp

lemma pipe_literal:
  assumes "argvs \<noteq> []" "[] \<notin> set argvs" "ps_mode st = Plain" "\<not> ps_body st" "ps_heredocs st = []" "list_all js_ws (ps_buf st)"
  shows "\<exists>st'. pipe_loop (literal_pipeline argvs) st = Inr st' \<and> ps_mode st' = Plain \<and> \<not> ps_body st' \<and> ps_heredocs st' = [] \<and>
    \<not> ps_empty st' \<and> ps_segments (push_segment st') = ps_segments st @ map renderQuotedArgv argvs"
  using assms
proof (induction argvs arbitrary: st)
  case (Cons argv argvs)
  have argv: "argv \<noteq> []" using Cons.prems by auto
  note rendered = pipe_rendered[of argv st] trim_rendered[of argv "ps_buf st"] rendered_ends[of argv]
  show ?case
  proof (cases "argvs = []")
    case True
    thus ?thesis using Cons.prems rendered(1)[of "[]"] rendered(2)[of "[]"] rendered(3)
      by (auto simp: literal_pipeline_def push_segment_def Let_def)
  next
    case False
    let ?st = "push_char '' '' Plain (push_segment ((push_char (renderQuotedArgv argv @ '' '') Plain st)\<lparr>ps_empty := True\<rparr>))"
    have "pipe_loop (literal_pipeline (argv # argvs)) st = pipe_loop (literal_pipeline argvs) ?st"
      using False Cons.prems argv rendered(1)
      by (simp add: literal_pipeline_def join_with_append pipe_space pipe_bar push_segment_def Let_def del: pipe_loop.simps)
    moreover have "ps_segments ?st = ps_segments st @ [renderQuotedArgv argv]"
      using Cons.prems rendered(2)[OF argv, of "'' ''"] rendered(3)[OF argv] by (simp add: push_segment_def Let_def)
    moreover have "ps_mode ?st = Plain" "\<not> ps_body ?st" "ps_heredocs ?st = []" "list_all js_ws (ps_buf ?st)"
      using Cons.prems by (simp_all add: push_segment_def Let_def)
    ultimately show ?thesis using Cons.IH[of ?st] Cons.prems False by auto
  qed
qed simp

lemma splitShellPipeline_literal:
  assumes "argvs \<noteq> []" "[] \<notin> set argvs"
  shows "splitShellPipeline (literal_pipeline argvs) = Inr (map renderQuotedArgv argvs)"
proof -
  obtain st' where "pipe_loop (literal_pipeline argvs) empty_pipe = Inr st'" "ps_mode st' = Plain" "\<not> ps_body st'"
    "ps_heredocs st' = []" "\<not> ps_empty st'" "ps_segments (push_segment st') = map renderQuotedArgv argvs"
    using pipe_literal[OF assms, of empty_pipe] by (auto simp: empty_pipe_def)
  moreover have "ps_empty (push_segment st') = ps_empty st'" by (simp add: push_segment_def Let_def)
  ultimately show ?thesis using assms by (simp add: splitShellPipeline_def close_heredoc_def Let_def)
qed

lemma segment_argvs_rendered:
  "list_all (\<lambda>argv. argv \<noteq> [] \<and> [] \<notin> set argv) argvs \<Longrightarrow> segment_argvs (map renderQuotedArgv argvs) = Some argvs"
  by (induction argvs) (auto simp: splitShellArgs_quoted filter_nonempty)

text \<open>The parts that the scan of a chain finds in a rebuilt command.\<close>

fun literal_parts :: "shell_structure \<Rightarrow> chain_part list" where
  "literal_parts [] = []"
| "literal_parts ((argvs, op) # parts) = (literal_pipeline argvs, op) # literal_parts parts"

lemma wf_structure_segments: "wf_structure S \<Longrightarrow> (argvs, op) \<in> set S \<Longrightarrow> argvs \<noteq> [] \<and> [] \<notin> set argvs \<and> list_all (\<lambda>argv. argv \<noteq> [] \<and> [] \<notin> set argv) argvs"
  by (induction S rule: wf_structure.induct) (auto simp: list_all_iff)

lemma structure_of_literal: "wf_structure S \<Longrightarrow> structure_of (literal_parts S) = Some S"
proof (induction S rule: wf_structure.induct)
  case (2 argvs op)
  hence seg: "argvs \<noteq> []" "[] \<notin> set argvs" "list_all (\<lambda>argv. argv \<noteq> [] \<and> [] \<notin> set argv) argvs"
    using wf_structure_segments[OF 2, of argvs op] by simp_all
  show ?case unfolding literal_parts.simps structure_of.simps splitShellPipeline_literal[OF seg(1,2)] sum.case
      segment_argvs_rendered[OF seg(3)] by simp
next
  case (3 argvs op part parts)
  have seg: "argvs \<noteq> []" "[] \<notin> set argvs" "list_all (\<lambda>argv. argv \<noteq> [] \<and> [] \<notin> set argv) argvs"
    using wf_structure_segments[OF 3(2), of argvs op] by simp_all
  have "structure_of (literal_parts (part # parts)) = Some (part # parts)" using 3 by simp
  thus ?case unfolding literal_parts.simps(2)[of argvs] structure_of.simps splitShellPipeline_literal[OF seg(1,2)] sum.case
      segment_argvs_rendered[OF seg(3)] by simp
qed simp

lemma chain_literal:
  assumes "wf_structure S" "list_all js_ws (cs_buf st)" "\<not> cs_invalid st"
  shows "(cs_found (chain_loop (literal_command S) Plain st) \<longleftrightarrow> cs_found st \<or> tl S \<noteq> []) \<and>
    \<not> cs_invalid (chain_loop (literal_command S) Plain st) \<and> trim (cs_buf (chain_loop (literal_command S) Plain st)) \<noteq> [] \<and>
    cs_parts (chain_loop (literal_command S) Plain st) @ [(trim (cs_buf (chain_loop (literal_command S) Plain st)), None)] =
      cs_parts st @ literal_parts S"
  using assms
proof (induction S arbitrary: st rule: wf_structure.induct)
  case (2 argvs op)
  have seg: "argvs \<noteq> []" "[] \<notin> set argvs" using wf_structure_segments[OF 2(1), of argvs op] by auto
  have "trim (cs_buf st @ literal_pipeline argvs) = literal_pipeline argvs"
    using trim_pipeline[OF seg 2(2), of "[]"] by simp
  thus ?case using 2 pipeline_ends[OF seg] chain_pipeline[of argvs "[]" st] by (auto simp: op_suffix_def add_char_def)
next
  case (3 argvs op part parts)
  have seg: "argvs \<noteq> []" "[] \<notin> set argvs" using wf_structure_segments[OF 3(2), of argvs op] by auto
  obtain oper where oper: "op = Some oper" using 3(2) by auto
  let ?st = "add_char '' '' (push_chain oper (add_char (literal_pipeline argvs @ '' '') st))"
  have trim: "trim (cs_buf st @ literal_pipeline argvs @ '' '') = literal_pipeline argvs"
    using trim_pipeline[OF seg 3(3), of "'' ''"] by simp
  hence st: "cs_parts ?st = cs_parts st @ [(literal_pipeline argvs, op)]" "cs_buf ?st = '' ''" "cs_found ?st" "\<not> cs_invalid ?st"
    using 3(4) pipeline_ends[OF seg] oper by (simp_all add: push_chain_def add_char_def Let_def)
  have "chain_loop (literal_command ((argvs, op) # part # parts)) Plain st = chain_loop (literal_command (part # parts)) Plain ?st"
    by (simp only: literal_command.simps(2)[of argvs] oper chain_pipeline chain_op_text add_char_append)
  moreover have "wf_structure (part # parts)" "list_all js_ws (cs_buf ?st)" using 3(2) st(2) by simp_all
  note 3(1)[OF this st(4)]
  ultimately show ?case using st(1,3) by simp
qed simp

text \<open>Printing a structure and reading it gives the structure.\<close>

lemma literal_parts_not_Nil: "wf_structure S \<Longrightarrow> literal_parts S \<noteq> []"
  by (cases S) auto

lemma chain_parts_literal:
  assumes "wf_structure S"
  shows "chain_parts (literal_command S) = literal_parts S"
proof -
  let ?st = "\<lparr>cs_parts = [], cs_buf = [], cs_found = False, cs_invalid = False\<rparr>"
  note chain = chain_literal[OF assms, of ?st, simplified]
  show ?thesis
  proof (cases "tl S = []")
    case True
    with assms obtain argvs where "S = [(argvs, None)]" by (cases S rule: wf_structure.cases) auto
    thus ?thesis using chain by (simp add: chain_parts_def splitCommandChainWithOperators_def op_suffix_def)
  next
    case False
    thus ?thesis using chain by (simp add: chain_parts_def splitCommandChainWithOperators_def Let_def)
  qed
qed

lemma command_structure_literal: "wf_structure S \<Longrightarrow> command_structure (literal_command S) = Some S"
  by (simp add: command_structure_def chain_parts_literal structure_of_literal)

text \<open>A structure that was read is well formed.\<close>

lemma chain_ops: "list_all (\<lambda>p. snd p \<noteq> None) (cs_parts st) \<Longrightarrow> list_all (\<lambda>p. snd p \<noteq> None) (cs_parts (chain_loop s mode st))"
  by (induction s mode st rule: chain_loop.induct) (auto simp: add_char_def push_chain_def Let_def)

lemma chain_parts_shape: "\<exists>parts part. chain_parts source = parts @ [(part, None)] \<and> list_all (\<lambda>p. snd p \<noteq> None) parts"
  using chain_ops[of "\<lparr>cs_parts = [], cs_buf = [], cs_found = False, cs_invalid = False\<rparr>" source Plain]
  by (auto simp: chain_parts_def splitCommandChainWithOperators_def Let_def intro: exI[of _ "[]"])

lemma splitShellPipeline_not_Nil: "splitShellPipeline part = Inr raws \<Longrightarrow> raws \<noteq> []"
  by (auto simp: splitShellPipeline_def Let_def split: sum.splits if_splits)

lemma segment_argvs_wf:
  "segment_argvs raws = Some argvs \<Longrightarrow> length argvs = length raws \<and> list_all (\<lambda>argv. argv \<noteq> [] \<and> [] \<notin> set argv) argvs"
  by (induction raws arbitrary: argvs) (auto dest: splitShellArgs_nonempty split: option.splits if_splits)

lemma structure_of_wf:
  "structure_of (parts @ [(part, None)]) = Some S \<Longrightarrow> list_all (\<lambda>p. snd p \<noteq> None) parts \<Longrightarrow> wf_structure S"
proof (induction parts arbitrary: S)
  case Nil
  then obtain raws argvs where "splitShellPipeline part = Inr raws" "segment_argvs raws = Some argvs" "S = [(argvs, None)]"
    by (auto split: sum.splits option.splits)
  thus ?case using segment_argvs_wf[of raws argvs] splitShellPipeline_not_Nil[of part raws] by auto
next
  case (Cons p parts)
  obtain src op where p: "p = (src, op)" by fastforce
  with Cons.prems(1) obtain raws argvs S' where S: "splitShellPipeline src = Inr raws" "segment_argvs raws = Some argvs"
    "structure_of (parts @ [(part, None)]) = Some S'" "S = (argvs, op) # S'"
    by (auto split: sum.splits option.splits)
  have "wf_structure S'" using Cons.IH[OF S(3)] Cons.prems(2) by simp
  moreover from this obtain q S'' where "S' = q # S''" by (cases S') auto
  moreover have "argvs \<noteq> []" "list_all (\<lambda>argv. argv \<noteq> [] \<and> [] \<notin> set argv) argvs"
    using segment_argvs_wf[OF S(2)] splitShellPipeline_not_Nil[OF S(1)] by auto
  ultimately show ?case using S(4) p Cons.prems(2) by simp
qed

lemma command_structure_wf: "command_structure command = Some S \<Longrightarrow> wf_structure S"
  using chain_parts_shape[of command] structure_of_wf by (force simp: command_structure_def)

text \<open>The literal rendering prints the structure.\<close>

lemma render_segments_literal:
  "render_segments render_literal raws n =
     (case segment_argvs raws of None \<Rightarrow> Inl ''unable to parse shell segment'' | Some argvs \<Rightarrow> Inr (map renderQuotedArgv argvs, n + length raws))"
  by (induction raws arbitrary: n) (auto simp: render_literal_def split: option.splits)

lemma render_parts_literal:
  "structure_of parts = Some S \<Longrightarrow> \<exists>m. render_parts render_literal parts n acc = Inr (acc @ literal_command S, m)"
proof (induction parts arbitrary: S n acc)
  case (Cons p parts)
  obtain part op where p: "p = (part, op)" by fastforce
  with Cons.prems obtain raws argvs S' where S: "splitShellPipeline part = Inr raws" "segment_argvs raws = Some argvs"
    "structure_of parts = Some S'" "S = (argvs, op) # S'"
    by (auto split: sum.splits option.splits)
  show ?case
    using Cons.IH[OF S(3), of "n + length raws" "acc @ literal_pipeline argvs @ op_suffix op"] S p
    by (auto simp: render_segments_literal literal_pipeline_def)
qed simp

lemma render_parts_fails: "structure_of parts = None \<Longrightarrow> \<exists>reason. render_parts render_literal parts n acc = Inl reason"
proof (induction parts arbitrary: n acc)
  case (Cons p parts)
  obtain part op where p: "p = (part, op)" by fastforce
  show ?case using Cons p by (auto simp: render_segments_literal split: sum.splits option.splits)
qed simp

text \<open>
  C29: a command that is rebuilt with every word in single quotes means what was analysed. The
  rebuilt text is read back as the same chain operators, the same pipelines and the same words,
  whatever characters the words have; and a command that cannot be read is not rebuilt.
\<close>

theorem rebuilt_command_keeps_structure:
  assumes "\<not> isWindowsPlatform platform"
  shows "case command_structure (trim command) of
      Some S \<Rightarrow> \<exists>out. buildSafeShellCommand command platform = Inr out \<and> command_structure out = Some S
    | None \<Rightarrow> \<exists>reason. buildSafeShellCommand command platform = Inl reason"
proof (cases "command_structure (trim command)")
  case None
  thus ?thesis using assms render_parts_fails[of "chain_parts (trim command)" 0 "[]"]
    by (auto simp: buildSafeShellCommand_def rebuildShellCommandFromSource_def finalizeRebuiltShellCommand_def command_structure_def Let_def)
next
  case (Some S)
  have "trim command \<noteq> []"
    using Some by (auto simp: command_structure_def chain_parts_def splitCommandChainWithOperators_def splitShellPipeline_def
        empty_pipe_def close_heredoc_def push_segment_def)
  moreover obtain m where "render_parts render_literal (chain_parts (trim command)) 0 [] = Inr (literal_command S, m)"
    using render_parts_literal[of _ S 0 "[]"] Some by (auto simp: command_structure_def)
  ultimately have "buildSafeShellCommand command platform = Inr (literal_command S)"
    using assms by (simp add: buildSafeShellCommand_def rebuildShellCommandFromSource_def finalizeRebuiltShellCommand_def Let_def)
  thus ?thesis using Some command_structure_literal[OF command_structure_wf[OF Some]] by simp
qed

theorem rebuilt_command_keeps_structure_witness:
  "\<exists>out. buildSafeShellCommand ''cat a|tr x y;echo $HOME'' (Some ''linux'') = Inr out \<and>
     command_structure out = Some [([[''cat'', ''a''], [''tr'', ''x'', ''y'']], Some Sequence), ([[''echo'', ''$HOME'']], None)]"
proof -
  have "\<not> isWindowsPlatform (Some ''linux'')" by code_simp
  moreover have "command_structure (trim ''cat a|tr x y;echo $HOME'') =
    Some [([[''cat'', ''a''], [''tr'', ''x'', ''y'']], Some Sequence), ([[''echo'', ''$HOME'']], None)]" by code_simp
  ultimately show ?thesis using rebuilt_command_keeps_structure[of "Some ''linux''" "''cat a|tr x y;echo $HOME''"] by simp
qed

section \<open>What an accepted pipeline can hold\<close>

text \<open>
  The quoting of the POSIX shell, as a reference: every character with the mode it is read in. Inside
  double quotes a backslash quotes the next character if that is one of its escapes.
\<close>

type_synonym shell_marks = "(char \<times> shell_mode) list"

fun shell_lex :: "string \<Rightarrow> shell_mode \<Rightarrow> shell_marks" where
  "shell_lex [] mode = []"
| "shell_lex (c # s) Escaped = (c, Escaped) # shell_lex s Plain"
| "shell_lex (c # s) InSingle = (c, InSingle) # shell_lex s (if c = squote then Plain else InSingle)"
| "shell_lex (c # s) InDouble = (c, InDouble) #
     (if c = backslash \<and> next_in DOUBLE_QUOTE_ESCAPES s then (hd s, Escaped) # shell_lex (tl s) InDouble
      else shell_lex s (if c = dquote then Plain else InDouble))"
| "shell_lex (c # s) Plain = (c, Plain) #
     shell_lex s (if c = backslash then Escaped else if c = squote then InSingle else if c = dquote then InDouble else Plain)"

text \<open>
  Some forms are outside this reference: a comment, where quotes mean nothing; the \<open>$'...'\<close> strings of
  bash, where a backslash quotes a single quote; and \<open>${...}\<close> and the \<open>$[...]\<close> of bash, which have quoting
  rules of their own. A \<open>#\<close>
  begins a comment at the start of a word; a backslash with a line end is no text, and may stand between
  the two characters that count. \<open>posix_reading\<close> is the reading of a text that has none of them.
\<close>

fun joined :: "shell_marks \<Rightarrow> shell_marks" where
  "joined (m # n # marks) = (if n = (newline, Escaped) then joined marks else m # joined (n # marks))"
| "joined marks = marks"

definition WORD_BREAKS :: "char list" where
  "WORD_BREAKS = CHR '' '' # CHR 0x09 # newline # ''|&;()<>''"

fun reads_otherwise :: "bool \<Rightarrow> shell_marks \<Rightarrow> bool" where
  "reads_otherwise word_start [] = False"
| "reads_otherwise word_start ((c, mode) # marks) =
     (c = CHR ''#'' \<and> mode = Plain \<and> word_start \<or>
      c = CHR ''$'' \<and> mode = Plain \<and> marks \<noteq> [] \<and> fst (hd marks) = squote \<or>
      c = CHR ''$'' \<and> mode \<in> {Plain, InDouble} \<and> marks \<noteq> [] \<and> fst (hd marks) \<in> {CHR ''{'', CHR ''[''} \<or>
      reads_otherwise (mode = Plain \<and> c \<in> set WORD_BREAKS) marks)"

definition posix_reading :: "string \<Rightarrow> shell_marks option" where
  "posix_reading command = (let marks = shell_lex command Plain in if reads_otherwise True (joined marks) then None else Some marks)"

text \<open>No operator but the pipe is live, and no expansion of a command.\<close>

definition mark_ok :: "char \<Rightarrow> shell_mode \<Rightarrow> bool" where
  "mark_ok c mode = ((mode = Plain \<longrightarrow> c \<notin> set ''&;>()'' \<and> c \<noteq> backtick \<and> \<not> line_end c) \<and>
     (mode = InDouble \<longrightarrow> c \<noteq> backtick \<and> \<not> line_end c))"

fun marks_safe :: "shell_marks \<Rightarrow> bool" where
  "marks_safe [] = True"
| "marks_safe ((c, mode) # marks) = (mark_ok c mode \<and>
     \<not> (c = CHR ''$'' \<and> mode = InDouble \<and> marks \<noteq> [] \<and> fst (hd marks) = CHR ''('') \<and> marks_safe marks)"

text \<open>The text between the live pipes.\<close>

fun marks_pieces :: "shell_marks \<Rightarrow> string list" where
  "marks_pieces [] = [[]]"
| "marks_pieces ((c, mode) # marks) = (if c = CHR ''|'' \<and> mode = Plain then [] # marks_pieces marks
     else (c # hd (marks_pieces marks)) # tl (marks_pieces marks))"

definition piece_segments :: "string list \<Rightarrow> string list" where
  "piece_segments pieces = filter (\<lambda>t. t \<noteq> []) (map trim pieces)"

lemma marks_pieces_not_Nil [simp]: "marks_pieces marks \<noteq> []"
  by (cases marks rule: marks_pieces.cases) auto

definition behind :: "string \<Rightarrow> string list \<Rightarrow> string list" where
  "behind buf pieces = (buf @ hd pieces) # tl pieces"

lemma behind_Cons: "c \<noteq> CHR ''|'' \<or> mode \<noteq> Plain \<Longrightarrow> behind buf (marks_pieces ((c, mode) # marks)) = behind (buf @ [c]) (marks_pieces marks)"
  by (auto simp: behind_def)

lemma shell_lex_hd: "shell_lex (c # s) mode \<noteq> [] \<and> fst (hd (shell_lex (c # s) mode)) = c"
  by (cases mode) auto

lemma next_is_lex: "next_is c s \<longleftrightarrow> shell_lex s mode \<noteq> [] \<and> fst (hd (shell_lex s mode)) = c"
  using shell_lex_hd by (cases s) auto

definition scan_matches :: "string \<Rightarrow> pipe_scan \<Rightarrow> pipe_scan \<Rightarrow> bool" where
  "scan_matches s st st' = (marks_safe (shell_lex s (ps_mode st)) \<and> ps_heredocs st' = [] \<and> \<not> ps_body st' \<and>
     ps_segments (push_segment st') = ps_segments st @ piece_segments (behind (ps_buf st) (marks_pieces (shell_lex s (ps_mode st)))))"

lemma scan_matches_push:
  assumes "scan_matches rest (push_char [ch] m st) st'" "shell_lex (ch # rest) (ps_mode st) = (ch, ps_mode st) # shell_lex rest m"
    "mark_ok ch (ps_mode st)" "ch \<noteq> CHR ''|'' \<or> ps_mode st \<noteq> Plain"
    "\<not> (ch = CHR ''$'' \<and> ps_mode st = InDouble \<and> next_is (CHR ''('') rest)"
  shows "scan_matches (ch # rest) st st'"
  using assms by (simp add: scan_matches_def behind_Cons next_is_lex[of _ _ m] del: marks_pieces.simps)

lemma mark_ok_quote [simp]: "mark_ok backslash m" "mark_ok squote m" "mark_ok dquote m" "mark_ok c Escaped" "mark_ok c InSingle"
  by (auto simp: mark_ok_def shell_chars line_end_def)

lemma bar_neq [simp]: "backslash \<noteq> CHR ''|''" "squote \<noteq> CHR ''|''" "dquote \<noteq> CHR ''|''" "backslash \<noteq> CHR ''$''"
  by (simp_all add: shell_chars)

text \<open>A step outside quotes.\<close>

lemma scan_matches_plain:
  assumes step: "plain_step ch rest st = Inr (st1, rest1)" and st: "ps_mode st = Plain" "ps_heredocs st = []" "ch \<noteq> CHR ''<''"
    and IH: "ps_heredocs st1 = [] \<Longrightarrow> ps_body st1 = ps_body st \<Longrightarrow>
      shell_lex (ch # rest) Plain = (ch, Plain) # shell_lex rest1 (ps_mode st1) \<Longrightarrow> scan_matches rest1 st1 st'"
  shows "scan_matches (ch # rest) st st'"
proof -
  consider (quote) "ch \<in> {backslash, squote, dquote}" | (bar) "ch = CHR ''|''" | (other) "ch \<notin> {backslash, squote, dquote, CHR ''|''}"
    by blast
  thus ?thesis
  proof cases
    case quote
    then obtain m where "st1 = push_char [ch] m st" "rest1 = rest" "shell_lex (ch # rest) Plain = (ch, Plain) # shell_lex rest m" "mark_ok ch Plain"
        "ch \<noteq> CHR ''|''"
      using step by (auto simp: plain_step_def)
    thus ?thesis using IH st by (intro scan_matches_push) auto
  next
    case bar
    hence "st1 = push_segment (st\<lparr>ps_empty := True\<rparr>)" "rest1 = rest"
      using step st by (auto simp: plain_step_def line_end_def shell_chars split: if_splits)
    moreover have "mark_ok ch Plain" using bar by (simp add: mark_ok_def line_end_def shell_chars)
    ultimately show ?thesis using IH bar st
      by (auto simp: scan_matches_def push_segment_def piece_segments_def behind_def Let_def)
  next
    case other
    hence "st1 = push_char [ch] Plain st" "rest1 = rest" "mark_ok ch Plain"
      using step st by (auto simp: plain_step_def mark_ok_def line_end_def DISALLOWED_PIPELINE_TOKENS_def split: if_splits)
    thus ?thesis using IH st other by (intro scan_matches_push) auto
  qed
qed

text \<open>A step inside double quotes.\<close>

lemma scan_matches_double:
  assumes step: "double_step ch rest st = Inr (st1, rest1)" and st: "ps_mode st = InDouble" "ps_heredocs st = []"
    and IH: "ps_heredocs st1 = [] \<Longrightarrow> ps_body st1 = ps_body st \<Longrightarrow>
      set (shell_lex rest1 (ps_mode st1)) \<subseteq> set (shell_lex (ch # rest) InDouble) \<Longrightarrow> scan_matches rest1 st1 st'"
  shows "scan_matches (ch # rest) st st'"
proof (cases "ch = backslash \<and> next_in DOUBLE_QUOTE_ESCAPES rest")
  case True
  then obtain c s where rest: "rest = c # s" by (cases rest) auto
  have st1: "st1 = push_char [ch, c] InDouble st" "rest1 = s" using step True rest by (auto simp: double_step_def split: if_splits)
  have lex: "shell_lex (ch # rest) InDouble = (ch, InDouble) # (c, Escaped) # shell_lex s InDouble" using True rest by simp
  hence "scan_matches s (push_char [ch, c] InDouble st) st'" using IH st1 st by auto
  thus ?thesis using st lex True by (simp add: scan_matches_def behind_Cons del: marks_pieces.simps)
next
  case False
  hence "st1 = push_char [ch] (if ch = dquote then Plain else InDouble) st" "rest1 = rest" "mark_ok ch InDouble"
    "\<not> (ch = CHR ''$'' \<and> next_is (CHR ''('') rest)"
    using step by (auto simp: double_step_def mark_ok_def split: if_splits)
  moreover have "shell_lex (ch # rest) InDouble = (ch, InDouble) # shell_lex rest (if ch = dquote then Plain else InDouble)"
    using False by auto
  ultimately show ?thesis using IH st by (intro scan_matches_push) (auto simp: subset_insertI)
qed

lemma pipe_loop_matches:
  assumes "pipe_loop s st = Inr st'" "ps_heredocs st = []" "\<not> ps_body st" "(CHR ''<'', Plain) \<notin> set (shell_lex s (ps_mode st))"
  shows "scan_matches s st st'"
  using assms
proof (induction s st arbitrary: st' rule: pipe_loop.induct)
  case (1 st)
  thus ?case by (simp add: scan_matches_def push_segment_def piece_segments_def behind_def Let_def)
next
  case (2 ch rest st)
  obtain st1 rest1 where step: "pipe_step ch rest st = Inr (st1, rest1)" using 2(2) by (auto split: sum.splits)
  have loop: "pipe_loop rest1 st1 = Inr st'" using 2(2) step by simp
  note IH = 2(1)[OF step refl loop]
  show ?case
  proof (cases "ps_mode st")
    case Plain
    hence "plain_step ch rest st = Inr (st1, rest1)" using step 2(4) by (simp add: pipe_step_def)
    thus ?thesis by (rule scan_matches_plain) (use IH 2(3-5) Plain in auto)
  next
    case Escaped
    hence "st1 = push_char [ch] Plain st" "rest1 = rest" using step 2(4) by (auto simp: pipe_step_def)
    thus ?thesis using IH 2(3-5) Escaped by (simp add: scan_matches_def mark_ok_def behind_Cons del: marks_pieces.simps)
  next
    case InSingle
    hence st1: "st1 = push_char [ch] (if ch = squote then Plain else InSingle) st" "rest1 = rest"
      using step 2(4) by (auto simp: pipe_step_def)
    hence "scan_matches rest st1 st'" using IH 2(3-5) InSingle by simp
    thus ?thesis unfolding st1(1) by (rule scan_matches_push) (use InSingle in auto)
  next
    case InDouble
    hence "double_step ch rest st = Inr (st1, rest1)" using step 2(4) by (simp add: pipe_step_def)
    thus ?thesis by (rule scan_matches_double) (use IH 2(3-5) InDouble in auto)
  qed
qed



text \<open>
  Each of these texts is one command with quoted words for the analysis. A shell ends the line of the
  comment, the \<open>$'...'\<close> string (in bash) and the expansion before the text in the last pair of quotes, and
  runs \<open>rm x\<close>.
\<close>

lemma comment_hides_command:
  "command_structure (''ls # '' @ squote # newline # ''rm x #'' @ [squote]) = Some [([[''ls'', ''#'', newline # ''rm x #'']], None)]"
  by code_simp

lemma ansi_quote_hides_command:
  "command_structure (''echo $'' @ squote # backslash # squote # squote # ''; rm x #'' @ [squote]) =
     Some [([[''echo'', CHR ''$'' # backslash # ''; rm x #'']], None)]"
  by code_simp

lemma expansion_hides_command:
  "command_structure (''echo '' @ dquote # ''${a#'' @ squote # dquote # squote # ''}'' @ dquote # ''; rm x #'' @ [squote]) =
     Some [([[''echo'', ''${a#'' @ squote # ''}'' @ dquote # ''; rm x #'']], None)]"
  by code_simp

lemma other_readings:
  "map posix_reading [''ls # '' @ squote # newline # ''rm x #'' @ [squote],
     ''echo $'' @ squote # backslash # squote # squote # ''; rm x #'' @ [squote],
     ''echo '' @ dquote # ''${a#'' @ squote # dquote # squote # ''}'' @ dquote # ''; rm x #'' @ [squote]] = [None, None, None]"
  by code_simp

text \<open>
  A here document is where the segments are not what the shell runs: the text of the line after the
  delimiter is joined to the command before the document, so a second command becomes an argument.
\<close>

lemma text_after_heredoc_is_joined:
  "splitShellPipeline (''cat <<EOF'' @ [newline] @ ''x'' @ [newline] @ ''EOF'' @ [newline] @ ''rm -rf /'') = Inr [''cat <<EOFrm -rf /'']"
  by code_simp

end
