(* ===== verification/CommandResolution.thy ===== *)
theory CommandResolution
  imports ShellSyntax
begin

text \<open>
  Which executable a command line names: the home directory (src/infra/home-dir.ts), the search for
  an executable (src/infra/executable-path.ts), the resolution of an argv and the match of allowlist
  patterns (src/infra/exec-command-resolution.ts, src/infra/exec-allowlist-pattern.ts), and the
  analysis of shell commands and argvs with the command lines planned from it (the rest of
  src/infra/exec-approvals-analysis.ts). The process and its file system are a record of constants;
  \<open>process.platform\<close> is not win32 wherever the file system is used.
\<close>

section \<open>The host\<close>

text \<open>
  \<open>hs_stat\<close>, \<open>hs_lstat\<close>, \<open>hs_realpath\<close> and \<open>hs_homedir\<close> are None when the call throws; \<open>hs_accessX\<close> and
  \<open>hs_accessW\<close> tell that \<open>accessSync\<close> does not throw.
\<close>

record file_stat =
  st_isFile :: bool
  st_isDirectory :: bool
  st_isSymbolicLink :: bool
  st_dev :: nat
  st_ino :: nat
  st_mode :: nat

record host =
  hs_platform :: string
  hs_cwd :: string
  hs_env :: "(string, string) js_map"
  hs_homedir :: "string option"
  hs_stat :: "string \<Rightarrow> file_stat option"
  hs_lstat :: "string \<Rightarrow> file_stat option"
  hs_accessX :: "string \<Rightarrow> bool"
  hs_accessW :: "string \<Rightarrow> bool"
  hs_realpath :: "string \<Rightarrow> string option"

section \<open>Paths of POSIX systems\<close>

text \<open>\<open>path.posix\<close> of Node; the segments that are kept are in reverse order.\<close>

abbreviation slash :: char where "slash \<equiv> CHR ''/''"

fun normalize_segments :: "bool \<Rightarrow> string list \<Rightarrow> string list \<Rightarrow> string list" where
  "normalize_segments up [] acc = rev acc"
| "normalize_segments up (s # ss) acc =
     (if s = [] \<or> s = ''.'' then normalize_segments up ss acc
      else if s = ''..'' then
        (if acc \<noteq> [] \<and> hd acc \<noteq> ''..'' then normalize_segments up ss (tl acc)
         else normalize_segments up ss (if up then s # acc else acc))
      else normalize_segments up ss (s # acc))"

definition normalize_string :: "bool \<Rightarrow> string \<Rightarrow> string" where
  "normalize_string up p = join_with ''/'' (normalize_segments up (split_on slash p) [])"

definition path_isAbsolute :: "string \<Rightarrow> bool" where
  "path_isAbsolute p = starts_with p ''/''"

definition path_normalize :: "string \<Rightarrow> string" where
  "path_normalize p =
     (if p = [] then ''.''
      else let absolute = path_isAbsolute p; trailing = ends_with p ''/''; q = normalize_string (\<not> absolute) p in
        if q = [] then (if absolute then ''/'' else if trailing then ''./'' else ''.'')
        else (if absolute then ''/'' else []) @ q @ (if trailing then ''/'' else []))"

definition path_join :: "string list \<Rightarrow> string" where
  "path_join parts = (let joined = join_with ''/'' (nonempty_strs parts) in if nonempty_strs parts = [] then ''.'' else path_normalize joined)"

fun resolve_from :: "string list \<Rightarrow> string \<Rightarrow> string \<times> bool" where
  "resolve_from [] p = (p, path_isAbsolute p)"
| "resolve_from (q # qs) p = (if path_isAbsolute p then (p, True)
     else if q = [] then resolve_from qs p else resolve_from qs (q @ ''/'' @ p))"

text \<open>The arguments are read from the last one on, and after them the working directory.\<close>

definition path_resolve :: "host \<Rightarrow> string list \<Rightarrow> string" where
  "path_resolve h paths = (let (p, absolute) = resolve_from (rev paths @ [hs_cwd h]) []; q = normalize_string (\<not> absolute) p in
     if absolute then ''/'' @ q else if q \<noteq> [] then q else ''.'')"

definition path_dirname :: "string \<Rightarrow> string" where
  "path_dirname p =
     (if p = [] then ''.''
      else let n = length (dropWhile (\<lambda>c. c \<noteq> slash) (dropWhile (\<lambda>c. c = slash) (rev (tl p)))) in
        if n = 0 then (if hd p = slash then ''/'' else ''.'')
        else if hd p = slash \<and> n = 1 then ''//'' else take n p)"

section \<open>The home directory\<close>

definition normalize_home :: "string option \<Rightarrow> string option" where
  "normalize_home value = (case value of None \<Rightarrow> None | Some v \<Rightarrow> str_opt (trim v))"

text \<open>A replacement text of \<open>String.replace\<close>: \<open>pre\<close>, \<open>matched\<close> and \<open>after\<close> cut the subject, and there are no groups.\<close>

fun replacement_text :: "string \<Rightarrow> string \<Rightarrow> string \<Rightarrow> string \<Rightarrow> string" where
  "replacement_text pre matched after (d # c # rest) =
     (if d = CHR ''$'' \<and> c = CHR ''$'' then CHR ''$'' # replacement_text pre matched after rest
      else if d = CHR ''$'' \<and> c = CHR ''&'' then matched @ replacement_text pre matched after rest
      else if d = CHR ''$'' \<and> c = backtick then pre @ replacement_text pre matched after rest
      else if d = CHR ''$'' \<and> c = squote then after @ replacement_text pre matched after rest
      else d # replacement_text pre matched after (c # rest))"
| "replacement_text pre matched after rest = rest"

text \<open>\<open>replace(/^~(?=$|[\\/])/, home)\<close>.\<close>

definition replace_tilde :: "string \<Rightarrow> string \<Rightarrow> string" where
  "replace_tilde input home =
     (case input of [] \<Rightarrow> [] | c # rest \<Rightarrow>
        if c = CHR ''~'' \<and> (rest = [] \<or> hd rest \<in> {backslash, slash}) then replacement_text [] ''~'' rest home @ rest else input)"

definition resolveRawHomeDir :: "host \<Rightarrow> string option" where
  "resolveRawHomeDir h = (let env = (\<lambda>k. normalize_home (map_get (hs_env h) k)) in
     case env ''OPENCLAW_HOME'' of
       Some explicitHome \<Rightarrow>
         if explicitHome = ''~'' \<or> starts_with explicitHome ''~/'' \<or> starts_with explicitHome [CHR ''~'', backslash]
         then (case nullish_opt (env ''HOME'') (nullish_opt (env ''USERPROFILE'') (normalize_home (hs_homedir h))) of
                 Some fallbackHome \<Rightarrow> Some (replace_tilde explicitHome fallbackHome)
               | None \<Rightarrow> None)
         else Some explicitHome
     | None \<Rightarrow> nullish_opt (env ''HOME'') (nullish_opt (env ''USERPROFILE'') (normalize_home (hs_homedir h))))"

definition resolveEffectiveHomeDir :: "host \<Rightarrow> string option" where
  "resolveEffectiveHomeDir h = (case resolveRawHomeDir h of None \<Rightarrow> None
     | Some raw \<Rightarrow> if raw = [] then None else Some (path_resolve h [raw]))"

definition resolveRequiredHomeDir :: "host \<Rightarrow> string" where
  "resolveRequiredHomeDir h = nullish (resolveEffectiveHomeDir h) (path_resolve h [hs_cwd h])"

definition expandHomePrefix :: "host \<Rightarrow> string \<Rightarrow> string" where
  "expandHomePrefix h input =
     (if \<not> starts_with input ''~'' then input
      else case resolveEffectiveHomeDir h of None \<Rightarrow> input | Some home \<Rightarrow> replace_tilde input home)"

section \<open>Executables\<close>

definition isExecutableFile :: "host \<Rightarrow> string \<Rightarrow> bool" where
  "isExecutableFile h filePath = (case hs_stat h filePath of None \<Rightarrow> False | Some st \<Rightarrow> st_isFile st \<and> hs_accessX h filePath)"

definition resolveExecutableFromPathEnv :: "host \<Rightarrow> string \<Rightarrow> string \<Rightarrow> string option" where
  "resolveExecutableFromPathEnv h executable pathEnv =
     find (isExecutableFile h) (map (\<lambda>entry. path_join [entry, executable]) (nonempty_strs (split_on (CHR '':'') pathEnv)))"

text \<open>The directory that relative paths of a command are resolved against.\<close>

definition base_dir :: "host \<Rightarrow> string option \<Rightarrow> string" where
  "base_dir h cwd = str_or (trim (nullish cwd [])) (hs_cwd h)"

definition has_path_separator :: "string \<Rightarrow> bool" where
  "has_path_separator s = (slash \<in> set s \<or> backslash \<in> set s)"

definition resolveExecutablePath :: "host \<Rightarrow> string option \<Rightarrow> (string, string) js_map option \<Rightarrow> string \<Rightarrow> string option" where
  "resolveExecutablePath h cwd env rawExecutable =
     (let expanded = (if starts_with rawExecutable ''~'' then expandHomePrefix h rawExecutable else rawExecutable) in
      if has_path_separator expanded then
        (let candidate = (if path_isAbsolute expanded then expanded else path_resolve h [base_dir h cwd, expanded]) in
         if isExecutableFile h candidate then Some candidate else None)
      else let own = nullish env [] in
        resolveExecutableFromPathEnv h expanded
          (nullish (nullish_opt (map_get own ''PATH'') (nullish_opt (map_get own ''Path'')
             (nullish_opt (map_get (hs_env h) ''PATH'') (map_get (hs_env h) ''Path'')))) []))"

section \<open>The resolution of a command\<close>

record command_resolution =
  cr_rawExecutable :: string
  cr_resolvedPath :: "string option"
  cr_resolvedRealPath :: "string option"
  cr_executableName :: string
  cr_effectiveArgv :: "string list option"
  cr_wrapperChain :: "string list option"
  cr_policyBlocked :: "bool option"
  cr_blockedWrapper :: "string option"

definition parseFirstToken :: "string \<Rightarrow> string option" where
  "parseFirstToken command = (case trim command of [] \<Rightarrow> None
     | first # rest \<Rightarrow>
         if first = dquote \<or> first = squote then
           (case index_of first rest of
              Some n \<Rightarrow> if n > 0 then Some (take n rest) else Some rest
            | None \<Rightarrow> Some rest)
         else Some (takeWhile (\<lambda>c. \<not> js_ws c) (first # rest)))"

definition tryResolveRealpath :: "host \<Rightarrow> string option \<Rightarrow> string option" where
  "tryResolveRealpath h filePath = (case filePath of None \<Rightarrow> None | Some p \<Rightarrow> if p = [] then None else hs_realpath h p)"

definition buildCommandResolution ::
  "host \<Rightarrow> string option \<Rightarrow> (string, string) js_map option \<Rightarrow> string \<Rightarrow> string list \<Rightarrow> string list \<Rightarrow> bool \<Rightarrow> string option \<Rightarrow> command_resolution" where
  "buildCommandResolution h cwd env rawExecutable effectiveArgv wrapperChain policyBlocked blockedWrapper =
     (let resolvedPath = resolveExecutablePath h cwd env rawExecutable in
      \<lparr>cr_rawExecutable = rawExecutable, cr_resolvedPath = resolvedPath,
       cr_resolvedRealPath = tryResolveRealpath h resolvedPath,
       cr_executableName = (case resolvedPath of Some p \<Rightarrow> if p = [] then rawExecutable else posix_basename p | None \<Rightarrow> rawExecutable),
       cr_effectiveArgv = Some effectiveArgv, cr_wrapperChain = Some wrapperChain,
       cr_policyBlocked = Some policyBlocked, cr_blockedWrapper = blockedWrapper\<rparr>)"

definition resolveCommandResolution :: "host \<Rightarrow> string option \<Rightarrow> (string, string) js_map option \<Rightarrow> string \<Rightarrow> command_resolution option" where
  "resolveCommandResolution h cwd env command = (case parseFirstToken command of None \<Rightarrow> None
     | Some raw \<Rightarrow> if raw = [] then None else Some (buildCommandResolution h cwd env raw [raw] [] False None))"

definition resolveCommandResolutionFromArgv ::
  "host \<Rightarrow> string option \<Rightarrow> (string, string) js_map option \<Rightarrow> string list \<Rightarrow> command_resolution option" where
  "resolveCommandResolutionFromArgv h cwd env argv =
     (let plan = resolveDispatchWrapperExecutionPlan argv MAX_DISPATCH_WRAPPER_DEPTH; rawExecutable = head_token (dp_argv plan) in
      if rawExecutable = [] then None
      else Some (buildCommandResolution h cwd env rawExecutable (dp_argv plan) (dp_wrappers plan) (dp_policyBlocked plan) (dp_blockedWrapper plan)))"

definition resolveAllowlistCandidatePath :: "host \<Rightarrow> command_resolution option \<Rightarrow> string option \<Rightarrow> string option" where
  "resolveAllowlistCandidatePath h resolution cwd = (case resolution of None \<Rightarrow> None
     | Some r \<Rightarrow>
        if nullish (cr_resolvedPath r) [] \<noteq> [] then cr_resolvedPath r
        else let raw = trim (cr_rawExecutable r) in
          if raw = [] then None
          else let expanded = (if starts_with raw ''~'' then expandHomePrefix h raw else raw) in
            if \<not> has_path_separator expanded then None
            else if path_isAbsolute expanded then Some expanded
            else Some (path_resolve h [base_dir h cwd, expanded]))"

section \<open>Allowlist patterns\<close>

record allowlist_entry =
  al_id :: "string option"
  al_pattern :: string
  al_lastUsedAt :: "int option"
  al_lastUsedCommand :: "string option"
  al_lastResolvedPath :: "string option"

text \<open>\<open>replace(/\\\\/g, "/")\<close>: two backslashes become one slash.\<close>

fun unescape_separators :: "string \<Rightarrow> string" where
  "unescape_separators (a # b # s) = (if a = backslash \<and> b = backslash then slash # unescape_separators s else a # unescape_separators (b # s))"
| "unescape_separators s = s"

definition normalizeMatchTarget :: "string \<Rightarrow> string" where
  "normalizeMatchTarget v = to_lower (unescape_separators v)"

text \<open>The pieces of the regular expression of a glob; the cache of compiled expressions is left out.\<close>

datatype glob_piece = AnyText | AnySegmentText | AnyChar | Literal char

fun compileGlobRegex :: "string \<Rightarrow> glob_piece list" where
  "compileGlobRegex [] = []"
| "compileGlobRegex (ch # rest) =
     (if ch = CHR ''*'' then (if next_is (CHR ''*'') rest then AnyText # compileGlobRegex (tl rest) else AnySegmentText # compileGlobRegex rest)
      else if ch = CHR ''?'' then AnyChar # compileGlobRegex rest
      else Literal ch # compileGlobRegex rest)"

text \<open>The test of \<open>^...$\<close> with flag i on lower-cased texts; \<open>.\<close> stops at a line end, \<open>[^/]\<close> at a slash.\<close>

fun glob_test :: "glob_piece list \<Rightarrow> string \<Rightarrow> bool" where
  "glob_test [] s = (s = [])"
| "glob_test (Literal ch # ps) [] = False"
| "glob_test (Literal ch # ps) (c # cs) = (c = ch \<and> glob_test ps cs)"
| "glob_test (AnyChar # ps) [] = False"
| "glob_test (AnyChar # ps) (c # cs) = (\<not> line_end c \<and> glob_test ps cs)"
| "glob_test (AnySegmentText # ps) [] = glob_test ps []"
| "glob_test (AnySegmentText # ps) (c # cs) = (glob_test ps (c # cs) \<or> (c \<noteq> slash \<and> glob_test (AnySegmentText # ps) cs))"
| "glob_test (AnyText # ps) [] = glob_test ps []"
| "glob_test (AnyText # ps) (c # cs) = (glob_test ps (c # cs) \<or> (\<not> line_end c \<and> glob_test (AnyText # ps) cs))"

definition matchesExecAllowlistPattern :: "host \<Rightarrow> string \<Rightarrow> string \<Rightarrow> bool" where
  "matchesExecAllowlistPattern h pattern target = (let trimmed = trim pattern in
     if trimmed = [] then False
     else let expanded = (if starts_with trimmed ''~'' then expandHomePrefix h trimmed else trimmed) in
       glob_test (compileGlobRegex (normalizeMatchTarget expanded)) (normalizeMatchTarget target))"

definition entry_applies :: "host \<Rightarrow> string \<Rightarrow> allowlist_entry \<Rightarrow> bool" where
  "entry_applies h resolvedPath entry = (let pattern = trim (al_pattern entry) in
     pattern \<noteq> [] \<and> (has_path_separator pattern \<or> CHR ''~'' \<in> set pattern) \<and> matchesExecAllowlistPattern h pattern resolvedPath)"

definition matchAllowlist :: "host \<Rightarrow> allowlist_entry list \<Rightarrow> command_resolution option \<Rightarrow> allowlist_entry option" where
  "matchAllowlist h entries resolution =
     (if entries = [] then None
      else case (find (\<lambda>e. trim (al_pattern e) = ''*'') entries, resolution) of
        (Some bareWild, Some _) \<Rightarrow> Some bareWild
      | (_, None) \<Rightarrow> None
      | (None, Some r) \<Rightarrow> let resolvedPath = nullish (cr_resolvedPath r) [] in
          if resolvedPath = [] then None else find (entry_applies h resolvedPath) entries)"

section \<open>The analysis of a command\<close>

record exec_segment =
  sg_raw :: string
  sg_argv :: "string list"
  sg_resolution :: "command_resolution option"

record exec_analysis =
  an_ok :: bool
  an_reason :: "string option"
  an_segments :: "exec_segment list"
  an_chains :: "exec_segment list list option"

definition analysis_failed :: "string \<Rightarrow> exec_analysis" where
  "analysis_failed reason = \<lparr>an_ok = False, an_reason = Some reason, an_segments = [], an_chains = None\<rparr>"

definition analysis_of :: "exec_segment list \<Rightarrow> exec_segment list list option \<Rightarrow> exec_analysis" where
  "analysis_of segments groups = \<lparr>an_ok = True, an_reason = None, an_segments = segments, an_chains = groups\<rparr>"

definition segment_of :: "host \<Rightarrow> string option \<Rightarrow> (string, string) js_map option \<Rightarrow> string \<Rightarrow> string list \<Rightarrow> exec_segment" where
  "segment_of h cwd env raw argv = \<lparr>sg_raw = raw, sg_argv = argv, sg_resolution = resolveCommandResolutionFromArgv h cwd env argv\<rparr>"

definition analyzeWindowsShellCommand :: "host \<Rightarrow> string option \<Rightarrow> (string, string) js_map option \<Rightarrow> string \<Rightarrow> exec_analysis" where
  "analyzeWindowsShellCommand h cwd env command = (case findWindowsUnsupportedToken command of
       Some token \<Rightarrow> analysis_failed (''unsupported windows shell token: '' @ token)
     | None \<Rightarrow> (case tokenizeWindowsSegment command of
          None \<Rightarrow> analysis_failed ''unable to parse windows command''
        | Some argv \<Rightarrow> if argv = [] then analysis_failed ''unable to parse windows command''
            else analysis_of [segment_of h cwd env command argv] None))"

fun parseSegmentsFromParts :: "host \<Rightarrow> string option \<Rightarrow> (string, string) js_map option \<Rightarrow> string list \<Rightarrow> exec_segment list option" where
  "parseSegmentsFromParts h cwd env [] = Some []"
| "parseSegmentsFromParts h cwd env (raw # raws) = (case splitShellArgs raw of None \<Rightarrow> None
     | Some argv \<Rightarrow> if argv = [] then None else map_option (Cons (segment_of h cwd env raw argv)) (parseSegmentsFromParts h cwd env raws))"

definition analyze_pipeline :: "host \<Rightarrow> string option \<Rightarrow> (string, string) js_map option \<Rightarrow> string \<Rightarrow> string + exec_segment list" where
  "analyze_pipeline h cwd env part = (case splitShellPipeline part of Inl reason \<Rightarrow> Inl reason
     | Inr raws \<Rightarrow> (case parseSegmentsFromParts h cwd env raws of None \<Rightarrow> Inl ''unable to parse shell segment'' | Some segments \<Rightarrow> Inr segments))"

fun analyze_chain :: "host \<Rightarrow> string option \<Rightarrow> (string, string) js_map option \<Rightarrow> string list \<Rightarrow> string + exec_segment list list" where
  "analyze_chain h cwd env [] = Inr []"
| "analyze_chain h cwd env (part # parts) = (case analyze_pipeline h cwd env part of Inl reason \<Rightarrow> Inl reason
     | Inr segments \<Rightarrow> (case analyze_chain h cwd env parts of Inl reason \<Rightarrow> Inl reason | Inr groups \<Rightarrow> Inr (segments # groups)))"

definition analyzeShellCommand :: "host \<Rightarrow> string option \<Rightarrow> (string, string) js_map option \<Rightarrow> string option \<Rightarrow> string \<Rightarrow> exec_analysis" where
  "analyzeShellCommand h cwd env platform command =
     (if isWindowsPlatform platform then analyzeWindowsShellCommand h cwd env command
      else case splitCommandChain command of
        Some chainParts \<Rightarrow> (case analyze_chain h cwd env chainParts of Inl reason \<Rightarrow> analysis_failed reason
          | Inr groups \<Rightarrow> analysis_of (concat groups) (Some groups))
      | None \<Rightarrow> (case analyze_pipeline h cwd env command of Inl reason \<Rightarrow> analysis_failed reason | Inr segments \<Rightarrow> analysis_of segments None))"

definition analyzeArgvCommand :: "host \<Rightarrow> string option \<Rightarrow> (string, string) js_map option \<Rightarrow> string list \<Rightarrow> exec_analysis" where
  "analyzeArgvCommand h cwd env argv0 = (let argv = filter (\<lambda>entry. trim entry \<noteq> []) argv0 in
     if argv = [] then analysis_failed ''empty argv''
     else analysis_of [segment_of h cwd env (join_with '' '' argv) argv] None)"

section \<open>The command lines that are planned\<close>

text \<open>The argv that a segment stands for once its dispatch wrappers are gone.\<close>

definition effective_argv :: "exec_segment \<Rightarrow> string list" where
  "effective_argv segment = (case sg_resolution segment of None \<Rightarrow> sg_argv segment
     | Some r \<Rightarrow> (case cr_effectiveArgv r of Some argv \<Rightarrow> if argv \<noteq> [] then argv else sg_argv segment | None \<Rightarrow> sg_argv segment))"

definition policy_blocked :: "exec_segment \<Rightarrow> bool" where
  "policy_blocked segment = (case sg_resolution segment of None \<Rightarrow> False | Some r \<Rightarrow> cr_policyBlocked r = Some True)"

definition resolvePlannedSegmentArgv :: "exec_segment \<Rightarrow> string list option" where
  "resolvePlannedSegmentArgv segment =
     (if policy_blocked segment then None
      else case effective_argv segment of [] \<Rightarrow> None
        | first # rest \<Rightarrow>
           let resolvedExecutable = (case sg_resolution segment of None \<Rightarrow> []
                 | Some r \<Rightarrow> nullish (nullish_opt (map_option trim (cr_resolvedRealPath r)) (map_option trim (cr_resolvedPath r))) []) in
           Some (str_or resolvedExecutable first # rest))"

definition renderSafeBinSegmentArgv :: "exec_segment \<Rightarrow> string option" where
  "renderSafeBinSegmentArgv segment = (case resolvePlannedSegmentArgv segment of None \<Rightarrow> None
     | Some argv \<Rightarrow> if argv = [] then None else Some (renderQuotedArgv argv))"

datatype satisfied_by = ByAllowlist | BySafeBins | BySkills

definition render_safe_bins :: "exec_segment list \<Rightarrow> satisfied_by option list \<Rightarrow> segment_renderer" where
  "render_safe_bins segments by raw n =
     (if n \<ge> length segments \<or> n \<ge> length by then Inl ''segment mapping failed''
      else if by ! n \<noteq> Some BySafeBins then Inr (trim raw)
      else case renderSafeBinSegmentArgv (segments ! n) of None \<Rightarrow> Inl ''segment execution plan unavailable''
        | Some rendered \<Rightarrow> if rendered = [] then Inl ''segment execution plan unavailable'' else Inr rendered)"

definition buildSafeBinsShellCommand :: "string \<Rightarrow> exec_segment list \<Rightarrow> satisfied_by option list \<Rightarrow> string option \<Rightarrow> string + string" where
  "buildSafeBinsShellCommand command segments by platform =
     (if length segments \<noteq> length by then Inl ''segment metadata mismatch''
      else finalizeRebuiltShellCommand (rebuildShellCommandFromSource command platform (render_safe_bins segments by)) (Some (length segments)))"

definition render_enforced :: "exec_segment list \<Rightarrow> segment_renderer" where
  "render_enforced segments raw n =
     (if n \<ge> length segments then Inl ''segment mapping failed''
      else case resolvePlannedSegmentArgv (segments ! n) of None \<Rightarrow> Inl ''segment execution plan unavailable''
        | Some argv \<Rightarrow> Inr (renderQuotedArgv argv))"

definition buildEnforcedShellCommand :: "string \<Rightarrow> exec_segment list \<Rightarrow> string option \<Rightarrow> string + string" where
  "buildEnforcedShellCommand command segments platform =
     finalizeRebuiltShellCommand (rebuildShellCommandFromSource command platform (render_enforced segments)) (Some (length segments))"

section \<open>Globs, directory by directory\<close>

fun stays_in_segment :: "glob_piece \<Rightarrow> bool" where
  "stays_in_segment AnySegmentText = True"
| "stays_in_segment (Literal c) = (c \<noteq> slash)"
| "stays_in_segment _ = False"

lemma glob_test_in_segment: "glob_test ps s \<Longrightarrow> list_all stays_in_segment ps \<Longrightarrow> slash \<notin> set s"
  by (induction ps s rule: glob_test.induct) auto

lemma glob_test_slash_split:
  "glob_test (ps @ Literal slash # qs) s \<Longrightarrow> list_all stays_in_segment ps \<Longrightarrow> \<exists>a b. s = a @ slash # b \<and> glob_test ps a \<and> glob_test qs b"
proof (induction ps s rule: glob_test.induct)
  case (1 s)
  thus ?case by (cases s) auto
next
  case (3 ch ps c cs)
  then obtain a b where "cs = a @ slash # b" "glob_test ps a" "glob_test qs b" "c = ch" by auto
  thus ?case by (intro exI[of _ "c # a"] exI[of _ b]) simp
next
  case (6 ps)
  thus ?case by auto
next
  case (7 ps c cs)
  show ?case
  proof (cases "glob_test (ps @ Literal slash # qs) (c # cs)")
    case True
    then obtain a b where "c # cs = a @ slash # b" "glob_test ps a" "glob_test qs b" using 7 by auto
    thus ?thesis by (intro exI[of _ a] exI[of _ b]) (cases a; simp)
  next
    case False
    hence "c \<noteq> slash" "glob_test ((AnySegmentText # ps) @ Literal slash # qs) cs" using "7.prems"(1) by simp_all
    then obtain a b where "cs = a @ slash # b" "glob_test (AnySegmentText # ps) a" "glob_test qs b" using "7.IH"(2) "7.prems"(2) by auto
    thus ?thesis using \<open>c \<noteq> slash\<close> by (intro exI[of _ "c # a"] exI[of _ b]) simp
  qed
qed auto

lemma glob_test_slash_join:
  "glob_test ps a \<Longrightarrow> list_all stays_in_segment ps \<Longrightarrow> glob_test qs b \<Longrightarrow> glob_test (ps @ Literal slash # qs) (a @ slash # b)"
  by (induction ps a rule: glob_test.induct) auto

lemma glob_test_slash:
  "list_all stays_in_segment ps \<Longrightarrow>
   glob_test (ps @ Literal slash # qs) s \<longleftrightarrow> (\<exists>a b. s = a @ slash # b \<and> glob_test ps a \<and> glob_test qs b)"
  using glob_test_slash_split glob_test_slash_join by blast

lemma compile_slash: "slash \<notin> set p \<Longrightarrow> compileGlobRegex (p @ slash # q) = compileGlobRegex p @ Literal slash # compileGlobRegex q"
proof (induction p rule: compileGlobRegex.induct)
  case (2 ch rest)
  thus ?case by (cases rest) auto
qed simp

definition single_star_pattern :: "string \<Rightarrow> bool" where
  "single_star_pattern p = (CHR ''?'' \<notin> set p \<and> \<not> str_includes p ''**'')"

lemma str_includes_sublist: "str_includes s t \<longleftrightarrow> sublist t s"
proof (induction s)
  case (Cons c s)
  thus ?case by (auto simp: starts_with_def sublist_Cons_right)
qed (auto simp: starts_with_def)

lemma compile_single_star: "single_star_pattern p \<Longrightarrow> slash \<notin> set p \<Longrightarrow> list_all stays_in_segment (compileGlobRegex p)"
proof (induction p rule: compileGlobRegex.induct)
  case (2 ch rest)
  have two: "\<not> (ch = CHR ''*'' \<and> next_is (CHR ''*'') rest)" using "2.prems"(1)
    by (cases rest) (auto simp: single_star_pattern_def starts_with_def)
  have "ch \<noteq> CHR ''?''" "single_star_pattern rest" using "2.prems"(1) by (auto simp: single_star_pattern_def)
  thus ?case using 2 two by auto
qed simp

lemma single_star_split: "single_star_pattern (p @ slash # q) \<Longrightarrow> single_star_pattern p \<and> single_star_pattern q"
proof -
  have p: "sublist p (p @ slash # q)" by simp
  have q: "sublist q (p @ slash # q)" using sublist_append_leftI[of q "p @ [slash]"] by simp
  assume "single_star_pattern (p @ slash # q)"
  thus ?thesis using sublist_order.order_trans[OF _ p] sublist_order.order_trans[OF _ q]
    by (auto simp: single_star_pattern_def str_includes_sublist)
qed

lemma first_slash: "slash \<in> set p \<Longrightarrow> \<exists>a b. p = a @ slash # b \<and> slash \<notin> set a"
  by (drule split_list_first) blast

lemma glob_by_segment:
  "single_star_pattern p \<Longrightarrow>
   glob_test (compileGlobRegex p) s \<longleftrightarrow> list_all2 (\<lambda>p s. glob_test (compileGlobRegex p) s) (split_on slash p) (split_on slash s)"
proof (induction "length p" arbitrary: p s rule: less_induct)
  case less
  show ?case
  proof (cases "slash \<in> set p")
    case False
    have inside: "glob_test (compileGlobRegex p) w \<Longrightarrow> slash \<notin> set w" for w
      using glob_test_in_segment compile_single_star[OF less.prems False] by blast
    show ?thesis
    proof (cases "slash \<in> set s")
      case True
      then obtain a b where "s = a @ slash # b" "slash \<notin> set a" using first_slash by blast
      hence "split_on slash s = a # split_on slash b" by (simp add: split_on_append_sep)
      thus ?thesis using inside[of s] True split_on_single[OF False] by (auto simp: list_all2_Cons1)
    next
      case no_slash: False
      thus ?thesis using split_on_single[OF False] split_on_single[OF no_slash] by simp
    qed
  next
    case True
    then obtain a b where p: "p = a @ slash # b" "slash \<notin> set a" using first_slash by blast
    note ab = single_star_split[of a b, folded p(1), OF less.prems]
    note inside = compile_single_star[of a] glob_test_slash[of "compileGlobRegex a" "compileGlobRegex b" s]
    have IH: "glob_test (compileGlobRegex b) t \<longleftrightarrow> list_all2 (\<lambda>p s. glob_test (compileGlobRegex p) s) (split_on slash b) (split_on slash t)" for t
      using less.hyps[of b] ab p by simp
    have "glob_test (compileGlobRegex p) s \<longleftrightarrow> (\<exists>c d. s = c @ slash # d \<and> glob_test (compileGlobRegex a) c \<and> glob_test (compileGlobRegex b) d)"
      using inside ab p by (simp add: compile_slash)
    also have "\<dots> \<longleftrightarrow> (\<exists>c d. s = c @ slash # d \<and> slash \<notin> set c \<and> glob_test (compileGlobRegex a) c \<and> glob_test (compileGlobRegex b) d)"
      using glob_test_in_segment inside(1) ab p by blast
    also have "\<dots> \<longleftrightarrow> list_all2 (\<lambda>p s. glob_test (compileGlobRegex p) s) (a # split_on slash b) (split_on slash s)"
    proof (cases "slash \<in> set s")
      case False
      thus ?thesis by (auto simp: split_on_single)
    next
      case True
      then obtain c d where s: "s = c @ slash # d" "slash \<notin> set c" using first_slash by blast
      have "c' = c \<and> d' = d" if "s = c' @ slash # d'" "slash \<notin> set c'" for c' d'
        using that s by (auto simp: append_eq_append_conv2 append_eq_Cons_conv Cons_eq_append_conv)
      hence "(\<exists>c d. s = c @ slash # d \<and> slash \<notin> set c \<and> glob_test (compileGlobRegex a) c \<and> glob_test (compileGlobRegex b) d) \<longleftrightarrow>
          glob_test (compileGlobRegex a) c \<and> glob_test (compileGlobRegex b) d" using s by blast
      thus ?thesis using s IH by (simp add: split_on_append_sep)
    qed
    finally show ?thesis using p by (simp add: split_on_append_sep)
  qed
qed

text \<open>
  An allowlist pattern without \<open>**\<close> and \<open>?\<close> is matched directory by directory: the path has
  exactly as many segments as the pattern, and each of them matches the segment of the pattern at its
  place, so a \<open>*\<close> never reaches into another directory.
\<close>

theorem allowlist_pattern_by_segment:
  assumes "trim pattern \<noteq> []" "\<not> starts_with (trim pattern) ''~''" "single_star_pattern (normalizeMatchTarget (trim pattern))"
  shows "matchesExecAllowlistPattern h pattern target \<longleftrightarrow>
    list_all2 (\<lambda>p s. glob_test (compileGlobRegex p) s)
      (split_on slash (normalizeMatchTarget (trim pattern))) (split_on slash (normalizeMatchTarget target))"
  using assms glob_by_segment by (simp add: matchesExecAllowlistPattern_def)

lemma allowlist_pattern_by_segment_witness:
  "matchesExecAllowlistPattern \<lparr>hs_platform = ''linux'', hs_cwd = ''/'', hs_env = [], hs_homedir = None, hs_stat = \<lambda>_. None,
      hs_lstat = \<lambda>_. None, hs_accessX = \<lambda>_. False, hs_accessW = \<lambda>_. False, hs_realpath = \<lambda>_. None\<rparr> ''/opt/*/bin/git*'' ''/opt/Tools/bin/git-lfs'' \<and>
   list_all2 (\<lambda>p s. glob_test (compileGlobRegex p) s) [[], ''opt'', ''*'', ''bin'', ''git*''] [[], ''opt'', ''tools'', ''bin'', ''git-lfs'']"
proof -
  let ?h = "\<lparr>hs_platform = ''linux'', hs_cwd = ''/'', hs_env = [], hs_homedir = None, hs_stat = \<lambda>_. None,
      hs_lstat = \<lambda>_. None, hs_accessX = \<lambda>_. False, hs_accessW = \<lambda>_. False, hs_realpath = \<lambda>_. None\<rparr>"
  have "trim ''/opt/*/bin/git*'' \<noteq> []" "\<not> starts_with (trim ''/opt/*/bin/git*'') ''~''"
    "single_star_pattern (normalizeMatchTarget (trim ''/opt/*/bin/git*''))"
    "split_on slash (normalizeMatchTarget (trim ''/opt/*/bin/git*'')) = [[], ''opt'', ''*'', ''bin'', ''git*'']"
    "split_on slash (normalizeMatchTarget ''/opt/Tools/bin/git-lfs'') = [[], ''opt'', ''tools'', ''bin'', ''git-lfs'']"
    "list_all2 (\<lambda>p s. glob_test (compileGlobRegex p) s) [[], ''opt'', ''*'', ''bin'', ''git*''] [[], ''opt'', ''tools'', ''bin'', ''git-lfs'']"
    by code_simp+
  thus ?thesis using allowlist_pattern_by_segment[of "''/opt/*/bin/git*''" ?h "''/opt/Tools/bin/git-lfs''"] by simp
qed

section \<open>The enforced command line\<close>

definition segment_read :: "host \<Rightarrow> string option \<Rightarrow> (string, string) js_map option \<Rightarrow> exec_segment \<Rightarrow> bool" where
  "segment_read h cwd env s = (\<exists>raw argv. s = segment_of h cwd env raw argv \<and> argv \<noteq> [] \<and> [] \<notin> set argv)"

lemma parseSegments_read:
  "parseSegmentsFromParts h cwd env raws = Some segments \<Longrightarrow> list_all (segment_read h cwd env) segments \<and> segment_argvs raws = Some (map sg_argv segments)"
proof (induction raws arbitrary: segments)
  case (Cons raw raws)
  then obtain argv rest where "splitShellArgs raw = Some argv" "argv \<noteq> []" "parseSegmentsFromParts h cwd env raws = Some rest"
    "segments = segment_of h cwd env raw argv # rest" by (auto split: option.splits if_splits)
  thus ?case using Cons.IH[of rest] splitShellArgs_nonempty[of raw argv]
    by (auto simp: segment_read_def) (auto simp: segment_of_def)
qed simp

lemma analyze_pipeline_read: "analyze_pipeline h cwd env part = Inr segments \<Longrightarrow> list_all (segment_read h cwd env) segments"
  using parseSegments_read by (auto simp: analyze_pipeline_def split: sum.splits option.splits)

lemma analyze_chain_read: "analyze_chain h cwd env parts = Inr groups \<Longrightarrow> list_all (segment_read h cwd env) (concat groups)"
  by (induction parts arbitrary: groups) (auto dest: analyze_pipeline_read split: sum.splits)

lemma analyzed_segments_read:
  "\<not> isWindowsPlatform platform \<Longrightarrow> list_all (segment_read h cwd env) (an_segments (analyzeShellCommand h cwd env platform command))"
  by (auto simp: analyzeShellCommand_def analysis_failed_def analysis_of_def dest: analyze_pipeline_read analyze_chain_read
      split: option.splits sum.splits)

lemma plan_suffix: "suffix (dp_argv (resolveDispatchWrapperExecutionPlan argv maxDepth)) argv"
  using dispatch_loop_end[of maxDepth argv "[]"] dispatch_loop_blocked[of maxDepth argv "[]"]
  by (auto simp: resolveDispatchWrapperExecutionPlan_def blockedDispatchWrapperPlan_def Let_def split: sum.split unwrap_result.split)

lemma suffix_words: "suffix ys xs \<Longrightarrow> [] \<notin> set xs \<Longrightarrow> [] \<notin> set ys"
  using set_mono_suffix by blast

lemma resolution_from_argv:
  "resolveCommandResolutionFromArgv h cwd env argv = Some r \<longleftrightarrow>
   head_token (dp_argv (resolveDispatchWrapperExecutionPlan argv MAX_DISPATCH_WRAPPER_DEPTH)) \<noteq> [] \<and>
   r = buildCommandResolution h cwd env (head_token (dp_argv (resolveDispatchWrapperExecutionPlan argv MAX_DISPATCH_WRAPPER_DEPTH)))
     (dp_argv (resolveDispatchWrapperExecutionPlan argv MAX_DISPATCH_WRAPPER_DEPTH))
     (dp_wrappers (resolveDispatchWrapperExecutionPlan argv MAX_DISPATCH_WRAPPER_DEPTH))
     (dp_policyBlocked (resolveDispatchWrapperExecutionPlan argv MAX_DISPATCH_WRAPPER_DEPTH))
     (dp_blockedWrapper (resolveDispatchWrapperExecutionPlan argv MAX_DISPATCH_WRAPPER_DEPTH))"
  by (auto simp: resolveCommandResolutionFromArgv_def Let_def)

lemma built_resolution [simp]:
  "cr_effectiveArgv (buildCommandResolution h cwd env raw argv ws b w) = Some argv"
  "cr_policyBlocked (buildCommandResolution h cwd env raw argv ws b w) = Some b"
  "cr_rawExecutable (buildCommandResolution h cwd env raw argv ws b w) = raw"
  "cr_resolvedPath (buildCommandResolution h cwd env raw argv ws b w) = resolveExecutablePath h cwd env raw"
  by (simp_all add: buildCommandResolution_def Let_def)

lemma effective_argv_read:
  assumes "segment_read h cwd env s"
  shows "effective_argv s \<noteq> [] \<and> [] \<notin> set (effective_argv s)"
proof -
  obtain raw argv where s: "s = segment_of h cwd env raw argv" "argv \<noteq> []" "[] \<notin> set argv" using assms by (auto simp: segment_read_def)
  show ?thesis
  proof (cases "sg_resolution s")
    case (Some r)
    hence "cr_effectiveArgv r = Some (dp_argv (resolveDispatchWrapperExecutionPlan argv MAX_DISPATCH_WRAPPER_DEPTH))"
      using s by (simp add: segment_of_def resolution_from_argv)
    moreover have "sg_argv s = argv" using s by (simp add: segment_of_def)
    ultimately show ?thesis using Some s suffix_words[OF plan_suffix s(3)] by (simp add: effective_argv_def)
  qed (use s in \<open>simp add: effective_argv_def segment_of_def\<close>)
qed

lemma planned_argv_read:
  assumes "segment_read h cwd env s" "resolvePlannedSegmentArgv s = Some argv"
  shows "argv \<noteq> [] \<and> [] \<notin> set argv"
proof -
  obtain first rest where e: "effective_argv s = first # rest" using effective_argv_read[OF assms(1)] by (cases "effective_argv s") auto
  hence "first \<noteq> []" "[] \<notin> set rest" using effective_argv_read[OF assms(1)] by auto
  moreover obtain x where "argv = str_or x first # rest" using assms(2) e by (auto simp: resolvePlannedSegmentArgv_def Let_def split: if_splits)
  ultimately show ?thesis using str_or_Nil_iff[of x first] by (auto simp del: str_or_Nil_iff)
qed

text \<open>Rebuilding from segments: the texts are the planned argvs, and the parts keep their operators.\<close>

lemma render_enforced_Inr: "render_enforced segments raw n = Inr t \<longleftrightarrow>
   n < length segments \<and> (\<exists>argv. resolvePlannedSegmentArgv (segments ! n) = Some argv \<and> t = renderQuotedArgv argv)"
  by (auto simp: render_enforced_def split: option.splits)

lemma render_enforced_segments:
  "render_segments (render_enforced segments) raws n = Inr (texts, m) \<Longrightarrow>
   m = n + length raws \<and> m \<le> max n (length segments) \<and>
   (\<exists>argvs. texts = map renderQuotedArgv argvs \<and> map Some argvs = map resolvePlannedSegmentArgv (take (length raws) (drop n segments)))"
proof (induction raws arbitrary: n texts)
  case (Cons raw raws)
  then obtain argv texts' where n: "n < length segments" and argv: "resolvePlannedSegmentArgv (segments ! n) = Some argv"
    and rest: "render_segments (render_enforced segments) raws (n + 1) = Inr (texts', m)" "texts = renderQuotedArgv argv # texts'"
    by (auto simp: render_enforced_Inr split: sum.splits)
  from Cons.IH[OF rest(1)] obtain argvs where "texts' = map renderQuotedArgv argvs"
    "map Some argvs = map resolvePlannedSegmentArgv (take (length raws) (drop (n + 1) segments))" by blast
  thus ?case using Cons.IH[OF rest(1)] n argv rest(2)
    by (intro conjI exI[of _ "argv # argvs"]) (simp_all flip: Cons_nth_drop_Suc)
qed simp

lemma render_enforced_parts:
  assumes "render_parts (render_enforced segments) parts n acc = Inr (out, m)" "n \<le> length segments"
  shows "\<exists>S. out = acc @ literal_command S \<and> m = n + length (concat (map fst S)) \<and> m \<le> length segments \<and> map snd S = map snd parts \<and>
    list_all2 (\<lambda>p q. \<exists>raws. splitShellPipeline (fst p) = Inr raws \<and> length raws = length (fst q) \<and> fst q \<noteq> []) parts S \<and>
    map Some (concat (map fst S)) = map resolvePlannedSegmentArgv (take (m - n) (drop n segments))"
  using assms
proof (induction parts arbitrary: n acc)
  case Nil
  thus ?case by (intro exI[of _ "[]"]) simp
next
  case (Cons p parts)
  obtain part op where p: "p = (part, op)" by fastforce
  then obtain raws texts k where raws: "splitShellPipeline part = Inr raws"
    and texts: "render_segments (render_enforced segments) raws n = Inr (texts, k)"
    and rest: "render_parts (render_enforced segments) parts k (acc @ join_with '' | '' texts @ op_suffix op) = Inr (out, m)"
    using Cons.prems by (auto split: sum.splits)
  note seg = render_enforced_segments[OF texts]
  then obtain argvs where argvs: "texts = map renderQuotedArgv argvs"
    "map Some argvs = map resolvePlannedSegmentArgv (take (length raws) (drop n segments))" by blast
  have k: "k = n + length raws" "k \<le> length segments" using seg Cons.prems(2) by auto
  have len: "length argvs = length raws" using arg_cong[OF argvs(2), of length] k by simp
  from Cons.IH[OF rest k(2)] obtain S where S: "out = (acc @ join_with '' | '' texts @ op_suffix op) @ literal_command S"
    "m = k + length (concat (map fst S))" "m \<le> length segments" "map snd S = map snd parts"
    "list_all2 (\<lambda>p q. \<exists>raws. splitShellPipeline (fst p) = Inr raws \<and> length raws = length (fst q) \<and> fst q \<noteq> []) parts S"
    "map Some (concat (map fst S)) = map resolvePlannedSegmentArgv (take (m - k) (drop k segments))" by blast
  have "take (m - n) (drop n segments) = take (length raws) (drop n segments) @ take (m - k) (drop k segments)"
    using S(2) k(1) take_add[of "length raws" "m - k" "drop n segments"] by (simp add: add.commute)
  hence "map Some (concat (map fst ((argvs, op) # S))) = map resolvePlannedSegmentArgv (take (m - n) (drop n segments))"
    using S(6) argvs(2) by simp
  moreover have "list_all2 (\<lambda>p q. \<exists>raws. splitShellPipeline (fst p) = Inr raws \<and> length raws = length (fst q) \<and> fst q \<noteq> [])
      (p # parts) ((argvs, op) # S)" using S(5) p raws len splitShellPipeline_not_Nil[OF raws] by auto
  ultimately show ?case using S(1-4) argvs(1) k len p
    by (intro exI[of _ "(argvs, op) # S"]) (simp add: literal_pipeline_def)
qed

lemma wf_structure_of_ops:
  "map snd S = map snd parts @ [None] \<Longrightarrow> list_all (\<lambda>p. snd p \<noteq> None) parts \<Longrightarrow>
   list_all (\<lambda>q. fst q \<noteq> [] \<and> list_all (\<lambda>argv. argv \<noteq> [] \<and> [] \<notin> set argv) (fst q)) S \<Longrightarrow> wf_structure S"
proof (induction parts arbitrary: S)
  case Nil
  thus ?case by (cases S) auto
next
  case (Cons p parts)
  then obtain q S' where S: "S = q # S'" by (cases S) auto
  hence "S' \<noteq> []" using Cons.prems(1) by auto
  then obtain r S'' where "S' = r # S''" by (cases S') auto
  moreover have "wf_structure S'" using Cons S by auto
  ultimately show ?case using Cons.prems S by (cases q) auto
qed

text \<open>
  C25: the command line that is run instead of a vouched one has the operators of its source in
  their order and pipelines of the same lengths, and when it is read again each of its segments is,
  word by word, the planned argv of the analysed segment at that place.
\<close>

theorem enforced_command_runs_the_plan:
  assumes "\<not> isWindowsPlatform platform"
    and "buildEnforcedShellCommand command (an_segments (analyzeShellCommand h cwd env platform command)) platform = Inr out"
  shows "\<exists>S. command_structure out = Some S \<and> map snd S = map snd (chain_parts (trim command)) \<and>
    list_all2 (\<lambda>p q. \<exists>raws. splitShellPipeline (fst p) = Inr raws \<and> length raws = length (fst q)) (chain_parts (trim command)) S \<and>
    map Some (concat (map fst S)) = map resolvePlannedSegmentArgv (an_segments (analyzeShellCommand h cwd env platform command))"
proof -
  let ?segs = "an_segments (analyzeShellCommand h cwd env platform command)"
  from assms have "render_parts (render_enforced ?segs) (chain_parts (trim command)) 0 [] = Inr (out, length ?segs)"
    by (auto simp: buildEnforcedShellCommand_def finalizeRebuiltShellCommand_def rebuildShellCommandFromSource_def Let_def
        split: sum.splits if_splits)
  from render_enforced_parts[OF this] obtain S where S: "out = literal_command S" "map snd S = map snd (chain_parts (trim command))"
    "list_all2 (\<lambda>p q. \<exists>raws. splitShellPipeline (fst p) = Inr raws \<and> length raws = length (fst q) \<and> fst q \<noteq> []) (chain_parts (trim command)) S"
    "map Some (concat (map fst S)) = map resolvePlannedSegmentArgv ?segs" by auto
  obtain parts part where parts: "chain_parts (trim command) = parts @ [(part, None)]" "list_all (\<lambda>p. snd p \<noteq> None) parts"
    using chain_parts_shape by blast
  have words: "argv \<noteq> [] \<and> [] \<notin> set argv" if "argv \<in> set (concat (map fst S))" for argv
  proof -
    have "Some argv \<in> set (map resolvePlannedSegmentArgv ?segs)" using that S(4) by (metis image_eqI set_map)
    then obtain s where "s \<in> set ?segs" "resolvePlannedSegmentArgv s = Some argv" by auto
    thus ?thesis using planned_argv_read analyzed_segments_read[OF assms(1), of h cwd env command] by (fastforce simp: list_all_iff)
  qed
  have "list_all (\<lambda>q. fst q \<noteq> []) S" using S(3) by (force simp: list_all_length list_all2_conv_all_nth)
  hence "list_all (\<lambda>q. fst q \<noteq> [] \<and> list_all (\<lambda>argv. argv \<noteq> [] \<and> [] \<notin> set argv) (fst q)) S" using words by (auto simp: list_all_iff)
  moreover have "map snd S = map snd parts @ [None]" using S(2) parts(1) by simp
  ultimately have "wf_structure S" using parts(2) wf_structure_of_ops by blast
  moreover have "list_all2 (\<lambda>p q. \<exists>raws. splitShellPipeline (fst p) = Inr raws \<and> length raws = length (fst q)) (chain_parts (trim command)) S"
    using S(3) by (rule list_all2_mono) blast
  ultimately show ?thesis using S command_structure_literal by blast
qed

definition plain_file :: file_stat where
  "plain_file = \<lparr>st_isFile = True, st_isDirectory = False, st_isSymbolicLink = False, st_dev = 1, st_ino = 7, st_mode = 0\<rparr>"

definition plain_dir :: file_stat where
  "plain_dir = \<lparr>st_isFile = False, st_isDirectory = True, st_isSymbolicLink = False, st_dev = 1, st_ino = 2, st_mode = 0\<rparr>"

definition sample_host :: host where
  "sample_host = \<lparr>hs_platform = ''linux'', hs_cwd = ''/work'', hs_env = [(''PATH'', ''/usr/bin'')], hs_homedir = Some ''/home/me'',
     hs_stat = (\<lambda>p. if p \<in> {''/usr/bin/ls'', ''/usr/bin/wc'', ''/usr/bin/bash''} then Some plain_file
        else if p \<in> {''/'', ''/work'', ''/usr/bin''} then Some plain_dir else None),
     hs_lstat = (\<lambda>p. if p \<in> {''/'', ''/work'', ''/usr/bin''} then Some plain_dir else None),
     hs_accessX = (\<lambda>_. True), hs_accessW = (\<lambda>_. False),
     hs_realpath = (\<lambda>p. Some p)\<rparr>"

lemma enforced_command_runs_the_plan_witness:
  "\<exists>out. buildEnforcedShellCommand ''nice ls -l|wc -l'' (an_segments (analyzeShellCommand sample_host None None None ''nice ls -l|wc -l'')) None = Inr out \<and>
     (\<exists>S. command_structure out = Some S \<and> map Some (concat (map fst S)) = [Some [''/usr/bin/ls'', ''-l''], Some [''/usr/bin/wc'', ''-l'']])"
proof -
  have plan: "map resolvePlannedSegmentArgv (an_segments (analyzeShellCommand sample_host None None None ''nice ls -l|wc -l'')) =
      [Some [''/usr/bin/ls'', ''-l''], Some [''/usr/bin/wc'', ''-l'']]"
    and built: "buildEnforcedShellCommand ''nice ls -l|wc -l'' (an_segments (analyzeShellCommand sample_host None None None ''nice ls -l|wc -l'')) None =
      Inr (literal_command [([[''/usr/bin/ls'', ''-l''], [''/usr/bin/wc'', ''-l'']], None)])"
    and posix: "\<not> isWindowsPlatform None"
    by code_simp+
  show ?thesis using enforced_command_runs_the_plan[OF posix built] plan built by fastforce
qed

section \<open>A part of a chain has no operator\<close>

text \<open>The mode after a text without operators; None when the scan meets one, or an escaped line end.\<close>

fun scan_mode :: "string \<Rightarrow> shell_mode \<Rightarrow> shell_mode option" where
  "scan_mode [] mode = Some mode"
| "scan_mode (ch # rest) Escaped = scan_mode rest Plain"
| "scan_mode (ch # rest) InSingle = scan_mode rest (if ch = squote then Plain else InSingle)"
| "scan_mode (ch # rest) InDouble =
     (if ch = backslash \<and> next_in [newline, carriage] rest then None
      else if ch = backslash \<and> next_in DOUBLE_QUOTE_ESCAPES rest then scan_mode (tl rest) InDouble
      else scan_mode rest (if ch = dquote then Plain else InDouble))"
| "scan_mode (ch # rest) Plain =
     (if ch = backslash then scan_mode rest Escaped
      else if ch = squote then scan_mode rest InSingle
      else if ch = dquote then scan_mode rest InDouble
      else if (ch = CHR ''&'' \<and> next_is (CHR ''&'') rest) \<or> (ch = CHR ''|'' \<and> next_is (CHR ''|'') rest) \<or> ch = CHR '';'' then None
      else scan_mode rest Plain)"

lemma next_in_list: "next_in cs rest \<Longrightarrow> rest \<noteq> [] \<and> hd rest # tl rest = rest"
  by (cases rest) simp_all

lemma quote_neq_op [simp]: "backslash \<noteq> CHR '';''" "squote \<noteq> CHR '';''" "dquote \<noteq> CHR '';''" "backslash \<noteq> CHR ''&''"
  "squote \<noteq> CHR ''&''" "dquote \<noteq> CHR ''&''"
  by (simp_all add: shell_chars)

lemma chain_loop_free: "scan_mode s mode = Some mode' \<Longrightarrow> chain_loop s mode st = add_char s st"
proof (induction s mode arbitrary: st rule: scan_mode.induct)
  case (1 mode)
  thus ?case by (simp add: add_char_def)
next
  case (4 ch rest)
  show ?case
  proof (cases "ch = backslash \<and> next_in DOUBLE_QUOTE_ESCAPES rest")
    case True
    hence "scan_mode (tl rest) InDouble = Some mode'" "\<not> next_in [newline, carriage] rest" using 4 by (auto split: if_splits)
    thus ?thesis using 4 True next_in_list[of DOUBLE_QUOTE_ESCAPES rest] by auto
  qed (use 4 in \<open>auto split: if_splits\<close>)
qed (auto split: if_splits)

lemma next_in_append: "next_in cs s \<Longrightarrow> next_in cs (s @ t)" "s \<noteq> [] \<Longrightarrow> next_in cs (s @ t) = next_in cs s"
  "s \<noteq> [] \<Longrightarrow> next_is c (s @ t) = next_is c s"
  by (cases s; simp add: next_is_def)+

lemma scan_mode_prefix: "scan_mode (s @ t) mode \<noteq> None \<Longrightarrow> scan_mode s mode \<noteq> None"
proof (induction s mode rule: scan_mode.induct)
  case (4 ch rest)
  show ?case
  proof (cases "rest = []")
    case False
    thus ?thesis using 4 next_in_append(2)[OF False, of _ t] by (auto split: if_splits)
  qed auto
next
  case (5 ch rest)
  show ?case
  proof (cases "rest = []")
    case False
    thus ?thesis using 5 next_in_append(3)[OF False, of _ t] by (auto split: if_splits)
  qed (use 5 in \<open>auto split: if_splits\<close>)
qed auto

lemma js_ws_not_special [simp]: "\<not> js_ws squote" "\<not> js_ws dquote" "\<not> js_ws backslash" "\<not> js_ws (CHR ''&'')" "\<not> js_ws (CHR ''|'')" "\<not> js_ws (CHR '';'')"
  by (simp_all add: shell_chars js_ws_def)

lemma scan_mode_skip: "js_ws c \<Longrightarrow> scan_mode (c # s) Plain = scan_mode s Plain"
  by auto

lemma scan_mode_trim: "scan_mode s Plain \<noteq> None \<Longrightarrow> scan_mode (trim s) Plain \<noteq> None"
proof -
  assume s: "scan_mode s Plain \<noteq> None"
  have "scan_mode (dropWhile js_ws u) Plain = scan_mode u Plain" for u by (induction u) (simp_all add: scan_mode_skip del: scan_mode.simps(5))
  hence "scan_mode (trim_start s) Plain \<noteq> None" using s by (simp add: trim_start_def)
  moreover have "trim_start s = trim s @ rev (takeWhile js_ws (rev (trim_start s)))"
    by (simp add: trim_def trim_end_def flip: rev_append)
  ultimately show ?thesis using scan_mode_prefix by metis
qed

definition scan_so_far :: "string \<Rightarrow> shell_mode \<Rightarrow> string \<Rightarrow> bool" where
  "scan_so_far buf mode rest = (\<forall>u. prefix u rest \<longrightarrow> scan_mode (buf @ u) Plain = scan_mode u mode)"

lemma scan_so_far_push:
  assumes "scan_so_far buf mode (cs @ rest)" "\<And>u. prefix u rest \<Longrightarrow> scan_mode (cs @ u) mode = scan_mode u mode'"
  shows "scan_so_far (buf @ cs) mode' rest"
  using assms by (auto simp: scan_so_far_def)

lemma scan_so_far_done: "scan_so_far buf mode rest \<Longrightarrow> scan_mode buf Plain = Some mode"
  unfolding scan_so_far_def by (drule spec[of _ "[]"]) simp

lemma prefix_next: "prefix u rest \<Longrightarrow> \<not> next_is c rest \<Longrightarrow> \<not> next_is c u" "prefix u rest \<Longrightarrow> \<not> next_in cs rest \<Longrightarrow> \<not> next_in cs u"
  by (auto simp: prefix_def next_in_append next_is_def)

lemma scan_so_far_double:
  assumes "scan_so_far buf InDouble (ch # rest)" "\<not> (ch = backslash \<and> next_in [newline, carriage] rest)"
  shows "if ch = backslash \<and> next_in DOUBLE_QUOTE_ESCAPES rest then scan_so_far (buf @ [ch, hd rest]) InDouble (tl rest)
    else scan_so_far (buf @ [ch]) (if ch = dquote then Plain else InDouble) rest"
proof (cases "ch = backslash \<and> next_in DOUBLE_QUOTE_ESCAPES rest")
  case True
  then obtain c s where rest: "rest = c # s" by (cases rest) auto
  thus ?thesis using True assms scan_so_far_push[of buf InDouble "[ch, c]" s InDouble] by simp
next
  case False
  have "scan_so_far (buf @ [ch]) (if ch = dquote then Plain else InDouble) rest"
    by (rule scan_so_far_push[of _ InDouble]) (use assms False prefix_next in auto)
  thus ?thesis using False by auto
qed

lemma scan_so_far_plain:
  assumes "scan_so_far buf Plain (ch # rest)" "\<not> (ch = CHR ''&'' \<and> next_is (CHR ''&'') rest)" "\<not> (ch = CHR ''|'' \<and> next_is (CHR ''|'') rest)" "ch \<noteq> CHR '';''"
  shows "scan_so_far (buf @ [ch]) (if ch = backslash then Escaped else if ch = squote then InSingle else if ch = dquote then InDouble else Plain) rest"
  by (rule scan_so_far_push[of _ Plain]) (use assms prefix_next in auto)

definition parts_free :: "chain_part list \<Rightarrow> bool" where
  "parts_free parts = list_all (\<lambda>p. scan_mode (fst p) Plain \<noteq> None) parts"

lemma push_chain_free:
  "scan_so_far (cs_buf st) Plain rest \<Longrightarrow> parts_free (cs_parts st) \<Longrightarrow>
   parts_free (cs_parts (push_chain oper st)) \<and> scan_so_far (cs_buf (push_chain oper st)) Plain rest'"
  using scan_mode_trim[of "cs_buf st"]
  by (auto simp: push_chain_def parts_free_def Let_def scan_so_far_def dest: scan_so_far_done[unfolded scan_so_far_def])

lemma chain_loop_parts_free:
  "scan_so_far (cs_buf st) mode s \<Longrightarrow> parts_free (cs_parts st) \<Longrightarrow>
   parts_free (cs_parts (chain_loop s mode st)) \<and> (cs_invalid (chain_loop s mode st) \<or> scan_mode (cs_buf (chain_loop s mode st)) Plain \<noteq> None)"
proof (induction s mode st rule: chain_loop.induct)
  case (1 mode st)
  thus ?case using scan_so_far_done by auto
next
  case (2 ch rest st)
  have "scan_so_far (cs_buf st @ [ch]) Plain rest" by (rule scan_so_far_push[of _ Escaped]) (use 2 in auto)
  thus ?case using 2 by (simp add: add_char_def)
next
  case (3 ch rest st)
  have "scan_so_far (cs_buf st @ [ch]) (if ch = squote then Plain else InSingle) rest"
    by (rule scan_so_far_push[of _ InSingle]) (use 3 in auto)
  thus ?case using 3 by (simp add: add_char_def)
next
  case (4 ch rest st)
  show ?case
  proof (cases "ch = backslash \<and> next_in [newline, carriage] rest")
    case False
    from scan_so_far_double[OF "4.prems"(1) False] show ?thesis using 4 False by (auto simp: add_char_def split: if_splits)
  qed (use 4 in simp)
next
  case (5 ch rest st)
  show ?case
  proof (cases "(ch = CHR ''&'' \<and> next_is (CHR ''&'') rest) \<or> (ch = CHR ''|'' \<and> next_is (CHR ''|'') rest) \<or> ch = CHR '';''")
    case True
    thus ?thesis using 5 push_chain_free[OF "5.prems"] by (auto simp: shell_chars)
  next
    case False
    hence "scan_so_far (cs_buf st @ [ch]) (if ch = backslash then Escaped else if ch = squote then InSingle else if ch = dquote then InDouble else Plain) rest"
      using scan_so_far_plain[OF "5.prems"(1)] by blast
    thus ?thesis using 5 False by (auto simp: add_char_def split: if_splits)
  qed
qed

lemma splitCommandChain_part: "splitCommandChain command = Some parts \<Longrightarrow> part \<in> set parts \<Longrightarrow> splitCommandChain part = None"
proof -
  let ?st = "\<lparr>cs_parts = [], cs_buf = [], cs_found = False, cs_invalid = False\<rparr>"
  assume "splitCommandChain command = Some parts" "part \<in> set parts"
  hence all: "part \<in> fst ` set (cs_parts (chain_loop command Plain ?st) @ [(trim (cs_buf (chain_loop command Plain ?st)), None :: chain_op option)])"
    and valid: "\<not> cs_invalid (chain_loop command Plain ?st)"
    by (auto simp: splitCommandChain_def splitCommandChainWithOperators_def Let_def split: if_splits)
  have "parts_free (cs_parts (chain_loop command Plain ?st))" "scan_mode (cs_buf (chain_loop command Plain ?st)) Plain \<noteq> None"
    using chain_loop_parts_free[of ?st Plain command] valid by (auto simp: scan_so_far_def parts_free_def)
  hence "scan_mode part Plain \<noteq> None" using all scan_mode_trim by (auto simp: parts_free_def list_all_iff)
  then obtain m where "scan_mode part Plain = Some m" by blast
  from chain_loop_free[OF this, of ?st] show ?thesis
    by (simp add: splitCommandChain_def splitCommandChainWithOperators_def Let_def add_char_def)
qed

end
