(* ===== verification/SafeBins.thy ===== *)
theory SafeBins
  imports JsNumber ExecWrappers
begin

text \<open>
  Which arguments make a "safe bin" read only its standard input: the tokens of
  src/infra/exec-command-resolution.ts, the profiles of src/infra/exec-safe-bin-policy-profiles.ts and
  the check of src/infra/exec-safe-bin-policy-validator.ts. A set of flags is a list in insertion order.
\<close>

section \<open>Tokens\<close>

datatype exec_token =
  EmptyToken
| TerminatorToken
| StdinToken
| PositionalToken string
| LongToken string "string option"
| ClusterToken string "string list"

definition parseExecArgvToken :: "string \<Rightarrow> exec_token" where
  "parseExecArgvToken raw =
     (if raw = [] then EmptyToken
      else if raw = ''--'' then TerminatorToken
      else if raw = ''-'' then StdinToken
      else if \<not> starts_with raw ''-'' then PositionalToken raw
      else if starts_with raw ''--'' then
        (case index_of (CHR ''='') raw of
           Some eqIndex \<Rightarrow> if eqIndex > 0 then LongToken (take eqIndex raw) (Some (drop (eqIndex + 1) raw)) else LongToken raw None
         | None \<Rightarrow> LongToken raw None)
      else ClusterToken (tl raw) (map (\<lambda>c. [CHR ''-'', c]) (tl raw)))"

section \<open>Profiles\<close>

record safe_bin_fixture =
  fx_minPositional :: "js_num option"
  fx_maxPositional :: "js_num option"
  fx_allowedValueFlags :: "string list option"
  fx_deniedFlags :: "string list option"

record safe_bin_profile =
  sp_minPositional :: "js_num option"
  sp_maxPositional :: "js_num option"
  sp_allowedValueFlags :: "string list option"
  sp_deniedFlags :: "string list option"
  sp_knownLongFlags :: "string list option"
  sp_longFlagPrefixMap :: "(string, string option) js_map option"

definition toFlagSet :: "string list option \<Rightarrow> string list" where
  "toFlagSet flags = js_set_of (nullish flags [])"

definition collectKnownLongFlags :: "string list \<Rightarrow> string list \<Rightarrow> string list" where
  "collectKnownLongFlags allowed denied = js_set_of (filter (\<lambda>f. starts_with f ''--'') (allowed @ denied))"

text \<open>A prefix of several flags is mapped to None, the \<open>null\<close> of the source.\<close>

definition note_prefix :: "string \<Rightarrow> string \<Rightarrow> (string, string option) js_map \<Rightarrow> (string, string option) js_map" where
  "note_prefix flag pre m = (case map_get m pre of
       None \<Rightarrow> map_set pre (Some flag) m
     | Some existing \<Rightarrow> if existing \<noteq> Some flag then map_set pre None m else m)"

definition note_flag :: "string \<Rightarrow> (string, string option) js_map \<Rightarrow> (string, string option) js_map" where
  "note_flag flag m = (if \<not> starts_with flag ''--'' \<or> length flag \<le> 2 then m
     else fold (note_prefix flag) (map (\<lambda>n. take n flag) [3..<length flag + 1]) m)"

definition buildLongFlagPrefixMap :: "string list \<Rightarrow> (string, string option) js_map" where
  "buildLongFlagPrefixMap knownLongFlags = fold note_flag knownLongFlags []"

definition compileSafeBinProfile :: "safe_bin_fixture \<Rightarrow> safe_bin_profile" where
  "compileSafeBinProfile fixture = (let allowed = toFlagSet (fx_allowedValueFlags fixture); denied = toFlagSet (fx_deniedFlags fixture);
       known = collectKnownLongFlags allowed denied in
     \<lparr>sp_minPositional = fx_minPositional fixture, sp_maxPositional = fx_maxPositional fixture, sp_allowedValueFlags = Some allowed,
      sp_deniedFlags = Some denied, sp_knownLongFlags = Some known, sp_longFlagPrefixMap = Some (buildLongFlagPrefixMap known)\<rparr>)"

abbreviation fixture :: "js_num option \<Rightarrow> js_num option \<Rightarrow> string list option \<Rightarrow> string list option \<Rightarrow> safe_bin_fixture" where
  "fixture lo hi allowed denied \<equiv>
     \<lparr>fx_minPositional = lo, fx_maxPositional = hi, fx_allowedValueFlags = allowed, fx_deniedFlags = denied\<rparr>"

definition SAFE_BIN_PROFILE_FIXTURES :: "(string, safe_bin_fixture) js_map" where
  "SAFE_BIN_PROFILE_FIXTURES =
    [(''jq'', fixture None (Some (js_int 1))
        (Some [''--arg'', ''--argjson'', ''--argstr''])
        (Some [''--argfile'', ''--rawfile'', ''--slurpfile'', ''--from-file'', ''--library-path'', ''-L'', ''-f''])),
     (''grep'', fixture None (Some (js_int 0))
        (Some [''--regexp'', ''--max-count'', ''--after-context'', ''--before-context'', ''--context'', ''--devices'', ''--binary-files'', ''--exclude'', ''--include'', ''--label'', ''-e'', ''-m'', ''-A'', ''-B'', ''-C'', ''-D''])
        (Some [''--file'', ''--exclude-from'', ''--dereference-recursive'', ''--directories'', ''--recursive'', ''-f'', ''-d'', ''-r'', ''-R''])),
     (''cut'', fixture None (Some (js_int 0))
        (Some [''--bytes'', ''--characters'', ''--fields'', ''--delimiter'', ''--output-delimiter'', ''-b'', ''-c'', ''-f'', ''-d''])
        None),
     (''sort'', fixture None (Some (js_int 0))
        (Some [''--key'', ''--field-separator'', ''--buffer-size'', ''--parallel'', ''--batch-size'', ''-k'', ''-t'', ''-S''])
        (Some [''--compress-program'', ''--files0-from'', ''--output'', ''--random-source'', ''--temporary-directory'', ''-T'', ''-o''])),
     (''uniq'', fixture None (Some (js_int 0))
        (Some [''--skip-fields'', ''--skip-chars'', ''--check-chars'', ''--group'', ''-f'', ''-s'', ''-w''])
        None),
     (''head'', fixture None (Some (js_int 0))
        (Some [''--lines'', ''--bytes'', ''-n'', ''-c''])
        None),
     (''tail'', fixture None (Some (js_int 0))
        (Some [''--lines'', ''--bytes'', ''--sleep-interval'', ''--max-unchanged-stats'', ''--pid'', ''-n'', ''-c''])
        None),
     (''tr'', fixture (Some (js_int 1)) (Some (js_int 2))
        None
        None),
     (''wc'', fixture None (Some (js_int 0))
        None
        (Some [''--files0-from'']))]"

definition SAFE_BIN_PROFILES :: "(string, safe_bin_profile) js_map" where
  "SAFE_BIN_PROFILES = map (\<lambda>(name, f). (name, compileSafeBinProfile f)) SAFE_BIN_PROFILE_FIXTURES"

definition normalizeSafeBinProfileName :: "string \<Rightarrow> string option" where
  "normalizeSafeBinProfileName raw = str_opt (to_lower (trim raw))"

text \<open>\<open>Math.trunc\<close> of a finite number.\<close>

definition normalizeFixtureLimit :: "js_num option \<Rightarrow> js_num option" where
  "normalizeFixtureLimit raw = (case raw of
       Some (Fin x) \<Rightarrow> let next = (if x < 0 then \<lceil>x\<rceil> else \<lfloor>x\<rfloor>) in if next \<ge> 0 then Some (js_int next) else None
     | _ \<Rightarrow> None)"

text \<open>\<open>collate\<close> sorts by \<open>localeCompare\<close>.\<close>

definition normalizeFixtureFlags :: "(string list \<Rightarrow> string list) \<Rightarrow> string list option \<Rightarrow> string list option" where
  "normalizeFixtureFlags collate flags = (let normalized = collate (js_set_of (filter (\<lambda>f. f \<noteq> []) (map trim (nullish flags [])))) in
     if nullish flags [] = [] then None else if normalized = [] then None else Some normalized)"

definition normalizeSafeBinProfileFixture :: "(string list \<Rightarrow> string list) \<Rightarrow> safe_bin_fixture \<Rightarrow> safe_bin_fixture" where
  "normalizeSafeBinProfileFixture collate f =
     (let lo = normalizeFixtureLimit (fx_minPositional f); hi = normalizeFixtureLimit (fx_maxPositional f) in
      \<lparr>fx_minPositional = lo,
       fx_maxPositional = (case (lo, hi) of (Some l, Some h) \<Rightarrow> if js_less h l then Some l else Some h | _ \<Rightarrow> hi),
       fx_allowedValueFlags = normalizeFixtureFlags collate (fx_allowedValueFlags f),
       fx_deniedFlags = normalizeFixtureFlags collate (fx_deniedFlags f)\<rparr>)"

definition normalizeSafeBinProfileFixtures ::
  "(string list \<Rightarrow> string list) \<Rightarrow> (string, safe_bin_fixture) js_map option \<Rightarrow> (string, safe_bin_fixture) js_map" where
  "normalizeSafeBinProfileFixtures collate fixtures = fold (\<lambda>(rawName, f) m. case normalizeSafeBinProfileName rawName of
       None \<Rightarrow> m | Some name \<Rightarrow> map_set name (normalizeSafeBinProfileFixture collate f) m) (nullish fixtures []) []"

definition resolveSafeBinProfiles ::
  "(string list \<Rightarrow> string list) \<Rightarrow> (string, safe_bin_fixture) js_map option \<Rightarrow> (string, safe_bin_profile) js_map" where
  "resolveSafeBinProfiles collate fixtures = (let normalized = normalizeSafeBinProfileFixtures collate fixtures in
     if normalized = [] then SAFE_BIN_PROFILES
     else fold (\<lambda>(name, f). map_set name (compileSafeBinProfile f)) normalized SAFE_BIN_PROFILES)"

section \<open>The check\<close>

definition isPathLikeToken :: "string \<Rightarrow> bool" where
  "isPathLikeToken value = (let trimmed = trim value in
     if trimmed = [] then False
     else if trimmed = ''-'' then False
     else if starts_with trimmed ''./'' \<or> starts_with trimmed ''../'' \<or> starts_with trimmed ''~'' then True
     else if starts_with trimmed ''/'' then True
     else (case trimmed of drive # colon # slash # _ \<Rightarrow> ascii_letter drive \<and> colon = CHR '':'' \<and> slash \<in> {backslash, CHR ''/''} | _ \<Rightarrow> False))"

definition hasGlobToken :: "string \<Rightarrow> bool" where
  "hasGlobToken value = list_ex (\<lambda>c. c \<in> set ''*?[]'') value"

definition isSafeLiteralToken :: "string \<Rightarrow> bool" where
  "isSafeLiteralToken value = (if value = [] \<or> value = ''-'' then True else \<not> hasGlobToken value \<and> \<not> isPathLikeToken value)"

definition isInvalidValueToken :: "string option \<Rightarrow> bool" where
  "isInvalidValueToken value = (nullish value [] = [] \<or> \<not> isSafeLiteralToken (nullish value []))"

definition resolveCanonicalLongFlag :: "string \<Rightarrow> string list \<Rightarrow> (string, string option) js_map \<Rightarrow> string option" where
  "resolveCanonicalLongFlag flag known pmap =
     (if \<not> starts_with flag ''--'' \<or> length flag \<le> 2 then None
      else if flag \<in> set known then Some flag
      else nullish (map_get pmap flag) None)"

text \<open>The number of further tokens that an option takes, or None for -1; \<open>rest\<close> are the tokens after it.\<close>

definition first_of :: "string list \<Rightarrow> string option" where
  "first_of rest = (case rest of [] \<Rightarrow> None | v # _ \<Rightarrow> Some v)"

definition consumeLongOptionToken ::
  "string list \<Rightarrow> string \<Rightarrow> string option \<Rightarrow> string list \<Rightarrow> string list \<Rightarrow> string list \<Rightarrow> (string, string option) js_map \<Rightarrow> nat option" where
  "consumeLongOptionToken rest flag inlineValue allowed denied known pmap =
     (case resolveCanonicalLongFlag flag known pmap of None \<Rightarrow> None
      | Some canonicalFlag \<Rightarrow> if canonicalFlag = [] then None
          else if canonicalFlag \<in> set denied then None
          else let expectsValue = canonicalFlag \<in> set allowed in
            (case inlineValue of
               Some v \<Rightarrow> if \<not> expectsValue then None else if isSafeLiteralToken v then Some 0 else None
             | None \<Rightarrow> if \<not> expectsValue then Some 0 else if isInvalidValueToken (first_of rest) then None else Some 1))"

text \<open>The flags of a cluster with the text behind each.\<close>

fun consume_cluster :: "string list \<Rightarrow> string \<Rightarrow> string list \<Rightarrow> string list \<Rightarrow> nat option" where
  "consume_cluster rest [] allowed denied = None"
| "consume_cluster rest (c # inlineValue) allowed denied = (let flag = [CHR ''-'', c] in
     if flag \<in> set denied then None
     else if flag \<notin> set allowed then consume_cluster rest inlineValue allowed denied
     else if inlineValue \<noteq> [] then (if isSafeLiteralToken inlineValue then Some 0 else None)
     else if isInvalidValueToken (first_of rest) then None else Some 1)"

definition consumeShortOptionClusterToken :: "string list \<Rightarrow> string \<Rightarrow> string list \<Rightarrow> string list \<Rightarrow> nat option" where
  "consumeShortOptionClusterToken rest cluster allowed denied = consume_cluster rest cluster allowed denied"

fun consume_operands :: "string list \<Rightarrow> string list \<Rightarrow> string list option" where
  "consume_operands [] positional = Some positional"
| "consume_operands (v # vs) positional = (if v = [] \<or> v = ''-'' then consume_operands vs positional
     else if isSafeLiteralToken v then consume_operands vs (positional @ [v]) else None)"

definition validatePositionalCount :: "string list \<Rightarrow> safe_bin_profile \<Rightarrow> bool" where
  "validatePositionalCount positional p = (let n = js_int (int (length positional)) in
     \<not> js_less n (nullish (sp_minPositional p) (js_int 0)) \<and>
     (case sp_maxPositional p of None \<Rightarrow> True | Some hi \<Rightarrow> js_le n hi))"

fun validate_args ::
  "string list \<Rightarrow> string list \<Rightarrow> string list \<Rightarrow> string list \<Rightarrow> (string, string option) js_map \<Rightarrow> string list \<Rightarrow> string list option" where
  "validate_args [] allowed denied known pmap positional = Some positional"
| "validate_args (raw # rest) allowed denied known pmap positional = (case parseExecArgvToken raw of
       EmptyToken \<Rightarrow> validate_args rest allowed denied known pmap positional
     | StdinToken \<Rightarrow> validate_args rest allowed denied known pmap positional
     | TerminatorToken \<Rightarrow> consume_operands rest positional
     | PositionalToken v \<Rightarrow> if isSafeLiteralToken v then validate_args rest allowed denied known pmap (positional @ [v]) else None
     | LongToken flag inlineValue \<Rightarrow> (case consumeLongOptionToken rest flag inlineValue allowed denied known pmap of None \<Rightarrow> None
          | Some k \<Rightarrow> validate_args (drop k rest) allowed denied known pmap positional)
     | ClusterToken cluster flags \<Rightarrow> (case consumeShortOptionClusterToken rest cluster allowed denied of None \<Rightarrow> None
          | Some k \<Rightarrow> validate_args (drop k rest) allowed denied known pmap positional))"

definition validateSafeBinArgv :: "string list \<Rightarrow> safe_bin_profile \<Rightarrow> bool" where
  "validateSafeBinArgv args p =
     (let allowed = nullish (sp_allowedValueFlags p) []; denied = nullish (sp_deniedFlags p) [];
          known = nullish (sp_knownLongFlags p) (collectKnownLongFlags allowed denied);
          pmap = nullish (sp_longFlagPrefixMap p) (buildLongFlagPrefixMap known) in
      case validate_args args allowed denied known pmap [] of None \<Rightarrow> False | Some positional \<Rightarrow> validatePositionalCount positional p)"

section \<open>Abbreviated flags\<close>

text \<open>What a long flag stands for: itself when it is known, or the one known flag it begins.\<close>

definition stands_for :: "string list \<Rightarrow> string \<Rightarrow> string \<Rightarrow> bool" where
  "stands_for known flag c = (starts_with flag ''--'' \<and> length flag > 2 \<and>
     (if flag \<in> set known then c = flag else {k \<in> set known. prefix flag k} = {c}))"

definition note_value :: "string \<Rightarrow> string option option \<Rightarrow> string option option" where
  "note_value flag v = (case v of None \<Rightarrow> Some (Some flag) | Some e \<Rightarrow> if e = Some flag then Some e else Some None)"

lemma map_get_note_prefix: "map_get (note_prefix flag pre m) f = (if f = pre then note_value flag (map_get m pre) else map_get m f)"
  by (simp add: note_prefix_def note_value_def split: option.split)

lemma map_get_note_prefixes:
  "distinct ps \<Longrightarrow> map_get (fold (note_prefix flag) ps m) f = (if f \<in> set ps then note_value flag (map_get m f) else map_get m f)"
  by (induction ps arbitrary: m) (auto simp: map_get_note_prefix)

lemma long_prefixes: "set (map (\<lambda>n. take n flag) [3..<length flag + 1]) = {f. prefix f flag \<and> 3 \<le> length f}"
proof (intro set_eqI iffI)
  fix f assume "f \<in> {f. prefix f flag \<and> 3 \<le> length f}"
  hence "f = take (length f) flag" "3 \<le> length f" "length f < length flag + 1"
    by (auto simp: prefix_def less_Suc_eq_le dest: prefix_length_le)
  thus "f \<in> set (map (\<lambda>n. take n flag) [3..<length flag + 1])"
    unfolding set_map set_upt by (intro image_eqI[where x = "length f"]) simp_all
qed (auto simp: take_is_prefix)

lemma distinct_long_prefixes: "distinct (map (\<lambda>n. take n flag) [3..<length flag + 1])"
proof -
  have same: "n = m" if "take n flag = take m flag" "n \<le> length flag" "m \<le> length flag" for n m
    using that by (metis length_take min.absorb2)
  show ?thesis unfolding distinct_map by (intro conjI distinct_upt inj_onI) (erule same, auto)
qed

lemma map_get_note_flag:
  "starts_with flag ''--'' \<Longrightarrow> map_get (note_flag flag m) f =
     (if prefix f flag \<and> 3 \<le> length f then note_value flag (map_get m f) else map_get m f)"
  using map_get_note_prefixes[OF distinct_long_prefixes[of flag]] long_prefixes[of flag] prefix_length_le[of f flag]
  by (auto simp: note_flag_def)

text \<open>The map of prefixes is exact: it has the flag of an unambiguous prefix and \<open>null\<close> for an ambiguous one.\<close>

lemma prefix_map_exact:
  assumes "distinct known" "list_all (\<lambda>f. starts_with f ''--'') known" "3 \<le> length f"
  shows "map_get (buildLongFlagPrefixMap known) f =
    (case filter (prefix f) known of [] \<Rightarrow> None | [k] \<Rightarrow> Some (Some k) | _ \<Rightarrow> Some None)"
  using assms(1,2)
proof (induction known rule: rev_induct)
  case (snoc k known)
  define L where "L = filter (prefix f) known"
  have "map_get (buildLongFlagPrefixMap (known @ [k])) f =
      (if prefix f k then note_value k (map_get (buildLongFlagPrefixMap known) f) else map_get (buildLongFlagPrefixMap known) f)"
    using snoc.prems(2) assms(3) by (simp add: buildLongFlagPrefixMap_def map_get_note_flag)
  moreover have "map_get (buildLongFlagPrefixMap known) f = (case L of [] \<Rightarrow> None | [k] \<Rightarrow> Some (Some k) | _ \<Rightarrow> Some None)"
    using snoc unfolding L_def by simp
  moreover have "k \<notin> set L" using snoc.prems(1) by (simp add: L_def)
  moreover have "filter (prefix f) (known @ [k]) = L @ (if prefix f k then [k] else [])" by (simp add: L_def)
  ultimately show ?case by (cases L; cases "tl L") (auto simp: note_value_def)
qed (simp add: buildLongFlagPrefixMap_def)

lemma collectKnown_facts:
  "distinct (collectKnownLongFlags allowed denied)" "list_all (\<lambda>f. starts_with f ''--'') (collectKnownLongFlags allowed denied)"
  by (auto simp: collectKnownLongFlags_def list_all_iff)

lemma filter_singleton: "distinct xs \<Longrightarrow> filter P xs = [c] \<longleftrightarrow> {k \<in> set xs. P k} = {c}"
proof
  assume d: "distinct xs" and s: "{k \<in> set xs. P k} = {c}"
  hence "set (filter P xs) = {c}" "distinct (filter P xs)" by auto
  thus "filter P xs = [c]" by (cases "filter P xs"; cases "tl (filter P xs)") auto
next
  assume "filter P xs = [c]"
  thus "{k \<in> set xs. P k} = {c}" by (metis list.set(1,2) set_filter)
qed

lemma canonical_exact:
  assumes "known = collectKnownLongFlags allowed denied"
  shows "resolveCanonicalLongFlag flag known (buildLongFlagPrefixMap known) = Some c \<longleftrightarrow> stands_for known flag c"
proof -
  note facts = collectKnown_facts[of allowed denied, folded assms]
  have "nullish (map_get (buildLongFlagPrefixMap known) flag) None = Some c \<longleftrightarrow> filter (prefix flag) known = [c]" if "3 \<le> length flag"
    using prefix_map_exact[OF facts that] by (auto split: list.splits)
  thus ?thesis using filter_singleton[OF facts(1)] by (auto simp: resolveCanonicalLongFlag_def stands_for_def)
qed

section \<open>The arguments that are accepted\<close>

text \<open>A long flag that is allowed to appear, and what it stands for.\<close>

definition long_flag :: "string list \<Rightarrow> string list \<Rightarrow> string \<Rightarrow> string \<Rightarrow> bool" where
  "long_flag allowed denied flag c = (CHR ''='' \<notin> set flag \<and> c \<notin> set denied \<and> stands_for (collectKnownLongFlags allowed denied) flag c)"

definition short_flag :: "char \<Rightarrow> string" where
  "short_flag c = [CHR ''-'', c]"

text \<open>The grammar: a list of arguments and its operands.\<close>

inductive stdin_only :: "string list \<Rightarrow> string list \<Rightarrow> string list \<Rightarrow> string list \<Rightarrow> bool" for allowed denied where
  Done: "stdin_only allowed denied [] []"
| Blank: "v \<in> {[], ''-''} \<Longrightarrow> stdin_only allowed denied args ops \<Longrightarrow> stdin_only allowed denied (v # args) ops"
| Operand: "\<not> starts_with v ''-'' \<Longrightarrow> v \<noteq> [] \<Longrightarrow> isSafeLiteralToken v \<Longrightarrow> stdin_only allowed denied args ops \<Longrightarrow>
    stdin_only allowed denied (v # args) (v # ops)"
| Terminator: "list_all isSafeLiteralToken vs \<Longrightarrow> stdin_only allowed denied (''--'' # vs) (filter (\<lambda>v. v \<notin> {[], ''-''}) vs)"
| Flag: "long_flag allowed denied flag c \<Longrightarrow> c \<notin> set allowed \<Longrightarrow> stdin_only allowed denied args ops \<Longrightarrow>
    stdin_only allowed denied (flag # args) ops"
| FlagInline: "long_flag allowed denied flag c \<Longrightarrow> c \<in> set allowed \<Longrightarrow> isSafeLiteralToken v \<Longrightarrow> stdin_only allowed denied args ops \<Longrightarrow>
    stdin_only allowed denied ((flag @ CHR ''='' # v) # args) ops"
| FlagValue: "long_flag allowed denied flag c \<Longrightarrow> c \<in> set allowed \<Longrightarrow> v \<noteq> [] \<Longrightarrow> isSafeLiteralToken v \<Longrightarrow>
    stdin_only allowed denied args ops \<Longrightarrow> stdin_only allowed denied (flag # v # args) ops"
| ClusterInline: "list_all (\<lambda>c. short_flag c \<notin> set allowed \<and> short_flag c \<notin> set denied) fs \<Longrightarrow> short_flag f \<in> set allowed \<Longrightarrow>
    short_flag f \<notin> set denied \<Longrightarrow> hd (fs @ [f]) \<noteq> CHR ''-'' \<Longrightarrow> v \<noteq> [] \<Longrightarrow> isSafeLiteralToken v \<Longrightarrow>
    stdin_only allowed denied args ops \<Longrightarrow> stdin_only allowed denied ((CHR ''-'' # fs @ f # v) # args) ops"
| ClusterValue: "list_all (\<lambda>c. short_flag c \<notin> set allowed \<and> short_flag c \<notin> set denied) fs \<Longrightarrow> short_flag f \<in> set allowed \<Longrightarrow>
    short_flag f \<notin> set denied \<Longrightarrow> hd (fs @ [f]) \<noteq> CHR ''-'' \<Longrightarrow> v \<noteq> [] \<Longrightarrow> isSafeLiteralToken v \<Longrightarrow>
    stdin_only allowed denied args ops \<Longrightarrow> stdin_only allowed denied ((CHR ''-'' # fs @ [f]) # v # args) ops"

lemma consume_operands_eq:
  "consume_operands vs pos = (if list_all isSafeLiteralToken vs then Some (pos @ filter (\<lambda>v. v \<notin> {[], ''-''}) vs) else None)"
  by (induction vs arbitrary: pos) (auto simp: isSafeLiteralToken_def)

text \<open>The clusters that are consumed.\<close>

lemma ex_append_Cons: "(\<exists>fs f v. c # cs = fs @ f # v \<and> Q fs f v) \<longleftrightarrow> Q [] c cs \<or> (\<exists>fs f v. cs = fs @ f # v \<and> Q (c # fs) f v)"
  by (auto simp: Cons_eq_append_conv)

lemma consume_cluster_eq:
  "consume_cluster rest cluster allowed denied = Some k \<longleftrightarrow>
   (\<exists>fs f v. cluster = fs @ f # v \<and> list_all (\<lambda>c. short_flag c \<notin> set allowed \<and> short_flag c \<notin> set denied) fs \<and>
      short_flag f \<in> set allowed \<and> short_flag f \<notin> set denied \<and>
      (if v \<noteq> [] then k = 0 \<and> isSafeLiteralToken v else k = 1 \<and> \<not> isInvalidValueToken (first_of rest)))"
proof (induction cluster)
  case (Cons c cs)
  have eq: "consume_cluster rest (c # cs) allowed denied = (if short_flag c \<in> set denied then None
      else if short_flag c \<notin> set allowed then consume_cluster rest cs allowed denied
      else if cs \<noteq> [] then (if isSafeLiteralToken cs then Some 0 else None)
      else if isInvalidValueToken (first_of rest) then None else Some 1)"
    by (simp add: short_flag_def Let_def)
  show ?case unfolding eq ex_append_Cons using Cons by (cases "cs = []") auto
qed simp

text \<open>The token of each shape of argument.\<close>

lemma starts_dash: "starts_with v ''-'' \<longleftrightarrow> (\<exists>w. v = CHR ''-'' # w)" "starts_with v ''--'' \<longleftrightarrow> (\<exists>w. v = CHR ''-'' # CHR ''-'' # w)"
  by (auto simp: starts_with_def prefix_def)

lemma index_of_append: "d \<notin> set s \<Longrightarrow> index_of d (s @ d # t) = Some (length s)"
  by (induction s) auto

lemma index_of_Some_split: "index_of d s = Some n \<Longrightarrow> s = take n s @ d # drop (n + 1) s \<and> d \<notin> set (take n s)"
  by (induction s arbitrary: n) (auto split: if_splits)

lemma token_of_long: "long_flag allowed denied flag c \<Longrightarrow> parseExecArgvToken flag = LongToken flag None"
  by (auto simp: parseExecArgvToken_def long_flag_def stands_for_def starts_dash index_of_None_iff[symmetric])

lemma token_of_inline: "long_flag allowed denied flag c \<Longrightarrow> parseExecArgvToken (flag @ CHR ''='' # v) = LongToken flag (Some v)"
  using index_of_append[of "CHR ''=''" flag v]
  by (auto simp: parseExecArgvToken_def long_flag_def stands_for_def starts_dash)

lemma token_of_cluster:
  "hd (fs @ [f]) \<noteq> CHR ''-'' \<Longrightarrow> parseExecArgvToken (CHR ''-'' # fs @ f # v) =
     ClusterToken (fs @ f # v) (map (\<lambda>c. [CHR ''-'', c]) (fs @ f # v))"
  by (cases fs) (auto simp: parseExecArgvToken_def starts_dash)

lemma long_flag_canonical:
  assumes "known = collectKnownLongFlags allowed denied"
  shows "long_flag allowed denied flag c \<longleftrightarrow> CHR ''='' \<notin> set flag \<and> c \<notin> set denied \<and> c \<noteq> [] \<and>
    resolveCanonicalLongFlag flag known (buildLongFlagPrefixMap known) = Some c"
proof -
  have "c \<noteq> []" if st: "stands_for known flag c"
  proof (cases "flag \<in> set known")
    case True
    thus ?thesis using st by (auto simp: stands_for_def)
  next
    case False
    hence "c \<in> {k \<in> set known. prefix flag k}" "length flag > 2" using st by (simp_all add: stands_for_def)
    thus ?thesis by auto
  qed
  thus ?thesis unfolding canonical_exact[OF assms] long_flag_def assms[symmetric] by blast
qed

lemma consume_long_eq:
  assumes "known = collectKnownLongFlags allowed denied" "CHR ''='' \<notin> set flag"
  shows "consumeLongOptionToken rest flag inline allowed denied known (buildLongFlagPrefixMap known) = Some k \<longleftrightarrow>
    (\<exists>c. long_flag allowed denied flag c \<and> (case inline of
        Some v \<Rightarrow> c \<in> set allowed \<and> isSafeLiteralToken v \<and> k = 0
      | None \<Rightarrow> if c \<in> set allowed then \<not> isInvalidValueToken (first_of rest) \<and> k = 1 else k = 0))"
  unfolding long_flag_canonical[OF assms(1)] using assms(2)
  by (auto simp: consumeLongOptionToken_def Let_def split: option.splits)

lemma value_token: "\<not> isInvalidValueToken (first_of rest) \<longleftrightarrow> (\<exists>v vs. rest = v # vs \<and> v \<noteq> [] \<and> isSafeLiteralToken v)"
  by (auto simp: isInvalidValueToken_def first_of_def split: list.splits)

lemma stdin_only_validated:
  assumes "stdin_only allowed denied args ops" and known: "known = collectKnownLongFlags allowed denied"
  shows "validate_args args allowed denied known (buildLongFlagPrefixMap known) pos = Some (pos @ ops)"
  using assms(1)
proof (induction arbitrary: pos)
  case (Blank v args ops)
  thus ?case by (auto simp: parseExecArgvToken_def)
next
  case (Operand v args ops)
  hence "parseExecArgvToken v = PositionalToken v" by (auto simp: parseExecArgvToken_def starts_dash)
  thus ?case using Operand by simp
next
  case (Terminator vs)
  thus ?case by (simp add: parseExecArgvToken_def consume_operands_eq)
next
  case (Flag flag c args ops)
  have "CHR ''='' \<notin> set flag" using Flag(1) by (simp add: long_flag_def)
  hence "consumeLongOptionToken args flag None allowed denied known (buildLongFlagPrefixMap known) = Some 0"
    using consume_long_eq[OF known] Flag(1,2) by auto
  thus ?case using Flag by (simp add: token_of_long)
next
  case (FlagInline flag c v args ops)
  have "CHR ''='' \<notin> set flag" using FlagInline(1) by (simp add: long_flag_def)
  hence "consumeLongOptionToken args flag (Some v) allowed denied known (buildLongFlagPrefixMap known) = Some 0"
    using consume_long_eq[OF known] FlagInline(1-3) by auto
  thus ?case using FlagInline by (simp add: token_of_inline)
next
  case (FlagValue flag c v args ops)
  have "CHR ''='' \<notin> set flag" using FlagValue(1) by (simp add: long_flag_def)
  hence "consumeLongOptionToken (v # args) flag None allowed denied known (buildLongFlagPrefixMap known) = Some 1"
    using consume_long_eq[OF known] FlagValue(1-4) value_token[of "v # args"] by auto
  thus ?case using FlagValue by (simp add: token_of_long)
next
  case (ClusterInline fs f v args ops)
  hence "consumeShortOptionClusterToken args (fs @ f # v) allowed denied = Some 0"
    unfolding consumeShortOptionClusterToken_def consume_cluster_eq by auto
  thus ?case using ClusterInline by (simp add: token_of_cluster)
next
  case (ClusterValue fs f v args ops)
  hence "consumeShortOptionClusterToken (v # args) (fs @ [f]) allowed denied = Some 1"
    unfolding consumeShortOptionClusterToken_def consume_cluster_eq using value_token[of "v # args"] by force
  thus ?case using ClusterValue token_of_cluster[of fs f "[]"] by simp
qed simp

text \<open>The tokens of the code are the shapes of the grammar.\<close>

lemma long_token_shape:
  assumes "parseExecArgvToken raw = LongToken flag inline"
  shows "CHR ''='' \<notin> set flag" "raw = (case inline of None \<Rightarrow> flag | Some v \<Rightarrow> flag @ CHR ''='' # v)"
proof -
  have raw: "raw \<noteq> []" "starts_with raw ''--''" using assms by (auto simp: parseExecArgvToken_def split: if_splits)
  show "CHR ''='' \<notin> set flag"
    using assms by (auto simp: parseExecArgvToken_def index_of_None_iff starts_dash split: if_splits option.splits dest: index_of_Some_split)
  show "raw = (case inline of None \<Rightarrow> flag | Some v \<Rightarrow> flag @ CHR ''='' # v)"
    using assms raw by (auto simp: parseExecArgvToken_def starts_dash split: if_splits option.splits dest: index_of_Some_split)
qed

lemma cluster_token_shape:
  "parseExecArgvToken raw = ClusterToken cluster flags \<Longrightarrow> raw = CHR ''-'' # cluster \<and> cluster \<noteq> [] \<and> hd cluster \<noteq> CHR ''-''"
  by (cases raw; cases "tl raw") (auto simp: parseExecArgvToken_def starts_dash split: if_splits option.splits)

lemma other_token_shape:
  "parseExecArgvToken raw = EmptyToken \<Longrightarrow> raw = []" "parseExecArgvToken raw = StdinToken \<Longrightarrow> raw = ''-''"
  "parseExecArgvToken raw = TerminatorToken \<Longrightarrow> raw = ''--''"
  "parseExecArgvToken raw = PositionalToken v \<Longrightarrow> raw = v \<and> v \<noteq> [] \<and> \<not> starts_with v ''-''"
  by (auto simp: parseExecArgvToken_def split: if_splits option.splits)

lemma validated_long:
  assumes tok: "parseExecArgvToken raw = LongToken flag inline" and known: "known = collectKnownLongFlags allowed denied"
    and k: "consumeLongOptionToken rest flag inline allowed denied known (buildLongFlagPrefixMap known) = Some k"
    and so: "stdin_only allowed denied (drop k rest) ops"
  shows "stdin_only allowed denied (raw # rest) ops"
proof -
  note shape = long_token_shape[OF tok]
  obtain c where c: "long_flag allowed denied flag c" "case inline of
        Some v \<Rightarrow> c \<in> set allowed \<and> isSafeLiteralToken v \<and> k = 0
      | None \<Rightarrow> if c \<in> set allowed then \<not> isInvalidValueToken (first_of rest) \<and> k = 1 else k = 0"
    using consume_long_eq[OF known shape(1)] k by blast
  show ?thesis
  proof (cases inline)
    case None
    show ?thesis
    proof (cases "c \<in> set allowed")
      case True
      with c(2) None obtain v vs where "rest = v # vs" "v \<noteq> []" "isSafeLiteralToken v" "k = 1" using value_token[of rest] by auto
      thus ?thesis using so c(1) True shape(2) None by (auto intro: stdin_only.FlagValue)
    next
      case False
      thus ?thesis using so c shape(2) None by (auto intro: stdin_only.Flag)
    qed
  next
    case (Some v)
    thus ?thesis using so c shape(2) by (auto intro: stdin_only.FlagInline)
  qed
qed

lemma validated_cluster:
  assumes tok: "parseExecArgvToken raw = ClusterToken cluster flags" and k: "consumeShortOptionClusterToken rest cluster allowed denied = Some k"
    and so: "stdin_only allowed denied (drop k rest) ops"
  shows "stdin_only allowed denied (raw # rest) ops"
proof -
  note shape = cluster_token_shape[OF tok]
  obtain fs f v where c: "cluster = fs @ f # v" "list_all (\<lambda>c. short_flag c \<notin> set allowed \<and> short_flag c \<notin> set denied) fs"
      "short_flag f \<in> set allowed" "short_flag f \<notin> set denied"
      "if v \<noteq> [] then k = 0 \<and> isSafeLiteralToken v else k = 1 \<and> \<not> isInvalidValueToken (first_of rest)"
    using k unfolding consumeShortOptionClusterToken_def consume_cluster_eq by blast
  have hd: "hd (fs @ [f]) \<noteq> CHR ''-''" using shape c(1) by (cases fs) auto
  show ?thesis
  proof (cases "v = []")
    case True
    with c(5) obtain w ws where "rest = w # ws" "w \<noteq> []" "isSafeLiteralToken w" "k = 1" using value_token[of rest] by auto
    thus ?thesis using so c(1-4) hd shape True by (auto intro!: stdin_only.ClusterValue)
  next
    case False
    thus ?thesis using so c hd shape by (auto intro!: stdin_only.ClusterInline)
  qed
qed

lemma validated_stdin_only:
  assumes "validate_args args allowed denied known pmap pos = Some res"
    and known: "known = collectKnownLongFlags allowed denied" "pmap = buildLongFlagPrefixMap known"
  shows "\<exists>ops. stdin_only allowed denied args ops \<and> res = pos @ ops"
  using assms(1)
proof (induction args arbitrary: pos rule: length_induct)
  case (1 args)
  show ?case
  proof (cases args)
    case Nil
    thus ?thesis using 1(2) by (auto intro: stdin_only.Done)
  next
    case (Cons raw rest)
    have IH: "\<exists>ops. stdin_only allowed denied (drop k rest) ops \<and> res = p @ ops"
      if "validate_args (drop k rest) allowed denied known pmap p = Some res" for k p
      using 1(1) that Cons by simp
    show ?thesis
    proof (cases "parseExecArgvToken raw")
      case EmptyToken
      thus ?thesis using IH[of 0 pos] 1(2) Cons other_token_shape(1) by (auto intro: stdin_only.Blank)
    next
      case TerminatorToken
      hence "consume_operands rest pos = Some res" "raw = ''--''" using 1(2) Cons other_token_shape(3) by auto
      thus ?thesis using Cons by (auto simp: consume_operands_eq split: if_splits intro!: stdin_only.Terminator)
    next
      case StdinToken
      thus ?thesis using IH[of 0 pos] 1(2) Cons other_token_shape(2) by (auto intro: stdin_only.Blank)
    next
      case (PositionalToken v)
      hence "isSafeLiteralToken v" "validate_args rest allowed denied known pmap (pos @ [v]) = Some res"
        using 1(2) Cons by (auto split: if_splits)
      with IH[of 0 "pos @ [v]"] obtain ops where "stdin_only allowed denied rest ops" "res = pos @ v # ops" by auto
      thus ?thesis using other_token_shape(4)[OF PositionalToken] \<open>isSafeLiteralToken v\<close> Cons by (auto intro: stdin_only.Operand)
    next
      case (LongToken flag inline)
      then obtain k where k: "consumeLongOptionToken rest flag inline allowed denied known pmap = Some k"
        "validate_args (drop k rest) allowed denied known pmap pos = Some res" using 1(2) Cons by (auto split: option.splits)
      thus ?thesis using IH[OF k(2)] validated_long[OF LongToken known(1) k(1)[unfolded known(2)]] Cons by blast
    next
      case (ClusterToken cluster flags)
      then obtain k where k: "consumeShortOptionClusterToken rest cluster allowed denied = Some k"
        "validate_args (drop k rest) allowed denied known pmap pos = Some res" using 1(2) Cons by (auto split: option.splits)
      thus ?thesis using IH[OF k(2)] validated_cluster[OF ClusterToken k(1)] Cons by blast
    qed
  qed
qed


text \<open>A short flag that the profile does not know is refused alone and accepted in a cluster (the profile is that of head).\<close>

lemma unknown_short_flag_in_cluster:
  "map (\<lambda>args. validateSafeBinArgv args (compileSafeBinProfile (fixture None (Some (js_int 0)) (Some [''--lines'', ''--bytes'', ''-n'', ''-c'']) None)))
     [[''-q''], [''-q'', ''-n'', ''5''], [''-qn5''], [''-qn'', ''5''], [''--quiet'', ''-n'', ''5'']] = [False, False, True, True, False]"
  by code_simp

end
