(* ===== verification/ExecAllowlist.thy ===== *)
theory ExecAllowlist
  imports CommandResolution SafeBins
begin

text \<open>
  Which commands run without a question: the trusted directories (src/infra/exec-safe-bin-trust.ts) and
  the evaluation of the allowlist, the safe bins and the skill bins over the segments of a command, with
  the patterns that an "allow always" decision persists (src/infra/exec-approvals-allowlist.ts). A set
  is a list in insertion order; the cache of the trusted directories is left out.
\<close>

section \<open>Trusted directories\<close>

definition DEFAULT_SAFE_BIN_TRUSTED_DIRS :: "string list" where
  "DEFAULT_SAFE_BIN_TRUSTED_DIRS = [''/bin'', ''/usr/bin'']"

definition normalizeTrustedDir :: "host \<Rightarrow> string \<Rightarrow> string option" where
  "normalizeTrustedDir h v = (let trimmed = trim v in if trimmed = [] then None else Some (path_resolve h [trimmed]))"

definition normalizeTrustedSafeBinDirs :: "string list option \<Rightarrow> string list" where
  "normalizeTrustedSafeBinDirs entries = js_set_of (nonempty_strs (map trim (nullish entries [])))"

definition resolveTrustedSafeBinDirs :: "host \<Rightarrow> string list \<Rightarrow> string list" where
  "resolveTrustedSafeBinDirs h entries = sort (js_set_of (nonempty_strs (List.map_filter (normalizeTrustedDir h) entries)))"

definition buildTrustedSafeBinDirs :: "host \<Rightarrow> string list option \<Rightarrow> string list option \<Rightarrow> string list" where
  "buildTrustedSafeBinDirs h baseDirs extraDirs =
     js_set_of (resolveTrustedSafeBinDirs h (normalizeTrustedSafeBinDirs (Some (nullish baseDirs DEFAULT_SAFE_BIN_TRUSTED_DIRS)) @
       normalizeTrustedSafeBinDirs (Some (nullish extraDirs []))))"

definition isTrustedSafeBinPath :: "host \<Rightarrow> string \<Rightarrow> string list option \<Rightarrow> bool" where
  "isTrustedSafeBinPath h resolvedPath trustedDirs =
     (path_dirname (path_resolve h [resolvedPath]) \<in> set (case trustedDirs of None \<Rightarrow> buildTrustedSafeBinDirs h None None | Some dirs \<Rightarrow> dirs))"

record writable_dir =
  wd_dir :: string
  wd_groupWritable :: bool
  wd_worldWritable :: bool

definition listWritableExplicitTrustedSafeBinDirs :: "host \<Rightarrow> string list option \<Rightarrow> writable_dir list" where
  "listWritableExplicitTrustedSafeBinDirs h entries =
     List.map_filter (\<lambda>dir. case hs_stat h dir of None \<Rightarrow> None
       | Some st \<Rightarrow> let groupWritable = odd (st_mode st div 16); worldWritable = odd (st_mode st div 2) in
           if \<not> st_isDirectory st then None
           else if \<not> groupWritable \<and> \<not> worldWritable then None
           else Some \<lparr>wd_dir = dir, wd_groupWritable = groupWritable, wd_worldWritable = worldWritable\<rparr>)
       (resolveTrustedSafeBinDirs h (normalizeTrustedSafeBinDirs entries))"

section \<open>Safe bins\<close>

definition DEFAULT_SAFE_BINS :: "string list" where
  "DEFAULT_SAFE_BINS = [''jq'', ''cut'', ''uniq'', ''head'', ''tail'', ''tr'', ''wc'']"

definition normalizeSafeBins :: "string list option \<Rightarrow> string list" where
  "normalizeSafeBins entries = js_set_of (nonempty_strs (map (\<lambda>e. to_lower (trim e)) (nullish entries [])))"

text \<open>The outer option is undefined, the inner one null.\<close>

definition resolveSafeBins :: "string list option option \<Rightarrow> string list" where
  "resolveSafeBins entries = (case entries of None \<Rightarrow> normalizeSafeBins (Some DEFAULT_SAFE_BINS)
     | Some e \<Rightarrow> normalizeSafeBins (Some (nullish e [])))"

text \<open>
  \<open>safeBinProfiles[execName]\<close> on a plain object: the two members of \<open>Object.prototype\<close> with a name in
  lower case are found too, and have none of the fields of a profile.
\<close>

definition empty_profile :: safe_bin_profile where
  "empty_profile = \<lparr>sp_minPositional = None, sp_maxPositional = None, sp_allowedValueFlags = None, sp_deniedFlags = None,
     sp_knownLongFlags = None, sp_longFlagPrefixMap = None\<rparr>"

definition profile_of :: "(string, safe_bin_profile) js_map \<Rightarrow> string \<Rightarrow> safe_bin_profile option" where
  "profile_of profiles execName = (case map_get profiles execName of Some p \<Rightarrow> Some p
     | None \<Rightarrow> if execName \<in> {''constructor'', ''__proto__''} then Some empty_profile else None)"

record allowlist_context =
  ac_allowlist :: "allowlist_entry list"
  ac_safeBins :: "string list"
  ac_safeBinProfiles :: "(string, safe_bin_profile) js_map option"
  ac_cwd :: "string option"
  ac_platform :: "string option"
  ac_trustedSafeBinDirs :: "string list option"
  ac_skillBins :: "(string \<times> string) list option"
  ac_autoAllowSkills :: "bool option"

definition isSafeBinUsage :: "host \<Rightarrow> allowlist_context \<Rightarrow> string list \<Rightarrow> command_resolution option \<Rightarrow> bool" where
  "isSafeBinUsage h ctx argv resolution =
     (if isWindowsPlatform (Some (nullish (ac_platform ctx) (hs_platform h))) then False
      else if ac_safeBins ctx = [] then False
      else case resolution of None \<Rightarrow> False
        | Some r \<Rightarrow> let execName = to_lower (cr_executableName r) in
            if execName = [] then False
            else if execName \<notin> set (ac_safeBins ctx) then False
            else let resolvedPath = nullish (cr_resolvedPath r) [] in
              if resolvedPath = [] then False
              else if \<not> isTrustedSafeBinPath h resolvedPath (ac_trustedSafeBinDirs ctx) then False
              else case profile_of (case ac_safeBinProfiles ctx of None \<Rightarrow> SAFE_BIN_PROFILES | Some ps \<Rightarrow> ps) execName of None \<Rightarrow> False
                | Some profile \<Rightarrow> validateSafeBinArgv (drop 1 argv) profile)"

section \<open>Skill bins\<close>

definition normalizeSkillBinName :: "string option \<Rightarrow> string option" where
  "normalizeSkillBinName v = (case v of None \<Rightarrow> None | Some s \<Rightarrow> str_opt (to_lower (trim s)))"

definition normalizeSkillBinResolvedPath :: "host \<Rightarrow> string option \<Rightarrow> string option" where
  "normalizeSkillBinResolvedPath h v = (let trimmed = trim (nullish v []) in
     if trimmed = [] then None else Some (path_resolve h [trimmed]))"

definition trust_skill :: "host \<Rightarrow> string \<times> string \<Rightarrow> (string, string list) js_map \<Rightarrow> (string, string list) js_map" where
  "trust_skill h entry m = (case (normalizeSkillBinName (Some (fst entry)), normalizeSkillBinResolvedPath h (Some (snd entry))) of
       (Some name, Some resolvedPath) \<Rightarrow> if resolvedPath = [] then m else map_set name (set_add resolvedPath (nullish (map_get m name) [])) m
     | _ \<Rightarrow> m)"

definition buildSkillBinTrustIndex :: "host \<Rightarrow> (string \<times> string) list option \<Rightarrow> (string, string list) js_map" where
  "buildSkillBinTrustIndex h entries = fold (trust_skill h) (nullish entries []) []"

definition isSkillAutoAllowedSegment :: "host \<Rightarrow> exec_segment \<Rightarrow> bool \<Rightarrow> (string, string list) js_map \<Rightarrow> bool" where
  "isSkillAutoAllowedSegment h segment allowSkills skillBinTrust =
     (if \<not> allowSkills then False
      else case sg_resolution segment of None \<Rightarrow> False
        | Some r \<Rightarrow>
            if nullish (cr_resolvedPath r) [] = [] then False
            else let rawExecutable = trim (cr_rawExecutable r) in
              if rawExecutable = [] \<or> has_path_separator rawExecutable then False
              else (case (normalizeSkillBinName (Some (cr_executableName r)), normalizeSkillBinResolvedPath h (cr_resolvedPath r)) of
                 (Some executableName, Some resolvedPath) \<Rightarrow> resolvedPath \<noteq> [] \<and> resolvedPath \<in> set (nullish (map_get skillBinTrust executableName) [])
               | _ \<Rightarrow> False))"

section \<open>The evaluation\<close>

definition judge_segment :: "host \<Rightarrow> allowlist_context \<Rightarrow> (string, string list) js_map \<Rightarrow> exec_segment \<Rightarrow> allowlist_entry option \<times> satisfied_by option" where
  "judge_segment h ctx skillBinTrust segment =
     (let resolution = sg_resolution segment;
          candidatePath = nullish (resolveAllowlistCandidatePath h resolution (ac_cwd ctx)) [];
          candidateResolution = (if candidatePath = [] then resolution else map_option (\<lambda>r. r\<lparr>cr_resolvedPath := Some candidatePath\<rparr>) resolution);
          found = matchAllowlist h (ac_allowlist ctx) candidateResolution;
          allowSkills = (ac_autoAllowSkills ctx = Some True \<and> skillBinTrust \<noteq> []) in
      (found,
       if found \<noteq> None then Some ByAllowlist
       else if isSafeBinUsage h ctx (effective_argv segment) resolution then Some BySafeBins
       else if isSkillAutoAllowedSegment h segment allowSkills skillBinTrust then Some BySkills
       else None))"

text \<open>\<open>every\<close> stops at the first segment that is not satisfied.\<close>

fun evaluate_every :: "host \<Rightarrow> allowlist_context \<Rightarrow> (string, string list) js_map \<Rightarrow> exec_segment list \<Rightarrow>
    bool \<times> allowlist_entry list \<times> satisfied_by option list" where
  "evaluate_every h ctx skillBinTrust [] = (True, [], [])"
| "evaluate_every h ctx skillBinTrust (segment # segments) =
     (if policy_blocked segment then (False, [], [None])
      else case judge_segment h ctx skillBinTrust segment of (found, by) \<Rightarrow>
        let matches = (case found of None \<Rightarrow> [] | Some e \<Rightarrow> [e]) in
        if by = None then (False, matches, [by])
        else case evaluate_every h ctx skillBinTrust segments of (satisfied, later, bys) \<Rightarrow> (satisfied, matches @ later, by # bys))"

definition evaluateSegments :: "host \<Rightarrow> allowlist_context \<Rightarrow> exec_segment list \<Rightarrow> bool \<times> allowlist_entry list \<times> satisfied_by option list" where
  "evaluateSegments h ctx segments = evaluate_every h ctx (buildSkillBinTrustIndex h (ac_skillBins ctx)) segments"

record allowlist_evaluation =
  ev_satisfied :: bool
  ev_matches :: "allowlist_entry list"
  ev_by :: "satisfied_by option list"

definition resolveAnalysisSegmentGroups :: "exec_analysis \<Rightarrow> exec_segment list list" where
  "resolveAnalysisSegmentGroups analysis = nullish (an_chains analysis) [an_segments analysis]"

fun evaluate_groups :: "host \<Rightarrow> allowlist_context \<Rightarrow> bool \<Rightarrow> exec_segment list list \<Rightarrow> allowlist_evaluation \<Rightarrow> allowlist_evaluation" where
  "evaluate_groups h ctx hasChains [] acc = acc\<lparr>ev_satisfied := True\<rparr>"
| "evaluate_groups h ctx hasChains (grp # groups) acc = (case evaluateSegments h ctx grp of (satisfied, matches, bys) \<Rightarrow>
     if \<not> satisfied then
       (if \<not> hasChains then \<lparr>ev_satisfied = False, ev_matches = matches, ev_by = bys\<rparr>
        else \<lparr>ev_satisfied = False, ev_matches = [], ev_by = []\<rparr>)
     else evaluate_groups h ctx hasChains groups \<lparr>ev_satisfied = False, ev_matches = ev_matches acc @ matches, ev_by = ev_by acc @ bys\<rparr>)"

definition evaluateExecAllowlist :: "host \<Rightarrow> allowlist_context \<Rightarrow> exec_analysis \<Rightarrow> allowlist_evaluation" where
  "evaluateExecAllowlist h ctx analysis = (let none = \<lparr>ev_satisfied = False, ev_matches = [], ev_by = []\<rparr> in
     if \<not> an_ok analysis \<or> an_segments analysis = [] then none
     else evaluate_groups h ctx (an_chains analysis \<noteq> None) (resolveAnalysisSegmentGroups analysis) none)"

section \<open>Shell commands\<close>

text \<open>\<open>/\\(?:\r\n|\n|\r)/\<close>.\<close>

fun hasShellLineContinuation :: "string \<Rightarrow> bool" where
  "hasShellLineContinuation [] = False"
| "hasShellLineContinuation (c # s) = ((c = backslash \<and> next_in [newline, carriage] s) \<or> hasShellLineContinuation s)"

record allowlist_analysis =
  aa_ok :: bool
  aa_satisfied :: bool
  aa_matches :: "allowlist_entry list"
  aa_segments :: "exec_segment list"
  aa_by :: "satisfied_by option list"

definition analysisFailure :: allowlist_analysis where
  "analysisFailure = \<lparr>aa_ok = False, aa_satisfied = False, aa_matches = [], aa_segments = [], aa_by = []\<rparr>"

fun evaluate_parts :: "host \<Rightarrow> allowlist_context \<Rightarrow> (string, string) js_map option \<Rightarrow> string list \<Rightarrow> allowlist_analysis \<Rightarrow> allowlist_analysis" where
  "evaluate_parts h ctx env [] acc = acc\<lparr>aa_ok := True, aa_satisfied := True\<rparr>"
| "evaluate_parts h ctx env (part # parts) acc =
     (let analysis = analyzeShellCommand h (ac_cwd ctx) env (ac_platform ctx) part in
      if \<not> an_ok analysis then analysisFailure
      else let ev = evaluateExecAllowlist h ctx analysis;
               next = acc\<lparr>aa_ok := True, aa_segments := aa_segments acc @ an_segments analysis,
                 aa_matches := aa_matches acc @ ev_matches ev, aa_by := aa_by acc @ ev_by ev\<rparr> in
        if \<not> ev_satisfied ev then next\<lparr>aa_satisfied := False\<rparr> else evaluate_parts h ctx env parts next)"

definition evaluateShellAllowlist :: "host \<Rightarrow> allowlist_context \<Rightarrow> (string, string) js_map option \<Rightarrow> string \<Rightarrow> allowlist_analysis" where
  "evaluateShellAllowlist h ctx env command =
     (if hasShellLineContinuation command then analysisFailure
      else case (if isWindowsPlatform (ac_platform ctx) then None else splitCommandChain command) of
        None \<Rightarrow>
          (let analysis = analyzeShellCommand h (ac_cwd ctx) env (ac_platform ctx) command in
           if \<not> an_ok analysis then analysisFailure
           else let ev = evaluateExecAllowlist h ctx analysis in
             \<lparr>aa_ok = True, aa_satisfied = ev_satisfied ev, aa_matches = ev_matches ev, aa_segments = an_segments analysis, aa_by = ev_by ev\<rparr>)
      | Some chainParts \<Rightarrow> evaluate_parts h ctx env chainParts analysisFailure)"

section \<open>Patterns of an allow-always decision\<close>

definition hasSegmentExecutableMatch :: "exec_segment \<Rightarrow> (string \<Rightarrow> bool) \<Rightarrow> bool" where
  "hasSegmentExecutableMatch segment predicate =
     list_ex (\<lambda>candidate. trim candidate \<noteq> [] \<and> predicate (trim candidate))
       ((case sg_resolution segment of None \<Rightarrow> [] | Some r \<Rightarrow> [cr_executableName r, cr_rawExecutable r]) @ take 1 (sg_argv segment))"

definition isShellWrapperSegment :: "exec_segment \<Rightarrow> bool" where
  "isShellWrapperSegment segment = hasSegmentExecutableMatch segment isShellWrapperExecutable"

definition isDispatchWrapperSegment :: "exec_segment \<Rightarrow> bool" where
  "isDispatchWrapperSegment segment = hasSegmentExecutableMatch segment isDispatchWrapperExecutable"

text \<open>The first argument is what is left of the depth 3.\<close>

fun collectAllowAlwaysPatterns ::
  "nat \<Rightarrow> host \<Rightarrow> string option \<Rightarrow> (string, string) js_map option \<Rightarrow> string option \<Rightarrow> exec_segment \<Rightarrow> string list \<Rightarrow> string list" where
  "collectAllowAlwaysPatterns 0 h cwd env platform segment out = out"
| "collectAllowAlwaysPatterns (Suc left) h cwd env platform segment out =
     (let recurseWithArgv = (\<lambda>argv. collectAllowAlwaysPatterns left h cwd env platform (segment_of h cwd env (join_with '' '' argv) argv) out) in
      if isDispatchWrapperSegment segment then
        (case unwrapKnownDispatchWrapperInvocation (sg_argv segment) of
           Unwrapped _ argv \<Rightarrow> if argv = [] then out else recurseWithArgv argv
         | _ \<Rightarrow> out)
      else case unwrapKnownShellMultiplexerInvocation (sg_argv segment) of
        Blocked _ \<Rightarrow> out
      | Unwrapped _ argv \<Rightarrow> recurseWithArgv argv
      | NotWrapper \<Rightarrow>
          (case resolveAllowlistCandidatePath h (sg_resolution segment) cwd of
             None \<Rightarrow> out
           | Some candidatePath \<Rightarrow>
               if candidatePath = [] then out
               else if \<not> isShellWrapperSegment segment then set_add candidatePath out
               else (case extractShellWrapperInlineCommand (sg_argv segment) of
                   None \<Rightarrow> out
                 | Some inlineCommand \<Rightarrow>
                     if inlineCommand = [] then out
                     else let nested = analyzeShellCommand h cwd env platform inlineCommand in
                       if \<not> an_ok nested then out
                       else fold (\<lambda>nestedSegment. collectAllowAlwaysPatterns left h cwd env platform nestedSegment) (an_segments nested) out)))"

definition resolveAllowAlwaysPatterns ::
  "host \<Rightarrow> string option \<Rightarrow> (string, string) js_map option \<Rightarrow> string option \<Rightarrow> exec_segment list \<Rightarrow> string list" where
  "resolveAllowAlwaysPatterns h cwd env platform segments =
     fold (\<lambda>segment. collectAllowAlwaysPatterns 3 h cwd env platform segment) segments []"

section \<open>Who vouches for a segment\<close>

text \<open>
  What each answer of the evaluation means: an entry of the allowlist that is the bare wildcard or
  whose pattern matches the path of the executable; a safe bin in a trusted directory with arguments
  that its profile accepts; a skill bin found on the search path at its recorded place.
\<close>

fun vouches :: "host \<Rightarrow> allowlist_context \<Rightarrow> exec_segment \<Rightarrow> satisfied_by \<Rightarrow> bool" where
  "vouches h ctx seg ByAllowlist = (\<exists>e \<in> set (ac_allowlist ctx). \<exists>r. sg_resolution seg = Some r \<and>
     (trim (al_pattern e) = ''*'' \<or> (\<exists>p. resolveAllowlistCandidatePath h (Some r) (ac_cwd ctx) = Some p \<and> entry_applies h p e)))"
| "vouches h ctx seg BySafeBins = (\<exists>r p profile. sg_resolution seg = Some r \<and> cr_resolvedPath r = Some p \<and>
     to_lower (cr_executableName r) \<in> set (ac_safeBins ctx) \<and>
     path_dirname (path_resolve h [p]) \<in> set (case ac_trustedSafeBinDirs ctx of None \<Rightarrow> buildTrustedSafeBinDirs h None None | Some dirs \<Rightarrow> dirs) \<and>
     profile_of (case ac_safeBinProfiles ctx of None \<Rightarrow> SAFE_BIN_PROFILES | Some ps \<Rightarrow> ps) (to_lower (cr_executableName r)) = Some profile \<and>
     validateSafeBinArgv (tl (effective_argv seg)) profile)"
| "vouches h ctx seg BySkills = (ac_autoAllowSkills ctx = Some True \<and> (\<exists>r p e. sg_resolution seg = Some r \<and> cr_resolvedPath r = Some p \<and>
     \<not> has_path_separator (trim (cr_rawExecutable r)) \<and> e \<in> set (nullish (ac_skillBins ctx) []) \<and>
     to_lower (trim (fst e)) = to_lower (trim (cr_executableName r)) \<and> trim (snd e) \<noteq> [] \<and>
     path_resolve h [trim (snd e)] = path_resolve h [trim p]))"

lemma trust_index_entry:
  assumes "p \<in> set (nullish (map_get (fold (trust_skill h) entries m) name) [])"
  shows "p \<in> set (nullish (map_get m name) []) \<or>
    (\<exists>e \<in> set entries. normalizeSkillBinName (Some (fst e)) = Some name \<and> normalizeSkillBinResolvedPath h (Some (snd e)) = Some p)"
  using assms
proof (induction entries arbitrary: m)
  case (Cons e entries)
  have "p \<in> set (nullish (map_get m name) []) \<or> (normalizeSkillBinName (Some (fst e)) = Some name \<and> normalizeSkillBinResolvedPath h (Some (snd e)) = Some p)"
    if "p \<in> set (nullish (map_get (trust_skill h e m) name) [])"
    using that by (auto simp: trust_skill_def split: option.splits if_splits)
  thus ?case using Cons.IH[of "trust_skill h e m"] Cons.prems by auto
qed simp

lemma found_in_allowlist:
  assumes "matchAllowlist h entries resolution = Some e"
  shows "e \<in> set entries \<and> (\<exists>r. resolution = Some r \<and>
    (trim (al_pattern e) = ''*'' \<or> (nullish (cr_resolvedPath r) [] \<noteq> [] \<and> entry_applies h (nullish (cr_resolvedPath r) []) e)))"
  using assms by (auto simp: matchAllowlist_def Let_def dest!: find_Some_iff' split: option.splits if_splits)

lemma allowlist_vouches:
  assumes "matchAllowlist h (ac_allowlist ctx) (if nullish (resolveAllowlistCandidatePath h (sg_resolution seg) (ac_cwd ctx)) [] = []
      then sg_resolution seg
      else map_option (\<lambda>r. r\<lparr>cr_resolvedPath := Some (nullish (resolveAllowlistCandidatePath h (sg_resolution seg) (ac_cwd ctx)) [])\<rparr>) (sg_resolution seg)) = Some e"
  shows "vouches h ctx seg ByAllowlist"
proof -
  let ?c = "resolveAllowlistCandidatePath h (sg_resolution seg) (ac_cwd ctx)"
  note found = found_in_allowlist[OF assms]
  then obtain r where r: "sg_resolution seg = Some r" by (cases "sg_resolution seg") (auto split: if_splits)
  show ?thesis
  proof (cases "nullish ?c [] = []")
    case True
    have "nullish (cr_resolvedPath r) [] = []" using True r by (auto simp: resolveAllowlistCandidatePath_def split: if_splits)
    thus ?thesis using found r True by auto
  next
    case False
    thus ?thesis using found r by (cases ?c) auto
  qed
qed

lemma nullish_text: "nullish x [] \<noteq> [] \<longleftrightarrow> (\<exists>p. x = Some p \<and> p \<noteq> [])"
  by (cases x) simp_all

lemma safe_bin_vouches: "isSafeBinUsage h ctx (effective_argv seg) (sg_resolution seg) \<Longrightarrow> vouches h ctx seg BySafeBins"
  by (auto simp: nullish_text isSafeBinUsage_def isTrustedSafeBinPath_def Let_def drop_Suc split: if_splits option.splits)

lemma skill_vouches:
  assumes "isSkillAutoAllowedSegment h seg (ac_autoAllowSkills ctx = Some True \<and> trust \<noteq> []) trust"
    and "trust = buildSkillBinTrustIndex h (ac_skillBins ctx)"
  shows "vouches h ctx seg BySkills"
proof -
  from assms(1) obtain r name p where r: "sg_resolution seg = Some r" "ac_autoAllowSkills ctx = Some True"
    "nullish (cr_resolvedPath r) [] \<noteq> []" "\<not> has_path_separator (trim (cr_rawExecutable r))"
    "normalizeSkillBinName (Some (cr_executableName r)) = Some name" "normalizeSkillBinResolvedPath h (cr_resolvedPath r) = Some p"
    "p \<in> set (nullish (map_get trust name) [])"
    by (auto simp: isSkillAutoAllowedSegment_def Let_def split: if_splits option.splits)
  moreover obtain a b where "(a, b) \<in> set (nullish (ac_skillBins ctx) [])" "normalizeSkillBinName (Some a) = Some name"
    "normalizeSkillBinResolvedPath h (Some b) = Some p"
    using trust_index_entry[OF r(7)[unfolded assms(2) buildSkillBinTrustIndex_def]] by auto
  moreover obtain q where "cr_resolvedPath r = Some q" using r(3) by (cases "cr_resolvedPath r") auto
  ultimately show ?thesis unfolding vouches.simps
    by (intro conjI exI[of _ r] exI[of _ q] exI[of _ "(a, b)"])
      (simp_all add: normalizeSkillBinName_def normalizeSkillBinResolvedPath_def Let_def split: if_splits)
qed

definition satisfied_segment :: "host \<Rightarrow> allowlist_context \<Rightarrow> exec_segment \<Rightarrow> satisfied_by option \<Rightarrow> bool" where
  "satisfied_segment h ctx seg by = (\<not> policy_blocked seg \<and> (\<exists>b. by = Some b \<and> vouches h ctx seg b))"

lemma judged_segment:
  assumes "judge_segment h ctx (buildSkillBinTrustIndex h (ac_skillBins ctx)) seg = (found, Some b)"
  shows "vouches h ctx seg b"
  using assms allowlist_vouches[of h ctx seg] safe_bin_vouches[of h ctx seg] skill_vouches[OF _ refl, of h seg ctx]
  unfolding judge_segment_def Let_def by (cases b) (auto simp del: vouches.simps split: if_splits)

lemma every_satisfied:
  "evaluate_every h ctx (buildSkillBinTrustIndex h (ac_skillBins ctx)) segments = (True, matches, bys) \<Longrightarrow> list_all2 (satisfied_segment h ctx) segments bys"
proof (induction segments arbitrary: matches bys)
  case (Cons seg segments)
  then obtain found b later rest where "\<not> policy_blocked seg" "judge_segment h ctx (buildSkillBinTrustIndex h (ac_skillBins ctx)) seg = (found, Some b)"
    "evaluate_every h ctx (buildSkillBinTrustIndex h (ac_skillBins ctx)) segments = (True, later, rest)" "bys = Some b # rest"
    by (auto simp: Let_def split: if_splits prod.splits)
  thus ?case using Cons.IH judged_segment by (auto simp: satisfied_segment_def)
qed simp

lemma groups_satisfied:
  "ev_satisfied (evaluate_groups h ctx hasChains groups acc) \<Longrightarrow> list_all2 (satisfied_segment h ctx) segs (ev_by acc) \<Longrightarrow>
   list_all2 (satisfied_segment h ctx) (segs @ concat groups) (ev_by (evaluate_groups h ctx hasChains groups acc))"
proof (induction groups arbitrary: segs acc)
  case (Cons grp groups)
  obtain ok matches bys where ev: "evaluateSegments h ctx grp = (ok, matches, bys)" by (cases "evaluateSegments h ctx grp") auto
  hence "ok" using Cons.prems(1) by (auto split: if_splits)
  hence "list_all2 (satisfied_segment h ctx) (segs @ grp) (ev_by acc @ bys)"
    using ev every_satisfied Cons.prems(2) by (simp add: evaluateSegments_def list_all2_appendI)
  thus ?case using Cons ev \<open>ok\<close> Cons.IH[of "\<lparr>ev_satisfied = False, ev_matches = ev_matches acc @ matches, ev_by = ev_by acc @ bys\<rparr>" "segs @ grp"]
    by simp
qed simp

definition well_grouped :: "exec_analysis \<Rightarrow> bool" where
  "well_grouped analysis = (an_ok analysis \<longrightarrow> concat (resolveAnalysisSegmentGroups analysis) = an_segments analysis)"

lemma analysis_well_grouped [simp]: "well_grouped (analyzeShellCommand h cwd env platform command)" "well_grouped (analyzeArgvCommand h cwd env argv)"
  by (auto simp: well_grouped_def analyzeShellCommand_def analyzeWindowsShellCommand_def analyzeArgvCommand_def analysis_of_def analysis_failed_def
      resolveAnalysisSegmentGroups_def Let_def split: option.splits sum.splits)

lemma analysis_satisfied:
  assumes "ev_satisfied (evaluateExecAllowlist h ctx analysis)" "well_grouped analysis"
  shows "an_ok analysis \<and> an_segments analysis \<noteq> [] \<and>
    list_all2 (satisfied_segment h ctx) (an_segments analysis) (ev_by (evaluateExecAllowlist h ctx analysis))"
  using assms groups_satisfied[of h ctx "an_chains analysis \<noteq> None" "resolveAnalysisSegmentGroups analysis"
      "\<lparr>ev_satisfied = False, ev_matches = [], ev_by = []\<rparr>" "[]"]
  by (auto simp: evaluateExecAllowlist_def Let_def well_grouped_def split: if_splits)

text \<open>The segments are those of the structure of the command.\<close>

lemma pipeline_structure:
  "analyze_pipeline h cwd env part = Inr segs \<Longrightarrow> structure_of [(part, op)] = Some [(map sg_argv segs, op)]"
  by (auto simp: analyze_pipeline_def dest: parseSegments_read split: sum.splits option.splits)

lemma structure_of_Cons:
  "structure_of [(part, op)] = Some [(argvs, op)] \<Longrightarrow> structure_of parts = Some S \<Longrightarrow> structure_of ((part, op) # parts) = Some ((argvs, op) # S)"
  by (auto split: sum.splits option.splits)

lemma part_analysis:
  "splitCommandChain part = None \<Longrightarrow> \<not> isWindowsPlatform platform \<Longrightarrow> an_ok (analyzeShellCommand h cwd env platform part) \<Longrightarrow>
   analyze_pipeline h cwd env part = Inr (an_segments (analyzeShellCommand h cwd env platform part))"
  by (auto simp: analyzeShellCommand_def analysis_of_def analysis_failed_def split: sum.splits)

lemma parts_satisfied:
  assumes "aa_satisfied (evaluate_parts h ctx env (map fst parts) acc)" "\<And>part. part \<in> fst ` set parts \<Longrightarrow> splitCommandChain part = None"
    "\<not> isWindowsPlatform (ac_platform ctx)" "list_all2 (satisfied_segment h ctx) (aa_segments acc) (aa_by acc)"
  shows "aa_ok (evaluate_parts h ctx env (map fst parts) acc) \<and>
    list_all2 (satisfied_segment h ctx) (aa_segments (evaluate_parts h ctx env (map fst parts) acc)) (aa_by (evaluate_parts h ctx env (map fst parts) acc)) \<and>
    (\<exists>S. structure_of parts = Some S \<and>
      map sg_argv (aa_segments (evaluate_parts h ctx env (map fst parts) acc)) = map sg_argv (aa_segments acc) @ concat (map fst S))"
  using assms(1,2,4)
proof (induction parts arbitrary: acc)
  case (Cons p parts)
  obtain part op where p: "p = (part, op)" by fastforce
  let ?an = "analyzeShellCommand h (ac_cwd ctx) env (ac_platform ctx) part"
  let ?ev = "evaluateExecAllowlist h ctx ?an"
  let ?next = "acc\<lparr>aa_ok := True, aa_segments := aa_segments acc @ an_segments ?an, aa_matches := aa_matches acc @ ev_matches ?ev, aa_by := aa_by acc @ ev_by ?ev\<rparr>"
  have ok: "an_ok ?an" "ev_satisfied ?ev" and step: "evaluate_parts h ctx env (map fst (p # parts)) acc = evaluate_parts h ctx env (map fst parts) ?next"
    using Cons.prems(1) p by (auto simp: Let_def analysisFailure_def split: if_splits)
  have seg: "list_all2 (satisfied_segment h ctx) (aa_segments ?next) (aa_by ?next)"
    using Cons.prems(3) analysis_satisfied[OF ok(2)] by (simp add: list_all2_appendI)
  have none: "splitCommandChain part = None" using Cons.prems(2) p by simp
  note here = pipeline_structure[OF part_analysis[OF none assms(3) ok(1)], of op]
  have sat: "aa_satisfied (evaluate_parts h ctx env (map fst parts) ?next)" using Cons.prems(1) step by simp
  have rest: "\<And>part. part \<in> fst ` set parts \<Longrightarrow> splitCommandChain part = None" using Cons.prems(2) by simp
  from Cons.IH[OF sat rest seg] obtain S where S: "structure_of parts = Some S"
    "map sg_argv (aa_segments (evaluate_parts h ctx env (map fst parts) ?next)) = map sg_argv (aa_segments ?next) @ concat (map fst S)" by blast
  have "structure_of (p # parts) = Some ((map sg_argv (an_segments ?an), op) # S)" unfolding p by (rule structure_of_Cons[OF here S(1)])
  thus ?case using Cons.IH[OF sat rest seg] S(2) unfolding step by simp
qed simp

text \<open>
  C24: a shell command that the allowlist satisfies is vouched for segment by segment: no segment is
  blocked by a dispatch wrapper, each one has an answer that its allowlist entry, its safe bin profile
  or its skill bin justifies, and outside Windows the argvs of the segments are all the argvs of the
  command, over every pipe and chain operator, in their order.
\<close>

theorem satisfied_command_is_vouched:
  assumes "aa_satisfied (evaluateShellAllowlist h ctx env command)"
  shows "aa_ok (evaluateShellAllowlist h ctx env command) \<and>
    list_all2 (\<lambda>seg by. \<not> policy_blocked seg \<and> (\<exists>b. by = Some b \<and> vouches h ctx seg b))
      (aa_segments (evaluateShellAllowlist h ctx env command)) (aa_by (evaluateShellAllowlist h ctx env command)) \<and>
    (isWindowsPlatform (ac_platform ctx) \<or> (\<exists>S. command_structure command = Some S \<and>
      map sg_argv (aa_segments (evaluateShellAllowlist h ctx env command)) = concat (map fst S)))"
proof (cases "isWindowsPlatform (ac_platform ctx) \<or> splitCommandChain command = None")
  case True
  let ?an = "analyzeShellCommand h (ac_cwd ctx) env (ac_platform ctx) command"
  have ok: "an_ok ?an" "ev_satisfied (evaluateExecAllowlist h ctx ?an)"
    and ev: "aa_ok (evaluateShellAllowlist h ctx env command)" "aa_segments (evaluateShellAllowlist h ctx env command) = an_segments ?an"
      "aa_by (evaluateShellAllowlist h ctx env command) = ev_by (evaluateExecAllowlist h ctx ?an)"
    using assms True by (auto simp: evaluateShellAllowlist_def analysisFailure_def Let_def split: if_splits)
  have "\<exists>S. command_structure command = Some S \<and> map sg_argv (an_segments ?an) = concat (map fst S)" if "\<not> isWindowsPlatform (ac_platform ctx)"
  proof -
    have none: "splitCommandChain command = None" using True that by blast
    hence "chain_parts command = [(command, None)]" by (simp add: chain_parts_def splitCommandChain_def)
    thus ?thesis using pipeline_structure[OF part_analysis[OF none that ok(1)], of None] by (simp add: command_structure_def del: structure_of.simps)
  qed
  thus ?thesis using ev analysis_satisfied[OF ok(2)] by (auto simp: satisfied_segment_def[abs_def])
next
  case False
  then obtain parts where parts: "splitCommandChainWithOperators command = Some parts" by (auto simp: splitCommandChain_def)
  hence ev: "evaluateShellAllowlist h ctx env command = evaluate_parts h ctx env (map fst parts) analysisFailure"
    using assms False by (auto simp: evaluateShellAllowlist_def splitCommandChain_def analysisFailure_def split: if_splits)
  have "splitCommandChain part = None" if "part \<in> fst ` set parts" for part
    using splitCommandChain_part[of command "map fst parts" part] that parts by (simp add: splitCommandChain_def)
  from parts_satisfied[OF assms[unfolded ev] this] False show ?thesis
    using parts by (auto simp: ev analysisFailure_def satisfied_segment_def[abs_def] command_structure_def chain_parts_def)
qed

definition sample_context :: allowlist_context where
  "sample_context = \<lparr>ac_allowlist = [\<lparr>al_id = None, al_pattern = ''/usr/bin/l*'', al_lastUsedAt = None, al_lastUsedCommand = None, al_lastResolvedPath = None\<rparr>],
     ac_safeBins = [''wc''], ac_safeBinProfiles = Some [(''wc'', compileSafeBinProfile (fixture None (Some (js_int 0)) None (Some [''--files0-from''])))],
     ac_cwd = None, ac_platform = None, ac_trustedSafeBinDirs = Some [''/usr/bin''], ac_skillBins = None, ac_autoAllowSkills = None\<rparr>"

lemma satisfied_command_is_vouched_witness:
  "aa_by (evaluateShellAllowlist sample_host sample_context None ''ls -l|wc;nice ls'') = [Some ByAllowlist, Some BySafeBins, Some ByAllowlist] \<and>
   (\<exists>S. command_structure ''ls -l|wc;nice ls'' = Some S \<and> concat (map fst S) = [[''ls'', ''-l''], [''wc''], [''nice'', ''ls'']])"
proof -
  have sat: "aa_satisfied (evaluateShellAllowlist sample_host sample_context None ''ls -l|wc;nice ls'')"
    and bys: "aa_by (evaluateShellAllowlist sample_host sample_context None ''ls -l|wc;nice ls'') = [Some ByAllowlist, Some BySafeBins, Some ByAllowlist]"
    and argvs: "map sg_argv (aa_segments (evaluateShellAllowlist sample_host sample_context None ''ls -l|wc;nice ls'')) = [[''ls'', ''-l''], [''wc''], [''nice'', ''ls'']]"
    and posix: "\<not> isWindowsPlatform (ac_platform sample_context)"
    by code_simp+
  show ?thesis using satisfied_command_is_vouched[OF sat] bys argvs posix by auto
qed

section \<open>What allow-always persists\<close>

definition analysed :: "host \<Rightarrow> string option \<Rightarrow> (string, string) js_map option \<Rightarrow> exec_segment \<Rightarrow> bool" where
  "analysed h cwd env s = (\<exists>raw argv. s = segment_of h cwd env raw argv)"

lemma parsed_analysed: "parseSegmentsFromParts h cwd env raws = Some segs \<Longrightarrow> list_all (analysed h cwd env) segs"
  using parseSegments_read by (fastforce simp: list_all_iff analysed_def segment_read_def)

lemma analyze_chain_analysed: "analyze_chain h cwd env parts = Inr groups \<Longrightarrow> list_all (analysed h cwd env) (concat groups)"
  using analyze_chain_read by (fastforce simp: list_all_iff analysed_def segment_read_def)

lemma analysis_analysed: "list_all (analysed h cwd env) (an_segments (analyzeShellCommand h cwd env platform command))"
  "list_all (analysed h cwd env) (an_segments (analyzeArgvCommand h cwd env argv))"
  by (auto simp: analyzeShellCommand_def analyzeWindowsShellCommand_def analyzeArgvCommand_def analysis_failed_def analysis_of_def
      analyze_pipeline_def Let_def dest: parsed_analysed analyze_chain_analysed split: option.splits sum.splits)
    (auto simp: analysed_def)

definition names_wrapper :: "string \<Rightarrow> bool" where
  "names_wrapper name = (isShellWrapperExecutable (trim name) \<or> isDispatchWrapperExecutable (trim name))"

lemma empty_name [simp]: "\<not> isShellWrapperExecutable []" "\<not> isDispatchWrapperExecutable []"
  by code_simp+

lemma trim_head_token: "trim (head_token argv) = head_token argv"
  by (simp add: head_token_def split: list.split)

lemma executable_candidate:
  assumes "resolveCommandResolutionFromArgv h cwd env argv = Some r" "resolveAllowlistCandidatePath h (Some r) cwd = Some p" "p \<noteq> []" "isExecutableFile h p"
  shows "cr_executableName r = posix_basename p"
proof -
  define raw where "raw = head_token (dp_argv (resolveDispatchWrapperExecutionPlan argv MAX_DISPATCH_WRAPPER_DEPTH))"
  have raw: "trim raw = raw" "cr_rawExecutable r = raw" "cr_resolvedPath r = resolveExecutablePath h cwd env raw"
    "cr_executableName r = (case resolveExecutablePath h cwd env raw of Some p \<Rightarrow> if p = [] then raw else posix_basename p | None \<Rightarrow> raw)"
  proof -
    obtain argv' ws b w where "r = buildCommandResolution h cwd env raw argv' ws b w" using assms(1) by (auto simp: resolution_from_argv raw_def)
    thus "cr_rawExecutable r = raw" "cr_resolvedPath r = resolveExecutablePath h cwd env raw"
      "cr_executableName r = (case resolveExecutablePath h cwd env raw of Some p \<Rightarrow> if p = [] then raw else posix_basename p | None \<Rightarrow> raw)"
      by (simp_all add: buildCommandResolution_def Let_def)
    show "trim raw = raw" by (simp add: trim_head_token raw_def)
  qed
  show ?thesis
  proof (cases "nullish (cr_resolvedPath r) [] = []")
    case True
    let ?e = "if starts_with raw ''~'' then expandHomePrefix h raw else raw"
    have "has_path_separator ?e" "p = (if path_isAbsolute ?e then ?e else path_resolve h [base_dir h cwd, ?e])"
      using assms(2) True raw by (auto simp: resolveAllowlistCandidatePath_def Let_def split: if_splits)
    hence "resolveExecutablePath h cwd env raw = Some p" using assms(4) unfolding resolveExecutablePath_def Let_def by presburger
    thus ?thesis using True raw assms(3) by simp
  next
    case False
    then obtain q where "cr_resolvedPath r = Some q" "q \<noteq> []" by (auto simp: nullish_text)
    thus ?thesis using assms(2) raw by (simp add: resolveAllowlistCandidatePath_def)
  qed
qed

lemma persisted_candidate:
  assumes "analysed h cwd env s" "resolveAllowlistCandidatePath h (sg_resolution s) cwd = Some p" "p \<noteq> []"
    and "\<not> isShellWrapperSegment s" "\<not> isDispatchWrapperSegment s" "isExecutableFile h p"
  shows "\<not> names_wrapper (posix_basename p)"
proof -
  obtain raw argv where s: "s = segment_of h cwd env raw argv" using assms(1) by (auto simp: analysed_def)
  obtain r where r: "sg_resolution s = Some r" using assms(2) by (cases "sg_resolution s") (simp_all add: resolveAllowlistCandidatePath_def)
  hence "resolveCommandResolutionFromArgv h cwd env argv = Some r" using s by (simp add: segment_of_def)
  from executable_candidate[OF this assms(2)[unfolded r] assms(3,6)] show ?thesis using assms(4,5) r empty_name
    by (auto simp: names_wrapper_def isShellWrapperSegment_def isDispatchWrapperSegment_def hasSegmentExecutableMatch_def)
qed

definition harmless :: "host \<Rightarrow> string \<Rightarrow> bool" where
  "harmless h p = (isExecutableFile h p \<longrightarrow> \<not> names_wrapper (posix_basename p))"

lemma segment_of_analysed [simp]: "analysed h cwd env (segment_of h cwd env raw argv)"
  by (auto simp: analysed_def)

lemma fold_harmless:
  "list_all P xs \<Longrightarrow> (\<And>x out. P x \<Longrightarrow> list_all Q out \<Longrightarrow> list_all Q (f x out)) \<Longrightarrow> list_all Q out \<Longrightarrow> list_all Q (fold f xs out)"
  by (induction xs arbitrary: out) auto

lemma collect_harmless:
  "analysed h cwd env s \<Longrightarrow> list_all (harmless h) out \<Longrightarrow> list_all (harmless h) (collectAllowAlwaysPatterns left h cwd env platform s out)"
proof (induction left arbitrary: s out)
  case (Suc left)
  note fold = fold_harmless[OF analysis_analysed(1), where Q = "harmless h", OF Suc.IH]
  consider (dispatch) "isDispatchWrapperSegment s"
    | (multi) "\<not> isDispatchWrapperSegment s" "unwrapKnownShellMultiplexerInvocation (sg_argv s) \<noteq> NotWrapper"
    | (plain) "\<not> isDispatchWrapperSegment s" "unwrapKnownShellMultiplexerInvocation (sg_argv s) = NotWrapper" by blast
  thus ?case
  proof cases
    case plain
    show ?thesis
    proof (cases "resolveAllowlistCandidatePath h (sg_resolution s) cwd")
      case (Some p)
      have "list_all (harmless h) (set_add p out)" if "p \<noteq> []" "\<not> isShellWrapperSegment s"
        using Suc.prems persisted_candidate[OF Suc.prems(1) Some that plain(1)] by (simp add: set_add_def) (simp add: harmless_def)
      thus ?thesis using plain Some Suc.prems fold by (auto simp: Let_def split: option.splits)
    qed (use plain Suc.prems in simp)
  qed (use Suc in \<open>auto simp: Let_def split: unwrap_result.splits\<close>)
qed simp



text \<open>A multiplexer is known by its first argument only, so a path with a final dot hides it from this check.\<close>

lemma hidden_multiplexer_is_persisted:
  "resolveAllowAlwaysPatterns (sample_host\<lparr>hs_stat := \<lambda>p. if p = ''/work/busybox'' then Some plain_file else None\<rparr>) None None None
     [segment_of (sample_host\<lparr>hs_stat := \<lambda>p. if p = ''/work/busybox'' then Some plain_file else None\<rparr>) None None [] [''./busybox/.'', ''sh'']] = [''/work/busybox'']"
  by code_simp

end
