(* ===== verification/ApprovalSettings.thy ===== *)
theory ApprovalSettings
  imports ExecAllowlist
begin

text \<open>
  The settings of command approvals (src/infra/exec-approvals.ts): the file with the defaults, the
  agents and their allowlists, its normal form, the settings that are in force for an agent, and the
  two operations that write to an allowlist. Random ids are a function of a counter, the clock, the
  token and the state directory are arguments; the file is a value that the operations return.
\<close>

section \<open>Values\<close>

datatype exec_security = SecDeny | SecAllowlist | SecFull
datatype exec_ask = AskOff | AskOnMiss | AskAlways

fun security_text :: "exec_security \<Rightarrow> string" where
  "security_text SecDeny = ''deny''"
| "security_text SecAllowlist = ''allowlist''"
| "security_text SecFull = ''full''"

fun ask_text :: "exec_ask \<Rightarrow> string" where
  "ask_text AskOff = ''off''"
| "ask_text AskOnMiss = ''on-miss''"
| "ask_text AskAlways = ''always''"

definition DEFAULT_SECURITY :: exec_security where "DEFAULT_SECURITY = SecDeny"
definition DEFAULT_ASK :: exec_ask where "DEFAULT_ASK = AskOnMiss"
definition DEFAULT_ASK_FALLBACK :: exec_security where "DEFAULT_ASK_FALLBACK = SecDeny"
definition DEFAULT_AUTO_ALLOW_SKILLS :: bool where "DEFAULT_AUTO_ALLOW_SKILLS = False"
definition MAIN_AGENT_ID :: string where "MAIN_AGENT_ID = ''main''"

definition normalizeSecurity :: "string option \<Rightarrow> exec_security \<Rightarrow> exec_security" where
  "normalizeSecurity v fallback = (if v = Some ''allowlist'' then SecAllowlist else if v = Some ''full'' then SecFull
     else if v = Some ''deny'' then SecDeny else fallback)"

definition normalizeAsk :: "string option \<Rightarrow> exec_ask \<Rightarrow> exec_ask" where
  "normalizeAsk v fallback = (if v = Some ''always'' then AskAlways else if v = Some ''off'' then AskOff
     else if v = Some ''on-miss'' then AskOnMiss else fallback)"

fun security_rank :: "exec_security \<Rightarrow> nat" where
  "security_rank SecDeny = 0" | "security_rank SecAllowlist = 1" | "security_rank SecFull = 2"

fun ask_rank :: "exec_ask \<Rightarrow> nat" where
  "ask_rank AskOff = 0" | "ask_rank AskOnMiss = 1" | "ask_rank AskAlways = 2"

definition minSecurity :: "exec_security \<Rightarrow> exec_security \<Rightarrow> exec_security" where
  "minSecurity a b = (if security_rank a \<le> security_rank b then a else b)"

definition maxAsk :: "exec_ask \<Rightarrow> exec_ask \<Rightarrow> exec_ask" where
  "maxAsk a b = (if ask_rank a \<ge> ask_rank b then a else b)"

instantiation exec_security :: linorder
begin

definition less_eq_exec_security :: "exec_security \<Rightarrow> exec_security \<Rightarrow> bool" where
  "less_eq_exec_security a b = (security_rank a \<le> security_rank b)"

definition less_exec_security :: "exec_security \<Rightarrow> exec_security \<Rightarrow> bool" where
  "less_exec_security a b = (security_rank a < security_rank b)"

instance
proof
  fix a b :: exec_security
  show "a \<le> b \<Longrightarrow> b \<le> a \<Longrightarrow> a = b" by (cases a; cases b) (simp_all add: less_eq_exec_security_def)
qed (auto simp: less_eq_exec_security_def less_exec_security_def)

end

instantiation exec_ask :: linorder
begin

definition less_eq_exec_ask :: "exec_ask \<Rightarrow> exec_ask \<Rightarrow> bool" where
  "less_eq_exec_ask a b = (ask_rank a \<le> ask_rank b)"

definition less_exec_ask :: "exec_ask \<Rightarrow> exec_ask \<Rightarrow> bool" where
  "less_exec_ask a b = (ask_rank a < ask_rank b)"

instance
proof
  fix a b :: exec_ask
  show "a \<le> b \<Longrightarrow> b \<le> a \<Longrightarrow> a = b" by (cases a; cases b) (simp_all add: less_eq_exec_ask_def)
qed (auto simp: less_eq_exec_ask_def less_exec_ask_def)

end

lemma stricter_settings: "minSecurity = min" "maxAsk a b = max b a"
  by (auto simp: minSecurity_def maxAsk_def min_def max_def less_eq_exec_security_def less_eq_exec_ask_def fun_eq_iff)

definition requiresExecApproval :: "exec_ask \<Rightarrow> exec_security \<Rightarrow> bool \<Rightarrow> bool \<Rightarrow> bool" where
  "requiresExecApproval ask security analysisOk allowlistSatisfied =
     (ask = AskAlways \<or> (ask = AskOnMiss \<and> security = SecAllowlist \<and> (\<not> analysisOk \<or> \<not> allowlistSatisfied)))"

section \<open>The file\<close>

text \<open>
  An item of an allowlist as it is read from JSON: an entry with a text as pattern, a bare text, a
  value without pattern, or one on which reading or trimming the pattern throws (null, or a pattern
  that is not a text). Every other member of the file is of its declared type or missing.
\<close>

datatype allowlist_item = ItemEntry allowlist_entry | ItemText string | ItemPlain | ItemBroken

record approvals_defaults =
  xd_security :: "string option"
  xd_ask :: "string option"
  xd_askFallback :: "string option"
  xd_autoAllowSkills :: "bool option"

record approvals_agent = approvals_defaults +
  xa_allowlist :: "allowlist_item list option"

record approvals_file =
  xf_socketPath :: "string option"
  xf_token :: "string option"
  xf_defaults :: "approvals_defaults option"
  xf_agents :: "(string, approvals_agent) js_map"

definition no_defaults :: approvals_defaults where
  "no_defaults = \<lparr>xd_security = None, xd_ask = None, xd_askFallback = None, xd_autoAllowSkills = None\<rparr>"

definition no_agent :: approvals_agent where
  "no_agent = \<lparr>xd_security = None, xd_ask = None, xd_askFallback = None, xd_autoAllowSkills = None, xa_allowlist = None\<rparr>"

definition empty_file :: approvals_file where
  "empty_file = \<lparr>xf_socketPath = None, xf_token = None, xf_defaults = None, xf_agents = []\<rparr>"

section \<open>The normal form\<close>

definition normalizeAllowlistPattern :: "string option \<Rightarrow> string option" where
  "normalizeAllowlistPattern v = str_opt (to_lower (trim (nullish v [])))"

text \<open>\<open>pushEntry\<close>; None when it throws. Texts and values without pattern are skipped.\<close>

definition push_item :: "allowlist_item \<Rightarrow> (string list \<times> allowlist_item list) option \<Rightarrow> (string list \<times> allowlist_item list) option" where
  "push_item item st = (case st of None \<Rightarrow> None
     | Some (seen, kept) \<Rightarrow> (case item of
          ItemBroken \<Rightarrow> None
        | ItemEntry e \<Rightarrow> (case normalizeAllowlistPattern (Some (al_pattern e)) of None \<Rightarrow> st
             | Some key \<Rightarrow> if key \<in> set seen then st else Some (set_add key seen, kept @ [item]))
        | _ \<Rightarrow> st))"

definition mergeLegacyAgent :: "approvals_agent \<Rightarrow> approvals_agent \<Rightarrow> approvals_agent option" where
  "mergeLegacyAgent current legacy =
     (case fold push_item (nullish (xa_allowlist current) [] @ nullish (xa_allowlist legacy) []) (Some ([], [])) of
        None \<Rightarrow> None
      | Some (_, allowlist) \<Rightarrow> Some
          \<lparr>xd_security = nullish_opt (xd_security current) (xd_security legacy), xd_ask = nullish_opt (xd_ask current) (xd_ask legacy),
           xd_askFallback = nullish_opt (xd_askFallback current) (xd_askFallback legacy),
           xd_autoAllowSkills = nullish_opt (xd_autoAllowSkills current) (xd_autoAllowSkills legacy),
           xa_allowlist = (if allowlist \<noteq> [] then Some allowlist else None)\<rparr>)"

definition coerce_item :: "allowlist_item \<Rightarrow> allowlist_item option" where
  "coerce_item item = (case item of
     ItemText s \<Rightarrow> if trim s \<noteq> [] then Some (ItemEntry \<lparr>al_id = None, al_pattern = trim s, al_lastUsedAt = None, al_lastUsedCommand = None, al_lastResolvedPath = None\<rparr>) else None
   | ItemEntry e \<Rightarrow> if trim (al_pattern e) \<noteq> [] then Some item else None
   | _ \<Rightarrow> None)"

definition coerceAllowlistEntries :: "allowlist_item list option \<Rightarrow> allowlist_item list option" where
  "coerceAllowlistEntries allowlist = (case allowlist of None \<Rightarrow> None
     | Some items \<Rightarrow> if items = [] then Some items
         else let result = List.map_filter coerce_item items; changed = (result \<noteq> items) in
           if changed then (if result \<noteq> [] then Some result else None) else Some items)"

fun give_ids :: "(nat \<Rightarrow> string) \<Rightarrow> nat \<Rightarrow> allowlist_item list \<Rightarrow> allowlist_item list \<times> nat" where
  "give_ids uuid n [] = ([], n)"
| "give_ids uuid n (ItemEntry e # items) =
     (if nullish (al_id e) [] \<noteq> [] then (case give_ids uuid n items of (next, m) \<Rightarrow> (ItemEntry e # next, m))
      else (case give_ids uuid (n + 1) items of (next, m) \<Rightarrow> (ItemEntry (e\<lparr>al_id := Some (uuid n)\<rparr>) # next, m)))"
| "give_ids uuid n (item # items) = (case give_ids uuid n items of (next, m) \<Rightarrow> (item # next, m))"

definition ensureAllowlistIds :: "(nat \<Rightarrow> string) \<Rightarrow> nat \<Rightarrow> allowlist_item list option \<Rightarrow> allowlist_item list option \<times> nat" where
  "ensureAllowlistIds uuid n allowlist = (case allowlist of None \<Rightarrow> (None, n)
     | Some items \<Rightarrow> (case give_ids uuid n items of (next, m) \<Rightarrow> (Some next, m)))"

fun normalize_agents :: "(nat \<Rightarrow> string) \<Rightarrow> nat \<Rightarrow> (string, approvals_agent) js_map \<Rightarrow> (string, approvals_agent) js_map \<times> nat" where
  "normalize_agents uuid n [] = ([], n)"
| "normalize_agents uuid n ((key, agent) # agents) =
     (case ensureAllowlistIds uuid n (coerceAllowlistEntries (xa_allowlist agent)) of (allowlist, m) \<Rightarrow>
        (case normalize_agents uuid m agents of (rest, k) \<Rightarrow> ((key, agent\<lparr>xa_allowlist := allowlist\<rparr>) # rest, k)))"

definition merge_default_agent :: "(string, approvals_agent) js_map \<Rightarrow> (string, approvals_agent) js_map option" where
  "merge_default_agent agents = (case map_get agents ''default'' of None \<Rightarrow> Some agents
     | Some legacyDefault \<Rightarrow> (case map_get agents MAIN_AGENT_ID of
          None \<Rightarrow> Some (map_delete ''default'' (map_set MAIN_AGENT_ID legacyDefault agents))
        | Some main \<Rightarrow> (case mergeLegacyAgent main legacyDefault of None \<Rightarrow> None
            | Some merged \<Rightarrow> Some (map_delete ''default'' (map_set MAIN_AGENT_ID merged agents)))))"

text \<open>None when it throws; the number is the next random id.\<close>

definition normalizeExecApprovals :: "(nat \<Rightarrow> string) \<Rightarrow> nat \<Rightarrow> approvals_file \<Rightarrow> (approvals_file \<times> nat) option" where
  "normalizeExecApprovals uuid n file = (case merge_default_agent (xf_agents file) of None \<Rightarrow> None
     | Some agents0 \<Rightarrow> (case normalize_agents uuid n agents0 of (agents, m) \<Rightarrow> Some
         (\<lparr>xf_socketPath = str_opt (trim (nullish (xf_socketPath file) [])), xf_token = str_opt (trim (nullish (xf_token file) [])),
           xf_defaults = Some (nullish (xf_defaults file) no_defaults), xf_agents = agents\<rparr>, m)))"

definition mergeExecApprovalsSocketDefaults :: "string \<Rightarrow> approvals_file \<Rightarrow> approvals_file option \<Rightarrow> approvals_file" where
  "mergeExecApprovalsSocketDefaults defaultSocketPath normalized current =
     (let currentPath = (case current of None \<Rightarrow> None | Some c \<Rightarrow> map_option trim (xf_socketPath c));
          currentToken = (case current of None \<Rightarrow> None | Some c \<Rightarrow> map_option trim (xf_token c)) in
      normalized\<lparr>xf_socketPath := Some (nullish (nullish_opt (map_option trim (xf_socketPath normalized)) currentPath) defaultSocketPath),
        xf_token := Some (nullish (nullish_opt (map_option trim (xf_token normalized)) currentToken) [])\<rparr>)"

text \<open>
  \<open>contents\<close> is None when the file is missing, cannot be read or parsed, or has another version. The
  result of an empty file is its own normal form.
\<close>

definition loadExecApprovals :: "(nat \<Rightarrow> string) \<Rightarrow> nat \<Rightarrow> approvals_file option \<Rightarrow> approvals_file \<times> nat" where
  "loadExecApprovals uuid n contents =
     (let fresh = (empty_file\<lparr>xf_defaults := Some no_defaults\<rparr>, n) in
      case contents of None \<Rightarrow> fresh
      | Some file \<Rightarrow> (case normalizeExecApprovals uuid n file of None \<Rightarrow> fresh | Some r \<Rightarrow> r))"

lemma normalize_empty_file: "normalizeExecApprovals uuid n empty_file = Some (empty_file\<lparr>xf_defaults := Some no_defaults\<rparr>, n)"
  by (simp add: normalizeExecApprovals_def empty_file_def merge_default_agent_def str_opt_def)

definition resolveExecApprovalsPath :: "string \<Rightarrow> string" where
  "resolveExecApprovalsPath stateDir = path_join [stateDir, ''exec-approvals.json'']"

definition resolveExecApprovalsSocketPath :: "string \<Rightarrow> string" where
  "resolveExecApprovalsSocketPath stateDir = path_join [stateDir, ''exec-approvals.sock'']"

definition ensureExecApprovals :: "(nat \<Rightarrow> string) \<Rightarrow> nat \<Rightarrow> string \<Rightarrow> string \<Rightarrow> approvals_file option \<Rightarrow> (approvals_file \<times> nat) option" where
  "ensureExecApprovals uuid n stateDir generatedToken contents =
     (case loadExecApprovals uuid n contents of (loaded, m) \<Rightarrow>
        (case normalizeExecApprovals uuid m loaded of None \<Rightarrow> None
         | Some (next, k) \<Rightarrow> Some (next\<lparr>
             xf_socketPath := Some (str_or (trim (nullish (xf_socketPath next) [])) (resolveExecApprovalsSocketPath stateDir)),
             xf_token := Some (str_or (trim (nullish (xf_token next) [])) generatedToken)\<rparr>, k)))"

section \<open>The settings of an agent\<close>

record approval_overrides =
  xo_security :: "exec_security option"
  xo_ask :: "exec_ask option"
  xo_askFallback :: "exec_security option"
  xo_autoAllowSkills :: "bool option"

record approval_settings =
  xs_security :: exec_security
  xs_ask :: exec_ask
  xs_askFallback :: exec_security
  xs_autoAllowSkills :: bool

record approvals_resolved =
  xr_path :: string
  xr_socketPath :: string
  xr_token :: string
  xr_defaults :: approval_settings
  xr_agent :: approval_settings
  xr_allowlist :: "allowlist_entry list"
  xr_file :: approvals_file

definition item_entries :: "allowlist_item list option \<Rightarrow> allowlist_entry list" where
  "item_entries items = List.map_filter (\<lambda>i. case i of ItemEntry e \<Rightarrow> Some e | _ \<Rightarrow> None) (nullish items [])"

definition resolved_defaults :: "approvals_defaults \<Rightarrow> approval_overrides \<Rightarrow> approval_settings" where
  "resolved_defaults defaults overrides =
     (let fallbackAskFallback = nullish (xo_askFallback overrides) DEFAULT_ASK_FALLBACK in
      \<lparr>xs_security = normalizeSecurity (xd_security defaults) (nullish (xo_security overrides) DEFAULT_SECURITY),
       xs_ask = normalizeAsk (xd_ask defaults) (nullish (xo_ask overrides) DEFAULT_ASK),
       xs_askFallback = normalizeSecurity (Some (nullish (xd_askFallback defaults) (security_text fallbackAskFallback))) fallbackAskFallback,
       xs_autoAllowSkills = nullish (xd_autoAllowSkills defaults) (nullish (xo_autoAllowSkills overrides) DEFAULT_AUTO_ALLOW_SKILLS)\<rparr>)"

definition resolved_agent :: "approvals_agent \<Rightarrow> approvals_agent \<Rightarrow> approval_settings \<Rightarrow> approval_settings" where
  "resolved_agent agent wildcard d =
     \<lparr>xs_security = normalizeSecurity (Some (nullish (nullish_opt (xd_security agent) (xd_security wildcard)) (security_text (xs_security d)))) (xs_security d),
      xs_ask = normalizeAsk (Some (nullish (nullish_opt (xd_ask agent) (xd_ask wildcard)) (ask_text (xs_ask d)))) (xs_ask d),
      xs_askFallback = normalizeSecurity (Some (nullish (nullish_opt (xd_askFallback agent) (xd_askFallback wildcard)) (security_text (xs_askFallback d)))) (xs_askFallback d),
      xs_autoAllowSkills = nullish (nullish_opt (xd_autoAllowSkills agent) (xd_autoAllowSkills wildcard)) (xs_autoAllowSkills d)\<rparr>"

text \<open>The normalised file, its agent and its wildcard agent; None when the normal form throws.\<close>

definition resolveExecApprovalsFromFile ::
  "host \<Rightarrow> (nat \<Rightarrow> string) \<Rightarrow> nat \<Rightarrow> string \<Rightarrow> approvals_file \<Rightarrow> string option \<Rightarrow> approval_overrides \<Rightarrow> string option \<Rightarrow> string option \<Rightarrow> string option \<Rightarrow> approvals_resolved option" where
  "resolveExecApprovalsFromFile h uuid n stateDir file0 agentId overrides path0 socketPath token =
     (case normalizeExecApprovals uuid n file0 of None \<Rightarrow> None
      | Some (file, _) \<Rightarrow>
          (let agent = nullish (map_get (xf_agents file) (nullish agentId MAIN_AGENT_ID)) no_agent;
               wildcard = nullish (map_get (xf_agents file) ''*'') no_agent;
               d = resolved_defaults (nullish (xf_defaults file) no_defaults) overrides in
           Some \<lparr>xr_path = nullish path0 (resolveExecApprovalsPath stateDir),
             xr_socketPath = expandHomePrefix h (nullish (nullish_opt socketPath (xf_socketPath file)) (resolveExecApprovalsSocketPath stateDir)),
             xr_token = nullish (nullish_opt token (xf_token file)) [],
             xr_defaults = d, xr_agent = resolved_agent agent wildcard d,
             xr_allowlist = item_entries (xa_allowlist wildcard) @ item_entries (xa_allowlist agent), xr_file = file\<rparr>))"

definition resolveExecApprovals ::
  "host \<Rightarrow> (nat \<Rightarrow> string) \<Rightarrow> nat \<Rightarrow> string \<Rightarrow> string \<Rightarrow> approvals_file option \<Rightarrow> string option \<Rightarrow> approval_overrides \<Rightarrow> approvals_resolved option" where
  "resolveExecApprovals h uuid n stateDir generatedToken contents agentId overrides =
     (case ensureExecApprovals uuid n stateDir generatedToken contents of None \<Rightarrow> None
      | Some (file, m) \<Rightarrow> resolveExecApprovalsFromFile h uuid m stateDir file agentId overrides (Some (resolveExecApprovalsPath stateDir))
          (Some (expandHomePrefix h (nullish (xf_socketPath file) (resolveExecApprovalsSocketPath stateDir)))) (Some (nullish (xf_token file) [])))"

section \<open>Writing to an allowlist\<close>

definition target_agent :: "approvals_file \<Rightarrow> string option \<Rightarrow> string \<times> approvals_agent" where
  "target_agent approvals agentId = (let target = nullish agentId MAIN_AGENT_ID in (target, nullish (map_get (xf_agents approvals) target) no_agent))"

definition item_pattern :: "allowlist_item \<Rightarrow> string option" where
  "item_pattern item = (case item of ItemEntry e \<Rightarrow> Some (al_pattern e) | _ \<Rightarrow> None)"

definition set_allowlist :: "string \<Rightarrow> approvals_agent \<Rightarrow> allowlist_item list \<Rightarrow> approvals_file \<Rightarrow> approvals_file" where
  "set_allowlist target existing items approvals =
     approvals\<lparr>xf_agents := map_set target (existing\<lparr>xa_allowlist := Some items\<rparr>) (xf_agents approvals)\<rparr>"

definition addAllowlistEntry :: "string \<Rightarrow> int \<Rightarrow> approvals_file \<Rightarrow> string option \<Rightarrow> string \<Rightarrow> approvals_file" where
  "addAllowlistEntry newId nowMs approvals agentId pattern = (case target_agent approvals agentId of (target, existing) \<Rightarrow>
     let allowlist = nullish (xa_allowlist existing) []; trimmed = trim pattern in
     if trimmed = [] then approvals
     else if list_ex (\<lambda>item. item_pattern item = Some trimmed) allowlist then approvals
     else set_allowlist target existing (allowlist @ [ItemEntry \<lparr>al_id = Some newId, al_pattern = trimmed, al_lastUsedAt = Some nowMs,
            al_lastUsedCommand = None, al_lastResolvedPath = None\<rparr>]) approvals)"

definition use_item :: "(nat \<Rightarrow> string) \<Rightarrow> int \<Rightarrow> allowlist_entry \<Rightarrow> string \<Rightarrow> string option \<Rightarrow> nat \<Rightarrow> allowlist_item \<Rightarrow> allowlist_item" where
  "use_item uuid nowMs entry command resolvedPath i item = (case item of
       ItemEntry e \<Rightarrow> if al_pattern e = al_pattern entry
         then ItemEntry \<lparr>al_id = Some (nullish (al_id e) (uuid i)), al_pattern = al_pattern e, al_lastUsedAt = Some nowMs,
                al_lastUsedCommand = Some command, al_lastResolvedPath = resolvedPath\<rparr>
         else item
     | _ \<Rightarrow> item)"

definition recordAllowlistUse ::
  "(nat \<Rightarrow> string) \<Rightarrow> int \<Rightarrow> approvals_file \<Rightarrow> string option \<Rightarrow> allowlist_entry \<Rightarrow> string \<Rightarrow> string option \<Rightarrow> approvals_file" where
  "recordAllowlistUse uuid nowMs approvals agentId entry command resolvedPath = (case target_agent approvals agentId of (target, existing) \<Rightarrow>
     let allowlist = nullish (xa_allowlist existing) [] in
     set_allowlist target existing (map2 (use_item uuid nowMs entry command resolvedPath) [0..<length allowlist] allowlist) approvals)"

section \<open>The normal form is stable\<close>

definition settled_item :: "allowlist_item \<Rightarrow> bool" where
  "settled_item item = (case item of ItemEntry e \<Rightarrow> trim (al_pattern e) \<noteq> [] \<and> nullish (al_id e) [] \<noteq> [] | _ \<Rightarrow> False)"

definition settled_agent :: "approvals_agent \<Rightarrow> bool" where
  "settled_agent agent = list_all settled_item (nullish (xa_allowlist agent) [])"

definition trimmed_text :: "string option \<Rightarrow> bool" where
  "trimmed_text v = (case v of None \<Rightarrow> True | Some s \<Rightarrow> s \<noteq> [] \<and> trim s = s)"

definition settled_file :: "approvals_file \<Rightarrow> bool" where
  "settled_file file = (map_get (xf_agents file) ''default'' = None \<and> list_all (\<lambda>p. settled_agent (snd p)) (xf_agents file) \<and>
     trimmed_text (xf_socketPath file) \<and> trimmed_text (xf_token file) \<and> xf_defaults file \<noteq> None)"

definition entry_items :: "allowlist_item list \<Rightarrow> bool" where
  "entry_items items = list_all (\<lambda>i. case i of ItemEntry e \<Rightarrow> trim (al_pattern e) \<noteq> [] | _ \<Rightarrow> False) items"

lemma coerced_items: "entry_items (List.map_filter coerce_item items)"
  by (induction items) (auto simp: entry_items_def coerce_item_def List.map_filter_simps split: allowlist_item.splits)

lemma coerced_allowlist: "entry_items (nullish (coerceAllowlistEntries allowlist) [])"
proof (cases allowlist)
  case None
  thus ?thesis by (simp add: coerceAllowlistEntries_def entry_items_def)
next
  case (Some items)
  thus ?thesis using coerced_items[of items]
    by (cases "items = []") (auto simp: coerceAllowlistEntries_def entry_items_def Let_def split: if_splits)
qed

lemma give_ids_settled: "\<forall>i. uuid i \<noteq> [] \<Longrightarrow> entry_items items \<Longrightarrow> list_all settled_item (fst (give_ids uuid n items))"
  by (induction uuid n items rule: give_ids.induct) (auto simp: entry_items_def settled_item_def split: prod.splits)

lemma give_ids_same: "list_all settled_item items \<Longrightarrow> give_ids uuid n items = (items, n)"
  by (induction uuid n items rule: give_ids.induct) (auto simp: settled_item_def)

lemma coerce_same: "list_all settled_item items \<Longrightarrow> List.map_filter coerce_item items = items"
  by (induction items) (auto simp: settled_item_def coerce_item_def List.map_filter_simps split: allowlist_item.splits)

lemma allowlist_settled:
  assumes "\<forall>i. uuid i \<noteq> []"
  shows "list_all settled_item (nullish (fst (ensureAllowlistIds uuid n (coerceAllowlistEntries allowlist))) [])"
proof (cases "coerceAllowlistEntries allowlist")
  case (Some items)
  hence "list_all settled_item (fst (give_ids uuid n items))" using coerced_allowlist[of allowlist] give_ids_settled[OF assms] by simp
  thus ?thesis using Some by (cases "give_ids uuid n items") (simp add: ensureAllowlistIds_def)
qed (simp add: ensureAllowlistIds_def)

lemma allowlist_same:
  "list_all settled_item (nullish allowlist []) \<Longrightarrow> ensureAllowlistIds uuid n (coerceAllowlistEntries allowlist) = (allowlist, n)"
  by (cases allowlist) (auto simp: ensureAllowlistIds_def coerceAllowlistEntries_def coerce_same give_ids_same Let_def)

lemma agents_settled: "\<forall>i. uuid i \<noteq> [] \<Longrightarrow> list_all (\<lambda>p. settled_agent (snd p)) (fst (normalize_agents uuid n agents))"
proof (induction uuid n agents rule: normalize_agents.induct)
  case (2 uuid n key agent agents)
  thus ?case using allowlist_settled[OF "2.prems", of n "xa_allowlist agent"] by (auto simp: settled_agent_def split: prod.splits)
qed simp

lemma agents_same: "list_all (\<lambda>p. settled_agent (snd p)) agents \<Longrightarrow> normalize_agents uuid n agents = (agents, n)"
  by (induction uuid n agents rule: normalize_agents.induct) (auto simp: settled_agent_def allowlist_same)

lemma agents_keys: "map_keys (fst (normalize_agents uuid n agents)) = map_keys agents"
  by (induction uuid n agents rule: normalize_agents.induct) (auto split: prod.splits)

lemma merged_agents: "merge_default_agent agents = Some agents' \<Longrightarrow> map_get agents' ''default'' = None"
  by (auto simp: merge_default_agent_def MAIN_AGENT_ID_def split: option.splits)

lemma map_get_None_keys: "map_get m k = None \<longleftrightarrow> k \<notin> set (map_keys m)"
  by (simp add: map_of_eq_None_iff)

lemma trimmed_str_opt: "trimmed_text (str_opt (trim s))"
  by (simp add: trimmed_text_def split: option.split)

lemma settled_normal: "settled_file file \<Longrightarrow> normalizeExecApprovals uuid k file = Some (file, k)"
proof -
  assume settled: "settled_file file"
  have kept: "str_opt (trim (nullish v [])) = v" if "trimmed_text v" for v
    using that by (cases v) (simp_all add: trimmed_text_def str_opt_def)
  show ?thesis using settled agents_same[of "xf_agents file" uuid k]
    by (auto simp: settled_file_def normalizeExecApprovals_def merge_default_agent_def kept)
qed

lemma normal_settled:
  assumes "\<forall>i. uuid i \<noteq> []" "normalizeExecApprovals uuid n file = Some (file', m)"
  shows "settled_file file'"
proof -
  obtain agents where agents: "merge_default_agent (xf_agents file) = Some agents" "(xf_agents file', m) = normalize_agents uuid n agents"
    and rest: "xf_socketPath file' = str_opt (trim (nullish (xf_socketPath file) []))" "xf_token file' = str_opt (trim (nullish (xf_token file) []))"
      "xf_defaults file' = Some (nullish (xf_defaults file) no_defaults)"
    using assms(2) by (auto simp: normalizeExecApprovals_def split: option.splits prod.splits)
  have fst: "xf_agents file' = fst (normalize_agents uuid n agents)" using agents(2) by (metis fst_conv)
  have "map_get (xf_agents file') ''default'' = None"
    using merged_agents[OF agents(1)] fst agents_keys[of uuid n agents] by (simp add: map_get_None_keys)
  thus ?thesis using agents_settled[OF assms(1)] fst rest trimmed_str_opt by (simp add: settled_file_def)
qed

text \<open>
  C21: the normal form of the settings file is of the right shape and stable: no agent is called
  "default" any more, every item of an allowlist is an entry with a pattern and an id, and normalising
  again, as every reader does, changes nothing and draws no random id.
\<close>

theorem normal_form_is_stable:
  assumes "\<forall>i. uuid i \<noteq> []" "normalizeExecApprovals uuid n file = Some (file', m)"
  shows "settled_file file' \<and> normalizeExecApprovals uuid' k file' = Some (file', k)"
  using normal_settled[OF assms] settled_normal by blast

definition plain_entry :: "string \<Rightarrow> allowlist_entry" where
  "plain_entry p = \<lparr>al_id = None, al_pattern = p, al_lastUsedAt = None, al_lastUsedCommand = None, al_lastResolvedPath = None\<rparr>"

lemma normal_form_is_stable_witness:
  "settled_file (empty_file\<lparr>xf_defaults := Some no_defaults,
     xf_agents := [(''main'', no_agent\<lparr>xa_allowlist := Some [ItemEntry (plain_entry ''/bin/ls''\<lparr>al_id := Some ''id-1''\<rparr>)]\<rparr>)]\<rparr>)"
proof -
  let ?uuid = "\<lambda>i. if i = 0 then ''id-1'' else ''id-2'' :: string"
  have "normalizeExecApprovals ?uuid 0 (empty_file\<lparr>xf_agents := [(''default'', no_agent\<lparr>xa_allowlist := Some [ItemText '' /bin/ls '']\<rparr>)]\<rparr>) =
    Some (empty_file\<lparr>xf_defaults := Some no_defaults,
      xf_agents := [(''main'', no_agent\<lparr>xa_allowlist := Some [ItemEntry (plain_entry ''/bin/ls''\<lparr>al_id := Some ''id-1''\<rparr>)]\<rparr>)]\<rparr>, 1)"
    by code_simp
  from normal_form_is_stable[OF _ this] show ?thesis by simp
qed

text \<open>The merge of a legacy agent runs before bare texts become entries, and drops them.\<close>

lemma legacy_texts_are_lost:
  "map_option (\<lambda>r. map_get (xf_agents (fst r)) ''main'') (normalizeExecApprovals uuid n (empty_file\<lparr>xf_agents :=
     [(''main'', no_agent\<lparr>xa_allowlist := Some [ItemText ''/bin/ls'']\<rparr>), (''default'', no_agent)]\<rparr>)) = Some (Some no_agent)"
  by (simp add: normalizeExecApprovals_def merge_default_agent_def mergeLegacyAgent_def push_item_def no_agent_def MAIN_AGENT_ID_def
      ensureAllowlistIds_def coerceAllowlistEntries_def empty_file_def)

text \<open>One item without a readable pattern makes the loader take the whole file for empty.\<close>

lemma broken_item_discards_file:
  "loadExecApprovals uuid n (Some (empty_file\<lparr>xf_agents := [(''main'', no_agent\<lparr>xa_allowlist := Some [ItemBroken]\<rparr>), (''default'', no_agent),
     (''coder'', no_agent\<lparr>xd_security := Some ''deny''\<rparr>)]\<rparr>)) = (empty_file\<lparr>xf_defaults := Some no_defaults\<rparr>, n)"
  by (simp add: loadExecApprovals_def normalizeExecApprovals_def merge_default_agent_def mergeLegacyAgent_def push_item_def no_agent_def
      MAIN_AGENT_ID_def empty_file_def)

section \<open>An allow-always decision is remembered\<close>

lemma glob_test_AnyText: "glob_test ps s \<Longrightarrow> glob_test (AnyText # ps) s" "glob_test ps s \<Longrightarrow> glob_test (AnySegmentText # ps) s"
  by (cases s; simp)+

lemma star_plain: "\<not> line_end (CHR ''*'')" "\<not> line_end (CHR ''?'')"
  by (simp_all add: line_end_def shell_chars)

lemma glob_test_self: "glob_test (compileGlobRegex p) p"
proof (induction p rule: compileGlobRegex.induct)
  case (2 ch rest)
  show ?case
  proof (cases "ch = CHR ''*'' \<and> next_is (CHR ''*'') rest")
    case True
    then obtain s where "rest = CHR ''*'' # s" by (cases rest) auto
    thus ?thesis using 2 True star_plain by (simp add: glob_test_AnyText)
  qed (use 2 star_plain in \<open>auto simp: glob_test_AnyText\<close>)
qed simp

lemma path_entry_applies:
  assumes "starts_with p ''/''" "trim p = p" "al_pattern e = p"
  shows "entry_applies h p e"
proof -
  obtain q where "p = slash # q" using assms(1) by (auto simp: starts_with_def prefix_def)
  thus ?thesis using assms glob_test_self
    by (simp add: entry_applies_def matchesExecAllowlistPattern_def has_path_separator_def starts_with_def Let_def)
qed

lemma path_entry_matches:
  assumes "starts_with p ''/''" "trim p = p" "al_pattern e = p" "e \<in> set entries" "cr_resolvedPath r = Some p"
  shows "\<exists>e'. matchAllowlist h entries (Some r) = Some e'"
proof -
  have "p \<noteq> []" using assms(1) by (auto simp: starts_with_def)
  moreover have "find (entry_applies h p) entries \<noteq> None" using path_entry_applies[OF assms(1-3)] assms(4) by (auto simp: find_None_iff)
  ultimately show ?thesis using assms(4,5) by (auto simp: matchAllowlist_def Let_def split: option.splits)
qed

definition has_pattern :: "string \<Rightarrow> allowlist_item list option \<Rightarrow> bool" where
  "has_pattern p items = (\<exists>e. ItemEntry e \<in> set (nullish items []) \<and> al_pattern e = p)"

lemma give_ids_pattern: "ItemEntry e \<in> set items \<Longrightarrow> \<exists>e'. ItemEntry e' \<in> set (fst (give_ids uuid n items)) \<and> al_pattern e' = al_pattern e"
proof (induction uuid n items rule: give_ids.induct)
  case (2 uuid n x items)
  obtain a b where "give_ids uuid n items = (a, b)" by fastforce
  moreover obtain c d where "give_ids uuid (n + 1) items = (c, d)" by fastforce
  ultimately show ?case using 2 by (cases "ItemEntry e = ItemEntry x") (fastforce split: if_splits)+
qed (auto split: prod.splits)

lemma normal_pattern:
  assumes "has_pattern p items" "trim p \<noteq> []"
  shows "has_pattern p (fst (ensureAllowlistIds uuid n (coerceAllowlistEntries items)))"
proof -
  obtain xs e where xs: "items = Some xs" "ItemEntry e \<in> set xs" "al_pattern e = p"
    using assms(1) by (cases items) (auto simp: has_pattern_def)
  have "coerce_item (ItemEntry e) = Some (ItemEntry e)" using xs assms(2) by (simp add: coerce_item_def)
  hence "ItemEntry e \<in> set (List.map_filter coerce_item xs)" using xs(2) by (force simp: List.map_filter_def)
  hence "\<exists>ys. coerceAllowlistEntries items = Some ys \<and> ItemEntry e \<in> set ys"
    using xs by (auto simp: coerceAllowlistEntries_def Let_def)
  then obtain ys where "coerceAllowlistEntries items = Some ys" "ItemEntry e \<in> set ys" by blast
  thus ?thesis using give_ids_pattern[of e ys uuid n] xs(3) by (auto simp: ensureAllowlistIds_def has_pattern_def split: prod.splits)
qed

lemma normal_agents_pattern:
  "map_get agents t = Some agent \<Longrightarrow> has_pattern p (xa_allowlist agent) \<Longrightarrow> trim p \<noteq> [] \<Longrightarrow>
   \<exists>agent'. map_get (fst (normalize_agents uuid n agents)) t = Some agent' \<and> has_pattern p (xa_allowlist agent')"
proof (induction uuid n agents rule: normalize_agents.induct)
  case (2 uuid n key agent0 agents)
  obtain al m where al: "ensureAllowlistIds uuid n (coerceAllowlistEntries (xa_allowlist agent0)) = (al, m)" by fastforce
  obtain rest k where rest: "normalize_agents uuid m agents = (rest, k)" by fastforce
  show ?case
  proof (cases "key = t")
    case True
    thus ?thesis using 2 al rest normal_pattern[of p "xa_allowlist agent0" uuid n] by simp
  next
    case False
    thus ?thesis using "2.IH"[OF al[symmetric]] "2.prems" al rest by simp
  qed
qed simp

lemma item_pattern_Some: "item_pattern item = Some p \<longleftrightarrow> (\<exists>e. item = ItemEntry e \<and> al_pattern e = p)"
  by (cases item) (simp_all add: item_pattern_def)

lemma added_pattern:
  assumes "trim p = p" "p \<noteq> []"
  shows "\<exists>agent. map_get (xf_agents (addAllowlistEntry newId nowMs file agentId p)) (nullish agentId MAIN_AGENT_ID) = Some agent \<and>
    has_pattern p (xa_allowlist agent)"
proof -
  define existing where "existing = nullish (map_get (xf_agents file) (nullish agentId MAIN_AGENT_ID)) no_agent"
  have target: "target_agent file agentId = (nullish agentId MAIN_AGENT_ID, existing)" by (simp add: target_agent_def existing_def Let_def)
  show ?thesis
  proof (cases "list_ex (\<lambda>item. item_pattern item = Some p) (nullish (xa_allowlist existing) [])")
    case True
    then obtain e where e: "ItemEntry e \<in> set (nullish (xa_allowlist existing) [])" "al_pattern e = p"
      by (auto simp: list_ex_iff item_pattern_Some)
    hence "map_get (xf_agents file) (nullish agentId MAIN_AGENT_ID) = Some existing"
      by (cases "map_get (xf_agents file) (nullish agentId MAIN_AGENT_ID)") (simp_all add: existing_def no_agent_def)
    moreover have "addAllowlistEntry newId nowMs file agentId p = file" using True assms target by (simp add: addAllowlistEntry_def Let_def)
    ultimately show ?thesis using e by (auto simp: has_pattern_def)
  next
    case False
    hence "addAllowlistEntry newId nowMs file agentId p = set_allowlist (nullish agentId MAIN_AGENT_ID) existing
       (nullish (xa_allowlist existing) [] @ [ItemEntry \<lparr>al_id = Some newId, al_pattern = p, al_lastUsedAt = Some nowMs,
          al_lastUsedCommand = None, al_lastResolvedPath = None\<rparr>]) file"
      using assms target by (simp add: addAllowlistEntry_def Let_def)
    thus ?thesis by (simp add: set_allowlist_def has_pattern_def) (metis allowlist_entry.select_convs(2))
  qed
qed

lemma added_default: "map_get (xf_agents file) ''default'' = None \<Longrightarrow> nullish agentId MAIN_AGENT_ID \<noteq> ''default'' \<Longrightarrow>
   map_get (xf_agents (addAllowlistEntry newId nowMs file agentId p)) ''default'' = None"
  by (auto simp: addAllowlistEntry_def target_agent_def set_allowlist_def Let_def)

text \<open>
  C22: a decision is remembered: once the path of an executable was added to the allowlist of an agent,
  the settings that are read from the file for that agent have an entry that matches every command with
  that executable, glob characters in the path included, whatever the file holds for this and other
  agents. This is for a file without the legacy agent "default" (a file that was loaded has none), for an
  agent of another name, and for an absolute path without surrounding blanks. For the agent "default" it
  does not hold: see \<open>default_agent_forgets\<close>.
\<close>

theorem allow_always_is_remembered:
  assumes "map_get (xf_agents file) ''default'' = None" "nullish agentId MAIN_AGENT_ID \<noteq> ''default''"
    and "starts_with p ''/''" "trim p = p" "cr_resolvedPath r = Some p"
  shows "\<exists>res e. resolveExecApprovalsFromFile h uuid n stateDir (addAllowlistEntry newId nowMs file agentId p) agentId overrides a b c = Some res \<and>
    matchAllowlist h (xr_allowlist res) (Some r) = Some e"
proof -
  let ?file = "addAllowlistEntry newId nowMs file agentId p"
  have "p \<noteq> []" using assms(3) by (auto simp: starts_with_def)
  from added_pattern[OF assms(4) this] obtain agent where agent: "map_get (xf_agents ?file) (nullish agentId MAIN_AGENT_ID) = Some agent"
    "has_pattern p (xa_allowlist agent)" by blast
  obtain agents m where agents: "normalize_agents uuid n (xf_agents ?file) = (agents, m)" by fastforce
  from normal_agents_pattern[OF agent, of uuid n] agents assms(4) \<open>p \<noteq> []\<close> obtain agent' where
    agent': "map_get agents (nullish agentId MAIN_AGENT_ID) = Some agent'" "has_pattern p (xa_allowlist agent')" by auto
  obtain res where res: "resolveExecApprovalsFromFile h uuid n stateDir ?file agentId overrides a b c = Some res"
    "\<exists>wild. xr_allowlist res = wild @ item_entries (xa_allowlist agent')"
    using agents agent'(1) added_default[OF assms(1,2)]
    by (auto simp: resolveExecApprovalsFromFile_def normalizeExecApprovals_def merge_default_agent_def Let_def)
  from agent'(2) obtain e where "ItemEntry e \<in> set (nullish (xa_allowlist agent') [])" "al_pattern e = p" by (auto simp: has_pattern_def)
  hence "e \<in> set (xr_allowlist res)" using res(2) by (force simp: item_entries_def List.map_filter_def)
  from path_entry_matches[OF assms(3,4) \<open>al_pattern e = p\<close> this assms(5)] show ?thesis using res(1) by blast
qed

lemma allow_always_is_remembered_witness:
  "\<exists>res e. resolveExecApprovalsFromFile sample_host (\<lambda>_. ''id'') 0 ''/state'' (addAllowlistEntry ''id'' 5 empty_file None ''/usr/bin/l?'') None
       \<lparr>xo_security = None, xo_ask = None, xo_askFallback = None, xo_autoAllowSkills = None\<rparr> None None None = Some res \<and>
     matchAllowlist sample_host (xr_allowlist res) (Some \<lparr>cr_rawExecutable = ''l?'', cr_resolvedPath = Some ''/usr/bin/l?'', cr_resolvedRealPath = None,
       cr_executableName = ''l?'', cr_effectiveArgv = None, cr_wrapperChain = None, cr_policyBlocked = None, cr_blockedWrapper = None\<rparr>) = Some e"
proof (rule allow_always_is_remembered)
  show "map_get (xf_agents empty_file) ''default'' = None" by (simp add: empty_file_def)
  show "starts_with ''/usr/bin/l?'' ''/''" "trim ''/usr/bin/l?'' = ''/usr/bin/l?''" "nullish None MAIN_AGENT_ID \<noteq> ''default''" by code_simp+
qed simp

text \<open>
  What is added for the agent "default" is merged into the agent "main" when the file is read again:
  the agent itself has forgotten it, and "main" has it.
\<close>

lemma default_agent_forgets:
  "let file = addAllowlistEntry ''id'' 5 empty_file (Some ''default'') ''/usr/bin/ls'';
       overrides = \<lparr>xo_security = None, xo_ask = None, xo_askFallback = None, xo_autoAllowSkills = None\<rparr>;
       entries = (\<lambda>agentId. map_option (\<lambda>res. map al_pattern (xr_allowlist res))
         (resolveExecApprovalsFromFile sample_host (\<lambda>_. ''id'') 0 ''/state'' file agentId overrides None None None)) in
   entries (Some ''default'') = Some [] \<and> entries (Some ''main'') = Some [''/usr/bin/ls'']"
  by code_simp

end
