(* ===== verification/HostEnv.thy ===== *)
theory HostEnv
  imports ExecApprovals
begin

text \<open>
  The environment of a command (src/infra/host-env-security.ts with host-env-security-policy.json):
  which variables a request may set, and what is left of the environment of the process. A value of
  the process environment is None when it is undefined.
\<close>

section \<open>The policy\<close>

definition HOST_DANGEROUS_ENV_KEYS :: "string list" where
  "HOST_DANGEROUS_ENV_KEYS = map to_upper
     [''NODE_OPTIONS'', ''NODE_PATH'', ''PYTHONHOME'', ''PYTHONPATH'', ''PERL5LIB'', ''PERL5OPT'', ''RUBYLIB'', ''RUBYOPT'', ''BASH_ENV'',
      ''ENV'', ''GIT_EXTERNAL_DIFF'', ''SHELL'', ''SHELLOPTS'', ''PS4'', ''GCONV_PATH'', ''IFS'', ''SSLKEYLOGFILE'']"

definition HOST_DANGEROUS_ENV_PREFIXES :: "string list" where
  "HOST_DANGEROUS_ENV_PREFIXES = map to_upper [''DYLD_'', ''LD_'', ''BASH_FUNC_'']"

definition HOST_DANGEROUS_OVERRIDE_ENV_KEYS :: "string list" where
  "HOST_DANGEROUS_OVERRIDE_ENV_KEYS = map to_upper [''HOME'', ''ZDOTDIR'']"

definition HOST_SHELL_WRAPPER_ALLOWED_OVERRIDE_ENV_KEYS :: "string list" where
  "HOST_SHELL_WRAPPER_ALLOWED_OVERRIDE_ENV_KEYS =
     [''TERM'', ''LANG'', ''LC_ALL'', ''LC_CTYPE'', ''LC_MESSAGES'', ''COLORTERM'', ''NO_COLOR'', ''FORCE_COLOR'']"

definition isDangerousHostEnvVarName :: "string \<Rightarrow> bool" where
  "isDangerousHostEnvVarName rawKey = (case normalizeEnvVarKey rawKey False of None \<Rightarrow> False
     | Some key \<Rightarrow> let upper = to_upper key in
         upper \<in> set HOST_DANGEROUS_ENV_KEYS \<or> list_ex (\<lambda>p. starts_with upper p) HOST_DANGEROUS_ENV_PREFIXES)"

definition isDangerousHostEnvOverrideVarName :: "string \<Rightarrow> bool" where
  "isDangerousHostEnvOverrideVarName rawKey = (case normalizeEnvVarKey rawKey False of None \<Rightarrow> False
     | Some key \<Rightarrow> to_upper key \<in> set HOST_DANGEROUS_OVERRIDE_ENV_KEYS)"

section \<open>The environment that a command gets\<close>

text \<open>What an entry contributes: a portable key with its value, or nothing.\<close>

definition base_entry :: "string \<times> string option \<Rightarrow> (string \<times> string) option" where
  "base_entry e = (case snd e of None \<Rightarrow> None
     | Some v \<Rightarrow> (case normalizeEnvVarKey (fst e) True of None \<Rightarrow> None
         | Some key \<Rightarrow> if isDangerousHostEnvVarName key then None else Some (key, v)))"

definition override_entry :: "bool \<Rightarrow> string \<times> js_value \<Rightarrow> (string \<times> string) option" where
  "override_entry blockPathOverrides e = (case snd e of JStr v \<Rightarrow> (case normalizeEnvVarKey (fst e) True of None \<Rightarrow> None
       | Some key \<Rightarrow> let upper = to_upper key in
           if blockPathOverrides \<and> upper = ''PATH'' then None
           else if isDangerousHostEnvVarName upper \<or> isDangerousHostEnvOverrideVarName upper then None
           else Some (key, v))
     | _ \<Rightarrow> None)"

definition set_entry :: "string \<times> string \<Rightarrow> (string, string) js_map \<Rightarrow> (string, string) js_map" where
  "set_entry e = map_set (fst e) (snd e)"

definition sanitizeHostExecEnv :: "(string \<times> string option) list \<Rightarrow> (string \<times> js_value) list option \<Rightarrow> bool \<Rightarrow> (string, string) js_map" where
  "sanitizeHostExecEnv baseEnv overrides blockPathOverrides =
     (let merged = fold set_entry (List.map_filter base_entry baseEnv) [] in
      case overrides of None \<Rightarrow> merged
      | Some es \<Rightarrow> fold set_entry (List.map_filter (override_entry blockPathOverrides) es) merged)"

definition wrapper_entry :: "string \<times> js_value \<Rightarrow> (string \<times> string) option" where
  "wrapper_entry e = (case snd e of JStr v \<Rightarrow> (case normalizeEnvVarKey (fst e) True of None \<Rightarrow> None
       | Some key \<Rightarrow> if to_upper key \<notin> set HOST_SHELL_WRAPPER_ALLOWED_OVERRIDE_ENV_KEYS then None else Some (key, v))
     | _ \<Rightarrow> None)"

definition sanitizeSystemRunEnvOverrides :: "(string \<times> js_value) list option \<Rightarrow> bool \<Rightarrow> (string \<times> js_value) list option" where
  "sanitizeSystemRunEnvOverrides overrides shellWrapper = (case overrides of None \<Rightarrow> None
     | Some es \<Rightarrow> if \<not> shellWrapper then Some es
         else let filtered = fold set_entry (List.map_filter wrapper_entry es) [] in
           if filtered = [] then None else Some (map (\<lambda>(k, v). (k, JStr v)) filtered))"

section \<open>What a command can never get\<close>

lemma map_get_fold_entries:
  "map_get (fold set_entry es m) k = Some v \<Longrightarrow> map_get m k = Some v \<or> (k, v) \<in> set es"
  by (induction es arbitrary: m) (fastforce simp: set_entry_def split: if_splits)+

lemma set_map_filter: "y \<in> set (List.map_filter f xs) \<longleftrightarrow> (\<exists>x \<in> set xs. f x = Some y)"
  by (induction xs) (auto simp: List.map_filter_simps split: option.splits)

lemma portable_trimmed: "portable_key k \<Longrightarrow> trim k = k"
proof (rule trim_id, rule trimmed_no_ws, rule ballI)
  fix c assume "portable_key k" "c \<in> set k"
  hence "name_char c" by (cases k) (auto simp: portable_key_def name_char_def list_all_iff)
  thus "\<not> js_ws c" by (auto simp: name_char_def name_start_def ascii_digit_def ascii_letter_def js_ws_def Let_def)
qed

lemma normalized_portable: "normalizeEnvVarKey raw True = Some k \<Longrightarrow> portable_key k \<and> trim k = k \<and> trim raw = k"
  using portable_trimmed by (auto simp: normalizeEnvVarKey_def Let_def split: if_splits)

lemma upper_name_char:
  assumes "name_char c"
  shows "\<exists>d. upper_char c = [d] \<and> upper_char d = [d] \<and> name_char d \<and> (name_start c \<longrightarrow> name_start d)"
proof (cases "97 \<le> (of_char c :: nat) \<and> (of_char c :: nat) \<le> 122")
  case True
  let ?d = "char_of ((of_char c :: nat) - 32) :: char"
  obtain n where n: "(of_char c :: nat) = n + 32" "65 \<le> n" "n \<le> 90" using True by (intro that[of "of_char c - 32"]) linarith+
  have "65 \<le> (of_char ?d :: nat) \<and> (of_char ?d :: nat) \<le> 90" using n by simp
  hence "upper_char ?d = [?d]" "name_start ?d" by (auto simp: upper_char_def name_start_def ascii_letter_def Let_def)
  moreover have "upper_char c = [?d]" using True by (simp add: upper_char_def)
  ultimately show ?thesis by (auto simp: name_char_def)
next
  case False
  have "(of_char c :: nat) \<le> 122" using assms by (auto simp: name_char_def name_start_def ascii_digit_def ascii_letter_def Let_def)
  hence "upper_char c = [c]" using False by (simp add: upper_char_def)
  thus ?thesis using assms by auto
qed

lemma upper_name_chars:
  "list_all name_char k \<Longrightarrow> list_all name_char (to_upper k) \<and> to_upper (to_upper k) = to_upper k"
proof (induction k)
  case (Cons c k)
  then obtain d where "upper_char c = [d]" "upper_char d = [d]" "name_char d" using upper_name_char by fastforce
  thus ?case using Cons by (simp add: to_upper_def)
qed (simp add: to_upper_def)

lemma upper_portable: "portable_key k \<Longrightarrow> portable_key (to_upper k) \<and> to_upper (to_upper k) = to_upper k"
proof (cases k)
  case (Cons c cs)
  assume k: "portable_key k"
  then obtain d where d: "upper_char c = [d]" "upper_char d = [d]" "name_start d"
    using Cons upper_name_char[of c] by (auto simp: portable_key_def name_char_def)
  thus ?thesis using k Cons upper_name_chars[of cs] by (simp add: portable_key_def to_upper_def)
qed (simp add: portable_key_def)

lemma dangerous_upper:
  assumes "portable_key k"
  shows "isDangerousHostEnvVarName (to_upper k) = isDangerousHostEnvVarName k"
    "isDangerousHostEnvOverrideVarName (to_upper k) \<longleftrightarrow> to_upper k \<in> set HOST_DANGEROUS_OVERRIDE_ENV_KEYS"
proof -
  have "k \<noteq> []" "to_upper k \<noteq> []" using assms upper_portable[OF assms] by (auto simp: portable_key_def)
  thus "isDangerousHostEnvVarName (to_upper k) = isDangerousHostEnvVarName k"
    "isDangerousHostEnvOverrideVarName (to_upper k) \<longleftrightarrow> to_upper k \<in> set HOST_DANGEROUS_OVERRIDE_ENV_KEYS"
    using assms upper_portable[OF assms] portable_trimmed
    by (simp_all add: isDangerousHostEnvVarName_def isDangerousHostEnvOverrideVarName_def normalizeEnvVarKey_def Let_def)
qed

lemma base_entry_safe: "base_entry e = Some (k, v) \<Longrightarrow> portable_key k \<and> \<not> isDangerousHostEnvVarName k \<and> trim (fst e) = k \<and> snd e = Some v"
  by (auto simp: base_entry_def dest: normalized_portable split: option.splits if_splits)

lemma override_entry_safe:
  "override_entry True e = Some (k, v) \<Longrightarrow>
   portable_key k \<and> \<not> isDangerousHostEnvVarName k \<and> to_upper k \<noteq> ''PATH'' \<and> to_upper k \<notin> set HOST_DANGEROUS_OVERRIDE_ENV_KEYS \<and>
   trim (fst e) = k \<and> snd e = JStr v"
  by (auto simp: override_entry_def Let_def dangerous_upper dest: normalized_portable split: js_value.splits option.splits if_splits)

lemma wrapper_overrides:
  assumes "sanitizeSystemRunEnvOverrides overrides True = Some es" "e \<in> set es"
  shows "to_upper (fst e) \<in> set HOST_SHELL_WRAPPER_ALLOWED_OVERRIDE_ENV_KEYS \<and> trim (fst e) = fst e"
proof -
  from assms obtain raw k v where e: "e = (k, JStr v)" "(k, v) \<in> set (fold set_entry (List.map_filter wrapper_entry raw) [])"
    by (auto simp: sanitizeSystemRunEnvOverrides_def Let_def split: option.splits if_splits)
  have wf: "wf_map (fold set_entry es m)" if "wf_map m" for es :: "(string \<times> string) list" and m
    using that by (induction es arbitrary: m) (simp_all add: set_entry_def)
  have "map_get (fold set_entry (List.map_filter wrapper_entry raw) []) k = Some v"
    using e(2) wf[of "[]"] by (simp add: wf_map_def)
  from map_get_fold_entries[OF this] obtain x where "wrapper_entry x = Some (k, v)" by (auto simp: set_map_filter)
  thus ?thesis using e(1) by (auto simp: wrapper_entry_def dest: normalized_portable split: js_value.splits option.splits if_splits)
qed

text \<open>
  C20: the environment of a command is safe: every name is portable and none is on the list of names
  that change what a program loads or how a shell starts (LD_ and DYLD_ names, NODE_OPTIONS, BASH_ENV
  and the like, in any case); a value that does not come from the environment of the process is never
  that of PATH, HOME or ZDOTDIR, and for a shell wrapper it is one of eight harmless terminal and
  locale variables.
\<close>

theorem sanitized_environment_is_safe:
  assumes "map_get (sanitizeHostExecEnv baseEnv (sanitizeSystemRunEnvOverrides overrides shellWrapper) True) k = Some v"
  shows "portable_key k \<and> \<not> isDangerousHostEnvVarName k \<and>
    ((\<exists>raw. (raw, Some v) \<in> set baseEnv \<and> trim raw = k) \<or>
     (to_upper k \<notin> {''PATH'', ''HOME'', ''ZDOTDIR''} \<and>
      (shellWrapper \<longrightarrow> to_upper k \<in> set HOST_SHELL_WRAPPER_ALLOWED_OVERRIDE_ENV_KEYS)))"
proof -
  let ?os = "sanitizeSystemRunEnvOverrides overrides shellWrapper"
  consider (base) "map_get (fold set_entry (List.map_filter base_entry baseEnv) []) k = Some v"
    | (own) es where "?os = Some es" "(k, v) \<in> set (List.map_filter (override_entry True) es)"
  proof (cases ?os)
    case None
    thus ?thesis using assms base by (simp add: sanitizeHostExecEnv_def)
  next
    case (Some es)
    hence "map_get (fold set_entry (List.map_filter (override_entry True) es) (fold set_entry (List.map_filter base_entry baseEnv) [])) k = Some v"
      using assms by (simp add: sanitizeHostExecEnv_def)
    from map_get_fold_entries[OF this] show ?thesis using base own[OF Some] by blast
  qed
  thus ?thesis
  proof cases
    case base
    from map_get_fold_entries[OF this] obtain e where "e \<in> set baseEnv" "base_entry e = Some (k, v)" by (auto simp: set_map_filter)
    with base_entry_safe[of e k v] have "(fst e, Some v) \<in> set baseEnv" "trim (fst e) = k" "portable_key k" "\<not> isDangerousHostEnvVarName k"
      by (metis prod.collapse)+
    thus ?thesis by blast
  next
    case own
    then obtain e where e: "e \<in> set es" "override_entry True e = Some (k, v)" by (auto simp: set_map_filter)
    have "set HOST_DANGEROUS_OVERRIDE_ENV_KEYS = {''HOME'', ''ZDOTDIR''}" by code_simp
    moreover have "to_upper k \<in> set HOST_SHELL_WRAPPER_ALLOWED_OVERRIDE_ENV_KEYS" if "shellWrapper"
      using wrapper_overrides[of overrides es e] own(1) e override_entry_safe[OF e(2)] that by auto
    ultimately show ?thesis using override_entry_safe[OF e(2)] by simp
  qed
qed

lemma sanitized_environment_is_safe_witness:
  "sanitizeHostExecEnv [(''PATH'', Some ''/bin''), (''LD_PRELOAD'', Some ''x'')]
      (sanitizeSystemRunEnvOverrides (Some [(''path'', JStr ''/tmp''), ('' TERM'', JStr ''dumb''), (''FOO'', JStr ''1'')]) True) True =
     [(''PATH'', ''/bin''), (''TERM'', ''dumb'')] \<and> portable_key ''TERM'' \<and> \<not> isDangerousHostEnvVarName ''TERM''"
proof -
  let ?env = "sanitizeHostExecEnv [(''PATH'', Some ''/bin''), (''LD_PRELOAD'', Some ''x'')]
      (sanitizeSystemRunEnvOverrides (Some [(''path'', JStr ''/tmp''), ('' TERM'', JStr ''dumb''), (''FOO'', JStr ''1'')]) True) True"
  have env: "?env = [(''PATH'', ''/bin''), (''TERM'', ''dumb'')]" by code_simp
  hence "map_get ?env ''TERM'' = Some ''dumb''" by simp
  from sanitized_environment_is_safe[OF this] show ?thesis using env by simp
qed

end
