(* ===== verification/SystemRunPlan.thy ===== *)
theory SystemRunPlan
  imports ApprovalSettings HostEnv
begin

text \<open>
  What a node decides before it runs a command: the working directory and the executable that an
  approval is pinned to (src/node-host/invoke-system-run-plan.ts, src/infra/file-identity.ts), the
  policy (src/node-host/exec-policy.ts), the evaluation of the allowlist for a request
  (src/node-host/invoke-system-run-allowlist.ts) and the safe bins that are in force
  (src/infra/exec-safe-bin-runtime-policy.ts).
\<close>

section \<open>Pinned directories\<close>

definition sameFileIdentity :: "string \<Rightarrow> file_stat \<Rightarrow> file_stat \<Rightarrow> bool" where
  "sameFileIdentity platform l r =
     (if st_ino l \<noteq> st_ino r then False
      else if st_dev l = st_dev r then True
      else platform = ''win32'' \<and> (st_dev l = 0 \<or> st_dev r = 0))"

text \<open>A directory and all its ancestors, the root first; \<open>dirname\<close> ends at the root or at a dot.\<close>

definition path_measure :: "string \<Rightarrow> nat" where
  "path_measure p = (if p = ''.'' then 0 else Suc (length p))"

lemma path_dirname_Cons:
  assumes "k = length (dropWhile (\<lambda>c. c \<noteq> slash) (dropWhile (\<lambda>c. c = slash) (rev s)))"
  shows "path_dirname (c # s) = (if k = 0 then (if c = slash then ''/'' else ''.'') else if c = slash \<and> k = 1 then ''//'' else take k (c # s))"
    "k \<le> length s" "k = 1 \<Longrightarrow> 2 \<le> length s"
proof -
  show le: "k \<le> length s" using length_dropWhile_le[of "\<lambda>c. c \<noteq> slash" "dropWhile (\<lambda>c. c = slash) (rev s)"]
      length_dropWhile_le[of "\<lambda>c. c = slash" "rev s"] assms by simp
  show "k = 1 \<Longrightarrow> 2 \<le> length s"
  proof (rule ccontr)
    assume k: "k = 1" "\<not> 2 \<le> length s"
    hence "length s = 1" using le by linarith
    then obtain d where "s = [d]" by (auto simp: length_Suc_conv)
    thus False using k assms by (auto split: if_splits)
  qed
qed (simp only: path_dirname_def assms Let_def list.sel list.distinct if_False)

lemma path_dirname_measure:
  assumes change: "path_dirname p \<noteq> p"
  shows "path_measure (path_dirname p) < path_measure p"
proof (cases p)
  case (Cons c s)
  define k where "k = length (dropWhile (\<lambda>c. c \<noteq> slash) (dropWhile (\<lambda>c. c = slash) (rev s)))"
  note dir = path_dirname_Cons[OF k_def]
  have dot: "k = 0 \<Longrightarrow> c \<noteq> slash \<Longrightarrow> p \<noteq> ''.''" using dir(1)[of c] change Cons by auto
  consider "k = 0" "c = slash" | "k = 0" "c \<noteq> slash" | "k = 1" "c = slash" | "k \<noteq> 0" "\<not> (c = slash \<and> k = 1)" by blast
  thus ?thesis
  proof cases
    case 1
    thus ?thesis using change Cons dir(1)[of c] by (cases s) (auto simp: path_measure_def)
  next
    case 2
    thus ?thesis using dot Cons dir(1)[of c] by (simp add: path_measure_def)
  next
    case 3
    thus ?thesis using dir(3) Cons dir(1)[of c] by (auto simp: path_measure_def)
  next
    case 4
    hence "s \<noteq> []" using dir(2) by auto
    thus ?thesis using dir(1)[of c] dir(2) 4 Cons by (auto simp: path_measure_def)
  qed
qed (simp add: path_dirname_def path_measure_def)

function path_components :: "string \<Rightarrow> string list \<Rightarrow> string list" where
  "path_components cursor parts = (let parent = path_dirname cursor in
     if parent = cursor then cursor # parts else path_components parent (cursor # parts))"
  by pat_completeness auto
termination by (relation "measure (\<lambda>(cursor, parts). path_measure cursor)") (use path_dirname_measure in auto)

declare path_components.simps [simp del]

definition pathComponentsFromRootSync :: "host \<Rightarrow> string \<Rightarrow> string list" where
  "pathComponentsFromRootSync h targetPath = path_components (path_resolve h [targetPath]) []"

definition hasMutableSymlinkPathComponentSync :: "host \<Rightarrow> string \<Rightarrow> bool" where
  "hasMutableSymlinkPathComponentSync h targetPath =
     list_ex (\<lambda>component. case hs_lstat h component of None \<Rightarrow> True
       | Some st \<Rightarrow> st_isSymbolicLink st \<and> hs_accessW h (path_dirname component)) (pathComponentsFromRootSync h targetPath)"

record cwd_snapshot =
  sn_cwd :: string
  sn_stat :: file_stat

definition resolveCanonicalApprovalCwdSync :: "host \<Rightarrow> string \<Rightarrow> string + cwd_snapshot" where
  "resolveCanonicalApprovalCwdSync h cwd =
     (let requestedCwd = path_resolve h [cwd]; same = sameFileIdentity (hs_platform h) in
      case (hs_lstat h requestedCwd, hs_stat h requestedCwd, hs_realpath h requestedCwd) of
        (Some cwdLstat, Some cwdStat, Some cwdReal) \<Rightarrow> (case hs_stat h cwdReal of
            None \<Rightarrow> Inl ''SYSTEM_RUN_DENIED: approval requires an existing canonical cwd''
          | Some cwdRealStat \<Rightarrow>
              if \<not> st_isDirectory cwdStat then Inl ''SYSTEM_RUN_DENIED: approval requires cwd to be a directory''
              else if hasMutableSymlinkPathComponentSync h requestedCwd
              then Inl ''SYSTEM_RUN_DENIED: approval requires canonical cwd (no symlink path components)''
              else if st_isSymbolicLink cwdLstat then Inl ''SYSTEM_RUN_DENIED: approval requires canonical cwd (no symlink cwd)''
              else if \<not> same cwdStat cwdLstat \<or> \<not> same cwdStat cwdRealStat \<or> \<not> same cwdLstat cwdRealStat
              then Inl ''SYSTEM_RUN_DENIED: approval cwd identity mismatch''
              else Inr \<lparr>sn_cwd = cwdReal, sn_stat = cwdStat\<rparr>)
      | _ \<Rightarrow> Inl ''SYSTEM_RUN_DENIED: approval requires an existing canonical cwd'')"

definition revalidateApprovedCwdSnapshot :: "host \<Rightarrow> cwd_snapshot \<Rightarrow> bool" where
  "revalidateApprovedCwdSnapshot h snapshot = (case resolveCanonicalApprovalCwdSync h (sn_cwd snapshot) of Inl _ \<Rightarrow> False
     | Inr current \<Rightarrow> sameFileIdentity (hs_platform h) (sn_stat snapshot) (sn_stat current))"

section \<open>Pinned executables\<close>

record hardened_paths =
  hp_argv :: "string list"
  hp_cwd :: "string option"
  hp_snapshot :: "cwd_snapshot option"

definition shouldPinExecutableForApproval :: "string option \<Rightarrow> string list option \<Rightarrow> bool" where
  "shouldPinExecutableForApproval shellCommand wrapperChain = (if shellCommand \<noteq> None then False else length (nullish wrapperChain []) = 0)"

definition harden_cwd :: "host \<Rightarrow> string option \<Rightarrow> string + (string option \<times> cwd_snapshot option)" where
  "harden_cwd h cwd = (if nullish cwd [] = [] then Inr (cwd, None)
     else case resolveCanonicalApprovalCwdSync h (nullish cwd []) of Inl message \<Rightarrow> Inl message
       | Inr snapshot \<Rightarrow> Inr (Some (sn_cwd snapshot), Some snapshot))"

definition hardenApprovedExecutionPaths :: "host \<Rightarrow> bool \<Rightarrow> string list \<Rightarrow> string option \<Rightarrow> string option \<Rightarrow> string + hardened_paths" where
  "hardenApprovedExecutionPaths h approvedByAsk argv shellCommand cwd =
     (if \<not> approvedByAsk then Inr \<lparr>hp_argv = argv, hp_cwd = cwd, hp_snapshot = None\<rparr>
      else case harden_cwd h cwd of Inl message \<Rightarrow> Inl message
        | Inr (hardenedCwd, snapshot) \<Rightarrow>
            if argv = [] then Inr \<lparr>hp_argv = argv, hp_cwd = hardenedCwd, hp_snapshot = snapshot\<rparr>
            else let resolution = resolveCommandResolutionFromArgv h hardenedCwd None argv in
              if \<not> shouldPinExecutableForApproval shellCommand (case resolution of None \<Rightarrow> None | Some r \<Rightarrow> cr_wrapperChain r)
              then Inr \<lparr>hp_argv = argv, hp_cwd = hardenedCwd, hp_snapshot = snapshot\<rparr>
              else let pinnedExecutable = (case resolution of None \<Rightarrow> [] | Some r \<Rightarrow> nullish (nullish_opt (cr_resolvedRealPath r) (cr_resolvedPath r)) []) in
                if pinnedExecutable = [] then Inl ''SYSTEM_RUN_DENIED: approval requires a stable executable path''
                else Inr \<lparr>hp_argv = pinnedExecutable # tl argv, hp_cwd = hardenedCwd, hp_snapshot = snapshot\<rparr>)"

text \<open>\<open>command\<close> and \<open>rawCommand\<close> are given as for \<^term>\<open>resolveSystemRunCommand\<close>.\<close>

definition buildSystemRunApprovalPlan ::
  "host \<Rightarrow> string list option \<Rightarrow> string option \<Rightarrow> js_value \<Rightarrow> js_value \<Rightarrow> js_value \<Rightarrow> string + (run_plan \<times> string)" where
  "buildSystemRunApprovalPlan h command rawCommand cwd agentId sessionKey =
     (case resolveSystemRunCommand command rawCommand of Inl e \<Rightarrow> Inl (command_error_message e)
      | Inr c \<Rightarrow>
          if rc_argv c = [] then Inl ''command required''
          else case hardenApprovedExecutionPaths h True (rc_argv c) (rc_shellCommand c) (normalizeNonEmptyString cwd) of
            Inl message \<Rightarrow> Inl message
          | Inr hardening \<Rightarrow> Inr (\<lparr>rp_argv = hp_argv hardening, rp_cwd = hp_cwd hardening, rp_rawCommand = str_opt (trim (rc_cmdText c)),
               rp_agentId = normalizeNonEmptyString agentId, rp_sessionKey = normalizeNonEmptyString sessionKey\<rparr>, rc_cmdText c))"

section \<open>The policy\<close>

datatype exec_decision = DecideOnce | DecideAlways

definition resolveExecApprovalDecision :: "string option \<Rightarrow> exec_decision option" where
  "resolveExecApprovalDecision v = (if v = Some ''allow-once'' then Some DecideOnce else if v = Some ''allow-always'' then Some DecideAlways else None)"

definition formatSystemRunAllowlistMissMessage :: "bool \<Rightarrow> bool \<Rightarrow> string" where
  "formatSystemRunAllowlistMissMessage shellWrapperBlocked windowsShellWrapperBlocked =
     (if windowsShellWrapperBlocked then ''SYSTEM_RUN_DENIED: allowlist miss (Windows shell wrappers like cmd.exe /c require approval; approve once/always or run with --ask on-miss|always)''
      else if shellWrapperBlocked then ''SYSTEM_RUN_DENIED: allowlist miss (shell wrappers like sh/bash/zsh -c require approval; approve once/always or run with --ask on-miss|always)''
      else ''SYSTEM_RUN_DENIED: allowlist miss'')"

datatype denied_reason = SecurityDenied | ApprovalRequired | AllowlistMiss | ExecutionPlanMiss | CompanionUnavailable | ScreenRecordingMissing

fun denied_text :: "denied_reason \<Rightarrow> string" where
  "denied_text SecurityDenied = ''security=deny''"
| "denied_text ApprovalRequired = ''approval-required''"
| "denied_text AllowlistMiss = ''allowlist-miss''"
| "denied_text ExecutionPlanMiss = ''execution-plan-miss''"
| "denied_text CompanionUnavailable = ''companion-unavailable''"
| "denied_text ScreenRecordingMissing = ''permission:screenRecording''"

text \<open>\<open>po_denied\<close> is the reason and the message, None when the run is allowed.\<close>

record run_policy =
  po_denied :: "(denied_reason \<times> string) option"
  po_analysisOk :: bool
  po_allowlistSatisfied :: bool
  po_shellWrapperBlocked :: bool
  po_windowsShellWrapperBlocked :: bool
  po_requiresAsk :: bool
  po_approvalDecision :: "exec_decision option"
  po_approvedByAsk :: bool

definition evaluateSystemRunPolicy ::
  "exec_security \<Rightarrow> exec_ask \<Rightarrow> bool \<Rightarrow> bool \<Rightarrow> exec_decision option \<Rightarrow> bool \<Rightarrow> bool \<Rightarrow> bool \<Rightarrow> bool \<Rightarrow> run_policy" where
  "evaluateSystemRunPolicy security ask analysisOk0 allowlistSatisfied0 approvalDecision approved isWindows cmdInvocation shellWrapperInvocation =
     (let shellWrapperBlocked = (security = SecAllowlist \<and> shellWrapperInvocation);
          windowsShellWrapperBlocked = (shellWrapperBlocked \<and> isWindows \<and> cmdInvocation);
          analysisOk = (if shellWrapperBlocked then False else analysisOk0);
          allowlistSatisfied = (if shellWrapperBlocked then False else allowlistSatisfied0);
          approvedByAsk = (approvalDecision \<noteq> None \<or> approved);
          decide = (\<lambda>denied requiresAsk. \<lparr>po_denied = denied, po_analysisOk = analysisOk, po_allowlistSatisfied = allowlistSatisfied,
            po_shellWrapperBlocked = shellWrapperBlocked, po_windowsShellWrapperBlocked = windowsShellWrapperBlocked,
            po_requiresAsk = requiresAsk, po_approvalDecision = approvalDecision, po_approvedByAsk = approvedByAsk\<rparr>) in
      if security = SecDeny then decide (Some (SecurityDenied, ''SYSTEM_RUN_DISABLED: security=deny'')) False
      else let requiresAsk = requiresExecApproval ask security analysisOk allowlistSatisfied in
        if requiresAsk \<and> \<not> approvedByAsk then decide (Some (ApprovalRequired, ''SYSTEM_RUN_DENIED: approval required'')) requiresAsk
        else if security = SecAllowlist \<and> (\<not> analysisOk \<or> \<not> allowlistSatisfied) \<and> \<not> approvedByAsk
        then decide (Some (AllowlistMiss, formatSystemRunAllowlistMissMessage shellWrapperBlocked windowsShellWrapperBlocked)) requiresAsk
        else decide None requiresAsk)"

section \<open>The ancestors of a path\<close>

lemma path_dirname_fixed: "path_dirname p = p \<Longrightarrow> p = ''/'' \<or> p = ''.''"
proof (cases p)
  case (Cons c s)
  define k where "k = length (dropWhile (\<lambda>c. c \<noteq> slash) (dropWhile (\<lambda>c. c = slash) (rev s)))"
  note dir = path_dirname_Cons[OF k_def]
  assume "path_dirname p = p"
  hence fixed: "(if k = 0 then (if c = slash then ''/'' else ''.'') else if c = slash \<and> k = 1 then ''//'' else take k (c # s)) = c # s"
    using dir(1)[of c] Cons by simp
  have "length (take k (c # s)) \<noteq> length (c # s)" using dir(2) by simp
  hence "take k (c # s) \<noteq> c # s" by metis
  moreover have "k = 1 \<Longrightarrow> ''//'' \<noteq> c # s" using dir(3) by (cases s) auto
  ultimately show ?thesis using fixed Cons by (auto split: if_splits)
qed (simp add: path_dirname_def)

text \<open>Each path is the parent of the next, and differs from it.\<close>

fun ancestor_chain :: "string list \<Rightarrow> bool" where
  "ancestor_chain (a # b # cs) = (a = path_dirname b \<and> a \<noteq> b \<and> ancestor_chain (b # cs))"
| "ancestor_chain _ = True"

lemma path_components_chain:
  "ancestor_chain (cursor # parts) \<Longrightarrow>
   (\<exists>above. path_components cursor parts = above @ cursor # parts \<and> length above \<le> path_measure cursor) \<and>
   ancestor_chain (path_components cursor parts) \<and> hd (path_components cursor parts) \<in> {''/'', ''.''}"
proof (induction cursor parts rule: path_components.induct)
  case (1 cursor parts)
  show ?case
  proof (cases "path_dirname cursor = cursor")
    case True
    have "path_components cursor parts = cursor # parts" using True by (subst path_components.simps) (simp add: Let_def)
    thus ?thesis using 1(2) path_dirname_fixed[OF True] by (auto simp: path_measure_def)
  next
    case False
    have eq: "path_components cursor parts = path_components (path_dirname cursor) (cursor # parts)"
      using False by (subst path_components.simps) (simp add: Let_def)
    from 1(1)[OF refl False] 1(2) False obtain up where
      up: "path_components (path_dirname cursor) (cursor # parts) = up @ path_dirname cursor # cursor # parts"
      "length up \<le> path_measure (path_dirname cursor)"
      and rest: "ancestor_chain (path_components (path_dirname cursor) (cursor # parts))"
      "hd (path_components (path_dirname cursor) (cursor # parts)) \<in> {''/'', ''.''}" by auto
    have "length (up @ [path_dirname cursor]) \<le> path_measure cursor"
      using up(2) path_dirname_measure[OF False] by simp
    thus ?thesis using up(1) rest eq by (metis append.assoc append_Cons append_Nil)
  qed
qed

text \<open>
  C23: the search for symbolic links ends and misses no directory: for every path the loop over the
  parents stops, after at most two rounds more than the path has characters, and yields the resolved path preceded by all of
  its ancestors, each the parent of the next and different from it, up to the root (or the dot, where
  the working directory of the process is not absolute).
\<close>

theorem path_components_complete:
  "\<exists>above. pathComponentsFromRootSync h p = above @ [path_resolve h [p]] \<and> length above \<le> length (path_resolve h [p]) + 1 \<and>
     ancestor_chain (pathComponentsFromRootSync h p) \<and> hd (pathComponentsFromRootSync h p) \<in> {''/'', ''.''}"
  using path_components_chain[of "path_resolve h [p]" "[]"]
  by (auto simp: pathComponentsFromRootSync_def path_measure_def split: if_splits)

section \<open>What an approval is pinned to\<close>

text \<open>A directory with no symbolic link on its way that the process could replace: what the checks establish.\<close>

definition settled_directory :: "host \<Rightarrow> string \<Rightarrow> file_stat \<Rightarrow> bool" where
  "settled_directory h p st = (hs_stat h p = Some st \<and> st_isDirectory st \<and>
     (\<exists>l. hs_lstat h p = Some l \<and> \<not> st_isSymbolicLink l \<and> sameFileIdentity (hs_platform h) st l) \<and>
     (\<forall>component \<in> set (pathComponentsFromRootSync h p). \<exists>l. hs_lstat h component = Some l \<and>
        (st_isSymbolicLink l \<longrightarrow> \<not> hs_accessW h (path_dirname component))))"

lemma canonical_cwd:
  assumes "resolveCanonicalApprovalCwdSync h cwd = Inr snapshot"
  shows "settled_directory h (path_resolve h [cwd]) (sn_stat snapshot)" "hs_realpath h (path_resolve h [cwd]) = Some (sn_cwd snapshot)"
    "\<exists>st. hs_stat h (sn_cwd snapshot) = Some st \<and> sameFileIdentity (hs_platform h) (sn_stat snapshot) st"
  using assms
  by (auto simp: resolveCanonicalApprovalCwdSync_def settled_directory_def hasMutableSymlinkPathComponentSync_def list_ex_iff Let_def
      split: option.splits if_splits)

lemma revalidated_cwd:
  assumes "revalidateApprovedCwdSnapshot h snapshot"
  shows "\<exists>st. settled_directory h (path_resolve h [sn_cwd snapshot]) st \<and> sameFileIdentity (hs_platform h) (sn_stat snapshot) st"
  using assms canonical_cwd by (auto simp: revalidateApprovedCwdSnapshot_def split: sum.splits)

text \<open>The executable and the directory of an approved run.\<close>

definition pinned_argv :: "host \<Rightarrow> string option \<Rightarrow> string option \<Rightarrow> string list \<Rightarrow> string list \<Rightarrow> bool" where
  "pinned_argv h cwd shellCommand requested argv =
     (let resolution = resolveCommandResolutionFromArgv h cwd None requested in
      if requested = [] \<or> shellCommand \<noteq> None \<or> (\<exists>r. resolution = Some r \<and> nullish (cr_wrapperChain r) [] \<noteq> []) then argv = requested
      else \<exists>r p. resolution = Some r \<and> p = nullish (nullish_opt (cr_resolvedRealPath r) (cr_resolvedPath r)) [] \<and> p \<noteq> [] \<and> argv = p # tl requested)"

lemma hardened_argv:
  assumes "hardenApprovedExecutionPaths h True argv shellCommand cwd = Inr hardened"
  shows "pinned_argv h (hp_cwd hardened) shellCommand argv (hp_argv hardened)"
  using assms
  by (auto simp: hardenApprovedExecutionPaths_def pinned_argv_def shouldPinExecutableForApproval_def Let_def
      split: sum.splits if_splits option.splits)

lemma hardened_cwd:
  assumes "hardenApprovedExecutionPaths h True argv shellCommand cwd = Inr hardened"
  shows "if nullish cwd [] = [] then hp_cwd hardened = cwd \<and> hp_snapshot hardened = None
    else \<exists>snapshot. resolveCanonicalApprovalCwdSync h (nullish cwd []) = Inr snapshot \<and> hp_cwd hardened = Some (sn_cwd snapshot) \<and>
      hp_snapshot hardened = Some snapshot"
  using assms by (auto simp: hardenApprovedExecutionPaths_def harden_cwd_def Let_def split: sum.splits if_splits option.splits)

end
