(* ===== verification/SystemRun.thy ===== *)
theory SystemRun
  imports SystemRunPlan
begin

text \<open>
  A run request on a node, from its parameters to the command that is started
  (src/node-host/invoke-system-run.ts, src/node-host/invoke-system-run-allowlist.ts, the resolvers that
  src/node-host/invoke.ts hands in, and src/infra/exec-safe-bin-runtime-policy.ts). What the handler
  sends and starts is a trace of events in the order of the calls. The file system is given twice, at
  the time of the decision and at the time of the start; the configuration, the bins of the skills,
  the companion app, the started process, the clock and the random ids are arguments.
\<close>

section \<open>Safe bins in force\<close>

record exec_scope =
  es_security :: "string option"
  es_ask :: "string option"
  es_safeBins :: "string list option option"
  es_safeBinProfiles :: "(string, safe_bin_fixture) js_map option"
  es_safeBinTrustedDirs :: "string list option"

definition INTERPRETER_LIKE_SAFE_BINS :: "string list" where
  "INTERPRETER_LIKE_SAFE_BINS = [''ash'', ''bash'', ''busybox'', ''bun'', ''cmd'', ''cmd.exe'', ''cscript'', ''dash'', ''deno'', ''fish'', ''ksh'',
     ''lua'', ''node'', ''nodejs'', ''perl'', ''php'', ''powershell'', ''powershell.exe'', ''pypy'', ''pwsh'', ''pwsh.exe'', ''python'', ''python2'',
     ''python3'', ''ruby'', ''sh'', ''toybox'', ''wscript'', ''zsh'']"

text \<open>\<open>/^name\d+(?:\.\d+)?$/\<close>.\<close>

definition versioned_name :: "string \<Rightarrow> string \<Rightarrow> bool" where
  "versioned_name name s = (starts_with s name \<and>
     (let rest = drop (length name) s; tail = dropWhile ascii_digit rest in
      takeWhile ascii_digit rest \<noteq> [] \<and>
      (case tail of [] \<Rightarrow> True | c # ds \<Rightarrow> c = CHR ''.'' \<and> ds \<noteq> [] \<and> list_all ascii_digit ds)))"

definition INTERPRETER_LIKE_PATTERNS :: "string list" where
  "INTERPRETER_LIKE_PATTERNS = [''python'', ''ruby'', ''perl'', ''php'', ''node'']"

definition normalizeSafeBinName :: "string \<Rightarrow> string" where
  "normalizeSafeBinName raw = rev (takeWhile (\<lambda>c. c \<noteq> slash \<and> c \<noteq> backslash) (rev (to_lower (trim raw))))"

definition isInterpreterLikeSafeBin :: "string \<Rightarrow> bool" where
  "isInterpreterLikeSafeBin raw = (let normalized = normalizeSafeBinName raw in
     if normalized = [] then False
     else if normalized \<in> set INTERPRETER_LIKE_SAFE_BINS then True
     else list_ex (\<lambda>name. versioned_name name normalized) INTERPRETER_LIKE_PATTERNS)"

definition listInterpreterLikeSafeBins :: "string list \<Rightarrow> string list" where
  "listInterpreterLikeSafeBins entries = sort (filter (\<lambda>e. e \<noteq> [] \<and> isInterpreterLikeSafeBin e) (map normalizeSafeBinName entries))"

definition scope_fixtures :: "exec_scope option \<Rightarrow> (string, safe_bin_fixture) js_map option" where
  "scope_fixtures scope = (case scope of None \<Rightarrow> None | Some s \<Rightarrow> es_safeBinProfiles s)"

definition resolveMergedSafeBinProfileFixtures ::
  "(string list \<Rightarrow> string list) \<Rightarrow> exec_scope option \<Rightarrow> exec_scope option \<Rightarrow> (string, safe_bin_fixture) js_map option" where
  "resolveMergedSafeBinProfileFixtures collate globalScope localScope =
     (let g = normalizeSafeBinProfileFixtures collate (scope_fixtures globalScope);
          l = normalizeSafeBinProfileFixtures collate (scope_fixtures localScope) in
      if g = [] \<and> l = [] then None else Some (fold (\<lambda>(name, f). map_set name f) l g))"

text \<open>\<open>a ?? b\<close> on a member that can be undefined (outer option) or null (inner option).\<close>

definition scope_safeBins :: "exec_scope option \<Rightarrow> string list option option" where
  "scope_safeBins scope = (case scope of None \<Rightarrow> None | Some s \<Rightarrow> es_safeBins s)"

definition chosen_safeBins :: "exec_scope option \<Rightarrow> exec_scope option \<Rightarrow> string list option option" where
  "chosen_safeBins globalScope localScope = (case scope_safeBins localScope of Some (Some bins) \<Rightarrow> Some (Some bins) | _ \<Rightarrow> scope_safeBins globalScope)"

definition scope_dirs :: "exec_scope option \<Rightarrow> string list option" where
  "scope_dirs scope = (case scope of None \<Rightarrow> None | Some s \<Rightarrow> es_safeBinTrustedDirs s)"

record runtime_policy =
  rt_safeBins :: "string list"
  rt_safeBinProfiles :: "(string, safe_bin_profile) js_map"
  rt_trustedSafeBinDirs :: "string list"
  rt_unprofiledSafeBins :: "string list"
  rt_unprofiledInterpreterSafeBins :: "string list"
  rt_writableTrustedSafeBinDirs :: "writable_dir list"

definition resolveExecSafeBinRuntimePolicy ::
  "host \<Rightarrow> (string list \<Rightarrow> string list) \<Rightarrow> exec_scope option \<Rightarrow> exec_scope option \<Rightarrow> runtime_policy" where
  "resolveExecSafeBinRuntimePolicy h collate globalScope localScope =
     (let safeBins = resolveSafeBins (chosen_safeBins globalScope localScope);
          profiles = resolveSafeBinProfiles collate (resolveMergedSafeBinProfileFixtures collate globalScope localScope);
          unprofiled = sort (filter (\<lambda>entry. profile_of profiles entry = None) safeBins);
          explicitDirs = normalizeTrustedSafeBinDirs (scope_dirs globalScope) @ normalizeTrustedSafeBinDirs (scope_dirs localScope) in
      \<lparr>rt_safeBins = safeBins, rt_safeBinProfiles = profiles,
       rt_trustedSafeBinDirs = buildTrustedSafeBinDirs h None (Some explicitDirs),
       rt_unprofiledSafeBins = unprofiled, rt_unprofiledInterpreterSafeBins = listInterpreterLikeSafeBins unprofiled,
       rt_writableTrustedSafeBinDirs = listWritableExplicitTrustedSafeBinDirs h (Some explicitDirs)\<rparr>)"

definition writable_dir_warning :: "writable_dir \<Rightarrow> string" where
  "writable_dir_warning hit = ''exec: safeBinTrustedDirs includes '' @
     (if wd_worldWritable hit \<or> wd_groupWritable hit then (if wd_worldWritable hit then ''world-writable'' else ''group-writable'') else ''writable'') @
     '' directory '' @ squote # wd_dir hit @ squote # ''; remove trust or tighten permissions (for example chmod 755).''"

section \<open>Values that invoke.ts hands in\<close>

definition resolveExecSecurity :: "string option \<Rightarrow> exec_security" where
  "resolveExecSecurity v = (if v = Some ''deny'' then SecDeny else if v = Some ''allowlist'' then SecAllowlist
     else if v = Some ''full'' then SecFull else SecAllowlist)"

definition resolveExecAsk :: "string option \<Rightarrow> exec_ask" where
  "resolveExecAsk v = (if v = Some ''off'' then AskOff else if v = Some ''on-miss'' then AskOnMiss
     else if v = Some ''always'' then AskAlways else AskOnMiss)"

definition isCmdExeInvocation :: "string list \<Rightarrow> bool" where
  "isCmdExeInvocation argv = (let token = (case argv of [] \<Rightarrow> [] | t # _ \<Rightarrow> trim t) in
     if token = [] then False else let base = to_lower (win32_basename token) in base = ''cmd.exe'' \<or> base = ''cmd'')"

definition sanitizeEnv :: "host \<Rightarrow> (string \<times> js_value) list option \<Rightarrow> (string, string) js_map" where
  "sanitizeEnv h overrides = sanitizeHostExecEnv (map (\<lambda>(k, v). (k, Some v)) (hs_env h)) overrides True"

section \<open>The allowlist of a request\<close>

record run_analysis =
  ra_ok :: bool
  ra_matches :: "allowlist_entry list"
  ra_satisfied :: bool
  ra_segments :: "exec_segment list"

definition evaluateSystemRunAllowlist ::
  "host \<Rightarrow> allowlist_context \<Rightarrow> (string, string) js_map option \<Rightarrow> exec_security \<Rightarrow> string option \<Rightarrow> string list \<Rightarrow> run_analysis" where
  "evaluateSystemRunAllowlist h ctx env security shellCommand argv =
     (if nullish shellCommand [] \<noteq> [] then
        (let ev = evaluateShellAllowlist h (ctx\<lparr>ac_platform := Some (hs_platform h)\<rparr>) env (nullish shellCommand []) in
         \<lparr>ra_ok = aa_ok ev, ra_matches = aa_matches ev,
          ra_satisfied = (if security = SecAllowlist \<and> aa_ok ev then aa_satisfied ev else False), ra_segments = aa_segments ev\<rparr>)
      else
        (let analysis = analyzeArgvCommand h (ac_cwd ctx) env argv; ev = evaluateExecAllowlist h (ctx\<lparr>ac_platform := None\<rparr>) analysis in
         \<lparr>ra_ok = an_ok analysis, ra_matches = ev_matches ev,
          ra_satisfied = (if security = SecAllowlist \<and> an_ok analysis then ev_satisfied ev else False), ra_segments = an_segments analysis\<rparr>))"

text \<open>\<open>undefined\<close>, \<open>null\<close> and an argument vector.\<close>

datatype planned_argv = NoPlan | PlanMissing | Planned "string list"

definition resolvePlannedAllowlistArgv :: "exec_security \<Rightarrow> string option \<Rightarrow> run_policy \<Rightarrow> exec_segment list \<Rightarrow> planned_argv" where
  "resolvePlannedAllowlistArgv security shellCommand policy segments =
     (if security \<noteq> SecAllowlist \<or> po_approvedByAsk policy \<or> nullish shellCommand [] \<noteq> [] \<or> \<not> po_analysisOk policy \<or>
         \<not> po_allowlistSatisfied policy \<or> length segments \<noteq> 1
      then NoPlan
      else case resolvePlannedSegmentArgv (hd segments) of None \<Rightarrow> PlanMissing
        | Some argv \<Rightarrow> if length argv > 0 then Planned argv else PlanMissing)"

definition resolveSystemRunExecArgv ::
  "string list option \<Rightarrow> string list \<Rightarrow> exec_security \<Rightarrow> bool \<Rightarrow> run_policy \<Rightarrow> string option \<Rightarrow> exec_segment list \<Rightarrow> string list" where
  "resolveSystemRunExecArgv planned argv security isWindows policy shellCommand segments =
     (if security = SecAllowlist \<and> isWindows \<and> \<not> po_approvedByAsk policy \<and> nullish shellCommand [] \<noteq> [] \<and> po_analysisOk policy \<and>
         po_allowlistSatisfied policy \<and> length segments = 1 \<and> length (sg_argv (hd segments)) > 0
      then sg_argv (hd segments) else nullish planned argv)"

section \<open>Results and events\<close>

record host_result =
  hr_exitCode :: "int option"
  hr_timedOut :: bool
  hr_success :: bool
  hr_stdout :: string
  hr_stderr :: string
  hr_error :: "string option"

record run_result = host_result +
  rr_truncated :: bool

definition applyOutputTruncation :: "run_result \<Rightarrow> run_result" where
  "applyOutputTruncation r = (if \<not> rr_truncated r then r
     else let suffix = ''... (truncated)'' in
       if length (trim (hr_stderr r)) > 0 then r\<lparr>hr_stderr := hr_stderr r @ newline # suffix\<rparr>
       else r\<lparr>hr_stdout := hr_stdout r @ newline # suffix\<rparr>)"

definition truncateOutput :: "string \<Rightarrow> nat \<Rightarrow> string \<times> bool" where
  "truncateOutput raw maxChars = (if length raw \<le> maxChars then (raw, False)
     else (''... (truncated) '' @ drop (length raw - maxChars) raw, True))"

definition OUTPUT_EVENT_TAIL :: nat where "OUTPUT_EVENT_TAIL = 20000"

definition event_output :: "string \<Rightarrow> string" where
  "event_output output = (if output = [] then output else let trimmed = trim output in
     if trimmed = [] then output else fst (truncateOutput trimmed OUTPUT_EVENT_TAIL))"

definition finished_output :: "host_result \<Rightarrow> string" where
  "finished_output r = event_output (join_with [newline] (filter (\<lambda>t. t \<noteq> []) [hr_stdout r, hr_stderr r, nullish (hr_error r) []]))"

record host_request =
  hq_command :: "string list"
  hq_rawCommand :: "string option"
  hq_cwd :: "string option"
  hq_env :: "(string \<times> js_value) list option"
  hq_timeoutMs :: "int option"
  hq_needsScreenRecording :: bool
  hq_agentId :: "string option"
  hq_sessionKey :: string
  hq_approvalDecision :: "exec_decision option"

datatype host_response = HostDone host_result | HostRefused string "string option"

record exec_context =
  xc_sessionKey :: string
  xc_runId :: string
  xc_cmdText :: string

datatype node_answer = AnswerOk host_result | AnswerError string string

text \<open>An event is sent to the gateway, asks the companion app, or starts a process.\<close>

datatype run_event = ExecDenied exec_context denied_reason | ExecFinished exec_context host_result string | Answer node_answer
  | AskedCompanion host_request | Started "string list" "string option" "(string, string) js_map" "int option"

definition sendSystemRunDenied :: "exec_context \<Rightarrow> denied_reason \<Rightarrow> string \<Rightarrow> run_event list" where
  "sendSystemRunDenied execution reason message = [ExecDenied execution reason, Answer (AnswerError ''UNAVAILABLE'' message)]"

definition normalizeDeniedReason :: "string option \<Rightarrow> denied_reason" where
  "normalizeDeniedReason reason =
     (case find (\<lambda>r. reason = Some (denied_text r)) [SecurityDenied, ApprovalRequired, AllowlistMiss, ExecutionPlanMiss, CompanionUnavailable, ScreenRecordingMissing] of
        Some r \<Rightarrow> r | None \<Rightarrow> ApprovalRequired)"

section \<open>What the handler is given\<close>

record system_run_params =
  sr_command :: "string list"
  sr_rawCommand :: "string option"
  sr_cwd :: "string option"
  sr_env :: "(string \<times> js_value) list option"
  sr_timeoutMs :: "int option"
  sr_needsScreenRecording :: "bool option"
  sr_agentId :: "string option"
  sr_sessionKey :: "string option"
  sr_approved :: "bool option"
  sr_approvalDecision :: "string option"
  sr_runId :: "string option"

text \<open>
  \<open>rd_exec\<close> and \<open>rd_agent_exec\<close> are the \<open>tools.exec\<close> members of the configuration and of the agent;
  \<open>rd_start_host\<close> is the file system when the command is started; \<open>rd_contents\<close> is the settings file on disk.
\<close>

record run_deps =
  rd_host :: host
  rd_start_host :: host
  rd_exec :: "exec_scope option"
  rd_agent_exec :: "string \<Rightarrow> exec_scope option"
  rd_skillBins :: "(string \<times> string) list"
  rd_collate :: "string list \<Rightarrow> string list"
  rd_stateDir :: string
  rd_generatedToken :: string
  rd_contents :: "approvals_file option"
  rd_uuid :: "nat \<Rightarrow> string"
  rd_newId :: "nat \<Rightarrow> string"
  rd_newRunId :: string
  rd_now :: int
  rd_preferMacAppExecHost :: bool
  rd_execHostEnforced :: bool
  rd_execHostFallbackAllowed :: bool
  rd_companion :: "string \<Rightarrow> string \<Rightarrow> host_request \<Rightarrow> host_response option"
  rd_runCommand :: "string list \<Rightarrow> string option \<Rightarrow> (string, string) js_map \<Rightarrow> int option \<Rightarrow> run_result"

definition runViaMacAppExecHost :: "run_deps \<Rightarrow> approvals_resolved \<Rightarrow> host_request \<Rightarrow> host_response option" where
  "runViaMacAppExecHost d approvals request =
     (if xr_socketPath approvals = [] \<or> xr_token approvals = [] then None
      else rd_companion d (xr_socketPath approvals) (xr_token approvals) request)"

section \<open>Parsing the request\<close>

record parse_phase =
  pp_argv :: "string list"
  pp_shellCommand :: "string option"
  pp_execution :: exec_context
  pp_agentId :: "string option"
  pp_approvalDecision :: "exec_decision option"
  pp_envOverrides :: "(string \<times> js_value) list option"
  pp_env :: "(string, string) js_map"
  pp_cwd :: "string option"
  pp_timeoutMs :: "int option"
  pp_needsScreenRecording :: bool
  pp_approved :: bool

definition opt_trimmed :: "string option \<Rightarrow> string option" where
  "opt_trimmed v = (case v of None \<Rightarrow> None | Some t \<Rightarrow> str_opt (trim t))"

definition parseSystemRunPhase :: "run_deps \<Rightarrow> system_run_params \<Rightarrow> run_event list + parse_phase" where
  "parseSystemRunPhase d params = (case resolveSystemRunCommand (Some (sr_command params)) (sr_rawCommand params) of
       Inl e \<Rightarrow> Inl [Answer (AnswerError ''INVALID_REQUEST'' (command_error_message e))]
     | Inr c \<Rightarrow>
         if length (rc_argv c) = 0 then Inl [Answer (AnswerError ''INVALID_REQUEST'' ''command required'')]
         else let envOverrides = sanitizeSystemRunEnvOverrides (sr_env params) (rc_shellCommand c \<noteq> None) in
           Inr \<lparr>pp_argv = rc_argv c, pp_shellCommand = rc_shellCommand c,
             pp_execution = \<lparr>xc_sessionKey = nullish (opt_trimmed (sr_sessionKey params)) ''node'',
               xc_runId = nullish (opt_trimmed (sr_runId params)) (rd_newRunId d), xc_cmdText = rc_cmdText c\<rparr>,
             pp_agentId = opt_trimmed (sr_agentId params), pp_approvalDecision = resolveExecApprovalDecision (sr_approvalDecision params),
             pp_envOverrides = envOverrides, pp_env = sanitizeEnv (rd_host d) envOverrides, pp_cwd = opt_trimmed (sr_cwd params),
             pp_timeoutMs = sr_timeoutMs params, pp_needsScreenRecording = (sr_needsScreenRecording params = Some True),
             pp_approved = (sr_approved params = Some True)\<rparr>)"

section \<open>The decision\<close>

record policy_phase = parse_phase +
  qp_approvals :: approvals_resolved
  qp_policy :: run_policy
  qp_matches :: "allowlist_entry list"
  qp_segments :: "exec_segment list"
  qp_planned :: "string list option"
  qp_snapshot :: "cwd_snapshot option"

definition agent_scope :: "run_deps \<Rightarrow> parse_phase \<Rightarrow> exec_scope option" where
  "agent_scope d parsed = (case pp_agentId parsed of None \<Rightarrow> None | Some agentId \<Rightarrow> rd_agent_exec d agentId)"

definition scope_text :: "(exec_scope \<Rightarrow> string option) \<Rightarrow> exec_scope option \<Rightarrow> string option" where
  "scope_text member scope = (case scope of None \<Rightarrow> None | Some s \<Rightarrow> member s)"

definition run_approvals :: "run_deps \<Rightarrow> parse_phase \<Rightarrow> approvals_resolved option" where
  "run_approvals d parsed = (let agentExec = agent_scope d parsed in
     resolveExecApprovals (rd_host d) (rd_uuid d) 0 (rd_stateDir d) (rd_generatedToken d) (rd_contents d) (pp_agentId parsed)
       \<lparr>xo_security = Some (resolveExecSecurity (nullish_opt (scope_text es_security agentExec) (scope_text es_security (rd_exec d)))),
        xo_ask = Some (resolveExecAsk (nullish_opt (scope_text es_ask agentExec) (scope_text es_ask (rd_exec d)))),
        xo_askFallback = None, xo_autoAllowSkills = None\<rparr>)"

definition run_context :: "run_deps \<Rightarrow> parse_phase \<Rightarrow> approvals_resolved \<Rightarrow> allowlist_context" where
  "run_context d parsed approvals =
     (let runtime = resolveExecSafeBinRuntimePolicy (rd_host d) (rd_collate d) (rd_exec d) (agent_scope d parsed);
          autoAllowSkills = xs_autoAllowSkills (xr_agent approvals) in
      \<lparr>ac_allowlist = xr_allowlist approvals, ac_safeBins = rt_safeBins runtime, ac_safeBinProfiles = Some (rt_safeBinProfiles runtime),
       ac_cwd = pp_cwd parsed, ac_platform = None, ac_trustedSafeBinDirs = Some (rt_trustedSafeBinDirs runtime),
       ac_skillBins = Some (if autoAllowSkills then rd_skillBins d else []), ac_autoAllowSkills = Some autoAllowSkills\<rparr>)"

definition APPROVAL_CWD_DRIFT_DENIED_MESSAGE :: string where
  "APPROVAL_CWD_DRIFT_DENIED_MESSAGE = ''SYSTEM_RUN_DENIED: approval cwd changed before execution''"

text \<open>What follows the policy once it allows the run.\<close>

definition plan_allowed_run ::
  "run_deps \<Rightarrow> parse_phase \<Rightarrow> approvals_resolved \<Rightarrow> run_analysis \<Rightarrow> run_policy \<Rightarrow> run_event list + policy_phase" where
  "plan_allowed_run d parsed approvals analysis policy =
     (let security = xs_security (xr_agent approvals); denied = sendSystemRunDenied (pp_execution parsed) in
      if security = SecAllowlist \<and> nullish (pp_shellCommand parsed) [] \<noteq> [] \<and> \<not> po_approvedByAsk policy
      then Inl (denied ApprovalRequired ''SYSTEM_RUN_DENIED: approval required'')
      else case hardenApprovedExecutionPaths (rd_host d) (po_approvedByAsk policy) (pp_argv parsed) (pp_shellCommand parsed) (pp_cwd parsed) of
        Inl message \<Rightarrow> Inl (denied ApprovalRequired message)
      | Inr hardened \<Rightarrow>
          let snapshot = (if po_approvedByAsk policy then hp_snapshot hardened else None) in
          if po_approvedByAsk policy \<and> nullish (hp_cwd hardened) [] \<noteq> [] \<and> snapshot = None
          then Inl (denied ApprovalRequired APPROVAL_CWD_DRIFT_DENIED_MESSAGE)
          else let planned = resolvePlannedAllowlistArgv security (pp_shellCommand parsed) policy (ra_segments analysis) in
            if planned = PlanMissing then Inl (denied ExecutionPlanMiss ''SYSTEM_RUN_DENIED: execution plan mismatch'')
            else Inr (parse_phase.extend (parsed\<lparr>pp_argv := hp_argv hardened, pp_cwd := hp_cwd hardened\<rparr>)
              (policy_phase.fields approvals policy (ra_matches analysis) (ra_segments analysis)
                 (case planned of Planned argv \<Rightarrow> Some argv | _ \<Rightarrow> None) snapshot)))"

definition run_policy_of :: "run_deps \<Rightarrow> parse_phase \<Rightarrow> approvals_resolved \<Rightarrow> run_analysis \<Rightarrow> run_policy" where
  "run_policy_of d parsed approvals analysis =
     evaluateSystemRunPolicy (xs_security (xr_agent approvals)) (xs_ask (xr_agent approvals)) (ra_ok analysis) (ra_satisfied analysis)
       (pp_approvalDecision parsed) (pp_approved parsed) (hs_platform (rd_host d) = ''win32'')
       (if nullish (pp_shellCommand parsed) [] \<noteq> [] then isCmdExeInvocation (case ra_segments analysis of [] \<Rightarrow> [] | seg # _ \<Rightarrow> sg_argv seg)
        else isCmdExeInvocation (pp_argv parsed))
       (pp_shellCommand parsed \<noteq> None)"

definition run_analysis_of :: "run_deps \<Rightarrow> parse_phase \<Rightarrow> approvals_resolved \<Rightarrow> run_analysis" where
  "run_analysis_of d parsed approvals = evaluateSystemRunAllowlist (rd_host d) (run_context d parsed approvals) (Some (pp_env parsed))
     (xs_security (xr_agent approvals)) (pp_shellCommand parsed) (pp_argv parsed)"

text \<open>The settings can always be read: lemma \<open>approvals_always_resolve\<close>; without them nothing is sent.\<close>

definition evaluateSystemRunPolicyPhase :: "run_deps \<Rightarrow> parse_phase \<Rightarrow> run_event list + policy_phase" where
  "evaluateSystemRunPolicyPhase d parsed = (case run_approvals d parsed of None \<Rightarrow> Inl []
     | Some approvals \<Rightarrow>
         let analysis = run_analysis_of d parsed approvals; policy = run_policy_of d parsed approvals analysis in
         case po_denied policy of
           Some (reason, message) \<Rightarrow> Inl (sendSystemRunDenied (pp_execution parsed) reason message)
         | None \<Rightarrow> plan_allowed_run d parsed approvals analysis policy)"

section \<open>The execution\<close>

definition remember_pattern :: "run_deps \<Rightarrow> string option \<Rightarrow> string \<Rightarrow> approvals_file \<times> nat \<Rightarrow> approvals_file \<times> nat" where
  "remember_pattern d agentId pattern st = (case st of (file, n) \<Rightarrow>
     if pattern = [] then st else (addAllowlistEntry (rd_newId d n) (rd_now d) file agentId pattern, n + 1))"

definition remember_decision :: "run_deps \<Rightarrow> policy_phase \<Rightarrow> approvals_file \<times> nat \<Rightarrow> approvals_file \<times> nat" where
  "remember_decision d phase st =
     (if po_approvalDecision (qp_policy phase) = Some DecideAlways \<and> xs_security (xr_agent (qp_approvals phase)) = SecAllowlist \<and> po_analysisOk (qp_policy phase)
      then fold (remember_pattern d (pp_agentId phase))
        (resolveAllowAlwaysPatterns (rd_start_host d) (pp_cwd phase) (Some (pp_env phase)) (Some (hs_platform (rd_start_host d))) (qp_segments phase)) st
      else st)"

fun remember_uses :: "run_deps \<Rightarrow> policy_phase \<Rightarrow> string list \<Rightarrow> allowlist_entry list \<Rightarrow> approvals_file \<times> nat \<Rightarrow> approvals_file \<times> nat" where
  "remember_uses d phase seen [] st = st"
| "remember_uses d phase seen (m # ms) (file, n) =
     (if al_pattern m = [] \<or> al_pattern m \<in> set seen then remember_uses d phase seen ms (file, n)
      else remember_uses d phase (al_pattern m # seen) ms
        (recordAllowlistUse (\<lambda>i. rd_newId d (n + i)) (rd_now d) file (pp_agentId phase) m (xc_cmdText (pp_execution phase))
           (case qp_segments phase of [] \<Rightarrow> None | seg # _ \<Rightarrow> (case sg_resolution seg of None \<Rightarrow> None | Some r \<Rightarrow> cr_resolvedPath r)),
         n + length (nullish (xa_allowlist (snd (target_agent file (pp_agentId phase)))) [])))"

definition companion_request :: "policy_phase \<Rightarrow> host_request" where
  "companion_request phase =
     \<lparr>hq_command = nullish (qp_planned phase) (pp_argv phase), hq_rawCommand = str_opt (xc_cmdText (pp_execution phase)), hq_cwd = pp_cwd phase,
      hq_env = pp_envOverrides phase, hq_timeoutMs = pp_timeoutMs phase, hq_needsScreenRecording = pp_needsScreenRecording phase,
      hq_agentId = pp_agentId phase, hq_sessionKey = xc_sessionKey (pp_execution phase), hq_approvalDecision = pp_approvalDecision phase\<rparr>"

record run_outcome =
  ro_trace :: "run_event list"
  ro_file :: "approvals_file option"

definition sendFinished :: "exec_context \<Rightarrow> host_result \<Rightarrow> run_event list" where
  "sendFinished execution r = [ExecFinished execution r (finished_output r), Answer (AnswerOk r)]"

text \<open>The part that runs on the node; \<open>ro_file\<close> is the settings file that is left.\<close>

definition run_locally :: "run_deps \<Rightarrow> policy_phase \<Rightarrow> run_event list \<Rightarrow> run_outcome" where
  "run_locally d phase sent =
     (let file = fst (remember_uses d phase [] (qp_matches phase) (remember_decision d phase (xr_file (qp_approvals phase), 0))) in
      if pp_needsScreenRecording phase
      then \<lparr>ro_trace = sent @ sendSystemRunDenied (pp_execution phase) ScreenRecordingMissing ''PERMISSION_MISSING: screenRecording'', ro_file = Some file\<rparr>
      else let execArgv = resolveSystemRunExecArgv (qp_planned phase) (pp_argv phase) (xs_security (xr_agent (qp_approvals phase)))
                 (hs_platform (rd_host d) = ''win32'') (qp_policy phase) (pp_shellCommand phase) (qp_segments phase);
               result = applyOutputTruncation (rd_runCommand d execArgv (pp_cwd phase) (pp_env phase) (pp_timeoutMs phase)) in
        \<lparr>ro_trace = sent @ [Started execArgv (pp_cwd phase) (pp_env phase) (pp_timeoutMs phase)] @ sendFinished (pp_execution phase) (host_result.truncate result),
         ro_file = Some file\<rparr>)"

definition executeSystemRunPhase :: "run_deps \<Rightarrow> policy_phase \<Rightarrow> run_outcome" where
  "executeSystemRunPhase d phase =
     (let denied = sendSystemRunDenied (pp_execution phase) in
      if (case qp_snapshot phase of None \<Rightarrow> False | Some snapshot \<Rightarrow> \<not> revalidateApprovedCwdSnapshot (rd_start_host d) snapshot)
      then \<lparr>ro_trace = denied ApprovalRequired APPROVAL_CWD_DRIFT_DENIED_MESSAGE, ro_file = None\<rparr>
      else if \<not> rd_preferMacAppExecHost d then run_locally d phase []
      else let asked = [AskedCompanion (companion_request phase)] in
        case runViaMacAppExecHost d (qp_approvals phase) (companion_request phase) of
          None \<Rightarrow> if rd_execHostEnforced d \<or> \<not> rd_execHostFallbackAllowed d
            then \<lparr>ro_trace = asked @ denied CompanionUnavailable ''COMPANION_APP_UNAVAILABLE: macOS app exec host unreachable'', ro_file = None\<rparr>
            else run_locally d phase asked
        | Some (HostRefused message reason) \<Rightarrow> \<lparr>ro_trace = asked @ denied (normalizeDeniedReason reason) message, ro_file = None\<rparr>
        | Some (HostDone result) \<Rightarrow> \<lparr>ro_trace = asked @ sendFinished (pp_execution phase) result, ro_file = None\<rparr>)"

definition handleSystemRunInvoke :: "run_deps \<Rightarrow> system_run_params \<Rightarrow> run_outcome" where
  "handleSystemRunInvoke d params = (case parseSystemRunPhase d params of
       Inl events \<Rightarrow> \<lparr>ro_trace = events, ro_file = None\<rparr>
     | Inr parsed \<Rightarrow> (case evaluateSystemRunPolicyPhase d parsed of
          Inl events \<Rightarrow> \<lparr>ro_trace = events, ro_file = None\<rparr>
        | Inr phase \<Rightarrow> executeSystemRunPhase d phase))"

section \<open>What can be ordered without an approval\<close>

text \<open>The command of an event, to the companion app or to the system, with its directory.\<close>

fun ordered :: "run_event \<Rightarrow> (string list \<times> string option) option" where
  "ordered (Started argv cwd env timeoutMs) = Some (argv, cwd)"
| "ordered (AskedCompanion request) = Some (hq_command request, hq_cwd request)"
| "ordered _ = None"

definition approved_request :: "parse_phase \<Rightarrow> bool" where
  "approved_request parsed = (pp_approvalDecision parsed \<noteq> None \<or> pp_approved parsed)"

lemma policy_exact:
  assumes "policy = evaluateSystemRunPolicy security ask ok sat decision approved win cmd sh"
  shows "po_denied policy = (let by_hand = decision \<noteq> None \<or> approved; passed = ok \<and> sat \<and> \<not> sh in
      if security = SecDeny then Some (SecurityDenied, ''SYSTEM_RUN_DISABLED: security=deny'')
      else if by_hand then None
      else if ask = AskAlways \<or> (ask = AskOnMiss \<and> security = SecAllowlist \<and> \<not> passed)
        then Some (ApprovalRequired, ''SYSTEM_RUN_DENIED: approval required'')
      else if security = SecAllowlist \<and> \<not> passed
        then Some (AllowlistMiss, formatSystemRunAllowlistMissMessage sh (sh \<and> win \<and> cmd))
      else None)"
    "po_approvedByAsk policy = (decision \<noteq> None \<or> approved)"
    "security = SecAllowlist \<Longrightarrow> po_analysisOk policy = (ok \<and> \<not> sh)" "security = SecAllowlist \<Longrightarrow> po_allowlistSatisfied policy = (sat \<and> \<not> sh)"
  unfolding assms evaluateSystemRunPolicy_def requiresExecApproval_def Let_def by (cases security; cases sh; auto)+

lemma started_argv_satisfied:
  assumes "ra_satisfied (evaluateSystemRunAllowlist h ctx env security shellCommand argv)" "nullish shellCommand [] = []"
  shows "\<exists>seg by. ra_segments (evaluateSystemRunAllowlist h ctx env security shellCommand argv) = [seg] \<and>
    seg = (let words = filter (\<lambda>w. trim w \<noteq> []) argv in segment_of h (ac_cwd ctx) env (join_with '' '' words) words) \<and>
    \<not> policy_blocked seg \<and> vouches h (ctx\<lparr>ac_platform := None\<rparr>) seg by"
proof -
  let ?a = "analyzeArgvCommand h (ac_cwd ctx) env argv"
  have ra: "ra_segments (evaluateSystemRunAllowlist h ctx env security shellCommand argv) = an_segments ?a"
    using assms(2) by (simp add: evaluateSystemRunAllowlist_def Let_def)
  have "ev_satisfied (evaluateExecAllowlist h (ctx\<lparr>ac_platform := None\<rparr>) ?a)"
    using assms by (simp add: evaluateSystemRunAllowlist_def Let_def split: if_splits)
  from analysis_satisfied[OF this analysis_well_grouped(2)] have sat: "an_ok ?a"
    "list_all2 (satisfied_segment h (ctx\<lparr>ac_platform := None\<rparr>)) (an_segments ?a) (ev_by (evaluateExecAllowlist h (ctx\<lparr>ac_platform := None\<rparr>) ?a))"
    by blast+
  let ?seg = "let words = filter (\<lambda>w. trim w \<noteq> []) argv in segment_of h (ac_cwd ctx) env (join_with '' '' words) words"
  have seg: "an_segments ?a = [?seg]"
    using sat(1) by (auto simp: analyzeArgvCommand_def analysis_failed_def analysis_of_def Let_def split: if_splits)
  with sat(2) obtain b where "satisfied_segment h (ctx\<lparr>ac_platform := None\<rparr>) ?seg b" by (auto simp: list_all2_Cons1)
  thus ?thesis using ra seg by (auto simp: satisfied_segment_def simp del: vouches.simps)
qed

text \<open>What a planned run orders.\<close>

lemma executed_order:
  assumes "e \<in> set (ro_trace (executeSystemRunPhase d phase))" "ordered e = Some (argv, cwd)"
  shows "cwd = pp_cwd phase" "case qp_snapshot phase of None \<Rightarrow> True | Some s \<Rightarrow> revalidateApprovedCwdSnapshot (rd_start_host d) s"
    "argv = nullish (qp_planned phase) (pp_argv phase) \<or>
     argv = resolveSystemRunExecArgv (qp_planned phase) (pp_argv phase) (xs_security (xr_agent (qp_approvals phase)))
       (hs_platform (rd_host d) = ''win32'') (qp_policy phase) (pp_shellCommand phase) (qp_segments phase)"
  using assms
  by (auto simp: executeSystemRunPhase_def run_locally_def sendSystemRunDenied_def sendFinished_def companion_request_def Let_def
      split: option.splits host_response.splits if_splits)

lemma parsed_fields [simp]:
  "parse_phase.more (parse_phase.extend r x) = x"
  "pp_argv (parse_phase.extend r x) = pp_argv r" "pp_cwd (parse_phase.extend r x) = pp_cwd r"
  "pp_shellCommand (parse_phase.extend r x) = pp_shellCommand r"
  "qp_policy (parse_phase.extend r (policy_phase.fields a p m s pl sn)) = p"
  "qp_approvals (parse_phase.extend r (policy_phase.fields a p m s pl sn)) = a"
  "qp_segments (parse_phase.extend r (policy_phase.fields a p m s pl sn)) = s"
  "qp_planned (parse_phase.extend r (policy_phase.fields a p m s pl sn)) = pl"
  "qp_snapshot (parse_phase.extend r (policy_phase.fields a p m s pl sn)) = sn"
  by (simp_all add: parse_phase.defs policy_phase.defs)

lemma planned_run:
  assumes "plan_allowed_run d parsed approvals analysis policy = Inr phase"
  shows "\<exists>hardened. hardenApprovedExecutionPaths (rd_host d) (po_approvedByAsk policy) (pp_argv parsed) (pp_shellCommand parsed) (pp_cwd parsed) = Inr hardened \<and>
      pp_argv phase = hp_argv hardened \<and> pp_cwd phase = hp_cwd hardened \<and> pp_shellCommand phase = pp_shellCommand parsed \<and>
      qp_snapshot phase = (if po_approvedByAsk policy then hp_snapshot hardened else None) \<and>
      (po_approvedByAsk policy \<longrightarrow> nullish (hp_cwd hardened) [] \<noteq> [] \<longrightarrow> hp_snapshot hardened \<noteq> None)"
    "qp_policy phase = policy" "qp_approvals phase = approvals" "qp_segments phase = ra_segments analysis"
    "case resolvePlannedAllowlistArgv (xs_security (xr_agent approvals)) (pp_shellCommand parsed) policy (ra_segments analysis) of
       NoPlan \<Rightarrow> qp_planned phase = None | PlanMissing \<Rightarrow> False | Planned argv \<Rightarrow> qp_planned phase = Some argv"
  using assms unfolding plan_allowed_run_def Let_def
  by (auto split: if_splits sum.splits planned_argv.splits)

definition allowed_phase :: "run_deps \<Rightarrow> parse_phase \<Rightarrow> approvals_resolved \<Rightarrow> policy_phase \<Rightarrow> bool" where
  "allowed_phase d parsed approvals phase =
     (let analysis = run_analysis_of d parsed approvals; policy = run_policy_of d parsed approvals analysis in
      po_denied policy = None \<and> plan_allowed_run d parsed approvals analysis policy = Inr phase)"

lemma ordering_run_is_allowed:
  assumes "e \<in> set (ro_trace (handleSystemRunInvoke d params))" "ordered e = Some (argv, cwd)"
    and "parseSystemRunPhase d params = Inr parsed" "run_approvals d parsed = Some approvals"
  shows "\<exists>phase. allowed_phase d parsed approvals phase \<and> e \<in> set (ro_trace (executeSystemRunPhase d phase))"
proof (cases "evaluateSystemRunPolicyPhase d parsed")
  case (Inl events)
  have "list_all (\<lambda>e. ordered e = None) events"
    using Inl assms(4) by (auto simp: evaluateSystemRunPolicyPhase_def plan_allowed_run_def sendSystemRunDenied_def Let_def
        split: option.splits sum.splits if_splits)
  thus ?thesis using assms Inl by (auto simp: handleSystemRunInvoke_def list_all_iff)
next
  case (Inr phase)
  hence "allowed_phase d parsed approvals phase"
    using assms(4) by (auto simp: evaluateSystemRunPolicyPhase_def allowed_phase_def Let_def split: option.splits)
  thus ?thesis using Inr assms(1,3) by (auto simp: handleSystemRunInvoke_def)
qed

lemma unapproved_policy:
  assumes "allowed_phase d parsed approvals phase" "\<not> approved_request parsed"
  defines "security \<equiv> xs_security (xr_agent approvals)" and "analysis \<equiv> run_analysis_of d parsed approvals"
  shows "\<not> po_approvedByAsk (qp_policy phase)" "xs_ask (xr_agent approvals) \<noteq> AskAlways" "security \<noteq> SecDeny"
    "security = SecAllowlist \<Longrightarrow> ra_ok analysis \<and> ra_satisfied analysis \<and> pp_shellCommand parsed = None \<and>
       po_analysisOk (qp_policy phase) \<and> po_allowlistSatisfied (qp_policy phase)"
proof -
  let ?policy = "run_policy_of d parsed approvals analysis"
  note exact = policy_exact[OF run_policy_of_def[of d parsed approvals analysis]]
  have run: "po_denied ?policy = None" "qp_policy phase = ?policy"
    using assms(1) planned_run(2) by (auto simp: allowed_phase_def analysis_def Let_def)
  note denied = run(1)[unfolded exact(1) Let_def, folded approved_request_def security_def]
  show "\<not> po_approvedByAsk (qp_policy phase)" using assms(2) run(2) exact(2) by (simp add: approved_request_def)
  show "xs_ask (xr_agent approvals) \<noteq> AskAlways" "security \<noteq> SecDeny" using denied assms(2) by (auto split: if_splits)
  show "ra_ok analysis \<and> ra_satisfied analysis \<and> pp_shellCommand parsed = None \<and>
       po_analysisOk (qp_policy phase) \<and> po_allowlistSatisfied (qp_policy phase)" if sec: "security = SecAllowlist"
  proof -
    have "ra_ok analysis \<and> ra_satisfied analysis \<and> pp_shellCommand parsed = None" using denied assms(2) sec by (auto split: if_splits)
    thus ?thesis using run(2) exact(3,4) sec by (auto simp: security_def)
  qed
qed

lemma unapproved_argv:
  assumes "allowed_phase d parsed approvals phase" "\<not> approved_request parsed" "e \<in> set (ro_trace (executeSystemRunPhase d phase))"
    "ordered e = Some (argv, cwd)"
  shows "argv = nullish (qp_planned phase) (pp_argv parsed)" "cwd = pp_cwd parsed"
proof -
  note policy = unapproved_policy[OF assms(1,2)]
  have plan: "plan_allowed_run d parsed approvals (run_analysis_of d parsed approvals) (run_policy_of d parsed approvals (run_analysis_of d parsed approvals)) = Inr phase"
    using assms(1) by (simp add: allowed_phase_def Let_def)
  note planned = planned_run[OF plan]
  have "po_approvedByAsk (run_policy_of d parsed approvals (run_analysis_of d parsed approvals)) = False" using policy(1) planned(2) by simp
  hence args: "pp_argv phase = pp_argv parsed" "pp_cwd phase = pp_cwd parsed" "pp_shellCommand phase = pp_shellCommand parsed"
    using planned(1) by (auto simp: hardenApprovedExecutionPaths_def)
  show "cwd = pp_cwd parsed" using executed_order(1)[OF assms(3,4)] args by simp
  have "nullish (pp_shellCommand parsed) [] = []" if "xs_security (xr_agent approvals) = SecAllowlist" using policy(4)[OF that] by simp
  thus "argv = nullish (qp_planned phase) (pp_argv parsed)"
    using executed_order(3)[OF assms(3,4)] args planned(3) by (auto simp: resolveSystemRunExecArgv_def)
qed

text \<open>
  C11: a command that a node orders without an approval is one that the policy trusts: the agent is not
  denied and not under "always ask", and under the allowlist the request is no shell command, the
  command is a single segment that is not blocked and that an entry, a safe bin or a skill bin vouches
  for, and what is ordered, from the companion app or from the system, is the planned argument vector
  of that very segment in the requested directory.
\<close>

theorem unapproved_run_is_vouched:
  assumes "e \<in> set (ro_trace (handleSystemRunInvoke d params))" "ordered e = Some (argv, cwd)"
    and "parseSystemRunPhase d params = Inr parsed" "run_approvals d parsed = Some approvals" "\<not> approved_request parsed"
  shows "cwd = pp_cwd parsed \<and> xs_ask (xr_agent approvals) \<noteq> AskAlways \<and>
    (xs_security (xr_agent approvals) = SecFull \<and> argv = pp_argv parsed \<or>
     xs_security (xr_agent approvals) = SecAllowlist \<and> pp_shellCommand parsed = None \<and>
     (\<exists>words seg by. words = filter (\<lambda>w. trim w \<noteq> []) (pp_argv parsed) \<and>
        seg = segment_of (rd_host d) (pp_cwd parsed) (Some (pp_env parsed)) (join_with '' '' words) words \<and>
        \<not> policy_blocked seg \<and> vouches (rd_host d) (run_context d parsed approvals) seg by \<and> resolvePlannedSegmentArgv seg = Some argv))"
proof -
  obtain phase where phase: "allowed_phase d parsed approvals phase" "e \<in> set (ro_trace (executeSystemRunPhase d phase))"
    using ordering_run_is_allowed[OF assms(1-4)] by blast
  note policy = unapproved_policy[OF phase(1) assms(5)] and argv = unapproved_argv[OF phase(1) assms(5) phase(2) assms(2)]
  let ?analysis = "run_analysis_of d parsed approvals"
  have plan: "plan_allowed_run d parsed approvals ?analysis (run_policy_of d parsed approvals ?analysis) = Inr phase"
    using phase(1) by (simp add: allowed_phase_def Let_def)
  note planned = planned_run[OF plan]
  consider (full) "xs_security (xr_agent approvals) = SecFull" | (allowlist) "xs_security (xr_agent approvals) = SecAllowlist"
    using policy(3) by (cases "xs_security (xr_agent approvals)") auto
  thus ?thesis
  proof cases
    case full
    thus ?thesis using planned(5) argv policy(2) by (simp add: resolvePlannedAllowlistArgv_def)
  next
    case allowlist
    note ok = policy(4)[OF allowlist]
    have ctx: "ac_cwd (run_context d parsed approvals) = pp_cwd parsed" "(run_context d parsed approvals)\<lparr>ac_platform := None\<rparr> = run_context d parsed approvals"
      by (simp_all add: run_context_def Let_def)
    from started_argv_satisfied[of "rd_host d" "run_context d parsed approvals" "Some (pp_env parsed)" "xs_security (xr_agent approvals)" "pp_shellCommand parsed" "pp_argv parsed"] ok
    obtain seg b where seg: "ra_segments ?analysis = [seg]" "\<not> policy_blocked seg" "vouches (rd_host d) (run_context d parsed approvals) seg b"
      "seg = segment_of (rd_host d) (pp_cwd parsed) (Some (pp_env parsed)) (join_with '' '' (filter (\<lambda>w. trim w \<noteq> []) (pp_argv parsed))) (filter (\<lambda>w. trim w \<noteq> []) (pp_argv parsed))"
      by (auto simp: run_analysis_of_def ctx Let_def simp del: vouches.simps)
    have "resolvePlannedSegmentArgv seg = qp_planned phase \<and> qp_planned phase \<noteq> None"
      using planned(5) ok policy(1) planned(2) seg(1) allowlist by (auto simp: resolvePlannedAllowlistArgv_def split: option.splits if_splits)
    thus ?thesis using seg argv policy(2) allowlist ok by auto
  qed
qed

section \<open>What an approval orders\<close>

lemma approved_policy:
  assumes "allowed_phase d parsed approvals phase" "approved_request parsed"
  shows "po_approvedByAsk (qp_policy phase)" "xs_security (xr_agent approvals) \<noteq> SecDeny" "qp_planned phase = None"
proof -
  let ?analysis = "run_analysis_of d parsed approvals"
  let ?policy = "run_policy_of d parsed approvals ?analysis"
  note exact = policy_exact[OF run_policy_of_def[of d parsed approvals ?analysis]]
  have plan: "plan_allowed_run d parsed approvals ?analysis ?policy = Inr phase" "po_denied ?policy = None"
    using assms(1) by (simp_all add: allowed_phase_def Let_def)
  note planned = planned_run[OF plan(1)]
  show by_hand: "po_approvedByAsk (qp_policy phase)" using planned(2) exact(2) assms(2) by (simp add: approved_request_def)
  show "xs_security (xr_agent approvals) \<noteq> SecDeny" using plan(2)[unfolded exact(1) Let_def] by auto
  show "qp_planned phase = None" using planned(2,5) by_hand by (simp add: resolvePlannedAllowlistArgv_def)
qed

lemma parsed_cwd: "parseSystemRunPhase d params = Inr parsed \<Longrightarrow> pp_cwd parsed = Some c \<Longrightarrow> c \<noteq> []"
  by (auto simp: parseSystemRunPhase_def opt_trimmed_def Let_def split: sum.splits option.splits if_splits)

text \<open>
  C12: an approved command is pinned: it is ordered with the executable that its first word stood for
  when it was decided, by its real path (a shell command or a wrapped command with the very words of
  the request); and in a directory, if one was asked for, that is the real path of the requested one, has
  no symbolic link on its way in a directory that the node itself can write to, and is, when the command is
  ordered, still such a directory and the same file.
\<close>

theorem approved_run_is_pinned:
  assumes "e \<in> set (ro_trace (handleSystemRunInvoke d params))" "ordered e = Some (argv, cwd)"
    and "parseSystemRunPhase d params = Inr parsed" "run_approvals d parsed = Some approvals" "approved_request parsed"
  shows "xs_security (xr_agent approvals) \<noteq> SecDeny \<and> pinned_argv (rd_host d) cwd (pp_shellCommand parsed) (pp_argv parsed) argv \<and>
    (case pp_cwd parsed of None \<Rightarrow> cwd = None
     | Some requested \<Rightarrow> \<exists>dir st now. cwd = Some dir \<and> hs_realpath (rd_host d) (path_resolve (rd_host d) [requested]) = Some dir \<and>
         settled_directory (rd_host d) (path_resolve (rd_host d) [requested]) st \<and>
         settled_directory (rd_start_host d) (path_resolve (rd_start_host d) [dir]) now \<and>
         sameFileIdentity (hs_platform (rd_start_host d)) st now)"
proof -
  obtain phase where phase: "allowed_phase d parsed approvals phase" "e \<in> set (ro_trace (executeSystemRunPhase d phase))"
    using ordering_run_is_allowed[OF assms(1-4)] by blast
  note policy = approved_policy[OF phase(1) assms(5)] and order = executed_order[OF phase(2) assms(2)]
  have plan: "plan_allowed_run d parsed approvals (run_analysis_of d parsed approvals) (run_policy_of d parsed approvals (run_analysis_of d parsed approvals)) = Inr phase"
    using phase(1) by (simp add: allowed_phase_def Let_def)
  obtain hardened where hard: "hardenApprovedExecutionPaths (rd_host d) True (pp_argv parsed) (pp_shellCommand parsed) (pp_cwd parsed) = Inr hardened"
    and phase_is: "pp_argv phase = hp_argv hardened" "pp_cwd phase = hp_cwd hardened" "qp_snapshot phase = hp_snapshot hardened"
    using planned_run(1,2)[OF plan] policy(1) by auto
  have argv: "argv = hp_argv hardened" "cwd = hp_cwd hardened"
    using order(1,3) policy(1,3) phase_is by (auto simp: resolveSystemRunExecArgv_def)
  have dir: "case pp_cwd parsed of None \<Rightarrow> cwd = None
     | Some requested \<Rightarrow> \<exists>dir st now. cwd = Some dir \<and> hs_realpath (rd_host d) (path_resolve (rd_host d) [requested]) = Some dir \<and>
         settled_directory (rd_host d) (path_resolve (rd_host d) [requested]) st \<and>
         settled_directory (rd_start_host d) (path_resolve (rd_start_host d) [dir]) now \<and>
         sameFileIdentity (hs_platform (rd_start_host d)) st now"
  proof (cases "pp_cwd parsed")
    case None
    thus ?thesis using hardened_cwd[OF hard] argv(2) by simp
  next
    case (Some requested)
    with parsed_cwd[OF assms(3)] hardened_cwd[OF hard] obtain s where
      s: "resolveCanonicalApprovalCwdSync (rd_host d) requested = Inr s" "hp_cwd hardened = Some (sn_cwd s)" "hp_snapshot hardened = Some s" by auto
    have "revalidateApprovedCwdSnapshot (rd_start_host d) s" using order(2) phase_is(3) s(3) by simp
    thus ?thesis using canonical_cwd[OF s(1)] revalidated_cwd s(2) argv(2) Some by fastforce
  qed
  show ?thesis using policy(2) hardened_argv[OF hard] argv dir by blast
qed

section \<open>Every request is answered\<close>

lemma normalize_without_default:
  "map_get (xf_agents file) ''default'' = None \<Longrightarrow>
   \<exists>file' m. normalizeExecApprovals uuid n file = Some (file', m) \<and> map_get (xf_agents file') ''default'' = None"
proof -
  assume none: "map_get (xf_agents file) ''default'' = None"
  hence merged: "merge_default_agent (xf_agents file) = Some (xf_agents file)" by (simp add: merge_default_agent_def)
  obtain agents m where agents: "normalize_agents uuid n (xf_agents file) = (agents, m)" by fastforce
  hence "map_keys agents = map_keys (xf_agents file)" using agents_keys[of uuid n "xf_agents file"] by simp
  hence "map_get agents ''default'' = None" using none unfolding map_get_None_keys by simp
  thus ?thesis unfolding normalizeExecApprovals_def merged using agents by simp
qed

lemma loaded_without_default: "map_get (xf_agents (fst (loadExecApprovals uuid n contents))) ''default'' = None"
proof -
  have "map_get (xf_agents f') ''default'' = None" if norm: "normalizeExecApprovals uuid n f = Some (f', m)" for f f' m
  proof -
    obtain agents where a: "merge_default_agent (xf_agents f) = Some agents" "xf_agents f' = fst (normalize_agents uuid n agents)"
      using norm by (auto simp: normalizeExecApprovals_def split: option.splits prod.splits)
    show ?thesis using merged_agents[OF a(1)] agents_keys[of uuid n agents] a(2) by (simp add: map_get_None_keys)
  qed
  thus ?thesis by (auto simp: loadExecApprovals_def Let_def empty_file_def split: option.split prod.split)
qed

lemma approvals_always_resolve: "\<exists>approvals. resolveExecApprovals h uuid n stateDir token contents agentId overrides = Some approvals"
proof -
  obtain loaded m where loaded: "loadExecApprovals uuid n contents = (loaded, m)" by fastforce
  hence "map_get (xf_agents loaded) ''default'' = None" using loaded_without_default[of uuid n contents] by simp
  from normalize_without_default[OF this, of uuid m] obtain next1 k where
    next1: "normalizeExecApprovals uuid m loaded = Some (next1, k)" "map_get (xf_agents next1) ''default'' = None" by blast
  obtain ready where ready: "ensureExecApprovals uuid n stateDir token contents = Some (ready, k)" "map_get (xf_agents ready) ''default'' = None"
    using loaded next1 by (auto simp: ensureExecApprovals_def)
  from normalize_without_default[OF this(2), of uuid k] show ?thesis
    using ready(1) by (auto simp: resolveExecApprovals_def resolveExecApprovalsFromFile_def Let_def)
qed

text \<open>
  What the answer must be, said of the request alone. A request is well formed when it has a command
  and its raw text, if any, is the text that stands for that command.
\<close>

definition command_text :: "string list \<Rightarrow> string" where
  "command_text argv = (case shown_by_payload argv of None \<Rightarrow> formatExecCommand argv | Some c \<Rightarrow> c)"

definition well_formed_request :: "system_run_params \<Rightarrow> bool" where
  "well_formed_request params \<longleftrightarrow> sr_command params \<noteq> [] \<and>
     normalizeRawCommand (sr_rawCommand params) \<in> {None, Some (command_text (sr_command params))}"

definition invalid_message :: "system_run_params \<Rightarrow> string" where
  "invalid_message params =
     (if sr_command params \<noteq> [] then ''INVALID_REQUEST: rawCommand does not match command''
      else if normalizeRawCommand (sr_rawCommand params) = None then ''command required'' else ''rawCommand requires params.command'')"

text \<open>A request that is well formed is read as it is, with the settings of its agent.\<close>

definition accepted_request :: "run_deps \<Rightarrow> system_run_params \<Rightarrow> parse_phase \<Rightarrow> approvals_resolved \<Rightarrow> bool" where
  "accepted_request d params parsed approvals \<longleftrightarrow> well_formed_request params \<and> parseSystemRunPhase d params = Inr parsed \<and>
     pp_argv parsed = sr_command params \<and> xc_cmdText (pp_execution parsed) = command_text (sr_command params) \<and>
     run_approvals d parsed = Some approvals"

text \<open>Why a request is refused before anything is ordered: by the policy, or because it cannot be pinned or planned.\<close>

definition policy_refusal :: "run_deps \<Rightarrow> parse_phase \<Rightarrow> approvals_resolved \<Rightarrow> (denied_reason \<times> string) option" where
  "policy_refusal d parsed approvals =
     (let security = xs_security (xr_agent approvals); ask = xs_ask (xr_agent approvals); analysis = run_analysis_of d parsed approvals;
          shell = (pp_shellCommand parsed \<noteq> None); passed = ra_ok analysis \<and> ra_satisfied analysis \<and> \<not> shell;
          cmd_exe = isCmdExeInvocation (if nullish (pp_shellCommand parsed) [] = [] then pp_argv parsed
            else case ra_segments analysis of [] \<Rightarrow> [] | seg # _ \<Rightarrow> sg_argv seg) in
      if security = SecDeny then Some (SecurityDenied, ''SYSTEM_RUN_DISABLED: security=deny'')
      else if approved_request parsed then None
      else if ask = AskAlways \<or> (ask = AskOnMiss \<and> security = SecAllowlist \<and> \<not> passed)
      then Some (ApprovalRequired, ''SYSTEM_RUN_DENIED: approval required'')
      else if security = SecAllowlist \<and> \<not> passed
      then Some (AllowlistMiss, formatSystemRunAllowlistMissMessage shell (shell \<and> hs_platform (rd_host d) = ''win32'' \<and> cmd_exe))
      else None)"

definition plan_refusal :: "run_deps \<Rightarrow> parse_phase \<Rightarrow> approvals_resolved \<Rightarrow> (denied_reason \<times> string) option" where
  "plan_refusal d parsed approvals =
     (if approved_request parsed
      then (case hardenApprovedExecutionPaths (rd_host d) True (pp_argv parsed) (pp_shellCommand parsed) (pp_cwd parsed) of
              Inl message \<Rightarrow> Some (ApprovalRequired, message) | Inr _ \<Rightarrow> None)
      else if xs_security (xr_agent approvals) = SecAllowlist \<and>
        (case ra_segments (run_analysis_of d parsed approvals) of [seg] \<Rightarrow> nullish (resolvePlannedSegmentArgv seg) [] = [] | _ \<Rightarrow> False)
      then Some (ExecutionPlanMiss, ''SYSTEM_RUN_DENIED: execution plan mismatch'')
      else None)"

definition refusal :: "run_deps \<Rightarrow> parse_phase \<Rightarrow> approvals_resolved \<Rightarrow> (denied_reason \<times> string) option" where
  "refusal d parsed approvals = (case policy_refusal d parsed approvals of None \<Rightarrow> plan_refusal d parsed approvals | Some r \<Rightarrow> Some r)"

text \<open>What is ordered when nothing refuses it, and whether the approved directory changed since.\<close>

definition run_order :: "run_deps \<Rightarrow> parse_phase \<Rightarrow> approvals_resolved \<Rightarrow> string list \<times> string option" where
  "run_order d parsed approvals =
     (if approved_request parsed
      then (case hardenApprovedExecutionPaths (rd_host d) True (pp_argv parsed) (pp_shellCommand parsed) (pp_cwd parsed) of
              Inl _ \<Rightarrow> ([], None) | Inr hardened \<Rightarrow> (hp_argv hardened, hp_cwd hardened))
      else (case (xs_security (xr_agent approvals), ra_segments (run_analysis_of d parsed approvals)) of
              (SecAllowlist, [seg]) \<Rightarrow> nullish (resolvePlannedSegmentArgv seg) [] | _ \<Rightarrow> pp_argv parsed, pp_cwd parsed))"

definition directory_changed :: "run_deps \<Rightarrow> parse_phase \<Rightarrow> bool" where
  "directory_changed d parsed = (approved_request parsed \<and>
     (case hardenApprovedExecutionPaths (rd_host d) True (pp_argv parsed) (pp_shellCommand parsed) (pp_cwd parsed) of
        Inl _ \<Rightarrow> False
      | Inr hardened \<Rightarrow> (case hp_snapshot hardened of None \<Rightarrow> False | Some s \<Rightarrow> \<not> revalidateApprovedCwdSnapshot (rd_start_host d) s)))"

definition order_request :: "parse_phase \<Rightarrow> string list \<Rightarrow> string option \<Rightarrow> host_request" where
  "order_request parsed argv cwd =
     \<lparr>hq_command = argv, hq_rawCommand = str_opt (xc_cmdText (pp_execution parsed)), hq_cwd = cwd,
      hq_env = pp_envOverrides parsed, hq_timeoutMs = pp_timeoutMs parsed, hq_needsScreenRecording = pp_needsScreenRecording parsed,
      hq_agentId = pp_agentId parsed, hq_sessionKey = xc_sessionKey (pp_execution parsed), hq_approvalDecision = pp_approvalDecision parsed\<rparr>"

definition to_be_run :: "run_deps \<Rightarrow> system_run_params \<Rightarrow> parse_phase \<Rightarrow> approvals_resolved \<Rightarrow> string list \<Rightarrow> string option \<Rightarrow> bool" where
  "to_be_run d params parsed approvals argv cwd \<longleftrightarrow> accepted_request d params parsed approvals \<and> refusal d parsed approvals = None \<and>
     \<not> directory_changed d parsed \<and> run_order d parsed approvals = (argv, cwd)"

text \<open>A command runs on the node when the companion app is not preferred, or cannot be reached and the fallback is allowed.\<close>

inductive run_here :: "run_deps \<Rightarrow> approvals_resolved \<Rightarrow> host_request \<Rightarrow> run_event list \<Rightarrow> bool" for d approvals request where
  Directly: "\<not> rd_preferMacAppExecHost d \<Longrightarrow> run_here d approvals request []"
| Fallback: "rd_preferMacAppExecHost d \<Longrightarrow> runViaMacAppExecHost d approvals request = None \<Longrightarrow> \<not> rd_execHostEnforced d \<Longrightarrow>
    rd_execHostFallbackAllowed d \<Longrightarrow> run_here d approvals request [AskedCompanion request]"

text \<open>The conversation about one request.\<close>

inductive run_conversation :: "run_deps \<Rightarrow> system_run_params \<Rightarrow> run_event list \<Rightarrow> bool" for d params where
  Invalid: "\<not> well_formed_request params \<Longrightarrow>
    run_conversation d params [Answer (AnswerError ''INVALID_REQUEST'' (invalid_message params))]"
| Refused: "accepted_request d params parsed approvals \<Longrightarrow> refusal d parsed approvals = Some (reason, message) \<Longrightarrow>
    run_conversation d params [ExecDenied (pp_execution parsed) reason, Answer (AnswerError ''UNAVAILABLE'' message)]"
| Changed: "accepted_request d params parsed approvals \<Longrightarrow> refusal d parsed approvals = None \<Longrightarrow> directory_changed d parsed \<Longrightarrow>
    run_conversation d params [ExecDenied (pp_execution parsed) ApprovalRequired,
      Answer (AnswerError ''UNAVAILABLE'' ''SYSTEM_RUN_DENIED: approval cwd changed before execution'')]"
| CompanionDone: "to_be_run d params parsed approvals argv cwd \<Longrightarrow> request = order_request parsed argv cwd \<Longrightarrow> rd_preferMacAppExecHost d \<Longrightarrow>
    runViaMacAppExecHost d approvals request = Some (HostDone r) \<Longrightarrow>
    run_conversation d params [AskedCompanion request, ExecFinished (pp_execution parsed) r (finished_output r), Answer (AnswerOk r)]"
| CompanionRefused: "to_be_run d params parsed approvals argv cwd \<Longrightarrow> request = order_request parsed argv cwd \<Longrightarrow> rd_preferMacAppExecHost d \<Longrightarrow>
    runViaMacAppExecHost d approvals request = Some (HostRefused message reason) \<Longrightarrow>
    run_conversation d params [AskedCompanion request, ExecDenied (pp_execution parsed) (normalizeDeniedReason reason),
      Answer (AnswerError ''UNAVAILABLE'' message)]"
| CompanionLost: "to_be_run d params parsed approvals argv cwd \<Longrightarrow> request = order_request parsed argv cwd \<Longrightarrow> rd_preferMacAppExecHost d \<Longrightarrow>
    runViaMacAppExecHost d approvals request = None \<Longrightarrow> rd_execHostEnforced d \<or> \<not> rd_execHostFallbackAllowed d \<Longrightarrow>
    run_conversation d params [AskedCompanion request, ExecDenied (pp_execution parsed) CompanionUnavailable,
      Answer (AnswerError ''UNAVAILABLE'' ''COMPANION_APP_UNAVAILABLE: macOS app exec host unreachable'')]"
| ScreenMissing: "to_be_run d params parsed approvals argv cwd \<Longrightarrow> run_here d approvals (order_request parsed argv cwd) asked \<Longrightarrow>
    sr_needsScreenRecording params = Some True \<Longrightarrow>
    run_conversation d params (asked @ [ExecDenied (pp_execution parsed) ScreenRecordingMissing,
      Answer (AnswerError ''UNAVAILABLE'' ''PERMISSION_MISSING: screenRecording'')])"
| Local: "to_be_run d params parsed approvals argv cwd \<Longrightarrow> run_here d approvals (order_request parsed argv cwd) asked \<Longrightarrow>
    sr_needsScreenRecording params \<noteq> Some True \<Longrightarrow>
    r = host_result.truncate (applyOutputTruncation (rd_runCommand d argv cwd (pp_env parsed) (sr_timeoutMs params))) \<Longrightarrow>
    run_conversation d params (asked @ [Started argv cwd (pp_env parsed) (sr_timeoutMs params),
      ExecFinished (pp_execution parsed) r (finished_output r), Answer (AnswerOk r)])"

lemma resolve_exact:
  "resolveSystemRunCommand (Some argv) raw =
     (if argv = [] then (if normalizeRawCommand raw = None then Inr \<lparr>rc_argv = [], rc_rawCommand = None, rc_shellCommand = None, rc_cmdText = []\<rparr> else Inl MissingCommand)
      else case validateSystemRunCommandConsistency argv (normalizeRawCommand raw) of Inl e \<Rightarrow> Inl e
        | Inr v \<Rightarrow> Inr \<lparr>rc_argv = argv, rc_rawCommand = normalizeRawCommand raw, rc_shellCommand = cv_shellCommand v, rc_cmdText = cv_cmdText v\<rparr>)"
  by (simp add: resolveSystemRunCommand_def Let_def)

lemma validate_exact:
  "case validateSystemRunCommandConsistency argv (normalizeRawCommand raw) of
     Inl e \<Rightarrow> normalizeRawCommand raw \<notin> {None, Some (command_text argv)} \<and> command_error_message e = ''INVALID_REQUEST: rawCommand does not match command''
   | Inr v \<Rightarrow> normalizeRawCommand raw \<in> {None, Some (command_text argv)} \<and> cv_cmdText v = command_text argv"
proof -
  have twice: "normalizeRawCommand (normalizeRawCommand raw) = normalizeRawCommand raw"
    by (auto simp: normalizeRawCommand_def str_opt_def split: option.splits)
  show ?thesis
    by (auto simp: validateSystemRunCommandConsistency_def command_text_def shown_by_payload_def twice Let_def split: option.splits)
qed

lemma parse_exact:
  "case parseSystemRunPhase d params of
     Inl events \<Rightarrow> \<not> well_formed_request params \<and> events = [Answer (AnswerError ''INVALID_REQUEST'' (invalid_message params))]
   | Inr parsed \<Rightarrow> well_formed_request params \<and> pp_argv parsed = sr_command params \<and> xc_cmdText (pp_execution parsed) = command_text (sr_command params) \<and>
       pp_timeoutMs parsed = sr_timeoutMs params \<and> pp_needsScreenRecording parsed = (sr_needsScreenRecording params = Some True)"
  using validate_exact[where argv = "sr_command params" and raw = "sr_rawCommand params"]
  by (auto simp: parseSystemRunPhase_def resolve_exact well_formed_request_def invalid_message_def Let_def split: sum.splits)

lemma policy_refusal_exact:
  "po_denied (run_policy_of d parsed approvals (run_analysis_of d parsed approvals)) = policy_refusal d parsed approvals"
proof -
  have head: "(if nullish sh [] \<noteq> [] then isCmdExeInvocation a else isCmdExeInvocation b) = isCmdExeInvocation (if nullish sh [] = [] then b else a)" for sh a b
    by simp
  show ?thesis unfolding policy_exact(1)[OF run_policy_of_def] policy_refusal_def approved_request_def Let_def head by (rule refl)
qed

lemma extended_fields [simp]:
  "pp_execution (parse_phase.extend r x) = pp_execution r" "pp_agentId (parse_phase.extend r x) = pp_agentId r"
  "pp_approvalDecision (parse_phase.extend r x) = pp_approvalDecision r" "pp_envOverrides (parse_phase.extend r x) = pp_envOverrides r"
  "pp_env (parse_phase.extend r x) = pp_env r" "pp_timeoutMs (parse_phase.extend r x) = pp_timeoutMs r"
  "pp_needsScreenRecording (parse_phase.extend r x) = pp_needsScreenRecording r"
  by (simp_all add: parse_phase.defs)

text \<open>What is planned for a run that the policy lets through.\<close>

definition planned_as :: "run_deps \<Rightarrow> parse_phase \<Rightarrow> approvals_resolved \<Rightarrow> policy_phase \<Rightarrow> bool" where
  "planned_as d parsed approvals phase \<longleftrightarrow>
     (nullish (qp_planned phase) (pp_argv phase), pp_cwd phase) = run_order d parsed approvals \<and>
     resolveSystemRunExecArgv (qp_planned phase) (pp_argv phase) (xs_security (xr_agent (qp_approvals phase)))
       (hs_platform (rd_host d) = ''win32'') (qp_policy phase) (pp_shellCommand phase) (qp_segments phase) = fst (run_order d parsed approvals) \<and>
     companion_request phase = order_request parsed (fst (run_order d parsed approvals)) (snd (run_order d parsed approvals)) \<and>
     qp_approvals phase = approvals \<and> pp_execution phase = pp_execution parsed \<and> pp_env phase = pp_env parsed \<and>
     pp_timeoutMs phase = pp_timeoutMs parsed \<and> pp_needsScreenRecording phase = pp_needsScreenRecording parsed \<and>
     (case qp_snapshot phase of None \<Rightarrow> False | Some s \<Rightarrow> \<not> revalidateApprovedCwdSnapshot (rd_start_host d) s) = directory_changed d parsed"

lemma approved_plan:
  assumes "approved_request parsed" "po_approvedByAsk policy"
  shows "case hardenApprovedExecutionPaths (rd_host d) True (pp_argv parsed) (pp_shellCommand parsed) (pp_cwd parsed) of
      Inl message \<Rightarrow> plan_allowed_run d parsed approvals analysis policy = Inl (sendSystemRunDenied (pp_execution parsed) ApprovalRequired message)
    | Inr hardened \<Rightarrow> \<exists>phase. plan_allowed_run d parsed approvals analysis policy = Inr phase \<and> planned_as d parsed approvals phase"
proof (cases "hardenApprovedExecutionPaths (rd_host d) True (pp_argv parsed) (pp_shellCommand parsed) (pp_cwd parsed)")
  case (Inl message)
  thus ?thesis using assms(2) by (simp add: plan_allowed_run_def Let_def)
next
  case (Inr hardened)
  have "nullish (hp_cwd hardened) [] \<noteq> [] \<Longrightarrow> hp_snapshot hardened \<noteq> None"
    using hardened_cwd[OF Inr] by (auto split: if_splits)
  thus ?thesis using Inr assms
    by (auto simp: plan_allowed_run_def resolvePlannedAllowlistArgv_def planned_as_def run_order_def resolveSystemRunExecArgv_def
        companion_request_def order_request_def directory_changed_def Let_def)
qed

lemma unapproved_plan:
  assumes "\<not> approved_request parsed" "\<not> po_approvedByAsk policy"
    and "xs_security (xr_agent approvals) = SecAllowlist \<Longrightarrow> pp_shellCommand parsed = None \<and> po_analysisOk policy \<and> po_allowlistSatisfied policy"
    and "analysis = run_analysis_of d parsed approvals"
  shows "case plan_refusal d parsed approvals of
      Some (reason, message) \<Rightarrow> plan_allowed_run d parsed approvals analysis policy = Inl (sendSystemRunDenied (pp_execution parsed) reason message)
    | None \<Rightarrow> \<exists>phase. plan_allowed_run d parsed approvals analysis policy = Inr phase \<and> planned_as d parsed approvals phase"
proof (cases "xs_security (xr_agent approvals) = SecAllowlist")
  case True
  note ok = assms(3)[OF True]
  show ?thesis
  proof (cases "\<exists>seg. ra_segments analysis = [seg]")
    case single: True
    then obtain seg where "ra_segments analysis = [seg]" by blast
    with ok True assms show ?thesis
      by (cases "resolvePlannedSegmentArgv seg")
         (auto simp: plan_refusal_def plan_allowed_run_def hardenApprovedExecutionPaths_def resolvePlannedAllowlistArgv_def planned_as_def
          run_order_def resolveSystemRunExecArgv_def companion_request_def order_request_def directory_changed_def Let_def)
  next
    case False
    hence "length (ra_segments analysis) \<noteq> 1" by (auto simp: length_Suc_conv)
    with False ok True assms show ?thesis
      by (auto simp: plan_refusal_def plan_allowed_run_def hardenApprovedExecutionPaths_def resolvePlannedAllowlistArgv_def planned_as_def
          run_order_def resolveSystemRunExecArgv_def companion_request_def order_request_def directory_changed_def Let_def split: list.splits)
  qed
next
  case False
  with assms(1,2) show ?thesis
    by (auto simp: plan_refusal_def plan_allowed_run_def hardenApprovedExecutionPaths_def resolvePlannedAllowlistArgv_def planned_as_def
        run_order_def resolveSystemRunExecArgv_def companion_request_def order_request_def directory_changed_def Let_def split: exec_security.splits)
qed

text \<open>The policy phase refuses exactly for the reasons of \<^term>\<open>refusal\<close>, and plans the order otherwise.\<close>

lemma policy_phase_exact:
  assumes "run_approvals d parsed = Some approvals"
  shows "case refusal d parsed approvals of
      Some (reason, message) \<Rightarrow> evaluateSystemRunPolicyPhase d parsed = Inl (sendSystemRunDenied (pp_execution parsed) reason message)
    | None \<Rightarrow> \<exists>phase. evaluateSystemRunPolicyPhase d parsed = Inr phase \<and> planned_as d parsed approvals phase"
proof -
  let ?analysis = "run_analysis_of d parsed approvals"
  let ?policy = "run_policy_of d parsed approvals ?analysis"
  note exact = policy_exact[OF run_policy_of_def[of d parsed approvals ?analysis]]
  have phase: "evaluateSystemRunPolicyPhase d parsed = (case policy_refusal d parsed approvals of
      Some (reason, message) \<Rightarrow> Inl (sendSystemRunDenied (pp_execution parsed) reason message)
    | None \<Rightarrow> plan_allowed_run d parsed approvals ?analysis ?policy)"
    using assms by (simp add: evaluateSystemRunPolicyPhase_def policy_refusal_exact Let_def)
  show ?thesis
  proof (cases "policy_refusal d parsed approvals")
    case (Some r)
    thus ?thesis by (cases r) (simp add: phase refusal_def)
  next
    case None
    hence by_ask: "po_approvedByAsk ?policy = approved_request parsed" using exact(2) by (simp add: approved_request_def)
    show ?thesis
    proof (cases "approved_request parsed")
      case True
      with approved_plan[of parsed ?policy d approvals ?analysis] by_ask None show ?thesis
        by (auto simp: phase refusal_def plan_refusal_def split: sum.splits)
    next
      case False
      have ok: "pp_shellCommand parsed = None \<and> po_analysisOk ?policy \<and> po_allowlistSatisfied ?policy"
        if sec: "xs_security (xr_agent approvals) = SecAllowlist"
        using None False exact(3,4)[OF sec] sec by (auto simp: policy_refusal_def Let_def split: if_splits)
      have "\<not> po_approvedByAsk ?policy" using by_ask False by simp
      from unapproved_plan[where d = d and approvals = approvals, OF False this _ refl] ok
      show ?thesis unfolding phase refusal_def None option.case by simp
    qed
  qed
qed

lemma executed_conversation:
  assumes "accepted_request d params parsed approvals" "refusal d parsed approvals = None" "planned_as d parsed approvals phase"
    and "pp_timeoutMs parsed = sr_timeoutMs params" "pp_needsScreenRecording parsed = (sr_needsScreenRecording params = Some True)"
  shows "run_conversation d params (ro_trace (executeSystemRunPhase d phase))"
proof (cases "directory_changed d parsed")
  case True
  with run_conversation.Changed[OF assms(1,2)] assms(3) show ?thesis
    by (simp add: executeSystemRunPhase_def planned_as_def sendSystemRunDenied_def APPROVAL_CWD_DRIFT_DENIED_MESSAGE_def Let_def)
next
  case False
  obtain argv cwd where order: "run_order d parsed approvals = (argv, cwd)" by fastforce
  let ?request = "order_request parsed argv cwd"
  have run: "to_be_run d params parsed approvals argv cwd" using assms(1,2) False order by (simp add: to_be_run_def)
  have here: "run_conversation d params (ro_trace (run_locally d phase asked))" if "run_here d approvals ?request asked" for asked
    using run_conversation.ScreenMissing[OF run that] run_conversation.Local[OF run that _ refl] assms(3-5) order
    by (auto simp: run_locally_def planned_as_def sendSystemRunDenied_def sendFinished_def Let_def)
  note rules = run_conversation.CompanionDone[OF run refl] run_conversation.CompanionRefused[OF run refl] run_conversation.CompanionLost[OF run refl]
  show ?thesis
  proof (cases "rd_preferMacAppExecHost d")
    case False
    with here[OF run_here.Directly] assms(3) \<open>\<not> directory_changed d parsed\<close> show ?thesis
      by (simp add: executeSystemRunPhase_def planned_as_def Let_def)
  next
    case True
    note rules = rules[OF True] and fallback = here[OF run_here.Fallback[OF True]]
    show ?thesis
    proof (cases "runViaMacAppExecHost d approvals ?request")
      case None
      with rules(3) fallback assms(3) True order \<open>\<not> directory_changed d parsed\<close> show ?thesis
        by (auto simp: executeSystemRunPhase_def planned_as_def sendSystemRunDenied_def Let_def)
    next
      case (Some response)
      with rules(1,2) assms(3) True order \<open>\<not> directory_changed d parsed\<close> show ?thesis
        by (cases response) (auto simp: executeSystemRunPhase_def planned_as_def sendSystemRunDenied_def sendFinished_def Let_def)
    qed
  qed
qed


section \<open>Examples\<close>

definition sample_deps :: run_deps where
  "sample_deps = \<lparr>rd_host = sample_host, rd_start_host = sample_host, rd_exec = None, rd_agent_exec = (\<lambda>_. None), rd_skillBins = [], rd_collate = id,
     rd_stateDir = ''/state'', rd_generatedToken = ''t'',
     rd_contents = Some (empty_file\<lparr>xf_defaults := Some (no_defaults\<lparr>xd_security := Some ''allowlist''\<rparr>),
       xf_agents := [(''main'', no_agent\<lparr>xa_allowlist := Some [ItemEntry (plain_entry ''/usr/bin/ls'')]\<rparr>)]\<rparr>),
     rd_uuid = (\<lambda>_. ''id''), rd_newId = (\<lambda>_. ''new''), rd_newRunId = ''run'', rd_now = 5, rd_preferMacAppExecHost = False,
     rd_execHostEnforced = False, rd_execHostFallbackAllowed = True, rd_companion = (\<lambda>_ _ _. None),
     rd_runCommand = (\<lambda>_ _ _ _. \<lparr>hr_exitCode = Some 0, hr_timedOut = False, hr_success = True, hr_stdout = ''a'', hr_stderr = [], hr_error = None, rr_truncated = False\<rparr>)\<rparr>"

definition sample_params :: "string list \<Rightarrow> string option \<Rightarrow> string option \<Rightarrow> system_run_params" where
  "sample_params command cwd decision = \<lparr>sr_command = command, sr_rawCommand = None, sr_cwd = cwd, sr_env = None, sr_timeoutMs = None,
     sr_needsScreenRecording = None, sr_agentId = None, sr_sessionKey = None, sr_approved = None, sr_approvalDecision = decision, sr_runId = None\<rparr>"

definition sample_parsed :: parse_phase where
  "sample_parsed = \<lparr>pp_argv = [''nice'', ''ls'', ''-l''], pp_shellCommand = None,
     pp_execution = \<lparr>xc_sessionKey = ''node'', xc_runId = ''run'', xc_cmdText = ''nice ls -l''\<rparr>, pp_agentId = None, pp_approvalDecision = None,
     pp_envOverrides = None, pp_env = [(''PATH'', ''/usr/bin'')], pp_cwd = None, pp_timeoutMs = None, pp_needsScreenRecording = False, pp_approved = False\<rparr>"

definition sample_segment :: exec_segment where
  "sample_segment = segment_of sample_host None (Some [(''PATH'', ''/usr/bin'')]) ''nice ls -l'' [''nice'', ''ls'', ''-l'']"

definition sample_entry :: allowlist_entry where
  "sample_entry = plain_entry ''/usr/bin/ls''\<lparr>al_id := Some ''id''\<rparr>"

lemma sample_parse: "parseSystemRunPhase sample_deps (sample_params [''nice'', ''ls'', ''-l''] None None) = Inr sample_parsed"
  by code_simp

lemma sample_approvals:
  "\<exists>approvals. run_approvals sample_deps sample_parsed = Some approvals \<and> xs_security (xr_agent approvals) = SecAllowlist \<and>
     xs_ask (xr_agent approvals) = AskOnMiss \<and> xr_allowlist approvals = [sample_entry]"
proof -
  have "map_option (\<lambda>a. (xs_security (xr_agent a), xs_ask (xr_agent a), xr_allowlist a)) (run_approvals sample_deps sample_parsed) =
    Some (SecAllowlist, AskOnMiss, [sample_entry])" by code_simp
  thus ?thesis by auto
qed

lemma sample_segment_facts:
  "analyzeArgvCommand sample_host None (Some [(''PATH'', ''/usr/bin'')]) [''nice'', ''ls'', ''-l''] = analysis_of [sample_segment] None"
  "\<not> policy_blocked sample_segment" "resolvePlannedSegmentArgv sample_segment = Some [''/usr/bin/ls'', ''-l'']"
  "resolveAllowlistCandidatePath sample_host (sg_resolution sample_segment) None = Some ''/usr/bin/ls''"
  "matchAllowlist sample_host [sample_entry] (map_option (\<lambda>r. r\<lparr>cr_resolvedPath := Some ''/usr/bin/ls''\<rparr>) (sg_resolution sample_segment)) = Some sample_entry"
  by code_simp+

lemma sample_handled:
  assumes approvals: "run_approvals sample_deps sample_parsed = Some approvals" "xs_security (xr_agent approvals) = SecAllowlist"
    "xs_ask (xr_agent approvals) = AskOnMiss" "xr_allowlist approvals = [sample_entry]"
  shows "Started [''/usr/bin/ls'', ''-l''] None [(''PATH'', ''/usr/bin'')] None \<in>
    set (ro_trace (handleSystemRunInvoke sample_deps (sample_params [''nice'', ''ls'', ''-l''] None None)))"
proof -
  have fields: "pp_argv sample_parsed = [''nice'', ''ls'', ''-l'']" "pp_shellCommand sample_parsed = None" "pp_cwd sample_parsed = None"
      "pp_env sample_parsed = [(''PATH'', ''/usr/bin'')]" "pp_approvalDecision sample_parsed = None" "\<not> pp_approved sample_parsed"
      "pp_timeoutMs sample_parsed = None" "\<not> pp_needsScreenRecording sample_parsed" "rd_host sample_deps = sample_host" "\<not> rd_preferMacAppExecHost sample_deps"
    by (simp_all add: sample_parsed_def sample_deps_def)
  have ctx: "ac_allowlist (run_context sample_deps sample_parsed approvals) = [sample_entry]" "ac_cwd (run_context sample_deps sample_parsed approvals) = None"
    by (simp_all add: run_context_def Let_def approvals fields)
  have analysis: "run_analysis_of sample_deps sample_parsed approvals =
      \<lparr>ra_ok = True, ra_matches = [sample_entry], ra_satisfied = True, ra_segments = [sample_segment]\<rparr>"
    by (simp add: run_analysis_of_def evaluateSystemRunAllowlist_def fields approvals ctx sample_segment_facts analysis_of_def evaluateExecAllowlist_def
        resolveAnalysisSegmentGroups_def evaluateSegments_def judge_segment_def Let_def)
  let ?policy = "run_policy_of sample_deps sample_parsed approvals (run_analysis_of sample_deps sample_parsed approvals)"
  have platform: "hs_platform sample_host \<noteq> ''win32''" by (simp add: sample_host_def)
  note exact = policy_exact[OF run_policy_of_def[of sample_deps sample_parsed approvals "run_analysis_of sample_deps sample_parsed approvals"]]
  have policy: "po_denied ?policy = None" "\<not> po_approvedByAsk ?policy" "po_analysisOk ?policy" "po_allowlistSatisfied ?policy"
    using exact by (simp_all add: analysis fields approvals platform)
  have same: "sample_parsed\<lparr>pp_argv := [''nice'', ''ls'', ''-l''], pp_cwd := None\<rparr> = sample_parsed" by (simp add: sample_parsed_def)
  define phase where what: "phase = parse_phase.extend sample_parsed (policy_phase.fields approvals ?policy [sample_entry] [sample_segment] (Some [''/usr/bin/ls'', ''-l'']) None)"
  have phase: "plan_allowed_run sample_deps sample_parsed approvals (run_analysis_of sample_deps sample_parsed approvals) ?policy = Inr phase"
    using policy unfolding what by (simp add: plan_allowed_run_def fields hardenApprovedExecutionPaths_def resolvePlannedAllowlistArgv_def approvals analysis
        sample_segment_facts same Let_def)
  have "evaluateSystemRunPolicyPhase sample_deps sample_parsed = Inr phase"
    using phase policy(1) by (simp add: evaluateSystemRunPolicyPhase_def approvals Let_def)
  moreover have "Started [''/usr/bin/ls'', ''-l''] None [(''PATH'', ''/usr/bin'')] None \<in> set (ro_trace (executeSystemRunPhase sample_deps phase))"
    unfolding what by (simp add: executeSystemRunPhase_def run_locally_def resolveSystemRunExecArgv_def fields platform Let_def)
  ultimately show ?thesis by (simp add: handleSystemRunInvoke_def sample_parse)
qed

lemma unapproved_run_is_vouched_witness:
  "\<exists>seg by approvals. xs_security (xr_agent approvals) = SecAllowlist \<and>
     seg = segment_of sample_host None (Some [(''PATH'', ''/usr/bin'')]) ''nice ls -l'' [''nice'', ''ls'', ''-l''] \<and>
     vouches sample_host (run_context sample_deps sample_parsed approvals) seg by \<and> resolvePlannedSegmentArgv seg = Some [''/usr/bin/ls'', ''-l'']"
proof -
  obtain approvals where approvals: "run_approvals sample_deps sample_parsed = Some approvals" "xs_security (xr_agent approvals) = SecAllowlist"
    "xs_ask (xr_agent approvals) = AskOnMiss" "xr_allowlist approvals = [sample_entry]" using sample_approvals by blast
  have words: "filter (\<lambda>w. trim w \<noteq> []) [''nice'', ''ls'', ''-l''] = [''nice'', ''ls'', ''-l'']" by code_simp
  have "\<not> approved_request sample_parsed" by (simp add: approved_request_def sample_parsed_def)
  from unapproved_run_is_vouched[OF sample_handled[OF approvals] ordered.simps(1) sample_parse approvals(1) this] approvals(2)
  obtain words seg b where seg: "words = filter (\<lambda>w. trim w \<noteq> []) (pp_argv sample_parsed)"
      "seg = segment_of (rd_host sample_deps) (pp_cwd sample_parsed) (Some (pp_env sample_parsed)) (join_with '' '' words) words"
      "vouches (rd_host sample_deps) (run_context sample_deps sample_parsed approvals) seg b" "resolvePlannedSegmentArgv seg = Some [''/usr/bin/ls'', ''-l'']"
    by (auto simp del: vouches.simps)
  have sample: "rd_host sample_deps = sample_host" "pp_cwd sample_parsed = None" "pp_env sample_parsed = [(''PATH'', ''/usr/bin'')]"
    "pp_argv sample_parsed = [''nice'', ''ls'', ''-l'']" "join_with '' '' [''nice'', ''ls'', ''-l''] = ''nice ls -l''"
    by (simp_all add: sample_deps_def sample_parsed_def)
  hence "words = [''nice'', ''ls'', ''-l'']" using seg(1) words by simp
  thus ?thesis using seg(2-4) approvals(2) unfolding sample by (metis sample(5))
qed

definition approved_params :: system_run_params where
  "approved_params = sample_params [''ls''] (Some ''/work'') (Some ''allow-once'')"

definition approved_parsed :: parse_phase where
  "approved_parsed = sample_parsed\<lparr>pp_argv := [''ls''], pp_cwd := Some ''/work'', pp_approvalDecision := Some DecideOnce,
     pp_execution := \<lparr>xc_sessionKey = ''node'', xc_runId = ''run'', xc_cmdText = ''ls''\<rparr>\<rparr>"

definition work_snapshot :: cwd_snapshot where
  "work_snapshot = \<lparr>sn_cwd = ''/work'', sn_stat = plain_dir\<rparr>"

lemma approved_facts:
  "parseSystemRunPhase sample_deps approved_params = Inr approved_parsed"
  "hardenApprovedExecutionPaths sample_host True [''ls''] None (Some ''/work'') = Inr \<lparr>hp_argv = [''/usr/bin/ls''], hp_cwd = Some ''/work'', hp_snapshot = Some work_snapshot\<rparr>"
  "revalidateApprovedCwdSnapshot sample_host work_snapshot"
  "map_option (\<lambda>a. xs_security (xr_agent a)) (run_approvals sample_deps approved_parsed) = Some SecAllowlist"
  by code_simp+

lemma approved_run:
  assumes approvals: "run_approvals sample_deps approved_parsed = Some approvals" "xs_security (xr_agent approvals) = SecAllowlist"
  shows "Started [''/usr/bin/ls''] (Some ''/work'') [(''PATH'', ''/usr/bin'')] None \<in> set (ro_trace (handleSystemRunInvoke sample_deps approved_params))"
proof -
  have fields: "pp_argv approved_parsed = [''ls'']" "pp_shellCommand approved_parsed = None" "pp_cwd approved_parsed = Some ''/work''"
      "pp_env approved_parsed = [(''PATH'', ''/usr/bin'')]" "pp_approvalDecision approved_parsed = Some DecideOnce"
      "pp_timeoutMs approved_parsed = None" "\<not> pp_needsScreenRecording approved_parsed"
      "rd_host sample_deps = sample_host" "rd_start_host sample_deps = sample_host" "\<not> rd_preferMacAppExecHost sample_deps"
    by (simp_all add: approved_parsed_def sample_parsed_def sample_deps_def)
  let ?analysis = "run_analysis_of sample_deps approved_parsed approvals"
  let ?policy = "run_policy_of sample_deps approved_parsed approvals ?analysis"
  note exact = policy_exact[OF run_policy_of_def[of sample_deps approved_parsed approvals ?analysis]]
  have policy: "po_denied ?policy = None" "po_approvedByAsk ?policy"
    using exact by (simp_all add: fields approvals)
  define phase where what: "phase = parse_phase.extend (approved_parsed\<lparr>pp_argv := [''/usr/bin/ls''], pp_cwd := Some ''/work''\<rparr>)
     (policy_phase.fields approvals ?policy (ra_matches ?analysis) (ra_segments ?analysis) None (Some work_snapshot))"
  have phase: "plan_allowed_run sample_deps approved_parsed approvals ?analysis ?policy = Inr phase"
    using policy unfolding what by (simp add: plan_allowed_run_def fields approved_facts resolvePlannedAllowlistArgv_def approvals Let_def)
  have "evaluateSystemRunPolicyPhase sample_deps approved_parsed = Inr phase"
    using phase policy(1) by (simp add: evaluateSystemRunPolicyPhase_def approvals Let_def)
  moreover have "Started [''/usr/bin/ls''] (Some ''/work'') [(''PATH'', ''/usr/bin'')] None \<in> set (ro_trace (executeSystemRunPhase sample_deps phase))"
    unfolding what using policy(2)
    by (simp add: executeSystemRunPhase_def run_locally_def resolveSystemRunExecArgv_def fields approved_facts Let_def)
  ultimately show ?thesis by (simp add: handleSystemRunInvoke_def approved_facts)
qed

lemma approved_run_is_pinned_witness:
  "pinned_argv sample_host (Some ''/work'') None [''ls''] [''/usr/bin/ls''] \<and>
   (\<exists>st now. settled_directory sample_host (path_resolve sample_host [''/work'']) st \<and> settled_directory sample_host (path_resolve sample_host [''/work'']) now \<and>
      sameFileIdentity ''linux'' st now)"
proof -
  obtain approvals where approvals: "run_approvals sample_deps approved_parsed = Some approvals" "xs_security (xr_agent approvals) = SecAllowlist"
    using approved_facts(4) by auto
  have sample: "rd_host sample_deps = sample_host" "rd_start_host sample_deps = sample_host" "pp_cwd approved_parsed = Some ''/work''"
    "pp_shellCommand approved_parsed = None" "pp_argv approved_parsed = [''ls'']" "hs_platform sample_host = ''linux''" "approved_request approved_parsed"
    by (simp_all add: sample_deps_def approved_parsed_def sample_parsed_def sample_host_def approved_request_def)
  from approved_run_is_pinned[OF approved_run[OF approvals] ordered.simps(1) approved_facts(1) approvals(1) sample(7)] show ?thesis
    unfolding sample by auto
qed

end
