(* ===== verification/NodeInvoke.thy ===== *)
theory NodeInvoke
  imports SystemRun "HOL-Library.Word"
begin

text \<open>
  The invocations that a node answers (src/node-host/invoke.ts) and the settings of approvals as they
  are read and replaced over the wire, on a node and on the gateway
  (src/gateway/server-methods/exec-approvals.ts, base-hash.ts, and the snapshots of
  src/infra/exec-approvals.ts). The file on disk is a text or missing; JSON and SHA-256 are parameters.
  The output of a started process is captured by a step function on the events of the process.
\<close>

section \<open>Frames\<close>

record invoke_frame =
  if_id :: string
  if_nodeId :: string
  if_command :: string
  if_paramsJSON :: "string option"
  if_timeoutMs :: "js_value option"
  if_idempotencyKey :: "string option"

definition trimmed_field :: "(string \<times> js_value) list \<Rightarrow> string \<Rightarrow> string" where
  "trimmed_field obj key = (case field obj key of JStr s \<Rightarrow> trim s | _ \<Rightarrow> [])"

text \<open>\<open>stringify\<close> is \<open>JSON.stringify\<close>. A number is kept as it is.\<close>

definition coerceNodeInvokePayload :: "(js_value \<Rightarrow> string) \<Rightarrow> js_value \<Rightarrow> invoke_frame option" where
  "coerceNodeInvokePayload stringify payload = (case payload of JObj obj \<Rightarrow>
       (let ident = trimmed_field obj ''id''; nodeId = trimmed_field obj ''nodeId''; command = trimmed_field obj ''command'' in
        if ident = [] \<or> nodeId = [] \<or> command = [] then None
        else Some \<lparr>if_id = ident, if_nodeId = nodeId, if_command = command,
          if_paramsJSON = (case field obj ''paramsJSON'' of JStr s \<Rightarrow> Some s
             | _ \<Rightarrow> if field obj ''params'' \<noteq> JUndefined then Some (stringify (field obj ''params'')) else None),
          if_timeoutMs = (case field obj ''timeoutMs'' of JNum x \<Rightarrow> Some (JNum x) | _ \<Rightarrow> None),
          if_idempotencyKey = (case field obj ''idempotencyKey'' of JStr s \<Rightarrow> Some s | _ \<Rightarrow> None)\<rparr>)
     | JArr vs \<Rightarrow> None
     | _ \<Rightarrow> None)"

section \<open>The settings over the wire\<close>

record settings_codec =
  sc_parse :: "string \<Rightarrow> approvals_file option"
  sc_print :: "approvals_file \<Rightarrow> string"
  sc_hash :: "string \<Rightarrow> string"

record approvals_snapshot =
  ss_path :: string
  ss_exists :: bool
  ss_raw :: "string option"
  ss_file :: approvals_file
  ss_hash :: string

definition hashExecApprovalsRaw :: "settings_codec \<Rightarrow> string option \<Rightarrow> string" where
  "hashExecApprovalsRaw c raw = sc_hash c (nullish raw [])"

text \<open>\<open>sc_parse\<close> is None for a text that is no JSON or has another version; None of the result is an exception.\<close>

definition readExecApprovalsSnapshot :: "settings_codec \<Rightarrow> (nat \<Rightarrow> string) \<Rightarrow> nat \<Rightarrow> string \<Rightarrow> string option \<Rightarrow> approvals_snapshot option" where
  "readExecApprovalsSnapshot c uuid n stateDir disk =
     (let parsed = (case disk of None \<Rightarrow> None | Some raw \<Rightarrow> sc_parse c raw) in
      case normalizeExecApprovals uuid n (nullish parsed empty_file) of None \<Rightarrow> None
      | Some (file, _) \<Rightarrow> Some \<lparr>ss_path = resolveExecApprovalsPath stateDir, ss_exists = (disk \<noteq> None), ss_raw = disk, ss_file = file,
          ss_hash = hashExecApprovalsRaw c disk\<rparr>)"

definition ensure_on_disk ::
  "settings_codec \<Rightarrow> (nat \<Rightarrow> string) \<Rightarrow> string \<Rightarrow> string \<Rightarrow> string option \<Rightarrow> (approvals_file \<times> string option \<times> nat) option" where
  "ensure_on_disk c uuid stateDir token disk =
     (case ensureExecApprovals uuid 0 stateDir token (case disk of None \<Rightarrow> None | Some raw \<Rightarrow> sc_parse c raw) of None \<Rightarrow> None
      | Some (file, n) \<Rightarrow> Some (file, Some (sc_print c file), n))"

definition redactExecApprovals :: "approvals_file \<Rightarrow> approvals_file" where
  "redactExecApprovals file = file\<lparr>xf_socketPath := str_opt (trim (nullish (xf_socketPath file) [])), xf_token := None\<rparr>"

text \<open>The answers to \<open>get\<close> and \<open>set\<close>: path, existence, hash and the redacted file; a refusal; an exception.\<close>

datatype settings_answer = Snapshot string bool string approvals_file | Refused string | Threw

definition toExecApprovalsPayload :: "approvals_snapshot \<Rightarrow> settings_answer" where
  "toExecApprovalsPayload s = Snapshot (ss_path s) (ss_exists s) (ss_hash s) (redactExecApprovals (ss_file s))"

definition resolveBaseHashParam :: "js_value \<Rightarrow> string option" where
  "resolveBaseHashParam baseHash = normalizeNonEmptyString baseHash"

text \<open>The messages of the node and of the gateway for a missing hash, a missing base hash and a changed file.\<close>

datatype hash_problem = HashUnavailable | BaseHashRequired | SettingsChanged

definition requireBaseHash :: "js_value \<Rightarrow> approvals_snapshot \<Rightarrow> hash_problem option" where
  "requireBaseHash baseHash s =
     (if \<not> ss_exists s then None
      else if ss_hash s = [] then Some HashUnavailable
      else case resolveBaseHashParam baseHash of None \<Rightarrow> Some BaseHashRequired
        | Some b \<Rightarrow> if b \<noteq> ss_hash s then Some SettingsChanged else None)"

fun node_message :: "hash_problem \<Rightarrow> string" where
  "node_message HashUnavailable = ''Error: INVALID_REQUEST: exec approvals base hash unavailable; reload and retry''"
| "node_message BaseHashRequired = ''Error: INVALID_REQUEST: exec approvals base hash required; reload and retry''"
| "node_message SettingsChanged = ''Error: INVALID_REQUEST: exec approvals changed; reload and retry''"

fun gateway_message :: "hash_problem \<Rightarrow> string" where
  "gateway_message HashUnavailable = ''exec approvals base hash unavailable; re-run exec.approvals.get and retry''"
| "gateway_message BaseHashRequired = ''exec approvals base hash required; re-run exec.approvals.get and retry''"
| "gateway_message SettingsChanged = ''exec approvals changed since last load; re-run exec.approvals.get and retry''"

record settings_env =
  sv_codec :: settings_codec
  sv_uuid :: "nat \<Rightarrow> string"
  sv_stateDir :: string
  sv_token :: string

definition get_settings :: "settings_env \<Rightarrow> string option \<Rightarrow> settings_answer \<times> string option" where
  "get_settings v disk = (case ensure_on_disk (sv_codec v) (sv_uuid v) (sv_stateDir v) (sv_token v) disk of None \<Rightarrow> (Threw, disk)
     | Some (_, disk1, n) \<Rightarrow> (case readExecApprovalsSnapshot (sv_codec v) (sv_uuid v) n (sv_stateDir v) disk1 of None \<Rightarrow> (Threw, disk1)
         | Some s \<Rightarrow> (toExecApprovalsPayload s, disk1)))"

definition store_settings :: "settings_env \<Rightarrow> nat \<Rightarrow> approvals_snapshot \<Rightarrow> approvals_file \<Rightarrow> string option \<Rightarrow> settings_answer \<times> string option" where
  "store_settings v n s incoming disk1 = (case normalizeExecApprovals (sv_uuid v) n incoming of None \<Rightarrow> (Threw, disk1)
     | Some (normalized, m) \<Rightarrow>
         let disk2 = Some (sc_print (sv_codec v) (mergeExecApprovalsSocketDefaults (resolveExecApprovalsSocketPath (sv_stateDir v)) normalized (Some (ss_file s)))) in
         case readExecApprovalsSnapshot (sv_codec v) (sv_uuid v) m (sv_stateDir v) disk2 of None \<Rightarrow> (Threw, disk2)
         | Some s2 \<Rightarrow> (toExecApprovalsPayload s2, disk2))"

text \<open>\<open>incoming\<close> is None when the member \<open>file\<close> is missing or no object.\<close>

definition node_set_settings :: "settings_env \<Rightarrow> string option \<Rightarrow> approvals_file option \<Rightarrow> js_value \<Rightarrow> settings_answer \<times> string option" where
  "node_set_settings v disk incoming baseHash = (case incoming of None \<Rightarrow> (Refused ''Error: INVALID_REQUEST: exec approvals file required'', disk)
     | Some file \<Rightarrow> (case ensure_on_disk (sv_codec v) (sv_uuid v) (sv_stateDir v) (sv_token v) disk of None \<Rightarrow> (Threw, disk)
        | Some (_, disk1, n) \<Rightarrow> (case readExecApprovalsSnapshot (sv_codec v) (sv_uuid v) n (sv_stateDir v) disk1 of None \<Rightarrow> (Threw, disk1)
            | Some s \<Rightarrow> (case requireBaseHash baseHash s of Some problem \<Rightarrow> (Refused (node_message problem), disk1)
                | None \<Rightarrow> store_settings v n s file disk1))))"

definition gateway_set_settings :: "settings_env \<Rightarrow> string option \<Rightarrow> approvals_file option \<Rightarrow> js_value \<Rightarrow> settings_answer \<times> string option" where
  "gateway_set_settings v disk incoming baseHash =
     (case ensure_on_disk (sv_codec v) (sv_uuid v) (sv_stateDir v) (sv_token v) disk of None \<Rightarrow> (Threw, disk)
      | Some (_, disk1, n) \<Rightarrow> (case readExecApprovalsSnapshot (sv_codec v) (sv_uuid v) n (sv_stateDir v) disk1 of None \<Rightarrow> (Threw, disk1)
          | Some s \<Rightarrow> (case requireBaseHash baseHash s of Some problem \<Rightarrow> (Refused (gateway_message problem), disk1)
              | None \<Rightarrow> (case incoming of None \<Rightarrow> (Refused ''exec approvals file is required'', disk1)
                  | Some file \<Rightarrow> store_settings v n s file disk1))))"

section \<open>Which\<close>

definition DEFAULT_NODE_PATH :: string where
  "DEFAULT_NODE_PATH = ''/usr/local/sbin:/usr/local/bin:/usr/sbin:/usr/bin:/sbin:/bin''"

text \<open>On a host that is not Windows: the delimiter is a colon, and there is no list of extensions.\<close>

definition resolveEnvPath :: "host \<Rightarrow> (string, string) js_map option \<Rightarrow> string list" where
  "resolveEnvPath h env = (let own = nullish env [] in
     filter (\<lambda>d. d \<noteq> []) (split_on (CHR '':'')
       (nullish (nullish_opt (map_get own ''PATH'') (nullish_opt (map_get own ''Path'')
          (nullish_opt (map_get (hs_env h) ''PATH'') (map_get (hs_env h) ''Path'')))) DEFAULT_NODE_PATH)))"

definition resolveExecutable :: "host \<Rightarrow> string \<Rightarrow> (string, string) js_map option \<Rightarrow> string option" where
  "resolveExecutable h bin env = (if has_path_separator bin then None
     else find (\<lambda>candidate. hs_stat h candidate \<noteq> None) (map (\<lambda>dir. path_join [dir, bin]) (resolveEnvPath h env)))"

definition handleSystemWhich :: "host \<Rightarrow> string list \<Rightarrow> (string, string) js_map option \<Rightarrow> (string, string) js_map" where
  "handleSystemWhich h bins env = fold (\<lambda>bin found. case resolveExecutable h bin env of None \<Rightarrow> found
       | Some p \<Rightarrow> if p = [] then found else map_set bin p found) (nonempty_strs (map trim bins)) []"

section \<open>The output of a process\<close>

definition OUTPUT_CAP :: nat where "OUTPUT_CAP = 200000"

datatype output_stream = Stdout | Stderr

text \<open>What a child process can do: write a chunk, hit the timeout, fail to start, or exit (None: by a signal).\<close>

datatype process_event = Chunk output_stream "8 word list" | TimedOut | ProcessError string | ProcessExit "int option"

record capture =
  cp_stdout :: "8 word list"
  cp_stderr :: "8 word list"
  cp_outputLen :: nat
  cp_truncated :: bool
  cp_timedOut :: bool
  cp_settled :: "run_result option"

definition fresh_capture :: capture where
  "fresh_capture = \<lparr>cp_stdout = [], cp_stderr = [], cp_outputLen = 0, cp_truncated = False, cp_timedOut = False, cp_settled = None\<rparr>"

definition on_chunk :: "output_stream \<Rightarrow> 8 word list \<Rightarrow> capture \<Rightarrow> capture" where
  "on_chunk target chunk st =
     (if cp_outputLen st \<ge> OUTPUT_CAP then st\<lparr>cp_truncated := True\<rparr>
      else let remaining = OUTPUT_CAP - cp_outputLen st; slice = (if length chunk > remaining then take remaining chunk else chunk);
               st1 = st\<lparr>cp_outputLen := cp_outputLen st + length slice\<rparr>;
               st2 = (case target of Stdout \<Rightarrow> st1\<lparr>cp_stdout := cp_stdout st1 @ slice\<rparr> | Stderr \<Rightarrow> st1\<lparr>cp_stderr := cp_stderr st1 @ slice\<rparr>) in
        if length chunk > remaining then st2\<lparr>cp_truncated := True\<rparr> else st2)"

text \<open>\<open>decode\<close> turns captured bytes into text.\<close>

definition finalize_run :: "(8 word list \<Rightarrow> string) \<Rightarrow> int option \<Rightarrow> string option \<Rightarrow> capture \<Rightarrow> capture" where
  "finalize_run decode exitCode error st =
     (if cp_settled st \<noteq> None then st
      else st\<lparr>cp_settled := Some \<lparr>hr_exitCode = exitCode, hr_timedOut = cp_timedOut st,
        hr_success = (exitCode = Some 0 \<and> \<not> cp_timedOut st \<and> nullish error [] = []), hr_stdout = decode (cp_stdout st),
        hr_stderr = decode (cp_stderr st), hr_error = error, rr_truncated = cp_truncated st\<rparr>\<rparr>)"

text \<open>The timer is cleared when the result is settled.\<close>

definition process_step :: "(8 word list \<Rightarrow> string) \<Rightarrow> process_event \<Rightarrow> capture \<Rightarrow> capture" where
  "process_step decode e st = (case e of
       Chunk target chunk \<Rightarrow> on_chunk target chunk st
     | TimedOut \<Rightarrow> if cp_settled st \<noteq> None then st else st\<lparr>cp_timedOut := True\<rparr>
     | ProcessError message \<Rightarrow> finalize_run decode None (Some message) st
     | ProcessExit code \<Rightarrow> finalize_run decode code None st)"

definition runCommand :: "(8 word list \<Rightarrow> string) \<Rightarrow> process_event list \<Rightarrow> run_result option" where
  "runCommand decode events = cp_settled (fold (process_step decode) events fresh_capture)"

section \<open>The dispatch\<close>

text \<open>
  The answers to an invocation. \<open>RunReply\<close> is what the handler of a run request sends by itself. The
  decoders parse a JSON text and give the parameters of a command at their declared types, or the text
  of the exception; \<open>vd_thrown\<close> is the text of an exception out of the settings.
\<close>

datatype node_reply = SettingsReply settings_answer | WhichReply "(string, string) js_map" | PlanReply string run_plan | ProxyReply string
  | ErrorReply string string | RunReply "run_event list"

record invoke_deps =
  vd_settings :: settings_env
  vd_run :: run_deps
  vd_thrown :: string
  vd_decode_set :: "string \<Rightarrow> string + (approvals_file option \<times> js_value)"
  vd_decode_which :: "string \<Rightarrow> string + string list option"
  vd_decode_prepare :: "string \<Rightarrow> string + (string list option \<times> string option \<times> js_value \<times> js_value \<times> js_value)"
  vd_decode_run :: "string \<Rightarrow> string + (string list option \<times> system_run_params)"
  vd_proxy :: "string option \<Rightarrow> string + string"

definition decodeParams :: "(string \<Rightarrow> string + 'a) \<Rightarrow> string option \<Rightarrow> string + 'a" where
  "decodeParams decode raw = (if nullish raw [] = [] then Inl ''Error: INVALID_REQUEST: paramsJSON required'' else decode (nullish raw []))"

definition invalid :: "string \<Rightarrow> node_reply" where
  "invalid message = ErrorReply ''INVALID_REQUEST'' message"

definition includes_timed_out :: "string \<Rightarrow> bool" where
  "includes_timed_out message = str_includes (to_lower message) ''timed out''"

definition reply_to_get :: "invoke_deps \<Rightarrow> settings_answer \<Rightarrow> node_reply" where
  "reply_to_get d answer = (case answer of Snapshot _ _ _ _ \<Rightarrow> SettingsReply answer
     | Refused message \<Rightarrow> ErrorReply (if includes_timed_out message then ''TIMEOUT'' else ''INVALID_REQUEST'') message
     | Threw \<Rightarrow> ErrorReply (if includes_timed_out (vd_thrown d) then ''TIMEOUT'' else ''INVALID_REQUEST'') (vd_thrown d))"

definition reply_to_set :: "invoke_deps \<Rightarrow> settings_answer \<Rightarrow> node_reply" where
  "reply_to_set d answer = (case answer of Snapshot _ _ _ _ \<Rightarrow> SettingsReply answer | Refused message \<Rightarrow> invalid message | Threw \<Rightarrow> invalid (vd_thrown d))"

text \<open>A run request reads the settings, and writes them once it is known to be a command.\<close>

definition run_invocation :: "invoke_deps \<Rightarrow> string option \<Rightarrow> system_run_params \<Rightarrow> node_reply \<times> string option" where
  "run_invocation d disk params =
     (let v = vd_settings d;
          deps = (vd_run d)\<lparr>rd_contents := (case disk of None \<Rightarrow> None | Some raw \<Rightarrow> sc_parse (sv_codec v) raw), rd_uuid := sv_uuid v,
            rd_stateDir := sv_stateDir v, rd_generatedToken := sv_token v\<rparr>;
          outcome = handleSystemRunInvoke deps params in
      (RunReply (ro_trace outcome),
       case ro_file outcome of Some file \<Rightarrow> Some (sc_print (sv_codec v) file)
       | None \<Rightarrow> (case parseSystemRunPhase deps params of Inl _ \<Rightarrow> disk
           | Inr _ \<Rightarrow> (case ensure_on_disk (sv_codec v) (sv_uuid v) (sv_stateDir v) (sv_token v) disk of None \<Rightarrow> disk | Some (_, disk1, _) \<Rightarrow> disk1))))"

definition handleInvoke :: "invoke_deps \<Rightarrow> invoke_frame \<Rightarrow> string option \<Rightarrow> node_reply \<times> string option" where
  "handleInvoke d frame disk =
     (let command = if_command frame; raw = if_paramsJSON frame; h = rd_host (vd_run d) in
      if command = ''system.execApprovals.get'' then (case get_settings (vd_settings d) disk of (answer, disk1) \<Rightarrow> (reply_to_get d answer, disk1))
      else if command = ''system.execApprovals.set'' then
        (case decodeParams (vd_decode_set d) raw of Inl message \<Rightarrow> (invalid message, disk)
         | Inr (incoming, baseHash) \<Rightarrow> (case node_set_settings (vd_settings d) disk incoming baseHash of (answer, disk1) \<Rightarrow> (reply_to_set d answer, disk1)))
      else if command = ''system.which'' then
        (case decodeParams (vd_decode_which d) raw of Inl message \<Rightarrow> (invalid message, disk)
         | Inr None \<Rightarrow> (invalid ''Error: INVALID_REQUEST: bins required'', disk)
         | Inr (Some bins) \<Rightarrow> (WhichReply (handleSystemWhich h bins (Some (sanitizeEnv h None))), disk))
      else if command = ''browser.proxy'' then
        (case vd_proxy d raw of Inl message \<Rightarrow> (invalid message, disk) | Inr payload \<Rightarrow> (ProxyReply payload, disk))
      else if command = ''system.run.prepare'' then
        (case decodeParams (vd_decode_prepare d) raw of Inl message \<Rightarrow> (invalid message, disk)
         | Inr (argv, rawCommand, cwd, agentId, sessionKey) \<Rightarrow> (case buildSystemRunApprovalPlan h argv rawCommand cwd agentId sessionKey of
              Inl message \<Rightarrow> (invalid message, disk) | Inr (plan, cmdText) \<Rightarrow> (PlanReply cmdText plan, disk)))
      else if command \<noteq> ''system.run'' then (ErrorReply ''UNAVAILABLE'' ''command not supported'', disk)
      else (case decodeParams (vd_decode_run d) raw of Inl message \<Rightarrow> (invalid message, disk)
         | Inr (argv, params) \<Rightarrow> if nullish argv [] = [] then (invalid ''command required'', disk) else run_invocation d disk (params\<lparr>sr_command := nullish argv []\<rparr>)))"

section \<open>What is captured\<close>

text \<open>The bytes of a process in the order of its writes, up to the event that ends it.\<close>

fun ends_process :: "process_event \<Rightarrow> bool" where
  "ends_process (ProcessError _) = True"
| "ends_process (ProcessExit _) = True"
| "ends_process _ = False"

fun written :: "process_event \<Rightarrow> (output_stream \<times> 8 word) list" where
  "written (Chunk target chunk) = map (Pair target) chunk"
| "written _ = []"

definition output_before_end :: "process_event list \<Rightarrow> (output_stream \<times> 8 word) list" where
  "output_before_end events = concat (map written (takeWhile (\<lambda>e. \<not> ends_process e) events))"

definition bytes_on :: "output_stream \<Rightarrow> (output_stream \<times> 8 word) list \<Rightarrow> 8 word list" where
  "bytes_on target out = map snd (filter (\<lambda>b. fst b = target) out)"

definition captured :: "(output_stream \<times> 8 word) list \<Rightarrow> bool \<Rightarrow> capture \<Rightarrow> bool" where
  "captured out late st \<longleftrightarrow> cp_stdout st = bytes_on Stdout (take OUTPUT_CAP out) \<and> cp_stderr st = bytes_on Stderr (take OUTPUT_CAP out) \<and>
     cp_outputLen st = min OUTPUT_CAP (length out) \<and> cp_truncated st = (length out > OUTPUT_CAP) \<and> cp_timedOut st = late \<and> cp_settled st = None"

lemma bytes_on_append [simp]: "bytes_on t (xs @ ys) = bytes_on t xs @ bytes_on t ys"
  by (simp add: bytes_on_def)

lemma bytes_on_chunk [simp]: "bytes_on t (map (Pair target) chunk) = (if t = target then chunk else [])"
  by (induction chunk) (auto simp: bytes_on_def)

lemma captured_chunk:
  assumes "captured out late st" "chunk \<noteq> []"
  shows "captured (out @ map (Pair target) chunk) late (on_chunk target chunk st)"
proof (cases "cp_outputLen st \<ge> OUTPUT_CAP")
  case True
  thus ?thesis using assms by (auto simp: captured_def on_chunk_def)
next
  case False
  hence len: "length out < OUTPUT_CAP" "cp_outputLen st = length out" using assms(1) by (auto simp: captured_def)
  have "take OUTPUT_CAP (out @ map (Pair target) chunk) = out @ map (Pair target) (take (OUTPUT_CAP - length out) chunk)"
    using len by (simp add: take_map)
  thus ?thesis using assms(1) len by (cases target) (auto simp: captured_def on_chunk_def Let_def min_def)
qed

lemma captured_events:
  assumes "captured out late st" "\<forall>target. Chunk target [] \<notin> set events" "\<forall>e \<in> set events. \<not> ends_process e"
  shows "captured (out @ concat (map written events)) (late \<or> TimedOut \<in> set events) (fold (process_step decode) events st)"
  using assms
proof (induction events arbitrary: out late st)
  case (Cons e events)
  have step: "captured (out @ written e) (late \<or> e = TimedOut) (process_step decode e st)"
    using Cons.prems captured_chunk[of out late st] by (cases e) (auto simp: process_step_def captured_def)
  from Cons.IH[OF step] Cons.prems(2,3) show ?case by (simp add: disj_commute disj_left_commute eq_commute)
qed simp

lemma settled_stays: "cp_settled st = Some r \<Longrightarrow> cp_settled (fold (process_step decode) events st) = Some r"
proof (induction events arbitrary: st)
  case (Cons e events)
  have "cp_settled (process_step decode e st) = Some r"
    using Cons.prems by (cases e) (auto simp: process_step_def on_chunk_def finalize_run_def Let_def split: output_stream.splits)
  from Cons.IH[OF this] show ?case by simp
qed simp

definition exit_code :: "process_event \<Rightarrow> int option" where
  "exit_code e = (case e of ProcessExit code \<Rightarrow> code | _ \<Rightarrow> None)"

lemma ending_step:
  assumes "ends_process e" "captured out late st"
  shows "\<exists>r. cp_settled (process_step decode e st) = Some r \<and> hr_stdout r = decode (bytes_on Stdout (take OUTPUT_CAP out)) \<and>
    hr_stderr r = decode (bytes_on Stderr (take OUTPUT_CAP out)) \<and> rr_truncated r = (length out > OUTPUT_CAP) \<and> hr_timedOut r = late \<and>
    hr_exitCode r = exit_code e \<and> hr_success r = (e = ProcessExit (Some 0) \<and> \<not> late)"
  using assms by (cases e) (auto simp: process_step_def finalize_run_def captured_def exit_code_def)

text \<open>
  C19: a process has a result exactly when it ended, and the result is its output: the first 200000
  bytes that it wrote before its end, standard output and standard error together, each stream in
  order; the mark of a truncation is set exactly when it wrote more; the exit code is that of its
  first end, whatever comes later; and it is a success exactly when it exited with 0 and was not timed out.
  No chunk is empty, as Node never emits an empty one (an empty chunk after the limit would set the mark).
\<close>

theorem captured_output_exact:
  assumes "\<forall>target. Chunk target [] \<notin> set events"
  defines "out \<equiv> output_before_end events" and "late \<equiv> TimedOut \<in> set (takeWhile (\<lambda>e. \<not> ends_process e) events)"
  shows "case runCommand decode events of None \<Rightarrow> \<forall>e \<in> set events. \<not> ends_process e
    | Some r \<Rightarrow> hr_stdout r = decode (bytes_on Stdout (take OUTPUT_CAP out)) \<and> hr_stderr r = decode (bytes_on Stderr (take OUTPUT_CAP out)) \<and>
        rr_truncated r = (length out > OUTPUT_CAP) \<and> hr_timedOut r = late \<and>
        (\<exists>e. find ends_process events = Some e \<and> hr_exitCode r = exit_code e \<and> hr_success r = (e = ProcessExit (Some 0) \<and> \<not> late))"
proof -
  have start: "captured [] False fresh_capture" by (simp add: captured_def fresh_capture_def bytes_on_def OUTPUT_CAP_def)
  let ?pre = "takeWhile (\<lambda>e. \<not> ends_process e) events"
  have "\<forall>target. Chunk target [] \<notin> set ?pre" "\<forall>e \<in> set ?pre. \<not> ends_process e"
    using assms(1) by (auto dest: set_takeWhileD)
  from captured_events[OF start this, of decode] have pre: "captured out late (fold (process_step decode) ?pre fresh_capture)"
    by (simp add: out_def late_def output_before_end_def)
  have split: "events = ?pre @ dropWhile (\<lambda>e. \<not> ends_process e) events" by simp
  show ?thesis
  proof (cases "dropWhile (\<lambda>e. \<not> ends_process e) events")
    case Nil
    hence "?pre = events" "\<forall>e \<in> set events. \<not> ends_process e" using split by (simp_all add: dropWhile_eq_Nil_conv)
    moreover have "runCommand decode events = None" using pre[unfolded \<open>?pre = events\<close>] by (simp add: runCommand_def captured_def)
    ultimately show ?thesis by simp
  next
    case (Cons e rest)
    hence ends: "ends_process e" by (auto simp: dropWhile_eq_Cons_conv)
    have found: "find ends_process events = Some e" using Cons by (simp add: find_dropWhile comp_def)
    from ending_step[OF ends pre, of decode] obtain r where r: "cp_settled (process_step decode e (fold (process_step decode) ?pre fresh_capture)) = Some r"
      "hr_stdout r = decode (bytes_on Stdout (take OUTPUT_CAP out))" "hr_stderr r = decode (bytes_on Stderr (take OUTPUT_CAP out))"
      "rr_truncated r = (length out > OUTPUT_CAP)" "hr_timedOut r = late" "hr_exitCode r = exit_code e"
      "hr_success r = (e = ProcessExit (Some 0) \<and> \<not> late)" by blast
    have "runCommand decode (?pre @ e # rest) = Some r" using settled_stays[OF r(1)] by (simp add: runCommand_def)
    hence "runCommand decode events = Some r" using split Cons by simp
    thus ?thesis using r found by auto
  qed
qed

lemma captured_output_exact_witness:
  "runCommand (map (\<lambda>b. char_of (unat b))) [Chunk Stdout [104], Chunk Stderr [33], Chunk Stdout [105], ProcessExit (Some 0), Chunk Stdout [120]] \<noteq> None \<and>
   map_option hr_stdout (runCommand (map (\<lambda>b. char_of (unat b))) [Chunk Stdout [104], Chunk Stderr [33], Chunk Stdout [105], ProcessExit (Some 0), Chunk Stdout [120]]) = Some ''hi''"
proof -
  let ?events = "[Chunk Stdout [104], Chunk Stderr [33], Chunk Stdout [105], ProcessExit (Some 0), Chunk Stdout [120]]"
  let ?decode = "map (\<lambda>b :: 8 word. char_of (unat b)) :: 8 word list \<Rightarrow> string"
  have chunks: "\<forall>target. Chunk target [] \<notin> set ?events" by simp
  have "(char_of (104 :: nat) :: char) = CHR ''h''" "(char_of (105 :: nat) :: char) = CHR ''i''" by code_simp+
  then show ?thesis using captured_output_exact[OF chunks, of ?decode]
    by (simp add: output_before_end_def bytes_on_def OUTPUT_CAP_def split: option.splits)
qed

section \<open>Replacing the settings\<close>

text \<open>
  What the code relies on: JSON gives back the settings that were written, random ids, the
  generated token and hashes are texts without blanks at their ends, and so is the path of the socket.
\<close>

definition settings_env_ok :: "settings_env \<Rightarrow> bool" where
  "settings_env_ok v \<longleftrightarrow> (\<forall>file. settled_file file \<longrightarrow> sc_parse (sv_codec v) (sc_print (sv_codec v) file) = Some file) \<and>
     (\<forall>i. sv_uuid v i \<noteq> []) \<and> sv_token v \<noteq> [] \<and> trim (sv_token v) = sv_token v \<and>
     resolveExecApprovalsSocketPath (sv_stateDir v) \<noteq> [] \<and> trim (resolveExecApprovalsSocketPath (sv_stateDir v)) = resolveExecApprovalsSocketPath (sv_stateDir v) \<and>
     (\<forall>raw. sc_hash (sv_codec v) raw \<noteq> [] \<and> trim (sc_hash (sv_codec v) raw) = sc_hash (sv_codec v) raw)"

text \<open>The settings that every operation puts on the disk before it looks at them.\<close>

definition settings_on_disk :: "settings_env \<Rightarrow> string option \<Rightarrow> approvals_file" where
  "settings_on_disk v disk = (case ensure_on_disk (sv_codec v) (sv_uuid v) (sv_stateDir v) (sv_token v) disk of None \<Rightarrow> empty_file | Some (file, _) \<Rightarrow> file)"

abbreviation printed :: "settings_env \<Rightarrow> approvals_file \<Rightarrow> string" where
  "printed v file \<equiv> sc_print (sv_codec v) file"

lemma trimmed_str_or: "trimmed_text (Some t) \<Longrightarrow> trimmed_text (Some (str_or (trim s) t))"
  by (cases "trim s = []") (simp_all add: trimmed_text_def)

lemma ensured:
  assumes "settings_env_ok v"
  shows "\<exists>n. ensure_on_disk (sv_codec v) (sv_uuid v) (sv_stateDir v) (sv_token v) disk = Some (settings_on_disk v disk, Some (printed v (settings_on_disk v disk)), n) \<and>
    settled_file (settings_on_disk v disk) \<and> xf_token (settings_on_disk v disk) \<noteq> None \<and> xf_socketPath (settings_on_disk v disk) \<noteq> None"
proof -
  let ?contents = "case disk of None \<Rightarrow> None | Some raw \<Rightarrow> sc_parse (sv_codec v) raw"
  obtain loaded m where loaded: "loadExecApprovals (sv_uuid v) 0 ?contents = (loaded, m)" by fastforce
  hence "map_get (xf_agents loaded) ''default'' = None" using loaded_without_default[of "sv_uuid v" 0 ?contents] by simp
  from normalize_without_default[OF this, of "sv_uuid v" m] obtain next1 k where
    next1: "normalizeExecApprovals (sv_uuid v) m loaded = Some (next1, k)" by blast
  have settled: "settled_file next1" using normal_settled[OF _ next1] assms by (simp add: settings_env_ok_def)
  let ?path = "str_or (trim (nullish (xf_socketPath next1) [])) (resolveExecApprovalsSocketPath (sv_stateDir v))"
  let ?token = "str_or (trim (nullish (xf_token next1) [])) (sv_token v)"
  let ?file = "next1\<lparr>xf_socketPath := Some ?path, xf_token := Some ?token\<rparr>"
  have "trimmed_text (Some ?path)" "trimmed_text (Some ?token)" using assms trimmed_str_or by (simp_all add: settings_env_ok_def trimmed_text_def)
  hence "settled_file ?file" using settled by (simp add: settled_file_def)
  moreover have "ensure_on_disk (sv_codec v) (sv_uuid v) (sv_stateDir v) (sv_token v) disk = Some (?file, Some (printed v ?file), k)"
    using loaded next1 by (simp add: ensure_on_disk_def ensureExecApprovals_def)
  ultimately show ?thesis by (simp add: settings_on_disk_def)
qed

lemma read_settled:
  assumes "settings_env_ok v" "settled_file file"
  shows "readExecApprovalsSnapshot (sv_codec v) (sv_uuid v) n (sv_stateDir v) (Some (printed v file)) =
    Some \<lparr>ss_path = resolveExecApprovalsPath (sv_stateDir v), ss_exists = True, ss_raw = Some (printed v file), ss_file = file,
      ss_hash = sc_hash (sv_codec v) (printed v file)\<rparr>"
  using assms settled_normal[OF assms(2)] by (simp add: readExecApprovalsSnapshot_def settings_env_ok_def hashExecApprovalsRaw_def Let_def)

definition shown :: "settings_env \<Rightarrow> approvals_file \<Rightarrow> settings_answer" where
  "shown v file = Snapshot (resolveExecApprovalsPath (sv_stateDir v)) True (sc_hash (sv_codec v) (printed v file)) (redactExecApprovals file)"

lemma get_shows:
  assumes "settings_env_ok v"
  shows "get_settings v disk = (shown v (settings_on_disk v disk), Some (printed v (settings_on_disk v disk)))"
  using ensured[OF assms, of disk] read_settled[OF assms] by (auto simp: get_settings_def toExecApprovalsPayload_def shown_def)

text \<open>What is stored: the normal form of what was sent, with the socket and the token of the node where none was sent.\<close>

definition stored :: "settings_env \<Rightarrow> approvals_file \<Rightarrow> approvals_file \<Rightarrow> approvals_file \<Rightarrow> bool" where
  "stored v current incoming new = (\<exists>n m normalized. normalizeExecApprovals (sv_uuid v) n incoming = Some (normalized, m) \<and>
     new = normalized\<lparr>xf_socketPath := nullish_opt (xf_socketPath normalized) (xf_socketPath current), xf_token := nullish_opt (xf_token normalized) (xf_token current)\<rparr>)"

lemma merged_stored:
  assumes "settled_file normalized" "settled_file current" "xf_token current \<noteq> None" "xf_socketPath current \<noteq> None"
  shows "mergeExecApprovalsSocketDefaults p normalized (Some current) =
      normalized\<lparr>xf_socketPath := nullish_opt (xf_socketPath normalized) (xf_socketPath current), xf_token := nullish_opt (xf_token normalized) (xf_token current)\<rparr>"
    "settled_file (mergeExecApprovalsSocketDefaults p normalized (Some current))"
proof -
  have trims: "map_option trim x = x" if "trimmed_text x" for x using that by (cases x) (simp_all add: trimmed_text_def)
  have t: "trimmed_text (xf_socketPath normalized)" "trimmed_text (xf_token normalized)" "trimmed_text (xf_socketPath current)" "trimmed_text (xf_token current)"
    using assms(1,2) by (simp_all add: settled_file_def)
  show eq: "mergeExecApprovalsSocketDefaults p normalized (Some current) =
      normalized\<lparr>xf_socketPath := nullish_opt (xf_socketPath normalized) (xf_socketPath current), xf_token := nullish_opt (xf_token normalized) (xf_token current)\<rparr>"
    using assms(3,4) t[THEN trims]
    by (cases "xf_socketPath normalized"; cases "xf_token normalized"; cases "xf_socketPath current"; cases "xf_token current")
       (simp_all add: mergeExecApprovalsSocketDefaults_def nullish_opt_def Let_def)
  have "trimmed_text (nullish_opt a b)" if "trimmed_text a" "trimmed_text b" for a b using that by (cases a) (simp_all add: nullish_opt_def)
  thus "settled_file (mergeExecApprovalsSocketDefaults p normalized (Some current))" unfolding eq using assms(1) t by (simp add: settled_file_def)
qed

lemma kept_on_disk:
  assumes "settings_env_ok v" "settled_file file" "xf_token file \<noteq> None" "xf_socketPath file \<noteq> None"
  shows "settings_on_disk v (Some (printed v file)) = file"
proof -
  obtain t p where tp: "xf_token file = Some t" "xf_socketPath file = Some p" using assms(3,4) by auto
  hence "trim t = t" "t \<noteq> []" "trim p = p" "p \<noteq> []" using assms(2) by (simp_all add: settled_file_def trimmed_text_def)
  moreover have "sc_parse (sv_codec v) (printed v file) = Some file" using assms(1,2) by (simp add: settings_env_ok_def)
  ultimately show ?thesis using settled_normal[OF assms(2)] tp
    by (simp add: settings_on_disk_def ensure_on_disk_def ensureExecApprovals_def loadExecApprovals_def)
qed

lemma stored_result:
  assumes "settings_env_ok v" "settled_file (ss_file s)" "xf_token (ss_file s) \<noteq> None" "xf_socketPath (ss_file s) \<noteq> None"
    and "merge_default_agent (xf_agents incoming) \<noteq> None"
  shows "\<exists>new. stored v (ss_file s) incoming new \<and> store_settings v n s incoming disk = (shown v new, Some (printed v new)) \<and>
    settings_on_disk v (Some (printed v new)) = new"
proof -
  obtain normalized m where normal: "normalizeExecApprovals (sv_uuid v) n incoming = Some (normalized, m)"
    using assms(5) by (cases "merge_default_agent (xf_agents incoming)"; cases "normalize_agents (sv_uuid v) n (the (merge_default_agent (xf_agents incoming)))")
      (auto simp: normalizeExecApprovals_def)
  hence settled: "settled_file normalized" using normal_settled[OF _ normal] assms(1) by (simp add: settings_env_ok_def)
  let ?new = "mergeExecApprovalsSocketDefaults (resolveExecApprovalsSocketPath (sv_stateDir v)) normalized (Some (ss_file s))"
  note merged = merged_stored[OF settled assms(2-4), of "resolveExecApprovalsSocketPath (sv_stateDir v)"]
  have "stored v (ss_file s) incoming ?new" using normal merged(1) by (auto simp: stored_def)
  moreover have "store_settings v n s incoming disk = (shown v ?new, Some (printed v ?new))"
    using normal read_settled[OF assms(1) merged(2)] by (simp add: store_settings_def toExecApprovalsPayload_def shown_def Let_def)
  moreover have "xf_token ?new \<noteq> None" "xf_socketPath ?new \<noteq> None"
    by (simp_all add: mergeExecApprovalsSocketDefaults_def Let_def)
  ultimately show ?thesis using kept_on_disk[OF assms(1) merged(2)] by blast
qed

definition shows_settings :: "settings_answer \<Rightarrow> bool" where
  "shows_settings answer = (case answer of Snapshot _ _ _ _ \<Rightarrow> True | _ \<Rightarrow> False)"

definition base_hash_matches :: "settings_env \<Rightarrow> approvals_file \<Rightarrow> js_value \<Rightarrow> bool" where
  "base_hash_matches v current baseHash = (\<exists>b. baseHash = JStr b \<and> trim b = sc_hash (sv_codec v) (printed v current))"

lemma required_hash:
  assumes "settings_env_ok v" "settled_file current" "readExecApprovalsSnapshot (sv_codec v) (sv_uuid v) n (sv_stateDir v) (Some (printed v current)) = Some s"
  shows "requireBaseHash baseHash s = None \<longleftrightarrow> base_hash_matches v current baseHash"
proof -
  have "ss_exists s" "ss_hash s = sc_hash (sv_codec v) (printed v current)" "ss_hash s \<noteq> []"
    using assms read_settled[OF assms(1,2), of n] by (auto simp: settings_env_ok_def)
  thus ?thesis
    by (auto simp: requireBaseHash_def base_hash_matches_def resolveBaseHashParam_def normalizeNonEmptyString_def str_opt_def split: js_value.splits option.splits if_splits)
qed

lemma settings_register:
  assumes "settings_env_ok v" "replace \<in> {node_set_settings v, gateway_set_settings v}"
  defines "value \<equiv> settings_on_disk v"
  shows "fst (get_settings v disk) = shown v (value disk) \<and> value (snd (get_settings v disk)) = value disk \<and>
    (case replace disk incoming baseHash of (answer, disk') \<Rightarrow>
       if base_hash_matches v (value disk) baseHash \<and> incoming \<noteq> None \<and> merge_default_agent (xf_agents (the incoming)) \<noteq> None
       then stored v (value disk) (the incoming) (value disk') \<and> answer = shown v (value disk')
       else \<not> shows_settings answer \<and> value disk' = value disk)"
proof -
  obtain n where ensured: "ensure_on_disk (sv_codec v) (sv_uuid v) (sv_stateDir v) (sv_token v) disk = Some (value disk, Some (printed v (value disk)), n)"
    "settled_file (value disk)" "xf_token (value disk) \<noteq> None" "xf_socketPath (value disk) \<noteq> None"
    using ensured[OF assms(1), of disk] unfolding value_def by blast
  note kept = kept_on_disk[OF assms(1) ensured(2-4), folded value_def] and snapshot = read_settled[OF assms(1) ensured(2), of n]
  obtain s where s: "readExecApprovalsSnapshot (sv_codec v) (sv_uuid v) n (sv_stateDir v) (Some (printed v (value disk))) = Some s" "ss_file s = value disk"
    using snapshot by simp
  note hash = required_hash[OF assms(1) ensured(2) s(1), of baseHash]
  have get: "fst (get_settings v disk) = shown v (value disk)" "value (snd (get_settings v disk)) = value disk"
    using get_shows[OF assms(1), of disk] kept by (simp_all add: value_def)
  have throws: "store_settings v n s f (Some (printed v (value disk))) = (Threw, Some (printed v (value disk)))"
    if "merge_default_agent (xf_agents f) = None" for f
    using that by (simp add: store_settings_def normalizeExecApprovals_def)
  have good: "\<exists>new. stored v (value disk) f new \<and> store_settings v n s f (Some (printed v (value disk))) = (shown v new, Some (printed v new)) \<and>
      value (Some (printed v new)) = new" if "merge_default_agent (xf_agents f) \<noteq> None" for f
    using stored_result[OF assms(1) _ _ _ that, of s n] ensured(2-4) s(2) unfolding value_def by simp
  show ?thesis
  proof (cases "base_hash_matches v (value disk) baseHash \<and> incoming \<noteq> None \<and> merge_default_agent (xf_agents (the incoming)) \<noteq> None")
    case True
    then obtain sent where sent: "incoming = Some sent" "merge_default_agent (xf_agents sent) \<noteq> None" by auto
    have "replace disk incoming baseHash = store_settings v n s sent (Some (printed v (value disk)))"
      using assms(2) ensured(1) s(1) hash True sent(1) by (auto simp: node_set_settings_def gateway_set_settings_def)
    thus ?thesis using get good[OF sent(2)] True sent(1) by auto
  next
    case False
    have "case replace disk incoming baseHash of (answer, disk') \<Rightarrow> \<not> shows_settings answer \<and> value disk' = value disk"
      using assms(2) ensured(1) s(1) hash False kept throws
      by (auto simp: node_set_settings_def gateway_set_settings_def shows_settings_def split: option.splits)
    thus ?thesis using get False by auto
  qed
qed

section \<open>Versioned registers\<close>

text \<open>
  A cell with versions, read from a state of type \<open>'d\<close> in an environment: a replacement names the
  version it is based on.
\<close>

locale versioned_register =
  fixes ok :: "'e \<Rightarrow> bool" and cell :: "'e \<Rightarrow> 'd \<Rightarrow> 'v" and version :: "'e \<Rightarrow> 'v \<Rightarrow> 'h"
    and accepts :: "'e \<Rightarrow> 'd \<Rightarrow> 'r \<Rightarrow> 'h \<Rightarrow> bool" and update :: "'e \<Rightarrow> 'd \<Rightarrow> 'r \<Rightarrow> 'h \<Rightarrow> 'd"
  assumes accepted_version: "ok e \<Longrightarrow> accepts e d r t \<Longrightarrow> t = version e (cell e d)"
    and refused_keeps: "ok e \<Longrightarrow> \<not> accepts e d r t \<Longrightarrow> cell e (update e d r t) = cell e d"
begin

lemma accepted_on_what_was_read:
  assumes "ok e" "\<And>x y. version e (cell e x) = version e (cell e y) \<Longrightarrow> cell e x = cell e y"
    and "accepts e (fold (\<lambda>(r, t) d. update e d r t) requests d) r (version e (cell e d))"
  shows "cell e (fold (\<lambda>(r, t) d. update e d r t) requests d) = cell e d"
  using accepted_version[OF assms(1,3)] assms(2) by metis

lemma first_change:
  assumes "ok e" "cell e (fold (\<lambda>(r, t) d. update e d r t) requests d) \<noteq> cell e d"
  shows "\<exists>earlier r t later. requests = earlier @ (r, t) # later \<and> t = version e (cell e d) \<and>
    accepts e (fold (\<lambda>(r, t) d. update e d r t) earlier d) r t"
  using assms(2)
proof (induction requests rule: rev_induct)
  case (snoc q qs)
  obtain r t where q: "q = (r, t)" by force
  let ?d = "fold (\<lambda>(r, t) d. update e d r t) qs d"
  show ?case
  proof (cases "cell e ?d = cell e d")
    case True
    hence acc: "accepts e ?d r t" using refused_keeps[OF assms(1), of ?d r t] snoc.prems q by auto
    hence "t = version e (cell e d)" using accepted_version[OF assms(1)] True by metis
    thus ?thesis using acc q by blast
  next
    case False
    then obtain earlier r2 t2 later where "qs = earlier @ (r2, t2) # later" "t2 = version e (cell e d)"
      "accepts e (fold (\<lambda>(r, t) d. update e d r t) earlier d) r2 t2" using snoc.IH by blast
    thus ?thesis by (intro exI[of _ earlier] exI[of _ r2] exI[of _ t2] exI[of _ "later @ [q]"]) simp
  qed
qed simp

end

definition settings_version :: "settings_env \<Rightarrow> approvals_file \<Rightarrow> string" where
  "settings_version v file = sc_hash (sv_codec v) (printed v file)"

definition node_accepts :: "settings_env \<Rightarrow> string option \<Rightarrow> approvals_file option \<Rightarrow> string \<Rightarrow> bool" where
  "node_accepts v disk incoming t = (trim t = t \<and> shows_settings (fst (node_set_settings v disk incoming (JStr t))))"

definition gateway_accepts :: "settings_env \<Rightarrow> string option \<Rightarrow> approvals_file option \<Rightarrow> string \<Rightarrow> bool" where
  "gateway_accepts v disk incoming t = (trim t = t \<and> shows_settings (fst (gateway_set_settings v disk incoming (JStr t))))"

lemma replaced_version:
  assumes "settings_env_ok v" "replace \<in> {node_set_settings v, gateway_set_settings v}"
  shows "trim t = t \<Longrightarrow> shows_settings (fst (replace disk incoming (JStr t))) \<Longrightarrow> t = settings_version v (settings_on_disk v disk)"
    "\<not> shows_settings (fst (replace disk incoming (JStr t))) \<Longrightarrow> settings_on_disk v (snd (replace disk incoming (JStr t))) = settings_on_disk v disk"
  using settings_register[OF assms, where disk = disk and incoming = incoming and baseHash = "JStr t"]
  by (auto simp: base_hash_matches_def settings_version_def shown_def shows_settings_def split: prod.splits if_splits)

interpretation node_settings: versioned_register settings_env_ok settings_on_disk settings_version node_accepts
  "\<lambda>v disk incoming t. if trim t = t then snd (node_set_settings v disk incoming (JStr t)) else disk"
  by unfold_locales (auto simp: node_accepts_def intro: replaced_version)

interpretation gateway_settings: versioned_register settings_env_ok settings_on_disk settings_version gateway_accepts
  "\<lambda>v disk incoming t. if trim t = t then snd (gateway_set_settings v disk incoming (JStr t)) else disk"
  by unfold_locales (auto simp: gateway_accepts_def intro: replaced_version)

lemma first_edit_builds_on_what_was_read:
  "settings_env_ok v \<Longrightarrow> settings_on_disk v (fold (\<lambda>(r, t) d. if trim t = t then snd (node_set_settings v d r (JStr t)) else d) requests disk) \<noteq> settings_on_disk v disk \<Longrightarrow>
    \<exists>earlier r t later. requests = earlier @ (r, t) # later \<and> t = settings_version v (settings_on_disk v disk) \<and>
      node_accepts v (fold (\<lambda>(r, t) d. if trim t = t then snd (node_set_settings v d r (JStr t)) else d) earlier disk) r t"
  by (rule node_settings.first_change)

text \<open>
  C18: the settings of a node, and of the gateway, are a compare-and-swap register: reading them shows
  their value with its hash and without the token, and changes nothing; replacing them succeeds
  exactly for a readable file with the hash of the present value as base hash, so that nothing
  written in between is lost, and then stores the normal form of what was sent, with the
  present token and socket where none was sent, as the value that is shown and read from then on;
  refused or failed, it leaves the value as it was.
\<close>

theorem settings_are_compare_and_swap:
  assumes "settings_env_ok v" "replace \<in> {node_set_settings v, gateway_set_settings v}"
  defines "value \<equiv> settings_on_disk v"
  shows "fst (get_settings v disk) = shown v (value disk) \<and> value (snd (get_settings v disk)) = value disk \<and>
    (case replace disk incoming baseHash of (answer, disk') \<Rightarrow>
       if base_hash_matches v (value disk) baseHash \<and> incoming \<noteq> None \<and> merge_default_agent (xf_agents (the incoming)) \<noteq> None
       then stored v (value disk) (the incoming) (value disk') \<and> answer = shown v (value disk')
       else \<not> shows_settings answer \<and> value disk' = value disk)"
  using settings_register[OF assms(1,2)] unfolding value_def .

section \<open>A concrete encoding\<close>

text \<open>An encoding of the settings as a text that is read back, as an example of the parameters: every part reads its own text and leaves the rest.\<close>

definition decodes :: "('a \<Rightarrow> string) \<Rightarrow> (string \<Rightarrow> ('a \<times> string) option) \<Rightarrow> bool" where
  "decodes enc dec = (\<forall>x rest. dec (enc x @ rest) = Some (x, rest))"

named_theorems decoding

definition enc_nat :: "nat \<Rightarrow> string" where
  "enc_nat n = replicate n (CHR ''i'') @ ''.''"

fun dec_nat :: "string \<Rightarrow> (nat \<times> string) option" where
  "dec_nat [] = None"
| "dec_nat (c # s) = (if c = CHR ''i'' then map_option (map_prod Suc id) (dec_nat s) else Some (0, s))"

definition enc_list :: "('a \<Rightarrow> string) \<Rightarrow> 'a list \<Rightarrow> string" where
  "enc_list enc xs = enc_nat (length xs) @ concat (map enc xs)"

fun dec_times :: "nat \<Rightarrow> (string \<Rightarrow> ('a \<times> string) option) \<Rightarrow> string \<Rightarrow> ('a list \<times> string) option" where
  "dec_times 0 dec s = Some ([], s)"
| "dec_times (Suc n) dec s = (case dec s of None \<Rightarrow> None | Some (x, t) \<Rightarrow> map_option (map_prod (Cons x) id) (dec_times n dec t))"

definition dec_list :: "(string \<Rightarrow> ('a \<times> string) option) \<Rightarrow> string \<Rightarrow> ('a list \<times> string) option" where
  "dec_list dec s = (case dec_nat s of None \<Rightarrow> None | Some (n, t) \<Rightarrow> dec_times n dec t)"

definition enc_pair :: "('a \<Rightarrow> string) \<Rightarrow> ('b \<Rightarrow> string) \<Rightarrow> 'a \<times> 'b \<Rightarrow> string" where
  "enc_pair e1 e2 p = e1 (fst p) @ e2 (snd p)"

definition dec_pair :: "(string \<Rightarrow> ('a \<times> string) option) \<Rightarrow> (string \<Rightarrow> ('b \<times> string) option) \<Rightarrow> string \<Rightarrow> (('a \<times> 'b) \<times> string) option" where
  "dec_pair d1 d2 s = (case d1 s of None \<Rightarrow> None | Some (x, t) \<Rightarrow> (case d2 t of None \<Rightarrow> None | Some (y, u) \<Rightarrow> Some ((x, y), u)))"

definition enc_via :: "('a \<Rightarrow> 'b) \<Rightarrow> ('b \<Rightarrow> string) \<Rightarrow> 'a \<Rightarrow> string" where
  "enc_via f enc x = enc (f x)"

definition dec_via :: "('b \<Rightarrow> 'a) \<Rightarrow> (string \<Rightarrow> ('b \<times> string) option) \<Rightarrow> string \<Rightarrow> ('a \<times> string) option" where
  "dec_via g dec s = map_option (map_prod g id) (dec s)"

fun dec_char :: "string \<Rightarrow> (char \<times> string) option" where
  "dec_char [] = None" | "dec_char (c # s) = Some (c, s)"

lemma decodes_nat [decoding]: "decodes enc_nat dec_nat"
proof -
  have "dec_nat (enc_nat n @ rest) = Some (n, rest)" for n rest by (induction n) (simp_all add: enc_nat_def)
  thus ?thesis by (simp add: decodes_def)
qed

lemma decodes_char [decoding]: "decodes (\<lambda>c. [c]) dec_char"
  by (simp add: decodes_def)

lemma decodes_list [decoding]:
  assumes "decodes enc dec"
  shows "decodes (enc_list enc) (dec_list dec)"
proof -
  have "dec_times (length xs) dec (concat (map enc xs) @ rest) = Some (xs, rest)" for xs rest
    using assms by (induction xs) (simp_all add: decodes_def)
  thus ?thesis using decodes_nat by (simp add: decodes_def enc_list_def dec_list_def)
qed

lemma decodes_pair [decoding]: "decodes e1 d1 \<Longrightarrow> decodes e2 d2 \<Longrightarrow> decodes (enc_pair e1 e2) (dec_pair d1 d2)"
  by (simp add: decodes_def enc_pair_def dec_pair_def)

lemma decodes_via: "decodes enc dec \<Longrightarrow> \<forall>x. g (f x) = x \<Longrightarrow> decodes (enc_via f enc) (dec_via g dec)"
  by (simp add: decodes_def enc_via_def dec_via_def)

text \<open>Options are lists of at most one element, and the tag of a variant is a number.\<close>

definition enc_option :: "('a \<Rightarrow> string) \<Rightarrow> 'a option \<Rightarrow> string" where
  "enc_option enc = enc_via (\<lambda>x. case x of None \<Rightarrow> [] | Some y \<Rightarrow> [y]) (enc_list enc)"

definition dec_option :: "(string \<Rightarrow> ('a \<times> string) option) \<Rightarrow> string \<Rightarrow> ('a option \<times> string) option" where
  "dec_option dec = dec_via (\<lambda>xs. case xs of [] \<Rightarrow> None | y # _ \<Rightarrow> Some y) (dec_list dec)"

lemma decodes_option [decoding]: "decodes enc dec \<Longrightarrow> decodes (enc_option enc) (dec_option dec)"
  unfolding enc_option_def dec_option_def by (rule decodes_via) (auto intro: decoding split: option.split)

abbreviation enc_text :: "string \<Rightarrow> string" where "enc_text \<equiv> enc_list (\<lambda>c. [c])"
abbreviation dec_text :: "string \<Rightarrow> (string \<times> string) option" where "dec_text \<equiv> dec_list dec_char"

definition enc_int :: "int \<Rightarrow> string" where
  "enc_int = enc_via (\<lambda>i. (nat i, nat (- i))) (enc_pair enc_nat enc_nat)"

definition dec_int :: "string \<Rightarrow> (int \<times> string) option" where
  "dec_int = dec_via (\<lambda>(a, b). int a - int b) (dec_pair dec_nat dec_nat)"

definition enc_bool :: "bool \<Rightarrow> string" where "enc_bool = enc_via (\<lambda>b. if b then 1 else 0) enc_nat"
definition dec_bool :: "string \<Rightarrow> (bool \<times> string) option" where "dec_bool = dec_via (\<lambda>n. n = 1) dec_nat"

lemma decodes_int [decoding]: "decodes enc_int dec_int"
  unfolding enc_int_def dec_int_def by (rule decodes_via) (auto intro: decoding)

lemma decodes_bool [decoding]: "decodes enc_bool dec_bool"
  unfolding enc_bool_def dec_bool_def by (rule decodes_via) (auto intro: decoding)

abbreviation "enc_opt_text \<equiv> enc_option enc_text"
abbreviation "dec_opt_text \<equiv> dec_option dec_text"

definition enc_entry :: "allowlist_entry \<Rightarrow> string" where
  "enc_entry = enc_via (\<lambda>e. (al_id e, al_pattern e, al_lastUsedAt e, al_lastUsedCommand e, al_lastResolvedPath e))
     (enc_pair enc_opt_text (enc_pair enc_text (enc_pair (enc_option enc_int) (enc_pair enc_opt_text enc_opt_text))))"

definition dec_entry :: "string \<Rightarrow> (allowlist_entry \<times> string) option" where
  "dec_entry = dec_via (\<lambda>(i, p, a, c, r). \<lparr>al_id = i, al_pattern = p, al_lastUsedAt = a, al_lastUsedCommand = c, al_lastResolvedPath = r\<rparr>)
     (dec_pair dec_opt_text (dec_pair dec_text (dec_pair (dec_option dec_int) (dec_pair dec_opt_text dec_opt_text))))"

lemma decodes_entry [decoding]: "decodes enc_entry dec_entry"
  unfolding enc_entry_def dec_entry_def by (rule decodes_via) (auto intro!: decoding)

definition enc_item :: "allowlist_item \<Rightarrow> string" where
  "enc_item = enc_via (\<lambda>i. case i of ItemEntry e \<Rightarrow> (Some e, None, False) | ItemText t \<Rightarrow> (None, Some t, False)
       | ItemPlain \<Rightarrow> (None, None, True) | ItemBroken \<Rightarrow> (None, None, False))
     (enc_pair (enc_option enc_entry) (enc_pair enc_opt_text enc_bool))"

definition dec_item :: "string \<Rightarrow> (allowlist_item \<times> string) option" where
  "dec_item = dec_via (\<lambda>(e, t, p). case e of Some x \<Rightarrow> ItemEntry x | None \<Rightarrow> (case t of Some x \<Rightarrow> ItemText x | None \<Rightarrow> if p then ItemPlain else ItemBroken))
     (dec_pair (dec_option dec_entry) (dec_pair dec_opt_text dec_bool))"

lemma decodes_item [decoding]: "decodes enc_item dec_item"
  unfolding enc_item_def dec_item_def by (rule decodes_via) (auto intro!: decoding split: allowlist_item.split)

abbreviation "enc_settings \<equiv> enc_pair enc_opt_text (enc_pair enc_opt_text (enc_pair enc_opt_text (enc_option enc_bool)))"
abbreviation "dec_settings \<equiv> dec_pair dec_opt_text (dec_pair dec_opt_text (dec_pair dec_opt_text (dec_option dec_bool)))"

definition enc_defaults :: "approvals_defaults \<Rightarrow> string" where
  "enc_defaults = enc_via (\<lambda>d. (xd_security d, xd_ask d, xd_askFallback d, xd_autoAllowSkills d)) enc_settings"

definition dec_defaults :: "string \<Rightarrow> (approvals_defaults \<times> string) option" where
  "dec_defaults = dec_via (\<lambda>(s, a, f, k). \<lparr>xd_security = s, xd_ask = a, xd_askFallback = f, xd_autoAllowSkills = k\<rparr>) dec_settings"

definition enc_agent :: "approvals_agent \<Rightarrow> string" where
  "enc_agent = enc_via (\<lambda>d. ((xd_security d, xd_ask d, xd_askFallback d, xd_autoAllowSkills d), xa_allowlist d))
     (enc_pair enc_settings (enc_option (enc_list enc_item)))"

definition dec_agent :: "string \<Rightarrow> (approvals_agent \<times> string) option" where
  "dec_agent = dec_via (\<lambda>((s, a, f, k), l). \<lparr>xd_security = s, xd_ask = a, xd_askFallback = f, xd_autoAllowSkills = k, xa_allowlist = l\<rparr>)
     (dec_pair dec_settings (dec_option (dec_list dec_item)))"

lemma decodes_defaults [decoding]: "decodes enc_defaults dec_defaults"
  unfolding enc_defaults_def dec_defaults_def by (rule decodes_via) (auto intro!: decoding)

lemma decodes_agent [decoding]: "decodes enc_agent dec_agent"
  unfolding enc_agent_def dec_agent_def by (rule decodes_via) (auto intro!: decoding)

definition enc_file :: "approvals_file \<Rightarrow> string" where
  "enc_file = enc_via (\<lambda>x. (xf_socketPath x, xf_token x, xf_defaults x, xf_agents x))
     (enc_pair enc_opt_text (enc_pair enc_opt_text (enc_pair (enc_option enc_defaults) (enc_list (enc_pair enc_text enc_agent)))))"

definition dec_file :: "string \<Rightarrow> (approvals_file \<times> string) option" where
  "dec_file = dec_via (\<lambda>(p, t, d, a). \<lparr>xf_socketPath = p, xf_token = t, xf_defaults = d, xf_agents = a\<rparr>)
     (dec_pair dec_opt_text (dec_pair dec_opt_text (dec_pair (dec_option dec_defaults) (dec_list (dec_pair dec_text dec_agent)))))"

lemma decodes_file: "decodes enc_file dec_file"
  unfolding enc_file_def dec_file_def by (rule decodes_via) (auto intro!: decoding)

definition sample_env :: settings_env where
  "sample_env = \<lparr>sv_codec = \<lparr>sc_parse = (\<lambda>raw. map_option fst (dec_file raw)), sc_print = enc_file, sc_hash = (\<lambda>raw. replicate (length raw) (CHR ''x'') @ ''h'')\<rparr>,
     sv_uuid = (\<lambda>_. ''id''), sv_stateDir = ''/state'', sv_token = ''secret''\<rparr>"

lemma sample_env_ok: "settings_env_ok sample_env"
proof -
  have "dec_file (enc_file x) = Some (x, [])" for x using decodes_file unfolding decodes_def by (metis append_Nil2)
  moreover have "trim (replicate n (CHR ''x'') @ ''h'') = replicate n (CHR ''x'') @ ''h''" for n
    by (rule trim_id, rule trimmed_no_ws) (auto simp: js_ws_def)
  moreover have "resolveExecApprovalsSocketPath ''/state'' \<noteq> [] \<and> trim (resolveExecApprovalsSocketPath ''/state'') = resolveExecApprovalsSocketPath ''/state''"
    "trim ''secret'' = ''secret''" by code_simp+
  ultimately show ?thesis by (simp add: settings_env_ok_def sample_env_def)
qed

lemma settings_are_compare_and_swap_witness:
  "(case node_set_settings sample_env None (Some (empty_file\<lparr>xf_agents := [(''main'', no_agent\<lparr>xd_security := Some ''full''\<rparr>)]\<rparr>))
      (JStr (sc_hash (sv_codec sample_env) (printed sample_env (settings_on_disk sample_env None)))) of (answer, disk') \<Rightarrow>
     answer = shown sample_env (settings_on_disk sample_env disk') \<and> xf_token (settings_on_disk sample_env disk') = Some ''secret'')"
proof -
  let ?file = "empty_file\<lparr>xf_agents := [(''main'', no_agent\<lparr>xd_security := Some ''full''\<rparr>)]\<rparr>"
  let ?hash = "sc_hash (sv_codec sample_env) (printed sample_env (settings_on_disk sample_env None))"
  have merge: "merge_default_agent (xf_agents ?file) \<noteq> None" by (simp add: merge_default_agent_def)
  have hash: "base_hash_matches sample_env (settings_on_disk sample_env None) (JStr ?hash)"
    using sample_env_ok by (simp add: base_hash_matches_def settings_env_ok_def)
  have token: "xf_token (settings_on_disk sample_env None) = Some ''secret''"
    by (simp add: settings_on_disk_def ensure_on_disk_def ensureExecApprovals_def loadExecApprovals_def normalizeExecApprovals_def empty_file_def
        merge_default_agent_def sample_env_def str_opt_def)
  have "xf_token new = Some ''secret''" if st: "stored sample_env (settings_on_disk sample_env None) ?file new" for new
  proof -
    obtain n m normalized where norm: "normalizeExecApprovals (sv_uuid sample_env) n ?file = Some (normalized, m)"
      "xf_token new = nullish_opt (xf_token normalized) (xf_token (settings_on_disk sample_env None))"
      using st by (auto simp: stored_def)
    have "xf_token normalized = None" using norm(1)
      by (auto simp: normalizeExecApprovals_def empty_file_def str_opt_def split: option.splits prod.splits)
    thus ?thesis using norm(2) token by (simp add: nullish_opt_def)
  qed
  thus ?thesis using settings_are_compare_and_swap[OF sample_env_ok, where replace = "node_set_settings sample_env" and disk = None and incoming = "Some ?file" and baseHash = "JStr ?hash"] hash merge
    by (auto split: prod.splits)
qed

section \<open>Programs that act by their name\<close>

text \<open>
  A planned command runs the real path of its executable, under that name. Where the tools of a system
  are links to one program that acts by the name it is started with, the safe command \<open>tr reboot\<close> is
  planned as the applet \<open>reboot\<close>.
\<close>

definition busybox_host :: host where
  "busybox_host = sample_host\<lparr>hs_env := [(''PATH'', ''/bin'')], hs_stat := (\<lambda>p. if p = ''/bin/tr'' then Some plain_file else None),
     hs_realpath := (\<lambda>p. Some (if p = ''/bin/tr'' then ''/bin/busybox'' else p))\<rparr>"

definition tr_context :: allowlist_context where
  "tr_context = sample_context\<lparr>ac_allowlist := [], ac_safeBins := [''tr''], ac_trustedSafeBinDirs := Some [''/bin''],
     ac_safeBinProfiles := Some [(''tr'', compileSafeBinProfile (fixture (Some (js_int 1)) (Some (js_int 2)) None None))]\<rparr>"

lemma safe_bin_becomes_applet:
  "ev_satisfied (evaluateExecAllowlist busybox_host tr_context (analyzeArgvCommand busybox_host None None [''tr'', ''reboot'']))"
  "map resolvePlannedSegmentArgv (an_segments (analyzeArgvCommand busybox_host None None [''tr'', ''reboot''])) = [Some [''/bin/busybox'', ''reboot'']]"
  by code_simp+

end
