(* ===== verification/AccessPolicy.thy ===== *)
theory AccessPolicy
  imports JsPrelude
begin

text \<open>
  Who may talk to the agent: the shared decision for direct messages and groups
  (\<open>src/security/dm-policy-shared.ts\<close>), the merge of its lists (\<open>src/channels/allow-from.ts\<close>,
  \<open>src/shared/string-normalization.ts\<close>), the gates for control commands and mentions
  (\<open>src/channels/command-gating.ts\<close>, \<open>src/channels/mention-gating.ts\<close>,
  \<open>src/plugin-sdk/command-auth.ts\<close>), the group policy in force (\<open>src/config/runtime-group-policy.ts\<close>)
  and the matching of a sender against a list, with its caches (\<open>src/channels/allowlist-match.ts\<close>).

  An entry of a list is a text or a number in the code, and every use of it goes through
  \<open>String(entry)\<close>: here it is that text. The check whether a sender is in a list belongs to the
  channel and is an argument; what the gates rely on is the locale \<open>sender_check\<close>, interpreted on
  the checks of the channels in the theory MessageAccess.
\<close>

section \<open>The lists\<close>

definition normalizeStringEntries :: "string list option \<Rightarrow> string list" where
  "normalizeStringEntries l = nonempty_strs (map trim (nullish l []))"

definition normalizeStringEntriesLower :: "string list option \<Rightarrow> string list" where
  "normalizeStringEntriesLower l = map to_lower (normalizeStringEntries l)"

definition mergeDmAllowFromSources ::
  "string list option \<Rightarrow> string list option \<Rightarrow> string option \<Rightarrow> string list" where
  "mergeDmAllowFromSources allowFrom storeAllowFrom dmPolicy =
     (let storeEntries = if dmPolicy = Some ''allowlist'' then [] else nullish storeAllowFrom [] in
      nonempty_strs (map trim (nullish allowFrom [] @ storeEntries)))"

definition resolveGroupAllowFromSources ::
  "string list option \<Rightarrow> string list option \<Rightarrow> bool option \<Rightarrow> string list" where
  "resolveGroupAllowFromSources allowFrom groupAllowFrom fallbackToAllowFrom =
     (let scoped = (if groupAllowFrom \<noteq> None \<and> the groupAllowFrom \<noteq> [] then the groupAllowFrom
                    else if fallbackToAllowFrom = Some False then [] else nullish allowFrom []) in
      nonempty_strs (map trim scoped))"

fun firstDefined :: "'a option list \<Rightarrow> 'a option" where
  "firstDefined [] = None"
| "firstDefined (Some v # vs) = Some v"
| "firstDefined (None # vs) = firstDefined vs"

record allow_set =
  as_entries :: "string list"
  as_hasWildcard :: bool
  as_hasEntries :: bool

definition isSenderIdAllowed :: "allow_set \<Rightarrow> string option \<Rightarrow> bool \<Rightarrow> bool" where
  "isSenderIdAllowed allow senderId allowWhenEmpty =
     (if \<not> as_hasEntries allow then allowWhenEmpty
      else if as_hasWildcard allow then True
      else (case senderId of None \<Rightarrow> False | Some s \<Rightarrow> s \<noteq> [] \<and> s \<in> set (as_entries allow)))"

definition resolveEffectiveAllowFromLists ::
  "string list option \<Rightarrow> string list option \<Rightarrow> string list option \<Rightarrow> string option \<Rightarrow> bool option \<Rightarrow>
    string list \<times> string list" where
  "resolveEffectiveAllowFromLists allowFrom groupAllowFrom storeAllowFrom dmPolicy fallback =
     (normalizeStringEntries (Some (mergeDmAllowFromSources allowFrom storeAllowFrom dmPolicy)),
      normalizeStringEntries (Some (resolveGroupAllowFromSources allowFrom groupAllowFrom fallback)))"

text \<open>
  The owner that the main session of direct messages is pinned to: the only entry of the list.
\<close>

definition resolvePinnedMainDmOwnerFromAllowlist ::
  "string option \<Rightarrow> string list option \<Rightarrow> (string \<Rightarrow> string option) \<Rightarrow> string option" where
  "resolvePinnedMainDmOwnerFromAllowlist dmScope allowFrom normalizeEntry =
     (if nullish dmScope ''main'' \<noteq> ''main'' then None
      else let raw = nullish allowFrom [] in
        if \<exists>e \<in> set raw. trim e = ''*'' then None
        else let owners = js_set_of (filter (\<lambda>e. e \<noteq> []) (List.map_filter normalizeEntry raw)) in
          (case owners of [o1] \<Rightarrow> Some o1 | _ \<Rightarrow> None))"

text \<open>
  The read of the approved senders: skipped under the policy \<open>allowlist\<close>, and a failed read (None)
  counts as no sender.
\<close>

definition readStoreAllowFromForDmPolicy ::
  "string option \<Rightarrow> bool option \<Rightarrow> (string \<Rightarrow> string \<Rightarrow> string list option) \<Rightarrow> string \<Rightarrow> string \<Rightarrow> string list" where
  "readStoreAllowFromForDmPolicy dmPolicy shouldRead readStore provider accountId =
     (if shouldRead = Some False \<or> dmPolicy = Some ''allowlist'' then []
      else nullish (readStore provider accountId) [])"

section \<open>The decision\<close>

datatype access_decision = Allow | Block | Pairing

datatype access_reason = GROUP_POLICY_ALLOWED | GROUP_POLICY_DISABLED | GROUP_POLICY_EMPTY_ALLOWLIST
  | GROUP_POLICY_NOT_ALLOWLISTED | DM_POLICY_OPEN | DM_POLICY_DISABLED | DM_POLICY_ALLOWLISTED
  | DM_POLICY_PAIRING_REQUIRED | DM_POLICY_NOT_ALLOWLISTED

record access =
  ac_decision :: access_decision
  ac_reasonCode :: access_reason
  ac_reason :: string

definition resolveDmGroupAccessDecision ::
  "bool \<Rightarrow> string option \<Rightarrow> string option \<Rightarrow> string list \<Rightarrow> string list \<Rightarrow> (string list \<Rightarrow> bool) \<Rightarrow> access" where
  "resolveDmGroupAccessDecision isGroup dmPolicy0 groupPolicy0 effectiveAllowFrom0 effectiveGroupAllowFrom0 isSenderAllowed =
     (let dmPolicy = nullish dmPolicy0 ''pairing'';
          groupPolicy = nullish groupPolicy0 ''allowlist'';
          effectiveAllowFrom = normalizeStringEntries (Some effectiveAllowFrom0);
          effectiveGroupAllowFrom = normalizeStringEntries (Some effectiveGroupAllowFrom0) in
      if isGroup then
        (if groupPolicy = ''disabled'' then \<lparr>ac_decision = Block, ac_reasonCode = GROUP_POLICY_DISABLED, ac_reason = ''groupPolicy=disabled''\<rparr>
         else if groupPolicy = ''allowlist'' \<and> effectiveGroupAllowFrom = [] then
           \<lparr>ac_decision = Block, ac_reasonCode = GROUP_POLICY_EMPTY_ALLOWLIST, ac_reason = ''groupPolicy=allowlist (empty allowlist)''\<rparr>
         else if groupPolicy = ''allowlist'' \<and> \<not> isSenderAllowed effectiveGroupAllowFrom then
           \<lparr>ac_decision = Block, ac_reasonCode = GROUP_POLICY_NOT_ALLOWLISTED, ac_reason = ''groupPolicy=allowlist (not allowlisted)''\<rparr>
         else \<lparr>ac_decision = Allow, ac_reasonCode = GROUP_POLICY_ALLOWED, ac_reason = ''groupPolicy='' @ groupPolicy\<rparr>)
      else if dmPolicy = ''disabled'' then \<lparr>ac_decision = Block, ac_reasonCode = DM_POLICY_DISABLED, ac_reason = ''dmPolicy=disabled''\<rparr>
      else if dmPolicy = ''open'' then \<lparr>ac_decision = Allow, ac_reasonCode = DM_POLICY_OPEN, ac_reason = ''dmPolicy=open''\<rparr>
      else if isSenderAllowed effectiveAllowFrom then
        \<lparr>ac_decision = Allow, ac_reasonCode = DM_POLICY_ALLOWLISTED, ac_reason = ''dmPolicy='' @ dmPolicy @ '' (allowlisted)''\<rparr>
      else if dmPolicy = ''pairing'' then
        \<lparr>ac_decision = Pairing, ac_reasonCode = DM_POLICY_PAIRING_REQUIRED, ac_reason = ''dmPolicy=pairing (not allowlisted)''\<rparr>
      else \<lparr>ac_decision = Block, ac_reasonCode = DM_POLICY_NOT_ALLOWLISTED, ac_reason = ''dmPolicy='' @ dmPolicy @ '' (not allowlisted)''\<rparr>)"

text \<open>The parameters of the decision, as \<open>DmGroupAccessInputParams\<close> has them.\<close>

record access_params =
  ap_isGroup :: bool
  ap_dmPolicy :: "string option"
  ap_groupPolicy :: "string option"
  ap_allowFrom :: "string list option"
  ap_groupAllowFrom :: "string list option"
  ap_storeAllowFrom :: "string list option"
  ap_groupFallback :: "bool option"

definition resolveDmGroupAccessWithLists ::
  "access_params \<Rightarrow> (string list \<Rightarrow> bool) \<Rightarrow> access \<times> string list \<times> string list" where
  "resolveDmGroupAccessWithLists p isSenderAllowed =
     (let (dm, grp) = resolveEffectiveAllowFromLists (ap_allowFrom p) (ap_groupAllowFrom p) (ap_storeAllowFrom p)
            (ap_dmPolicy p) (ap_groupFallback p) in
      (resolveDmGroupAccessDecision (ap_isGroup p) (ap_dmPolicy p) (ap_groupPolicy p) dm grp isSenderAllowed, dm, grp))"

section \<open>The gate for control commands\<close>

record authorizer =
  au_configured :: bool
  au_allowed :: bool

datatype gating_mode = ModeAllow | ModeDeny | ModeConfigured

definition resolveCommandAuthorizedFromAuthorizers ::
  "bool \<Rightarrow> authorizer list \<Rightarrow> gating_mode option \<Rightarrow> bool" where
  "resolveCommandAuthorizedFromAuthorizers useAccessGroups authorizers modeWhenOff =
     (if \<not> useAccessGroups then
        (case nullish modeWhenOff ModeAllow of
           ModeAllow \<Rightarrow> True
         | ModeDeny \<Rightarrow> False
         | ModeConfigured \<Rightarrow>
             if \<not> (\<exists>a \<in> set authorizers. au_configured a) then True
             else \<exists>a \<in> set authorizers. au_configured a \<and> au_allowed a)
      else \<exists>a \<in> set authorizers. au_configured a \<and> au_allowed a)"

definition resolveControlCommandGate ::
  "bool \<Rightarrow> authorizer list \<Rightarrow> bool \<Rightarrow> bool \<Rightarrow> gating_mode option \<Rightarrow> bool \<times> bool" where
  "resolveControlCommandGate useAccessGroups authorizers allowTextCommands hasControlCommand modeWhenOff =
     (let commandAuthorized = resolveCommandAuthorizedFromAuthorizers useAccessGroups authorizers modeWhenOff in
      (commandAuthorized, allowTextCommands \<and> hasControlCommand \<and> \<not> commandAuthorized))"

record command_params =
  cp_useAccessGroups :: bool
  cp_allowTextCommands :: bool
  cp_hasControlCommand :: bool

record gated_access =
  ga_access :: access
  ga_effectiveAllowFrom :: "string list"
  ga_effectiveGroupAllowFrom :: "string list"
  ga_commandAuthorized :: bool
  ga_shouldBlockControlCommand :: bool

definition resolveDmGroupAccessWithCommandGate ::
  "access_params \<Rightarrow> command_params option \<Rightarrow> (string list \<Rightarrow> bool) \<Rightarrow> gated_access" where
  "resolveDmGroupAccessWithCommandGate p command isSenderAllowed =
     (let (acc, effDm, effGroup) = resolveDmGroupAccessWithLists p isSenderAllowed;
          configuredAllowFrom = normalizeStringEntries (Some (nullish (ap_allowFrom p) []));
          configuredGroupAllowFrom = normalizeStringEntries (Some (resolveGroupAllowFromSources (Some configuredAllowFrom)
            (Some (normalizeStringEntries (Some (nullish (ap_groupAllowFrom p) [])))) (ap_groupFallback p)));
          commandDmAllowFrom = (if ap_isGroup p then configuredAllowFrom else effDm);
          commandGroupAllowFrom = (if ap_isGroup p then configuredGroupAllowFrom else effGroup);
          ownerAllowed = isSenderAllowed commandDmAllowFrom;
          groupAllowed = isSenderAllowed commandGroupAllowFrom;
          (authorized, block) = (case command of
             None \<Rightarrow> (False, False)
           | Some c \<Rightarrow> resolveControlCommandGate (cp_useAccessGroups c)
               [\<lparr>au_configured = commandDmAllowFrom \<noteq> [], au_allowed = ownerAllowed\<rparr>,
                \<lparr>au_configured = commandGroupAllowFrom \<noteq> [], au_allowed = groupAllowed\<rparr>]
               (cp_allowTextCommands c) (cp_hasControlCommand c) None) in
      \<lparr>ga_access = acc, ga_effectiveAllowFrom = effDm, ga_effectiveGroupAllowFrom = effGroup,
       ga_commandAuthorized = authorized, ga_shouldBlockControlCommand = ap_isGroup p \<and> block\<rparr>)"

text \<open>Whether direct messages come from more than one user.\<close>

record dm_allow_state =
  da_configAllowFrom :: "string list"
  da_hasWildcard :: bool
  da_allowCount :: nat
  da_isMultiUserDm :: bool

definition resolveDmAllowState ::
  "string \<Rightarrow> string \<Rightarrow> string list option \<Rightarrow> (string \<Rightarrow> string) option \<Rightarrow> (string \<Rightarrow> string \<Rightarrow> string list option) \<Rightarrow> dm_allow_state" where
  "resolveDmAllowState provider accountId allowFrom normalizeEntry0 readStore =
     (let configAllowFrom = normalizeStringEntries allowFrom;
          hasWildcard = ''*'' \<in> set configAllowFrom;
          storeAllowFrom = readStoreAllowFromForDmPolicy None None readStore provider accountId;
          normalizeEntry = nullish normalizeEntry0 (\<lambda>v. v);
          normalizedCfg = nonempty_strs (map (\<lambda>v. trim (normalizeEntry v)) (filter (\<lambda>v. v \<noteq> ''*'') configAllowFrom));
          normalizedStore = nonempty_strs (map (\<lambda>v. trim (normalizeEntry v)) storeAllowFrom);
          allowCount = length (js_set_of (normalizedCfg @ normalizedStore)) in
      \<lparr>da_configAllowFrom = configAllowFrom, da_hasWildcard = hasWildcard, da_allowCount = allowCount,
       da_isMultiUserDm = (hasWildcard \<or> allowCount > 1)\<rparr>)"

section \<open>The command authorisation that the plugins use\<close>

datatype dm_outcome = OutcomeDisabled | OutcomeUnauthorized | OutcomeAllowed

definition resolveDirectDmAuthorizationOutcome :: "bool \<Rightarrow> string \<Rightarrow> bool \<Rightarrow> dm_outcome" where
  "resolveDirectDmAuthorizationOutcome isGroup dmPolicy senderAllowedForCommands =
     (if isGroup then OutcomeAllowed
      else if dmPolicy = ''disabled'' then OutcomeDisabled
      else if dmPolicy \<noteq> ''open'' \<and> \<not> senderAllowedForCommands then OutcomeUnauthorized
      else OutcomeAllowed)"

record sender_authorization =
  sa_shouldComputeAuth :: bool
  sa_effectiveAllowFrom :: "string list"
  sa_effectiveGroupAllowFrom :: "string list"
  sa_senderAllowedForCommands :: bool
  sa_commandAuthorized :: "bool option"

text \<open>
  Arguments: whether the body holds a command that needs an authorisation, the read of the store
  (None when it fails) and the setting \<open>commands.useAccessGroups\<close>.
\<close>

definition resolveSenderCommandAuthorization ::
  "bool \<Rightarrow> string list option \<Rightarrow> bool option \<Rightarrow> bool \<Rightarrow> string \<Rightarrow> string list \<Rightarrow> string list option \<Rightarrow>
    (string list \<Rightarrow> bool) \<Rightarrow> sender_authorization" where
  "resolveSenderCommandAuthorization shouldComputeAuth storeRead useAccessGroups0 isGroup dmPolicy configuredAllowFrom
      configuredGroupAllowFrom isSenderAllowed =
     (let storeAllowFrom = (if \<not> isGroup \<and> dmPolicy \<noteq> ''allowlist'' \<and> (dmPolicy \<noteq> ''open'' \<or> shouldComputeAuth)
            then nullish storeRead [] else []);
          (acc, effDm, effGroup) = resolveDmGroupAccessWithLists
            \<lparr>ap_isGroup = isGroup, ap_dmPolicy = Some dmPolicy, ap_groupPolicy = Some ''allowlist'',
             ap_allowFrom = Some configuredAllowFrom, ap_groupAllowFrom = Some (nullish configuredGroupAllowFrom []),
             ap_storeAllowFrom = Some storeAllowFrom, ap_groupFallback = None\<rparr> isSenderAllowed;
          useAccessGroups = (useAccessGroups0 \<noteq> Some False) in
      \<lparr>sa_shouldComputeAuth = shouldComputeAuth, sa_effectiveAllowFrom = effDm, sa_effectiveGroupAllowFrom = effGroup,
       sa_senderAllowedForCommands = isSenderAllowed (if isGroup then effGroup else effDm),
       sa_commandAuthorized = (if shouldComputeAuth then Some (resolveCommandAuthorizedFromAuthorizers useAccessGroups
           [\<lparr>au_configured = effDm \<noteq> [], au_allowed = isSenderAllowed effDm\<rparr>,
            \<lparr>au_configured = effGroup \<noteq> [], au_allowed = isSenderAllowed effGroup\<rparr>] None) else None)\<rparr>)"

section \<open>The gate for mentions\<close>

record mention_gate =
  mg_effectiveWasMentioned :: bool
  mg_shouldSkip :: bool

definition resolveMentionGating :: "bool \<Rightarrow> bool \<Rightarrow> bool \<Rightarrow> bool option \<Rightarrow> bool option \<Rightarrow> mention_gate" where
  "resolveMentionGating requireMention canDetectMention wasMentioned implicitMention shouldBypassMention =
     (let implicit = (implicitMention = Some True);
          bypass = (shouldBypassMention = Some True);
          effective = (wasMentioned \<or> implicit \<or> bypass) in
      \<lparr>mg_effectiveWasMentioned = effective, mg_shouldSkip = requireMention \<and> canDetectMention \<and> \<not> effective\<rparr>)"

record mention_params =
  mp_isGroup :: bool
  mp_requireMention :: bool
  mp_canDetectMention :: bool
  mp_wasMentioned :: bool
  mp_implicitMention :: "bool option"
  mp_hasAnyMention :: "bool option"
  mp_allowTextCommands :: bool
  mp_hasControlCommand :: bool
  mp_commandAuthorized :: bool

definition resolveMentionGatingWithBypass :: "mention_params \<Rightarrow> mention_gate \<times> bool" where
  "resolveMentionGatingWithBypass p =
     (let shouldBypassMention = (mp_isGroup p \<and> mp_requireMention p \<and> \<not> mp_wasMentioned p \<and>
            \<not> nullish (mp_hasAnyMention p) False \<and> mp_allowTextCommands p \<and> mp_commandAuthorized p \<and> mp_hasControlCommand p) in
      (resolveMentionGating (mp_requireMention p) (mp_canDetectMention p) (mp_wasMentioned p) (mp_implicitMention p)
         (Some shouldBypassMention), shouldBypassMention))"

section \<open>The group policy in force\<close>

datatype group_policy = GroupOpen | GroupDisabled | GroupAllowlist

definition resolveRuntimeGroupPolicy ::
  "bool \<Rightarrow> group_policy option \<Rightarrow> group_policy option \<Rightarrow> group_policy option \<Rightarrow> group_policy option \<Rightarrow> group_policy \<times> bool" where
  "resolveRuntimeGroupPolicy providerConfigPresent groupPolicy defaultGroupPolicy configuredFallback missingFallback =
     (let configuredFallbackPolicy = nullish configuredFallback GroupOpen;
          missingProviderFallbackPolicy = nullish missingFallback GroupAllowlist in
      (if providerConfigPresent then nullish (nullish_opt groupPolicy defaultGroupPolicy) configuredFallbackPolicy
       else nullish groupPolicy missingProviderFallbackPolicy,
       \<not> providerConfigPresent \<and> groupPolicy = None))"

definition resolveOpenProviderRuntimeGroupPolicy ::
  "bool \<Rightarrow> group_policy option \<Rightarrow> group_policy option \<Rightarrow> group_policy \<times> bool" where
  "resolveOpenProviderRuntimeGroupPolicy present groupPolicy defaultGroupPolicy =
     resolveRuntimeGroupPolicy present groupPolicy defaultGroupPolicy (Some GroupOpen) (Some GroupAllowlist)"

definition resolveAllowlistProviderRuntimeGroupPolicy ::
  "bool \<Rightarrow> group_policy option \<Rightarrow> group_policy option \<Rightarrow> group_policy \<times> bool" where
  "resolveAllowlistProviderRuntimeGroupPolicy present groupPolicy defaultGroupPolicy =
     resolveRuntimeGroupPolicy present groupPolicy defaultGroupPolicy (Some GroupAllowlist) (Some GroupAllowlist)"

text \<open>The warning is given once for every provider and account; the set of the given ones is the state.\<close>

definition warnMissingProviderGroupPolicyFallbackOnce ::
  "bool \<Rightarrow> string \<Rightarrow> string option \<Rightarrow> string list \<Rightarrow> bool \<times> string list" where
  "warnMissingProviderGroupPolicyFallbackOnce applied providerKey accountId warned =
     (if \<not> applied then (False, warned)
      else let key = providerKey @ '':'' @ nullish accountId ''*'' in
        if key \<in> set warned then (False, warned) else (True, set_add key warned))"

section \<open>A sender against a list\<close>

text \<open>
  An array is its identity and its present contents. The two weak maps remember, for an array, the
  number of its entries when it was last compiled, and the compiled set: they hit when the number
  is the same.
\<close>

type_synonym js_array = "nat \<times> string list"

record simple_allow =
  sl_size :: nat
  sl_wildcard :: bool
  sl_set :: "string list"

record allow_caches =
  ac_sets :: "(nat, nat \<times> string list) js_map"
  ac_simple :: "(nat, simple_allow) js_map"

definition resolveAllowListSet :: "js_array \<Rightarrow> allow_caches \<Rightarrow> string list \<times> allow_caches" where
  "resolveAllowListSet a cs =
     (case map_get (ac_sets cs) (fst a) of
        Some (n, s) \<Rightarrow> if n = length (snd a) then (s, cs)
          else (js_set_of (snd a), cs\<lparr>ac_sets := map_set (fst a) (length (snd a), js_set_of (snd a)) (ac_sets cs)\<rparr>)
      | None \<Rightarrow> (js_set_of (snd a), cs\<lparr>ac_sets := map_set (fst a) (length (snd a), js_set_of (snd a)) (ac_sets cs)\<rparr>))"

record 'src allow_match =
  am_allowed :: bool
  am_matchKey :: "string option"
  am_matchSource :: "'src option"

fun first_candidate :: "string list \<Rightarrow> (string option \<times> 'src) list \<Rightarrow> 'src allow_match" where
  "first_candidate s [] = \<lparr>am_allowed = False, am_matchKey = None, am_matchSource = None\<rparr>"
| "first_candidate s ((v, src) # cs) =
     (if v \<noteq> None \<and> the v \<noteq> [] \<and> the v \<in> set s
      then \<lparr>am_allowed = True, am_matchKey = v, am_matchSource = Some src\<rparr>
      else first_candidate s cs)"

definition resolveAllowlistMatchByCandidates ::
  "js_array \<Rightarrow> (string option \<times> 'src) list \<Rightarrow> allow_caches \<Rightarrow> 'src allow_match \<times> allow_caches" where
  "resolveAllowlistMatchByCandidates a candidates cs =
     (let (s, cs') = resolveAllowListSet a cs in (first_candidate s candidates, cs'))"

definition compile_simple :: "string list \<Rightarrow> simple_allow" where
  "compile_simple xs =
     (let normalized = nonempty_strs (map (\<lambda>e. to_lower (trim e)) xs); s = js_set_of normalized in
      \<lparr>sl_size = length xs, sl_wildcard = (''*'' \<in> set s), sl_set = s\<rparr>)"

definition resolveSimpleAllowFrom :: "js_array \<Rightarrow> allow_caches \<Rightarrow> simple_allow \<times> allow_caches" where
  "resolveSimpleAllowFrom a cs =
     (let built = compile_simple (snd a); cs' = cs\<lparr>ac_simple := map_set (fst a) built (ac_simple cs)\<rparr> in
      case map_get (ac_simple cs) (fst a) of
        Some c \<Rightarrow> if sl_size c = length (snd a) then (c, cs) else (built, cs')
      | None \<Rightarrow> (built, cs'))"

datatype simple_source = SrcWildcard | SrcId | SrcName

definition match_simple :: "simple_allow \<Rightarrow> string \<Rightarrow> string option \<Rightarrow> bool option \<Rightarrow> simple_source allow_match" where
  "match_simple allow senderId0 senderName0 allowNameMatching =
     (let no = \<lparr>am_allowed = False, am_matchKey = None, am_matchSource = None\<rparr> in
      if sl_size allow = 0 then no
      else if sl_wildcard allow then \<lparr>am_allowed = True, am_matchKey = Some ''*'', am_matchSource = Some SrcWildcard\<rparr>
      else let senderId = to_lower senderId0 in
        if senderId \<in> set (sl_set allow) then \<lparr>am_allowed = True, am_matchKey = Some senderId, am_matchSource = Some SrcId\<rparr>
        else let senderName = map_option to_lower senderName0 in
          if allowNameMatching = Some True \<and> senderName \<noteq> None \<and> the senderName \<noteq> [] \<and> the senderName \<in> set (sl_set allow)
          then \<lparr>am_allowed = True, am_matchKey = senderName, am_matchSource = Some SrcName\<rparr> else no)"

definition resolveAllowlistMatchSimple ::
  "js_array \<Rightarrow> string \<Rightarrow> string option \<Rightarrow> bool option \<Rightarrow> allow_caches \<Rightarrow> simple_source allow_match \<times> allow_caches" where
  "resolveAllowlistMatchSimple a senderId senderName allowNameMatching cs =
     (let (allow, cs') = resolveSimpleAllowFrom a cs in (match_simple allow senderId senderName allowNameMatching, cs'))"

text \<open>\<open>isNormalizedSenderAllowed\<close> of the plugin SDK; \<open>strip\<close> removes the prefix of the channel, if it has one.\<close>

definition formatAllowFromLowercase :: "(string \<Rightarrow> string) option \<Rightarrow> string list \<Rightarrow> string list" where
  "formatAllowFromLowercase strip allowFrom =
     map to_lower (map (nullish strip (\<lambda>e. e)) (nonempty_strs (map trim allowFrom)))"

definition isNormalizedSenderAllowed :: "(string \<Rightarrow> string) option \<Rightarrow> string \<Rightarrow> string list \<Rightarrow> bool" where
  "isNormalizedSenderAllowed strip senderId allowFrom =
     (let normalizedAllow = formatAllowFromLowercase strip allowFrom in
      if normalizedAllow = [] then False
      else if ''*'' \<in> set normalizedAllow then True
      else to_lower (trim senderId) \<in> set normalizedAllow)"

section \<open>Lemmas on the lists\<close>

lemma set_normalizeStringEntries:
  "x \<in> set (normalizeStringEntries l) \<longleftrightarrow> x \<noteq> [] \<and> (\<exists>e \<in> set (nullish l []). x = trim e)"
  by (auto simp: normalizeStringEntries_def nonempty_strs_def)

lemma normalizeStringEntries_fixed:
  "(\<And>x. x \<in> set xs \<Longrightarrow> x \<noteq> [] \<and> trim x = x) \<Longrightarrow> normalizeStringEntries (Some xs) = xs"
  by (simp add: normalizeStringEntries_def nonempty_strs_def map_idI filter_id_conv)

lemma normalizeStringEntries_idem [simp]:
  "normalizeStringEntries (Some (normalizeStringEntries l)) = normalizeStringEntries l"
  by (rule normalizeStringEntries_fixed) (auto simp: set_normalizeStringEntries)

lemma merged_lists_normal [simp]:
  "normalizeStringEntries (Some (mergeDmAllowFromSources a s d)) = mergeDmAllowFromSources a s d"
  "normalizeStringEntries (Some (resolveGroupAllowFromSources a g f)) = resolveGroupAllowFromSources a g f"
  by (rule normalizeStringEntries_fixed;
      auto simp: mergeDmAllowFromSources_def resolveGroupAllowFromSources_def nonempty_strs_def Let_def split: if_splits)+

lemma effective_lists:
  "resolveEffectiveAllowFromLists a g s d f = (mergeDmAllowFromSources a s d, resolveGroupAllowFromSources a g f)"
  by (simp add: resolveEffectiveAllowFromLists_def)

lemma set_mergeDm:
  "x \<in> set (mergeDmAllowFromSources a s d) \<longleftrightarrow> x \<noteq> [] \<and>
     ((\<exists>e \<in> set (nullish a []). x = trim e) \<or> d \<noteq> Some ''allowlist'' \<and> (\<exists>e \<in> set (nullish s []). x = trim e))"
  by (auto simp: mergeDmAllowFromSources_def nonempty_strs_def Let_def)

text \<open>The decision only reads the list of its own kind of conversation.\<close>

lemma group_decision_ignores_dm_list:
  "resolveDmGroupAccessDecision True d g xs ys chk = resolveDmGroupAccessDecision True d' g xs' ys chk"
  by (simp add: resolveDmGroupAccessDecision_def Let_def)

text \<open>
  The list of a group for its commands is normalised before the fallback is chosen, the one for
  access afterwards: a list of blanks only falls back to the direct messages for commands, and is
  the empty list for access.
\<close>

lemma blank_group_list_falls_back_for_commands:
  "let p = \<lparr>ap_isGroup = True, ap_dmPolicy = None, ap_groupPolicy = Some ''open'', ap_allowFrom = Some [''owner''],
        ap_groupAllowFrom = Some ['' ''], ap_storeAllowFrom = None, ap_groupFallback = None\<rparr>;
      chk = (\<lambda>l. ''owner'' \<in> set l);
      g = resolveDmGroupAccessWithCommandGate p (Some \<lparr>cp_useAccessGroups = True, cp_allowTextCommands = True, cp_hasControlCommand = True\<rparr>) chk in
   ga_effectiveGroupAllowFrom g = [] \<and> resolveGroupAllowFromSources (Some [''owner'']) (Some (normalizeStringEntries (Some ['' '']))) None = [''owner'']"
  by code_simp

section \<open>What the store of approved senders can decide\<close>

lemma group_ignores_store:
  assumes "ap_isGroup p"
  shows "fst (resolveDmGroupAccessWithLists (p\<lparr>ap_storeAllowFrom := s\<rparr>) chk) = fst (resolveDmGroupAccessWithLists p chk)"
    and "snd (snd (resolveDmGroupAccessWithLists (p\<lparr>ap_storeAllowFrom := s\<rparr>) chk)) = snd (snd (resolveDmGroupAccessWithLists p chk))"
  using assms by (auto simp: resolveDmGroupAccessWithLists_def effective_lists Let_def intro: group_decision_ignores_dm_list)

text \<open>
  C17: No approval of a sender in direct messages reaches a group: in a group, the decision, its
  reason and list, the authorisation of control commands and their blocking are the same whatever
  the pairing store holds, and so is the authorisation that the plugins compute. Under the policy
  \<open>allowlist\<close> the store decides nothing in direct messages either.
\<close>

theorem approvals_stay_in_direct_messages:
  assumes "ap_isGroup p \<or> ap_dmPolicy p = Some ''allowlist''"
  shows "(let g = (\<lambda>s. resolveDmGroupAccessWithCommandGate (p\<lparr>ap_storeAllowFrom := s\<rparr>) c chk) in
      ga_access (g s) = ga_access (g t) \<and> ga_effectiveGroupAllowFrom (g s) = ga_effectiveGroupAllowFrom (g t) \<and>
      ga_commandAuthorized (g s) = ga_commandAuthorized (g t) \<and>
      ga_shouldBlockControlCommand (g s) = ga_shouldBlockControlCommand (g t)) \<and>
    (let a = (\<lambda>s. resolveSenderCommandAuthorization compute s groups (ap_isGroup p) (nullish (ap_dmPolicy p) ''pairing'') cfg grp chk) in
      a s = a t)"
  using assms
proof
  assume "ap_isGroup p"
  then show ?thesis
    by (simp add: resolveDmGroupAccessWithCommandGate_def resolveDmGroupAccessWithLists_def effective_lists Let_def
        group_decision_ignores_dm_list [of _ _ "mergeDmAllowFromSources _ s _" _ _ _ "mergeDmAllowFromSources _ t _"]
        resolveSenderCommandAuthorization_def split: option.split prod.split)
next
  assume policy: "ap_dmPolicy p = Some ''allowlist''"
  then have "mergeDmAllowFromSources a s (ap_dmPolicy p) = mergeDmAllowFromSources a t (ap_dmPolicy p)" for a
    by (simp add: mergeDmAllowFromSources_def)
  then have "resolveDmGroupAccessWithLists (p\<lparr>ap_storeAllowFrom := s\<rparr>) chk = resolveDmGroupAccessWithLists (p\<lparr>ap_storeAllowFrom := t\<rparr>) chk"
    by (simp add: resolveDmGroupAccessWithLists_def effective_lists)
  with policy show ?thesis
    by (simp add: resolveDmGroupAccessWithCommandGate_def resolveSenderCommandAuthorization_def Let_def)
qed

lemma approvals_stay_in_direct_messages_witness:
  "let p = \<lparr>ap_isGroup = True, ap_dmPolicy = Some ''pairing'', ap_groupPolicy = Some ''open'', ap_allowFrom = Some [''owner''],
        ap_groupAllowFrom = None, ap_storeAllowFrom = None, ap_groupFallback = None\<rparr>;
      c = Some \<lparr>cp_useAccessGroups = True, cp_allowTextCommands = True, cp_hasControlCommand = True\<rparr>;
      g = (\<lambda>s. resolveDmGroupAccessWithCommandGate (p\<lparr>ap_storeAllowFrom := s\<rparr>) c (\<lambda>l. ''friend'' \<in> set l)) in
    ga_access (g (Some [''friend''])) = ga_access (g None) \<and>
    ga_commandAuthorized (g (Some [''friend''])) = ga_commandAuthorized (g None)"
  using approvals_stay_in_direct_messages
    [of "\<lparr>ap_isGroup = True, ap_dmPolicy = Some ''pairing'', ap_groupPolicy = Some ''open'', ap_allowFrom = Some [''owner''],
        ap_groupAllowFrom = None, ap_storeAllowFrom = None, ap_groupFallback = None\<rparr>"
      "Some \<lparr>cp_useAccessGroups = True, cp_allowTextCommands = True, cp_hasControlCommand = True\<rparr>" "\<lambda>l. ''friend'' \<in> set l"
      "Some [''friend'']" None True None "[]" None]
  by (simp add: Let_def)

section \<open>Checks that look at the entries one by one\<close>

locale sender_check =
  fixes allowed :: "string list \<Rightarrow> bool" and always :: bool and entry :: "string \<Rightarrow> bool"
  assumes allowed_iff: "allowed xs \<longleftrightarrow> always \<or> (\<exists>x \<in> set xs. entry x)"
begin

definition listed :: "string list option \<Rightarrow> bool" where
  "listed l \<longleftrightarrow> (\<exists>e \<in> set (nullish l []). trim e \<noteq> [] \<and> entry (trim e))"

lemma allowed_mono: "allowed xs \<Longrightarrow> set xs \<subseteq> set ys \<Longrightarrow> allowed ys"
  by (auto simp: allowed_iff)

lemma allowed_merged:
  "allowed (mergeDmAllowFromSources a s d) \<longleftrightarrow> always \<or> listed a \<or> d \<noteq> Some ''allowlist'' \<and> listed s"
  unfolding allowed_iff listed_def Bex_def set_mergeDm by blast

lemma dm_allowed_exactly:
  assumes "\<not> ap_isGroup p"
  shows "ac_decision (fst (resolveDmGroupAccessWithLists p allowed)) = Allow \<longleftrightarrow>
     (let policy = nullish (ap_dmPolicy p) ''pairing'' in
      policy = ''open'' \<or> policy \<noteq> ''disabled'' \<and>
        (always \<or> listed (ap_allowFrom p) \<or> policy \<noteq> ''allowlist'' \<and> listed (ap_storeAllowFrom p)))"
proof -
  have "nullish (ap_dmPolicy p) ''pairing'' = ''allowlist'' \<longleftrightarrow> ap_dmPolicy p = Some ''allowlist''"
    by (cases "ap_dmPolicy p") auto
  with assms show ?thesis
    by (simp add: resolveDmGroupAccessWithLists_def effective_lists resolveDmGroupAccessDecision_def allowed_merged Let_def)
qed

lemma pairing_offered_exactly:
  assumes "\<not> ap_isGroup p"
  shows "ac_decision (fst (resolveDmGroupAccessWithLists p allowed)) = Pairing \<longleftrightarrow>
     nullish (ap_dmPolicy p) ''pairing'' = ''pairing'' \<and> \<not> always \<and> \<not> listed (ap_allowFrom p) \<and> \<not> listed (ap_storeAllowFrom p)"
proof -
  have "nullish (ap_dmPolicy p) ''pairing'' = ''pairing'' \<Longrightarrow> ap_dmPolicy p \<noteq> Some ''allowlist''"
    by (cases "ap_dmPolicy p") auto
  with assms show ?thesis
    by (auto simp: resolveDmGroupAccessWithLists_def effective_lists resolveDmGroupAccessDecision_def allowed_merged Let_def)
qed

text \<open>Approving one more sender never shuts another one out.\<close>

lemma approval_is_monotone:
  assumes "\<not> ap_isGroup p" "ac_decision (fst (resolveDmGroupAccessWithLists p allowed)) = Allow"
    and "set (nullish (ap_storeAllowFrom p) []) \<subseteq> set s"
  shows "ac_decision (fst (resolveDmGroupAccessWithLists (p\<lparr>ap_storeAllowFrom := Some s\<rparr>) allowed)) = Allow"
proof -
  have "listed (ap_storeAllowFrom p) \<Longrightarrow> listed (Some s)"
    using assms(3) by (auto simp: listed_def)
  with assms(1,2) show ?thesis by (auto simp: dm_allowed_exactly Let_def)
qed

end

lemma set_formatAllowFromLowercase:
  "x \<in> set (formatAllowFromLowercase strip xs) \<longleftrightarrow> (\<exists>e \<in> set xs. trim e \<noteq> [] \<and> x = to_lower (nullish strip (\<lambda>e. e) (trim e)))"
  by (auto simp: formatAllowFromLowercase_def nonempty_strs_def)

lemma isNormalizedSenderAllowed_iff:
  "isNormalizedSenderAllowed strip senderId xs \<longleftrightarrow>
     ''*'' \<in> set (formatAllowFromLowercase strip xs) \<or> to_lower (trim senderId) \<in> set (formatAllowFromLowercase strip xs)"
  by (auto simp: isNormalizedSenderAllowed_def Let_def)

interpretation normalized: sender_check "isNormalizedSenderAllowed strip senderId" False
    "\<lambda>e. trim e \<noteq> [] \<and> (let n = to_lower (nullish strip (\<lambda>e. e) (trim e)) in n = ''*'' \<or> n = to_lower (trim senderId))"
  for strip senderId
  by unfold_locales (auto simp: isNormalizedSenderAllowed_iff set_formatAllowFromLowercase Let_def)

section \<open>The caches of compiled lists\<close>

text \<open>
  Caches that agree with the arrays they were filled from. They stay transparent as long as an
  array is not changed in place to one of the same length.
\<close>

definition caches_agree :: "(nat \<Rightarrow> string list) \<Rightarrow> allow_caches \<Rightarrow> bool" where
  "caches_agree h cs \<longleftrightarrow>
     (\<forall>k n s. map_get (ac_sets cs) k = Some (n, s) \<and> n = length (h k) \<longrightarrow> s = js_set_of (h k)) \<and>
     (\<forall>k c. map_get (ac_simple cs) k = Some c \<and> sl_size c = length (h k) \<longrightarrow> c = compile_simple (h k))"

lemma caches_agreeD:
  "caches_agree h cs \<Longrightarrow> map_get (ac_sets cs) k = Some (length (h k), s) \<Longrightarrow> s = js_set_of (h k)"
  "caches_agree h cs \<Longrightarrow> map_get (ac_simple cs) k = Some c \<Longrightarrow> sl_size c = length (h k) \<Longrightarrow> c = compile_simple (h k)"
  by (simp_all add: caches_agree_def)

lemma cached_match_by_candidates:
  assumes "caches_agree h cs"
  shows "fst (resolveAllowlistMatchByCandidates (k, h k) candidates cs) = first_candidate (js_set_of (h k)) candidates"
    and "caches_agree h (snd (resolveAllowlistMatchByCandidates (k, h k) candidates cs))"
  using assms caches_agreeD(1) [OF assms, of k]
  by (auto simp: resolveAllowlistMatchByCandidates_def resolveAllowListSet_def caches_agree_def split: option.splits)

lemma cached_match_simple:
  assumes "caches_agree h cs"
  shows "fst (resolveAllowlistMatchSimple (k, h k) senderId senderName names cs) = match_simple (compile_simple (h k)) senderId senderName names"
    and "caches_agree h (snd (resolveAllowlistMatchSimple (k, h k) senderId senderName names cs))"
  using assms caches_agreeD(2) [OF assms, of k]
  by (auto simp: resolveAllowlistMatchSimple_def resolveSimpleAllowFrom_def caches_agree_def Let_def split: option.splits)

lemma growing_arrays_keep_agreement:
  assumes "caches_agree h cs" and "\<And>k. map_get (ac_sets cs) k \<noteq> None \<or> map_get (ac_simple cs) k \<noteq> None \<Longrightarrow> h' k = h k \<or>
      (\<forall>n s c. map_get (ac_sets cs) k = Some (n, s) \<longrightarrow> n < length (h' k)) \<and> (\<forall>c. map_get (ac_simple cs) k = Some c \<longrightarrow> sl_size c < length (h' k))"
  shows "caches_agree h' cs"
  using assms(1,2) unfolding caches_agree_def by (metis less_irrefl option.distinct(1))

text \<open>An entry replaced in place is still honoured: the length did not change.\<close>

lemma replaced_entry_is_still_allowed:
  "let empty = \<lparr>ac_sets = [], ac_simple = []\<rparr>;
      (m, cs) = resolveAllowlistMatchSimple (0, [''eve'']) ''eve'' None None empty in
   am_allowed m \<and> am_allowed (fst (resolveAllowlistMatchSimple (0, [''bob'']) ''eve'' None None cs))"
  by code_simp

end
