(* ===== verification/JsDate.thy ===== *)
theory JsDate
  imports JsPrelude
begin

text \<open>
  The part of JavaScript's \<open>Date\<close> that stored timestamps use: \<open>toISOString\<close> of a time after 1970,
  in milliseconds, and \<open>Date.parse\<close>. The standard fixes what \<open>Date.parse\<close> makes of a text in the
  format of \<open>toISOString\<close> and leaves every other text to the implementation: there it is the
  argument \<open>other\<close>.
\<close>

section \<open>Calendar\<close>

definition leap_year :: "nat \<Rightarrow> bool" where
  "leap_year y \<longleftrightarrow> y mod 4 = 0 \<and> (y mod 100 \<noteq> 0 \<or> y mod 400 = 0)"

definition year_days :: "nat \<Rightarrow> nat" where
  "year_days y = (if leap_year y then 366 else 365)"

definition month_days :: "nat \<Rightarrow> nat list" where
  "month_days y = [31, if leap_year y then 29 else 28, 31, 30, 31, 30, 31, 31, 30, 31, 30, 31]"

text \<open>The year of a day counted from the start of year \<open>y\<close>, and its day within the year.\<close>

function split_year :: "nat \<Rightarrow> nat \<Rightarrow> nat \<times> nat" where
  "split_year y d = (if d < year_days y then (y, d) else split_year (Suc y) (d - year_days y))"
  by auto
termination by (relation "measure snd") (auto simp: year_days_def split: if_splits)

declare split_year.simps [simp del]

fun split_month :: "nat list \<Rightarrow> nat \<Rightarrow> nat \<times> nat" where
  "split_month [] d = (0, d)"
| "split_month (m # ms) d = (if d < m then (0, d) else (let (k, r) = split_month ms (d - m) in (Suc k, r)))"

text \<open>Days from the start of 1970 to the start of the year \<open>1970 + n\<close>.\<close>

fun year_start :: "nat \<Rightarrow> nat" where
  "year_start 0 = 0"
| "year_start (Suc n) = year_start n + year_days (1970 + n)"

section \<open>Text\<close>

fun pad :: "nat \<Rightarrow> nat \<Rightarrow> string" where
  "pad 0 v = []"
| "pad (Suc n) v = digit_char (v div 10 ^ n) # pad n (v mod 10 ^ n)"

fun read_num :: "nat \<Rightarrow> nat \<Rightarrow> string \<Rightarrow> (nat \<times> string) option" where
  "read_num 0 acc s = Some (acc, s)"
| "read_num (Suc n) acc [] = None"
| "read_num (Suc n) acc (c # s) =
     (let v = (of_char c :: nat) in if 48 \<le> v \<and> v \<le> 57 then read_num n (10 * acc + (v - 48)) s else None)"

text \<open>A number of \<open>n\<close> digits and the text that must follow it.\<close>

definition read_field :: "nat \<Rightarrow> string \<Rightarrow> string \<Rightarrow> (nat \<times> string) option" where
  "read_field n sep s =
     (case read_num n 0 s of None \<Rightarrow> None
      | Some (v, r) \<Rightarrow> if starts_with r sep then Some (v, drop (length sep) r) else None)"

definition to_iso :: "nat \<Rightarrow> string" where
  "to_iso t =
     (let ms = t mod 1000; s = t div 1000 mod 60; mi = t div 60000 mod 60; h = t div 3600000 mod 24;
          (y, d) = split_year 1970 (t div 86400000); (m, dm) = split_month (month_days y) d in
      (if y \<le> 9999 then pad 4 y else ''+'' @ pad 6 y) @ ''-'' @ pad 2 (Suc m) @ ''-'' @ pad 2 (Suc dm) @ ''T'' @
      pad 2 h @ '':'' @ pad 2 mi @ '':'' @ pad 2 s @ ''.'' @ pad 3 ms @ ''Z'')"

definition iso_time :: "nat \<Rightarrow> nat \<Rightarrow> nat \<Rightarrow> nat \<Rightarrow> nat \<Rightarrow> nat \<Rightarrow> nat \<Rightarrow> nat option" where
  "iso_time y m d h mi s ms =
     (if 1970 \<le> y \<and> 1 \<le> m \<and> m \<le> 12 \<and> 1 \<le> d \<and> d \<le> month_days y ! (m - 1) \<and> h < 24 \<and> mi < 60 \<and> s < 60
      then Some ((((year_start (y - 1970) + sum_list (take (m - 1) (month_days y)) + (d - 1)) * 24 + h) * 60 + mi) * 60000 + s * 1000 + ms)
      else None)"

definition read_iso :: "string \<Rightarrow> nat option" where
  "read_iso t =
     (let year = (if starts_with t ''+'' then read_field 6 ''-'' (tl t) else read_field 4 ''-'' t) in
      Option.bind year (\<lambda>(y, t). Option.bind (read_field 2 ''-'' t) (\<lambda>(m, t). Option.bind (read_field 2 ''T'' t) (\<lambda>(d, t).
      Option.bind (read_field 2 '':'' t) (\<lambda>(h, t). Option.bind (read_field 2 '':'' t) (\<lambda>(mi, t).
      Option.bind (read_field 2 ''.'' t) (\<lambda>(s, t). Option.bind (read_field 3 ''Z'' t) (\<lambda>(ms, t).
        if t = [] then iso_time y m d h mi s ms else None))))))))"

text \<open>\<open>Date.parse\<close>; None is NaN.\<close>

definition date_parse :: "(string \<Rightarrow> int option) \<Rightarrow> string \<Rightarrow> int option" where
  "date_parse other t = (case read_iso t of Some n \<Rightarrow> Some (int n) | None \<Rightarrow> other t)"

lemma numeral_fields [simp]:
  "pad (numeral k) v = digit_char (v div 10 ^ pred_numeral k) # pad (pred_numeral k) (v mod 10 ^ pred_numeral k)"
  "read_num (numeral k) acc [] = None"
  "read_num (numeral k) acc (c # s) =
     (let v = (of_char c :: nat) in if 48 \<le> v \<and> v \<le> 57 then read_num (pred_numeral k) (10 * acc + (v - 48)) s else None)"
  "year_start (numeral k) = year_start (pred_numeral k) + year_days (1970 + pred_numeral k)"
  by (simp_all add: numeral_eq_Suc)

section \<open>What toISOString writes, Date.parse reads\<close>

lemma of_digit_char [simp]: "d < 10 \<Longrightarrow> (of_char (digit_char d) :: nat) = 48 + d"
  by (simp add: digit_char_def)

lemma read_num_pad: "v < 10 ^ n \<Longrightarrow> read_num n acc (pad n v @ s) = Some (acc * 10 ^ n + v, s)"
proof (induction n arbitrary: v acc)
  case (Suc n)
  then have "v div 10 ^ n < 10" by (simp add: less_mult_imp_div_less mult.commute)
  moreover have "v mod 10 ^ n < 10 ^ n" by simp
  ultimately show ?case
    by (simp add: Suc.IH algebra_simps)
qed simp

lemma read_field_pad: "v < 10 ^ n \<Longrightarrow> read_field n sep (pad n v @ sep @ s) = Some (v, s)"
  by (simp add: read_field_def read_num_pad)

lemma bind_pad: "v < 10 ^ n \<Longrightarrow> Option.bind (read_field n sep (pad n v @ sep @ s)) f = f (v, s)"
  by (simp add: read_field_pad)

lemma split_year_start:
  "split_year (1970 + n) d = (y, r) \<Longrightarrow> 1970 + n \<le> y \<and> r < year_days y \<and> year_start (y - 1970) + r = year_start n + d"
proof (induction d arbitrary: n rule: less_induct)
  case (less d)
  show ?case
  proof (cases "d < year_days (1970 + n)")
    case True
    with less.prems show ?thesis by (subst (asm) split_year.simps) auto
  next
    case False
    then have "split_year (1970 + Suc n) (d - year_days (1970 + n)) = (y, r)"
      using less.prems by (subst (asm) split_year.simps) simp
    moreover have "d - year_days (1970 + n) < d"
      using False by (auto simp: year_days_def split: if_splits)
    ultimately have "1970 + Suc n \<le> y \<and> r < year_days y \<and> year_start (y - 1970) + r = year_start (Suc n) + (d - year_days (1970 + n))"
      using less.IH by blast
    with False show ?thesis by auto
  qed
qed

lemma year_start_ge: "365 * n \<le> year_start n"
  by (induction n) (auto simp: year_days_def)

lemma split_month_sum:
  "d < sum_list ms \<Longrightarrow> split_month ms d = (k, r) \<Longrightarrow> k < length ms \<and> r < ms ! k \<and> sum_list (take k ms) + r = d"
proof (induction ms arbitrary: d k r)
  case (Cons m ms)
  show ?case
  proof (cases "d < m")
    case False
    then obtain k' where "split_month ms (d - m) = (k', r)" "k = Suc k'"
      using Cons.prems(2) by (auto split: prod.splits)
    moreover have "d - m < sum_list ms" using Cons.prems(1) False by auto
    ultimately show ?thesis using Cons.IH [of "d - m" k' r] False by auto
  qed (use Cons.prems(2) in auto)
qed simp

lemma sum_month_days: "sum_list (month_days y) = year_days y"
  by (simp add: month_days_def year_days_def)

lemma length_month_days [simp]: "length (month_days y) = 12"
  by (simp add: month_days_def)

lemma month_days_le: "k < 12 \<Longrightarrow> month_days y ! k \<le> 31"
proof -
  assume "k < 12"
  then have "month_days y ! k \<in> set (month_days y)" by (intro nth_mem) (simp add: month_days_def)
  then show ?thesis by (auto simp: month_days_def split: if_splits)
qed

lemma clock_fields: "(((t div 86400000 * 24 + t div 3600000 mod 24) * 60 + t div 60000 mod 60) * 60000 + t div 1000 mod 60 * 1000 + t mod 1000) = (t :: nat)"
proof -
  have "t div 86400000 * 24 + t div 3600000 mod 24 = t div 3600000"
    using div_mult_mod_eq [of "t div 3600000" 24] by (simp flip: div_mult2_eq)
  moreover have "t div 3600000 * 60 + t div 60000 mod 60 = t div 60000"
    using div_mult_mod_eq [of "t div 60000" 60] by (simp flip: div_mult2_eq)
  moreover have "t div 60000 * 60000 + t div 1000 mod 60 * 1000 + t mod 1000 = t"
  proof -
    have "t div 60000 * 60 + t div 1000 mod 60 = t div 1000"
      using div_mult_mod_eq [of "t div 1000" 60] by (simp flip: div_mult2_eq)
    moreover have "t div 1000 * 1000 + t mod 1000 = t" by (rule div_mult_mod_eq)
    ultimately show ?thesis by linarith
  qed
  ultimately show ?thesis by simp
qed

lemma year_is_no_sign: "y < 10 ^ 4 \<Longrightarrow> starts_with (pad 4 y @ s) ''+'' = False"
proof -
  assume "y < 10 ^ 4"
  then have "y div 10 ^ 3 < 10" by simp
  then have "(of_char (digit_char (y div 10 ^ 3)) :: nat) = 48 + y div 10 ^ 3" by (rule of_digit_char)
  then have "digit_char (y div 10 ^ 3) \<noteq> CHR ''+''" by (intro notI) simp
  then show ?thesis by simp
qed

text \<open>The last time that a Date can hold is 8640000000000000.\<close>

lemma read_to_iso:
  assumes "t \<le> 8640000000000000"
  shows "read_iso (to_iso t) = Some t"
proof -
  obtain y d where yd: "split_year 1970 (t div 86400000) = (y, d)" by force
  obtain m dm where md: "split_month (month_days y) d = (m, dm)" by force
  have y: "1970 \<le> y" "d < year_days y" "year_start (y - 1970) + d = t div 86400000"
    using split_year_start [of 0 "t div 86400000" y d] yd by auto
  have m: "m < 12" "dm < month_days y ! m" "sum_list (take m (month_days y)) + dm = d"
    using split_month_sum [OF _ md] y(2) by (auto simp: sum_month_days)
  have "365 * (y - 1970) \<le> 100000000"
    using year_start_ge [of "y - 1970"] y(3) assms by linarith
  then have y6: "y < 10 ^ 6" using y(1) by simp
  have dm: "Suc dm < 10 ^ 2" using m(2) month_days_le [OF m(1), of y] by simp
  have fields: "Suc m < 10 ^ 2" "t div 3600000 mod 24 < 10 ^ 2" "t div 60000 mod 60 < 10 ^ 2" "t div 1000 mod 60 < 10 ^ 2"
    "t mod 1000 < 10 ^ 3" using m(1) by (auto intro: less_trans [OF mod_less_divisor])
  have time: "iso_time y (Suc m) (Suc dm) (t div 3600000 mod 24) (t div 60000 mod 60) (t div 1000 mod 60) (t mod 1000) = Some t"
    using clock_fields [of t] y m by (simp add: iso_time_def add.assoc)
  have year: "(if starts_with ((if y \<le> 9999 then pad 4 y else ''+'' @ pad 6 y) @ ''-'' @ r) ''+''
      then read_field 6 ''-'' (tl ((if y \<le> 9999 then pad 4 y else ''+'' @ pad 6 y) @ ''-'' @ r))
      else read_field 4 ''-'' ((if y \<le> 9999 then pad 4 y else ''+'' @ pad 6 y) @ ''-'' @ r)) = Some (y, r)" for r
  proof (cases "y \<le> 9999")
    case True
    then have y4: "y < 10 ^ 4" by simp
    from True have c: "(y \<le> 9999) = True" by simp
    show ?thesis by (simp only: c if_True year_is_no_sign [OF y4] if_False read_field_pad [OF y4])
  next
    case False
    then have c: "(y \<le> 9999) = False" by simp
    show ?thesis by (simp only: c if_True if_False append_Cons append_Nil starts_with_simps refl simp_thms list.sel
          read_field_pad [OF y6, of "''-''", unfolded append_Cons append_Nil])
  qed
  have "to_iso t = (if y \<le> 9999 then pad 4 y else ''+'' @ pad 6 y) @ ''-'' @ pad 2 (Suc m) @ ''-'' @ pad 2 (Suc dm) @ ''T'' @
      pad 2 (t div 3600000 mod 24) @ '':'' @ pad 2 (t div 60000 mod 60) @ '':'' @ pad 2 (t div 1000 mod 60) @ ''.'' @
      pad 3 (t mod 1000) @ ''Z'' @ []"
    unfolding to_iso_def Let_def yd prod.case md by (simp only: append.assoc append_Nil2)
  then show ?thesis
    by (simp only: read_iso_def Let_def year bind_pad [OF fields(1)] bind_pad [OF dm] bind_pad [OF fields(2)]
        bind_pad [OF fields(3)] bind_pad [OF fields(4)] bind_pad [OF fields(5)] Option.bind.bind_lunit prod.case time simp_thms if_True)
qed

lemma to_iso_not_Nil [simp]: "to_iso t \<noteq> []"
  by (simp add: to_iso_def Let_def split: prod.split)

lemma date_parse_to_iso: "t \<le> 8640000000000000 \<Longrightarrow> date_parse other (to_iso t) = Some (int t)"
  by (simp add: date_parse_def read_to_iso)

lemma iso_examples:
  "to_iso 0 = ''1970-01-01T00:00:00.000Z''" "to_iso 951782399999 = ''2000-02-28T23:59:59.999Z''"
  "read_iso ''2000-02-29T00:00:00.000Z'' = Some 951782400000" "read_iso ''2001-02-29T00:00:00.000Z'' = None"
  by (simp_all add: to_iso_def read_iso_def read_field_def iso_time_def split_year.simps year_days_def leap_year_def
      month_days_def digit_char_def Let_def char_of_def bit_0)

end
