(* ===== verification/PairingStore.thy ===== *)
theory PairingStore
  imports JsDate SessionKeys
begin

text \<open>
  The store of pairing (\<open>src/pairing/pairing-store.ts\<close>): pending requests of senders who wrote for
  the first time, the approval of their codes, and the senders approved for a channel and account,
  with the cache in front of their files. The challenge that answers a stranger is
  \<open>src/pairing/pairing-challenge.ts\<close>.

  The state is the directory of credentials, the cache and the number of files written so far.
  An operation runs under the lock of its file, so it is one step; it returns an error or a result,
  and the state it leaves also when it throws. The lock itself and failing writes are left out. A
  file holds a list of requests, a list of approved senders or text that is not JSON, and may be
  unreadable.
\<close>

definition PAIRING_CODE_LENGTH :: nat where "PAIRING_CODE_LENGTH = 8"
definition PAIRING_CODE_ALPHABET :: string where "PAIRING_CODE_ALPHABET = ''ABCDEFGHJKLMNPQRSTUVWXYZ23456789''"
definition PAIRING_PENDING_TTL_MS :: int where "PAIRING_PENDING_TTL_MS = 60 * 60 * 1000"
definition PAIRING_PENDING_MAX :: nat where "PAIRING_PENDING_MAX = 3"

section \<open>State\<close>

record sender_request =
  rq_id :: string
  rq_code :: string
  rq_createdAt :: string
  rq_lastSeenAt :: string
  rq_meta :: "(string, string) js_map option"

text \<open>None is a document whose list is missing or no array.\<close>

datatype file_content = PairingFile "sender_request list option" | AllowFile "string list option" | NotJson

record stored_file =
  sf_content :: file_content
  sf_mtimeMs :: nat
  sf_size :: nat
  sf_readable :: bool

record allow_cache_entry =
  ce_exists :: bool
  ce_mtimeMs :: "nat option"
  ce_size :: "nat option"
  ce_entries :: "string list"

record pairing_state =
  ps_files :: "(string, stored_file) js_map"
  ps_cache :: "(string, allow_cache_entry) js_map"
  ps_writes :: nat

text \<open>
  What the store takes from outside: the adapter of a channel for its entries, what \<open>Date.parse\<close>
  makes of a text that \<open>toISOString\<close> did not write, the key of \<open>localeCompare\<close>, and the modification
  time and size that the file system reports for the n-th written file.
\<close>

record pairing_host =
  ph_adapter :: "string \<Rightarrow> (string \<Rightarrow> string) option"
  ph_other_dates :: "string \<Rightarrow> int option"
  ph_collate :: "string \<Rightarrow> nat"
  ph_stat :: "nat \<Rightarrow> nat \<times> nat"

type_synonym 'a step_result = "(string + 'a) \<times> pairing_state"

section \<open>File names\<close>

definition bad_file_char :: "char \<Rightarrow> bool" where
  "bad_file_char c \<longleftrightarrow> c \<in> set [CHR 0x5C, CHR ''/'', CHR '':'', CHR ''*'', CHR ''?'', CHR 0x22, CHR ''<'', CHR ''>'', CHR ''|'']"

fun replace_dots :: "string \<Rightarrow> string" where
  "replace_dots [] = []"
| "replace_dots [c] = [c]"
| "replace_dots (c # d # s) = (if c = CHR ''.'' \<and> d = CHR ''.'' then CHR ''_'' # replace_dots s else c # replace_dots (d # s))"

definition safe_key :: "string \<Rightarrow> string \<Rightarrow> string + string" where
  "safe_key err s =
     (let raw = to_lower (trim s) in
      if raw = [] then Inl err
      else let safe = replace_dots (map (\<lambda>c. if bad_file_char c then CHR ''_'' else c) raw) in
        if safe = [] \<or> safe = ''_'' then Inl err else Inr safe)"

definition safeChannelKey :: "string \<Rightarrow> string + string" where
  "safeChannelKey channel = safe_key ''invalid pairing channel'' channel"

definition safeAccountKey :: "string \<Rightarrow> string + string" where
  "safeAccountKey accountId = safe_key ''invalid pairing account id'' accountId"

definition resolvePairingPath :: "string \<Rightarrow> string + string" where
  "resolvePairingPath channel =
     (case safeChannelKey channel of Inl e \<Rightarrow> Inl e | Inr k \<Rightarrow> Inr (k @ ''-pairing.json''))"

definition resolveAllowFromPath :: "string \<Rightarrow> string option \<Rightarrow> string + string" where
  "resolveAllowFromPath channel accountId =
     (case safeChannelKey channel of Inl e \<Rightarrow> Inl e
      | Inr base \<Rightarrow> let normalizedAccountId = trim (nullish accountId []) in
          if normalizedAccountId = [] then Inr (base @ ''-allowFrom.json'')
          else (case safeAccountKey normalizedAccountId of Inl e \<Rightarrow> Inl e
                | Inr k \<Rightarrow> Inr (base @ ''-'' @ k @ ''-allowFrom.json'')))"

section \<open>Files\<close>

text \<open>\<open>readJsonFileWithFallback\<close>: None is the fallback; the flag is \<open>exists\<close>.\<close>

definition readJsonFile :: "string \<Rightarrow> pairing_state \<Rightarrow> file_content option \<times> bool" where
  "readJsonFile path st =
     (case map_get (ps_files st) path of
        None \<Rightarrow> (None, False)
      | Some f \<Rightarrow> if \<not> sf_readable f then (None, False)
          else if sf_content f = NotJson then (None, True) else (Some (sf_content f), True))"

definition writeJsonFile :: "pairing_host \<Rightarrow> string \<Rightarrow> file_content \<Rightarrow> pairing_state \<Rightarrow> pairing_state" where
  "writeJsonFile E path content st =
     (let (mtime, bytes) = ph_stat E (ps_writes st) in
      st\<lparr>ps_files := map_set path \<lparr>sf_content = content, sf_mtimeMs = mtime, sf_size = bytes, sf_readable = True\<rparr> (ps_files st),
         ps_writes := Suc (ps_writes st)\<rparr>)"

definition ensureJsonFile :: "pairing_host \<Rightarrow> string \<Rightarrow> file_content \<Rightarrow> pairing_state \<Rightarrow> pairing_state" where
  "ensureJsonFile E path fallback st =
     (if map_get (ps_files st) path = None then writeJsonFile E path fallback st else st)"

fun requests_of :: "file_content option \<Rightarrow> sender_request list" where
  "requests_of (Some (PairingFile (Some rs))) = rs"
| "requests_of _ = []"

fun allow_of :: "file_content option \<Rightarrow> string list" where
  "allow_of (Some (AllowFile (Some xs))) = xs"
| "allow_of _ = []"

definition readPairingRequests :: "string \<Rightarrow> pairing_state \<Rightarrow> sender_request list" where
  "readPairingRequests path st = requests_of (fst (readJsonFile path st))"

definition writeRequests :: "pairing_host \<Rightarrow> string \<Rightarrow> sender_request list \<Rightarrow> pairing_state \<Rightarrow> pairing_state" where
  "writeRequests E path rs st = writeJsonFile E path (PairingFile (Some rs)) st"

section \<open>Expiry and the cap\<close>

definition parseTimestamp :: "pairing_host \<Rightarrow> string \<Rightarrow> int option" where
  "parseTimestamp E value = (if value = [] then None else date_parse (ph_other_dates E) value)"

definition isExpired :: "pairing_host \<Rightarrow> sender_request \<Rightarrow> int \<Rightarrow> bool" where
  "isExpired E entry nowMs =
     (case parseTimestamp E (rq_createdAt entry) of
        None \<Rightarrow> True
      | Some createdAt \<Rightarrow> createdAt = 0 \<or> nowMs - createdAt > PAIRING_PENDING_TTL_MS)"

definition pruneExpiredRequests :: "pairing_host \<Rightarrow> sender_request list \<Rightarrow> int \<Rightarrow> sender_request list \<times> bool" where
  "pruneExpiredRequests E reqs nowMs =
     (filter (\<lambda>r. \<not> isExpired E r nowMs) reqs, \<exists>r \<in> set reqs. isExpired E r nowMs)"

definition readPrunedPairingRequests :: "pairing_host \<Rightarrow> string \<Rightarrow> int \<Rightarrow> pairing_state \<Rightarrow> sender_request list \<times> bool" where
  "readPrunedPairingRequests E path nowMs st = pruneExpiredRequests E (readPairingRequests path st) nowMs"

definition resolveLastSeenAt :: "pairing_host \<Rightarrow> sender_request \<Rightarrow> int" where
  "resolveLastSeenAt E entry = nullish (nullish_opt (parseTimestamp E (rq_lastSeenAt entry)) (parseTimestamp E (rq_createdAt entry))) 0"

definition pruneExcessRequests :: "pairing_host \<Rightarrow> sender_request list \<Rightarrow> nat \<Rightarrow> sender_request list \<times> bool" where
  "pruneExcessRequests E reqs maxPending =
     (if maxPending = 0 \<or> length reqs \<le> maxPending then (reqs, False)
      else let sorted = sort_key (resolveLastSeenAt E) reqs in (drop (length sorted - maxPending) sorted, True))"

section \<open>Codes\<close>

text \<open>
  \<open>crypto.randomInt(0, 32)\<close> for the position of a character in an attempt is the argument \<open>rnd\<close>.
\<close>

definition randomCode :: "(nat \<Rightarrow> nat) \<Rightarrow> string" where
  "randomCode r = map (\<lambda>i. PAIRING_CODE_ALPHABET ! r i) [0..<PAIRING_CODE_LENGTH]"

fun try_codes :: "string list \<Rightarrow> (nat \<Rightarrow> nat \<Rightarrow> nat) \<Rightarrow> nat \<Rightarrow> nat \<Rightarrow> string option" where
  "try_codes existing rnd attempt 0 = None"
| "try_codes existing rnd attempt (Suc left) =
     (let code = randomCode (rnd attempt) in
      if code \<notin> set existing then Some code else try_codes existing rnd (Suc attempt) left)"

definition generateUniqueCode :: "string list \<Rightarrow> (nat \<Rightarrow> nat \<Rightarrow> nat) \<Rightarrow> string + string" where
  "generateUniqueCode existing rnd =
     (case try_codes existing rnd 0 500 of Some c \<Rightarrow> Inr c | None \<Rightarrow> Inl ''failed to generate unique pairing code'')"

section \<open>Accounts and entries\<close>

definition normalizePairingAccountId :: "string option \<Rightarrow> string" where
  "normalizePairingAccountId accountId = (case accountId of None \<Rightarrow> [] | Some a \<Rightarrow> to_lower (trim a))"

definition meta_account :: "sender_request \<Rightarrow> string" where
  "meta_account entry = nullish (Option.bind (rq_meta entry) (\<lambda>m. map_get m ''accountId'')) []"

definition requestMatchesAccountId :: "sender_request \<Rightarrow> string \<Rightarrow> bool" where
  "requestMatchesAccountId entry normalizedAccountId =
     (normalizedAccountId = [] \<or> to_lower (trim (meta_account entry)) = normalizedAccountId)"

definition shouldIncludeLegacyAllowFromEntries :: "string \<Rightarrow> bool" where
  "shouldIncludeLegacyAllowFromEntries normalizedAccountId =
     (normalizedAccountId = [] \<or> normalizedAccountId = DEFAULT_ACCOUNT_ID)"

definition resolveAllowFromAccountId :: "string option \<Rightarrow> string" where
  "resolveAllowFromAccountId accountId = str_or (normalizePairingAccountId accountId) DEFAULT_ACCOUNT_ID"

definition normalizeAllowEntry :: "pairing_host \<Rightarrow> string \<Rightarrow> string \<Rightarrow> string" where
  "normalizeAllowEntry E channel entry =
     (let trimmed = trim entry in
      if trimmed = [] \<or> trimmed = ''*'' then []
      else trim (case ph_adapter E channel of None \<Rightarrow> trimmed | Some f \<Rightarrow> f trimmed))"

definition dedupePreserveOrder :: "string list \<Rightarrow> string list" where
  "dedupePreserveOrder entries =
     fold (\<lambda>entry out. let normalized = trim entry in
        if normalized = [] \<or> normalized \<in> set out then out else out @ [normalized]) entries []"

definition normalizeAllowFromList :: "pairing_host \<Rightarrow> string \<Rightarrow> file_content option \<Rightarrow> string list" where
  "normalizeAllowFromList E channel store = dedupePreserveOrder (nonempty_strs (map (normalizeAllowEntry E channel) (allow_of store)))"

definition normalizeAllowFromInput :: "pairing_host \<Rightarrow> string \<Rightarrow> string \<Rightarrow> string" where
  "normalizeAllowFromInput E channel entry = normalizeAllowEntry E channel (trim entry)"

section \<open>Reading the approved senders, with the cache\<close>

definition setAllowFromReadCache :: "string \<Rightarrow> allow_cache_entry \<Rightarrow> pairing_state \<Rightarrow> pairing_state" where
  "setAllowFromReadCache path entry st = st\<lparr>ps_cache := map_set path entry (ps_cache st)\<rparr>"

definition stat_file :: "string \<Rightarrow> pairing_state \<Rightarrow> (nat \<times> nat) option" where
  "stat_file path st = map_option (\<lambda>f. (sf_mtimeMs f, sf_size f)) (map_get (ps_files st) path)"

definition resolveAllowFromReadCacheHit :: "string \<Rightarrow> (nat \<times> nat) option \<Rightarrow> pairing_state \<Rightarrow> allow_cache_entry option" where
  "resolveAllowFromReadCacheHit path stat st =
     (case map_get (ps_cache st) path of
        None \<Rightarrow> None
      | Some cached \<Rightarrow>
          if ce_exists cached \<noteq> (stat \<noteq> None) then None
          else if stat = None then Some cached
          else if ce_mtimeMs cached \<noteq> map_option fst stat \<or> ce_size cached \<noteq> map_option snd stat then None
          else Some cached)"

definition resolveAllowFromReadCacheOrMissing ::
  "string \<Rightarrow> (nat \<times> nat) option \<Rightarrow> pairing_state \<Rightarrow> (string list \<times> bool) option \<times> pairing_state" where
  "resolveAllowFromReadCacheOrMissing path stat st =
     (case resolveAllowFromReadCacheHit path stat st of
        Some cached \<Rightarrow> (Some (ce_entries cached, ce_exists cached), st)
      | None \<Rightarrow>
          if stat = None then
            (Some ([], False),
             setAllowFromReadCache path \<lparr>ce_exists = False, ce_mtimeMs = None, ce_size = None, ce_entries = []\<rparr> st)
          else (None, st))"

text \<open>
  The asynchronous read; the synchronous one (\<open>sync\<close>) differs for an unreadable file only, which it
  does not put into the cache.
\<close>

definition readAllowFromStateForPathWithExists ::
  "pairing_host \<Rightarrow> bool \<Rightarrow> string \<Rightarrow> string \<Rightarrow> pairing_state \<Rightarrow> (string list \<times> bool) \<times> pairing_state" where
  "readAllowFromStateForPathWithExists E sync channel path st =
     (case resolveAllowFromReadCacheOrMissing path (stat_file path st) st of
        (Some hit, st') \<Rightarrow> (hit, st')
      | (None, st') \<Rightarrow>
          (case stat_file path st' of
             None \<Rightarrow> (([], False), st')
           | Some (mtime, bytes) \<Rightarrow>
               let (value, ex) = readJsonFile path st';
                   entries = normalizeAllowFromList E channel value in
               if sync \<and> \<not> ex then (([], False), st')
               else ((entries, ex),
                 setAllowFromReadCache path \<lparr>ce_exists = ex, ce_mtimeMs = Some mtime, ce_size = Some bytes, ce_entries = entries\<rparr> st')))"

definition readAllowFromStateForPath ::
  "pairing_host \<Rightarrow> bool \<Rightarrow> string \<Rightarrow> string \<Rightarrow> pairing_state \<Rightarrow> string list \<times> pairing_state" where
  "readAllowFromStateForPath E sync channel path st =
     (let (r, st') = readAllowFromStateForPathWithExists E sync channel path st in (fst r, st'))"

definition readLegacyChannelAllowFromStore :: "pairing_host \<Rightarrow> bool \<Rightarrow> string \<Rightarrow> pairing_state \<Rightarrow> string list step_result" where
  "readLegacyChannelAllowFromStore E sync channel st =
     (case resolveAllowFromPath channel None of
        Inl e \<Rightarrow> (Inl e, st)
      | Inr path \<Rightarrow> let (es, st') = readAllowFromStateForPath E sync channel path st in (Inr es, st'))"

definition readChannelAllowFromStore ::
  "pairing_host \<Rightarrow> bool \<Rightarrow> string \<Rightarrow> string option \<Rightarrow> pairing_state \<Rightarrow> string list step_result" where
  "readChannelAllowFromStore E sync channel accountId st =
     (let resolvedAccountId = resolveAllowFromAccountId accountId in
      case resolveAllowFromPath channel (Some resolvedAccountId) of
        Inl e \<Rightarrow> (Inl e, st)
      | Inr scopedPath \<Rightarrow>
          let (scopedEntries, st1) = readAllowFromStateForPath E sync channel scopedPath st in
          if \<not> shouldIncludeLegacyAllowFromEntries resolvedAccountId then (Inr scopedEntries, st1)
          else (case resolveAllowFromPath channel None of
              Inl e \<Rightarrow> (Inl e, st1)
            | Inr legacyPath \<Rightarrow>
                let (legacyEntries, st2) = readAllowFromStateForPath E sync channel legacyPath st1 in
                (Inr (dedupePreserveOrder (scopedEntries @ legacyEntries)), st2)))"

section \<open>Changing the approved senders\<close>

text \<open>The write is followed by a stat, whose answer goes into the cache with the entries.\<close>

definition writeAllowFromState :: "pairing_host \<Rightarrow> string \<Rightarrow> string list \<Rightarrow> pairing_state \<Rightarrow> pairing_state" where
  "writeAllowFromState E path allowFrom st =
     (let st' = writeJsonFile E path (AllowFile (Some allowFrom)) st; stat = stat_file path st' in
      setAllowFromReadCache path
        \<lparr>ce_exists = True, ce_mtimeMs = map_option fst stat, ce_size = map_option snd stat, ce_entries = allowFrom\<rparr> st')"

definition updateAllowFromStoreEntry ::
  "pairing_host \<Rightarrow> string \<Rightarrow> string \<Rightarrow> string option \<Rightarrow> (string list \<Rightarrow> string \<Rightarrow> string list option) \<Rightarrow> pairing_state \<Rightarrow>
    (bool \<times> string list) step_result" where
  "updateAllowFromStoreEntry E channel entry accountId app st =
     (case resolveAllowFromPath channel accountId of
        Inl e \<Rightarrow> (Inl e, st)
      | Inr path \<Rightarrow>
          let st1 = ensureJsonFile E path (AllowFile (Some [])) st;
              current = normalizeAllowFromList E channel (fst (readJsonFile path st1));
              normalized = normalizeAllowFromInput E channel entry in
          if normalized = [] then (Inr (False, current), st1)
          else (case app current normalized of
              None \<Rightarrow> (Inr (False, current), st1)
            | Some next \<Rightarrow> (Inr (True, next), writeAllowFromState E path next st1)))"

definition addChannelAllowFromStoreEntry ::
  "pairing_host \<Rightarrow> string \<Rightarrow> string \<Rightarrow> string option \<Rightarrow> pairing_state \<Rightarrow> (bool \<times> string list) step_result" where
  "addChannelAllowFromStoreEntry E channel entry accountId st =
     updateAllowFromStoreEntry E channel entry accountId
       (\<lambda>current normalized. if normalized \<in> set current then None else Some (current @ [normalized])) st"

definition removeChannelAllowFromStoreEntry ::
  "pairing_host \<Rightarrow> string \<Rightarrow> string \<Rightarrow> string option \<Rightarrow> pairing_state \<Rightarrow> (bool \<times> string list) step_result" where
  "removeChannelAllowFromStoreEntry E channel entry accountId st =
     updateAllowFromStoreEntry E channel entry accountId
       (\<lambda>current normalized. let next = filter (\<lambda>e. e \<noteq> normalized) current in
          if length next = length current then None else Some next) st"

section \<open>Pending requests\<close>

definition listChannelPairingRequests ::
  "pairing_host \<Rightarrow> nat \<Rightarrow> string \<Rightarrow> string option \<Rightarrow> pairing_state \<Rightarrow> sender_request list step_result" where
  "listChannelPairingRequests E now channel accountId st =
     (case resolvePairingPath channel of
        Inl e \<Rightarrow> (Inl e, st)
      | Inr path \<Rightarrow>
          let st1 = ensureJsonFile E path (PairingFile (Some [])) st;
              (prunedExpired, expiredRemoved) = readPrunedPairingRequests E path (int now) st1;
              (pruned, cappedRemoved) = pruneExcessRequests E prunedExpired PAIRING_PENDING_MAX;
              st2 = (if expiredRemoved \<or> cappedRemoved then writeRequests E path pruned st1 else st1);
              normalizedAccountId = normalizePairingAccountId accountId;
              filtered = (if normalizedAccountId \<noteq> [] then filter (\<lambda>r. requestMatchesAccountId r normalizedAccountId) pruned else pruned) in
          (Inr (sort_key (\<lambda>r. ph_collate E (rq_createdAt r)) filtered), st2))"

text \<open>The meta data of a request: blank values are dropped, and the account is always there.\<close>

definition request_meta :: "(string \<times> string option) list option \<Rightarrow> string \<Rightarrow> (string, string) js_map" where
  "request_meta meta accountId =
     map_set ''accountId'' accountId
       (fold (\<lambda>(k, v). map_set k v) (filter (\<lambda>(k, v). v \<noteq> []) (map (\<lambda>(k, v). (k, trim (nullish v []))) (nullish meta []))) [])"

fun find_index :: "('a \<Rightarrow> bool) \<Rightarrow> 'a list \<Rightarrow> nat option" where
  "find_index P [] = None"
| "find_index P (x # xs) = (if P x then Some 0 else map_option Suc (find_index P xs))"

definition existing_codes :: "sender_request list \<Rightarrow> string list" where
  "existing_codes reqs = map (\<lambda>r. to_upper (trim (rq_code r))) reqs"

definition upsertChannelPairingRequest ::
  "pairing_host \<Rightarrow> nat \<Rightarrow> (nat \<Rightarrow> nat \<Rightarrow> nat) \<Rightarrow> string \<Rightarrow> string \<Rightarrow> string \<Rightarrow> (string \<times> string option) list option \<Rightarrow>
    pairing_state \<Rightarrow> (string \<times> bool) step_result" where
  "upsertChannelPairingRequest E now rnd channel id0 accountId meta0 st =
     (case resolvePairingPath channel of
        Inl e \<Rightarrow> (Inl e, st)
      | Inr path \<Rightarrow>
          let st1 = ensureJsonFile E path (PairingFile (Some [])) st;
              id = trim id0;
              normalizedAccountId = str_or (normalizePairingAccountId (Some accountId)) DEFAULT_ACCOUNT_ID;
              meta = request_meta meta0 normalizedAccountId;
              (reqs, expiredRemoved) = pruneExpiredRequests E (readPairingRequests path st1) (int now);
              codes = existing_codes reqs in
          case find_index (\<lambda>r. rq_id r = id \<and> requestMatchesAccountId r normalizedAccountId) reqs of
            Some idx \<Rightarrow>
              let existing = reqs ! idx; existingCode = trim (rq_code existing) in
              (case (if existingCode \<noteq> [] then Inr existingCode else generateUniqueCode codes rnd) of
                 Inl e \<Rightarrow> (Inl e, st1)
               | Inr code \<Rightarrow>
                   let next = \<lparr>rq_id = id, rq_code = code, rq_createdAt = rq_createdAt existing, rq_lastSeenAt = to_iso now, rq_meta = Some meta\<rparr>;
                       (capped, _) = pruneExcessRequests E (reqs[idx := next]) PAIRING_PENDING_MAX in
                   (Inr (code, False), writeRequests E path capped st1))
          | None \<Rightarrow>
              let (capped, cappedRemoved) = pruneExcessRequests E reqs PAIRING_PENDING_MAX in
              if PAIRING_PENDING_MAX > 0 \<and> length capped \<ge> PAIRING_PENDING_MAX then
                (Inr ([], False), if expiredRemoved \<or> cappedRemoved then writeRequests E path capped st1 else st1)
              else (case generateUniqueCode codes rnd of
                  Inl e \<Rightarrow> (Inl e, st1)
                | Inr code \<Rightarrow>
                    let next = \<lparr>rq_id = id, rq_code = code, rq_createdAt = to_iso now, rq_lastSeenAt = to_iso now, rq_meta = Some meta\<rparr> in
                    (Inr (code, True), writeRequests E path (capped @ [next]) st1)))"

definition approveChannelPairingCode ::
  "pairing_host \<Rightarrow> nat \<Rightarrow> string \<Rightarrow> string \<Rightarrow> string option \<Rightarrow> pairing_state \<Rightarrow> sender_request option step_result" where
  "approveChannelPairingCode E now channel code0 accountId st =
     (let code = to_upper (trim code0) in
      if code = [] then (Inr None, st)
      else case resolvePairingPath channel of
        Inl e \<Rightarrow> (Inl e, st)
      | Inr path \<Rightarrow>
          let st1 = ensureJsonFile E path (PairingFile (Some [])) st;
              (pruned, removed) = readPrunedPairingRequests E path (int now) st1;
              normalizedAccountId = normalizePairingAccountId accountId in
          case find_index (\<lambda>r. to_upper (rq_code r) = code \<and> requestMatchesAccountId r normalizedAccountId) pruned of
            None \<Rightarrow> (Inr None, if removed then writeRequests E path pruned st1 else st1)
          | Some idx \<Rightarrow>
              let entry = pruned ! idx;
                  st2 = writeRequests E path (take idx pruned @ drop (Suc idx) pruned) st1;
                  entryAccountId = str_opt (trim (meta_account entry));
                  account = nullish_opt (Option.bind (map_option trim accountId) str_opt) entryAccountId in
              (case addChannelAllowFromStoreEntry E channel (rq_id entry) account st2 of
                 (Inl e, st3) \<Rightarrow> (Inl e, st3)
               | (Inr _, st3) \<Rightarrow> (Inr (Some entry), st3)))"

section \<open>The challenge\<close>

text \<open>
  The code that is sent to a new sender, or None; the upsert is the argument. Whether the reply
  arrives changes nothing.
\<close>

definition issuePairingChallenge :: "(string \<times> bool) step_result \<Rightarrow> string option step_result" where
  "issuePairingChallenge upserted =
     (case upserted of
        (Inl e, st) \<Rightarrow> (Inl e, st)
      | (Inr (code, created), st) \<Rightarrow> (Inr (if created then Some code else None), st))"

section \<open>Runs\<close>

text \<open>
  The operations that channels, the command line and the commands of the chat call, and an edit of a
  file by another process. The history below collects who was let in: the channel, the sender and the account.
\<close>

datatype store_op =
  UpsertOp string string string "(string \<times> string option) list option" "nat \<Rightarrow> nat \<Rightarrow> nat"
| ListOp string "string option"
| ApproveOp string string "string option"
| AddOp string string "string option"
| RemoveOp string string "string option"
| ReadOp bool string "string option"
| LegacyReadOp bool string
| EditOp string stored_file

fun credentials_step :: "pairing_host \<Rightarrow> nat \<times> store_op \<Rightarrow> pairing_state \<Rightarrow> pairing_state" where
  "credentials_step E (now, UpsertOp channel sender account meta rnd) st = snd (upsertChannelPairingRequest E now rnd channel sender account meta st)"
| "credentials_step E (now, ListOp channel account) st = snd (listChannelPairingRequests E now channel account st)"
| "credentials_step E (now, ApproveOp channel code account) st = snd (approveChannelPairingCode E now channel code account st)"
| "credentials_step E (now, AddOp channel entry account) st = snd (addChannelAllowFromStoreEntry E channel entry account st)"
| "credentials_step E (now, RemoveOp channel entry account) st = snd (removeChannelAllowFromStoreEntry E channel entry account st)"
| "credentials_step E (now, ReadOp sync channel account) st = snd (readChannelAllowFromStore E sync channel account st)"
| "credentials_step E (now, LegacyReadOp sync channel) st = snd (readLegacyChannelAllowFromStore E sync channel st)"
| "credentials_step E (now, EditOp path f) st = st\<lparr>ps_files := map_set path f (ps_files st)\<rparr>"

definition credentials_run :: "pairing_host \<Rightarrow> (nat \<times> store_op) list \<Rightarrow> pairing_state \<Rightarrow> pairing_state" where
  "credentials_run E ops st = fold (credentials_step E) ops st"

definition empty_credentials :: pairing_state where
  "empty_credentials = \<lparr>ps_files = [], ps_cache = [], ps_writes = 0\<rparr>"

text \<open>The account under which an approval files its sender.\<close>

definition approval_account :: "string option \<Rightarrow> sender_request \<Rightarrow> string option" where
  "approval_account accountId entry =
     nullish_opt (Option.bind (map_option trim accountId) str_opt) (str_opt (trim (meta_account entry)))"

fun admissions :: "pairing_host \<Rightarrow> (nat \<times> store_op) list \<Rightarrow> pairing_state \<Rightarrow> (string \<times> string \<times> string option) list" where
  "admissions E [] st = []"
| "admissions E ((now, op) # ops) st =
     (case op of
        ApproveOp channel code account \<Rightarrow>
          (case fst (approveChannelPairingCode E now channel code account st) of
             Inr (Some e) \<Rightarrow> [(channel, rq_id e, approval_account account e)] | _ \<Rightarrow> [])
      | AddOp channel entry account \<Rightarrow> [(channel, entry, account)]
      | _ \<Rightarrow> [])
     @ admissions E ops (credentials_step E (now, op) st)"

section \<open>Files after a write\<close>

definition senders_in :: "string \<Rightarrow> pairing_state \<Rightarrow> string list" where
  "senders_in path st = allow_of (fst (readJsonFile path st))"

lemma readJsonFile_write [simp]:
  "c \<noteq> NotJson \<Longrightarrow> readJsonFile p (writeJsonFile E q c st) = (if p = q then (Some c, True) else readJsonFile p st)"
  by (auto simp: readJsonFile_def writeJsonFile_def split: prod.splits)

lemma stat_write [simp]:
  "stat_file p (writeJsonFile E q c st) = (if p = q then Some (ph_stat E (ps_writes st)) else stat_file p st)"
  by (auto simp: stat_file_def writeJsonFile_def split: prod.splits)

lemma cache_write [simp]: "ps_cache (writeJsonFile E q c st) = ps_cache st"
  by (auto simp: writeJsonFile_def split: prod.splits)

lemma readJsonFile_cache [simp]:
  "readJsonFile p (setAllowFromReadCache q e st) = readJsonFile p st"
  "stat_file p (setAllowFromReadCache q e st) = stat_file p st"
  by (simp_all add: readJsonFile_def setAllowFromReadCache_def stat_file_def)

lemma cache_set [simp]: "ps_cache (setAllowFromReadCache q e st) = map_set q e (ps_cache st)"
  by (simp add: setAllowFromReadCache_def)

lemma requests_after_write [simp]:
  "readPairingRequests p (writeRequests E q rs st) = (if p = q then rs else readPairingRequests p st)"
  "readPairingRequests p (writeAllowFromState E q xs st) = (if p = q then [] else readPairingRequests p st)"
  "readPairingRequests p (setAllowFromReadCache q e st) = readPairingRequests p st"
  by (simp_all add: readPairingRequests_def writeRequests_def writeAllowFromState_def Let_def)

lemma senders_after_write [simp]:
  "senders_in p (writeRequests E q rs st) = (if p = q then [] else senders_in p st)"
  "senders_in p (writeAllowFromState E q xs st) = (if p = q then xs else senders_in p st)"
  "senders_in p (setAllowFromReadCache q e st) = senders_in p st"
  by (simp_all add: senders_in_def writeRequests_def writeAllowFromState_def Let_def)

lemma ensure_keeps [simp]:
  assumes "c = PairingFile (Some []) \<or> c = AllowFile (Some [])"
  shows "readPairingRequests p (ensureJsonFile E q c st) = readPairingRequests p st"
    and "senders_in p (ensureJsonFile E q c st) = senders_in p st"
  using assms by (auto simp: readPairingRequests_def senders_in_def ensureJsonFile_def readJsonFile_def writeJsonFile_def split: prod.splits)

lemma cache_after_write [simp]:
  "ps_cache (writeRequests E q rs st) = ps_cache st"
  "ps_cache (ensureJsonFile E q c st) = ps_cache st"
  "ps_cache (writeAllowFromState E q xs st) = map_set q \<lparr>ce_exists = True, ce_mtimeMs = Some (fst (ph_stat E (ps_writes st))),
     ce_size = Some (snd (ph_stat E (ps_writes st))), ce_entries = xs\<rparr> (ps_cache st)"
  by (simp_all add: writeRequests_def ensureJsonFile_def writeAllowFromState_def Let_def)

lemma normalizeAllowFromList_senders:
  "normalizeAllowFromList E ch (fst (readJsonFile p st)) = dedupePreserveOrder (nonempty_strs (map (normalizeAllowEntry E ch) (senders_in p st)))"
  by (simp add: normalizeAllowFromList_def senders_in_def)

lemma dedupePreserveOrder_eq: "dedupePreserveOrder xs = js_set_of (nonempty_strs (map trim xs))"
proof -
  have "fold (\<lambda>entry out. let normalized = trim entry in
        if normalized = [] \<or> normalized \<in> set out then out else out @ [normalized]) xs acc =
      fold set_add (nonempty_strs (map trim xs)) acc" for acc
    by (induction xs arbitrary: acc) (auto simp: nonempty_strs_def set_add_def Let_def)
  then show ?thesis by (simp add: dedupePreserveOrder_def js_set_of_def)
qed

lemma set_dedupePreserveOrder: "set (dedupePreserveOrder xs) = trim ` set xs - {[]}"
  by (auto simp: dedupePreserveOrder_eq nonempty_strs_def)

lemma trim_normalizeAllowEntry [simp]: "trim (normalizeAllowEntry E ch e) = normalizeAllowEntry E ch e"
  by (simp add: normalizeAllowEntry_def Let_def)

lemma normalizeAllowEntry_Nil [simp]: "normalizeAllowEntry E ch [] = []"
  by (simp add: normalizeAllowEntry_def)

lemma normalizeAllowEntry_trim [simp]: "normalizeAllowEntry E ch (trim e) = normalizeAllowEntry E ch e"
  by (simp add: normalizeAllowEntry_def)

lemma set_normalized_senders:
  "set (normalizeAllowFromList E ch (fst (readJsonFile p st))) = normalizeAllowEntry E ch ` set (senders_in p st) - {[]}"
  by (auto simp: normalizeAllowFromList_senders set_dedupePreserveOrder nonempty_strs_def image_iff) (metis trim_normalizeAllowEntry)

section \<open>Who gets into a list of approved senders\<close>

text \<open>
  Every sender on file or in the cache satisfies a property of its file; the operations keep that
  when the property is closed under normal forms and holds of those who are let in.
\<close>

definition senders_satisfy :: "(string \<Rightarrow> string \<Rightarrow> bool) \<Rightarrow> pairing_state \<Rightarrow> bool" where
  "senders_satisfy P st \<longleftrightarrow> (\<forall>p. (\<forall>x \<in> set (senders_in p st). P p x) \<and>
     (\<forall>c. map_get (ps_cache st) p = Some c \<longrightarrow> (\<forall>x \<in> set (ce_entries c). P p x)))"

lemma senders_satisfyD:
  "senders_satisfy P st \<Longrightarrow> x \<in> set (senders_in p st) \<Longrightarrow> P p x"
  "senders_satisfy P st \<Longrightarrow> map_get (ps_cache st) p = Some c \<Longrightarrow> x \<in> set (ce_entries c) \<Longrightarrow> P p x"
  by (auto simp: senders_satisfy_def)

lemma senders_satisfy_write:
  "senders_satisfy P st \<Longrightarrow> senders_satisfy P (writeRequests E q rs st)"
  "senders_satisfy P st \<Longrightarrow> c = PairingFile (Some []) \<or> c = AllowFile (Some []) \<Longrightarrow> senders_satisfy P (ensureJsonFile E q c st)"
  "senders_satisfy P st \<Longrightarrow> \<forall>x \<in> set xs. P q x \<Longrightarrow> senders_satisfy P (writeAllowFromState E q xs st)"
  "senders_satisfy P st \<Longrightarrow> \<forall>x \<in> set (ce_entries e). P q x \<Longrightarrow> senders_satisfy P (setAllowFromReadCache q e st)"
  by (auto simp: senders_satisfy_def)

definition closed_under_normal_forms :: "pairing_host \<Rightarrow> string \<Rightarrow> (string \<Rightarrow> string \<Rightarrow> bool) \<Rightarrow> bool" where
  "closed_under_normal_forms E ch P \<longleftrightarrow> (\<forall>p x. P p x \<longrightarrow> normalizeAllowEntry E ch x = [] \<or> P p (normalizeAllowEntry E ch x))"

lemma normalized_senders_satisfy:
  assumes "senders_satisfy P st" "closed_under_normal_forms E ch P"
    and "x \<in> set (normalizeAllowFromList E ch (fst (readJsonFile p st)))"
  shows "P p x"
  using assms by (auto simp: set_normalized_senders closed_under_normal_forms_def dest: senders_satisfyD)

lemma read_senders_satisfy:
  assumes P: "senders_satisfy P st" and C: "closed_under_normal_forms E ch P"
    and r: "readAllowFromStateForPath E sync ch p st = (es, st')"
  shows "(\<forall>x \<in> set es. P p x) \<and> senders_satisfy P st'"
  using r P normalized_senders_satisfy [OF P C, of _ p] senders_satisfyD(2) [OF P, of p]
  by (auto simp: readAllowFromStateForPath_def readAllowFromStateForPathWithExists_def resolveAllowFromReadCacheOrMissing_def
      resolveAllowFromReadCacheHit_def Let_def intro!: senders_satisfy_write(4) split: option.splits prod.splits if_splits)

lemma read_channel_satisfy:
  assumes P: "senders_satisfy P st" and C: "closed_under_normal_forms E ch P"
    and r: "readChannelAllowFromStore E sync ch account st = (res, st')"
  shows "senders_satisfy P st' \<and> (\<forall>es. res = Inr es \<longrightarrow> (\<forall>x \<in> set es.
     (\<exists>p. resolveAllowFromPath ch (Some (resolveAllowFromAccountId account)) = Inr p \<and> (P p x \<or> (\<exists>y. P p y \<and> x = trim y))) \<or>
     (\<exists>p. shouldIncludeLegacyAllowFromEntries (resolveAllowFromAccountId account) \<and> resolveAllowFromPath ch None = Inr p \<and>
        (\<exists>y. P p y \<and> x = trim y))))"
proof (cases "resolveAllowFromPath ch (Some (resolveAllowFromAccountId account))")
  case (Inl e)
  with r P show ?thesis by (auto simp: readChannelAllowFromStore_def)
next
  case (Inr p)
  obtain es1 st1 where r1: "readAllowFromStateForPath E sync ch p st = (es1, st1)" by force
  note s1 = read_senders_satisfy [OF P C r1]
  show ?thesis
  proof (cases "shouldIncludeLegacyAllowFromEntries (resolveAllowFromAccountId account)")
    case False
    with r r1 Inr s1 show ?thesis by (auto simp: readChannelAllowFromStore_def)
  next
    case True
    show ?thesis
    proof (cases "resolveAllowFromPath ch None")
      case (Inl e)
      with True r r1 Inr s1 show ?thesis by (auto simp: readChannelAllowFromStore_def)
    next
      case q: (Inr q)
      obtain es2 st2 where r2: "readAllowFromStateForPath E sync ch q st1 = (es2, st2)" by force
      note s2 = read_senders_satisfy [OF conjunct2 [OF s1] C r2]
      have "(\<exists>y. P p y \<and> x = trim y) \<or> (\<exists>y. P q y \<and> x = trim y)" if "x \<in> set (dedupePreserveOrder (es1 @ es2))" for x
        using that s1 s2 by (auto simp: set_dedupePreserveOrder)
      with q True r r1 r2 Inr s2 show ?thesis
        by (simp add: readChannelAllowFromStore_def) blast
    qed
  qed
qed

text \<open>What is handed to the update of a list is its normal form, and the update only adds the entry or removes some.\<close>

lemma update_satisfy:
  assumes P: "senders_satisfy P st" and C: "closed_under_normal_forms E ch P"
    and r: "updateAllowFromStoreEntry E ch entry account app st = (res, st')"
    and app: "\<And>cur n nxt x. app cur n = Some nxt \<Longrightarrow> x \<in> set nxt \<Longrightarrow> x \<in> set cur \<or> x = n \<and> grow"
    and new: "\<And>p. grow \<Longrightarrow> resolveAllowFromPath ch account = Inr p \<Longrightarrow> normalizeAllowEntry E ch entry \<noteq> [] \<Longrightarrow> P p (normalizeAllowEntry E ch entry)"
  shows "senders_satisfy P st'"
proof (cases "resolveAllowFromPath ch account")
  case (Inl e)
  with r P show ?thesis by (simp add: updateAllowFromStoreEntry_def)
next
  case (Inr p)
  define st1 where "st1 = ensureJsonFile E p (AllowFile (Some [])) st"
  define cur where "cur = normalizeAllowFromList E ch (fst (readJsonFile p st1))"
  define n where "n = normalizeAllowFromInput E ch entry"
  have s1: "senders_satisfy P st1" unfolding st1_def by (rule senders_satisfy_write(2) [OF P]) simp
  have cur: "\<forall>x \<in> set cur. P p x" unfolding cur_def using normalized_senders_satisfy [OF s1 C] by blast
  have eq: "updateAllowFromStoreEntry E ch entry account app st = (if n = [] then (Inr (False, cur), st1)
      else (case app cur n of None \<Rightarrow> (Inr (False, cur), st1) | Some next \<Rightarrow> (Inr (True, next), writeAllowFromState E p next st1)))"
    by (simp only: updateAllowFromStoreEntry_def Inr sum.case Let_def st1_def cur_def n_def)
  have "app cur n = Some nxt \<Longrightarrow> n \<noteq> [] \<Longrightarrow> senders_satisfy P (writeAllowFromState E p nxt st1)" for nxt
    using app [of cur n nxt] cur new [OF _ Inr] by (intro senders_satisfy_write(3) [OF s1]) (auto simp: n_def normalizeAllowFromInput_def)
  with r s1 show ?thesis unfolding eq by (auto split: if_splits option.splits)
qed

lemma add_satisfy:
  assumes "senders_satisfy P st" "closed_under_normal_forms E ch P"
    and "\<And>p. resolveAllowFromPath ch account = Inr p \<Longrightarrow> normalizeAllowEntry E ch entry \<noteq> [] \<Longrightarrow> P p (normalizeAllowEntry E ch entry)"
  shows "senders_satisfy P (snd (addChannelAllowFromStoreEntry E ch entry account st))"
proof -
  obtain res st' where r: "addChannelAllowFromStoreEntry E ch entry account st = (res, st')" by force
  have "senders_satisfy P st'"
    by (rule update_satisfy [OF assms(1,2) r [unfolded addChannelAllowFromStoreEntry_def], of True])
      (use assms(3) in \<open>auto split: if_splits\<close>)
  with r show ?thesis by simp
qed

lemma remove_satisfy:
  assumes "senders_satisfy P st" "closed_under_normal_forms E ch P"
  shows "senders_satisfy P (snd (removeChannelAllowFromStoreEntry E ch entry account st))"
proof -
  obtain res st' where r: "removeChannelAllowFromStoreEntry E ch entry account st = (res, st')" by force
  have "senders_satisfy P st'"
    by (rule update_satisfy [OF assms r [unfolded removeChannelAllowFromStoreEntry_def], of False])
      (auto simp: Let_def split: if_splits)
  with r show ?thesis by simp
qed

lemma add_error_keeps:
  "resolveAllowFromPath ch account = Inl e \<Longrightarrow> addChannelAllowFromStoreEntry E ch entry account st = (Inl e, st)"
  by (simp add: addChannelAllowFromStoreEntry_def updateAllowFromStoreEntry_def)

lemma add_succeeds:
  "resolveAllowFromPath ch account = Inr p \<Longrightarrow> \<exists>r. fst (addChannelAllowFromStoreEntry E ch entry account st) = Inr r"
  by (auto simp: addChannelAllowFromStoreEntry_def updateAllowFromStoreEntry_def Let_def split: option.splits)

section \<open>An approval\<close>

lemma find_index_Some:
  "find_index P xs = Some i \<Longrightarrow> i < length xs \<and> P (xs ! i) \<and> (\<forall>j < i. \<not> P (xs ! j))"
proof (induction xs arbitrary: i)
  case (Cons x xs)
  then show ?case by (cases i) (auto split: if_splits simp: less_Suc_eq_0_disj nth_Cons')
qed simp

lemma find_index_None: "find_index P xs = None \<longleftrightarrow> (\<forall>x \<in> set xs. \<not> P x)"
  by (induction xs) auto

text \<open>The three ways an approval ends, with the states it goes through.\<close>

definition approval_store :: "pairing_host \<Rightarrow> string \<Rightarrow> pairing_state \<Rightarrow> pairing_state" where
  "approval_store E path st = ensureJsonFile E path (PairingFile (Some [])) st"

definition pending_at :: "pairing_host \<Rightarrow> nat \<Rightarrow> string \<Rightarrow> pairing_state \<Rightarrow> sender_request list" where
  "pending_at E now path st = filter (\<lambda>r. \<not> isExpired E r (int now)) (readPairingRequests path st)"

lemma approve_cases:
  assumes path: "resolvePairingPath ch = Inr path" and code: "to_upper (trim code) \<noteq> []"
  obtains
    (unknown) st1 where "\<forall>r \<in> set (pending_at E now path st). \<not> (to_upper (rq_code r) = to_upper (trim code) \<and> requestMatchesAccountId r (normalizePairingAccountId account))"
      "approveChannelPairingCode E now ch code account st = (Inr None, st1)"
      "st1 = approval_store E path st \<or> st1 = writeRequests E path (pending_at E now path st) (approval_store E path st)"
  | (known) i e st2 where "i < length (pending_at E now path st)" "e = pending_at E now path st ! i"
      "to_upper (rq_code e) = to_upper (trim code)" "requestMatchesAccountId e (normalizePairingAccountId account)"
      "st2 = writeRequests E path (take i (pending_at E now path st) @ drop (Suc i) (pending_at E now path st)) (approval_store E path st)"
      "approveChannelPairingCode E now ch code account st =
        (case addChannelAllowFromStoreEntry E ch (rq_id e) (approval_account account e) st2 of
           (Inl err, st3) \<Rightarrow> (Inl err, st3) | (Inr _, st3) \<Rightarrow> (Inr (Some e), st3))"
proof -
  let ?P = "\<lambda>r. to_upper (rq_code r) = to_upper (trim code) \<and> requestMatchesAccountId r (normalizePairingAccountId account)"
  have pr: "readPrunedPairingRequests E path (int now) (ensureJsonFile E path (PairingFile (Some [])) st) =
      (pending_at E now path st, \<exists>r \<in> set (readPairingRequests path st). isExpired E r (int now))"
    by (simp add: readPrunedPairingRequests_def pruneExpiredRequests_def pending_at_def)
  show thesis
  proof (cases "find_index ?P (pending_at E now path st)")
    case None
    have "approveChannelPairingCode E now ch code account st = (Inr None,
        if \<exists>r \<in> set (readPairingRequests path st). isExpired E r (int now)
        then writeRequests E path (pending_at E now path st) (approval_store E path st) else approval_store E path st)"
      by (simp add: approveChannelPairingCode_def pr Let_def None path code approval_store_def)
    from unknown [OF None [unfolded find_index_None] this] show thesis by simp
  next
    case (Some i)
    note i = find_index_Some [OF this]
    show thesis
      by (rule known [of i "pending_at E now path st ! i"])
        (use i in \<open>auto simp: approveChannelPairingCode_def pr Let_def Some path code approval_store_def approval_account_def\<close>)
  qed
qed

lemma approve_trivial:
  "to_upper (trim code) = [] \<Longrightarrow> approveChannelPairingCode E now ch code account st = (Inr None, st)"
  "to_upper (trim code) \<noteq> [] \<Longrightarrow> resolvePairingPath ch = Inl e \<Longrightarrow> approveChannelPairingCode E now ch code account st = (Inl e, st)"
  by (simp_all add: approveChannelPairingCode_def Let_def)

lemma approve_exactly:
  assumes "approveChannelPairingCode E now ch code account st = (Inr (Some e), st')"
  obtains path i p where "resolvePairingPath ch = Inr path" "i < length (pending_at E now path st)" "e = pending_at E now path st ! i"
    "to_upper (rq_code e) = to_upper (trim code)" "requestMatchesAccountId e (normalizePairingAccountId account)"
    "resolveAllowFromPath ch (approval_account account e) = Inr p"
    "st' = snd (addChannelAllowFromStoreEntry E ch (rq_id e) (approval_account account e)
       (writeRequests E path (take i (pending_at E now path st) @ drop (Suc i) (pending_at E now path st)) (approval_store E path st)))"
proof -
  have code: "to_upper (trim code) \<noteq> []" using assms approve_trivial(1) by force
  then obtain path where path: "resolvePairingPath ch = Inr path"
    using assms approve_trivial(2) [OF code] by (cases "resolvePairingPath ch") auto
  show thesis
  proof (rule approve_cases [OF path code, of E now st account])
    fix i f st2
    assume a: "i < length (pending_at E now path st)" "f = pending_at E now path st ! i"
      "to_upper (rq_code f) = to_upper (trim code)" "requestMatchesAccountId f (normalizePairingAccountId account)"
      "st2 = writeRequests E path (take i (pending_at E now path st) @ drop (Suc i) (pending_at E now path st)) (approval_store E path st)"
      "approveChannelPairingCode E now ch code account st =
        (case addChannelAllowFromStoreEntry E ch (rq_id f) (approval_account account f) st2 of
           (Inl err, st3) \<Rightarrow> (Inl err, st3) | (Inr _, st3) \<Rightarrow> (Inr (Some f), st3))"
    then have "e = f" and s: "st' = snd (addChannelAllowFromStoreEntry E ch (rq_id f) (approval_account account f) st2)"
      using assms by (auto split: prod.splits sum.splits)
    moreover obtain p where "resolveAllowFromPath ch (approval_account account f) = Inr p"
      using a(6) assms add_error_keeps [of ch "approval_account account f" _ E "rq_id f" st2]
      by (cases "resolveAllowFromPath ch (approval_account account f)") auto
    ultimately show thesis using that [OF path a(1)] a by blast
  qed (use assms in auto)
qed

section \<open>A request\<close>

definition request_account :: "string \<Rightarrow> string" where
  "request_account accountId = str_or (normalizePairingAccountId (Some accountId)) DEFAULT_ACCOUNT_ID"

definition new_request :: "nat \<Rightarrow> string \<Rightarrow> string \<Rightarrow> (string \<times> string option) list option \<Rightarrow> string \<Rightarrow> string \<Rightarrow> sender_request" where
  "new_request now sender accountId meta code created =
     \<lparr>rq_id = trim sender, rq_code = code, rq_createdAt = created, rq_lastSeenAt = to_iso now,
      rq_meta = Some (request_meta meta (request_account accountId))\<rparr>"

definition same_sender :: "string \<Rightarrow> string \<Rightarrow> sender_request \<Rightarrow> bool" where
  "same_sender sender accountId r \<longleftrightarrow> rq_id r = trim sender \<and> requestMatchesAccountId r (request_account accountId)"

lemma upsert_cases:
  fixes E :: pairing_host and now :: nat and st :: pairing_state and path :: string
  assumes path: "resolvePairingPath ch = Inr path"
  defines "reqs \<equiv> pending_at E now path st" and "st1 \<equiv> approval_store E path st"
  obtains
    (failed) e where "upsertChannelPairingRequest E now rnd ch sender account meta st = (Inl e, st1)"
  | (renewed) i code where "i < length reqs" "same_sender sender account (reqs ! i)"
      "trim (rq_code (reqs ! i)) \<noteq> [] \<and> code = trim (rq_code (reqs ! i)) \<or>
       trim (rq_code (reqs ! i)) = [] \<and> generateUniqueCode (existing_codes reqs) rnd = Inr code"
      "upsertChannelPairingRequest E now rnd ch sender account meta st = (Inr (code, False),
         writeRequests E path (fst (pruneExcessRequests E (reqs[i := new_request now sender account meta code (rq_createdAt (reqs ! i))]) PAIRING_PENDING_MAX)) st1)"
  | (full) st2 where "\<forall>r \<in> set reqs. \<not> same_sender sender account r"
      "length (fst (pruneExcessRequests E reqs PAIRING_PENDING_MAX)) \<ge> PAIRING_PENDING_MAX"
      "upsertChannelPairingRequest E now rnd ch sender account meta st = (Inr ([], False), st2)"
      "st2 = st1 \<or> st2 = writeRequests E path (fst (pruneExcessRequests E reqs PAIRING_PENDING_MAX)) st1"
  | (created) code where "\<forall>r \<in> set reqs. \<not> same_sender sender account r"
      "length (fst (pruneExcessRequests E reqs PAIRING_PENDING_MAX)) < PAIRING_PENDING_MAX"
      "generateUniqueCode (existing_codes reqs) rnd = Inr code"
      "upsertChannelPairingRequest E now rnd ch sender account meta st = (Inr (code, True),
         writeRequests E path (fst (pruneExcessRequests E reqs PAIRING_PENDING_MAX) @ [new_request now sender account meta code (to_iso now)]) st1)"
proof -
  let ?P = "\<lambda>r. rq_id r = trim sender \<and> requestMatchesAccountId r (request_account account)"
  have P: "?P = same_sender sender account" by (rule ext) (simp add: same_sender_def)
  have s1: "ensureJsonFile E path (PairingFile (Some [])) st = st1" by (simp add: st1_def approval_store_def)
  have pr: "pruneExpiredRequests E (readPairingRequests path st1) (int now) =
      (reqs, \<exists>r \<in> set (readPairingRequests path st). isExpired E r (int now))"
    by (simp add: pruneExpiredRequests_def pending_at_def reqs_def st1_def approval_store_def)
  obtain capped removed where cap: "pruneExcessRequests E reqs PAIRING_PENDING_MAX = (capped, removed)" by force
  have pos: "0 < PAIRING_PENDING_MAX" by (simp add: PAIRING_PENDING_MAX_def)
  note unfolds = upsertChannelPairingRequest_def path s1 pr Let_def request_account_def [symmetric] P cap
  show thesis
  proof (cases "find_index (same_sender sender account) reqs")
    case None
    note none = None [unfolded find_index_None]
    show thesis
    proof (cases "length capped \<ge> PAIRING_PENDING_MAX")
      case True
      then have eq: "upsertChannelPairingRequest E now rnd ch sender account meta st = (Inr ([], False),
          if (\<exists>r \<in> set (readPairingRequests path st). isExpired E r (int now)) \<or> removed then writeRequests E path capped st1 else st1)"
        by (simp add: unfolds None pos)
      show thesis by (rule full [OF none _ eq]) (use True cap in auto)
    next
      case False
      then have eq: "upsertChannelPairingRequest E now rnd ch sender account meta st =
          (case generateUniqueCode (existing_codes reqs) rnd of Inl e \<Rightarrow> (Inl e, st1)
           | Inr code \<Rightarrow> (Inr (code, True), writeRequests E path (capped @ [new_request now sender account meta code (to_iso now)]) st1))"
        by (simp add: unfolds None pos new_request_def split: sum.split)
      show thesis
        by (cases "generateUniqueCode (existing_codes reqs) rnd") (use failed created none eq False cap in auto)
    qed
  next
    case (Some i)
    note i = find_index_Some [OF this]
    define gen where "gen = (if trim (rq_code (reqs ! i)) \<noteq> [] then Inr (trim (rq_code (reqs ! i))) else generateUniqueCode (existing_codes reqs) rnd)"
    have eq: "upsertChannelPairingRequest E now rnd ch sender account meta st =
        (case gen of Inl e \<Rightarrow> (Inl e, st1)
         | Inr code \<Rightarrow> (Inr (code, False), writeRequests E path (fst (pruneExcessRequests E
             (reqs[i := new_request now sender account meta code (rq_createdAt (reqs ! i))]) PAIRING_PENDING_MAX)) st1))"
      by (simp add: unfolds Some new_request_def gen_def split: sum.split prod.split)
    show thesis
    proof (cases gen)
      case (Inr code)
      with eq i show thesis by (intro renewed [of i code]) (auto simp: gen_def split: if_splits)
    qed (use failed eq in auto)
  qed
qed

lemma upsert_error: "resolvePairingPath ch = Inl e \<Longrightarrow> upsertChannelPairingRequest E now rnd ch sender account meta st = (Inl e, st)"
  by (simp add: upsertChannelPairingRequest_def)

lemma list_result:
  assumes "resolvePairingPath ch = Inr path"
  shows "snd (listChannelPairingRequests E now ch account st) \<in>
     {approval_store E path st, writeRequests E path (fst (pruneExcessRequests E (pending_at E now path st) PAIRING_PENDING_MAX)) (approval_store E path st)}"
  using assms by (auto simp: listChannelPairingRequests_def readPrunedPairingRequests_def pruneExpiredRequests_def pending_at_def
      approval_store_def Let_def split: prod.splits)

lemma set_pruneExcess: "set (fst (pruneExcessRequests E rs n)) \<subseteq> set rs"
  by (auto simp: pruneExcessRequests_def Let_def dest: in_set_dropD)

lemma in_pruneExcess: "r \<in> set (fst (pruneExcessRequests E rs n)) \<Longrightarrow> r \<in> set rs"
  using set_pruneExcess by blast

lemma pruneExcess_small: "length rs \<le> n \<Longrightarrow> pruneExcessRequests E rs n = (rs, False)"
  by (simp add: pruneExcessRequests_def)

lemma length_pruneExcess: "0 < n \<Longrightarrow> length (fst (pruneExcessRequests E rs n)) \<le> n"
  by (auto simp: pruneExcessRequests_def Let_def)

lemma meta_account_new [simp]: "meta_account (new_request now sender account meta code created) = request_account account"
  by (simp add: meta_account_def new_request_def request_meta_def)

lemma request_account_normal [simp]:
  "request_account account \<noteq> []" "to_lower (trim (request_account account)) = request_account account"
proof -
  have d: "DEFAULT_ACCOUNT_ID \<noteq> []" "to_lower (trim DEFAULT_ACCOUNT_ID) = DEFAULT_ACCOUNT_ID" by code_simp+
  show "request_account account \<noteq> []" by (simp add: request_account_def d)
  show "to_lower (trim (request_account account)) = request_account account"
    by (cases "trim account = []") (simp_all add: request_account_def normalizePairingAccountId_def d)
qed

lemma new_request_simps [simp]:
  "rq_id (new_request now sender account meta code created) = trim sender"
  "rq_code (new_request now sender account meta code created) = code"
  "rq_createdAt (new_request now sender account meta code created) = created"
  by (simp_all add: new_request_def)

lemma approval_store_simps [simp]:
  "readPairingRequests p (approval_store E q st) = readPairingRequests p st"
  "senders_in p (approval_store E q st) = senders_in p st"
  "ps_cache (approval_store E q st) = ps_cache st"
  by (simp_all add: approval_store_def)

section \<open>What the operations leave alone\<close>

lemma pairing_path_is_no_allow_path:
  assumes "resolvePairingPath ch = Inr p" "resolveAllowFromPath ch' account = Inr q"
  shows "p \<noteq> q"
proof -
  obtain k where "p = k @ ''-pairing.json''" using assms(1) by (auto simp: resolvePairingPath_def split: sum.splits)
  then have "rev p ! 5 = CHR ''g''" by simp
  moreover obtain l where "q = l @ ''-allowFrom.json''"
    using assms(2) by (auto simp: resolveAllowFromPath_def Let_def split: sum.splits if_splits)
  then have "rev q ! 5 = CHR ''m''" by simp
  ultimately show ?thesis by auto
qed

lemma read_keeps_files: "ps_files (snd (readAllowFromStateForPath E sync ch p st)) = ps_files st"
  by (auto simp: readAllowFromStateForPath_def readAllowFromStateForPathWithExists_def resolveAllowFromReadCacheOrMissing_def
      setAllowFromReadCache_def Let_def split: option.splits prod.splits if_splits)

lemma read_channel_keeps_files:
  "ps_files (snd (readChannelAllowFromStore E sync ch account st)) = ps_files st"
  "ps_files (snd (readLegacyChannelAllowFromStore E sync ch st)) = ps_files st"
  using read_keeps_files [of E sync ch]
  by (auto simp: readChannelAllowFromStore_def readLegacyChannelAllowFromStore_def Let_def split: sum.splits prod.splits)
    (metis snd_conv)+

lemma same_files:
  "ps_files st' = ps_files st \<Longrightarrow> readPairingRequests p st' = readPairingRequests p st"
  "ps_files st' = ps_files st \<Longrightarrow> senders_in p st' = senders_in p st"
  by (simp_all add: readPairingRequests_def senders_in_def readJsonFile_def)

lemma update_keeps_requests:
  "resolvePairingPath ch' = Inr p \<Longrightarrow> readPairingRequests p (snd (updateAllowFromStoreEntry E ch entry account app st)) = readPairingRequests p st"
  using pairing_path_is_no_allow_path [of ch' p ch account]
  by (auto simp: updateAllowFromStoreEntry_def Let_def split: sum.splits option.splits)

lemma add_remove_keep_requests:
  "resolvePairingPath ch' = Inr p \<Longrightarrow> readPairingRequests p (snd (addChannelAllowFromStoreEntry E ch entry account st)) = readPairingRequests p st"
  "resolvePairingPath ch' = Inr p \<Longrightarrow> readPairingRequests p (snd (removeChannelAllowFromStoreEntry E ch entry account st)) = readPairingRequests p st"
  by (simp_all add: addChannelAllowFromStoreEntry_def removeChannelAllowFromStoreEntry_def update_keeps_requests)

section \<open>The history of the approved senders\<close>

fun on_channel :: "string \<Rightarrow> store_op \<Rightarrow> bool" where
  "on_channel ch (UpsertOp c _ _ _ _) = (c = ch)"
| "on_channel ch (ListOp c _) = (c = ch)"
| "on_channel ch (ApproveOp c _ _) = (c = ch)"
| "on_channel ch (AddOp c _ _) = (c = ch)"
| "on_channel ch (RemoveOp c _ _) = (c = ch)"
| "on_channel ch (ReadOp _ c _) = (c = ch)"
| "on_channel ch (LegacyReadOp _ c) = (c = ch)"
| "on_channel ch (EditOp _ _) = False"

lemma step_satisfy:
  assumes P: "senders_satisfy P st" and C: "closed_under_normal_forms E ch P" and op: "on_channel ch op"
    and adm: "\<And>c x a p. (c, x, a) \<in> set (admissions E [(now, op)] st) \<Longrightarrow> resolveAllowFromPath c a = Inr p \<Longrightarrow>
      normalizeAllowEntry E c x \<noteq> [] \<Longrightarrow> P p (normalizeAllowEntry E c x)"
  shows "senders_satisfy P (credentials_step E (now, op) st)"
proof (cases op)
  case [simp]: (UpsertOp c sender account meta rnd)
  show ?thesis
  proof (cases "resolvePairingPath c")
    case (Inr path)
    show ?thesis
      by (rule upsert_cases [OF Inr, of E now rnd sender account meta st])
        (auto simp: P approval_store_def intro!: senders_satisfy_write)
  qed (simp add: P upsert_error)
next
  case [simp]: (ListOp c account)
  show ?thesis
  proof (cases "resolvePairingPath c")
    case (Inr path)
    from list_result [OF this, of E now account st] show ?thesis
      by (auto simp: P approval_store_def intro!: senders_satisfy_write)
  qed (simp add: P listChannelPairingRequests_def)
next
  case [simp]: (ApproveOp c code account)
  have c: "c = ch" using op by simp
  show ?thesis
  proof (cases "to_upper (trim code) = [] \<or> (\<exists>e. resolvePairingPath c = Inl e)")
    case True
    then show ?thesis using P approve_trivial by (cases "to_upper (trim code) = []") auto
  next
    case False
    then obtain path where path: "resolvePairingPath c = Inr path" "to_upper (trim code) \<noteq> []"
      by (cases "resolvePairingPath c") auto
    show ?thesis
    proof (rule approve_cases [OF path, of E now st account])
      fix i e st2
      assume a: "st2 = writeRequests E path (take i (pending_at E now path st) @ drop (Suc i) (pending_at E now path st)) (approval_store E path st)"
        "approveChannelPairingCode E now c code account st =
        (case addChannelAllowFromStoreEntry E c (rq_id e) (approval_account account e) st2 of
           (Inl err, st3) \<Rightarrow> (Inl err, st3) | (Inr _, st3) \<Rightarrow> (Inr (Some e), st3))"
      have s2: "senders_satisfy P st2" using P by (auto simp: a(1) approval_store_def intro!: senders_satisfy_write)
      have "credentials_step E (now, op) st = snd (addChannelAllowFromStoreEntry E c (rq_id e) (approval_account account e) st2)"
        using a(2) by (auto split: prod.splits sum.splits)
      moreover have "P p (normalizeAllowEntry E c (rq_id e))"
        if "resolveAllowFromPath c (approval_account account e) = Inr p" "normalizeAllowEntry E c (rq_id e) \<noteq> []" for p
      proof -
        have "fst (approveChannelPairingCode E now c code account st) = Inr (Some e)"
          using add_succeeds [OF that(1), of E "rq_id e" st2] a(2) by (auto split: prod.splits sum.splits)
        then show ?thesis using adm that by simp
      qed
      ultimately show ?thesis using add_satisfy [OF s2 C [folded c]] by auto
    qed (use P in \<open>auto simp: approval_store_def intro!: senders_satisfy_write\<close>)
  qed
next
  case [simp]: (AddOp c entry account)
  then show ?thesis using add_satisfy [OF P C, of account entry] adm op by simp
next
  case [simp]: (RemoveOp c entry account)
  then show ?thesis using remove_satisfy [OF P C] op by simp
next
  case [simp]: (ReadOp sync c account)
  obtain res st' where "readChannelAllowFromStore E sync c account st = (res, st')" by force
  with read_channel_satisfy [OF P C, of sync account] op show ?thesis by auto
next
  case [simp]: (LegacyReadOp sync c)
  then show ?thesis using read_senders_satisfy [OF P C] op P
    by (auto simp: readLegacyChannelAllowFromStore_def Let_def split: sum.splits prod.splits)
qed (use op in simp)

lemma run_satisfy:
  assumes "senders_satisfy P st" "closed_under_normal_forms E ch P" "\<forall>(t, op) \<in> set ops. on_channel ch op"
    and "\<And>c x a p. (c, x, a) \<in> set (admissions E ops st) \<Longrightarrow> resolveAllowFromPath c a = Inr p \<Longrightarrow>
      normalizeAllowEntry E c x \<noteq> [] \<Longrightarrow> P p (normalizeAllowEntry E c x)"
  shows "senders_satisfy P (credentials_run E ops st)"
  using assms(1,3,4)
proof (induction ops arbitrary: st)
  case (Cons o1 ops)
  obtain now op where o1: "o1 = (now, op)" by force
  have "senders_satisfy P (credentials_step E (now, op) st)"
    by (rule step_satisfy [OF Cons.prems(1) assms(2)]) (use Cons.prems(2,3) o1 in auto)
  then have "senders_satisfy P (credentials_run E ops (credentials_step E (now, op) st))"
    by (rule Cons.IH) (use Cons.prems(2,3) o1 in auto)
  then show ?case by (simp add: credentials_run_def o1)
qed (simp add: credentials_run_def)

lemma admission_splits:
  "(c, x, a) \<in> set (admissions E ops st) \<Longrightarrow>
     \<exists>pre t op post. ops = pre @ (t, op) # post \<and> (c, x, a) \<in> set (admissions E [(t, op)] (credentials_run E pre st))"
proof (induction ops arbitrary: st)
  case (Cons o1 ops)
  obtain now op where o1: "o1 = (now, op)" by force
  show ?case
  proof (cases "(c, x, a) \<in> set (admissions E [(now, op)] st)")
    case True
    then show ?thesis using o1 by (intro exI [of _ "[]"] exI [of _ now] exI [of _ op] exI [of _ ops]) (simp add: credentials_run_def)
  next
    case False
    then have "(c, x, a) \<in> set (admissions E ops (credentials_step E (now, op) st))"
      using Cons.prems o1 by auto
    from Cons.IH [OF this] obtain pre t op' post where "ops = pre @ (t, op') # post"
      "(c, x, a) \<in> set (admissions E [(t, op')] (credentials_run E pre (credentials_step E (now, op) st)))" by blast
    then show ?thesis using o1
      by (intro exI [of _ "o1 # pre"] exI [of _ t] exI [of _ op'] exI [of _ post]) (simp add: credentials_run_def)
  qed
qed simp

section \<open>The history of the requests\<close>

lemma parseTimestamp_iso: "t \<le> 8640000000000000 \<Longrightarrow> parseTimestamp E (to_iso t) = Some (int t)"
  by (simp add: parseTimestamp_def date_parse_to_iso)

lemma isExpired_iso:
  "rq_createdAt r = to_iso t0 \<Longrightarrow> t0 \<le> 8640000000000000 \<Longrightarrow> isExpired E r now \<longleftrightarrow> t0 = 0 \<or> now - int t0 > PAIRING_PENDING_TTL_MS"
  by (simp add: isExpired_def parseTimestamp_iso)

lemma live_request:
  "rq_createdAt r = to_iso t0 \<Longrightarrow> t0 \<le> 8640000000000000 \<Longrightarrow> \<not> isExpired E r now \<Longrightarrow> now - int t0 \<le> PAIRING_PENDING_TTL_MS"
  by (simp add: isExpired_iso)

text \<open>A property of a request that depends on its sender, its time and its account, and of the file it is in.\<close>

definition requests_satisfy :: "(string \<Rightarrow> string \<Rightarrow> string \<Rightarrow> string \<Rightarrow> bool) \<Rightarrow> string \<Rightarrow> pairing_state \<Rightarrow> bool" where
  "requests_satisfy Q ch st \<longleftrightarrow> (\<forall>p r. resolvePairingPath ch = Inr p \<and> r \<in> set (readPairingRequests p st) \<longrightarrow>
     Q p (rq_id r) (rq_createdAt r) (to_lower (trim (meta_account r))))"

lemma set_pending_at: "set (pending_at E now p st) = {r \<in> set (readPairingRequests p st). \<not> isExpired E r (int now)}"
  by (auto simp: pending_at_def)

lemma approve_requests:
  assumes path: "resolvePairingPath ch = Inr path"
  shows "set (readPairingRequests path (snd (approveChannelPairingCode E now ch code account st))) \<subseteq> set (readPairingRequests path st)"
proof (cases "to_upper (trim code) = []")
  case False
  show ?thesis
  proof (rule approve_cases [OF path False, of E now st account])
    fix i e st2
    assume "st2 = writeRequests E path (take i (pending_at E now path st) @ drop (Suc i) (pending_at E now path st)) (approval_store E path st)"
      "approveChannelPairingCode E now ch code account st =
        (case addChannelAllowFromStoreEntry E ch (rq_id e) (approval_account account e) st2 of
           (Inl err, st3) \<Rightarrow> (Inl err, st3) | (Inr _, st3) \<Rightarrow> (Inr (Some e), st3))"
    moreover from this have "snd (approveChannelPairingCode E now ch code account st) = snd (addChannelAllowFromStoreEntry E ch (rq_id e) (approval_account account e) st2)"
      by (auto split: prod.splits sum.splits)
    ultimately show ?thesis
      using add_remove_keep_requests(1) [OF path] by (auto simp: set_pending_at dest!: in_set_takeD in_set_dropD)
  qed (auto simp: set_pending_at)
qed (simp add: approve_trivial)

lemma step_requests:
  assumes Q: "requests_satisfy Q ch st" and op: "on_channel ch op"
    and new: "\<And>sender account meta rnd p. op = UpsertOp ch sender account meta rnd \<Longrightarrow> resolvePairingPath ch = Inr p \<Longrightarrow>
      Q p (trim sender) (to_iso now) (request_account account)"
  shows "requests_satisfy Q ch (credentials_step E (now, op) st)"
proof (cases "resolvePairingPath ch")
  case (Inr path)
  let ?new = "\<lambda>st'. set (readPairingRequests path st')"
  let ?Q = "\<lambda>r. Q path (rq_id r) (rq_createdAt r) (to_lower (trim (meta_account r)))"
  have old: "\<forall>r \<in> ?new st. ?Q r" using Q Inr by (auto simp: requests_satisfy_def)
  have pend: "\<forall>r \<in> set (pending_at E now path st). ?Q r" using old by (auto simp: set_pending_at)
  have "\<forall>r \<in> ?new (credentials_step E (now, op) st). ?Q r"
  proof (cases op)
    case [simp]: (UpsertOp c sender account meta rnd)
    have [simp]: "c = ch" using op by simp
    show ?thesis
    proof (rule upsert_cases [OF Inr, of E now rnd sender account meta st])
      fix i code
      let ?r = "pending_at E now path st ! i"
      assume i: "i < length (pending_at E now path st)" "same_sender sender account ?r"
        and eq: "upsertChannelPairingRequest E now rnd ch sender account meta st = (Inr (code, False),
         writeRequests E path (fst (pruneExcessRequests E ((pending_at E now path st)[i := new_request now sender account meta code (rq_createdAt ?r)]) PAIRING_PENDING_MAX))
           (approval_store E path st))"
      have "?Q ?r" using pend i(1) by simp
      moreover have "to_lower (trim (meta_account ?r)) = request_account account" "rq_id ?r = trim sender"
        using i(2) by (auto simp: same_sender_def requestMatchesAccountId_def)
      ultimately have "\<forall>r \<in> set ((pending_at E now path st)[i := new_request now sender account meta code (rq_createdAt ?r)]). ?Q r"
        using pend by (auto dest!: set_update_subset_insert [THEN subsetD])
      then show ?thesis using eq by (auto dest!: in_pruneExcess)
    next
      fix code
      assume eq: "upsertChannelPairingRequest E now rnd ch sender account meta st = (Inr (code, True),
         writeRequests E path (fst (pruneExcessRequests E (pending_at E now path st) PAIRING_PENDING_MAX) @
           [new_request now sender account meta code (to_iso now)]) (approval_store E path st))"
      then show ?thesis using pend new Inr by (auto dest!: in_pruneExcess)
    qed (use old pend in \<open>auto dest!: in_pruneExcess\<close>)
  next
    case [simp]: (ListOp c account)
    have "c = ch" using op by simp
    with list_result [OF Inr, of E now account st] old pend show ?thesis by (auto dest!: in_pruneExcess)
  next
    case [simp]: (ApproveOp c code account)
    have "c = ch" using op by simp
    with approve_requests [OF Inr, of E now code account st] old show ?thesis by auto
  next
    case [simp]: (ReadOp sync c account)
    with old same_files(1) [OF read_channel_keeps_files(1)] show ?thesis by auto
  next
    case [simp]: (LegacyReadOp sync c)
    with old same_files(1) [OF read_channel_keeps_files(2)] show ?thesis by auto
  qed (use op old add_remove_keep_requests [OF Inr] in auto)
  with Inr show ?thesis by (auto simp: requests_satisfy_def)
qed (simp add: requests_satisfy_def)

lemma run_requests:
  assumes "requests_satisfy Q ch st" "\<forall>(t, op) \<in> set ops. on_channel ch op"
    and "\<And>t sender account meta rnd p. (t, UpsertOp ch sender account meta rnd) \<in> set ops \<Longrightarrow> resolvePairingPath ch = Inr p \<Longrightarrow>
      Q p (trim sender) (to_iso t) (request_account account)"
  shows "requests_satisfy Q ch (credentials_run E ops st)"
  using assms
proof (induction ops arbitrary: st)
  case (Cons o1 ops)
  obtain now op where o1: "o1 = (now, op)" by force
  have "requests_satisfy Q ch (credentials_step E (now, op) st)"
    by (rule step_requests) (use Cons.prems(1,2) o1 in \<open>auto intro!: Cons.prems(3)\<close>)
  then have "requests_satisfy Q ch (credentials_run E ops (credentials_step E (now, op) st))"
    by (rule Cons.IH) (use Cons.prems(2) o1 in \<open>auto intro!: Cons.prems(3)\<close>)
  then show ?case by (simp add: credentials_run_def o1)
qed (simp add: credentials_run_def)

lemma empty_credentials_simps [simp]:
  "readPairingRequests p empty_credentials = []" "senders_in p empty_credentials = []" "ps_cache empty_credentials = []"
  by (simp_all add: readPairingRequests_def senders_in_def readJsonFile_def empty_credentials_def)

lemma empty_satisfies [simp]: "senders_satisfy P empty_credentials" "requests_satisfy Q ch empty_credentials"
  by (simp_all add: senders_satisfy_def requests_satisfy_def)

text \<open>
  C14: A sender is on a list of approved senders only after asking and being approved. From an
  empty store of a channel and without entries added by hand, every sender that a read of the
  list of an account returns (with or without the cache, stale or not) goes back to a request
  of that very sender, at most an hour before an operator gave its code for it; and the approval
  was filed in the file of that list, or in the file of the list without account when that counts
  for the default account. The file is that of the same account when both ids are plain
  (lemma \<open>plain_accounts_have_own_files\<close>); ids that differ only in characters that a file name may
  not have share one (lemma \<open>accounts_may_share_a_file\<close>).
\<close>

theorem approved_senders_asked_first:
  assumes ops: "\<forall>(t, op) \<in> set ops. on_channel ch op \<and> t \<le> 8640000000000000 \<and> (\<nexists>c e a. op = AddOp c e a)"
    and r: "readChannelAllowFromStore E sync ch account (credentials_run E ops empty_credentials) = (Inr es, st')" and x: "x \<in> set es"
  shows "\<exists>pre t code a post e. ops = pre @ (t, ApproveOp ch code a) # post \<and>
      fst (approveChannelPairingCode E t ch code a (credentials_run E pre empty_credentials)) = Inr (Some e) \<and>
      to_upper (rq_code e) = to_upper (trim code) \<and>
      (\<exists>n > 0. x = (normalizeAllowEntry E ch ^^ n) (rq_id e)) \<and>
      (resolveAllowFromPath ch (approval_account a e) = resolveAllowFromPath ch (Some (resolveAllowFromAccountId account)) \<or>
       shouldIncludeLegacyAllowFromEntries (resolveAllowFromAccountId account) \<and>
         resolveAllowFromPath ch (approval_account a e) = resolveAllowFromPath ch None) \<and>
      (\<exists>t0 sender a0 meta rnd. (t0, UpsertOp ch sender a0 meta rnd) \<in> set pre \<and> trim sender = rq_id e \<and>
         request_account a0 = to_lower (trim (meta_account e)) \<and> int t - int t0 \<le> PAIRING_PENDING_TTL_MS)"
proof -
  define P where "P = (\<lambda>p y. \<exists>c s a n. (c, s, a) \<in> set (admissions E ops empty_credentials) \<and> resolveAllowFromPath ch a = Inr p \<and>
    n > 0 \<and> y = (normalizeAllowEntry E ch ^^ n) s)"
  have on: "\<forall>(t, op) \<in> set ops. on_channel ch op" using ops by auto
  have closed: "closed_under_normal_forms E ch P"
    unfolding closed_under_normal_forms_def P_def by (metis funpow_simps_right(2) funpow_swap1 o_apply zero_less_Suc)
  have chan: "c = ch" if "(c, s, a) \<in> set (admissions E ops empty_credentials)" for c s a
  proof -
    from admission_splits [OF that]
    obtain pre t op post where "ops = pre @ (t, op) # post" "(c, s, a) \<in> set (admissions E [(t, op)] (credentials_run E pre empty_credentials))"
      by blast
    moreover from this have "on_channel ch op" using on by auto
    ultimately show ?thesis by (cases op) (auto split: sum.splits option.splits)
  qed
  have "senders_satisfy P (credentials_run E ops empty_credentials)"
  proof (rule run_satisfy [OF _ closed on])
    fix c s a p
    assume "(c, s, a) \<in> set (admissions E ops empty_credentials)" "resolveAllowFromPath c a = Inr p"
    then show "P p (normalizeAllowEntry E c s)"
      using chan [of c s a] unfolding P_def by (intro exI [of _ c] exI [of _ s] exI [of _ a] exI [of _ 1]) simp
  qed simp
  from read_channel_satisfy [OF this closed r] x obtain p y where p:
    "resolveAllowFromPath ch (Some (resolveAllowFromAccountId account)) = Inr p \<or>
     shouldIncludeLegacyAllowFromEntries (resolveAllowFromAccountId account) \<and> resolveAllowFromPath ch None = Inr p"
    "P p y" "x = y \<or> x = trim y" by blast
  then obtain c s a n where s: "(c, s, a) \<in> set (admissions E ops empty_credentials)" "resolveAllowFromPath ch a = Inr p"
    "n > 0" "y = (normalizeAllowEntry E ch ^^ n) s" unfolding P_def by blast
  then have "trim y = y" by (cases n) auto
  with p(3) have xy: "x = y" by auto
  obtain pre t op post where split: "ops = pre @ (t, op) # post"
    "(c, s, a) \<in> set (admissions E [(t, op)] (credentials_run E pre empty_credentials))"
    using admission_splits [OF s(1)] by blast
  with ops have "on_channel ch op" "\<nexists>c e a. op = AddOp c e a" by auto
  with split(2) obtain code b e where e: "op = ApproveOp ch code b" "s = rq_id e" "a = approval_account b e"
    "fst (approveChannelPairingCode E t ch code b (credentials_run E pre empty_credentials)) = Inr (Some e)"
    by (cases op) (auto split: sum.splits option.splits)
  then obtain st2 where "approveChannelPairingCode E t ch code b (credentials_run E pre empty_credentials) = (Inr (Some e), st2)"
    by (cases "approveChannelPairingCode E t ch code b (credentials_run E pre empty_credentials)") auto
  from approve_exactly [OF this] obtain path i where path: "resolvePairingPath ch = Inr path"
    "i < length (pending_at E t path (credentials_run E pre empty_credentials))" "e = pending_at E t path (credentials_run E pre empty_credentials) ! i"
    "to_upper (rq_code e) = to_upper (trim code)" by metis
  then have pending: "e \<in> set (readPairingRequests path (credentials_run E pre empty_credentials))" "\<not> isExpired E e (int t)"
    using nth_mem [OF path(2)] by (auto simp: set_pending_at)
  define Q where "Q = (\<lambda>(p :: string) i created acc. \<exists>t0 sender a0 meta rnd. (t0, UpsertOp ch sender a0 meta rnd) \<in> set pre \<and>
     trim sender = i \<and> created = to_iso t0 \<and> request_account a0 = acc)"
  have "requests_satisfy Q ch (credentials_run E pre empty_credentials)"
  proof (rule run_requests)
    show "\<forall>(t, op) \<in> set pre. on_channel ch op" using on split(1) by simp
  qed (simp, unfold Q_def, blast)
  with path(1) pending(1) have "Q path (rq_id e) (rq_createdAt e) (to_lower (trim (meta_account e)))"
    by (auto simp: requests_satisfy_def)
  then obtain t0 sender a0 meta rnd where u: "(t0, UpsertOp ch sender a0 meta rnd) \<in> set pre" "trim sender = rq_id e"
    "rq_createdAt e = to_iso t0" "request_account a0 = to_lower (trim (meta_account e))" unfolding Q_def by blast
  have "t0 \<le> 8640000000000000" using ops split(1) u(1) by auto
  from live_request [OF u(3) this pending(2)] have "int t - int t0 \<le> PAIRING_PENDING_TTL_MS" by simp
  then have "\<exists>t0 sender a0 meta rnd. (t0, UpsertOp ch sender a0 meta rnd) \<in> set pre \<and> trim sender = rq_id e \<and>
      request_account a0 = to_lower (trim (meta_account e)) \<and> int t - int t0 \<le> PAIRING_PENDING_TTL_MS"
    using u(1,2,4) by blast
  moreover have c: "c = ch" using chan [OF s(1)] .
  ultimately show ?thesis
    using split(1) e path(4) p(1) s(2-4) xy
    by (intro exI [of _ pre] exI [of _ t] exI [of _ code] exI [of _ b] exI [of _ post] exI [of _ e]) auto
qed

section \<open>The pending requests keep their shape\<close>

text \<open>
  Codes of the alphabet and of the right length; at most three requests, no two with one code or
  of one sender and account.
\<close>

definition code_ok :: "string \<Rightarrow> bool" where
  "code_ok c \<longleftrightarrow> length c = PAIRING_CODE_LENGTH \<and> set c \<subseteq> set PAIRING_CODE_ALPHABET"

definition requests_ok :: "sender_request list \<Rightarrow> bool" where
  "requests_ok rs \<longleftrightarrow> length rs \<le> PAIRING_PENDING_MAX \<and> (\<forall>r \<in> set rs. code_ok (rq_code r) \<and> to_lower (trim (meta_account r)) = meta_account r) \<and>
     distinct (map rq_code rs) \<and> distinct (map (\<lambda>r. (rq_id r, meta_account r)) rs)"

lemma code_char: "c \<in> set PAIRING_CODE_ALPHABET \<Longrightarrow> \<not> js_ws c \<and> upper_char c = [c]"
proof -
  have "list_all (\<lambda>c. \<not> js_ws c \<and> upper_char c = [c]) PAIRING_CODE_ALPHABET" by code_simp
  then show "c \<in> set PAIRING_CODE_ALPHABET \<Longrightarrow> \<not> js_ws c \<and> upper_char c = [c]" by (auto simp: list_all_iff)
qed

lemma code_ok_simps:
  assumes "code_ok c"
  shows "c \<noteq> []" "trim c = c" "to_upper c = c" "to_upper (trim c) = c"
proof -
  have c: "\<forall>x \<in> set c. \<not> js_ws x \<and> upper_char x = [x]" using assms code_char by (auto simp: code_ok_def)
  show "c \<noteq> []" using assms by (auto simp: code_ok_def PAIRING_CODE_LENGTH_def)
  show t: "trim c = c" using c by (intro trim_id trimmed_no_ws) simp
  show "to_upper c = c" using c by (induction c) (auto simp: to_upper_def)
  with t show "to_upper (trim c) = c" by simp
qed

lemma randomCode_ok: "\<forall>i. r i < length PAIRING_CODE_ALPHABET \<Longrightarrow> code_ok (randomCode r)"
  by (auto simp: code_ok_def randomCode_def)

lemma try_codes_Some:
  "try_codes existing rnd a n = Some c \<Longrightarrow> c \<notin> set existing \<and> (\<exists>k. c = randomCode (rnd k))"
  by (induction existing rnd a n rule: try_codes.induct) (auto simp: Let_def split: if_splits)

lemma generated_code:
  assumes "generateUniqueCode existing rnd = Inr c" "\<forall>k i. rnd k i < length PAIRING_CODE_ALPHABET"
  shows "c \<notin> set existing" "code_ok c"
  using assms try_codes_Some [of existing rnd 0 500 c] by (auto simp: generateUniqueCode_def intro!: randomCode_ok split: option.splits)

lemma existing_codes_ok: "\<forall>r \<in> set rs. code_ok (rq_code r) \<Longrightarrow> existing_codes rs = map rq_code rs"
  by (simp add: existing_codes_def code_ok_simps)

lemma requests_ok_Nil [simp]: "requests_ok []"
  by (simp add: requests_ok_def)

lemma requests_ok_filter: "requests_ok rs \<Longrightarrow> requests_ok (filter P rs)"
  by (auto simp: requests_ok_def distinct_map_filter intro: order_trans [OF length_filter_le])

lemma requests_ok_remove:
  assumes "requests_ok rs"
  shows "requests_ok (take i rs @ drop (Suc i) rs)"
proof (cases "i < length rs")
  case True
  then have "rs = take i rs @ rs ! i # drop (Suc i) rs" by (simp add: id_take_nth_drop)
  then have "requests_ok (take i rs @ rs ! i # drop (Suc i) rs)" using assms by simp
  then show ?thesis by (auto simp: requests_ok_def)
qed (use assms in simp)

lemma pending_at_ok: "requests_ok (readPairingRequests p st) \<Longrightarrow> requests_ok (pending_at E now p st)"
  by (simp add: pending_at_def requests_ok_filter)

lemma requests_ok_prune: "requests_ok rs \<Longrightarrow> pruneExcessRequests E rs PAIRING_PENDING_MAX = (rs, False)"
  by (simp add: requests_ok_def pruneExcess_small)

lemma requests_ok_update:
  assumes "requests_ok rs" "i < length rs" "rq_code r = rq_code (rs ! i)" "rq_id r = rq_id (rs ! i)" "meta_account r = meta_account (rs ! i)"
  shows "requests_ok (rs[i := r])"
proof -
  have "map rq_code (rs[i := r]) = map rq_code rs" "map (\<lambda>r. (rq_id r, meta_account r)) (rs[i := r]) = map (\<lambda>r. (rq_id r, meta_account r)) rs"
    using assms(2-5) by (simp_all add: map_update list_update_same_conv)
  moreover have "\<forall>x \<in> set (rs[i := r]). code_ok (rq_code x) \<and> to_lower (trim (meta_account x)) = meta_account x"
    using assms set_update_subset_insert [of rs i r] by (auto simp: requests_ok_def)
  ultimately show ?thesis using assms(1) by (simp add: requests_ok_def)
qed

lemma requests_ok_add:
  assumes "requests_ok rs" "length rs < PAIRING_PENDING_MAX" "\<forall>r \<in> set rs. \<not> same_sender sender account r"
    and "code \<notin> set (map rq_code rs)" "code_ok code"
  shows "requests_ok (rs @ [new_request now sender account meta code created])"
proof -
  have "(trim sender, request_account account) \<notin> set (map (\<lambda>r. (rq_id r, meta_account r)) rs)"
    using assms(1,3) by (auto simp: same_sender_def requestMatchesAccountId_def requests_ok_def)
  with assms show ?thesis by (auto simp: requests_ok_def)
qed

text \<open>What one operation does to the pending requests of its channel, in one lemma for the properties below.\<close>

fun uses_alphabet :: "store_op \<Rightarrow> bool" where
  "uses_alphabet (UpsertOp _ _ _ _ rnd) \<longleftrightarrow> (\<forall>k i. rnd k i < length PAIRING_CODE_ALPHABET)"
| "uses_alphabet _ = True"

definition same_request :: "sender_request \<Rightarrow> sender_request \<Rightarrow> bool" where
  "same_request r r' \<longleftrightarrow> rq_id r' = rq_id r \<and> rq_code r' = rq_code r \<and> rq_createdAt r' = rq_createdAt r \<and> meta_account r' = meta_account r"

definition outlives :: "pairing_host \<Rightarrow> nat \<Rightarrow> string \<Rightarrow> store_op \<Rightarrow> sender_request \<Rightarrow> bool" where
  "outlives E now ch op r \<longleftrightarrow> \<not> isExpired E r (int now) \<and> (\<forall>code a. op = ApproveOp ch code a \<longrightarrow> to_upper (trim code) \<noteq> rq_code r)"

definition kept :: "sender_request list \<Rightarrow> sender_request list \<Rightarrow> (sender_request \<Rightarrow> bool) \<Rightarrow> bool" where
  "kept rs rs' P \<longleftrightarrow> (\<forall>r \<in> set rs. P r \<longrightarrow> (\<exists>r' \<in> set rs'. same_request r r'))"

lemma same_request_refl [simp]: "same_request r r"
  by (simp add: same_request_def)

lemma keptI: "(\<And>r. r \<in> set rs \<Longrightarrow> P r \<Longrightarrow> r \<in> set rs') \<Longrightarrow> kept rs rs' P"
  unfolding kept_def using same_request_refl by blast

lemma upsert_shape:
  assumes path: "resolvePairingPath ch = Inr path" and ok: "requests_ok (readPairingRequests path st)"
    and rnd: "\<forall>k i. rnd k i < length PAIRING_CODE_ALPHABET"
    and r: "upsertChannelPairingRequest E now rnd ch sender account meta st = (res, st')"
  shows "requests_ok (readPairingRequests path st') \<and>
     kept (readPairingRequests path st) (readPairingRequests path st') (\<lambda>r. \<not> isExpired E r (int now))"
proof -
  let ?reqs = "pending_at E now path st"
  have pok: "requests_ok ?reqs" by (rule pending_at_ok [OF ok])
  note prune = requests_ok_prune [OF pok]
  have stay: "kept (readPairingRequests path st) (readPairingRequests path st) P" for P by (rule keptI)
  have codes: "existing_codes ?reqs = map rq_code ?reqs" using pok by (intro existing_codes_ok) (simp add: requests_ok_def)
  show ?thesis
  proof (rule upsert_cases [OF path, of E now rnd sender account meta st])
    fix i code
    let ?r = "new_request now sender account meta code (rq_createdAt (?reqs ! i))"
    assume i: "i < length ?reqs" "same_sender sender account (?reqs ! i)"
      and code: "trim (rq_code (?reqs ! i)) \<noteq> [] \<and> code = trim (rq_code (?reqs ! i)) \<or>
         trim (rq_code (?reqs ! i)) = [] \<and> generateUniqueCode (existing_codes ?reqs) rnd = Inr code"
      and eq: "upsertChannelPairingRequest E now rnd ch sender account meta st = (Inr (code, False),
         writeRequests E path (fst (pruneExcessRequests E (?reqs[i := ?r]) PAIRING_PENDING_MAX)) (approval_store E path st))"
    have c: "code_ok (rq_code (?reqs ! i))" "to_lower (trim (meta_account (?reqs ! i))) = meta_account (?reqs ! i)"
      using pok i(1) by (auto simp: requests_ok_def)
    have same: "same_request (?reqs ! i) ?r"
      using code c i(2) code_ok_simps [OF c(1)] by (auto simp: same_request_def same_sender_def requestMatchesAccountId_def)
    then have up: "requests_ok (?reqs[i := ?r])"
      using i(1) by (intro requests_ok_update [OF pok]) (auto simp: same_request_def)
    have "kept (readPairingRequests path st) (?reqs[i := ?r]) (\<lambda>r. \<not> isExpired E r (int now))"
      unfolding kept_def
    proof (intro ballI impI)
      fix x assume "x \<in> set (readPairingRequests path st)" "\<not> isExpired E x (int now)"
      then have "x \<in> set ?reqs" by (simp add: set_pending_at)
      then obtain j where j: "j < length ?reqs" "x = ?reqs ! j" by (auto simp: in_set_conv_nth)
      show "\<exists>r' \<in> set (?reqs[i := ?r]). same_request x r'"
      proof (rule bexI)
        show "?reqs[i := ?r] ! j \<in> set (?reqs[i := ?r])" by (rule nth_mem) (simp add: j(1))
        show "same_request x (?reqs[i := ?r] ! j)" using i(1) j same by (cases "j = i") auto
      qed
    qed
    with up eq r show ?thesis by (simp add: requests_ok_prune)
  next
    fix code
    assume a: "\<forall>r \<in> set ?reqs. \<not> same_sender sender account r"
      "length (fst (pruneExcessRequests E ?reqs PAIRING_PENDING_MAX)) < PAIRING_PENDING_MAX"
      "generateUniqueCode (existing_codes ?reqs) rnd = Inr code"
      "upsertChannelPairingRequest E now rnd ch sender account meta st = (Inr (code, True),
         writeRequests E path (fst (pruneExcessRequests E ?reqs PAIRING_PENDING_MAX) @ [new_request now sender account meta code (to_iso now)])
           (approval_store E path st))"
    have "requests_ok (?reqs @ [new_request now sender account meta code (to_iso now)])"
      using a generated_code [OF a(3) rnd] codes by (intro requests_ok_add [OF pok]) (auto simp: prune)
    with a(4) r show ?thesis by (auto simp: prune set_pending_at intro!: keptI)
  qed (use r ok pok prune stay in \<open>auto simp: set_pending_at intro!: keptI\<close>)
qed

lemma step_shape:
  assumes path: "resolvePairingPath ch = Inr path" and ok: "requests_ok (readPairingRequests path st)"
    and op: "on_channel ch op" "uses_alphabet op"
  shows "requests_ok (readPairingRequests path (credentials_step E (now, op) st)) \<and>
     kept (readPairingRequests path st) (readPairingRequests path (credentials_step E (now, op) st)) (outlives E now ch op)"
proof (cases op)
  case [simp]: (UpsertOp c sender account meta rnd)
  have [simp]: "c = ch" using op(1) by simp
  obtain res st' where r: "upsertChannelPairingRequest E now rnd ch sender account meta st = (res, st')" by force
  with upsert_shape [OF path ok _ r] op(2) show ?thesis by (auto simp: kept_def outlives_def)
next
  case [simp]: (ListOp c account)
  have [simp]: "c = ch" using op(1) by simp
  from list_result [OF path, of E now account st] pending_at_ok [OF ok] ok show ?thesis
    by (auto simp: requests_ok_prune set_pending_at outlives_def intro!: keptI)
next
  case [simp]: (ApproveOp c code account)
  have [simp]: "c = ch" using op(1) by simp
  show ?thesis
  proof (cases "to_upper (trim code) = []")
    case False
    show ?thesis
    proof (rule approve_cases [OF path False, of E now st account])
      fix i e st2
      let ?reqs = "pending_at E now path st"
      assume a: "i < length ?reqs" "e = ?reqs ! i" "to_upper (rq_code e) = to_upper (trim code)"
        "st2 = writeRequests E path (take i ?reqs @ drop (Suc i) ?reqs) (approval_store E path st)"
        "approveChannelPairingCode E now ch code account st =
          (case addChannelAllowFromStoreEntry E ch (rq_id e) (approval_account account e) st2 of
             (Inl err, st3) \<Rightarrow> (Inl err, st3) | (Inr _, st3) \<Rightarrow> (Inr (Some e), st3))"
      have "snd (approveChannelPairingCode E now ch code account st) = snd (addChannelAllowFromStoreEntry E ch (rq_id e) (approval_account account e) st2)"
        using a(5) by (auto split: prod.splits sum.splits)
      then have after: "readPairingRequests path (credentials_step E (now, op) st) = take i ?reqs @ drop (Suc i) ?reqs"
        by (simp add: add_remove_keep_requests(1) [OF path] a(4))
      have "code_ok (rq_code e)" using pending_at_ok [OF ok, of E now] nth_mem [OF a(1)] a(2) by (auto simp: requests_ok_def)
      then have e: "rq_code e = to_upper (trim code)" using a(3) by (simp add: code_ok_simps)
      have split: "set ?reqs = insert e (set (take i ?reqs @ drop (Suc i) ?reqs))"
        using arg_cong [OF id_take_nth_drop [OF a(1)], of set] a(2) by simp
      have "kept (readPairingRequests path st) (take i ?reqs @ drop (Suc i) ?reqs) (outlives E now ch op)"
      proof (rule keptI)
        fix r assume "r \<in> set (readPairingRequests path st)" "outlives E now ch op r"
        then have "r \<in> set ?reqs" "rq_code r \<noteq> rq_code e" by (auto simp: set_pending_at outlives_def e)
        then show "r \<in> set (take i ?reqs @ drop (Suc i) ?reqs)" using split by auto
      qed
      with requests_ok_remove [OF pending_at_ok [OF ok]] show ?thesis by (simp only: after)
    qed (use pending_at_ok [OF ok] ok in \<open>auto simp: set_pending_at outlives_def intro!: keptI\<close>)
  qed (use ok in \<open>auto simp: approve_trivial intro!: keptI\<close>)
next
  case [simp]: (ReadOp sync c account)
  show ?thesis using ok same_files(1) [OF read_channel_keeps_files(1)] by (auto intro!: keptI)
next
  case [simp]: (LegacyReadOp sync c)
  show ?thesis using ok same_files(1) [OF read_channel_keeps_files(2)] by (auto intro!: keptI)
qed (use op ok add_remove_keep_requests [OF path] in \<open>auto intro!: keptI\<close>)

lemma run_keeps_shape:
  assumes "resolvePairingPath ch = Inr path" "requests_ok (readPairingRequests path st)"
    and "\<forall>(t, op) \<in> set ops. on_channel ch op \<and> uses_alphabet op"
  shows "requests_ok (readPairingRequests path (credentials_run E ops st))"
  using assms(2,3)
proof (induction ops arbitrary: st)
  case (Cons o1 ops)
  obtain now op where o1: "o1 = (now, op)" by force
  have "requests_ok (readPairingRequests path (credentials_step E (now, op) st))"
    using step_shape [OF assms(1) Cons.prems(1)] Cons.prems(2) o1 by auto
  from Cons.IH [OF this] Cons.prems(2) show ?case by (simp add: credentials_run_def o1)
qed (simp add: credentials_run_def)

lemma run_keeps:
  assumes "resolvePairingPath ch = Inr path" "requests_ok (readPairingRequests path st)"
    and "\<forall>(t, op) \<in> set ops. on_channel ch op \<and> uses_alphabet op \<and> (\<forall>r'. same_request r r' \<longrightarrow> outlives E t ch op r')"
    and "\<exists>r' \<in> set (readPairingRequests path st). same_request r r'"
  shows "\<exists>r' \<in> set (readPairingRequests path (credentials_run E ops st)). same_request r r'"
  using assms(2-4)
proof (induction ops arbitrary: st)
  case (Cons o1 ops)
  obtain now op where o1: "o1 = (now, op)" by force
  have shape: "requests_ok (readPairingRequests path (credentials_step E (now, op) st))"
    "kept (readPairingRequests path st) (readPairingRequests path (credentials_step E (now, op) st)) (outlives E now ch op)"
    using step_shape [OF assms(1) Cons.prems(1)] Cons.prems(2) o1 by auto
  obtain r' where r': "r' \<in> set (readPairingRequests path st)" "same_request r r'" using Cons.prems(3) by blast
  with Cons.prems(2) o1 have "outlives E now ch op r'" by auto
  with shape(2) r' have "\<exists>r'' \<in> set (readPairingRequests path (credentials_step E (now, op) st)). same_request r r''"
    unfolding kept_def same_request_def by metis
  from Cons.IH [OF shape(1) _ this] Cons.prems(2) show ?case by (simp add: credentials_run_def o1)
qed (simp add: credentials_run_def)

text \<open>
  C16: The pending requests of a channel stay few and distinct. Whatever is requested, listed,
  approved, added, removed and read, at whatever times: at most three requests are pending; every
  code has eight characters of the alphabet; no two requests have the same code, so a code names
  one sender; and no sender has two requests for one account.
\<close>

theorem pending_requests_stay_distinct:
  fixes E :: pairing_host
  assumes "resolvePairingPath ch = Inr path"
    and "\<forall>(t, op) \<in> set ops. on_channel ch op \<and> uses_alphabet op"
  defines "rs \<equiv> readPairingRequests path (credentials_run E ops empty_credentials)"
  shows "length rs \<le> 3 \<and> (\<forall>r \<in> set rs. length (rq_code r) = 8 \<and> set (rq_code r) \<subseteq> set PAIRING_CODE_ALPHABET) \<and>
    distinct (map (\<lambda>r. to_upper (rq_code r)) rs) \<and> distinct (map (\<lambda>r. (rq_id r, meta_account r)) rs)"
proof -
  have "requests_ok rs" unfolding rs_def by (rule run_keeps_shape [OF assms(1) _ assms(2)]) simp
  moreover from this have m: "map (\<lambda>r. to_upper (rq_code r)) rs = map rq_code rs"
    by (auto simp: requests_ok_def code_ok_simps)
  ultimately show ?thesis unfolding m
    by (simp add: requests_ok_def code_ok_def PAIRING_PENDING_MAX_def PAIRING_CODE_LENGTH_def)
qed

lemma same_code_unique:
  assumes "requests_ok rs" "r \<in> set rs" "s \<in> set rs" "rq_code r = rq_code s"
  shows "r = s"
  using assms by (auto simp: requests_ok_def dest: distinct_map [THEN iffD1] inj_onD)

lemma add_puts_on_file:
  fixes st :: pairing_state
  assumes "resolveAllowFromPath ch account = Inr p" "normalizeAllowEntry E ch entry \<noteq> []"
  defines "st' \<equiv> snd (addChannelAllowFromStoreEntry E ch entry account st)"
  shows "normalizeAllowEntry E ch entry \<in> set (senders_in p st') \<union> set (normalizeAllowFromList E ch (fst (readJsonFile p st')))"
  using assms(1,2) unfolding st'_def
  by (auto simp: addChannelAllowFromStoreEntry_def updateAllowFromStoreEntry_def normalizeAllowFromInput_def Let_def)

lemma pending_if_live:
  "r \<in> set (readPairingRequests p st) \<Longrightarrow> \<not> isExpired E r (int now) \<Longrightarrow> r \<in> set (pending_at E now p st)"
  by (simp add: set_pending_at)

text \<open>An approval of the code of a live request succeeds for that request, and uses the code up.\<close>

lemma approve_live_request:
  assumes path: "resolvePairingPath ch = Inr path" and ok: "requests_ok (readPairingRequests path st)"
    and r: "r \<in> set (readPairingRequests path st)" "\<not> isExpired E r (int now)" and code: "to_upper (trim code) = rq_code r"
    and target: "meta_account r \<noteq> []" "resolveAllowFromPath ch (Some (meta_account r)) = Inr p"
  obtains st' where "approveChannelPairingCode E now ch code None st = (Inr (Some r), st')"
    "\<And>t. fst (approveChannelPairingCode E t ch code None st') = Inr None"
    "normalizeAllowEntry E ch (rq_id r) \<noteq> [] \<Longrightarrow> normalizeAllowEntry E ch (rq_id r) \<in>
       set (senders_in p st') \<union> set (normalizeAllowFromList E ch (fst (readJsonFile p st')))"
proof -
  let ?reqs = "pending_at E now path st"
  have c: "code_ok (rq_code r)" using ok r(1) by (auto simp: requests_ok_def)
  have ne: "to_upper (trim code) \<noteq> []" using code code_ok_simps(1) [OF c] by simp
  have live: "r \<in> set ?reqs" by (rule pending_if_live [OF r])
  have pok: "requests_ok ?reqs" by (rule pending_at_ok [OF ok])
  show thesis
  proof (rule approve_cases [OF path ne, of E now st None])
    fix i e st2
    assume a: "i < length ?reqs" "e = ?reqs ! i" "to_upper (rq_code e) = to_upper (trim code)"
      "st2 = writeRequests E path (take i ?reqs @ drop (Suc i) ?reqs) (approval_store E path st)"
      "approveChannelPairingCode E now ch code None st =
        (case addChannelAllowFromStoreEntry E ch (rq_id e) (approval_account None e) st2 of
           (Inl err, st3) \<Rightarrow> (Inl err, st3) | (Inr _, st3) \<Rightarrow> (Inr (Some e), st3))"
    have e: "e \<in> set ?reqs" using a(1,2) by simp
    then have "code_ok (rq_code e)" using pok by (auto simp: requests_ok_def)
    then have er: "e = r" using a(3) code same_code_unique [OF pok e live] by (simp add: code_ok_simps)
    have "to_lower (trim (meta_account r)) = meta_account r" using ok r(1) by (auto simp: requests_ok_def)
    then have "trim (meta_account r) = meta_account r" by (metis trim_to_lower_trim)
    then have acc: "approval_account None r = Some (meta_account r)" using target(1) by (simp add: approval_account_def str_opt_def)
    define st' where "st' = snd (addChannelAllowFromStoreEntry E ch (rq_id r) (Some (meta_account r)) st2)"
    obtain v where "fst (addChannelAllowFromStoreEntry E ch (rq_id r) (Some (meta_account r)) st2) = Inr v"
      using add_succeeds [OF target(2)] by metis
    then have add: "addChannelAllowFromStoreEntry E ch (rq_id r) (Some (meta_account r)) st2 = (Inr v, st')"
      by (simp add: st'_def prod_eq_iff)
    have rest: "readPairingRequests path st' = take i ?reqs @ drop (Suc i) ?reqs"
      by (simp add: st'_def add_remove_keep_requests(1) [OF path] a(4))
    have "requests_ok (take i ?reqs @ r # drop (Suc i) ?reqs)"
      using pok id_take_nth_drop [OF a(1)] a(2) er by simp
    then have gone: "rq_code r \<notin> rq_code ` set (readPairingRequests path st')"
      by (auto simp: rest requests_ok_def)
    have ok': "requests_ok (readPairingRequests path st')" unfolding rest by (rule requests_ok_remove [OF pok])
    show thesis
    proof (rule that)
      show "approveChannelPairingCode E now ch code None st = (Inr (Some r), st')" using a(5) by (simp add: er acc add)
      show "fst (approveChannelPairingCode E t ch code None st') = Inr None" for t
      proof (rule approve_cases [OF path ne, of E t st' None])
        fix j f
        assume "j < length (pending_at E t path st')" "f = pending_at E t path st' ! j" "to_upper (rq_code f) = to_upper (trim code)"
        moreover from this have "f \<in> set (readPairingRequests path st')" using nth_mem [of j "pending_at E t path st'"] by (auto simp: set_pending_at)
        moreover from this have "code_ok (rq_code f)" using ok' by (auto simp: requests_ok_def)
        ultimately have "f \<in> set (readPairingRequests path st')" "rq_code f = rq_code r" using code by (simp_all add: code_ok_simps)
        then show ?thesis using gone by (metis image_eqI)
      qed simp
      show "normalizeAllowEntry E ch (rq_id r) \<noteq> [] \<Longrightarrow> normalizeAllowEntry E ch (rq_id r) \<in>
          set (senders_in p st') \<union> set (normalizeAllowFromList E ch (fst (readJsonFile p st')))"
        unfolding st'_def by (rule add_puts_on_file [OF target(2)])
    qed
  next
    fix st1 assume "\<forall>r \<in> set ?reqs. \<not> (to_upper (rq_code r) = to_upper (trim code) \<and> requestMatchesAccountId r (normalizePairingAccountId None))"
    then show thesis using live code code_ok_simps(3) [OF c] by (auto simp: requestMatchesAccountId_def normalizePairingAccountId_def)
  qed
qed

text \<open>
  C15: A code that was sent to a sender works for an hour, for that sender, and once. After a
  request was created and its code sent, whatever other requests, listings, approvals of other codes,
  additions, removals and reads follow: within the hour an operator who gives the code, in any case and
  with blanks around it, approves exactly the sender it was sent to, who is then on file for the
  account of the request; and the code is used up.
\<close>

theorem issued_code_works_once:
  fixes E :: pairing_host
  assumes path: "resolvePairingPath ch = Inr path" "resolveAllowFromPath ch (Some (request_account account)) = Inr p"
    and before: "\<forall>(t, op) \<in> set pre. on_channel ch op \<and> uses_alphabet op"
    and issued: "upsertChannelPairingRequest E t0 rnd ch sender account meta (credentials_run E pre empty_credentials) = (Inr (code, True), st1)"
      "\<forall>k i. rnd k i < length PAIRING_CODE_ALPHABET" "0 < t0" "t0 \<le> 8640000000000000"
    and after: "\<forall>(t, op) \<in> set post. on_channel ch op \<and> uses_alphabet op \<and> int t - int t0 \<le> PAIRING_PENDING_TTL_MS \<and>
      (\<forall>c a. op = ApproveOp ch c a \<longrightarrow> to_upper (trim c) \<noteq> code)"
    and given: "to_upper (trim typed) = code" "int t1 - int t0 \<le> PAIRING_PENDING_TTL_MS"
  shows "\<exists>e st2. approveChannelPairingCode E t1 ch typed None (credentials_run E post st1) = (Inr (Some e), st2) \<and>
     rq_id e = trim sender \<and> rq_code e = code \<and> meta_account e = request_account account \<and>
     (\<forall>t. fst (approveChannelPairingCode E t ch typed None st2) = Inr None) \<and>
     (normalizeAllowEntry E ch (trim sender) \<noteq> [] \<longrightarrow> normalizeAllowEntry E ch (trim sender) \<in>
        set (senders_in p st2) \<union> set (normalizeAllowFromList E ch (fst (readJsonFile p st2))))"
proof -
  let ?st0 = "credentials_run E pre empty_credentials"
  let ?r = "new_request t0 sender account meta code (to_iso t0)"
  have ok0: "requests_ok (readPairingRequests path ?st0)" by (rule run_keeps_shape [OF path(1) _ before]) simp
  have ok1: "requests_ok (readPairingRequests path st1)" using upsert_shape [OF path(1) ok0 issued(2,1)] by simp
  have r1: "?r \<in> set (readPairingRequests path st1)"
    by (rule upsert_cases [OF path(1), of E t0 rnd sender account meta ?st0]) (use issued(1) in auto)
  have live: "\<not> isExpired E r' (int t)" if "same_request ?r r'" "int t - int t0 \<le> PAIRING_PENDING_TTL_MS" for r' t
    using that issued(3,4) by (simp add: same_request_def isExpired_iso [of r' t0])
  have "\<forall>(t, op) \<in> set post. on_channel ch op \<and> uses_alphabet op \<and> (\<forall>r'. same_request ?r r' \<longrightarrow> outlives E t ch op r')"
    using after live by (auto simp: outlives_def same_request_def)
  then obtain e where e: "e \<in> set (readPairingRequests path (credentials_run E post st1))" "same_request ?r e"
    using run_keeps [OF path(1) ok1, of post ?r E] r1 same_request_refl by blast
  have "requests_ok (readPairingRequests path (credentials_run E post st1))"
    by (rule run_keeps_shape [OF path(1) ok1]) (use after in auto)
  moreover have "rq_id e = trim sender" "rq_code e = code" "meta_account e = request_account account"
    using e(2) by (simp_all add: same_request_def)
  ultimately show ?thesis
  proof -
    assume ok: "requests_ok (readPairingRequests path (credentials_run E post st1))"
      and same: "rq_id e = trim sender" "rq_code e = code" "meta_account e = request_account account"
    have "to_upper (trim typed) = rq_code e" "meta_account e \<noteq> []" "resolveAllowFromPath ch (Some (meta_account e)) = Inr p"
      using given(1) path(2) same by simp_all
    from approve_live_request [OF path(1) ok e(1) live [OF e(2) given(2)] this] same show ?thesis by metis
  qed
qed

definition plain_host :: pairing_host where
  "plain_host = \<lparr>ph_adapter = (\<lambda>c. None), ph_other_dates = (\<lambda>t. None), ph_collate = length, ph_stat = (\<lambda>n. (n, n))\<rparr>"

definition signal_ops :: "(nat \<times> store_op) list" where
  "signal_ops = [(1000, UpsertOp ''signal'' ''eve'' ''default'' None (\<lambda>a i. 0)), (2000, ApproveOp ''signal'' ''aaaaaaaa'' None)]"

text \<open>
  The run of the example, step by step: timestamps stay symbolic, \<open>parseTimestamp_iso\<close> reads them back.
\<close>

lemma sample_texts [simp]:
  "resolvePairingPath ''signal'' = Inr ''signal-pairing.json''"
  "resolveAllowFromPath ''signal'' (Some ''default'') = Inr ''signal-default-allowFrom.json''"
  "resolveAllowFromPath ''signal'' None = Inr ''signal-allowFrom.json''"
  "request_account ''default'' = ''default''" "trim ''eve'' = ''eve''" "trim ''default'' = ''default''"
  "to_lower ''default'' = ''default''" "to_upper (trim ''aaaaaaaa'') = ''AAAAAAAA''" "to_upper ''AAAAAAAA'' = ''AAAAAAAA''"
  "normalizeAllowEntry plain_host ''signal'' ''eve'' = ''eve''" "resolveAllowFromAccountId None = ''default''"
  "generateUniqueCode [] (\<lambda>a i. 0) = Inr ''AAAAAAAA''" "normalizePairingAccountId None = []"
  "shouldIncludeLegacyAllowFromEntries ''default''" "ph_stat plain_host n = (n, n)"
  by code_simp+

definition sample_pending :: sender_request where
  "sample_pending = new_request 1000 ''eve'' ''default'' None ''AAAAAAAA'' (to_iso 1000)"

lemmas file_eval = ensureJsonFile_def writeJsonFile_def writeRequests_def readJsonFile_def readPairingRequests_def
  empty_credentials_def Let_def

lemma sample_upsert:
  "upsertChannelPairingRequest plain_host 1000 (\<lambda>a i. 0) ''signal'' ''eve'' ''default'' None empty_credentials =
     (Inr (''AAAAAAAA'', True), writeRequests plain_host ''signal-pairing.json'' [sample_pending] (approval_store plain_host ''signal-pairing.json'' empty_credentials))"
  by (simp add: upsertChannelPairingRequest_def pruneExpiredRequests_def pruneExcessRequests_def existing_codes_def
      request_account_def [symmetric] PAIRING_PENDING_MAX_def sample_pending_def new_request_def approval_store_def Let_def)

lemma sample_account: "meta_account sample_pending = ''default''" "rq_code sample_pending = ''AAAAAAAA''" "rq_id sample_pending = ''eve''"
  "rq_createdAt sample_pending = to_iso 1000"
  by (simp_all add: sample_pending_def)

definition sample_asked :: pairing_state where
  "sample_asked = writeRequests plain_host ''signal-pairing.json'' [sample_pending]
     (approval_store plain_host ''signal-pairing.json'' empty_credentials)"

lemma sample_unexpired: "isExpired plain_host sample_pending 2000 = False"
  by (simp add: isExpired_iso [OF sample_account(4)] PAIRING_PENDING_TTL_MS_def)

lemma sample_approve:
  "approveChannelPairingCode plain_host 2000 ''signal'' ''aaaaaaaa'' None sample_asked = (Inr (Some sample_pending),
     snd (addChannelAllowFromStoreEntry plain_host ''signal'' ''eve'' (Some ''default'')
       (writeRequests plain_host ''signal-pairing.json'' [] (approval_store plain_host ''signal-pairing.json'' sample_asked))))"
proof -
  let ?st = "writeRequests plain_host ''signal-pairing.json'' [] (approval_store plain_host ''signal-pairing.json'' sample_asked)"
  obtain r st3 where add: "addChannelAllowFromStoreEntry plain_host ''signal'' ''eve'' (Some ''default'') ?st = (Inr r, st3)"
    using add_succeeds [OF sample_texts(2), of plain_host "''eve''" ?st] by (metis prod.collapse)
  have "readPairingRequests ''signal-pairing.json'' sample_asked = [sample_pending]" by (simp add: sample_asked_def)
  with add show ?thesis
    by (simp add: approveChannelPairingCode_def readPrunedPairingRequests_def pruneExpiredRequests_def sample_unexpired
      sample_account requestMatchesAccountId_def Let_def approval_store_def str_opt_def)
qed

lemma sample_read:
  "fst (readChannelAllowFromStore plain_host True ''signal'' None (credentials_run plain_host signal_ops empty_credentials)) = Inr [''eve'']"
proof -
  have run: "credentials_run plain_host signal_ops empty_credentials = snd (addChannelAllowFromStoreEntry plain_host ''signal'' ''eve'' (Some ''default'')
       (writeRequests plain_host ''signal-pairing.json'' [] (approval_store plain_host ''signal-pairing.json'' sample_asked)))"
    using sample_upsert sample_approve by (simp add: credentials_run_def signal_ops_def sample_asked_def)
  show ?thesis unfolding run
    by (simp add: addChannelAllowFromStoreEntry_def updateAllowFromStoreEntry_def readChannelAllowFromStore_def
        readAllowFromStateForPath_def readAllowFromStateForPathWithExists_def resolveAllowFromReadCacheOrMissing_def
        resolveAllowFromReadCacheHit_def sample_asked_def approval_store_def writeAllowFromState_def setAllowFromReadCache_def
        stat_file_def normalizeAllowFromInput_def normalizeAllowFromList_def dedupePreserveOrder_eq js_set_of_def set_add_def
        nonempty_strs_def file_eval)
qed

lemma approved_senders_asked_first_witness:
  "\<exists>t code a (e :: sender_request). (t, ApproveOp ''signal'' code a) \<in> set signal_ops \<and> to_upper (rq_code e) = to_upper (trim code) \<and>
     (\<exists>t0 a0 meta rnd. (t0, UpsertOp ''signal'' (rq_id e) a0 meta rnd) \<in> set signal_ops)"
proof -
  obtain st' where r: "readChannelAllowFromStore plain_host True ''signal'' None (credentials_run plain_host signal_ops empty_credentials) = (Inr [''eve''], st')"
    using sample_read by (metis prod.collapse)
  have ops: "\<forall>(t, op) \<in> set signal_ops. on_channel ''signal'' op \<and> t \<le> 8640000000000000 \<and> (\<nexists>c e a. op = AddOp c e a)"
    by (simp add: signal_ops_def)
  have "''eve'' \<in> set [''eve'']" by simp
  from approved_senders_asked_first [OF ops r this] obtain pre t code a post and e :: sender_request and t0 sender a0 meta rnd where
    w: "signal_ops = pre @ (t, ApproveOp ''signal'' code a) # post" "to_upper (rq_code e) = to_upper (trim code)"
    "(t0, UpsertOp ''signal'' sender a0 meta rnd) \<in> set pre" "trim sender = rq_id e" by blast
  have sub: "(t, ApproveOp ''signal'' code a) \<in> set signal_ops" "set pre \<subseteq> set signal_ops" unfolding w(1) by auto
  then have "(t0, UpsertOp ''signal'' sender a0 meta rnd) \<in> set signal_ops" using w(3) by blast
  moreover from this have "sender = ''eve''" by (auto simp: signal_ops_def)
  with w(4) have "rq_id e = sender" by simp
  ultimately show ?thesis using sub(1) w(2) by metis
qed

lemma pending_requests_stay_distinct_witness:
  "length (readPairingRequests ''signal-pairing.json'' (credentials_run plain_host signal_ops empty_credentials)) \<le> 3"
proof -
  have "\<forall>(t, op) \<in> set signal_ops. on_channel ''signal'' op \<and> uses_alphabet op"
    by (simp add: signal_ops_def PAIRING_CODE_ALPHABET_def)
  from pending_requests_stay_distinct [OF sample_texts(1) this] show ?thesis by blast
qed

lemma issued_code_works_once_witness:
  "\<exists>e st2. approveChannelPairingCode plain_host 2000 ''signal'' ''aaaaaaaa'' None (credentials_run plain_host
      [(1500, RemoveOp ''signal'' ''bob'' None)] sample_asked) = (Inr (Some e), st2) \<and> rq_id e = ''eve'' \<and>
     (\<forall>t. fst (approveChannelPairingCode plain_host t ''signal'' ''aaaaaaaa'' None st2) = Inr None)"
proof -
  have path: "resolveAllowFromPath ''signal'' (Some (request_account ''default'')) = Inr ''signal-default-allowFrom.json''"
    by simp
  have issued: "upsertChannelPairingRequest plain_host 1000 (\<lambda>a i. 0) ''signal'' ''eve'' ''default'' None
      (credentials_run plain_host [] empty_credentials) = (Inr (''AAAAAAAA'', True), sample_asked)"
    using sample_upsert by (simp add: credentials_run_def sample_asked_def)
  have alphabet: "\<forall>(k :: nat) (i :: nat). (0 :: nat) < length PAIRING_CODE_ALPHABET" by (simp add: PAIRING_CODE_ALPHABET_def)
  have "\<exists>e st2. approveChannelPairingCode plain_host 2000 ''signal'' ''aaaaaaaa'' None (credentials_run plain_host
      [(1500, RemoveOp ''signal'' ''bob'' None)] sample_asked) = (Inr (Some e), st2) \<and>
     rq_id e = trim ''eve'' \<and> rq_code e = ''AAAAAAAA'' \<and> meta_account e = request_account ''default'' \<and>
     (\<forall>t. fst (approveChannelPairingCode plain_host t ''signal'' ''aaaaaaaa'' None st2) = Inr None) \<and>
     (normalizeAllowEntry plain_host ''signal'' (trim ''eve'') \<noteq> [] \<longrightarrow> normalizeAllowEntry plain_host ''signal'' (trim ''eve'') \<in>
        set (senders_in ''signal-default-allowFrom.json'' st2) \<union>
        set (normalizeAllowFromList plain_host ''signal'' (fst (readJsonFile ''signal-default-allowFrom.json'' st2))))"
    by (rule issued_code_works_once [OF sample_texts(1) path _ issued alphabet])
      (simp_all add: PAIRING_PENDING_TTL_MS_def)
  then show ?thesis by auto
qed

section \<open>Behaviours of the code worth knowing\<close>

text \<open>
  The wildcard is refused before the adapter has stripped the prefix of the channel: an entry with
  the prefix and a star becomes the wildcard, which lets everybody in.
\<close>

lemma wildcard_behind_prefix:
  "normalizeAllowEntry (plain_host\<lparr>ph_adapter := (\<lambda>c. Some (drop 3))\<rparr>) ''telegram'' ''tg:*'' = ''*''"
  "normalizeAllowEntry (plain_host\<lparr>ph_adapter := (\<lambda>c. Some (drop 3))\<rparr>) ''telegram'' ''*'' = []"
  by code_simp+

text \<open>
  Two account ids without the characters that a file name may not have, and without two dots in a
  row, have one file only when they are the same up to letter case and surrounding blanks.
\<close>

definition plain_account :: "string \<Rightarrow> bool" where
  "plain_account a \<longleftrightarrow> (let raw = to_lower (trim a) in list_all (\<lambda>c. \<not> bad_file_char c) raw \<and> replace_dots raw = raw)"

lemma plain_accounts_have_own_files:
  assumes "plain_account a" "plain_account b" "resolveAllowFromPath ch (Some a) = Inr p" "resolveAllowFromPath ch (Some b) = Inr p"
  shows "to_lower (trim a) = to_lower (trim b)"
proof -
  have kept: "map (\<lambda>c. if bad_file_char c then CHR ''_'' else c) s = s" if "list_all (\<lambda>c. \<not> bad_file_char c) s" for s
    using that by (induction s) auto
  have path: "\<exists>base. safeChannelKey ch = Inr base \<and>
      p = base @ (if trim x = [] then ''-allowFrom.json'' else ''-'' @ to_lower (trim x) @ ''-allowFrom.json'')"
    if "plain_account x" "resolveAllowFromPath ch (Some x) = Inr p" for x
    using that kept [of "to_lower (trim x)"]
    by (auto simp: plain_account_def resolveAllowFromPath_def safeAccountKey_def safe_key_def Let_def split: sum.splits if_splits)
  show ?thesis using path [OF assms(1,3)] path [OF assms(2,4)] by (auto split: if_splits)
qed

text \<open>Different account ids may share a file, so the senders of one are approved for the other.\<close>

lemma accounts_may_share_a_file:
  "resolveAllowFromPath ''telegram'' (Some ''a/b'') = resolveAllowFromPath ''telegram'' (Some ''a_b'')"
  by code_simp

text \<open>
  An approval removes the request before the sender is put on file: with an account id that is no
  file name it fails, and the request is gone.
\<close>

lemma failed_approval_loses_request:
  "let r = approveChannelPairingCode plain_host 2000 ''signal'' ''aaaaaaaa'' (Some ''/'')
      (sample_asked\<lparr>ps_files := [(''signal-pairing.json'', \<lparr>sf_content = PairingFile (Some
         [sample_pending\<lparr>rq_meta := Some [(''accountId'', ''/'')]\<rparr>]), sf_mtimeMs = 0, sf_size = 0, sf_readable = True\<rparr>)]\<rparr>) in
   fst r = Inl ''invalid pairing account id'' \<and> readPairingRequests ''signal-pairing.json'' (snd r) = []"
proof -
  have live: "isExpired plain_host (sample_pending\<lparr>rq_meta := m\<rparr>) 2000 = False" for m
    using sample_unexpired by (simp add: isExpired_def)
  have texts: "normalizePairingAccountId (Some ''/'') = ''/''" "trim ''/'' = ''/''" "to_lower ''/'' = ''/''" "str_opt ''/'' = Some ''/''"
    "resolveAllowFromPath ''signal'' (Some ''/'') = Inl ''invalid pairing account id''" by code_simp+
  show ?thesis
    by (simp add: approveChannelPairingCode_def readPrunedPairingRequests_def pruneExpiredRequests_def live texts sample_account
        requestMatchesAccountId_def meta_account_def add_error_keeps file_eval)
qed

text \<open>A list that cannot be read at the moment is taken for empty, and an addition then replaces it.\<close>

lemma unreadable_list_is_replaced:
  "let st = empty_credentials\<lparr>ps_files := [(''signal-default-allowFrom.json'', \<lparr>sf_content = AllowFile (Some [''alice'', ''bob'']),
         sf_mtimeMs = 0, sf_size = 9, sf_readable = False\<rparr>)]\<rparr> in
   senders_in ''signal-default-allowFrom.json'' (snd (addChannelAllowFromStoreEntry plain_host ''signal'' ''eve'' (Some ''default'') st)) = [''eve'']"
  by code_simp

end
