(* ===== verification/Spec2Isabelle.thy ===== *)
theory Spec2Isabelle
  imports OperatorScopes NodeCommands SsrfGuard GatewayNet RateLimits RunGuard CommandQueue DevicePairing AgentRouting HeartbeatWake NodeRegistry
    FollowupQueue NodeInvoke AccessPolicy PairingStore
begin

text \<open>
  A verification library for the policy code of the gateway: who may call what, which addresses
  and origins are trusted, which commands need no approval, how often something may be tried, which command an operator's
  approval covers, which devices and tokens are live, in which order queued work runs, and which
  agent and session a message belongs to, and who may write to the agent at all. The program is the TypeScript gateway under src/ of the repository; its
  I/O (WebSocket, HTTP, chat services, files, language models) surrounds pure or small-state
  policy modules, and those modules are what is modelled.

  Parts, and the theory of each.

  \<^item> JsPrelude: the vocabulary. Strings are lists of characters with code 0 to 255, so text
    outside Latin-1 is not covered; \<open>undefined\<close> and \<open>null\<close> are None where the code does not
    distinguish them and nested options where it does; \<open>Set\<close> and \<open>Map\<close> are lists in
    insertion order; an object used as a dictionary is an association list, without prototype
    keys and without the reordering of integer keys. \<open>trim\<close>, \<open>split\<close>, \<open>join\<close>,
    \<open>startsWith\<close>, \<open>toLowerCase\<close>, \<open>toUpperCase\<close> are defined here with the lemmas the components share.
  \<^item> OperatorScopes: src/gateway/method-scopes.ts, role-policy.ts,
    src/shared/operator-scope-compat.ts, device-auth.ts. The table of methods is the one of the
    source, name by name. Shown: each method has the scope of its group, the check of a call
    grants exactly what the table says, it agrees with the check of device tokens, and that is
    monotone.
  \<^item> NodeCommands: src/gateway/node-command-policy.ts, src/infra/node-commands.ts,
    src/gateway/device-metadata-normalization.ts. Shown: a command is allowed only if the
    platform or the operator grants it and the node declares it; denial wins.
  \<^item> IpAddresses, SsrfGuard: src/shared/net, src/infra/net. Parsing is the package ipaddr.js, a
    record of parameters; decoding of IPv4 addresses embedded in IPv6 is on machine words.
    Shown: a resolved host has only admissible addresses, tunnelled private addresses are
    found, the check before a proxy agrees with the full one, the pinned lookup is confined to
    the checked addresses and serves them in turn.
  \<^item> GatewayNet: src/gateway/net.ts, origin-check.ts, src/infra/tailnet.ts. Shown: the client
    address is the last untrusted hop of the forwarded header of a trusted proxy, or the socket
    address, so what a client prepends does not matter; an unusable header fails closed, the bind
    address can be bound, an accepted origin has one of three reasons, plaintext
    WebSockets stay private.
  \<^item> JsNumber, RateLimits: numbers with NaN and infinities; the limiters of
    src/gateway/auth-rate-limit.ts, control-plane-rate-limit.ts,
    src/infra/fixed-window-rate-limit.ts and the duplicate filter of src/infra/dedupe.ts. The
    locale \<open>window_limiter\<close> holds the argument about windows once; it is interpreted on the fixed
    window and on the control-plane budget.
  \<^item> ExecWrappers, ExecApprovals, RunGuard: the path of a command to a node. ExecWrappers has
    the recognition of wrappers and the display text (src/infra/exec-wrapper-resolution.ts,
    shell-inline-command.ts, system-run-command.ts), ExecApprovals the manager of approvals as
    operations on its state and a step relation with an invariant
    (src/gateway/exec-approval-manager.ts) and the binding of an approval, RunGuard the handlers
    of src/gateway/server-methods/exec-approval.ts and the guard of
    src/gateway/node-invoke-system-run-approval.ts. Shown: a command is forwarded as approved
    only under a live approval of the same node, caller, arguments, directory and environment;
    a one-time approval is used once; what a request can be used for.
  \<^item> ShellSyntax: src/utils/shell-argv.ts and the scanners of src/infra/exec-approvals-analysis.ts:
    words, chains of \<open>&&\<close>, \<open>||\<close> and \<open>;\<close>, pipelines and here documents, and the command lines that
    are rebuilt with every word quoted. Shown: an accepted pipeline without a here document, a
    comment, a \<open>$'...'\<close> string and an expansion \<open>${...}\<close> or \<open>$[...]\<close> has no live shell operator but its
    pipes (with those it may hide a command, as examples show), and a rebuilt command is read again
    as the same structure.
  \<^item> SafeBins: src/infra/exec-safe-bin-policy-profiles.ts, exec-safe-bin-policy-validator.ts, the
    profiles of programs that read only their standard input. Shown: the check of the arguments
    accepts exactly the sentences of an inductive grammar, which admits unknown short flags in a
    cluster.
  \<^item> CommandResolution: src/infra/exec-command-resolution.ts, executable-path.ts, home-dir.ts,
    exec-allowlist-pattern.ts and the rest of exec-approvals-analysis.ts. The process and its file
    system are a record \<open>host\<close>; \<open>path.posix\<close> of Node is defined on segments. Shown: a pattern with
    single stars is matched directory by directory, an enforced command line is read as the
    planned argvs in the shape of its source.
  \<^item> ExecAllowlist: src/infra/exec-approvals-allowlist.ts, exec-safe-bin-trust.ts. Shown: a command
    that the allowlist satisfies has a justification for every segment, and its segments are all
    the argvs of the command; what "allow always" persists names no shell and no
    dispatch wrapper of the tables of the code.
  \<^item> HostEnv: src/infra/host-env-security.ts. Shown: no variable of a command changes what a program
    loads, and a request never sets PATH, HOME or ZDOTDIR.
  \<^item> ApprovalSettings: src/infra/exec-approvals.ts, the settings file of approvals as a value that
    the operations return. Shown: its normal form has the right shape and is stable, and an
    executable that was always allowed is matched when the file is read again, except for an agent
    called default.
  \<^item> SystemRunPlan, SystemRun: src/node-host/invoke-system-run.ts with invoke-system-run-allowlist.ts,
    invoke-system-run-plan.ts, exec-policy.ts and src/infra/exec-safe-bin-runtime-policy.ts: a run
    request on a node from its parameters to the started process, as a trace of what is sent and
    started; the file system of the decision and that of the start are two arguments. Shown: a
    command without approval is a vouched segment and runs as planned, an approved command is
    pinned to its executable and directory, every request gets the one answer that its contents
    call for (the relation \<open>run_conversation\<close> says when it is invalid, refused, or run), the
    search for symbolic links ends and misses no ancestor (termination by the length of a path).
  \<^item> NodeInvoke: src/node-host/invoke.ts and src/gateway/server-methods/exec-approvals.ts: the
    dispatch of invocations, the settings over the wire, the capture of the output of a process as a
    fold over its events. Shown: the settings refine a compare-and-swap register, the captured output
    is exactly the first bytes before the end. An encoding of the settings as text stands for JSON
    in the example.
  \<^item> CommandQueue: src/process/command-queue.ts and lanes.ts. The lanes are the state; the calls
    that one turn of the event loop nests (a task that enqueues, clears or resets while the lane
    is drained) are an explicit stack of frames, run by \<open>run_frames\<close>, whose termination is proved
    with a weight of the frames and of the queued tasks. The locale \<open>turn_invariant\<close> turns an
    invariant of single frames into one of whole turns. Shown: a lane with queued work and a
    free slot never waits, every promise is settled, pending or running exactly once, lanes are
    first-in first-out and keep their limit.
  \<^item> DevicePairing: src/infra/device-pairing.ts, pairing-pending.ts, pairing-token.ts. The store of
    pending and paired devices; each operation is one step, as the lock of the code makes it;
    clocks, random ids and tokens are arguments. Shown: the scopes of a token were
    approved, or passed by the caller that issued it, or are implied by those; a revoked token stays dead, the store keeps its shape, the closure of implied scopes
    is exact.
  \<^item> SessionKeys: src/routing/session-key.ts, account-id.ts, src/sessions/session-key-utils.ts.
    Regular expressions are functions on the segments between colons; the two caches of account
    ids are passed along. Shown: stored keys are fixed points and are read back, direct messages
    of different effective peers (linked names or ids, in lower case) are kept apart, a thread leads back to its parent, a key names its agent.
  \<^item> AgentRouting: src/routing/resolve-route.ts, bindings.ts, account-lookup.ts. The three weak
    maps are maps keyed by the identity of a configuration, and the parts of a configuration
    have identities too, which the caches compare. Shown: the index finds what a search of the
    whole list in the order of the tiers finds, any sequence of requests gets the routes it would
    get without caches, a route never names an agent that is not configured.
  \<^item> ChannelIds: src/channels/registry.ts, src/utils/message-channel.ts,
    src/auto-reply/reply/reply-routing-helpers.ts, the names of channels which routing and the
    queues compare.
  \<^item> HeartbeatWake: src/infra/heartbeat-wake.ts and heartbeat-reason.ts. Requests, the timer, the
    calls of the handler and the changes of the handler are the rules of the relation
    \<open>wake_step\<close>; a run of the handler is stopped at each of its awaits. Shown: a wake is only gone
    when the handler has answered it, the handler is called for every waiting wake if timers fire and
    handlers answer, even after a restart that left a call hanging; the
    pause after a busy lane is not shortened.
  \<^item> NodeRegistry: src/gateway/node-registry.ts. Shown: every invocation ends exactly once, by a
    result, a timeout or a rejection; the registered nodes are those of live connections, as
    long as a node does not reconnect before its old connection is closed.
  \<^item> FollowupQueue: src/auto-reply/reply/queue and src/utils/queue-helpers.ts. A queue is an object
    with an identity, as a drain keeps its queue when the map has another; a drain is a process
    that is stopped at its awaits, and the events (enqueue, schedule, clear, resume, success or
    failure of a call) come in any order. Shown: with the policy "new" accepted messages are
    delivered once and in order, a queue keeps its cap; and how "summarize" loses messages.

  \<^item> AccessPolicy: src/security/dm-policy-shared.ts, src/channels/allow-from.ts,
    command-gating.ts, mention-gating.ts, allowlist-match.ts, src/plugin-sdk/command-auth.ts and
    src/config/runtime-group-policy.ts: who may write to the agent and who may command it. The
    check of a sender against a list is the locale \<open>sender_check\<close>. Shown: what is approved in
    direct messages decides nothing in a group.
  \<^item> JsDate, PairingStore: the timestamps that are stored, with the round trip of toISOString and
    Date.parse, and src/pairing/pairing-store.ts: pending requests, their codes and the approved
    senders as files of one state, with the cache of reads. Shown: a sender is in the file of a list only after
    asking and being approved within the hour, at most three requests are pending with distinct
    codes, and a code that was sent works for an hour, for its sender, once.

  Conventions. Time is an argument of each operation, in integer milliseconds. An operation runs
  to its end before the next starts, as on the event loop; a timer is an element of a list and
  its firing a step. Errors and exceptions are left values of a sum. The walk through dispatch
  wrappers has the fuel \<open>MAX_DISPATCH_WRAPPER_DEPTH\<close> of the code itself; the turn of the command
  queue terminates by a measure; every other loop is structural or ends by the length of a string or a path.

  Parameters: ipaddr.js, \<open>net.isIP\<close>, the URL parser, the file system and the environment of the process, the started processes and the companion app, network interfaces, DNS, JSON, SHA-256, the
  collation of \<open>localeCompare\<close>, random ids.

  Not modelled: sockets, files, schema validation, logging and broadcasts; the agent runner,
  the adapters of the channels, memory, browser control, hooks, plugins, command line and user interfaces, which
  are mostly I/O around third-party libraries.
\<close>

end
